(* ===== verification/Prelude.thy ===== *)
theory Prelude
  imports Complex_Main "HOL-Library.Word" "HOL-Library.Sublist"
begin

text \<open>
  Shared vocabulary of the development.

  \<^item> JavaScript numbers: \<open>jsnum\<close> is a finite value (an exact rational: every finite
    double is one), one of the infinities, or NaN. Comparisons with NaN are false.
    \<open>as_safe_nat\<close> is the guard \<open>Number.isSafeInteger(x) && x >= 0\<close> the code puts in front of
    every offset, watermark and sequence number.
  \<^item> Bytes are 8-bit words, a \<open>Uint8Array\<close> is a list of them.
  \<^item> A JavaScript \<open>Map\<close> is an association list in insertion order: \<open>jm_set\<close> overwrites in place
    or appends, \<open>jm_delete\<close> removes, iteration is the list itself. The laws the clients use are
    the locale \<open>keyed_store\<close>, interpreted here on these operations.
  \<^item> Slices of a byte stream at absolute offsets (\<open>slice_at\<close>), the common currency of the frame
    codec, the acknowledgement ring, the gateway stream and the terminal's tracker.
\<close>

named_theorems js_simps \<open>unfolding rules for the JavaScript primitives\<close>
named_theorems inv_intros \<open>invariant preservation, one rule per operation\<close>
named_theorems ledger_simps \<open>lookup and update rules of the stores\<close>

type_synonym byte = "8 word"

section \<open>JavaScript numbers\<close>

datatype jsnum = Fin rat | PosInf | NegInf | NaN

definition max_safe_nat :: nat where
  "max_safe_nat = 2 ^ 53 - 1"

definition is_finite_num :: "jsnum \<Rightarrow> bool" where
  "is_finite_num x = (case x of Fin _ \<Rightarrow> True | _ \<Rightarrow> False)"

definition is_integer_rat :: "rat \<Rightarrow> bool" where
  "is_integer_rat q = (of_int \<lfloor>q\<rfloor> = q)"

definition is_safe_integer :: "jsnum \<Rightarrow> bool" where
  "is_safe_integer x = (case x of
     Fin q \<Rightarrow> is_integer_rat q \<and> \<bar>q\<bar> \<le> of_nat max_safe_nat
   | _ \<Rightarrow> False)"

definition as_safe_nat :: "jsnum \<Rightarrow> nat option" where
  "as_safe_nat x = (case x of
     Fin q \<Rightarrow> if is_safe_integer x \<and> 0 \<le> q then Some (nat \<lfloor>q\<rfloor>) else None
   | _ \<Rightarrow> None)"

definition num :: "nat \<Rightarrow> jsnum" where
  "num n = Fin (of_nat n)"

fun num_le :: "jsnum \<Rightarrow> jsnum \<Rightarrow> bool" where
  "num_le NaN _ = False"
| "num_le _ NaN = False"
| "num_le NegInf _ = True"
| "num_le _ PosInf = True"
| "num_le (Fin a) (Fin b) = (a \<le> b)"
| "num_le _ _ = False"

fun num_less :: "jsnum \<Rightarrow> jsnum \<Rightarrow> bool" where
  "num_less NaN _ = False"
| "num_less _ NaN = False"
| "num_less NegInf NegInf = False"
| "num_less NegInf _ = True"
| "num_less PosInf _ = False"
| "num_less (Fin _) PosInf = True"
| "num_less (Fin a) (Fin b) = (a < b)"
| "num_less (Fin _) NegInf = False"

lemma num_less_imp_le: "num_less a b \<Longrightarrow> num_le a b"
  by (cases a; cases b) auto

lemma num_less_le_trans: "num_less a b \<Longrightarrow> num_le b c \<Longrightarrow> num_less a c"
  by (cases a; cases b; cases c) auto

lemma num_le_less_trans: "num_le a b \<Longrightarrow> num_less b c \<Longrightarrow> num_less a c"
  by (cases a; cases b; cases c) auto

lemma num_le_trans: "num_le a b \<Longrightarrow> num_le b c \<Longrightarrow> num_le a c"
  by (cases a; cases b; cases c) auto

lemma num_not_less: "a \<noteq> NaN \<Longrightarrow> b \<noteq> NaN \<Longrightarrow> \<not> num_less a b \<longleftrightarrow> num_le b a"
  by (cases a; cases b) auto

lemma floor_nat_of_int: "of_int \<lfloor>q\<rfloor> = (q::rat) \<Longrightarrow> 0 \<le> q \<Longrightarrow> of_nat (nat \<lfloor>q\<rfloor>) = q"
  by (metis of_nat_nat zero_le_floor)

lemma as_safe_nat_SomeD: "as_safe_nat x = Some n \<Longrightarrow> x = num n \<and> n \<le> max_safe_nat"
proof -
  assume a: "as_safe_nat x = Some n"
  then obtain q where x: "x = Fin q" and q: "of_int \<lfloor>q\<rfloor> = q" "0 \<le> q" "\<bar>q\<bar> \<le> of_nat max_safe_nat"
    and n: "n = nat \<lfloor>q\<rfloor>"
    by (auto simp: as_safe_nat_def is_safe_integer_def is_integer_rat_def
        split: jsnum.splits if_splits)
  have e: "(of_nat n :: rat) = q" using floor_nat_of_int [OF q(1,2)] n by simp
  with q have "(of_nat n :: rat) \<le> of_nat max_safe_nat" by simp
  then have "n \<le> max_safe_nat" by (simp only: of_nat_le_iff)
  with e x show ?thesis by (simp add: num_def)
qed

lemma as_safe_nat_num [simp]: "n \<le> max_safe_nat \<Longrightarrow> as_safe_nat (num n) = Some n"
proof -
  assume n: "n \<le> max_safe_nat"
  have f: "\<lfloor>(of_nat n :: rat)\<rfloor> = int n" by (metis floor_of_int of_int_of_nat_eq)
  have "(of_nat n :: rat) \<le> of_nat max_safe_nat" using n by (simp only: of_nat_le_iff)
  with f show ?thesis
    by (simp add: as_safe_nat_def num_def is_safe_integer_def is_integer_rat_def)
qed

lemma as_safe_nat_iff: "as_safe_nat x = Some n \<longleftrightarrow> x = num n \<and> n \<le> max_safe_nat"
  using as_safe_nat_SomeD by fastforce

lemma num_inject [simp]: "num a = num b \<longleftrightarrow> a = b"
  by (simp add: num_def)

section \<open>Maps in insertion order\<close>

type_synonym ('k, 'v) jmap = "('k \<times> 'v) list"

definition jm_get :: "('k, 'v) jmap \<Rightarrow> 'k \<Rightarrow> 'v option" where
  "jm_get m k = map_of m k"

definition jm_has :: "('k, 'v) jmap \<Rightarrow> 'k \<Rightarrow> bool" where
  "jm_has m k = (k \<in> set (map fst m))"

fun jm_set :: "('k, 'v) jmap \<Rightarrow> 'k \<Rightarrow> 'v \<Rightarrow> ('k, 'v) jmap" where
  "jm_set [] k v = [(k, v)]"
| "jm_set ((k', v') # m) k v = (if k' = k then (k, v) # m else (k', v') # jm_set m k v)"

definition jm_delete :: "('k, 'v) jmap \<Rightarrow> 'k \<Rightarrow> ('k, 'v) jmap" where
  "jm_delete m k = filter (\<lambda>(k', _). k' \<noteq> k) m"

definition jm_keys :: "('k, 'v) jmap \<Rightarrow> 'k list" where
  "jm_keys m = map fst m"

definition jm_values :: "('k, 'v) jmap \<Rightarrow> 'v list" where
  "jm_values m = map snd m"

definition jm_ok :: "('k, 'v) jmap \<Rightarrow> bool" where
  "jm_ok m = distinct (map fst m)"

lemma set_keys_jm_set [simp]: "fst ` set (jm_set m k v) = insert k (fst ` set m)"
  by (induction m k v rule: jm_set.induct) auto

lemma jm_get_set: "jm_get (jm_set m k v) k' = (if k' = k then Some v else jm_get m k')"
  by (induction m k v rule: jm_set.induct) (auto simp: jm_get_def)

lemma jm_get_delete: "jm_get (jm_delete m k) k' = (if k' = k then None else jm_get m k')"
  by (induction m) (auto simp: jm_get_def jm_delete_def)

lemma jm_ok_set [simp]: "jm_ok m \<Longrightarrow> jm_ok (jm_set m k v)"
  by (induction m k v rule: jm_set.induct) (auto simp: jm_ok_def)

lemma jm_ok_delete [simp]: "jm_ok m \<Longrightarrow> jm_ok (jm_delete m k)"
  by (induction m) (auto simp: jm_ok_def jm_delete_def)

lemma jm_get_None_iff: "jm_get m k = None \<longleftrightarrow> k \<notin> fst ` set m"
  by (simp add: jm_get_def map_of_eq_None_iff)

lemma jm_has_iff_get: "jm_has m k \<longleftrightarrow> jm_get m k \<noteq> None"
  by (simp add: jm_has_def jm_get_None_iff)

lemma jm_get_in_set: "jm_get m k = Some v \<Longrightarrow> (k, v) \<in> set m"
  by (simp add: jm_get_def map_of_SomeD)

lemma in_set_jm_get: "jm_ok m \<Longrightarrow> (k, v) \<in> set m \<Longrightarrow> jm_get m k = Some v"
  by (simp add: jm_ok_def jm_get_def)

lemma set_jm_delete: "set (jm_delete m k) = {(k', v). (k', v) \<in> set m \<and> k' \<noteq> k}"
  by (auto simp: jm_delete_def)

lemma keys_jm_delete [simp]: "fst ` set (jm_delete m k) = fst ` set m - {k}"
  by (auto simp: set_jm_delete image_iff)

lemma jm_delete_subset: "set (jm_delete m k) \<subseteq> set m"
  by (auto simp: jm_delete_def)

lemma jm_ok_Nil [simp]: "jm_ok []"
  by (simp add: jm_ok_def)

lemma jm_set_fresh: "jm_get m k = None \<Longrightarrow> jm_set m k v = m @ [(k, v)]"
  by (induction m) (auto simp: jm_get_def split: if_splits)

lemma jm_get_snoc: "jm_get m k = None \<Longrightarrow> jm_get (m @ [(k, v)]) k' = (if k' = k then Some v else jm_get m k')"
  using jm_get_set [of m k v k'] by (simp add: jm_set_fresh)

text \<open>
  What the clients of a keyed store rely on: a lookup after a write or a removal, and that both
  keep the well-formedness of the store.
\<close>

locale keyed_store =
  fixes get :: "'m \<Rightarrow> 'k \<Rightarrow> 'v option"
    and put :: "'m \<Rightarrow> 'k \<Rightarrow> 'v \<Rightarrow> 'm"
    and del :: "'m \<Rightarrow> 'k \<Rightarrow> 'm"
    and ok :: "'m \<Rightarrow> bool"
  assumes get_put: "get (put m k v) k' = (if k' = k then Some v else get m k')"
    and get_del: "get (del m k) k' = (if k' = k then None else get m k')"
    and ok_put: "ok m \<Longrightarrow> ok (put m k v)"
    and ok_del: "ok m \<Longrightarrow> ok (del m k)"
begin

lemma get_put_same [simp]: "get (put m k v) k = Some v"
  by (simp add: get_put)

lemma get_put_other [simp]: "k' \<noteq> k \<Longrightarrow> get (put m k v) k' = get m k'"
  by (simp add: get_put)

lemma get_del_same [simp]: "get (del m k) k = None"
  by (simp add: get_del)

lemma put_put_get: "get (put (put m k v) k v') = get (put m k v')"
  by (rule ext) (simp add: get_put)

lemma fold_del_get: "get (fold (\<lambda>k m. del m k) ks m) k = (if k \<in> set ks then None else get m k)"
  by (induction ks arbitrary: m) (auto simp: get_del)

end

interpretation jm: keyed_store jm_get jm_set jm_delete jm_ok
  by unfold_locales (simp_all add: jm_get_set jm_get_delete)

text \<open>A JavaScript \<open>Set\<close>: distinct members in insertion order.\<close>

definition js_set_add :: "'a list \<Rightarrow> 'a \<Rightarrow> 'a list" where
  "js_set_add xs x = (if x \<in> set xs then xs else xs @ [x])"

definition js_set_delete :: "'a list \<Rightarrow> 'a \<Rightarrow> 'a list" where
  "js_set_delete xs x = filter (\<lambda>y. y \<noteq> x) xs"

lemma set_js_set_add [simp]: "set (js_set_add xs x) = insert x (set xs)"
  by (auto simp: js_set_add_def)

lemma set_js_set_delete [simp]: "set (js_set_delete xs x) = set xs - {x}"
  by (auto simp: js_set_delete_def)

lemma distinct_js_set_add [simp]: "distinct (js_set_add xs x) = distinct xs"
  by (simp add: js_set_add_def)

lemma distinct_js_set_delete [simp]: "distinct xs \<Longrightarrow> distinct (js_set_delete xs x)"
  by (simp add: js_set_delete_def)

section \<open>Slices of a stream\<close>

definition slice_at :: "'a list \<Rightarrow> nat \<Rightarrow> 'a list \<Rightarrow> bool" where
  "slice_at S off bs = (off + length bs \<le> length S \<and> bs = take (length bs) (drop off S))"

lemma slice_at_Nil [simp]: "slice_at S off [] \<longleftrightarrow> off \<le> length S"
  by (simp add: slice_at_def)

lemma slice_atI: "off + n \<le> length S \<Longrightarrow> slice_at S off (take n (drop off S))"
  by (simp add: slice_at_def)

lemma slice_at_append: "slice_at S off bs \<Longrightarrow> slice_at (S @ T) off bs"
  by (auto simp: slice_at_def)

lemma slice_at_drop: "slice_at S off bs \<Longrightarrow> k \<le> length bs \<Longrightarrow> slice_at S (off + k) (drop k bs)"
  by (simp add: slice_at_def) (metis add.commute drop_drop drop_take)

lemma slice_at_extend: "slice_at S n bs \<Longrightarrow> take n S @ bs = take (n + length bs) S"
  by (auto simp: slice_at_def take_add)

lemma take_drop_split: "n \<le> m \<Longrightarrow> take m xs = take n xs @ take (m - n) (drop n xs)"
  by (metis le_add_diff_inverse take_add)

section \<open>Options and lists\<close>

abbreviation defined :: "'a option \<Rightarrow> bool" where
  "defined x \<equiv> x \<noteq> None"

lemma filter_find_None: "find P xs = None \<longleftrightarrow> (\<forall>x\<in>set xs. \<not> P x)"
  by (induction xs) auto

lemma find_SomeD: "find P xs = Some x \<Longrightarrow> x \<in> set xs \<and> P x"
  by (induction xs) (auto split: if_splits)

lemma sorted_wrt_filter_snoc:
  "sorted_wrt R xs \<Longrightarrow> (\<And>x. x \<in> set xs \<Longrightarrow> R x y) \<Longrightarrow> sorted_wrt R (xs @ [y])"
  by (simp add: sorted_wrt_append)

section \<open>Sorting by a comparator\<close>

text \<open>\<open>Array.prototype.sort\<close> is stable; \<open>js_sort cmp\<close> is the stable insertion sort by the same
  comparator, which gives the same list for every comparator that is a total preorder.\<close>

fun js_insert :: "('a \<Rightarrow> 'a \<Rightarrow> int) \<Rightarrow> 'a \<Rightarrow> 'a list \<Rightarrow> 'a list" where
  "js_insert cmp x [] = [x]"
| "js_insert cmp x (y # ys) = (if cmp x y \<le> 0 then x # y # ys else y # js_insert cmp x ys)"

definition js_sort :: "('a \<Rightarrow> 'a \<Rightarrow> int) \<Rightarrow> 'a list \<Rightarrow> 'a list" where
  "js_sort cmp xs = foldr (js_insert cmp) xs []"

lemma set_js_insert [simp]: "set (js_insert cmp x ys) = insert x (set ys)"
  by (induction ys) auto

lemma set_js_sort [simp]: "set (js_sort cmp xs) = set xs"
  by (induction xs) (simp_all add: js_sort_def)

lemma length_js_insert [simp]: "length (js_insert cmp x ys) = Suc (length ys)"
  by (induction ys) auto

lemma length_js_sort [simp]: "length (js_sort cmp xs) = length xs"
  by (induction xs) (simp_all add: js_sort_def)

lemma distinct_js_insert [simp]: "distinct (map f (js_insert cmp x ys)) = distinct (f x # map f ys)"
  by (induction ys) auto

lemma js_sort_Cons: "js_sort cmp (x # xs) = js_insert cmp x (js_sort cmp xs)"
  by (simp add: js_sort_def)

lemma distinct_js_sort [simp]: "distinct (map f (js_sort cmp xs)) = distinct (map f xs)"
proof (induction xs)
  case Nil
  then show ?case by (simp add: js_sort_def)
next
  case (Cons x xs)
  then show ?case by (simp add: js_sort_Cons)
qed

lemma sorted_js_insert:
  assumes "\<And>x y. cmp x y \<le> 0 \<or> cmp y x \<le> 0" "\<And>x y z. cmp x y \<le> 0 \<Longrightarrow> cmp y z \<le> 0 \<Longrightarrow> cmp x z \<le> 0"
    and "sorted_wrt (\<lambda>x y. cmp x y \<le> 0) ys"
  shows "sorted_wrt (\<lambda>x y. cmp x y \<le> 0) (js_insert cmp x ys)"
  using assms(3)
proof (induction ys)
  case (Cons y ys)
  then show ?case using assms(1) [of x y] assms(2) [of x y] by auto
qed simp

lemma sorted_js_sort:
  assumes "\<And>x y. cmp x y \<le> 0 \<or> cmp y x \<le> 0" "\<And>x y z. cmp x y \<le> 0 \<Longrightarrow> cmp y z \<le> 0 \<Longrightarrow> cmp x z \<le> 0"
  shows "sorted_wrt (\<lambda>x y. cmp x y \<le> 0) (js_sort cmp xs)"
  by (induction xs) (simp_all add: js_sort_def sorted_js_insert [OF assms])

section \<open>Strings\<close>

text \<open>White space that \<open>String.prototype.trim\<close> removes, within the 8-bit character range of the model.\<close>

definition js_ws :: "char \<Rightarrow> bool" where
  "js_ws c = ((of_char c :: nat) \<in> {9, 10, 11, 12, 13, 32, 160})"

definition js_trim :: "string \<Rightarrow> string" where
  "js_trim s = rev (dropWhile js_ws (rev (dropWhile js_ws s)))"

definition is_blank :: "string \<Rightarrow> bool" where
  "is_blank s = (js_trim s = [])"

lemma is_blank_iff: "is_blank s \<longleftrightarrow> list_all js_ws s"
proof -
  have "dropWhile js_ws (rev (dropWhile js_ws s)) = [] \<longleftrightarrow> dropWhile js_ws s = []"
    by (metis dropWhile_eq_Nil_conv dropWhile_idem rev_is_Nil_conv set_rev)
  then show ?thesis by (auto simp: is_blank_def js_trim_def list_all_iff)
qed

text \<open>Comparison by code unit, the binary collation of the store and JavaScript's order on strings.\<close>

fun str_cmp :: "string \<Rightarrow> string \<Rightarrow> int" where
  "str_cmp [] [] = 0"
| "str_cmp [] (b # bs) = -1"
| "str_cmp (a # as) [] = 1"
| "str_cmp (a # as) (b # bs) =
    (if a = b then str_cmp as bs else if (of_char a :: nat) < of_char b then -1 else 1)"

lemma str_cmp_total: "str_cmp a b \<le> 0 \<or> str_cmp b a \<le> 0"
  by (induction a b rule: str_cmp.induct) auto

lemma str_cmp_trans: "str_cmp a b \<le> 0 \<Longrightarrow> str_cmp b c \<le> 0 \<Longrightarrow> str_cmp a c \<le> 0"
proof (induction a b arbitrary: c rule: str_cmp.induct)
  case (2 b bs)
  then show ?case by (cases c) auto
next
  case (4 a as b bs)
  show ?case
  proof (cases c)
    case (Cons d ds)
    then show ?thesis using 4 by (auto split: if_splits)
  qed (use 4 in auto)
qed auto

lemma str_cmp_refl [simp]: "str_cmp a a = 0"
  by (induction a) auto

lemma str_cmp_0: "str_cmp a b = 0 \<longleftrightarrow> a = b"
  by (induction a b rule: str_cmp.induct) auto

lemma str_cmp_neg: "str_cmp a b < 0 \<longleftrightarrow> 0 < str_cmp b a"
  by (induction a b rule: str_cmp.induct) auto

text \<open>Lexicographic combination, the order of a two-column \<open>ORDER BY\<close>.\<close>

definition then_cmp :: "int \<Rightarrow> int \<Rightarrow> int" where
  "then_cmp c d = (if c \<noteq> 0 then c else d)"

section \<open>Histories\<close>

text \<open>
  Contracts that several stateful components share. \<open>invariant_system\<close>: every step keeps a predicate of
  the state. \<open>evolution\<close>: every step moves the state upwards in a preorder (rows are not lost, columns are
  written once, a journal is only appended to), so any later state of a run is above any earlier one.
\<close>

locale invariant_system =
  fixes step :: "'s \<Rightarrow> 'op \<Rightarrow> 's" and inv :: "'s \<Rightarrow> bool"
  assumes inv_step: "inv s \<Longrightarrow> inv (step s op)"
begin

lemma inv_run: "inv s \<Longrightarrow> inv (foldl step s ops)"
  by (induction ops arbitrary: s) (simp_all add: inv_step)

end

locale evolution = invariant_system +
  fixes le :: "'a \<Rightarrow> 'a \<Rightarrow> bool"
  assumes le_refl: "le s s"
    and le_trans: "le s t \<Longrightarrow> le t u \<Longrightarrow> le s u"
    and le_step: "inv s \<Longrightarrow> le s (step s op)"
begin

lemma le_run: "inv s \<Longrightarrow> le s (foldl step s ops)"
proof (induction ops arbitrary: s)
  case (Cons op ops)
  have "le (step s op) (foldl step (step s op) ops)" by (rule Cons.IH) (rule inv_step [OF Cons.prems])
  then show ?case using le_trans [OF le_step [OF Cons.prems]] by simp
qed (simp add: le_refl)

lemma le_later: "inv s \<Longrightarrow> le (foldl step s ops) (foldl step s (ops @ ops'))"
  using le_run [of "foldl step s ops"] by (simp add: inv_run)

end

section \<open>Results and JSON values\<close>

text \<open>Early returns: \<open>Inl\<close> is the refusal, \<open>r_bind\<close> passes a success on. \<open>opt_field v f\<close> is the
  pattern of an optional field: absent stays absent, present must pass \<open>f\<close>.\<close>

definition r_bind :: "'e + 'a \<Rightarrow> ('a \<Rightarrow> 'e + 'b) \<Rightarrow> 'e + 'b" where
  "r_bind m f = (case m of Inl e \<Rightarrow> Inl e | Inr x \<Rightarrow> f x)"

definition opt_field :: "'a option \<Rightarrow> ('a \<Rightarrow> 'e + 'b) \<Rightarrow> 'e + 'b option" where
  "opt_field v f = (case v of None \<Rightarrow> Inr None | Some x \<Rightarrow> r_bind (f x) (\<lambda>y. Inr (Some y)))"

definition guard :: "bool \<Rightarrow> 'e \<Rightarrow> 'e + unit" where
  "guard b e = (if b then Inr () else Inl e)"

lemma r_bind_simps [simp]: "r_bind (Inr x) f = f x" "r_bind (Inl e) f = Inl e"
  by (simp_all add: r_bind_def)

lemma r_bind_Inr: "r_bind m f = Inr y \<longleftrightarrow> (\<exists>x. m = Inr x \<and> f x = Inr y)"
  by (cases m) simp_all

lemma guard_Inr: "guard b e = Inr u \<longleftrightarrow> b"
  by (simp add: guard_def)

lemma guard_simps [simp]: "guard True e = Inr ()" "guard False e = Inl e"
  by (simp_all add: guard_def)

lemma opt_field_Inr:
  "opt_field v f = Inr r \<longleftrightarrow> (v = None \<and> r = None) \<or> (\<exists>x y. v = Some x \<and> f x = Inr y \<and> r = Some y)"
  by (cases v) (auto simp: opt_field_def r_bind_Inr)

lemma opt_field_simps [simp]: "opt_field None f = Inr None"
  "opt_field (Some x) f = r_bind (f x) (\<lambda>y. Inr (Some y))"
  by (simp_all add: opt_field_def)

text \<open>A loop that stops at the first throw.\<close>

primrec r_foldl :: "('s \<Rightarrow> 'a \<Rightarrow> 'e + 's) \<Rightarrow> 's \<Rightarrow> 'a list \<Rightarrow> 'e + 's" where
  "r_foldl f s [] = Inr s"
| "r_foldl f s (x # xs) = r_bind (f s x) (\<lambda>s. r_foldl f s xs)"

lemmas result_iffs = r_bind_Inr guard_Inr opt_field_Inr

text \<open>A JSON value; an object is its own properties in order. A missing property is \<open>None\<close>
  (JavaScript's \<open>undefined\<close>, which JSON cannot carry).\<close>

datatype json = JNull | JBool bool | JNum jsnum | JStr string | JArr "json list" | JObj "(string \<times> json) list"

definition isRecord :: "json \<Rightarrow> bool" where
  "isRecord v = (case v of JObj _ \<Rightarrow> True | _ \<Rightarrow> False)"

fun obj_get :: "json \<Rightarrow> string \<Rightarrow> json option" where
  "obj_get (JObj kvs) k = map_of kvs k"
| "obj_get _ k = None"

fun as_str :: "json \<Rightarrow> string option" where
  "as_str (JStr s) = Some s"
| "as_str _ = None"

text \<open>Decimal digits of an array index in an error path.\<close>

fun nat_str :: "nat \<Rightarrow> string" where
  "nat_str n = (if n < 10 then [char_of (48 + n)] else nat_str (n div 10) @ [char_of (48 + n mod 10)])"

declare nat_str.simps [simp del]

end
