(* ===== verification/Chunks.thy ===== *)
theory Chunks
  imports Prelude
begin

text \<open>
  Retained byte runs at absolute stream offsets: the \<open>OffsetChunk\<close> of
  \<open>core/src/kernel/pty/flowControl.ts\<close> and the \<open>RetainedChunk\<close> of
  \<open>core/src/gateway/ptyStream.ts\<close> are the same record, and both classes keep a list of them that
  covers an end segment of the stream without gaps. \<open>window S a cs\<close> says that \<open>cs\<close> covers the
  stream \<open>S\<close> from offset \<open>a\<close> to its end. The lemmas here carry the proofs of both classes.
\<close>

record offset_chunk =
  oc_offset :: nat
  oc_bytes :: "byte list"

definition oc_end :: "offset_chunk \<Rightarrow> nat" where
  "oc_end c = oc_offset c + length (oc_bytes c)"

fun window :: "byte list \<Rightarrow> nat \<Rightarrow> offset_chunk list \<Rightarrow> bool" where
  "window S a [] = (a = length S)"
| "window S a (c # cs) =
     (oc_offset c = a \<and> oc_bytes c \<noteq> [] \<and> slice_at S a (oc_bytes c) \<and> window S (oc_end c) cs)"

text \<open>Both classes release from the front: drop the leading chunks that end at or below a
  watermark, stop at the first that does not.\<close>

definition drop_released :: "nat \<Rightarrow> offset_chunk list \<Rightarrow> offset_chunk list" where
  "drop_released w cs = dropWhile (\<lambda>c. oc_end c \<le> w) cs"

definition chunk_bytes :: "offset_chunk list \<Rightarrow> byte list" where
  "chunk_bytes cs = concat (map oc_bytes cs)"

lemma window_le: "window S a cs \<Longrightarrow> a \<le> length S"
  by (induction S a cs rule: window.induct) (auto simp: oc_end_def slice_at_def)

lemma window_push:
  "window S a cs \<Longrightarrow> bs \<noteq> [] \<Longrightarrow>
   window (S @ bs) a (cs @ [\<lparr>oc_offset = length S, oc_bytes = bs\<rparr>])"
  by (induction S a cs rule: window.induct) (auto simp: slice_at_append oc_end_def slice_at_def)

lemma window_ends: "window S a cs \<Longrightarrow> c \<in> set cs \<Longrightarrow> a \<le> oc_end c"
proof (induction S a cs rule: window.induct)
  case (2 S a d cs)
  then show ?case by (auto simp: oc_end_def)
qed simp

lemma window_bytes: "window S a cs \<Longrightarrow> chunk_bytes cs = drop a S"
proof (induction S a cs rule: window.induct)
  case (2 S a c cs)
  then have "chunk_bytes (c # cs) = oc_bytes c @ drop (a + length (oc_bytes c)) S"
    by (auto simp: chunk_bytes_def oc_end_def)
  also have "\<dots> = take (length (oc_bytes c)) (drop a S) @ drop (length (oc_bytes c)) (drop a S)"
    using 2(2) by (simp add: slice_at_def add.commute)
  finally show ?case by (simp only: append_take_drop_id)
qed (simp add: chunk_bytes_def)

lemma window_read:
  assumes "window S a (c # cs)" "a \<le> cur" "cur < oc_end c"
  shows "take n (drop (cur - oc_offset c) (oc_bytes c)) =
         take (min n (oc_end c - cur)) (drop cur S)"
proof -
  have s: "oc_bytes c = take (length (oc_bytes c)) (drop a S)" and o: "oc_offset c = a"
    using assms(1) by (auto simp: slice_at_def)
  have "drop (cur - a) (oc_bytes c) = take (length (oc_bytes c) - (cur - a)) (drop cur S)"
    by (subst s) (use assms(2) in \<open>simp add: drop_take\<close>)
  then show ?thesis using o assms(2,3) by (simp add: oc_end_def min.commute add.commute)
qed

lemma window_drop_released:
  "window S a cs \<Longrightarrow> a \<le> w \<Longrightarrow> w \<le> length S \<Longrightarrow>
   \<exists>b. a \<le> b \<and> b \<le> w \<and> window S b (drop_released w cs)
     \<and> (\<forall>c\<in>set (drop_released w cs). w < oc_end c)"
proof (induction S a cs rule: window.induct)
  case (1 S a)
  then show ?case by (auto simp: drop_released_def)
next
  case (2 S a c cs)
  show ?case
  proof (cases "oc_end c \<le> w")
    case True
    with 2 obtain b where "oc_end c \<le> b" "b \<le> w" "window S b (drop_released w cs)"
      "\<forall>c\<in>set (drop_released w cs). w < oc_end c"
      by auto
    moreover have "a \<le> oc_end c" using 2(2) by (auto simp: oc_end_def)
    ultimately show ?thesis using True by (simp add: drop_released_def) (meson le_trans)
  next
    case False
    have later: "\<forall>d\<in>set cs. oc_end c \<le> oc_end d"
      using 2(2) by (auto dest: window_ends)
    with False 2 show ?thesis by (force simp: drop_released_def)
  qed
qed

end
