(* ===== verification/Ack_Ring.thy ===== *)
theory Ack_Ring
  imports Chunks
begin

text \<open>
  \<open>BoundedAckRing\<close> of \<open>core/src/kernel/pty/flowControl.ts\<close>: the producer side of the
  ack-watermark flow control. The record has the class's private fields, every method is one
  definition returning \<open>Inl\<close> where the method throws (always before it mutates).

  The contract is the abstract machine \<open>spec_step\<close> over the whole byte stream with two cursors;
  \<open>ring_refines_spec\<close> shows that any sequence of calls on a fresh ring gives the same answers as
  that machine, whatever the chunking. Boundedness and the absence of overflow for a producer
  that honours the pause signal are separate theorems.
\<close>

section \<open>Configuration and state\<close>

record flow_config =
  fc_capBytes :: jsnum
  fc_highWaterBytes :: jsnum
  fc_lowWaterBytes :: jsnum

definition DEFAULT_FLOW_CONTROL :: flow_config where
  "DEFAULT_FLOW_CONTROL = \<lparr>fc_capBytes = num (4 * 1024 * 1024),
     fc_highWaterBytes = num (2 * 1024 * 1024), fc_lowWaterBytes = num (512 * 1024)\<rparr>"

record ack_ring =
  r_cap :: nat
  r_high :: nat
  r_low :: nat
  r_chunks :: "offset_chunk list"
  r_bytesIn :: nat
  r_bytesDelivered :: nat
  r_bytesAcked :: nat
  r_peakOccupancy :: nat
  r_paused :: bool
  r_pauseSignals :: nat
  r_resumeSignals :: nat

datatype ring_error = RangeError | AckRingOverflowError nat nat

definition new_ring :: "flow_config \<Rightarrow> ring_error + ack_ring" where
  "new_ring c =
    (case (as_safe_nat (fc_capBytes c), as_safe_nat (fc_highWaterBytes c), as_safe_nat (fc_lowWaterBytes c)) of
       (Some cap, Some high, Some low) \<Rightarrow>
         if low < high \<and> high \<le> cap
         then Inr \<lparr>r_cap = cap, r_high = high, r_low = low, r_chunks = [], r_bytesIn = 0,
                   r_bytesDelivered = 0, r_bytesAcked = 0, r_peakOccupancy = 0, r_paused = False,
                   r_pauseSignals = 0, r_resumeSignals = 0\<rparr>
         else Inl RangeError
     | _ \<Rightarrow> Inl RangeError)"

definition occupancy :: "ack_ring \<Rightarrow> nat" where
  "occupancy r = r_bytesIn r - r_bytesAcked r"

section \<open>Operations\<close>

definition ring_push :: "ack_ring \<Rightarrow> byte list \<Rightarrow> ring_error + (ack_ring \<times> bool)" where
  "ring_push r bytes =
    (if bytes = [] then Inr (r, r_paused r)
     else let next = occupancy r + length bytes in
       if next > r_cap r then Inl (AckRingOverflowError next (r_cap r))
       else let r1 = r\<lparr>r_chunks := r_chunks r @ [\<lparr>oc_offset = r_bytesIn r, oc_bytes = bytes\<rparr>],
                      r_bytesIn := r_bytesIn r + length bytes,
                      r_peakOccupancy := max next (r_peakOccupancy r)\<rparr>;
                r2 = (if \<not> r_paused r1 \<and> next \<ge> r_high r1
                      then r1\<lparr>r_paused := True, r_pauseSignals := r_pauseSignals r1 + 1\<rparr> else r1)
            in Inr (r2, r_paused r2))"

primrec deliver_loop :: "offset_chunk list \<Rightarrow> nat \<Rightarrow> nat \<Rightarrow> byte list list \<Rightarrow> byte list list \<times> nat" where
  "deliver_loop [] cursor budget parts = (parts, cursor)"
| "deliver_loop (chunk # cs) cursor budget parts =
    (if oc_end chunk \<le> cursor then deliver_loop cs cursor budget parts
     else let start = cursor - oc_offset chunk;
              tk = min (length (oc_bytes chunk) - start) budget
          in if tk = 0 then (parts, cursor)
             else let parts' = parts @ [take tk (drop start (oc_bytes chunk))];
                      cursor' = cursor + tk;
                      budget' = budget - tk
                  in if budget' = 0 then (parts', cursor')
                     else deliver_loop cs cursor' budget' parts')"

definition ring_deliverNext :: "ack_ring \<Rightarrow> nat \<Rightarrow> ack_ring \<times> offset_chunk option" where
  "ring_deliverNext r maxBytes =
    (if maxBytes = 0 \<or> r_bytesDelivered r \<ge> r_bytesIn r then (r, None)
     else let startOffset = r_bytesDelivered r;
              (parts, cursor) = deliver_loop (r_chunks r) startOffset maxBytes []
          in if parts = [] then (r, None)
             else (r\<lparr>r_bytesDelivered := cursor\<rparr>,
                   Some \<lparr>oc_offset = startOffset, oc_bytes = concat parts\<rparr>))"

definition ring_ack :: "ack_ring \<Rightarrow> jsnum \<Rightarrow> ring_error + (ack_ring \<times> bool)" where
  "ring_ack r watermark =
    (case as_safe_nat watermark of
       None \<Rightarrow> Inl RangeError
     | Some w \<Rightarrow>
         if w > r_bytesDelivered r then Inl RangeError
         else if w \<le> r_bytesAcked r then Inr (r, False)
         else let r1 = r\<lparr>r_bytesAcked := w, r_chunks := drop_released w (r_chunks r)\<rparr>
              in if r_paused r1 \<and> occupancy r1 \<le> r_low r1
                 then Inr (r1\<lparr>r_paused := False, r_resumeSignals := r_resumeSignals r1 + 1\<rparr>, True)
                 else Inr (r1, False))"

primrec replay_loop :: "nat \<Rightarrow> offset_chunk list \<Rightarrow> offset_chunk list" where
  "replay_loop w [] = []"
| "replay_loop w (chunk # cs) =
    (if oc_end chunk \<le> w then replay_loop w cs
     else let start = w - oc_offset chunk
          in \<lparr>oc_offset = oc_offset chunk + start, oc_bytes = drop start (oc_bytes chunk)\<rparr>
             # replay_loop w cs)"

definition ring_replayFrom :: "ack_ring \<Rightarrow> jsnum \<Rightarrow> ring_error + (ack_ring \<times> offset_chunk list)" where
  "ring_replayFrom r fromWatermark =
    (case as_safe_nat fromWatermark of
       None \<Rightarrow> Inl RangeError
     | Some w \<Rightarrow>
         if w < r_bytesAcked r then Inl RangeError
         else if w > r_bytesIn r then Inl RangeError
         else Inr (r\<lparr>r_bytesDelivered := r_bytesIn r\<rparr>, replay_loop w (r_chunks r)))"

section \<open>Calls as data\<close>

datatype ring_op = Push "byte list" | DeliverNext nat | Ack jsnum | ReplayFrom jsnum

text \<open>What a caller sees: the pause/resume flag, the delivered run, the replayed bytes with the
  offset of the first, or the exception.\<close>

datatype ring_obs = Flag bool | Delivered "(nat \<times> byte list) option" | Replayed "byte list"
  | Thrown ring_error

definition ring_step :: "ack_ring \<Rightarrow> ring_op \<Rightarrow> ack_ring \<times> ring_obs" where
  "ring_step r op = (case op of
     Push bs \<Rightarrow> (case ring_push r bs of Inl e \<Rightarrow> (r, Thrown e) | Inr (r', b) \<Rightarrow> (r', Flag b))
   | DeliverNext n \<Rightarrow> (case ring_deliverNext r n of
       (r', c) \<Rightarrow> (r', Delivered (map_option (\<lambda>c. (oc_offset c, oc_bytes c)) c)))
   | Ack w \<Rightarrow> (case ring_ack r w of Inl e \<Rightarrow> (r, Thrown e) | Inr (r', b) \<Rightarrow> (r', Flag b))
   | ReplayFrom w \<Rightarrow> (case ring_replayFrom r w of
       Inl e \<Rightarrow> (r, Thrown e) | Inr (r', cs) \<Rightarrow> (r', Replayed (chunk_bytes cs))))"

fun ring_run :: "ack_ring \<Rightarrow> ring_op list \<Rightarrow> ack_ring \<times> ring_obs list" where
  "ring_run r [] = (r, [])"
| "ring_run r (op # ops) =
     (let (r', ob) = ring_step r op; (r'', obs) = ring_run r' ops in (r'', ob # obs))"

section \<open>The abstract machine\<close>

record stream_spec =
  s_stream :: "byte list"
  s_delivered :: nat
  s_acked :: nat
  s_paused :: bool

definition spec_step :: "nat \<Rightarrow> nat \<Rightarrow> nat \<Rightarrow> stream_spec \<Rightarrow> ring_op \<Rightarrow> stream_spec \<times> ring_obs" where
  "spec_step cap high low s op = (case op of
     Push bs \<Rightarrow>
       (let n = length (s_stream s) - s_acked s + length bs in
        if bs \<noteq> [] \<and> n > cap then (s, Thrown (AckRingOverflowError n cap))
        else let p = s_paused s \<or> (bs \<noteq> [] \<and> n \<ge> high)
             in (s\<lparr>s_stream := s_stream s @ bs, s_paused := p\<rparr>, Flag p))
   | DeliverNext n \<Rightarrow>
       (let bs = take n (drop (s_delivered s) (s_stream s)) in
        if bs = [] then (s, Delivered None)
        else (s\<lparr>s_delivered := s_delivered s + length bs\<rparr>, Delivered (Some (s_delivered s, bs))))
   | Ack w \<Rightarrow> (case as_safe_nat w of
       None \<Rightarrow> (s, Thrown RangeError)
     | Some n \<Rightarrow>
         if n > s_delivered s then (s, Thrown RangeError)
         else let a = max n (s_acked s);
                  r = (n > s_acked s \<and> s_paused s \<and> length (s_stream s) - a \<le> low)
              in (s\<lparr>s_acked := a, s_paused := (s_paused s \<and> \<not> r)\<rparr>, Flag r))
   | ReplayFrom w \<Rightarrow> (case as_safe_nat w of
       None \<Rightarrow> (s, Thrown RangeError)
     | Some n \<Rightarrow>
         if n < s_acked s \<or> n > length (s_stream s) then (s, Thrown RangeError)
         else (s\<lparr>s_delivered := length (s_stream s)\<rparr>, Replayed (drop n (s_stream s)))))"

fun spec_run :: "nat \<Rightarrow> nat \<Rightarrow> nat \<Rightarrow> stream_spec \<Rightarrow> ring_op list \<Rightarrow> stream_spec \<times> ring_obs list" where
  "spec_run cap high low s [] = (s, [])"
| "spec_run cap high low s (op # ops) =
     (let (s', ob) = spec_step cap high low s op; (s'', obs) = spec_run cap high low s' ops
      in (s'', ob # obs))"

definition spec_init :: stream_spec where
  "spec_init = \<lparr>s_stream = [], s_delivered = 0, s_acked = 0, s_paused = False\<rparr>"

section \<open>The representation invariant\<close>

definition ring_rel :: "stream_spec \<Rightarrow> ack_ring \<Rightarrow> bool" where
  "ring_rel s r \<longleftrightarrow>
     r_bytesIn r = length (s_stream s) \<and> r_bytesDelivered r = s_delivered s
   \<and> r_bytesAcked r = s_acked s \<and> r_paused r = s_paused s
   \<and> s_acked s \<le> s_delivered s \<and> s_delivered s \<le> length (s_stream s)
   \<and> (\<exists>base \<le> s_acked s. window (s_stream s) base (r_chunks r))"

definition ring_bounds :: "ack_ring \<Rightarrow> bool" where
  "ring_bounds r \<longleftrightarrow> r_low r < r_high r \<and> r_high r \<le> r_cap r
   \<and> occupancy r \<le> r_peakOccupancy r \<and> r_peakOccupancy r \<le> r_cap r
   \<and> (if r_paused r then r_low r < occupancy r else occupancy r < r_high r)
   \<and> r_pauseSignals r = r_resumeSignals r + (if r_paused r then 1 else 0)"

abbreviation same_config :: "ack_ring \<Rightarrow> ack_ring \<Rightarrow> bool" where
  "same_config r r' \<equiv> r_cap r' = r_cap r \<and> r_high r' = r_high r \<and> r_low r' = r_low r"

lemma new_ring_rel: "new_ring c = Inr r \<Longrightarrow> ring_rel spec_init r \<and> ring_bounds r"
  by (auto simp: new_ring_def ring_rel_def ring_bounds_def spec_init_def occupancy_def
      split: option.splits if_splits)

section \<open>The loops against the stream\<close>

lemma deliver_loop_spec:
  "window S a cs \<Longrightarrow> a \<le> cur \<Longrightarrow> 0 < budget \<Longrightarrow>
   \<exists>ps. deliver_loop cs cur budget parts
        = (parts @ ps, cur + length (take budget (drop cur S)))
      \<and> concat ps = take budget (drop cur S) \<and> [] \<notin> set ps"
proof (induction cs arbitrary: a cur budget parts)
  case Nil
  then show ?case by simp
next
  case (Cons chunk cs a cursor budget parts)
  show ?case
  proof (cases "oc_end chunk \<le> cursor")
    case True
    with Cons.IH [of "oc_end chunk" cursor budget parts] Cons.prems show ?thesis by simp
  next
    case False
    define tk where "tk = min (length (oc_bytes chunk) - (cursor - oc_offset chunk)) budget"
    have off: "oc_offset chunk = a" and w: "window S (oc_end chunk) cs" using Cons.prems(1) by auto
    have tk: "0 < tk" "tk = min (oc_end chunk - cursor) budget"
      using False Cons.prems off by (auto simp: tk_def oc_end_def)
    have rd: "take tk (drop (cursor - oc_offset chunk) (oc_bytes chunk)) = take tk (drop cursor S)"
      using window_read [OF Cons.prems(1,2), of tk] False tk by simp
    have endS: "oc_end chunk \<le> length S" using window_le [OF w] .
    have lenp: "length (take tk (drop cursor S)) = tk" using tk endS by simp
    let ?parts = "parts @ [take tk (drop cursor S)]"
    have unf: "deliver_loop (chunk # cs) cursor budget parts =
       (if budget - tk = 0 then (?parts, cursor + tk)
        else deliver_loop cs (cursor + tk) (budget - tk) ?parts)"
      using False tk(1) rd
      by (simp only: deliver_loop.simps Let_def tk_def [symmetric] if_False if_True) simp
    show ?thesis
    proof (cases "budget - tk = 0")
      case True
      then have "budget = tk" using tk by simp
      with unf lenp tk(1) show ?thesis
        by (intro exI [of _ "[take tk (drop cursor S)]"]) auto
    next
      case F: False
      then have cur: "cursor + tk = oc_end chunk" using tk False by simp
      obtain ps where ps: "deliver_loop cs (cursor + tk) (budget - tk) ?parts
          = (?parts @ ps, cursor + tk + length (take (budget - tk) (drop (cursor + tk) S)))"
        "concat ps = take (budget - tk) (drop (cursor + tk) S)" "[] \<notin> set ps"
        using Cons.IH [of "oc_end chunk" "cursor + tk" "budget - tk" ?parts] w F cur by auto
      have split: "take budget (drop cursor S)
          = take tk (drop cursor S) @ take (budget - tk) (drop (cursor + tk) S)"
        using take_drop_split [of tk budget "drop cursor S"] tk by (simp add: add.commute)
      have "take tk (drop cursor S) \<noteq> []" using lenp tk(1) by auto
      then show ?thesis using unf F ps lenp
        by (intro exI [of _ "take tk (drop cursor S) # ps"]) (simp add: split)
    qed
  qed
qed

lemma replay_loop_bytes:
  "window S a cs \<Longrightarrow> a \<le> w \<Longrightarrow> chunk_bytes (replay_loop w cs) = drop w S"
proof (induction cs arbitrary: a)
  case Nil
  then show ?case by (simp add: chunk_bytes_def)
next
  case (Cons c cs)
  show ?case
  proof (cases "oc_end c \<le> w")
    case True
    with Cons show ?thesis by auto
  next
    case False
    have w': "window S (oc_end c) cs" using Cons.prems by simp
    have all: "replay_loop w cs = cs" using w' False
    proof (induction cs arbitrary: c)
      case (Cons d cs)
      then have "w < oc_end d" by (auto simp: oc_end_def)
      with Cons.IH [of d] Cons.prems show ?case by simp
    qed simp
    have "drop (w - oc_offset c) (oc_bytes c) = take (oc_end c - w) (drop w S)"
      using window_read [OF Cons.prems, of "length (oc_bytes c)"] False Cons.prems
      by (cases "w = a") (auto simp: oc_end_def min_def)
    moreover have "take (oc_end c - w) (drop w S) @ drop (oc_end c) S = drop w S"
      using append_take_drop_id [of "oc_end c - w" "drop w S"] False by simp
    ultimately show ?thesis using False all window_bytes [OF w'] by (simp add: chunk_bytes_def)
  qed
qed

section \<open>One lemma per operation\<close>

lemma push_rel:
  assumes "ring_rel s r" "ring_bounds r"
  shows "case ring_step r (Push bs) of (r', ob) \<Rightarrow>
    case spec_step (r_cap r) (r_high r) (r_low r) s (Push bs) of (s', ob') \<Rightarrow>
      ob = ob' \<and> ring_rel s' r' \<and> ring_bounds r' \<and> same_config r r'"
proof (cases "bs = []")
  case True
  with assms show ?thesis
    by (auto simp: ring_step_def spec_step_def ring_push_def Let_def ring_rel_def)
next
  case False
  from assms(1) obtain base where b: "base \<le> s_acked s" "window (s_stream s) base (r_chunks r)"
    by (auto simp: ring_rel_def)
  have w: "window (s_stream s @ bs) base
      (r_chunks r @ [\<lparr>oc_offset = r_bytesIn r, oc_bytes = bs\<rparr>])"
    using window_push [OF b(2) False] assms(1) by (simp add: ring_rel_def)
  have occ: "occupancy r = length (s_stream s) - s_acked s"
    using assms(1) by (simp add: ring_rel_def occupancy_def)
  show ?thesis
    using False assms b(1) w
    by (auto simp: ring_step_def spec_step_def ring_push_def Let_def ring_rel_def ring_bounds_def
        occupancy_def)
qed

lemma deliver_rel:
  assumes "ring_rel s r" "ring_bounds r"
  shows "case ring_step r (DeliverNext n) of (r', ob) \<Rightarrow>
    case spec_step (r_cap r) (r_high r) (r_low r) s (DeliverNext n) of (s', ob') \<Rightarrow>
      ob = ob' \<and> ring_rel s' r' \<and> ring_bounds r' \<and> same_config r r'"
proof (cases "n = 0 \<or> s_delivered s \<ge> length (s_stream s)")
  case True
  with assms show ?thesis
    by (auto simp: ring_step_def spec_step_def ring_deliverNext_def ring_rel_def Let_def)
next
  case False
  from assms(1) obtain base where b: "base \<le> s_acked s" "window (s_stream s) base (r_chunks r)"
    and rel: "r_bytesIn r = length (s_stream s)" "r_bytesDelivered r = s_delivered s"
      "s_acked s \<le> s_delivered s"
    by (auto simp: ring_rel_def)
  define bs where "bs = take n (drop (s_delivered s) (s_stream s))"
  have ne: "bs \<noteq> []" using False by (simp add: bs_def)
  obtain ps where ps: "deliver_loop (r_chunks r) (s_delivered s) n [] = (ps, s_delivered s + length bs)"
    "concat ps = bs"
    using deliver_loop_spec [OF b(2), of "s_delivered s" n "[]"] b(1) rel(3) False
    by (auto simp: bs_def)
  have "ps \<noteq> []" using ps(2) ne by auto
  have len: "s_delivered s + length bs \<le> length (s_stream s)" using False by (auto simp: bs_def)
  have "ring_step r (DeliverNext n) =
      (r\<lparr>r_bytesDelivered := s_delivered s + length bs\<rparr>, Delivered (Some (s_delivered s, bs)))"
    using False ps \<open>ps \<noteq> []\<close> rel by (simp add: ring_step_def ring_deliverNext_def Let_def)
  moreover have "spec_step (r_cap r) (r_high r) (r_low r) s (DeliverNext n) =
      (s\<lparr>s_delivered := s_delivered s + length bs\<rparr>, Delivered (Some (s_delivered s, bs)))"
    using ne by (simp add: spec_step_def Let_def bs_def [symmetric])
  ultimately show ?thesis
    using assms len by (auto simp: ring_rel_def ring_bounds_def occupancy_def)
qed

lemma ack_rel:
  assumes "ring_rel s r" "ring_bounds r"
  shows "case ring_step r (Ack w) of (r', ob) \<Rightarrow>
    case spec_step (r_cap r) (r_high r) (r_low r) s (Ack w) of (s', ob') \<Rightarrow>
      ob = ob' \<and> ring_rel s' r' \<and> ring_bounds r' \<and> same_config r r'"
proof (cases "\<exists>n. as_safe_nat w = Some n \<and> s_acked s < n \<and> n \<le> s_delivered s")
  case False
  then consider "as_safe_nat w = None" | n where "as_safe_nat w = Some n" "n > s_delivered s"
    | n where "as_safe_nat w = Some n" "n \<le> s_acked s" "n \<le> s_delivered s"
    by (metis not_less option.exhaust)
  then show ?thesis
    using assms
    by cases (auto simp: ring_step_def spec_step_def ring_ack_def ring_rel_def Let_def max_def)
next
  case True
  then obtain n where n: "as_safe_nat w = Some n" "s_acked s < n" "n \<le> s_delivered s" by blast
  from assms(1) obtain base where b: "base \<le> s_acked s" "window (s_stream s) base (r_chunks r)"
    and le: "s_delivered s \<le> length (s_stream s)"
    by (auto simp: ring_rel_def)
  obtain b' where b': "b' \<le> n" "window (s_stream s) b' (drop_released n (r_chunks r))"
    using window_drop_released [OF b(2), of n] b(1) n le by auto
  show ?thesis
    using assms n b' le
    by (auto simp: ring_step_def spec_step_def ring_ack_def ring_rel_def ring_bounds_def Let_def
        occupancy_def max_def)
qed

lemma replay_rel:
  assumes "ring_rel s r" "ring_bounds r"
  shows "case ring_step r (ReplayFrom w) of (r', ob) \<Rightarrow>
    case spec_step (r_cap r) (r_high r) (r_low r) s (ReplayFrom w) of (s', ob') \<Rightarrow>
      ob = ob' \<and> ring_rel s' r' \<and> ring_bounds r' \<and> same_config r r'"
proof -
  from assms(1) obtain base where b: "base \<le> s_acked s" "window (s_stream s) base (r_chunks r)"
    by (auto simp: ring_rel_def)
  have rp: "s_acked s \<le> n \<Longrightarrow> chunk_bytes (replay_loop n (r_chunks r)) = drop n (s_stream s)" for n
    using replay_loop_bytes [OF b(2)] b(1) by simp
  show ?thesis
    using assms rp
    by (auto simp: ring_step_def spec_step_def ring_replayFrom_def ring_rel_def ring_bounds_def
        occupancy_def split: option.splits)
qed

lemma ring_step_rel:
  assumes "ring_rel s r" "ring_bounds r"
  shows "case ring_step r op of (r', ob) \<Rightarrow>
    case spec_step (r_cap r) (r_high r) (r_low r) s op of (s', ob') \<Rightarrow>
      ob = ob' \<and> ring_rel s' r' \<and> ring_bounds r' \<and> same_config r r'"
  using push_rel [OF assms] deliver_rel [OF assms] ack_rel [OF assms] replay_rel [OF assms]
  by (cases op) simp_all

lemma ring_run_rel:
  "ring_rel s r \<Longrightarrow> ring_bounds r \<Longrightarrow> ring_run r ops = (r', obs) \<Longrightarrow>
   \<exists>s'. spec_run (r_cap r) (r_high r) (r_low r) s ops = (s', obs)
     \<and> ring_rel s' r' \<and> ring_bounds r' \<and> same_config r r'"
proof (induction ops arbitrary: s r r' obs)
  case Nil
  then show ?case by simp
next
  case (Cons op ops)
  obtain r1 ob where st: "ring_step r op = (r1, ob)" by (cases "ring_step r op")
  obtain s1 ob' where sp: "spec_step (r_cap r) (r_high r) (r_low r) s op = (s1, ob')"
    by (cases "spec_step (r_cap r) (r_high r) (r_low r) s op")
  have one: "ob' = ob" "ring_rel s1 r1" "ring_bounds r1" "same_config r r1"
    using ring_step_rel [OF Cons.prems(1,2), of op] st sp by auto
  obtain obs1 where rest: "ring_run r1 ops = (r', obs1)" "obs = ob # obs1"
    using Cons.prems(3) st by (auto split: prod.splits)
  from Cons.IH [OF one(2,3) rest(1)] one sp rest(2) show ?case by auto
qed

lemma fresh_run:
  assumes "new_ring c = Inr r" "ring_run r ops = (r', obs)"
  obtains s' where "spec_run (r_cap r) (r_high r) (r_low r) spec_init ops = (s', obs)"
    "ring_rel s' r'" "ring_bounds r'" "same_config r r'"
  using new_ring_rel [OF assms(1)] ring_run_rel [OF _ _ assms(2), of spec_init] by blast

section \<open>What holds of every run\<close>


abbreviation small_config :: flow_config where
  "small_config \<equiv> \<lparr>fc_capBytes = num 8, fc_highWaterBytes = num 4, fc_lowWaterBytes = num 1\<rparr>"

abbreviation small_ring :: ack_ring where
  "small_ring \<equiv> \<lparr>r_cap = 8, r_high = 4, r_low = 1, r_chunks = [], r_bytesIn = 0,
     r_bytesDelivered = 0, r_bytesAcked = 0, r_peakOccupancy = 0, r_paused = False,
     r_pauseSignals = 0, r_resumeSignals = 0\<rparr>"

lemma new_small_ring: "new_ring small_config = Inr small_ring"
  by (simp add: new_ring_def max_safe_nat_def)


text \<open>Retention is bounded. After any sequence of calls the unacknowledged bytes and
  their recorded peak are at most the cap, a paused ring holds more than the low water mark, an
  unpaused one less than the high water mark, and pause and resume signals strictly alternate.\<close>

theorem ring_bounded:
  assumes "new_ring c = Inr r" "ring_run r ops = (r', obs)"
  shows "occupancy r' \<le> r_peakOccupancy r' \<and> r_peakOccupancy r' \<le> r_cap r
    \<and> (r_paused r' \<longrightarrow> r_low r < occupancy r') \<and> (\<not> r_paused r' \<longrightarrow> occupancy r' < r_high r)
    \<and> r_pauseSignals r' = r_resumeSignals r' + (if r_paused r' then 1 else 0)"
  by (rule fresh_run [OF assms]) (auto simp: ring_bounds_def)

theorem ring_bounded_witness:
  "occupancy (fst (ring_run small_ring [Push [1, 2, 3, 4, 5, 6], DeliverNext 9, Ack (num 6)])) < 4"
proof -
  have eq: "ring_run small_ring [Push [1, 2, 3, 4, 5, 6], DeliverNext 9, Ack (num 6)] =
    (\<lparr>r_cap = 8, r_high = 4, r_low = 1, r_chunks = [], r_bytesIn = 6, r_bytesDelivered = 6,
      r_bytesAcked = 6, r_peakOccupancy = 6, r_paused = False, r_pauseSignals = 1,
      r_resumeSignals = 1\<rparr>, [Flag True, Delivered (Some (0, [1, 2, 3, 4, 5, 6])), Flag True])"
    by (simp add: ring_step_def ring_push_def ring_deliverNext_def ring_ack_def occupancy_def
        oc_end_def drop_released_def max_safe_nat_def Let_def)
  show ?thesis
    using ring_bounded [OF new_small_ring eq] unfolding eq by simp
qed

text \<open>A producer that honours the signal pushes only while the ring is not paused, in chunks of at
  most \<open>k\<close> bytes.\<close>

fun honours_pause :: "nat \<Rightarrow> ack_ring \<Rightarrow> ring_op list \<Rightarrow> bool" where
  "honours_pause k r [] = True"
| "honours_pause k r (op # ops) =
     ((case op of Push bs \<Rightarrow> \<not> r_paused r \<and> length bs \<le> k | _ \<Rightarrow> True)
      \<and> honours_pause k (fst (ring_step r op)) ops)"

definition overflows :: "ring_obs list \<Rightarrow> bool" where
  "overflows obs = list_ex (\<lambda>ob. case ob of Thrown (AckRingOverflowError _ _) \<Rightarrow> True | _ \<Rightarrow> False) obs"

lemma step_no_overflow:
  assumes "ring_bounds r" "honours_pause k r [op]" "k \<le> r_cap r - r_high r + 1"
  shows "\<not> overflows [snd (ring_step r op)]"
proof (cases op)
  case (Push bs)
  with assms have "occupancy r + length bs \<le> r_cap r" by (auto simp: ring_bounds_def)
  with Push show ?thesis
    by (auto simp: ring_step_def ring_push_def overflows_def Let_def)
qed (auto simp: ring_step_def overflows_def ring_ack_def ring_replayFrom_def Let_def
    split: prod.splits sum.splits option.splits if_splits)

lemma run_no_overflow:
  "ring_rel s r \<Longrightarrow> ring_bounds r \<Longrightarrow> honours_pause k r ops \<Longrightarrow> k \<le> r_cap r - r_high r + 1 \<Longrightarrow>
   \<not> overflows (snd (ring_run r ops))"
proof (induction ops arbitrary: s r)
  case Nil
  then show ?case by (simp add: overflows_def)
next
  case (Cons op ops)
  obtain r1 ob where st: "ring_step r op = (r1, ob)" by (cases "ring_step r op")
  obtain s1 where one: "ring_rel s1 r1" "ring_bounds r1" "same_config r r1"
    using ring_step_rel [OF Cons.prems(1,2), of op] st by (auto split: prod.splits)
  have "\<not> overflows [ob]" using step_no_overflow [of r k op] Cons.prems st by simp
  moreover have "\<not> overflows (snd (ring_run r1 ops))"
    using Cons.IH [OF one(1,2)] Cons.prems(3,4) one(3) st by simp
  ultimately show ?case using st by (auto simp: overflows_def split: prod.splits)
qed

text \<open>The overflow assertion is unreachable for an obedient producer. If bytes are pushed
  only while the ring is not paused, in chunks no longer than the gap between the high water mark
  and the cap, no call of any interleaving throws \<open>AckRingOverflowError\<close>.\<close>

theorem ring_no_overflow_when_pause_honoured:
  assumes "new_ring c = Inr r" "honours_pause k r ops" "k \<le> r_cap r - r_high r + 1"
  shows "\<not> overflows (snd (ring_run r ops))"
  using new_ring_rel [OF assms(1)] run_no_overflow assms(2,3) by blast

theorem ring_no_overflow_when_pause_honoured_witness:
  "\<not> overflows (snd (ring_run small_ring
     [Push [1, 2, 3], Push [4, 5, 6, 7, 8], DeliverNext 8, Ack (num 8), Push [9]]))"
proof (rule ring_no_overflow_when_pause_honoured [OF new_small_ring, where k = 5])
  show "honours_pause 5 small_ring [Push [1, 2, 3], Push [4, 5, 6, 7, 8], DeliverNext 8, Ack (num 8), Push [9]]"
    by (simp add: ring_step_def ring_push_def ring_deliverNext_def ring_ack_def occupancy_def
        oc_end_def drop_released_def max_safe_nat_def Let_def)
qed simp

end
