(* ===== verification/Pty_Frame.thy ===== *)
theory Pty_Frame
  imports Prelude
begin

text \<open>
  The binary frame codec of \<open>packages/protocol/src/pty.ts\<close> and the session-id charset of
  \<open>channels.ts\<close>. A frame is a 16-byte big-endian header, the ASCII session id and the payload.
  \<open>encodePtyFrame\<close> throws \<open>RangeError\<close> on a programmer error (\<open>Inl\<close> here), \<open>decodePtyFrame\<close> is
  total over wire bytes and returns the branch that refused them. The two theorems say that the
  codec is a bijection between the encodable frames and the accepted byte strings.
\<close>

section \<open>Session ids\<close>

definition MAX_SESSION_ID_BYTES :: nat where
  "MAX_SESSION_ID_BYTES = 64"

definition sid_char :: "char \<Rightarrow> bool" where
  "sid_char c = (let n = of_char c :: nat in
     (65 \<le> n \<and> n \<le> 90) \<or> (97 \<le> n \<and> n \<le> 122) \<or> (48 \<le> n \<and> n \<le> 57) \<or> n = 95 \<or> n = 45)"

definition isSessionIdSegment :: "string \<Rightarrow> bool" where
  "isSessionIdSegment s = (length s \<le> MAX_SESSION_ID_BYTES \<and> s \<noteq> [] \<and> list_all sid_char s)"

section \<open>Constants and frames\<close>

definition PTY_FRAME_MAGIC :: byte where "PTY_FRAME_MAGIC = 0xab"
definition PTY_FRAME_VERSION :: byte where "PTY_FRAME_VERSION = 0x01"
definition PTY_FRAME_HEADER_BYTES :: nat where "PTY_FRAME_HEADER_BYTES = 16"
definition PTY_FRAME_MAX_PAYLOAD_BYTES :: nat where
  "PTY_FRAME_MAX_PAYLOAD_BYTES = 1 * 1024 * 1024"

datatype frame_kind = OutputFrame | InputFrame

record pty_frame =
  pf_type :: frame_kind
  pf_sessionId :: string
  pf_streamOffset :: jsnum
  pf_payload :: "byte list"

fun CODE_BY_FRAME_TYPE :: "frame_kind \<Rightarrow> byte" where
  "CODE_BY_FRAME_TYPE OutputFrame = 0x01"
| "CODE_BY_FRAME_TYPE InputFrame = 0x02"

definition FRAME_TYPE_BY_CODE :: "byte \<Rightarrow> frame_kind option" where
  "FRAME_TYPE_BY_CODE b =
     (if b = 0x01 then Some OutputFrame else if b = 0x02 then Some InputFrame else None)"

section \<open>Big-endian integers and ASCII (DataView, charCodeAt)\<close>

fun be_bytes :: "nat \<Rightarrow> nat \<Rightarrow> byte list" where
  "be_bytes 0 n = []"
| "be_bytes (Suc k) n = be_bytes k (n div 256) @ [word_of_nat n]"

definition be_value :: "byte list \<Rightarrow> nat" where
  "be_value bs = foldl (\<lambda>a b. a * 256 + unat b) 0 bs"

definition encodeAscii :: "string \<Rightarrow> byte list" where
  "encodeAscii s = map (\<lambda>c. word_of_nat (of_char c)) s"

definition decodeAscii :: "byte list \<Rightarrow> string" where
  "decodeAscii bs = map (\<lambda>b. char_of (unat b)) bs"

section \<open>The codec\<close>

datatype encode_error = BadSessionId | BadStreamOffset | PayloadTooLong

definition encodePtyFrame :: "pty_frame \<Rightarrow> encode_error + byte list" where
  "encodePtyFrame f =
    (if \<not> isSessionIdSegment (pf_sessionId f) then Inl BadSessionId
     else case as_safe_nat (pf_streamOffset f) of
       None \<Rightarrow> Inl BadStreamOffset
     | Some off \<Rightarrow>
         if length (pf_payload f) > PTY_FRAME_MAX_PAYLOAD_BYTES then Inl PayloadTooLong
         else Inr ([PTY_FRAME_MAGIC, PTY_FRAME_VERSION, CODE_BY_FRAME_TYPE (pf_type f),
                    word_of_nat (length (pf_sessionId f))]
                   @ be_bytes 8 off @ be_bytes 4 (length (pf_payload f))
                   @ encodeAscii (pf_sessionId f) @ pf_payload f))"

text \<open>Every refusal of the decoder carries the wire code \<open>oversized-frame\<close>; the constructor says
  which check refused.\<close>

datatype decode_issue = TooShort | BadMagic | BadVersion | UnknownFrameType | SidLengthOutOfRange
  | OffsetUnsafe | PayloadOverCap | LengthMismatch | SidCharset

definition issue_code :: "decode_issue \<Rightarrow> string" where
  "issue_code _ = ''oversized-frame''"

definition decodePtyFrame :: "byte list \<Rightarrow> decode_issue + pty_frame" where
  "decodePtyFrame bytes =
    (if length bytes < PTY_FRAME_HEADER_BYTES + 1 then Inl TooShort
     else if bytes ! 0 \<noteq> PTY_FRAME_MAGIC then Inl BadMagic
     else if bytes ! 1 \<noteq> PTY_FRAME_VERSION then Inl BadVersion
     else case FRAME_TYPE_BY_CODE (bytes ! 2) of
       None \<Rightarrow> Inl UnknownFrameType
     | Some type \<Rightarrow>
       (let sidLength = unat (bytes ! 3);
            streamOffset = be_value (take 8 (drop 4 bytes));
            payloadLength = be_value (take 4 (drop 12 bytes));
            expected = PTY_FRAME_HEADER_BYTES + sidLength + payloadLength;
            sessionId = decodeAscii (take sidLength (drop PTY_FRAME_HEADER_BYTES bytes));
            payload = drop (PTY_FRAME_HEADER_BYTES + sidLength) bytes
        in if sidLength < 1 \<or> sidLength > MAX_SESSION_ID_BYTES then Inl SidLengthOutOfRange
           else if streamOffset > max_safe_nat then Inl OffsetUnsafe
           else if payloadLength > PTY_FRAME_MAX_PAYLOAD_BYTES then Inl PayloadOverCap
           else if length bytes \<noteq> expected then Inl LengthMismatch
           else if \<not> isSessionIdSegment sessionId then Inl SidCharset
           else Inr \<lparr>pf_type = type, pf_sessionId = sessionId,
                     pf_streamOffset = num streamOffset, pf_payload = payload\<rparr>))"

section \<open>Integers and strings in bytes\<close>

lemma length_be_bytes [simp]: "length (be_bytes k n) = k"
  by (induction k arbitrary: n) auto

lemma be_bytes_numeral:
  "be_bytes (numeral k) n = be_bytes (pred_numeral k) (n div 256) @ [word_of_nat n]"
  by (simp only: numeral_eq_Suc [of k] be_bytes.simps)

lemma be_value_snoc [simp]: "be_value (bs @ [b]) = be_value bs * 256 + unat b"
  by (simp add: be_value_def)

lemma be_value_Nil [simp]: "be_value [] = 0"
  by (simp add: be_value_def)

lemma unat_byte_of_nat: "unat (word_of_nat n :: byte) = n mod 256"
  by (simp add: unat_of_nat)

lemma unat_byte_less [simp]: "unat (b :: byte) < 256"
  using unsigned_less [of b, where ?'a = nat] by simp

lemma be_value_be_bytes: "be_value (be_bytes k n) = n mod 256 ^ k"
proof (induction k arbitrary: n)
  case 0
  then show ?case by simp
next
  case (Suc k)
  have "be_value (be_bytes (Suc k) n) = (n div 256) mod 256 ^ k * 256 + n mod 256"
    by (simp add: Suc.IH unat_byte_of_nat)
  also have "\<dots> = n mod (256 * 256 ^ k)"
    by (simp add: mod_mult2_eq mult.commute)
  finally show ?case by simp
qed

lemma be_bytes_be_value: "be_bytes (length bs) (be_value bs) = bs"
proof (induction bs rule: rev_induct)
  case Nil
  then show ?case by simp
next
  case (snoc b bs)
  have u: "unat b < 256" by (rule unat_byte_less)
  have "(be_value bs * 256 + unat b) div 256 = be_value bs" using u by simp
  moreover have "(word_of_nat (be_value bs * 256 + unat b) :: byte) = b"
    by (rule word_unat_eq_iff [THEN iffD2]) (simp add: unat_byte_of_nat u del: of_nat_add of_nat_mult)
  ultimately show ?case using snoc.IH by simp
qed

lemma be_value_bound: "be_value bs < 256 ^ length bs"
  by (metis be_bytes_be_value be_value_be_bytes mod_less_divisor zero_less_numeral zero_less_power)

lemma length_encodeAscii [simp]: "length (encodeAscii s) = length s"
  by (simp add: encodeAscii_def)

lemma decode_encodeAscii [simp]: "decodeAscii (encodeAscii s) = s"
proof -
  have "char_of (unat (word_of_nat (of_char c) :: byte)) = c" for c :: char
    by (simp add: unat_byte_of_nat)
  then show ?thesis by (simp add: decodeAscii_def encodeAscii_def o_def map_idI)
qed

lemma encode_decodeAscii [simp]: "encodeAscii (decodeAscii bs) = bs"
proof -
  have "(word_of_nat (of_char (char_of (unat b) :: char)) :: byte) = b" for b :: byte
  proof -
    have u: "unat b < 256" by (rule unat_byte_less)
    then have "of_char (char_of (unat b) :: char) = unat b" by simp
    then show ?thesis by simp
  qed
  then show ?thesis by (simp add: decodeAscii_def encodeAscii_def o_def map_idI)
qed

lemma frame_type_code [simp]: "FRAME_TYPE_BY_CODE (CODE_BY_FRAME_TYPE t) = Some t"
  by (cases t) (simp_all add: FRAME_TYPE_BY_CODE_def)

lemma code_frame_type: "FRAME_TYPE_BY_CODE b = Some t \<Longrightarrow> CODE_BY_FRAME_TYPE t = b"
  by (auto simp: FRAME_TYPE_BY_CODE_def split: if_splits)

lemma max_safe_bound: "n \<le> max_safe_nat \<Longrightarrow> n mod 256 ^ 8 = n"
  by (simp add: max_safe_nat_def)

lemmas frame_eval = encodePtyFrame_def decodePtyFrame_def PTY_FRAME_HEADER_BYTES_def
  MAX_SESSION_ID_BYTES_def PTY_FRAME_MAX_PAYLOAD_BYTES_def PTY_FRAME_MAGIC_def PTY_FRAME_VERSION_def
  isSessionIdSegment_def sid_char_def encodeAscii_def decodeAscii_def FRAME_TYPE_BY_CODE_def
  max_safe_nat_def be_value_def be_bytes_numeral

section \<open>Header layout\<close>

lemma header_split:
  assumes "length bytes \<ge> 16"
  shows "bytes = [bytes ! 0, bytes ! 1, bytes ! 2, bytes ! 3] @ take 8 (drop 4 bytes)
    @ take 4 (drop 12 bytes) @ take s (drop 16 bytes) @ drop (16 + s) bytes"
proof -
  have a: "bytes = take 4 bytes @ drop 4 bytes" by simp
  have b: "take 4 bytes = [bytes ! 0, bytes ! 1, bytes ! 2, bytes ! 3]"
    using assms by (intro nth_equalityI) (auto simp: less_Suc_eq numeral_eq_Suc)
  have c: "drop 4 bytes = take 8 (drop 4 bytes) @ drop 12 bytes"
    using append_take_drop_id [of 8 "drop 4 bytes"] by simp
  have d: "drop 12 bytes = take 4 (drop 12 bytes) @ drop 16 bytes"
    using append_take_drop_id [of 4 "drop 12 bytes"] by simp
  have e: "drop 16 bytes = take s (drop 16 bytes) @ drop (16 + s) bytes"
    using append_take_drop_id [of s "drop 16 bytes"] by (simp add: add.commute)
  from a b c d e show ?thesis by metis
qed

lemma encoded_layout:
  assumes "encodePtyFrame f = Inr bytes"
  obtains off where "pf_streamOffset f = num off" "off \<le> max_safe_nat"
    "isSessionIdSegment (pf_sessionId f)"
    "length (pf_payload f) \<le> PTY_FRAME_MAX_PAYLOAD_BYTES"
    "bytes = [PTY_FRAME_MAGIC, PTY_FRAME_VERSION, CODE_BY_FRAME_TYPE (pf_type f),
              word_of_nat (length (pf_sessionId f))]
             @ be_bytes 8 off @ be_bytes 4 (length (pf_payload f))
             @ encodeAscii (pf_sessionId f) @ pf_payload f"
  using assms
  by (auto simp: encodePtyFrame_def as_safe_nat_iff split: if_splits option.splits)

text \<open>The fields the decoder reads back from a laid-out frame.\<close>

lemma layout_fields:
  assumes "length off = 8" "length len = 4"
    and "bytes = [b0, b1, b2, b3] @ off @ len @ sid @ pay"
  shows "bytes ! 0 = b0" "bytes ! 1 = b1" "bytes ! 2 = b2" "bytes ! 3 = b3"
    "take 8 (drop 4 bytes) = off" "take 4 (drop 12 bytes) = len"
    "take (length sid) (drop 16 bytes) = sid" "drop (16 + length sid) bytes = pay"
    "length bytes = 16 + length sid + length pay"
  using assms by (simp_all add: nth_append numeral_eq_Suc)

lemma decode_accepts:
  assumes "decodePtyFrame bytes = Inr f"
  shows "length bytes \<ge> 17" "bytes ! 0 = PTY_FRAME_MAGIC" "bytes ! 1 = PTY_FRAME_VERSION"
    "FRAME_TYPE_BY_CODE (bytes ! 2) = Some (pf_type f)"
    "isSessionIdSegment (pf_sessionId f)"
    "pf_sessionId f = decodeAscii (take (unat (bytes ! 3)) (drop 16 bytes))"
    "pf_streamOffset f = num (be_value (take 8 (drop 4 bytes)))"
    "be_value (take 8 (drop 4 bytes)) \<le> max_safe_nat"
    "pf_payload f = drop (16 + unat (bytes ! 3)) bytes"
    "be_value (take 4 (drop 12 bytes)) \<le> PTY_FRAME_MAX_PAYLOAD_BYTES"
    "length bytes = 16 + unat (bytes ! 3) + be_value (take 4 (drop 12 bytes))"
proof -
  define so where "so = be_value (take 8 (drop 4 bytes))"
  define pl where "pl = be_value (take 4 (drop 12 bytes))"
  define sl where "sl = unat (bytes ! 3)"
  define sid where "sid = decodeAscii (take sl (drop 16 bytes))"
  note fold = so_def [symmetric] pl_def [symmetric] sl_def [symmetric] sid_def [symmetric]
  have "\<not> length bytes < 17 \<and> bytes ! 0 = PTY_FRAME_MAGIC \<and> bytes ! 1 = PTY_FRAME_VERSION
    \<and> FRAME_TYPE_BY_CODE (bytes ! 2) = Some (pf_type f) \<and> isSessionIdSegment (pf_sessionId f)
    \<and> pf_sessionId f = sid \<and> pf_streamOffset f = num so \<and> \<not> so > max_safe_nat
    \<and> pf_payload f = drop (16 + sl) bytes \<and> \<not> pl > PTY_FRAME_MAX_PAYLOAD_BYTES
    \<and> length bytes = 16 + sl + pl"
    using assms
    by (simp add: decodePtyFrame_def Let_def PTY_FRAME_HEADER_BYTES_def fold
        split: if_split_asm option.split_asm) auto
  then show "length bytes \<ge> 17" "bytes ! 0 = PTY_FRAME_MAGIC" "bytes ! 1 = PTY_FRAME_VERSION"
    "FRAME_TYPE_BY_CODE (bytes ! 2) = Some (pf_type f)"
    "isSessionIdSegment (pf_sessionId f)"
    "pf_sessionId f = decodeAscii (take (unat (bytes ! 3)) (drop 16 bytes))"
    "pf_streamOffset f = num (be_value (take 8 (drop 4 bytes)))"
    "be_value (take 8 (drop 4 bytes)) \<le> max_safe_nat"
    "pf_payload f = drop (16 + unat (bytes ! 3)) bytes"
    "be_value (take 4 (drop 12 bytes)) \<le> PTY_FRAME_MAX_PAYLOAD_BYTES"
    "length bytes = 16 + unat (bytes ! 3) + be_value (take 4 (drop 12 bytes))"
    unfolding so_def pl_def sl_def sid_def not_less by blast+
qed

section \<open>The codec is a bijection\<close>

lemma frame_roundtrip:
  assumes "encodePtyFrame f = Inr bytes"
  shows "decodePtyFrame bytes = Inr f"
proof -
  obtain off where f: "pf_streamOffset f = num off" "off \<le> max_safe_nat"
    "isSessionIdSegment (pf_sessionId f)" "length (pf_payload f) \<le> PTY_FRAME_MAX_PAYLOAD_BYTES"
    and b: "bytes = [PTY_FRAME_MAGIC, PTY_FRAME_VERSION, CODE_BY_FRAME_TYPE (pf_type f),
      word_of_nat (length (pf_sessionId f))] @ be_bytes 8 off @ be_bytes 4 (length (pf_payload f))
      @ encodeAscii (pf_sessionId f) @ pf_payload f"
    by (rule encoded_layout [OF assms])
  note fields = layout_fields [OF _ _ b, simplified]
  have s: "unat (word_of_nat (length (pf_sessionId f)) :: byte) = length (pf_sessionId f)"
    using f(3) by (simp add: unat_byte_of_nat isSessionIdSegment_def MAX_SESSION_ID_BYTES_def)
  have p: "length (pf_payload f) mod 256 ^ 4 = length (pf_payload f)"
    using f(4) by (simp add: PTY_FRAME_MAX_PAYLOAD_BYTES_def)
  have sid: "1 \<le> length (pf_sessionId f)" "length (pf_sessionId f) \<le> MAX_SESSION_ID_BYTES"
    and ne: "pf_sessionId f \<noteq> []"
    using f(3) by (auto simp: isSessionIdSegment_def Suc_le_eq)
  show ?thesis
    using f sid ne
    by (simp add: decodePtyFrame_def Let_def PTY_FRAME_HEADER_BYTES_def fields s be_value_be_bytes p
        max_safe_bound del: power_numeral)
qed

text \<open>Claim C4: a frame the broker or the client manages to encode decodes, on the other side, to
  exactly that frame: kind, session id, absolute stream offset and payload all survive the wire.\<close>

theorem pty_frame_roundtrip:
  assumes "encodePtyFrame f = Inr bytes"
  shows "decodePtyFrame bytes = Inr f"
  using assms by (rule frame_roundtrip)

theorem pty_frame_roundtrip_witness:
  "decodePtyFrame [0xab, 1, 1, 2, 0, 0, 0, 0, 0, 0, 1, 0, 0, 0, 0, 3, 0x73, 0x31, 7, 8, 9]
   = Inr \<lparr>pf_type = OutputFrame, pf_sessionId = ''s1'', pf_streamOffset = num 256,
           pf_payload = [7, 8, 9]\<rparr>"
proof -
  let ?f = "\<lparr>pf_type = OutputFrame, pf_sessionId = ''s1'', pf_streamOffset = num 256,
     pf_payload = [7, 8, 9]\<rparr>"
  have "encodePtyFrame ?f =
    Inr [0xab, 1, 1, 2, 0, 0, 0, 0, 0, 0, 1, 0, 0, 0, 0, 3, 0x73, 0x31, 7, 8, 9]"
    by (simp add: frame_eval)
  then show ?thesis by (rule pty_frame_roundtrip)
qed

text \<open>The decoder accepts canonical encodings only. Every byte string it accepts is the
  encoding of the frame it returns, so no two byte strings carry the same frame and nothing
  trailing, padded or re-encoded is accepted.\<close>

theorem pty_frame_canonical:
  assumes "decodePtyFrame bytes = Inr f"
  shows "encodePtyFrame f = Inr bytes"
proof -
  define sl where "sl = unat (bytes ! 3)"
  define so where "so = be_value (take 8 (drop 4 bytes))"
  define pl where "pl = be_value (take 4 (drop 12 bytes))"
  note parts = decode_accepts [OF assms, folded sl_def so_def pl_def]
  note len = parts(1) and m = parts(2,3) and ty = parts(4) and sid = parts(5,6)
    and off = parts(7,8) and pay = parts(9,10) and total = parts(11)
  have lens: "length (pf_sessionId f) = sl" "length (pf_payload f) = pl"
    using total by (simp_all add: sid(2) pay(1) decodeAscii_def)
  have b8: "be_bytes 8 so = take 8 (drop 4 bytes)" and b4: "be_bytes 4 pl = take 4 (drop 12 bytes)"
    using be_bytes_be_value [of "take 8 (drop 4 bytes)"] be_bytes_be_value [of "take 4 (drop 12 bytes)"] len
    by (simp_all add: so_def pl_def)
  have hd: "word_of_nat sl = bytes ! 3" by (simp add: sl_def)
  have "encodePtyFrame f = Inr ([bytes ! 0, bytes ! 1, bytes ! 2, bytes ! 3] @ take 8 (drop 4 bytes)
      @ take 4 (drop 12 bytes) @ take sl (drop 16 bytes) @ drop (16 + sl) bytes)"
    using sid(1) off pay lens code_frame_type [OF ty] m b8 b4 hd
    by (simp add: encodePtyFrame_def sid(2))
  then show ?thesis using header_split [of bytes sl] len by simp
qed

theorem pty_frame_canonical_witness:
  "encodePtyFrame \<lparr>pf_type = InputFrame, pf_sessionId = ''a'', pf_streamOffset = num 0,
     pf_payload = [255]\<rparr> = Inr [0xab, 1, 2, 1, 0, 0, 0, 0, 0, 0, 0, 0, 0, 0, 0, 1, 0x61, 255]"
proof -
  have "decodePtyFrame [0xab, 1, 2, 1, 0, 0, 0, 0, 0, 0, 0, 0, 0, 0, 0, 1, 0x61, 255]
    = Inr \<lparr>pf_type = InputFrame, pf_sessionId = ''a'', pf_streamOffset = num 0, pf_payload = [255]\<rparr>"
    by (simp add: frame_eval char_of_def bit_Suc_0_iff)
  then show ?thesis by (rule pty_frame_canonical)
qed

end
