(* ===== verification/Pty_Stream.thy ===== *)
theory Pty_Stream
  imports Chunks Pty_Frame
begin

text \<open>
  \<open>PtySessionStream\<close> of \<open>core/src/gateway/ptyStream.ts\<close>: the gateway's retained window of one
  session's output, fanned out to any number of attached consumers. Each consumer has a delivery
  cursor and a monotonic acknowledgement; the slowest acknowledgement is the release floor.

  Consumers are a map from handle number to cursors in attach order (a JavaScript \<open>Set\<close> of state
  objects; a handle is detached when it is no longer in the map). Calls on the sinks and on the
  producer are returned as the list of effects of the call, in order.
\<close>

section \<open>State\<close>

record pty_flow_options =
  po_capBytes :: nat
  po_highWater :: nat
  po_lowWater :: nat
  po_deliveryWindowBytes :: nat
  po_maxFramePayloadBytes :: nat

definition DEFAULT_PTY_FLOW_CONTROL :: pty_flow_options where
  "DEFAULT_PTY_FLOW_CONTROL = \<lparr>po_capBytes = 4 * 1024 * 1024, po_highWater = 2 * 1024 * 1024,
     po_lowWater = 512 * 1024, po_deliveryWindowBytes = 1024 * 1024,
     po_maxFramePayloadBytes = PTY_FRAME_MAX_PAYLOAD_BYTES\<rparr>"

record consumer =
  c_deliveredTo :: nat
  c_acked :: nat

record pty_stream =
  ps_opts :: pty_flow_options
  ps_chunks :: "offset_chunk list"
  ps_head :: nat
  ps_floor :: nat
  ps_peak :: nat
  ps_paused :: bool
  ps_exited :: bool
  ps_consumers :: "(nat, consumer) jmap"
  ps_nextHandle :: nat

datatype effect = DeliverTo nat nat "byte list" | PauseProducer | ResumeProducer

datatype stream_error = WatermarkOutOfRange | PtyBufferOverflow nat nat | InvalidOptions

definition new_stream :: "pty_flow_options \<Rightarrow> stream_error + pty_stream" where
  "new_stream opts =
    (if \<not> (po_lowWater opts < po_highWater opts \<and> po_highWater opts \<le> po_capBytes opts) then Inl InvalidOptions
     else if po_deliveryWindowBytes opts > max_safe_nat \<or> po_deliveryWindowBytes opts < 1 then Inl InvalidOptions
     else if po_maxFramePayloadBytes opts < 1
        \<or> po_maxFramePayloadBytes opts > PTY_FRAME_MAX_PAYLOAD_BYTES then Inl InvalidOptions
     else Inr \<lparr>ps_opts = opts, ps_chunks = [], ps_head = 0, ps_floor = 0, ps_peak = 0,
               ps_paused = False, ps_exited = False, ps_consumers = [], ps_nextHandle = 0\<rparr>)"

definition ps_occupancy :: "pty_stream \<Rightarrow> nat" where
  "ps_occupancy s = ps_head s - ps_floor s"

section \<open>Internals\<close>

primrec sliceAt :: "nat \<Rightarrow> offset_chunk list \<Rightarrow> nat \<Rightarrow> nat \<Rightarrow> byte list option" where
  "sliceAt maxFrame [] offset limit = None"
| "sliceAt maxFrame (chunk # cs) offset limit =
    (if oc_end chunk \<le> offset then sliceAt maxFrame cs offset limit
     else if oc_offset chunk > offset then None
     else let start = offset - oc_offset chunk;
              tk = min (oc_end chunk) limit - offset;
              capped = min tk maxFrame
          in if capped = 0 then None else Some (take capped (drop start (oc_bytes chunk))))"

lemma sliceAt_pos: "sliceAt m cs off l = Some bs \<Longrightarrow> 0 < length bs"
  by (induction cs) (auto simp: Let_def oc_end_def split: if_splits)

text \<open>The delivery loop: \<open>(final cursor, delivered slices with their offsets)\<close>.\<close>

function deliver_more :: "nat \<Rightarrow> offset_chunk list \<Rightarrow> nat \<Rightarrow> nat \<Rightarrow> nat \<times> (nat \<times> byte list) list" where
  "deliver_more m cs deliveredTo limit =
    (if deliveredTo < limit then
       (case sliceAt m cs deliveredTo limit of
          None \<Rightarrow> (deliveredTo, [])
        | Some sl \<Rightarrow>
            (case deliver_more m cs (deliveredTo + length sl) limit of
               (fin, ds) \<Rightarrow> (fin, (deliveredTo, sl) # ds)))
     else (deliveredTo, []))"
  by pat_completeness auto
termination
  by (relation "measure (\<lambda>(m, cs, d, l). l - d)") (auto dest!: sliceAt_pos intro!: diff_less_mono2)

declare deliver_more.simps [simp del]

definition deliverMore :: "pty_stream \<Rightarrow> nat \<Rightarrow> pty_stream \<times> effect list" where
  "deliverMore s cid = (case jm_get (ps_consumers s) cid of
     None \<Rightarrow> (s, [])
   | Some c \<Rightarrow>
       (let limit = min (ps_head s) (c_acked c + po_deliveryWindowBytes (ps_opts s));
            (fin, ds) = deliver_more (po_maxFramePayloadBytes (ps_opts s)) (ps_chunks s)
                          (c_deliveredTo c) limit
        in (s\<lparr>ps_consumers := jm_set (ps_consumers s) cid (c\<lparr>c_deliveredTo := fin\<rparr>)\<rparr>,
            map (\<lambda>(off, bs). DeliverTo cid off bs) ds)))"

fun deliverAll :: "pty_stream \<Rightarrow> nat list \<Rightarrow> pty_stream \<times> effect list" where
  "deliverAll s [] = (s, [])"
| "deliverAll s (cid # cids) =
     (let (s1, e1) = deliverMore s cid; (s2, e2) = deliverAll s1 cids in (s2, e1 @ e2))"

definition recomputeFloor :: "pty_stream \<Rightarrow> pty_stream \<times> effect list" where
  "recomputeFloor s =
    (if ps_consumers s = [] then (s, [])
     else let mn = foldl (\<lambda>m c. if c_acked c < m then c_acked c else m) max_safe_nat
                     (jm_values (ps_consumers s))
          in if mn \<le> ps_floor s then (s, [])
             else let s1 = s\<lparr>ps_floor := mn, ps_chunks := drop_released mn (ps_chunks s)\<rparr>
                  in if ps_paused s1 \<and> ps_occupancy s1 \<le> po_lowWater (ps_opts s1)
                     then (s1\<lparr>ps_paused := False\<rparr>, if ps_exited s1 then [] else [ResumeProducer])
                     else (s1, []))"

definition checkWatermarkBounds :: "pty_stream \<Rightarrow> nat \<Rightarrow> bool" where
  "checkWatermarkBounds s w = (ps_floor s \<le> w \<and> w \<le> ps_head s)"

section \<open>The public surface\<close>

definition stream_push :: "pty_stream \<Rightarrow> byte list \<Rightarrow> stream_error + (pty_stream \<times> effect list)" where
  "stream_push s chunk =
    (if ps_exited s \<or> chunk = [] then Inr (s, [])
     else let next = ps_occupancy s + length chunk in
       if next > po_capBytes (ps_opts s) then Inl (PtyBufferOverflow next (po_capBytes (ps_opts s)))
       else let s1 = s\<lparr>ps_chunks := ps_chunks s @ [\<lparr>oc_offset = ps_head s, oc_bytes = chunk\<rparr>],
                      ps_head := ps_head s + length chunk, ps_peak := max next (ps_peak s)\<rparr>;
                (s2, e2) = (if \<not> ps_paused s1 \<and> next \<ge> po_highWater (ps_opts s1)
                            then (s1\<lparr>ps_paused := True\<rparr>, [PauseProducer]) else (s1, []));
                (s3, e3) = deliverAll s2 (jm_keys (ps_consumers s2))
            in Inr (s3, e2 @ e3))"

definition stream_markExited :: "pty_stream \<Rightarrow> pty_stream" where
  "stream_markExited s = s\<lparr>ps_exited := True\<rparr>"

definition stream_attach :: "pty_stream \<Rightarrow> nat \<Rightarrow> stream_error + (pty_stream \<times> effect list \<times> nat)" where
  "stream_attach s fromWatermark =
    (if \<not> checkWatermarkBounds s fromWatermark then Inl WatermarkOutOfRange
     else let cid = ps_nextHandle s;
              s1 = s\<lparr>ps_consumers := jm_set (ps_consumers s) cid
                       \<lparr>c_deliveredTo = fromWatermark, c_acked = fromWatermark\<rparr>,
                     ps_nextHandle := Suc cid\<rparr>;
              (s2, e2) = recomputeFloor s1;
              (s3, e3) = deliverMore s2 cid
          in Inr (s3, e2 @ e3, cid))"

definition consumer_ack :: "pty_stream \<Rightarrow> nat \<Rightarrow> nat \<Rightarrow> stream_error + (pty_stream \<times> effect list)" where
  "consumer_ack s cid watermark = (case jm_get (ps_consumers s) cid of
     None \<Rightarrow> Inl WatermarkOutOfRange
   | Some c \<Rightarrow>
       if watermark > c_deliveredTo c then Inl WatermarkOutOfRange
       else if watermark \<le> c_acked c then Inr (s, [])
       else let s1 = s\<lparr>ps_consumers := jm_set (ps_consumers s) cid (c\<lparr>c_acked := watermark\<rparr>)\<rparr>;
                (s2, e2) = recomputeFloor s1;
                (s3, e3) = deliverMore s2 cid
            in Inr (s3, e2 @ e3))"

definition consumer_replayFrom :: "pty_stream \<Rightarrow> nat \<Rightarrow> nat \<Rightarrow> stream_error + (pty_stream \<times> effect list)" where
  "consumer_replayFrom s cid fromOffset = (case jm_get (ps_consumers s) cid of
     None \<Rightarrow> Inl WatermarkOutOfRange
   | Some c \<Rightarrow>
       if \<not> checkWatermarkBounds s fromOffset then Inl WatermarkOutOfRange
       else Inr (deliverMore
              (s\<lparr>ps_consumers := jm_set (ps_consumers s) cid (c\<lparr>c_deliveredTo := fromOffset\<rparr>)\<rparr>) cid))"

definition consumer_detach :: "pty_stream \<Rightarrow> nat \<Rightarrow> pty_stream \<times> effect list" where
  "consumer_detach s cid =
    (if \<not> jm_has (ps_consumers s) cid then (s, [])
     else recomputeFloor (s\<lparr>ps_consumers := jm_delete (ps_consumers s) cid\<rparr>))"

section \<open>Calls as data\<close>

datatype stream_op = SPush "byte list" | SExit | SAttach nat | SAck nat nat | SReplay nat nat | SDetach nat

definition stream_call :: "pty_stream \<Rightarrow> stream_op \<Rightarrow> stream_error + (pty_stream \<times> effect list)" where
  "stream_call s op = (case op of
     SPush bs \<Rightarrow> stream_push s bs
   | SExit \<Rightarrow> Inr (stream_markExited s, [])
   | SAttach w \<Rightarrow> (case stream_attach s w of Inl e \<Rightarrow> Inl e | Inr (s', es, _) \<Rightarrow> Inr (s', es))
   | SAck cid w \<Rightarrow> consumer_ack s cid w
   | SReplay cid w \<Rightarrow> consumer_replayFrom s cid w
   | SDetach cid \<Rightarrow> Inr (consumer_detach s cid))"

text \<open>A refused or throwing call leaves the state as it was.\<close>

fun stream_run :: "pty_stream \<Rightarrow> stream_op list \<Rightarrow> pty_stream \<times> effect list" where
  "stream_run s [] = (s, [])"
| "stream_run s (op # ops) =
    (case stream_call s op of
       Inl _ \<Rightarrow> stream_run s ops
     | Inr (s1, e1) \<Rightarrow> (case stream_run s1 ops of (s2, e2) \<Rightarrow> (s2, e1 @ e2)))"

text \<open>The bytes a run accepts from the producer.\<close>

fun accepted :: "pty_stream \<Rightarrow> stream_op list \<Rightarrow> byte list" where
  "accepted s [] = []"
| "accepted s (op # ops) =
    (case stream_call s op of
       Inl _ \<Rightarrow> accepted s ops
     | Inr (s1, _) \<Rightarrow>
         (case op of SPush bs \<Rightarrow> if ps_exited s then [] else bs | _ \<Rightarrow> []) @ accepted s1 ops)"

section \<open>Invariant\<close>

definition consumer_ok :: "pty_stream \<Rightarrow> consumer \<Rightarrow> bool" where
  "consumer_ok s c \<longleftrightarrow> ps_floor s \<le> c_acked c \<and> c_acked c \<le> c_deliveredTo c \<and> c_deliveredTo c \<le> ps_head s
     \<and> min (ps_head s) (c_acked c + po_deliveryWindowBytes (ps_opts s)) \<le> c_deliveredTo c"

definition stream_base :: "byte list \<Rightarrow> pty_stream \<Rightarrow> bool" where
  "stream_base S s \<longleftrightarrow> ps_head s = length S \<and> ps_floor s \<le> ps_head s
     \<and> (\<exists>b \<le> ps_floor s. window S b (ps_chunks s))
     \<and> 1 \<le> po_maxFramePayloadBytes (ps_opts s) \<and> 1 \<le> po_deliveryWindowBytes (ps_opts s)
     \<and> po_lowWater (ps_opts s) < po_highWater (ps_opts s)
     \<and> po_highWater (ps_opts s) \<le> po_capBytes (ps_opts s)
     \<and> ps_occupancy s \<le> ps_peak s \<and> ps_peak s \<le> po_capBytes (ps_opts s)
     \<and> (if ps_paused s then po_lowWater (ps_opts s) < ps_occupancy s
        else ps_occupancy s < po_highWater (ps_opts s))
     \<and> jm_ok (ps_consumers s) \<and> (\<forall>k\<in>fst ` set (ps_consumers s). k < ps_nextHandle s)"

definition stream_inv :: "byte list \<Rightarrow> pty_stream \<Rightarrow> bool" where
  "stream_inv S s \<longleftrightarrow> stream_base S s \<and> (\<forall>(k, c)\<in>set (ps_consumers s). consumer_ok s c)"

section \<open>The delivery loop against the stream\<close>

lemma sliceAt_window:
  assumes "window S b cs" "b \<le> off" "off < l" "l \<le> length S" "1 \<le> m"
  shows "\<exists>n>0. n \<le> m \<and> off + n \<le> l \<and> sliceAt m cs off l = Some (take n (drop off S))"
  using assms
proof (induction cs arbitrary: b)
  case Nil
  then show ?case by simp
next
  case (Cons c cs)
  show ?case
  proof (cases "oc_end c \<le> off")
    case True
    with Cons.IH [of "oc_end c"] Cons.prems show ?thesis by auto
  next
    case False
    define n where "n = min (min (oc_end c) l - off) m"
    have n: "0 < n" "n \<le> m" "off + n \<le> l" "n \<le> oc_end c - off" using False Cons.prems by (auto simp: n_def)
    have o: "oc_offset c \<le> off" using Cons.prems by simp
    have "take n (drop (off - oc_offset c) (oc_bytes c)) = take n (drop off S)"
      using window_read [OF Cons.prems(1,2), of n] False n(4) by simp
    then have "sliceAt m (c # cs) off l = Some (take n (drop off S))"
      using False o n(1) by (simp add: n_def [symmetric] Let_def)
    with n show ?thesis by blast
  qed
qed

lemma deliver_more_window:
  assumes "window S b cs" "1 \<le> m" "l \<le> length S"
  shows "b \<le> d \<Longrightarrow> deliver_more m cs d l = (fin, ds) \<Longrightarrow>
    fin = max d l \<and> (\<forall>(off, bs)\<in>set ds. slice_at S off bs \<and> bs \<noteq> [] \<and> length bs \<le> m \<and> off + length bs \<le> l)"
proof (induction "l - d" arbitrary: d fin ds rule: less_induct)
  case less
  show ?case
  proof (cases "d < l")
    case False
    with less.prems show ?thesis by (auto simp: deliver_more.simps [of m cs d l])
  next
    case True
    obtain n where n: "0 < n" "n \<le> m" "d + n \<le> l" "sliceAt m cs d l = Some (take n (drop d S))"
      using sliceAt_window [OF assms(1) less.prems(1) True assms(3,2)] by blast
    have len: "length (take n (drop d S)) = n" using n assms(3) by simp
    obtain fin' ds' where rec: "deliver_more m cs (d + n) l = (fin', ds')"
      by (cases "deliver_more m cs (d + n) l")
    have eq: "fin = fin'" "ds = (d, take n (drop d S)) # ds'"
      using less.prems(2) True n(4) len rec by (auto simp: deliver_more.simps [of m cs d l])
    have IH: "fin' = max (d + n) l \<and>
        (\<forall>(off, bs)\<in>set ds'. slice_at S off bs \<and> bs \<noteq> [] \<and> length bs \<le> m \<and> off + length bs \<le> l)"
      using less.hyps [OF _ _ rec] n True less.prems(1) by simp
    have "slice_at S d (take n (drop d S))" using n assms(3) by (intro slice_atI) simp
    moreover have "take n (drop d S) \<noteq> []" using len n(1) by auto
    ultimately show ?thesis using IH eq len n(2,3) by auto
  qed
qed

section \<open>Preservation, one lemma per internal step\<close>

definition consumer_pre :: "pty_stream \<Rightarrow> consumer \<Rightarrow> bool" where
  "consumer_pre s c \<longleftrightarrow> ps_floor s \<le> c_acked c \<and> c_acked c \<le> ps_head s
     \<and> ps_floor s \<le> c_deliveredTo c \<and> c_deliveredTo c \<le> ps_head s"

definition acks :: "pty_stream \<Rightarrow> nat \<Rightarrow> nat option" where
  "acks s k = map_option c_acked (jm_get (ps_consumers s) k)"

text \<open>A delivered frame is a non-empty true slice, fits a wire frame, and stays within the
  consumer's delivery window.\<close>

definition good_effect :: "byte list \<Rightarrow> pty_stream \<Rightarrow> effect \<Rightarrow> bool" where
  "good_effect S s e = (case e of
     DeliverTo cid off bs \<Rightarrow> slice_at S off bs \<and> bs \<noteq> [] \<and> length bs \<le> po_maxFramePayloadBytes (ps_opts s)
       \<and> (case acks s cid of None \<Rightarrow> False
          | Some a \<Rightarrow> off + length bs \<le> a + po_deliveryWindowBytes (ps_opts s))
   | _ \<Rightarrow> True)"

lemma consumer_ok_pre: "consumer_ok s c \<Longrightarrow> consumer_pre s c"
  by (auto simp: consumer_ok_def consumer_pre_def)

lemma base_set_consumer:
  "stream_base S s \<Longrightarrow> k < ps_nextHandle s \<Longrightarrow>
   stream_base S (s\<lparr>ps_consumers := jm_set (ps_consumers s) k c\<rparr>)"
  by (auto simp: stream_base_def ps_occupancy_def)

lemma consumer_ok_frame:
  "ps_floor s' = ps_floor s \<Longrightarrow> ps_head s' = ps_head s \<Longrightarrow> ps_opts s' = ps_opts s \<Longrightarrow>
   consumer_ok s' c = consumer_ok s c \<and> consumer_pre s' c = consumer_pre s c"
  by (simp add: consumer_ok_def consumer_pre_def)

lemma in_set_jm_set:
  "jm_ok m \<Longrightarrow> (k', c') \<in> set (jm_set m k c) \<longleftrightarrow> (k' = k \<and> c' = c) \<or> (k' \<noteq> k \<and> (k', c') \<in> set m)"
  by (metis jm_get_in_set jm_ok_set in_set_jm_get jm_get_set option.inject)

lemma deliverMore_step:
  assumes "stream_base S s" "jm_get (ps_consumers s) cid = Some c" "consumer_pre s c"
    and "deliverMore s cid = (s', es)"
  shows "\<exists>c'. s' = s\<lparr>ps_consumers := jm_set (ps_consumers s) cid c'\<rparr> \<and> c_acked c' = c_acked c
    \<and> consumer_ok s' c' \<and> stream_base S s' \<and> list_all (good_effect S s') es
    \<and> (\<forall>e\<in>set es. \<exists>off bs. e = DeliverTo cid off bs)"
proof -
  define l where "l = min (ps_head s) (c_acked c + po_deliveryWindowBytes (ps_opts s))"
  let ?m = "po_maxFramePayloadBytes (ps_opts s)"
  obtain fin ds where dm: "deliver_more ?m (ps_chunks s) (c_deliveredTo c) l = (fin, ds)"
    by (cases "deliver_more ?m (ps_chunks s) (c_deliveredTo c) l")
  define c' where "c' = c\<lparr>c_deliveredTo := fin\<rparr>"
  have res: "s' = s\<lparr>ps_consumers := jm_set (ps_consumers s) cid c'\<rparr>"
    "es = map (\<lambda>(off, bs). DeliverTo cid off bs) ds"
    using assms(2,4) dm by (auto simp: deliverMore_def l_def [symmetric] c'_def)
  obtain b where b: "b \<le> ps_floor s" "window S b (ps_chunks s)" "ps_head s = length S" "1 \<le> ?m"
    using assms(1) by (auto simp: stream_base_def)
  have spec: "fin = max (c_deliveredTo c) l"
    "\<forall>(off, bs)\<in>set ds. slice_at S off bs \<and> bs \<noteq> [] \<and> length bs \<le> ?m \<and> off + length bs \<le> l"
    using deliver_more_window [OF b(2,4) _ _ dm] b assms(3) by (auto simp: l_def consumer_pre_def)
  have k: "cid < ps_nextHandle s"
    using assms(1,2) by (auto simp: stream_base_def dest!: jm_get_in_set)
  have "consumer_ok s' c'"
    using assms(3) spec(1) res by (auto simp: consumer_ok_def consumer_pre_def c'_def l_def)
  moreover have "stream_base S s'" using base_set_consumer [OF assms(1) k] res by simp
  moreover have "list_all (good_effect S s') es"
    using spec(2) res by (auto simp: list_all_iff good_effect_def acks_def jm_get_set c'_def l_def)
  ultimately show ?thesis using res by (auto simp: c'_def intro!: exI [of _ c'])
qed

lemma foldl_min_acked:
  "foldl (\<lambda>m c. if c_acked c < m then c_acked c else m) z cs \<le> z
   \<and> (\<forall>c\<in>set cs. foldl (\<lambda>m c. if c_acked c < m then c_acked c else m) z cs \<le> c_acked c)"
proof (induction cs arbitrary: z)
  case (Cons c cs)
  then show ?case using Cons.IH [of "if c_acked c < z then c_acked c else z"] by fastforce
qed simp

lemma base_release:
  assumes "stream_base S s" "ps_floor s \<le> mn" "mn \<le> ps_head s" "b \<le> mn" "window S b cs"
  shows "stream_base S (s\<lparr>ps_floor := mn, ps_chunks := cs,
    ps_paused := (ps_paused s \<and> po_lowWater (ps_opts s) < ps_head s - mn)\<rparr>)"
proof -
  have "ps_head s - mn \<le> ps_head s - ps_floor s" using assms(2) by (rule diff_le_mono2)
  then show ?thesis using assms unfolding stream_base_def ps_occupancy_def
    by (cases "ps_paused s") auto
qed

lemma recomputeFloor_step:
  assumes "stream_base S s" "\<forall>(k, c)\<in>set (ps_consumers s). ps_floor s \<le> c_acked c \<and> c_acked c \<le> ps_head s"
    and "recomputeFloor s = (s', es)"
  shows "stream_base S s' \<and> ps_consumers s' = ps_consumers s \<and> ps_head s' = ps_head s
    \<and> ps_opts s' = ps_opts s \<and> ps_nextHandle s' = ps_nextHandle s \<and> ps_floor s \<le> ps_floor s'
    \<and> ps_exited s' = ps_exited s
    \<and> (\<forall>(k, c)\<in>set (ps_consumers s). ps_floor s' \<le> c_acked c) \<and> list_all (good_effect S s') es
    \<and> (\<forall>e\<in>set es. e = ResumeProducer)"
proof -
  define mn where "mn = foldl (\<lambda>m c. if c_acked c < m then c_acked c else m) max_safe_nat
      (jm_values (ps_consumers s))"
  have mn: "mn \<le> c_acked c" if "(k, c) \<in> set (ps_consumers s)" for k c
    using foldl_min_acked [of max_safe_nat "jm_values (ps_consumers s)"] that
    by (force simp: mn_def jm_values_def)
  show ?thesis
  proof (cases "ps_consumers s = [] \<or> mn \<le> ps_floor s")
    case True
    then have "recomputeFloor s = (s, [])" by (auto simp: recomputeFloor_def mn_def [symmetric] Let_def)
    with assms show ?thesis by auto
  next
    case False
    then obtain k c where kc: "(k, c) \<in> set (ps_consumers s)" by (cases "ps_consumers s") auto
    have mnh: "mn \<le> ps_head s" using mn [OF kc] assms(2) kc by fastforce
    obtain b where b: "b \<le> ps_floor s" "window S b (ps_chunks s)" "ps_head s = length S"
      using assms(1) by (auto simp: stream_base_def)
    obtain b' where b': "b' \<le> mn" "window S b' (drop_released mn (ps_chunks s))"
      using window_drop_released [OF b(2), of mn] False b(1,3) mnh by auto
    define s1 where "s1 = s\<lparr>ps_floor := mn, ps_chunks := drop_released mn (ps_chunks s)\<rparr>"
    have eq: "recomputeFloor s = (if ps_paused s1 \<and> ps_occupancy s1 \<le> po_lowWater (ps_opts s1)
        then (s1\<lparr>ps_paused := False\<rparr>, if ps_exited s1 then [] else [ResumeProducer]) else (s1, []))"
      using False by (simp add: recomputeFloor_def mn_def [symmetric] Let_def s1_def)
    define p where "p = (ps_paused s1 \<and> \<not> ps_occupancy s1 \<le> po_lowWater (ps_opts s1))"
    have s': "s' = s1\<lparr>ps_paused := p\<rparr>"
      using assms(3) unfolding eq p_def by (cases "ps_paused s1") (auto split: if_splits)
    have es: "\<forall>e\<in>set es. e = ResumeProducer" using assms(3) unfolding eq by (auto split: if_splits)
    have "stream_base S s'"
      using base_release [OF assms(1) _ mnh b'] False
      by (simp add: s' p_def s1_def ps_occupancy_def not_le)
    moreover have "list_all (good_effect S s') es" using es by (auto simp: list_all_iff good_effect_def)
    ultimately show ?thesis using es False mn by (auto simp: s' s1_def)
  qed
qed

section \<open>Preservation, one lemma per call\<close>

text \<open>The consumers of \<open>s\<close> that are not in the list still waiting for delivery are served; the
  others are only in range.\<close>

definition served_except :: "nat set \<Rightarrow> pty_stream \<Rightarrow> bool" where
  "served_except W s \<longleftrightarrow> (\<forall>(k, c)\<in>set (ps_consumers s). consumer_pre s c \<and> (k \<notin> W \<longrightarrow> consumer_ok s c))"

lemma served_except_empty: "stream_inv S s \<longleftrightarrow> stream_base S s \<and> served_except {} s"
  by (auto simp: stream_inv_def served_except_def dest: consumer_ok_pre)

text \<open>What a delivery leaves alone: everything but the delivery cursors.\<close>

definition only_cursors :: "pty_stream \<Rightarrow> pty_stream \<Rightarrow> bool" where
  "only_cursors s s' \<longleftrightarrow> s'\<lparr>ps_consumers := []\<rparr> = s\<lparr>ps_consumers := []\<rparr> \<and> acks s' = acks s
     \<and> fst ` set (ps_consumers s') = fst ` set (ps_consumers s)"

lemma only_cursors_refl: "only_cursors s s"
  by (simp add: only_cursors_def)

lemma only_cursors_trans: "only_cursors s s' \<Longrightarrow> only_cursors s' s'' \<Longrightarrow> only_cursors s s''"
  by (simp add: only_cursors_def)

lemma only_cursors_frame:
  assumes "only_cursors s s'"
  shows "ps_opts s' = ps_opts s" "ps_head s' = ps_head s" "ps_floor s' = ps_floor s"
    "ps_peak s' = ps_peak s" "ps_paused s' = ps_paused s" "ps_exited s' = ps_exited s"
    "ps_nextHandle s' = ps_nextHandle s" "ps_chunks s' = ps_chunks s"
  using assms by (cases s; cases s'; simp add: only_cursors_def)+

lemma good_effect_acks:
  "acks s' = acks s \<Longrightarrow> ps_opts s' = ps_opts s \<Longrightarrow> good_effect S s' e = good_effect S s e"
  by (cases e) (simp_all add: good_effect_def split: option.split)

lemma only_cursors_good: "only_cursors s s' \<Longrightarrow> good_effect S s' e = good_effect S s e"
  by (rule good_effect_acks) (blast intro: only_cursors_frame(1) dest: only_cursors_def [THEN iffD1])+

lemma only_cursors_keys: "only_cursors s s' \<Longrightarrow> fst ` set (ps_consumers s') = fst ` set (ps_consumers s)"
  unfolding only_cursors_def by blast

lemma deliverMore_served:
  assumes "stream_base S s" "served_except W s" "cid \<in> fst ` set (ps_consumers s)"
    and "deliverMore s cid = (s', es)"
  shows "stream_base S s' \<and> served_except (W - {cid}) s' \<and> only_cursors s s' \<and> list_all (good_effect S s') es"
proof -
  obtain c where c: "jm_get (ps_consumers s) cid = Some c"
    using assms(3) jm_get_None_iff [of "ps_consumers s" cid] by auto
  have ok: "jm_ok (ps_consumers s)" using assms(1) by (simp add: stream_base_def)
  have pre: "consumer_pre s c" using assms(2) jm_get_in_set [OF c] by (auto simp: served_except_def)
  obtain c' where c': "s' = s\<lparr>ps_consumers := jm_set (ps_consumers s) cid c'\<rparr>" "c_acked c' = c_acked c"
    "consumer_ok s' c'" "stream_base S s'" "list_all (good_effect S s') es"
    using deliverMore_step [OF assms(1) c pre assms(4)] by blast
  have "served_except (W - {cid}) s'"
    using assms(2) c'(1,3) ok consumer_ok_frame [of s' s]
    by (auto simp: served_except_def in_set_jm_set dest: consumer_ok_pre)
  moreover have "only_cursors s s'"
    using c' c assms(3) by (auto simp: only_cursors_def acks_def jm_get_set fun_eq_iff)
  ultimately show ?thesis using c' by blast
qed

lemma deliverAll_served:
  assumes "stream_base S s" "served_except W s" "set cids \<subseteq> fst ` set (ps_consumers s)"
    and "deliverAll s cids = (s', es)"
  shows "stream_base S s' \<and> served_except (W - set cids) s' \<and> only_cursors s s' \<and> list_all (good_effect S s') es"
  using assms
proof (induction cids arbitrary: s W es)
  case Nil
  then show ?case by (simp add: only_cursors_refl)
next
  case (Cons cid cids)
  obtain s1 e1 where d1: "deliverMore s cid = (s1, e1)" by (cases "deliverMore s cid")
  obtain s2 e2 where d2': "deliverAll s1 cids = (s2, e2)" by (cases "deliverAll s1 cids")
  have s2: "s2 = s'" and es: "es = e1 @ e2" using Cons.prems(4) d1 d2' by simp_all
  note d2 = d2' [unfolded s2]
  note one = deliverMore_served [OF Cons.prems(1,2) _ d1]
  have o: "stream_base S s1" "served_except (W - {cid}) s1" "only_cursors s s1" "list_all (good_effect S s1) e1"
    using one Cons.prems(3) by simp_all
  have "set cids \<subseteq> fst ` set (ps_consumers s1)" 
    using Cons.prems(3) only_cursors_keys [OF o(3)] by simp
  note r = Cons.IH [OF o(1,2) this d2]
  have oc: "only_cursors s1 s'" using r by blast
  have "list_all (good_effect S s') e1" using o(4) by (simp add: list_all_iff only_cursors_good [OF oc])
  moreover have "W - set (cid # cids) = W - {cid} - set cids" by auto
  ultimately show ?case using r es only_cursors_trans [OF o(3) oc] by simp
qed

text \<open>Re-establishing the invariant when one consumer's state was replaced and the floor
  recomputed: the shared tail of attach, acknowledge and (without the floor) replay.\<close>

lemma served_set_consumer:
  assumes "stream_base S s" "served_except {} s" "consumer_pre s c" "k < ps_nextHandle s"
  defines "s1 \<equiv> s\<lparr>ps_consumers := jm_set (ps_consumers s) k c\<rparr>"
  shows "stream_base S s1 \<and> served_except {k} s1 \<and> k \<in> fst ` set (ps_consumers s1)"
proof -
  have ok: "jm_ok (ps_consumers s)" using assms(1) by (simp add: stream_base_def)
  have "served_except {k} s1"
    using assms(2,3) ok consumer_ok_frame [of s1 s]
    by (auto simp: served_except_def s1_def in_set_jm_set)
  then show ?thesis using base_set_consumer [OF assms(1,4)] by (simp add: s1_def)
qed

lemma served_recomputeFloor:
  assumes "stream_base S s" "served_except W s" "recomputeFloor s = (s', es)"
    and "\<forall>(k, c)\<in>set (ps_consumers s). k \<in> W \<longrightarrow> c_acked c \<le> c_deliveredTo c"
  shows "stream_base S s' \<and> served_except W s' \<and> ps_consumers s' = ps_consumers s
    \<and> ps_head s' = ps_head s \<and> ps_opts s' = ps_opts s \<and> ps_exited s' = ps_exited s
    \<and> (\<forall>e\<in>set es. e = ResumeProducer)"
proof -
  have rng: "\<forall>(k, c)\<in>set (ps_consumers s). ps_floor s \<le> c_acked c \<and> c_acked c \<le> ps_head s"
    using assms(2) by (auto simp: served_except_def consumer_pre_def)
  note r = recomputeFloor_step [OF assms(1) rng assms(3)]
  have "served_except W s'"
    using assms(2,4) r unfolding served_except_def consumer_pre_def consumer_ok_def
    by (fastforce simp del: min_less_iff_disj)
  with r show ?thesis by simp
qed

lemma floor_then_deliver:
  assumes "stream_base S s" "served_except {k} s" "k \<in> fst ` set (ps_consumers s)"
    and "\<forall>(j, c)\<in>set (ps_consumers s). j = k \<longrightarrow> c_acked c \<le> c_deliveredTo c"
    and "recomputeFloor s = (s2, e2)" "deliverMore s2 k = (s3, e3)"
  shows "stream_inv S s3 \<and> list_all (good_effect S s3) (e2 @ e3) \<and> acks s3 = acks s
    \<and> ps_opts s3 = ps_opts s \<and> ps_head s3 = ps_head s"
proof -
  have r: "stream_base S s2" "served_except {k} s2" "ps_consumers s2 = ps_consumers s"
    "ps_head s2 = ps_head s" "ps_opts s2 = ps_opts s" "\<forall>e\<in>set e2. e = ResumeProducer"
    using served_recomputeFloor [OF assms(1,2,5)] assms(4) by auto
  have d: "stream_base S s3" "served_except ({k} - {k}) s3" "only_cursors s2 s3"
    "list_all (good_effect S s3) e3"
    using deliverMore_served [OF r(1,2) _ assms(6)] assms(3) r(3) by auto
  have "list_all (good_effect S s3) e2" using r(6) by (auto simp: list_all_iff good_effect_def)
  moreover have "acks s3 = acks s" using d(3) r(3) by (simp add: only_cursors_def acks_def fun_eq_iff)
  ultimately show ?thesis
    using d r only_cursors_frame [OF d(3)] served_except_empty [of S s3] by simp
qed

lemma stream_attach_inv:
  assumes "stream_inv S s" "stream_attach s w = Inr (s', es, k)"
  shows "stream_inv S s' \<and> list_all (good_effect S s') es \<and> ps_opts s' = ps_opts s \<and> ps_head s' = ps_head s
    \<and> k = ps_nextHandle s \<and> acks s' = (acks s)(k \<mapsto> w)"
proof -
  let ?k = "ps_nextHandle s" and ?c = "\<lparr>c_deliveredTo = w, c_acked = w\<rparr>"
  define s0 where "s0 = s\<lparr>ps_nextHandle := Suc ?k\<rparr>"
  define s1 where "s1 = s\<lparr>ps_consumers := jm_set (ps_consumers s) ?k ?c, ps_nextHandle := Suc ?k\<rparr>"
  have s1': "s1 = s0\<lparr>ps_consumers := jm_set (ps_consumers s0) ?k ?c\<rparr>" by (simp add: s1_def s0_def)
  obtain s2 e2 where f: "recomputeFloor s1 = (s2, e2)" by (cases "recomputeFloor s1")
  obtain s3 e3 where d: "deliverMore s2 ?k = (s3, e3)" by (cases "deliverMore s2 ?k")
  have b: "ps_floor s \<le> w" "w \<le> ps_head s" and res: "s' = s3" "es = e2 @ e3" "k = ?k"
    using assms(2) f d
    by (auto simp: stream_attach_def checkWatermarkBounds_def Let_def s1_def [symmetric] split: if_splits)
  have base0: "stream_base S s0" "served_except {} s0"
    using assms(1) unfolding served_except_empty stream_base_def served_except_def
      consumer_ok_def consumer_pre_def
    by (fastforce simp: s0_def ps_occupancy_def)+
  have pre: "consumer_pre s0 ?c" using b by (simp add: consumer_pre_def s0_def)
  have lt: "?k < ps_nextHandle s0" by (simp add: s0_def)
  have ok: "jm_ok (ps_consumers s)" using assms(1) by (simp add: stream_inv_def stream_base_def)
  have one: "\<forall>(j, c)\<in>set (ps_consumers s1). j = ?k \<longrightarrow> c_acked c \<le> c_deliveredTo c"
    using ok by (auto simp: s1_def in_set_jm_set)
  have s: "stream_base S s1" "served_except {?k} s1" "?k \<in> fst ` set (ps_consumers s1)"
    using served_set_consumer [OF base0 pre lt] s1' by simp_all
  have "acks s1 = (acks s)(?k \<mapsto> w)"
    by (simp add: acks_def s1_def jm_get_set fun_eq_iff)
  then show ?thesis using floor_then_deliver [OF s one f d] res by (simp add: s1_def)
qed

lemma consumer_ack_inv:
  assumes "stream_inv S s" "consumer_ack s k w = Inr (s', es)"
  shows "stream_inv S s' \<and> list_all (good_effect S s') es \<and> ps_opts s' = ps_opts s \<and> ps_head s' = ps_head s
    \<and> (\<exists>a. acks s k = Some a \<and> acks s' = (acks s)(k \<mapsto> max a w))"
proof -
  obtain c where c: "jm_get (ps_consumers s) k = Some c"
    using assms(2) by (auto simp: consumer_ack_def split: option.splits)
  have kc: "(k, c) \<in> set (ps_consumers s)" using c by (rule jm_get_in_set)
  have cok: "consumer_ok s c" using assms(1) kc by (auto simp: stream_inv_def)
  have wd: "w \<le> c_deliveredTo c" using assms(2) c by (auto simp: consumer_ack_def split: if_splits)
  show ?thesis
  proof (cases "w \<le> c_acked c")
    case True
    then have "s' = s" "es = []" using assms(2) c wd by (auto simp: consumer_ack_def)
    then show ?thesis using assms(1) c True by (auto simp: acks_def fun_eq_iff max_def)
  next
    case False
    let ?c = "c\<lparr>c_acked := w\<rparr>"
    define s1 where "s1 = s\<lparr>ps_consumers := jm_set (ps_consumers s) k ?c\<rparr>"
    obtain s2 e2 where f: "recomputeFloor s1 = (s2, e2)" by (cases "recomputeFloor s1")
    obtain s3 e3 where d: "deliverMore s2 k = (s3, e3)" by (cases "deliverMore s2 k")
    have res: "s' = s3" "es = e2 @ e3"
      using assms(2) f d c False wd by (auto simp: consumer_ack_def Let_def s1_def [symmetric])
    have base: "stream_base S s" "served_except {} s" using assms(1) by (simp_all add: served_except_empty)
    have pre: "consumer_pre s ?c" using cok wd False by (auto simp: consumer_pre_def consumer_ok_def)
    have lt: "k < ps_nextHandle s" using base(1) kc by (auto simp: stream_base_def)
    have ok: "jm_ok (ps_consumers s)" using base(1) by (simp add: stream_base_def)
    have one: "\<forall>(j, c)\<in>set (ps_consumers s1). j = k \<longrightarrow> c_acked c \<le> c_deliveredTo c"
      using ok wd by (auto simp: s1_def in_set_jm_set)
    have s: "stream_base S s1" "served_except {k} s1" "k \<in> fst ` set (ps_consumers s1)"
      using served_set_consumer [OF base pre lt] s1_def by simp_all
    have "acks s1 = (acks s)(k \<mapsto> w)" by (simp add: acks_def s1_def jm_get_set fun_eq_iff)
    then show ?thesis using floor_then_deliver [OF s one f d] res c False
      by (simp add: s1_def acks_def max_def)
  qed
qed

lemma consumer_replayFrom_inv:
  assumes "stream_inv S s" "consumer_replayFrom s k w = Inr (s', es)"
  shows "stream_inv S s' \<and> list_all (good_effect S s') es \<and> ps_opts s' = ps_opts s \<and> ps_head s' = ps_head s
    \<and> acks s' = acks s"
proof -
  obtain c where c: "jm_get (ps_consumers s) k = Some c"
    using assms(2) by (auto simp: consumer_replayFrom_def split: option.splits)
  have kc: "(k, c) \<in> set (ps_consumers s)" using c by (rule jm_get_in_set)
  have cok: "consumer_ok s c" using assms(1) kc by (auto simp: stream_inv_def)
  define s1 where "s1 = s\<lparr>ps_consumers := jm_set (ps_consumers s) k (c\<lparr>c_deliveredTo := w\<rparr>)\<rparr>"
  have b: "ps_floor s \<le> w" "w \<le> ps_head s" and d: "deliverMore s1 k = (s', es)"
    using assms(2) c
    by (auto simp: consumer_replayFrom_def checkWatermarkBounds_def s1_def split: if_splits)
  have base: "stream_base S s" "served_except {} s" using assms(1) by (simp_all add: served_except_empty)
  have pre: "consumer_pre s (c\<lparr>c_deliveredTo := w\<rparr>)"
    using cok b by (auto simp: consumer_pre_def consumer_ok_def)
  have lt: "k < ps_nextHandle s" using base(1) kc by (auto simp: stream_base_def)
  have s: "stream_base S s1" "served_except {k} s1" "k \<in> fst ` set (ps_consumers s1)"
    using served_set_consumer [OF base pre lt] s1_def by simp_all
  have r: "stream_base S s'" "served_except {} s'" "only_cursors s1 s'" "list_all (good_effect S s') es"
    using deliverMore_served [OF s d] by simp_all
  have "acks s1 = acks s" using c by (simp add: acks_def s1_def jm_get_set fun_eq_iff)
  then have "acks s' = acks s" using r(3) unfolding only_cursors_def by simp
  then show ?thesis
    using r served_except_empty [of S s'] only_cursors_frame(1,2) [OF r(3)] by (simp add: s1_def)
qed

lemma consumer_detach_inv:
  assumes "stream_inv S s" "consumer_detach s k = (s', es)"
  shows "stream_inv S s' \<and> list_all (good_effect S s') es \<and> ps_opts s' = ps_opts s \<and> ps_head s' = ps_head s
    \<and> acks s' = (acks s)(k := None) \<and> (\<forall>e\<in>set es. e = ResumeProducer)"
proof (cases "jm_has (ps_consumers s) k")
  case False
  then have "s' = s" "es = []" "acks s k = None"
    using assms(2) by (auto simp: consumer_detach_def acks_def jm_has_iff_get)
  then show ?thesis using assms(1) by (simp add: fun_upd_idem)
next
  case True
  define s1 where "s1 = s\<lparr>ps_consumers := jm_delete (ps_consumers s) k\<rparr>"
  have f: "recomputeFloor s1 = (s', es)" using assms(2) True by (simp add: consumer_detach_def s1_def)
  have b: "stream_base S s1"
    using assms(1) by (auto simp: stream_inv_def stream_base_def s1_def ps_occupancy_def set_jm_delete)
  have "served_except {} s1"
    using assms(1) consumer_ok_frame [of s1 s]
    by (auto simp: served_except_def stream_inv_def s1_def set_jm_delete dest: consumer_ok_pre)
  then have r: "stream_base S s'" "served_except {} s'" "ps_consumers s' = ps_consumers s1"
    "ps_head s' = ps_head s1" "ps_opts s' = ps_opts s1" "\<forall>e\<in>set es. e = ResumeProducer"
    using served_recomputeFloor [OF b _ f] by auto
  then show ?thesis using served_except_empty [of S s']
    by (auto simp: s1_def acks_def jm_get_delete list_all_iff good_effect_def fun_eq_iff)
qed

lemma push_base:
  assumes "stream_base S s" "chunk \<noteq> []" "ps_occupancy s + length chunk \<le> po_capBytes (ps_opts s)"
  shows "stream_base (S @ chunk) (s\<lparr>ps_chunks := ps_chunks s @ [\<lparr>oc_offset = ps_head s, oc_bytes = chunk\<rparr>],
      ps_head := ps_head s + length chunk, ps_peak := max (ps_occupancy s + length chunk) (ps_peak s),
      ps_paused := (ps_paused s \<or> po_highWater (ps_opts s) \<le> ps_occupancy s + length chunk)\<rparr>)"
proof -
  obtain b where b: "b \<le> ps_floor s" "window S b (ps_chunks s)" "ps_head s = length S" "ps_floor s \<le> ps_head s"
    using assms(1) by (auto simp: stream_base_def)
  have w: "window (S @ chunk) b (ps_chunks s @ [\<lparr>oc_offset = ps_head s, oc_bytes = chunk\<rparr>])"
    using window_push [OF b(2) assms(2)] b(3) by simp
  have "ps_head s + length chunk - ps_floor s = ps_occupancy s + length chunk"
    using b(4) by (simp add: ps_occupancy_def)
  with w show ?thesis using assms b(1)
    unfolding stream_base_def by (cases "ps_paused s") (auto simp: ps_occupancy_def)
qed

lemma stream_push_inv:
  assumes "stream_inv S s" "stream_push s chunk = Inr (s', es)"
  shows "stream_inv (S @ (if ps_exited s then [] else chunk)) s'
    \<and> list_all (good_effect (S @ (if ps_exited s then [] else chunk)) s') es
    \<and> ps_opts s' = ps_opts s \<and> acks s' = acks s \<and> ps_exited s' = ps_exited s"
proof (cases "ps_exited s \<or> chunk = []")
  case True
  then show ?thesis using assms by (auto simp: stream_push_def)
next
  case False
  define nx where "nx = ps_occupancy s + length chunk"
  define s2 where "s2 = s\<lparr>ps_chunks := ps_chunks s @ [\<lparr>oc_offset = ps_head s, oc_bytes = chunk\<rparr>],
      ps_head := ps_head s + length chunk, ps_peak := max nx (ps_peak s),
      ps_paused := (ps_paused s \<or> po_highWater (ps_opts s) \<le> nx)\<rparr>"
  define e2 where "e2 = (if \<not> ps_paused s \<and> po_highWater (ps_opts s) \<le> nx then [PauseProducer] else [])"
  obtain s3 e3 where d: "deliverAll s2 (jm_keys (ps_consumers s2)) = (s3, e3)"
    by (cases "deliverAll s2 (jm_keys (ps_consumers s2))")
  have cap: "nx \<le> po_capBytes (ps_opts s)"
    using assms(2) False by (auto simp: stream_push_def nx_def Let_def split: if_splits)
  have "stream_push s chunk = Inr (s3, e2 @ e3)"
  proof (cases "\<not> ps_paused s \<and> po_highWater (ps_opts s) \<le> nx")
    case True
    then show ?thesis using False cap d
      by (simp add: stream_push_def nx_def [symmetric] Let_def s2_def e2_def)
  next
    case F: False
    then have "s2 = s\<lparr>ps_chunks := ps_chunks s @ [\<lparr>oc_offset = ps_head s, oc_bytes = chunk\<rparr>],
      ps_head := ps_head s + length chunk, ps_peak := max nx (ps_peak s)\<rparr>"
      by (cases "ps_paused s") (auto simp: s2_def)
    then show ?thesis using False cap d F
      by (auto simp: stream_push_def nx_def [symmetric] Let_def e2_def)
  qed
  then have res: "s' = s3" "es = e2 @ e3" using assms(2) by simp_all
  have b: "stream_base (S @ chunk) s2"
    using push_base [of S s chunk] assms(1) False cap by (simp add: s2_def nx_def stream_inv_def)
  have sv: "served_except (set (jm_keys (ps_consumers s2))) s2"
    using assms(1)
    by (force simp: served_except_def stream_inv_def s2_def jm_keys_def consumer_pre_def consumer_ok_def)
  have r: "stream_base (S @ chunk) s3" "served_except {} s3" "only_cursors s2 s3"
    "list_all (good_effect (S @ chunk) s3) e3"
    using deliverAll_served [OF b sv _ d] by (simp_all add: jm_keys_def)
  have "list_all (good_effect (S @ chunk) s3) e2" by (simp add: e2_def good_effect_def)
  moreover have "acks s3 = acks s2" using r(3) unfolding only_cursors_def by blast
  moreover have "acks s2 = acks s" by (simp add: acks_def s2_def fun_eq_iff)
  ultimately show ?thesis
    using res r False served_except_empty [of "S @ chunk" s3] only_cursors_frame(1,6) [OF r(3)]
    by (simp add: s2_def)
qed

section \<open>Delivery is contiguous\<close>

definition cursor :: "pty_stream \<Rightarrow> nat \<Rightarrow> nat option" where
  "cursor s k = map_option c_deliveredTo (jm_get (ps_consumers s) k)"

fun frames_of :: "nat \<Rightarrow> effect list \<Rightarrow> (nat \<times> byte list) list" where
  "frames_of k [] = []"
| "frames_of k (DeliverTo j off bs # es) = (if j = k then (off, bs) # frames_of k es else frames_of k es)"
| "frames_of k (_ # es) = frames_of k es"

fun contig :: "nat \<Rightarrow> (nat \<times> byte list) list \<Rightarrow> nat \<Rightarrow> bool" where
  "contig a [] b = (a = b)"
| "contig a ((off, bs) # fs) b = (off = a \<and> contig (a + length bs) fs b)"

definition delivers :: "pty_stream \<Rightarrow> effect list \<Rightarrow> pty_stream \<Rightarrow> bool" where
  "delivers s es s' \<longleftrightarrow> (\<forall>k d. cursor s k = Some d \<longrightarrow>
     (\<exists>d'. cursor s' k = Some d' \<and> contig d (frames_of k es) d'))"

lemma frames_of_append [simp]: "frames_of k (es @ es') = frames_of k es @ frames_of k es'"
  by (induction k es rule: frames_of.induct) auto

lemma frames_of_map [simp]:
  "frames_of k (map (\<lambda>(off, bs). DeliverTo j off bs) ds) = (if j = k then ds else [])"
  by (induction ds) auto

lemma frames_of_resume: "\<forall>e\<in>set es. e = ResumeProducer \<Longrightarrow> frames_of k es = []"
  by (induction k es rule: frames_of.induct) auto

lemma set_frames_of: "(off, bs) \<in> set (frames_of k es) \<longleftrightarrow> DeliverTo k off bs \<in> set es"
  by (induction k es rule: frames_of.induct) auto

lemma contig_append: "contig a (fs @ gs) c \<longleftrightarrow> (\<exists>b. contig a fs b \<and> contig b gs c)"
  by (induction a fs c rule: contig.induct) auto

lemma contig_slices:
  "contig a fs b \<Longrightarrow> a \<le> length S \<Longrightarrow> \<forall>(off, bs)\<in>set fs. slice_at S off bs \<Longrightarrow>
   a \<le> b \<and> concat (map snd fs) = take (b - a) (drop a S)"
proof (induction a fs b rule: contig.induct)
  case (2 a off bs fs b)
  then have s: "slice_at S a bs" and IH: "a + length bs \<le> b"
    "concat (map snd fs) = take (b - (a + length bs)) (drop (a + length bs) S)"
    by (auto simp: slice_at_def)
  have "take (b - a) (drop a S) = take (length bs + (b - (a + length bs))) (drop a S)"
    using IH(1) by simp
  also have "\<dots> = take (length bs) (drop a S) @ take (b - (a + length bs)) (drop (a + length bs) S)"
    by (simp only: take_add drop_drop add.commute)
  also have "take (length bs) (drop a S) = bs" using s by (simp add: slice_at_def)
  finally show ?case using IH by simp
qed simp

lemma delivers_trans: "delivers s e1 s1 \<Longrightarrow> delivers s1 e2 s2 \<Longrightarrow> delivers s (e1 @ e2) s2"
  unfolding delivers_def frames_of_append contig_append by blast

lemma delivers_quiet: "ps_consumers s' = ps_consumers s \<Longrightarrow> \<forall>e\<in>set es. e = ResumeProducer \<Longrightarrow> delivers s es s'"
  by (simp add: delivers_def cursor_def frames_of_resume)

lemma deliver_more_contig: "deliver_more m cs d l = (fin, ds) \<Longrightarrow> contig d ds fin"
proof (induction m cs d l arbitrary: fin ds rule: deliver_more.induct)
  case (1 m cs d l)
  show ?case
  proof (cases "d < l \<and> sliceAt m cs d l \<noteq> None")
    case False
    then have "deliver_more m cs d l = (d, [])" by (auto simp: deliver_more.simps [of m cs d l])
    then show ?thesis using 1(2) by simp
  next
    case True
    then obtain sl where sl: "sliceAt m cs d l = Some sl" by blast
    obtain fin' ds' where rec: "deliver_more m cs (d + length sl) l = (fin', ds')"
      by (cases "deliver_more m cs (d + length sl) l")
    then show ?thesis using 1(2) True sl 1(1) [OF _ sl rec]
      by (auto simp: deliver_more.simps [of m cs d l])
  qed
qed

lemma deliverMore_delivers:
  assumes "deliverMore s k = (s', es)"
  shows "delivers s es s'"
proof (cases "jm_get (ps_consumers s) k")
  case None
  then show ?thesis using assms by (simp add: deliverMore_def delivers_def)
next
  case (Some c)
  define l where "l = min (ps_head s) (c_acked c + po_deliveryWindowBytes (ps_opts s))"
  obtain fin ds where dm: "deliver_more (po_maxFramePayloadBytes (ps_opts s)) (ps_chunks s) (c_deliveredTo c) l
      = (fin, ds)"
    by (cases "deliver_more (po_maxFramePayloadBytes (ps_opts s)) (ps_chunks s) (c_deliveredTo c) l")
  have "s' = s\<lparr>ps_consumers := jm_set (ps_consumers s) k (c\<lparr>c_deliveredTo := fin\<rparr>)\<rparr>"
    "es = map (\<lambda>(off, bs). DeliverTo k off bs) ds"
    using assms Some dm by (simp_all add: deliverMore_def l_def [symmetric])
  then show ?thesis using Some deliver_more_contig [OF dm]
    by (auto simp: delivers_def cursor_def jm_get_set)
qed

lemma deliverAll_delivers: "deliverAll s ks = (s', es) \<Longrightarrow> delivers s es s'"
proof (induction ks arbitrary: s es)
  case Nil
  then show ?case by (simp add: delivers_quiet)
next
  case (Cons k ks)
  obtain s1 e1 where d1: "deliverMore s k = (s1, e1)" by (cases "deliverMore s k")
  obtain s2 e2 where d2: "deliverAll s1 ks = (s2, e2)" by (cases "deliverAll s1 ks")
  have "s2 = s'" "es = e1 @ e2" using Cons.prems d1 d2 by simp_all
  then show ?case using delivers_trans [OF deliverMore_delivers [OF d1]] Cons.IH [OF d2 [unfolded \<open>s2 = s'\<close>]]
    by simp
qed

lemma recomputeFloor_consumers:
  "recomputeFloor s = (s', es) \<Longrightarrow> ps_consumers s' = ps_consumers s \<and> (\<forall>e\<in>set es. e = ResumeProducer)"
  by (auto simp: recomputeFloor_def Let_def split: if_splits)

lemma recomputeFloor_delivers: "recomputeFloor s = (s', es) \<Longrightarrow> delivers s es s'"
  by (blast intro: delivers_quiet dest: recomputeFloor_consumers)

text \<open>One call: every consumer that the call neither detaches nor rewinds receives frames that
  continue exactly at its cursor.\<close>

definition disturbs :: "nat \<Rightarrow> stream_op \<Rightarrow> bool" where
  "disturbs k op = (case op of SReplay j _ \<Rightarrow> j = k | SDetach j \<Rightarrow> j = k | _ \<Rightarrow> False)"

lemma delivers_at:
  "delivers s1 es s' \<Longrightarrow> cursor s1 k = Some d \<Longrightarrow> \<exists>d'. cursor s' k = Some d' \<and> contig d (frames_of k es) d'"
  by (simp add: delivers_def)

lemma stream_attach_delivers:
  assumes "stream_attach s w = Inr (s', es, k)"
  shows "delivers (s\<lparr>ps_consumers := jm_set (ps_consumers s) k \<lparr>c_deliveredTo = w, c_acked = w\<rparr>,
    ps_nextHandle := Suc k\<rparr>) es s' \<and> k = ps_nextHandle s"
proof -
  let ?k = "ps_nextHandle s"
  define s1 where "s1 = s\<lparr>ps_consumers := jm_set (ps_consumers s) ?k \<lparr>c_deliveredTo = w, c_acked = w\<rparr>,
    ps_nextHandle := Suc ?k\<rparr>"
  obtain s2 e2 where f: "recomputeFloor s1 = (s2, e2)" by (cases "recomputeFloor s1")
  obtain s3 e3 where d: "deliverMore s2 ?k = (s3, e3)" by (cases "deliverMore s2 ?k")
  have "s' = s3" "es = e2 @ e3" "k = ?k"
    using assms f d by (auto simp: stream_attach_def Let_def s1_def [symmetric] split: if_splits)
  then show ?thesis
    using delivers_trans [OF recomputeFloor_delivers [OF f] deliverMore_delivers [OF d]] s1_def by simp
qed

lemma consumer_ack_delivers:
  assumes "consumer_ack s j w = Inr (s', es)"
  shows "delivers s es s'"
proof -
  obtain c where c: "jm_get (ps_consumers s) j = Some c"
    using assms by (auto simp: consumer_ack_def split: option.splits)
  define s1 where "s1 = s\<lparr>ps_consumers := jm_set (ps_consumers s) j (c\<lparr>c_acked := w\<rparr>)\<rparr>"
  obtain s2 e2 where f: "recomputeFloor s1 = (s2, e2)" by (cases "recomputeFloor s1")
  obtain s3 e3 where d: "deliverMore s2 j = (s3, e3)" by (cases "deliverMore s2 j")
  have cur: "cursor s1 = cursor s" using c by (auto simp: cursor_def s1_def jm_get_set fun_eq_iff)
  have "(s' = s \<and> es = []) \<or> (s' = s3 \<and> es = e2 @ e3)"
    using assms c f d by (auto simp: consumer_ack_def Let_def s1_def [symmetric] split: if_splits)
  then show ?thesis
    using delivers_trans [OF recomputeFloor_delivers [OF f] deliverMore_delivers [OF d]] cur
    by (auto simp: delivers_def)
qed

lemma consumer_replayFrom_other:
  assumes "consumer_replayFrom s j w = Inr (s', es)" "j \<noteq> k" "cursor s k = Some d"
  shows "\<exists>d'. cursor s' k = Some d' \<and> contig d (frames_of k es) d'"
proof -
  obtain c where c: "jm_get (ps_consumers s) j = Some c"
    using assms by (auto simp: consumer_replayFrom_def split: option.splits)
  define s1 where "s1 = s\<lparr>ps_consumers := jm_set (ps_consumers s) j (c\<lparr>c_deliveredTo := w\<rparr>)\<rparr>"
  have "deliverMore s1 j = (s', es)"
    using assms(1) c by (simp add: consumer_replayFrom_def s1_def split: if_splits)
  moreover have "cursor s1 k = Some d" using assms(2,3) by (simp add: cursor_def s1_def jm_get_set)
  ultimately show ?thesis using deliverMore_delivers delivers_at by blast
qed

lemma consumer_detach_other:
  assumes "consumer_detach s j = (s', es)" "j \<noteq> k" "cursor s k = Some d"
  shows "\<exists>d'. cursor s' k = Some d' \<and> contig d (frames_of k es) d'"
proof (cases "jm_has (ps_consumers s) j")
  case False
  then show ?thesis using assms by (simp add: consumer_detach_def)
next
  case True
  have "cursor (s\<lparr>ps_consumers := jm_delete (ps_consumers s) j\<rparr>) k = Some d"
    using assms(2,3) by (simp add: cursor_def jm_get_delete)
  then show ?thesis
    using True assms(1) recomputeFloor_delivers delivers_at unfolding consumer_detach_def
    by (metis (no_types, lifting))
qed

lemma stream_push_delivers:
  assumes "stream_push s bs = Inr (s', es)"
  shows "delivers s es s'"
proof (cases "ps_exited s \<or> bs = []")
  case True
  then show ?thesis using assms by (auto simp: stream_push_def delivers_quiet)
next
  case False
  let ?nx = "ps_occupancy s + length bs"
  define s1 where "s1 = s\<lparr>ps_chunks := ps_chunks s @ [\<lparr>oc_offset = ps_head s, oc_bytes = bs\<rparr>],
      ps_head := ps_head s + length bs, ps_peak := max ?nx (ps_peak s)\<rparr>"
  obtain s2 e2 where p: "(if \<not> ps_paused s1 \<and> ?nx \<ge> po_highWater (ps_opts s1)
      then (s1\<lparr>ps_paused := True\<rparr>, [PauseProducer]) else (s1, [])) = (s2, e2)"
    by (cases "(if \<not> ps_paused s1 \<and> ?nx \<ge> po_highWater (ps_opts s1)
      then (s1\<lparr>ps_paused := True\<rparr>, [PauseProducer]) else (s1, []))")
  obtain s3 e3 where d: "deliverAll s2 (jm_keys (ps_consumers s2)) = (s3, e3)"
    by (cases "deliverAll s2 (jm_keys (ps_consumers s2))")
  have r: "s' = s3" "es = e2 @ e3"
    using assms False p d unfolding stream_push_def s1_def [symmetric]
    by (auto simp: Let_def s1_def [symmetric] split: if_splits)
  have c: "ps_consumers s2 = ps_consumers s" "frames_of k e2 = []" for k
    using p by (auto simp: s1_def split: if_splits)
  then have "delivers s e2 s2" by (simp add: delivers_def cursor_def)
  then show ?thesis using delivers_trans deliverAll_delivers [OF d] r by blast
qed

lemma stream_call_contig:
  assumes "stream_inv S s" "stream_call s op = Inr (s', es)" "\<not> disturbs k op" "cursor s k = Some d"
  shows "\<exists>d'. cursor s' k = Some d' \<and> contig d (frames_of k es) d'"
proof (cases op)
  case (SPush bs)
  then show ?thesis using assms(2,4) stream_push_delivers delivers_at by (fastforce simp: stream_call_def)
next
  case SExit
  then show ?thesis using assms(2,4) by (auto simp: stream_call_def stream_markExited_def cursor_def)
next
  case (SAttach w)
  then obtain j where a: "stream_attach s w = Inr (s', es, j)"
    using assms(2) by (auto simp: stream_call_def split: sum.splits)
  note dl = stream_attach_delivers [OF a]
  have "k < ps_nextHandle s"
    using assms(1,4) by (auto simp: stream_inv_def stream_base_def cursor_def dest!: jm_get_in_set)
  then show ?thesis using dl delivers_at assms(4) by (simp add: cursor_def jm_get_set delivers_def)
next
  case (SAck j w)
  then show ?thesis using assms(2,4) consumer_ack_delivers delivers_at by (fastforce simp: stream_call_def)
next
  case (SReplay j w)
  then show ?thesis using assms(2-4) consumer_replayFrom_other by (simp add: stream_call_def disturbs_def)
next
  case (SDetach j)
  then show ?thesis using assms(2-4) consumer_detach_other [of s j s' es k d] by (simp add: stream_call_def disturbs_def)
qed

section \<open>Runs\<close>

definition op_bytes :: "pty_stream \<Rightarrow> stream_op \<Rightarrow> byte list" where
  "op_bytes s op = (case op of SPush bs \<Rightarrow> if ps_exited s then [] else bs | _ \<Rightarrow> [])"

lemma new_stream_inv: "new_stream opts = Inr s \<Longrightarrow> stream_inv [] s \<and> ps_opts s = opts
    \<and> po_maxFramePayloadBytes opts \<le> PTY_FRAME_MAX_PAYLOAD_BYTES"
  by (auto simp: new_stream_def stream_inv_def stream_base_def ps_occupancy_def split: if_splits)

lemma stream_call_inv:
  assumes "stream_inv S s" "stream_call s op = Inr (s', es)"
  shows "stream_inv (S @ op_bytes s op) s' \<and> list_all (good_effect (S @ op_bytes s op) s') es
    \<and> ps_opts s' = ps_opts s"
proof (cases op)
  case (SPush bs)
  then show ?thesis using assms(2) stream_push_inv [OF assms(1), of bs s' es]
    by (simp add: stream_call_def op_bytes_def split: if_splits)
next
  case SExit
  then have "s' = s\<lparr>ps_exited := True\<rparr>" "es = []" using assms(2) by (auto simp: stream_call_def stream_markExited_def)
  then show ?thesis using assms(1) SExit
    by (auto simp: op_bytes_def stream_inv_def stream_base_def consumer_ok_def ps_occupancy_def)
next
  case (SAttach w)
  then obtain k where "stream_attach s w = Inr (s', es, k)"
    using assms(2) by (auto simp: stream_call_def split: sum.splits)
  then show ?thesis using stream_attach_inv [OF assms(1)] SAttach by (simp add: op_bytes_def)
next
  case (SAck k w)
  then show ?thesis using assms consumer_ack_inv by (simp add: stream_call_def op_bytes_def)
next
  case (SReplay k w)
  then show ?thesis using assms consumer_replayFrom_inv by (simp add: stream_call_def op_bytes_def)
next
  case (SDetach k)
  then show ?thesis using assms consumer_detach_inv by (simp add: stream_call_def op_bytes_def)
qed

definition true_frame :: "byte list \<Rightarrow> nat \<Rightarrow> effect \<Rightarrow> bool" where
  "true_frame S m e = (case e of
     DeliverTo k off bs \<Rightarrow> slice_at S off bs \<and> bs \<noteq> [] \<and> length bs \<le> m | _ \<Rightarrow> True)"

lemma good_true_frame: "good_effect S s e \<Longrightarrow> true_frame (S @ T) (po_maxFramePayloadBytes (ps_opts s)) e"
  by (cases e) (auto simp: good_effect_def true_frame_def slice_at_append)

lemma stream_run_inv:
  assumes "stream_inv S s" "stream_run s ops = (s', es)"
  shows "stream_inv (S @ accepted s ops) s' \<and> ps_opts s' = ps_opts s
    \<and> list_all (true_frame (S @ accepted s ops) (po_maxFramePayloadBytes (ps_opts s))) es"
  using assms
proof (induction ops arbitrary: S s es)
  case Nil
  then show ?case by simp
next
  case (Cons op ops)
  show ?case
  proof (cases "stream_call s op")
    case (Inl e)
    then show ?thesis using Cons by simp
  next
    case (Inr p)
    obtain s1 e1 where p: "p = (s1, e1)" by (cases p)
    obtain s2 e2 where r: "stream_run s1 ops = (s2, e2)" by (cases "stream_run s1 ops")
    have res: "s2 = s'" "es = e1 @ e2" using Cons.prems(2) Inr p r by simp_all
    have acc: "accepted s (op # ops) = op_bytes s op @ accepted s1 ops"
      using Inr p by (simp add: op_bytes_def split: stream_op.splits)
    have one: "stream_inv (S @ op_bytes s op) s1" "list_all (good_effect (S @ op_bytes s op) s1) e1"
      "ps_opts s1 = ps_opts s"
      using stream_call_inv [OF Cons.prems(1)] Inr p by auto
    have "list_all (true_frame (S @ accepted s (op # ops)) (po_maxFramePayloadBytes (ps_opts s))) e1"
      using one(2) good_true_frame [of "S @ op_bytes s op" s1 _ "accepted s1 ops"] one(3)
      by (simp add: acc list_all_iff del: accepted.simps)
    then show ?thesis using Cons.IH [OF one(1) r [unfolded res(1)]] one(3) res acc
      by (simp del: accepted.simps)
  qed
qed

lemma stream_run_contig:
  assumes "stream_inv S s" "stream_run s ops = (s', es)" "list_all (\<lambda>op. \<not> disturbs k op) ops"
    and "cursor s k = Some d"
  shows "\<exists>d'. cursor s' k = Some d' \<and> contig d (frames_of k es) d'"
  using assms
proof (induction ops arbitrary: S s es d)
  case Nil
  then show ?case by simp
next
  case (Cons op ops)
  show ?case
  proof (cases "stream_call s op")
    case (Inl e)
    then show ?thesis using Cons by simp
  next
    case (Inr p)
    obtain s1 e1 where p: "p = (s1, e1)" by (cases p)
    obtain s2 e2 where r: "stream_run s1 ops = (s2, e2)" by (cases "stream_run s1 ops")
    have res: "s2 = s'" "es = e1 @ e2" using Cons.prems(2) Inr p r by simp_all
    note i1 = stream_call_inv [OF Cons.prems(1) Inr [unfolded p], THEN conjunct1]
    obtain d1 where d1: "cursor s1 k = Some d1" "contig d (frames_of k e1) d1"
      using stream_call_contig [OF Cons.prems(1) Inr [unfolded p] _ Cons.prems(4)] Cons.prems(3) by auto
    show ?thesis
      using Cons.IH [OF i1 r [unfolded res(1)] _ d1(1)] Cons.prems(3) d1(2) res(2)
      by (auto simp: contig_append)
  qed
qed

section \<open>Properties\<close>

text \<open>Claim C2: exactly-once, in-order, gapless delivery with progress. In any history of pushes,
  attaches, acknowledgements, replays and detaches by any number of consumers, take the consumer
  that attached at watermark \<open>w\<close> and neither rewound nor detached since. The bytes delivered to it,
  concatenated, are the producer's stream from \<open>w\<close> up to its cursor, and the cursor has reached
  the end of the stream or the edge of the consumer's delivery window: nothing deliverable is held
  back, no matter how slow the other consumers are.\<close>

theorem stream_delivery_exact:
  assumes "new_stream opts = Inr s0" "stream_run s0 ops1 = (s1, es1)"
    and "stream_attach s1 w = Inr (s2, e2, k)" "stream_run s2 ops2 = (s3, e3)"
    and "list_all (\<lambda>op. \<not> disturbs k op) ops2"
  defines "S \<equiv> accepted s0 ops1 @ accepted s2 ops2"
  shows "\<exists>c. jm_get (ps_consumers s3) k = Some c \<and> w \<le> c_deliveredTo c
    \<and> concat (map snd (frames_of k (e2 @ e3))) = take (c_deliveredTo c - w) (drop w S)
    \<and> c_acked c \<le> c_deliveredTo c \<and> c_deliveredTo c \<le> length S
    \<and> min (length S) (c_acked c + po_deliveryWindowBytes opts) \<le> c_deliveredTo c"
proof -
  note n = new_stream_inv [OF assms(1)]
  have i1: "stream_inv (accepted s0 ops1) s1" "ps_opts s1 = opts"
    using stream_run_inv [OF n [THEN conjunct1] assms(2)] n by simp_all
  have i2: "stream_inv (accepted s0 ops1) s2" "ps_opts s2 = opts"
      "list_all (good_effect (accepted s0 ops1) s2) e2"
    using stream_attach_inv [OF i1(1) assms(3)] i1(2) by simp_all
  have i3: "stream_inv S s3" "ps_opts s3 = opts" "list_all (true_frame S (po_maxFramePayloadBytes opts)) e3"
    using stream_run_inv [OF i2(1) assms(4)] i2(2) by (simp_all add: S_def)
  have w: "w \<le> length S" using assms(3) i1(1)
    by (auto simp: stream_attach_def checkWatermarkBounds_def S_def stream_inv_def stream_base_def split: if_splits)
  obtain d1 where d1: "cursor s2 k = Some d1" "contig w (frames_of k e2) d1"
    using delivers_at [OF stream_attach_delivers [OF assms(3), THEN conjunct1], of k w]
    by (auto simp: cursor_def jm_get_set)
  obtain d2 where d2: "cursor s3 k = Some d2" "contig d1 (frames_of k e3) d2"
    using stream_run_contig [OF i2(1) assms(4,5) d1(1)] by blast
  have cg: "contig w (frames_of k (e2 @ e3)) d2" using d1 d2 by (auto simp: contig_append)
  have "true_frame S (po_maxFramePayloadBytes opts) e" if "e \<in> set e2" for e
    using good_true_frame [of "accepted s0 ops1" s2 e "accepted s2 ops2"] i2 that
    by (auto simp: S_def list_all_iff)
  then have "\<forall>(off, bs)\<in>set (frames_of k (e2 @ e3)). slice_at S off bs"
    using i3(3) by (fastforce simp: set_frames_of list_all_iff true_frame_def)
  note cs = contig_slices [OF cg w this]
  obtain c where c: "jm_get (ps_consumers s3) k = Some c" "c_deliveredTo c = d2"
    using d2(1) by (auto simp: cursor_def)
  have "consumer_ok s3 c" "ps_head s3 = length S"
    using i3(1) jm_get_in_set [OF c(1)] by (auto simp: stream_inv_def stream_base_def)
  then show ?thesis using c cs i3(2) by (auto simp: consumer_ok_def)
qed

abbreviation small_opts :: pty_flow_options where
  "small_opts \<equiv> \<lparr>po_capBytes = 8, po_highWater = 4, po_lowWater = 1, po_deliveryWindowBytes = 3,
     po_maxFramePayloadBytes = 2\<rparr>"

abbreviation small_stream :: pty_stream where
  "small_stream \<equiv> \<lparr>ps_opts = small_opts, ps_chunks = [], ps_head = 0, ps_floor = 0, ps_peak = 0,
     ps_paused = False, ps_exited = False, ps_consumers = [], ps_nextHandle = 0\<rparr>"

lemma new_small_stream: "new_stream small_opts = Inr small_stream"
  by (simp add: new_stream_def max_safe_nat_def PTY_FRAME_MAX_PAYLOAD_BYTES_def)

lemmas stream_eval = stream_call_def stream_push_def stream_attach_def consumer_ack_def
  consumer_replayFrom_def consumer_detach_def stream_markExited_def recomputeFloor_def deliverMore_def
  deliver_more.simps checkWatermarkBounds_def ps_occupancy_def jm_get_def jm_has_def jm_delete_def
  jm_keys_def jm_values_def oc_end_def drop_released_def max_safe_nat_def Let_def

theorem stream_delivery_exact_witness:
  "\<exists>s1 s2 e2 s3 e3.
     stream_run small_stream [SPush [1, 2, 3]] = (s1, []) \<and> stream_attach s1 1 = Inr (s2, e2, 0)
     \<and> stream_run s2 [SPush [4, 5], SAck 0 3] = (s3, e3)
     \<and> concat (map snd (frames_of 0 (e2 @ e3))) = [2, 3, 4, 5]"
proof -
  let ?s1 = "\<lparr>ps_opts = small_opts, ps_chunks = [\<lparr>oc_offset = 0, oc_bytes = [1, 2, 3]\<rparr>], ps_head = 3,
    ps_floor = 0, ps_peak = 3, ps_paused = False, ps_exited = False, ps_consumers = [], ps_nextHandle = 0\<rparr>"
  let ?s2 = "\<lparr>ps_opts = small_opts, ps_chunks = [\<lparr>oc_offset = 0, oc_bytes = [1, 2, 3]\<rparr>], ps_head = 3,
    ps_floor = 1, ps_peak = 3, ps_paused = False, ps_exited = False,
    ps_consumers = [(0, \<lparr>c_deliveredTo = 3, c_acked = 1\<rparr>)], ps_nextHandle = 1\<rparr>"
  let ?s3 = "\<lparr>ps_opts = small_opts, ps_chunks = [\<lparr>oc_offset = 3, oc_bytes = [4, 5]\<rparr>], ps_head = 5,
    ps_floor = 3, ps_peak = 4, ps_paused = True, ps_exited = False,
    ps_consumers = [(0, \<lparr>c_deliveredTo = 5, c_acked = 3\<rparr>)], ps_nextHandle = 1\<rparr>"
  have r1: "stream_run small_stream [SPush [1, 2, 3]] = (?s1, [])"
    by (simp add: stream_eval)
  have a: "stream_attach ?s1 1 = Inr (?s2, [DeliverTo 0 1 [2, 3]], 0)"
    by (simp add: stream_eval)
  have r2: "stream_run ?s2 [SPush [4, 5], SAck 0 3]
      = (?s3, [PauseProducer, DeliverTo 0 3 [4], DeliverTo 0 4 [5]])"
    by (simp add: stream_eval)
  have "\<exists>c. jm_get (ps_consumers ?s3) 0 = Some c \<and>
      concat (map snd (frames_of 0 ([DeliverTo 0 1 [2, 3]] @ [PauseProducer, DeliverTo 0 3 [4], DeliverTo 0 4 [5]])))
       = take (c_deliveredTo c - 1) (drop 1 (accepted small_stream [SPush [1, 2, 3]] @ accepted ?s2 [SPush [4, 5], SAck 0 3]))"
    using stream_delivery_exact [OF new_small_stream r1 a r2] by (auto simp: disturbs_def)
  then have "concat (map snd (frames_of 0 ([DeliverTo 0 1 [2, 3]] @ [PauseProducer, DeliverTo 0 3 [4], DeliverTo 0 4 [5]]))) = [2, 3, 4, 5]"
    by (simp add: stream_eval)
  with r1 a r2 show ?thesis by blast
qed

text \<open>Claim C35: memory and sockets stay bounded. After any history the retained bytes and their
  peak are at most the cap and the pause flag follows the water marks with hysteresis; and a
  further call hands each consumer only non-empty frames within the wire frame cap that end within
  its acknowledgement plus the delivery window.\<close>

theorem stream_bounded:
  assumes "new_stream opts = Inr s0" "stream_run s0 ops = (s, es)"
  shows "ps_occupancy s \<le> ps_peak s \<and> ps_peak s \<le> po_capBytes opts
    \<and> (ps_paused s \<longrightarrow> po_lowWater opts < ps_occupancy s)
    \<and> (\<not> ps_paused s \<longrightarrow> ps_occupancy s < po_highWater opts)
    \<and> (\<forall>op s' es' k off bs. stream_call s op = Inr (s', es') \<longrightarrow> DeliverTo k off bs \<in> set es' \<longrightarrow>
         bs \<noteq> [] \<and> length bs \<le> PTY_FRAME_MAX_PAYLOAD_BYTES
         \<and> (\<exists>c. jm_get (ps_consumers s') k = Some c
              \<and> off + length bs \<le> c_acked c + po_deliveryWindowBytes opts))"
proof -
  note n = new_stream_inv [OF assms(1)]
  have i: "stream_inv (accepted s0 ops) s" "ps_opts s = opts"
    using stream_run_inv [OF n [THEN conjunct1] assms(2)] n by simp_all
  have "bs \<noteq> [] \<and> length bs \<le> PTY_FRAME_MAX_PAYLOAD_BYTES
         \<and> (\<exists>c. jm_get (ps_consumers s') k = Some c
              \<and> off + length bs \<le> c_acked c + po_deliveryWindowBytes opts)"
    if "stream_call s op = Inr (s', es')" "DeliverTo k off bs \<in> set es'" for op s' es' k off bs
  proof -
    have "good_effect (accepted s0 ops @ op_bytes s op) s' (DeliverTo k off bs)" "ps_opts s' = opts"
      using stream_call_inv [OF i(1) that(1)] that(2) i(2) by (auto simp: list_all_iff)
    then show ?thesis using n by (auto simp: good_effect_def acks_def split: option.splits)
  qed
  then show ?thesis using i by (auto simp: stream_inv_def stream_base_def split: if_splits)
qed

theorem stream_bounded_witness:
  "\<not> ps_paused (fst (stream_run small_stream [SPush [1, 2, 3, 4, 5], SAttach 0, SAck 0 3, SAck 0 5]))
   \<and> ps_occupancy (fst (stream_run small_stream [SPush [1, 2, 3, 4, 5], SAttach 0, SAck 0 3, SAck 0 5])) < 4"
proof -
  let ?ops = "[SPush [1, 2, 3, 4, 5], SAttach 0, SAck 0 3, SAck 0 5]"
  have p: "\<not> ps_paused (fst (stream_run small_stream ?ops))" by (simp add: stream_eval)
  then show ?thesis
    using stream_bounded [OF new_small_stream, of ?ops "fst (stream_run small_stream ?ops)"
        "snd (stream_run small_stream ?ops)"]
    by (simp del: stream_run.simps)
qed



end
