(* ===== verification/Stream_Tracker.thy ===== *)
theory Stream_Tracker
  imports Prelude
begin

text \<open>
  \<open>OutputStreamTracker\<close> of \<open>app/src/islands/terminal/streamTracker.ts\<close>: the client side of the
  offset axis. Chunks arrive in any order, duplicated or with gaps (a reconnect replays from a
  watermark); the tracker decides what to hand to the terminal, what to drop and when to ask for
  a replay, and which watermark to acknowledge.

  \<open>tracker_writes_prefix\<close> is the client half of the no-loss argument: as long as every delivered
  chunk is a true slice of the session's stream, what the terminal is given is exactly a prefix
  of that stream, and the acknowledged watermark never passes it. The producer half (that the
  gateway delivers true slices only) is in the theory of the gateway stream.
\<close>

record tracker =
  t_expected :: nat
  t_consumed :: nat
  t_acked :: nat
  t_replayRequestedAt :: "nat option"

datatype outcome = Write "byte list" | Duplicate | Gap "nat option"

definition new_tracker :: "jsnum \<Rightarrow> tracker option" where
  "new_tracker startOffset = map_option
     (\<lambda>n. \<lparr>t_expected = n, t_consumed = n, t_acked = n, t_replayRequestedAt = None\<rparr>)
     (as_safe_nat startOffset)"

definition tracker_accept :: "tracker \<Rightarrow> jsnum \<Rightarrow> byte list \<Rightarrow> tracker \<times> outcome" where
  "tracker_accept t streamOffset payload =
    (case as_safe_nat streamOffset of
       None \<Rightarrow> (t, Duplicate)
     | Some off \<Rightarrow>
       let end' = off + length payload in
       if off > t_expected t then
         (if t_replayRequestedAt t = Some (t_expected t) then (t, Gap None)
          else (t\<lparr>t_replayRequestedAt := Some (t_expected t)\<rparr>, Gap (Some (t_expected t))))
       else if end' \<le> t_expected t then (t, Duplicate)
       else (t\<lparr>t_expected := end', t_replayRequestedAt := None\<rparr>,
             Write (drop (t_expected t - off) payload)))"

definition tracker_markConsumed :: "tracker \<Rightarrow> jsnum \<Rightarrow> tracker" where
  "tracker_markConsumed t upToOffset =
    (if \<not> is_safe_integer upToOffset then t
     else case as_safe_nat upToOffset of
       None \<Rightarrow> t
     | Some n \<Rightarrow> let clamped = min n (t_expected t) in
         if clamped > t_consumed t then t\<lparr>t_consumed := clamped\<rparr> else t)"

definition tracker_takeAckWatermark :: "tracker \<Rightarrow> tracker \<times> nat option" where
  "tracker_takeAckWatermark t =
    (if t_consumed t \<le> t_acked t then (t, None)
     else (t\<lparr>t_acked := t_consumed t\<rparr>, Some (t_consumed t)))"

datatype tracker_event = Deliver jsnum "byte list" | Consumed jsnum | TakeAck

definition tracker_step :: "tracker \<Rightarrow> tracker_event \<Rightarrow> tracker \<times> byte list \<times> nat list" where
  "tracker_step t ev = (case ev of
     Deliver off bs \<Rightarrow>
       (case tracker_accept t off bs of (t', oc) \<Rightarrow> (t', case oc of Write d \<Rightarrow> d | _ \<Rightarrow> [], []))
   | Consumed n \<Rightarrow> (tracker_markConsumed t n, [], [])
   | TakeAck \<Rightarrow>
       (case tracker_takeAckWatermark t of
          (t', w) \<Rightarrow> (t', [], case w of None \<Rightarrow> [] | Some n \<Rightarrow> [n])))"

text \<open>A run yields the bytes written to the terminal and the watermarks acknowledged, in order.\<close>

fun tracker_run :: "tracker \<Rightarrow> tracker_event list \<Rightarrow> tracker \<times> byte list \<times> nat list" where
  "tracker_run t [] = (t, [], [])"
| "tracker_run t (ev # evs) =
     (let (t1, w1, a1) = tracker_step t ev; (t2, w2, a2) = tracker_run t1 evs
      in (t2, w1 @ w2, a1 @ a2))"

definition genuine :: "byte list \<Rightarrow> tracker_event \<Rightarrow> bool" where
  "genuine S ev = (case ev of
     Deliver off bs \<Rightarrow> (case as_safe_nat off of None \<Rightarrow> True | Some n \<Rightarrow> slice_at S n bs)
   | _ \<Rightarrow> True)"

definition tracker_ok :: "tracker \<Rightarrow> bool" where
  "tracker_ok t \<longleftrightarrow> t_acked t \<le> t_consumed t \<and> t_consumed t \<le> t_expected t"

lemma accept_ok: "tracker_ok t \<Longrightarrow> tracker_accept t off bs = (t', oc) \<Longrightarrow>
    tracker_ok t' \<and> t_expected t \<le> t_expected t' \<and> t_acked t' = t_acked t"
  by (auto simp: tracker_ok_def tracker_accept_def Let_def split: option.splits if_splits)

lemma accept_writes:
  assumes "tracker_accept t off bs = (t', oc)" "genuine S (Deliver off bs)" "t_expected t \<le> length S"
  shows "t_expected t' \<le> length S \<and>
    (case oc of Write d \<Rightarrow> d | _ \<Rightarrow> []) = take (t_expected t' - t_expected t) (drop (t_expected t) S)"
proof (cases "\<exists>n. as_safe_nat off = Some n \<and> n \<le> t_expected t \<and> t_expected t < n + length bs")
  case False
  with assms show ?thesis
    by (auto simp: tracker_accept_def Let_def split: option.splits if_splits)
next
  case True
  then obtain n where n: "as_safe_nat off = Some n" "n \<le> t_expected t" "t_expected t < n + length bs"
    by blast
  let ?k = "t_expected t - n"
  have "slice_at S (n + ?k) (drop ?k bs)"
    using assms(2) n by (intro slice_at_drop) (auto simp: genuine_def)
  then have "slice_at S (t_expected t) (drop ?k bs)" using n by simp
  then show ?thesis using assms(1) n by (auto simp: tracker_accept_def slice_at_def add.commute Let_def)
qed

lemma markConsumed_ok: "tracker_ok t \<Longrightarrow> tracker_ok (tracker_markConsumed t n)
    \<and> t_expected (tracker_markConsumed t n) = t_expected t
    \<and> t_acked (tracker_markConsumed t n) = t_acked t"
  by (auto simp: tracker_ok_def tracker_markConsumed_def Let_def split: option.splits)

lemma takeAck_ok: "tracker_ok t \<Longrightarrow> tracker_takeAckWatermark t = (t', w) \<Longrightarrow>
    tracker_ok t' \<and> t_expected t' = t_expected t \<and> t_acked t \<le> t_acked t'
    \<and> (case w of None \<Rightarrow> t' = t | Some n \<Rightarrow> t_acked t < n \<and> n = t_acked t' \<and> n \<le> t_expected t)"
  by (auto simp: tracker_ok_def tracker_takeAckWatermark_def split: if_splits)

lemma step_ok:
  assumes "tracker_ok t" "genuine S ev" "t_expected t \<le> length S" "tracker_step t ev = (t', w, a)"
  shows "tracker_ok t' \<and> t_expected t \<le> t_expected t' \<and> t_expected t' \<le> length S
    \<and> t_acked t \<le> t_acked t'
    \<and> w = take (t_expected t' - t_expected t) (drop (t_expected t) S)
    \<and> (a = [] \<and> t_acked t' = t_acked t \<or> (\<exists>n. a = [n] \<and> t_acked t < n \<and> t_acked t' = n))"
proof (cases ev)
  case (Deliver off bs)
  then obtain oc where oc: "tracker_accept t off bs = (t', oc)" "w = (case oc of Write d \<Rightarrow> d | _ \<Rightarrow> [])"
    "a = []"
    using assms(4) by (auto simp: tracker_step_def split: prod.splits)
  from accept_ok [OF assms(1) oc(1)] accept_writes [OF oc(1) assms(2) [unfolded Deliver] assms(3)] oc
  show ?thesis by simp
next
  case (Consumed n)
  with assms markConsumed_ok [OF assms(1), of n] show ?thesis
    by (auto simp: tracker_step_def)
next
  case TakeAck
  then obtain wm where tk: "tracker_takeAckWatermark t = (t', wm)"
    and wa: "w = []" "a = (case wm of None \<Rightarrow> [] | Some n \<Rightarrow> [n])"
    using assms(4) by (auto simp: tracker_step_def split: prod.splits)
  from takeAck_ok [OF assms(1) tk] wa assms(3) show ?thesis
    by (auto split: option.splits)
qed

lemma run_ok:
  assumes "tracker_ok t" "list_all (genuine S) evs" "t_expected t \<le> length S"
    and "tracker_run t evs = (t', w, a)"
  shows "tracker_ok t' \<and> t_expected t \<le> t_expected t' \<and> t_expected t' \<le> length S
    \<and> w = take (t_expected t' - t_expected t) (drop (t_expected t) S)
    \<and> sorted_wrt (<) (t_acked t # a) \<and> (\<forall>n\<in>set a. n \<le> t_acked t') \<and> t_acked t \<le> t_acked t'"
  using assms
proof (induction evs arbitrary: t w a)
  case Nil
  then show ?case by simp
next
  case (Cons ev evs)
  obtain t1 w1 a1 where st: "tracker_step t ev = (t1, w1, a1)" by (cases "tracker_step t ev") auto
  obtain w2 a2 where rn: "tracker_run t1 evs = (t', w2, a2)" and wa: "w = w1 @ w2" "a = a1 @ a2"
    using Cons.prems(4) st by (auto split: prod.splits)
  have g: "genuine S ev" "list_all (genuine S) evs" using Cons.prems(2) by auto
  note one = step_ok [OF Cons.prems(1) g(1) Cons.prems(3) st]
  note rest = Cons.IH [OF _ g(2) _ rn]
  have w: "w1 @ w2 = take (t_expected t' - t_expected t) (drop (t_expected t) S)"
  proof -
    have "t_expected t1 - t_expected t \<le> t_expected t' - t_expected t"
      using rest one by (intro diff_le_mono) simp
    then have "take (t_expected t' - t_expected t) (drop (t_expected t) S) =
        take (t_expected t1 - t_expected t) (drop (t_expected t) S)
        @ take (t_expected t' - t_expected t1) (drop (t_expected t1) S)"
      using take_drop_split [of "t_expected t1 - t_expected t" "t_expected t' - t_expected t"
          "drop (t_expected t) S"] one rest by simp
    with one rest show ?thesis by simp
  qed
  have "sorted_wrt (<) (t_acked t # a1 @ a2)"
    using one rest by (auto simp: sorted_wrt_append)
  with one rest w wa show ?case by fastforce
qed

text \<open>The terminal is fed a prefix of the session's output stream. Whatever mix of live
  frames, duplicates, replays, out-of-order chunks and write completions arrives, if every
  delivered chunk is a true slice of the stream then the bytes written are exactly the stream
  from the starting offset to the next expected offset (nothing lost, repeated or reordered), and
  the acknowledged watermarks strictly increase and never pass what was written.\<close>

theorem tracker_writes_prefix:
  assumes "new_tracker start = Some t" "t_expected t \<le> length S"
    and "list_all (genuine S) evs" "tracker_run t evs = (t', written, acks)"
  shows "written = take (t_expected t' - t_expected t) (drop (t_expected t) S)
    \<and> t_expected t' \<le> length S \<and> sorted_wrt (<) acks
    \<and> (\<forall>n\<in>set acks. n \<le> t_expected t + length written)"
proof -
  have t: "tracker_ok t" "t_acked t = t_expected t"
    using assms(1) by (auto simp: new_tracker_def tracker_ok_def)
  note r = run_ok [OF t(1) assms(3,2,4)]
  then have "t_acked t' \<le> t_expected t'" by (auto simp: tracker_ok_def)
  moreover have "length written = t_expected t' - t_expected t" using r by auto
  ultimately show ?thesis using r by fastforce
qed

theorem tracker_writes_prefix_witness:
  "fst (snd (tracker_run \<lparr>t_expected = 0, t_consumed = 0, t_acked = 0, t_replayRequestedAt = None\<rparr>
     [Deliver (num 0) [10, 11], Deliver (num 4) [14], Deliver (num 1) [11, 12, 13, 14],
      Consumed (num 5), TakeAck])) = [10, 11, 12, 13, 14]"
proof -
  let ?t = "\<lparr>t_expected = 0, t_consumed = 0, t_acked = 0, t_replayRequestedAt = None\<rparr>"
  let ?evs = "[Deliver (num 0) [10, 11], Deliver (num 4) [14], Deliver (num 1) [11, 12, 13, 14],
      Consumed (num 5), TakeAck]"
  have nt: "new_tracker (num 0) = Some ?t" by (simp add: new_tracker_def)
  have s5: "is_safe_integer (num 5)"
    by (simp add: is_safe_integer_def num_def is_integer_rat_def max_safe_nat_def)
  have run: "tracker_run ?t ?evs =
      (\<lparr>t_expected = 5, t_consumed = 5, t_acked = 5, t_replayRequestedAt = None\<rparr>,
       [10, 11, 12, 13, 14], [5])"
    by (simp add: tracker_step_def tracker_accept_def tracker_markConsumed_def
        tracker_takeAckWatermark_def max_safe_nat_def Let_def s5)
  have "written = take (5 - 0) (drop 0 [10, 11, 12, 13, 14, 15 :: byte])"
    if "written = fst (snd (tracker_run ?t ?evs))" for written
    using tracker_writes_prefix [OF nt _ _ run, of "[10, 11, 12, 13, 14, 15]"] that run
    by (simp add: genuine_def slice_at_def max_safe_nat_def)
  then show ?thesis by simp
qed

end
