(* ===== verification/Delivery.thy ===== *)
theory Delivery
  imports Ack_Ring Pty_Stream Stream_Tracker
begin

text \<open>
  The path of a session's output from the producer to the terminal: a delivery source (the kernel's
  ack ring or the gateway's session stream), the binary frame codec, and the client's tracker.

  The interface between them is the locale \<open>delivery_source\<close>: every frame a source hands out is a
  non-empty true slice of what it accepted, no longer than a wire frame. The client argument is
  proved once in the locale and holds for both sources by interpretation.
\<close>

section \<open>The wire\<close>

text \<open>The sink of \<open>ptySinkFor\<close> encodes a slice, the client's \<open>routeBrokerFrame\<close> decodes it.\<close>

definition ptySinkFor_deliver :: "string \<Rightarrow> nat \<times> byte list \<Rightarrow> encode_error + byte list" where
  "ptySinkFor_deliver sid fr = encodePtyFrame \<lparr>pf_type = OutputFrame, pf_sessionId = sid,
     pf_streamOffset = num (fst fr), pf_payload = snd fr\<rparr>"

definition routeBrokerFrame_binary :: "byte list \<Rightarrow> tracker_event option" where
  "routeBrokerFrame_binary raw = (case decodePtyFrame raw of
     Inl _ \<Rightarrow> None
   | Inr f \<Rightarrow> Some (Deliver (pf_streamOffset f) (pf_payload f)))"

text \<open>What can reach the tracker when a set of frames was sent: any frame, any number of times, in
  any order, plus write completions and acknowledgement requests.\<close>

definition arrives :: "string \<Rightarrow> (nat \<times> byte list) list \<Rightarrow> tracker_event \<Rightarrow> bool" where
  "arrives sid frames ev = (case ev of
     Deliver _ _ \<Rightarrow> list_ex (\<lambda>fr. case ptySinkFor_deliver sid fr of
        Inl _ \<Rightarrow> False | Inr raw \<Rightarrow> routeBrokerFrame_binary raw = Some ev) frames
   | _ \<Rightarrow> True)"

lemma wire_event:
  assumes "ptySinkFor_deliver sid (off, bs) = Inr raw" "routeBrokerFrame_binary raw = Some ev"
  shows "ev = Deliver (num off) bs"
proof -
  have "decodePtyFrame raw = Inr \<lparr>pf_type = OutputFrame, pf_sessionId = sid,
      pf_streamOffset = num off, pf_payload = bs\<rparr>"
    using assms(1) frame_roundtrip by (auto simp: ptySinkFor_deliver_def)
  then show ?thesis using assms(2) by (simp add: routeBrokerFrame_binary_def)
qed

lemma genuine_num:
  assumes "slice_at S off bs"
  shows "genuine S (Deliver (num off) bs)"
proof (cases "as_safe_nat (num off)")
  case (Some n)
  then have "n = off" using as_safe_nat_SomeD by fastforce
  then show ?thesis using Some assms by (simp add: genuine_def)
qed (simp add: genuine_def)

lemma new_tracker_num:
  assumes "new_tracker (num w) = Some t"
  shows "t = \<lparr>t_expected = w, t_consumed = w, t_acked = w, t_replayRequestedAt = None\<rparr>"
proof -
  obtain n where n: "as_safe_nat (num w) = Some n"
    using assms by (cases "as_safe_nat (num w)") (simp_all add: new_tracker_def)
  then have "n = w" using as_safe_nat_SomeD by fastforce
  then show ?thesis using assms n by (simp add: new_tracker_def)
qed

section \<open>The interface\<close>

locale delivery_source =
  fixes frames :: "'c \<Rightarrow> 'o list \<Rightarrow> (nat \<times> byte list) list"
    and produced :: "'c \<Rightarrow> 'o list \<Rightarrow> byte list"
    and valid :: "'c \<Rightarrow> bool"
  assumes frames_true: "valid c \<Longrightarrow> (off, bs) \<in> set (frames c ops) \<Longrightarrow> slice_at (produced c ops) off bs"
begin

lemma arrivals_genuine:
  assumes "valid c" "list_all (arrives sid (frames c ops)) evs"
  shows "list_all (genuine (produced c ops)) evs"
  unfolding list_all_iff
proof
  fix ev assume "ev \<in> set evs"
  then have a: "arrives sid (frames c ops) ev" using assms(2) by (simp add: list_all_iff)
  show "genuine (produced c ops) ev"
  proof (cases ev)
    case (Deliver o' b')
    then obtain off bs where m: "(off, bs) \<in> set (frames c ops)"
      and e: "case ptySinkFor_deliver sid (off, bs) of
        Inl _ \<Rightarrow> False | Inr raw \<Rightarrow> routeBrokerFrame_binary raw = Some ev"
      using a by (auto simp: arrives_def list_ex_iff)
    obtain raw where fr: "(off, bs) \<in> set (frames c ops)"
      "ptySinkFor_deliver sid (off, bs) = Inr raw" "routeBrokerFrame_binary raw = Some ev"
      using m e by (cases "ptySinkFor_deliver sid (off, bs)") auto
    have "ev = Deliver (num off) bs" using wire_event fr(2,3) by blast
    then show ?thesis using genuine_num [OF frames_true [OF assms(1) fr(1)]] by simp
  qed (simp_all add: genuine_def)
qed

lemma terminal_shows_stream:
  assumes "valid c" "list_all (arrives sid (frames c ops)) evs" "new_tracker (num w) = Some t"
    and "w \<le> length (produced c ops)" "tracker_run t evs = (t', written, sent)"
  shows "written = take (length written) (drop w (produced c ops)) \<and> t_expected t' = w + length written
    \<and> sorted_wrt (<) sent \<and> (\<forall>n\<in>set sent. n \<le> w + length written)"
proof -
  have t: "t_expected t = w" "tracker_ok t" "t_acked t = w"
    using new_tracker_num [OF assms(3)] by (simp_all add: tracker_ok_def)
  note r = run_ok [OF t(2) arrivals_genuine [OF assms(1,2)] _ assms(5), unfolded t(1,3)]
  have r': "tracker_ok t'" "w \<le> t_expected t'" "t_expected t' \<le> length (produced c ops)"
    "written = take (t_expected t' - w) (drop w (produced c ops))"
    "sorted_wrt (<) (w # sent)" "\<forall>n\<in>set sent. n \<le> t_acked t'"
    using r [OF assms(4)] by blast+
  have len: "length written = t_expected t' - w" unfolding r'(4) using r'(2,3) by simp
  have "t_acked t' \<le> t_expected t'" using r'(1) by (simp add: tracker_ok_def)
  then have "\<forall>n\<in>set sent. n \<le> w + length written" unfolding len
    using r'(2,6) by auto
  moreover have "t_expected t' = w + length written" unfolding len using r'(2) by simp
  moreover have "written = take (length written) (drop w (produced c ops))" unfolding len by (rule r'(4))
  ultimately show ?thesis using r'(5) by simp
qed

end

section \<open>Both sources implement it\<close>

definition stream_frames :: "pty_flow_options \<Rightarrow> stream_op list \<Rightarrow> (nat \<times> byte list) list" where
  "stream_frames opts ops = (case new_stream opts of Inl _ \<Rightarrow> []
     | Inr s0 \<Rightarrow> concat (map (\<lambda>e. case e of DeliverTo k off bs \<Rightarrow> [(off, bs)] | _ \<Rightarrow> [])
         (snd (stream_run s0 ops))))"

definition stream_produced :: "pty_flow_options \<Rightarrow> stream_op list \<Rightarrow> byte list" where
  "stream_produced opts ops = (case new_stream opts of Inl _ \<Rightarrow> [] | Inr s0 \<Rightarrow> accepted s0 ops)"

interpretation gw: delivery_source stream_frames stream_produced "\<lambda>opts. \<exists>s. new_stream opts = Inr s"
proof unfold_locales
  fix opts off bs and ops :: "stream_op list"
  assume "\<exists>s. new_stream opts = Inr s" and f: "(off, bs) \<in> set (stream_frames opts ops)"
  then obtain s where s: "new_stream opts = Inr s" by blast
  obtain k where "DeliverTo k off bs \<in> set (snd (stream_run s ops))"
    using f s by (auto simp: stream_frames_def split: effect.splits)
  moreover have "list_all (true_frame (accepted s ops) (po_maxFramePayloadBytes (ps_opts s))) (snd (stream_run s ops))"
    using stream_run_inv [of "[]" s ops] new_stream_inv [OF s] by (cases "stream_run s ops") auto
  ultimately show "slice_at (stream_produced opts ops) off bs"
    using s by (auto simp: stream_produced_def list_all_iff true_frame_def)
qed

definition ring_frames :: "flow_config \<Rightarrow> ring_op list \<Rightarrow> (nat \<times> byte list) list" where
  "ring_frames c ops = (case new_ring c of Inl _ \<Rightarrow> []
     | Inr r \<Rightarrow> concat (map (\<lambda>ob. case ob of Delivered (Some fr) \<Rightarrow> [fr] | _ \<Rightarrow> []) (snd (ring_run r ops))))"

definition ring_produced :: "flow_config \<Rightarrow> ring_op list \<Rightarrow> byte list" where
  "ring_produced c ops = (case new_ring c of Inl _ \<Rightarrow> []
     | Inr r \<Rightarrow> s_stream (fst (spec_run (r_cap r) (r_high r) (r_low r) spec_init ops)))"

lemma spec_step_grows: "spec_step cap high low s op = (s', ob) \<Longrightarrow> prefix (s_stream s) (s_stream s')"
  by (auto simp: spec_step_def Let_def split: ring_op.splits option.splits if_splits)

lemma spec_run_grows: "prefix (s_stream s) (s_stream (fst (spec_run cap high low s ops)))"
proof (induction ops arbitrary: s)
  case (Cons op ops)
  obtain s1 ob where "spec_step cap high low s op = (s1, ob)" by (cases "spec_step cap high low s op")
  then show ?case using spec_step_grows [of cap high low s op s1 ob] Cons [of s1]
    by (auto split: prod.splits dest: prefix_order.trans)
qed simp

lemma spec_delivered_slice:
  "spec_step cap high low s op = (s', Delivered (Some (off, bs))) \<Longrightarrow> s_delivered s \<le> length (s_stream s) \<Longrightarrow>
   slice_at (s_stream s') off bs"
  by (auto simp: spec_step_def Let_def slice_at_def min_def split: ring_op.splits option.splits if_splits)

lemma slice_at_prefix: "prefix S T \<Longrightarrow> slice_at S off bs \<Longrightarrow> slice_at T off bs"
  by (auto simp: prefix_def slice_at_append)

lemma spec_step_cursor:
  "spec_step cap high low s op = (s', ob) \<Longrightarrow> s_delivered s \<le> length (s_stream s) \<Longrightarrow>
   s_delivered s' \<le> length (s_stream s')"
  by (auto simp: spec_step_def Let_def min_def split: ring_op.splits option.splits if_splits)

lemma spec_run_slices:
  "s_delivered s \<le> length (s_stream s) \<Longrightarrow> Delivered (Some (off, bs)) \<in> set (snd (spec_run cap high low s ops)) \<Longrightarrow>
   slice_at (s_stream (fst (spec_run cap high low s ops))) off bs"
proof (induction ops arbitrary: s)
  case (Cons op ops)
  obtain s1 ob where st: "spec_step cap high low s op = (s1, ob)" by (cases "spec_step cap high low s op")
  obtain s2 obs where rn: "spec_run cap high low s1 ops = (s2, obs)" by (cases "spec_run cap high low s1 ops")
  have pre: "prefix (s_stream s1) (s_stream s2)" using spec_run_grows [of s1 cap high low ops] rn by simp
  have "ob = Delivered (Some (off, bs)) \<or> Delivered (Some (off, bs)) \<in> set obs"
    using Cons.prems(2) st rn by auto
  then have "slice_at (s_stream s2) off bs"
    using spec_delivered_slice [of cap high low s op s1] st Cons.prems(1) slice_at_prefix [OF pre]
      Cons.IH [of s1] spec_step_cursor [OF st] rn by auto
  then show ?case using st rn by simp
qed simp

interpretation rg: delivery_source ring_frames ring_produced "\<lambda>c. \<exists>r. new_ring c = Inr r"
proof unfold_locales
  fix c off bs and ops :: "ring_op list"
  assume "\<exists>r. new_ring c = Inr r" and f: "(off, bs) \<in> set (ring_frames c ops)"
  then obtain r where r: "new_ring c = Inr r" by blast
  have "Delivered (Some (off, bs)) \<in> set (snd (ring_run r ops))"
    using f r by (auto simp: ring_frames_def split: ring_obs.splits option.splits)
  moreover obtain r' obs where run: "ring_run r ops = (r', obs)" by (cases "ring_run r ops")
  ultimately have "Delivered (Some (off, bs)) \<in> set (snd (spec_run (r_cap r) (r_high r) (r_low r) spec_init ops))"
    using fresh_run [OF r run] by (metis snd_conv)
  then show "slice_at (ring_produced c ops) off bs"
    using spec_run_slices [of spec_init] r by (simp add: ring_produced_def spec_init_def)
qed

end
