(* ===== verification/Supervision.thy ===== *)
theory Supervision
  imports Prelude
begin

text \<open>
  The shared vocabulary of the resource governor (\<open>core/src/supervision/types.ts\<close>): supervised
  sessions, footprint and pressure thresholds with their default tables, and the frozen band and
  action vocabularies. Megabytes, bytes, seconds and milliseconds are rationals; a sampled value is
  a JavaScript number, so a probe may also return an infinity or NaN.
\<close>

datatype watchdog_class = ClaudeClass | OpencodeClass | OpencodeServeClass | LmstudioClass

record supervised_session =
  ss_sessionId :: string
  ss_account :: string
  ss_backend :: string
  ss_watchdogClass :: watchdog_class
  ss_slot :: int
  ss_isAccountSession :: bool

record pressure_reading =
  pr_pressureLevel :: jsnum
  pr_freeRamPct :: jsnum
  pr_swapUsedBytes :: jsnum
  pr_pageoutRate :: jsnum

record footprint_thresholds =
  ft_warnMb :: rat
  ft_recycleMb :: "rat option"
  ft_sustainedSeconds :: rat

fun DEFAULT_FOOTPRINT_THRESHOLDS :: "watchdog_class \<Rightarrow> footprint_thresholds" where
  "DEFAULT_FOOTPRINT_THRESHOLDS ClaudeClass =
     \<lparr>ft_warnMb = 3072, ft_recycleMb = Some 6144, ft_sustainedSeconds = 0\<rparr>"
| "DEFAULT_FOOTPRINT_THRESHOLDS OpencodeClass =
     \<lparr>ft_warnMb = 1024, ft_recycleMb = Some 1536, ft_sustainedSeconds = 0\<rparr>"
| "DEFAULT_FOOTPRINT_THRESHOLDS OpencodeServeClass =
     \<lparr>ft_warnMb = 500, ft_recycleMb = None, ft_sustainedSeconds = 300\<rparr>"
| "DEFAULT_FOOTPRINT_THRESHOLDS LmstudioClass =
     \<lparr>ft_warnMb = 8192, ft_recycleMb = None, ft_sustainedSeconds = 0\<rparr>"

record pressure_thresholds =
  pt_amberLevel :: rat
  pt_amberFreeRamPct :: rat
  pt_amberSwapBytes :: rat
  pt_redLevel :: rat
  pt_redFreeRamPct :: rat
  pt_redSwapBytes :: rat
  pt_amberPageoutRate :: rat
  pt_redPageoutRate :: rat

definition GIB :: rat where
  "GIB = 1024 * 1024 * 1024"

definition DEFAULT_PRESSURE_THRESHOLDS :: pressure_thresholds where
  "DEFAULT_PRESSURE_THRESHOLDS = \<lparr>pt_amberLevel = 2, pt_amberFreeRamPct = 25, pt_amberSwapBytes = 20 * GIB,
     pt_redLevel = 4, pt_redFreeRamPct = 12, pt_redSwapBytes = 26 * GIB,
     pt_amberPageoutRate = 1, pt_redPageoutRate = 1000\<rparr>"

definition DEFAULT_IDLE_HIBERNATION_MS :: rat where
  "DEFAULT_IDLE_HIBERNATION_MS = 30 * 60 * 1000"

end
