(* ===== verification/Watchdog.thy ===== *)
theory Watchdog
  imports Supervision
begin

text \<open>
  The footprint watchdog of \<open>core/src/supervision/watchdog.ts\<close>. The state is the class's \<open>Map\<close> from
  session id to band and window start; \<open>wd_evaluate\<close> is one pass over the registered sessions with
  the sampler as a parameter (\<open>None\<close>: no reading, or the sampler threw).

  Shown: the debounce of a sustained-window class (it escalates only after the whole window at or
  over the warn line, whatever gaps the sampler had), the absence of flapping inside the hysteresis
  band, and that no verdict underrates an instantaneous class.
\<close>

datatype watchdog_band = OkBand | WarnBand | RecycleBand

record watchdog_verdict =
  wv_sessionId :: string
  wv_band :: watchdog_band
  wv_footprintMb :: "rat option"

record session_state =
  st_band :: watchdog_band
  st_sustainedSinceMs :: "rat option"

type_synonym watchdog = "(string, session_state) jmap"

definition fresh_state :: session_state where
  "fresh_state = \<lparr>st_band = OkBand, st_sustainedSinceMs = None\<rparr>"

definition rawBand :: "rat \<Rightarrow> footprint_thresholds \<Rightarrow> watchdog_band" where
  "rawBand footprintMb t =
    (if (case ft_recycleMb t of Some r \<Rightarrow> footprintMb \<ge> r | None \<Rightarrow> False) then RecycleBand
     else if footprintMb \<ge> ft_warnMb t then WarnBand else OkBand)"

fun band_rank :: "watchdog_band \<Rightarrow> nat" where
  "band_rank OkBand = 0"
| "band_rank WarnBand = 1"
| "band_rank RecycleBand = 2"

definition applyHysteresis ::
  "watchdog_band \<Rightarrow> watchdog_band \<Rightarrow> rat \<Rightarrow> footprint_thresholds \<Rightarrow> rat \<Rightarrow> watchdog_band" where
  "applyHysteresis prior target footprintMb t hysteresisMb =
    (if band_rank target \<ge> band_rank prior then target
     else if prior = RecycleBand then
       (if (case ft_recycleMb t of Some r \<Rightarrow> footprintMb \<ge> r - hysteresisMb | None \<Rightarrow> False) then RecycleBand
        else if footprintMb \<ge> ft_warnMb t - hysteresisMb then WarnBand
        else target)
     else if footprintMb \<ge> ft_warnMb t - hysteresisMb then WarnBand
     else OkBand)"

text \<open>The guard on a reading: undefined, infinite, NaN and negative values are no reading.\<close>

definition usable_reading :: "jsnum option \<Rightarrow> rat option" where
  "usable_reading r = (case r of
     Some (Fin q) \<Rightarrow> if q < 0 then None else Some q
   | _ \<Rightarrow> None)"

definition wd_step ::
  "footprint_thresholds \<Rightarrow> rat \<Rightarrow> rat \<Rightarrow> jsnum option \<Rightarrow> session_state \<Rightarrow> session_state \<times> rat option" where
  "wd_step t hysteresisMb nowMs sample prior = (case usable_reading sample of
     None \<Rightarrow> (prior, None)
   | Some footprintMb \<Rightarrow>
       (let sustainedSinceMs = (if footprintMb \<ge> ft_warnMb t
              then (case st_sustainedSinceMs prior of None \<Rightarrow> Some nowMs | Some s \<Rightarrow> Some s) else None);
            target0 = rawBand footprintMb t;
            target = (if ft_sustainedSeconds t > 0 \<and> target0 \<noteq> OkBand then
                        (let elapsedMs = (case sustainedSinceMs of None \<Rightarrow> 0 | Some s \<Rightarrow> nowMs - s)
                         in if elapsedMs < ft_sustainedSeconds t * 1000 then OkBand else target0)
                      else target0);
            band = applyHysteresis (st_band prior) target footprintMb t hysteresisMb
        in (\<lparr>st_band = band, st_sustainedSinceMs = sustainedSinceMs\<rparr>, Some footprintMb)))"

primrec wd_evaluate ::
  "(watchdog_class \<Rightarrow> footprint_thresholds) \<Rightarrow> rat \<Rightarrow> (supervised_session \<Rightarrow> jsnum option) \<Rightarrow>
   supervised_session list \<Rightarrow> rat \<Rightarrow> watchdog \<Rightarrow> watchdog \<times> watchdog_verdict list" where
  "wd_evaluate thr h sampler [] nowMs state = (state, [])"
| "wd_evaluate thr h sampler (session # ss) nowMs state =
    (let prior = (case jm_get state (ss_sessionId session) of None \<Rightarrow> fresh_state | Some p \<Rightarrow> p);
         (st', fp) = wd_step (thr (ss_watchdogClass session)) h nowMs (sampler session) prior;
         (state', vs) = wd_evaluate thr h sampler ss nowMs (jm_set state (ss_sessionId session) st')
     in (state', \<lparr>wv_sessionId = ss_sessionId session, wv_band = st_band st', wv_footprintMb = fp\<rparr> # vs))"

definition wd_bandOf :: "watchdog \<Rightarrow> string \<Rightarrow> watchdog_band option" where
  "wd_bandOf state sid = map_option st_band (jm_get state sid)"

definition wd_forget :: "watchdog \<Rightarrow> string \<Rightarrow> watchdog" where
  "wd_forget state sid = jm_delete state sid"

section \<open>One pass, seen from one session\<close>

abbreviation state_of :: "watchdog \<Rightarrow> string \<Rightarrow> session_state" where
  "state_of state sid \<equiv> (case jm_get state sid of None \<Rightarrow> fresh_state | Some p \<Rightarrow> p)"

lemma evaluate_other:
  "sid \<notin> ss_sessionId ` set ss \<Longrightarrow>
   jm_get (fst (wd_evaluate thr h sampler ss nowMs state)) sid = jm_get state sid"
proof (induction ss arbitrary: state)
  case (Cons a ss)
  let ?st = "fst (wd_step (thr (ss_watchdogClass a)) h nowMs (sampler a) (state_of state (ss_sessionId a)))"
  have "fst (wd_evaluate thr h sampler (a # ss) nowMs state)
      = fst (wd_evaluate thr h sampler ss nowMs (jm_set state (ss_sessionId a) ?st))"
    by (simp add: Let_def split: prod.splits)
  then show ?case using Cons by (simp add: jm_get_set)
qed simp

lemma evaluate_session:
  assumes "distinct (map ss_sessionId ss)" "s \<in> set ss"
  shows "jm_get (fst (wd_evaluate thr h sampler ss nowMs state)) (ss_sessionId s) =
    Some (fst (wd_step (thr (ss_watchdogClass s)) h nowMs (sampler s) (state_of state (ss_sessionId s))))"
  using assms
proof (induction ss arbitrary: state)
  case (Cons x ss)
  obtain st' fp where x: "wd_step (thr (ss_watchdogClass x)) h nowMs (sampler x)
      (state_of state (ss_sessionId x)) = (st', fp)"
    by (cases "wd_step (thr (ss_watchdogClass x)) h nowMs (sampler x) (state_of state (ss_sessionId x))")
  let ?state = "jm_set state (ss_sessionId x) st'"
  have eq: "fst (wd_evaluate thr h sampler (x # ss) nowMs state) = fst (wd_evaluate thr h sampler ss nowMs ?state)"
    using x by (simp add: Let_def split: prod.splits)
  show ?case
  proof (cases "s = x")
    case True
    then show ?thesis using eq Cons.prems(1) evaluate_other [of "ss_sessionId x" ss] x
      by (simp add: jm_get_set)
  next
    case False
    then have s: "s \<in> set ss" "ss_sessionId s \<noteq> ss_sessionId x" using Cons.prems by (auto simp: image_iff)
    then show ?thesis using eq Cons.IH [of ?state] Cons.prems(1) by (simp add: jm_get_set)
  qed
qed simp

lemma evaluate_verdicts:
  "distinct (map ss_sessionId ss) \<Longrightarrow> v \<in> set (snd (wd_evaluate thr h sampler ss nowMs state)) \<Longrightarrow>
   \<exists>s\<in>set ss. wv_sessionId v = ss_sessionId s \<and>
     (let r = wd_step (thr (ss_watchdogClass s)) h nowMs (sampler s) (state_of state (ss_sessionId s))
      in wv_band v = st_band (fst r) \<and> wv_footprintMb v = snd r)"
proof (induction ss arbitrary: state)
  case (Cons x ss)
  obtain st' fp where x: "wd_step (thr (ss_watchdogClass x)) h nowMs (sampler x)
      (state_of state (ss_sessionId x)) = (st', fp)"
    by (cases "wd_step (thr (ss_watchdogClass x)) h nowMs (sampler x) (state_of state (ss_sessionId x))")
  let ?state = "jm_set state (ss_sessionId x) st'"
  have "snd (wd_evaluate thr h sampler (x # ss) nowMs state) =
      \<lparr>wv_sessionId = ss_sessionId x, wv_band = st_band st', wv_footprintMb = fp\<rparr>
      # snd (wd_evaluate thr h sampler ss nowMs ?state)"
    using x by (simp add: Let_def split: prod.splits)
  then consider "v = \<lparr>wv_sessionId = ss_sessionId x, wv_band = st_band st', wv_footprintMb = fp\<rparr>"
    | "v \<in> set (snd (wd_evaluate thr h sampler ss nowMs ?state))" using Cons.prems(2) by auto
  then show ?case
  proof cases
    case 1
    then show ?thesis using x by (simp add: Let_def)
  next
    case 2
    then obtain s where s: "s \<in> set ss" "wv_sessionId v = ss_sessionId s"
      "let r = wd_step (thr (ss_watchdogClass s)) h nowMs (sampler s) (state_of ?state (ss_sessionId s))
       in wv_band v = st_band (fst r) \<and> wv_footprintMb v = snd r"
      using Cons.IH [of ?state] Cons.prems(1) by auto
    then have "ss_sessionId s \<noteq> ss_sessionId x" using Cons.prems(1) s(1) by (auto simp: image_iff)
    then show ?thesis using s by (auto simp: jm_get_set)
  qed
qed simp

section \<open>Histories\<close>

type_synonym wd_pass = "rat \<times> supervised_session list \<times> (supervised_session \<Rightarrow> jsnum option)"

primrec wd_run :: "(watchdog_class \<Rightarrow> footprint_thresholds) \<Rightarrow> rat \<Rightarrow> wd_pass list \<Rightarrow> watchdog \<Rightarrow> watchdog" where
  "wd_run thr h [] state = state"
| "wd_run thr h (p # ps) state =
    wd_run thr h ps (fst (wd_evaluate thr h (snd (snd p)) (fst (snd p)) (fst p) state))"

definition supervises :: "supervised_session \<Rightarrow> wd_pass \<Rightarrow> bool" where
  "supervises s p \<longleftrightarrow> distinct (map ss_sessionId (fst (snd p))) \<and> s \<in> set (fst (snd p))"

definition samples_of :: "supervised_session \<Rightarrow> wd_pass list \<Rightarrow> (rat \<times> jsnum option) list" where
  "samples_of s ps = map (\<lambda>p. (fst p, snd (snd p) s)) ps"

definition sess_run :: "footprint_thresholds \<Rightarrow> rat \<Rightarrow> (rat \<times> jsnum option) list \<Rightarrow> session_state \<Rightarrow> session_state" where
  "sess_run t h tr st = fold (\<lambda>(n, sm) st. fst (wd_step t h n sm st)) tr st"

lemma sess_run_snoc [simp]: "sess_run t h (tr @ [(n, sm)]) st = fst (wd_step t h n sm (sess_run t h tr st))"
  by (simp add: sess_run_def)

lemma sess_run_Nil [simp]: "sess_run t h [] st = st"
  by (simp add: sess_run_def)

lemma run_session:
  "list_all (supervises s) ps \<Longrightarrow>
   state_of (wd_run thr h ps state) (ss_sessionId s) =
     sess_run (thr (ss_watchdogClass s)) h (samples_of s ps) (state_of state (ss_sessionId s))"
proof (induction ps arbitrary: state)
  case (Cons p ps)
  then have "jm_get (fst (wd_evaluate thr h (snd (snd p)) (fst (snd p)) (fst p) state)) (ss_sessionId s) =
    Some (fst (wd_step (thr (ss_watchdogClass s)) h (fst p) (snd (snd p) s) (state_of state (ss_sessionId s))))"
    by (intro evaluate_session) (auto simp: supervises_def)
  then show ?case using Cons by (simp add: samples_of_def sess_run_def)
qed (simp add: samples_of_def)

definition at_or_over :: "footprint_thresholds \<Rightarrow> jsnum option \<Rightarrow> bool" where
  "at_or_over t sm = (case usable_reading sm of None \<Rightarrow> False | Some q \<Rightarrow> ft_warnMb t \<le> q)"

definition not_below :: "footprint_thresholds \<Rightarrow> jsnum option \<Rightarrow> bool" where
  "not_below t sm = (case usable_reading sm of None \<Rightarrow> True | Some q \<Rightarrow> ft_warnMb t \<le> q)"

text \<open>The window start is the time of a reading at or over the line after which no reading fell
  below it.\<close>

lemma sustained_since_held:
  "st_sustainedSinceMs (sess_run t h tr fresh_state) = Some s0 \<Longrightarrow>
   \<exists>xs sm ys. tr = xs @ (s0, sm) # ys \<and> at_or_over t sm \<and> (\<forall>(n, sm')\<in>set ys. not_below t sm')"
proof (induction tr arbitrary: s0 rule: rev_induct)
  case Nil
  then show ?case by (simp add: fresh_state_def)
next
  case (snoc p tr)
  obtain n sm where p: "p = (n, sm)" by (cases p)
  let ?st = "sess_run t h tr fresh_state"
  have *: "st_sustainedSinceMs (fst (wd_step t h n sm ?st)) = Some s0" using snoc.prems p by simp
  show ?case
  proof (cases "st_sustainedSinceMs ?st = Some s0 \<and> not_below t sm")
    case True
    then obtain xs sm0 ys where d: "tr = xs @ (s0, sm0) # ys" "at_or_over t sm0"
        "\<forall>(n, sm')\<in>set ys. not_below t sm'"
      using snoc.IH by blast
    then have "tr @ [p] = xs @ (s0, sm0) # (ys @ [p])" "\<forall>(n, sm')\<in>set (ys @ [p]). not_below t sm'"
      using p True by auto
    then show ?thesis using d(2) by blast
  next
    case False
    then have "n = s0" "at_or_over t sm"
      using * by (auto simp: wd_step_def at_or_over_def not_below_def Let_def split: option.splits if_splits)
    then show ?thesis using p by (intro exI [of _ tr] exI [of _ sm] exI [of _ "[]"]) simp
  qed
qed

lemma escalation_window:
  assumes "st_band st = OkBand" "st_band (fst (wd_step t h n sm st)) \<noteq> OkBand" "0 < ft_sustainedSeconds t"
  shows "\<exists>s0. st_sustainedSinceMs (fst (wd_step t h n sm st)) = Some s0 \<and> ft_sustainedSeconds t * 1000 \<le> n - s0"
proof (cases "usable_reading sm")
  case None
  then show ?thesis using assms by (simp add: wd_step_def)
next
  case (Some q)
  define since where "since = st_sustainedSinceMs (fst (wd_step t h n sm st))"
  have since: "since = (if ft_warnMb t \<le> q
      then (case st_sustainedSinceMs st of None \<Rightarrow> Some n | Some s \<Rightarrow> Some s) else None)"
    using Some by (simp add: since_def wd_step_def Let_def)
  have b: "st_band (fst (wd_step t h n sm st)) = (if rawBand q t \<noteq> OkBand \<and>
      (case since of None \<Rightarrow> 0 | Some s \<Rightarrow> n - s) < ft_sustainedSeconds t * 1000 then OkBand else rawBand q t)"
    using Some assms(1,3) by (simp add: since wd_step_def Let_def applyHysteresis_def)
  then have "\<not> (case since of None \<Rightarrow> 0 | Some s \<Rightarrow> n - s) < ft_sustainedSeconds t * 1000"
    using assms(2) by (auto split: if_splits)
  then show ?thesis using assms(3) unfolding since_def [symmetric] by (auto split: option.splits)
qed

lemma rank_recycle: "2 \<le> band_rank b \<longleftrightarrow> b = RecycleBand"
  by (cases b) auto

lemma step_band:
  assumes "usable_reading sm = Some q"
  shows "\<exists>b\<in>{OkBand, rawBand q t}. st_band (fst (wd_step t h n sm st)) = applyHysteresis (st_band st) b q t h
    \<and> (ft_sustainedSeconds t \<le> 0 \<longrightarrow> b = rawBand q t)"
  using assms by (auto simp: wd_step_def Let_def)

lemma hyst_recycle:
  "ft_recycleMb t = Some r \<Longrightarrow> r - h \<le> q \<Longrightarrow> applyHysteresis RecycleBand b q t h = RecycleBand"
  by (simp add: applyHysteresis_def rank_recycle)

lemma hyst_warn:
  "ft_warnMb t - h \<le> q \<Longrightarrow> b \<noteq> RecycleBand \<Longrightarrow> applyHysteresis WarnBand b q t h = WarnBand"
  by (cases b) (simp_all add: applyHysteresis_def)

lemma hyst_ge: "band_rank b \<le> band_rank (applyHysteresis p b q t h)"
  by (cases b; cases p) (simp_all add: applyHysteresis_def)

lemma recycle_kept:
  assumes "st_band st = RecycleBand" "\<And>q. usable_reading sm = Some q \<Longrightarrow> \<exists>r. ft_recycleMb t = Some r \<and> r - h \<le> q"
  shows "st_band (fst (wd_step t h n sm st)) = RecycleBand"
proof (cases "usable_reading sm")
  case None
  then show ?thesis using assms(1) by (simp add: wd_step_def)
next
  case (Some q)
  then show ?thesis using step_band [OF Some, of t h n st] assms hyst_recycle by auto
qed

lemma warn_kept:
  assumes "st_band st = WarnBand"
    and "\<And>q. usable_reading sm = Some q \<Longrightarrow> ft_warnMb t - h \<le> q \<and> (\<forall>r. ft_recycleMb t = Some r \<longrightarrow> q < r)"
  shows "st_band (fst (wd_step t h n sm st)) = WarnBand"
proof (cases "usable_reading sm")
  case None
  then show ?thesis using assms(1) by (simp add: wd_step_def)
next
  case (Some q)
  have "rawBand q t \<noteq> RecycleBand"
    using assms(2) [OF Some] by (auto simp: rawBand_def split: option.splits)
  then show ?thesis using step_band [OF Some, of t h n st] assms(1) assms(2) [OF Some] hyst_warn by auto
qed

section \<open>Properties\<close>

text \<open>Claim C30: the sustained-window debounce is exact. If a session of a debounced class (such as
  the \<open>opencode serve\<close> daemon) goes from \<open>ok\<close> to \<open>warn\<close> or \<open>recycle\<close> in some pass, then some earlier
  pass at least the whole window ago read at or over the warn line and no reading since then fell
  below it; passes without a usable reading do not count either way. A garbage-collection sawtooth
  therefore never trips it.\<close>

theorem watchdog_debounce:
  assumes "list_all (supervises s) (ps @ [p])" "t = thr (ss_watchdogClass s)" "0 < ft_sustainedSeconds t"
    and "st_band (state_of (wd_run thr h ps []) (ss_sessionId s)) = OkBand"
    and "st_band (state_of (wd_run thr h (ps @ [p]) []) (ss_sessionId s)) \<noteq> OkBand"
  shows "\<exists>xs s0 sm ys. samples_of s (ps @ [p]) = xs @ (s0, sm) # ys \<and> at_or_over t sm
    \<and> (\<forall>(n, sm')\<in>set ys. not_below t sm') \<and> ft_sustainedSeconds t * 1000 \<le> fst p - s0"
proof -
  let ?st = "sess_run t h (samples_of s ps) fresh_state"
  have sp: "samples_of s (ps @ [p]) = samples_of s ps @ [(fst p, snd (snd p) s)]" by (simp add: samples_of_def)
  have st: "state_of (wd_run thr h ps []) (ss_sessionId s) = ?st"
    using run_session [of s ps thr h "[]"] assms(1,2) by (simp add: jm_get_def)
  have st': "state_of (wd_run thr h (ps @ [p]) []) (ss_sessionId s) = sess_run t h (samples_of s (ps @ [p])) fresh_state"
    using run_session [of s "ps @ [p]" thr h "[]"] assms(1,2) by (simp add: jm_get_def)
  obtain s0 where s0: "st_sustainedSinceMs (sess_run t h (samples_of s (ps @ [p])) fresh_state) = Some s0"
    "ft_sustainedSeconds t * 1000 \<le> fst p - s0"
    using escalation_window [of ?st t h "fst p" "snd (snd p) s"] assms(3-5) st st' unfolding sp by auto
  show ?thesis using sustained_since_held [OF s0(1)] s0(2) by blast
qed

abbreviation serve_session :: supervised_session where
  "serve_session \<equiv> \<lparr>ss_sessionId = ''d'', ss_account = ''AWS_DEV'', ss_backend = ''opencode'',
     ss_watchdogClass = OpencodeServeClass, ss_slot = 0, ss_isAccountSession = False\<rparr>"

lemmas watchdog_eval = wd_step_def rawBand_def applyHysteresis_def usable_reading_def fresh_state_def
  jm_get_def Let_def

theorem watchdog_debounce_witness:
  "\<exists>xs s0 sm ys. samples_of serve_session
      [(0, [serve_session], \<lambda>_. Some (Fin 510)), (200000, [serve_session], \<lambda>_. None),
       (300000, [serve_session], \<lambda>_. Some (Fin 650))] = xs @ (s0, sm) # ys
     \<and> at_or_over (DEFAULT_FOOTPRINT_THRESHOLDS OpencodeServeClass) sm \<and> 300000 \<le> 300000 - s0"
proof -
  let ?ps = "[(0, [serve_session], \<lambda>_. Some (Fin 510)), (200000, [serve_session], \<lambda>_. None)]"
  let ?p = "(300000, [serve_session], \<lambda>_. Some (Fin 650))"
  have "\<exists>xs s0 sm ys. samples_of serve_session (?ps @ [?p]) = xs @ (s0, sm) # ys
    \<and> at_or_over (DEFAULT_FOOTPRINT_THRESHOLDS OpencodeServeClass) sm
    \<and> (\<forall>(n, sm')\<in>set ys. not_below (DEFAULT_FOOTPRINT_THRESHOLDS OpencodeServeClass) sm')
    \<and> ft_sustainedSeconds (DEFAULT_FOOTPRINT_THRESHOLDS OpencodeServeClass) * 1000 \<le> fst ?p - s0"
    using watchdog_debounce [of serve_session ?ps ?p "DEFAULT_FOOTPRINT_THRESHOLDS OpencodeServeClass"
        DEFAULT_FOOTPRINT_THRESHOLDS 128]
    by (simp add: supervises_def watchdog_eval)
  then show ?thesis by auto
qed

text \<open>Bands do not flap and never underrate. Take any state and any further history of one
  session in which every usable reading stays within the hysteresis margin: a \<open>recycle\<close> band whose
  readings stay at or above the recycle line minus the margin remains \<open>recycle\<close>, a \<open>warn\<close> band whose
  readings stay at or above the warn line minus the margin and below the recycle line remains \<open>warn\<close>;
  and a usable reading of an instantaneous class never gets a band below the one its value calls
  for.\<close>

theorem watchdog_no_flap:
  assumes "list_all (supervises s) ps" "t = thr (ss_watchdogClass s)"
  shows "(st_band (state_of state (ss_sessionId s)) = RecycleBand \<longrightarrow>
       (\<forall>(n, sm)\<in>set (samples_of s ps). \<forall>q. usable_reading sm = Some q \<longrightarrow>
          (\<exists>r. ft_recycleMb t = Some r \<and> r - h \<le> q)) \<longrightarrow>
       st_band (state_of (wd_run thr h ps state) (ss_sessionId s)) = RecycleBand)
    \<and> (st_band (state_of state (ss_sessionId s)) = WarnBand \<longrightarrow>
       (\<forall>(n, sm)\<in>set (samples_of s ps). \<forall>q. usable_reading sm = Some q \<longrightarrow>
          ft_warnMb t - h \<le> q \<and> (\<forall>r. ft_recycleMb t = Some r \<longrightarrow> q < r)) \<longrightarrow>
       st_band (state_of (wd_run thr h ps state) (ss_sessionId s)) = WarnBand)
    \<and> (ft_sustainedSeconds t \<le> 0 \<longrightarrow> usable_reading sm = Some q \<longrightarrow>
       band_rank (rawBand q t) \<le> band_rank (st_band (fst (wd_step t h n sm st))))"
proof (intro conjI impI)
  let ?st0 = "state_of state (ss_sessionId s)"
  have run: "state_of (wd_run thr h ps state) (ss_sessionId s) = sess_run t h (samples_of s ps) ?st0"
    using run_session [OF assms(1)] assms(2) by simp
  have rec: "st_band (sess_run t h tr st) = RecycleBand"
    if "st_band st = RecycleBand" "\<forall>(n, sm)\<in>set tr. \<forall>q. usable_reading sm = Some q \<longrightarrow>
          (\<exists>r. ft_recycleMb t = Some r \<and> r - h \<le> q)" for tr st
    using that(2)
  proof (induction tr rule: rev_induct)
    case (snoc p tr)
    then show ?case by (cases p) (auto intro!: recycle_kept)
  qed (simp add: that(1))
  have warn: "st_band (sess_run t h tr st) = WarnBand"
    if "st_band st = WarnBand" "\<forall>(n, sm)\<in>set tr. \<forall>q. usable_reading sm = Some q \<longrightarrow>
          ft_warnMb t - h \<le> q \<and> (\<forall>r. ft_recycleMb t = Some r \<longrightarrow> q < r)" for tr st
    using that(2)
  proof (induction tr rule: rev_induct)
    case (snoc p tr)
    then show ?case by (cases p) (auto intro!: warn_kept)
  qed (simp add: that(1))
  show "st_band (state_of (wd_run thr h ps state) (ss_sessionId s)) = RecycleBand"
    if "st_band ?st0 = RecycleBand" "\<forall>(n, sm)\<in>set (samples_of s ps). \<forall>q. usable_reading sm = Some q \<longrightarrow>
          (\<exists>r. ft_recycleMb t = Some r \<and> r - h \<le> q)"
    using rec [OF that] run by simp
  show "st_band (state_of (wd_run thr h ps state) (ss_sessionId s)) = WarnBand"
    if "st_band ?st0 = WarnBand" "\<forall>(n, sm)\<in>set (samples_of s ps). \<forall>q. usable_reading sm = Some q \<longrightarrow>
          ft_warnMb t - h \<le> q \<and> (\<forall>r. ft_recycleMb t = Some r \<longrightarrow> q < r)"
    using warn [OF that] run by simp
  show "band_rank (rawBand q t) \<le> band_rank (st_band (fst (wd_step t h n sm st)))"
    if "ft_sustainedSeconds t \<le> 0" "usable_reading sm = Some q"
    using step_band [OF that(2), of t h n st] that(1) hyst_ge by metis
qed

theorem watchdog_no_flap_witness:
  "st_band (state_of (wd_run DEFAULT_FOOTPRINT_THRESHOLDS 128
     [(1, [serve_session], \<lambda>_. Some (Fin 380)), (2, [serve_session], \<lambda>_. Some (Fin 499))]
     [(''d'', \<lparr>st_band = WarnBand, st_sustainedSinceMs = None\<rparr>)]) ''d'') = WarnBand"
proof -
  let ?ps = "[(1, [serve_session], \<lambda>_. Some (Fin 380)), (2, [serve_session], \<lambda>_. Some (Fin 499))]"
  let ?state = "[(''d'', \<lparr>st_band = WarnBand, st_sustainedSinceMs = None\<rparr>)]"
  have s: "list_all (supervises serve_session) ?ps" by (simp add: supervises_def)
  show ?thesis
    using watchdog_no_flap [OF s refl, of ?state DEFAULT_FOOTPRINT_THRESHOLDS 128]
    by (simp add: samples_of_def usable_reading_def jm_get_def del: wd_run.simps)
qed

end
