(* ===== verification/Pressure.thy ===== *)
theory Pressure
  imports Supervision
begin

text \<open>
  The amber/red state machine of \<open>core/src/supervision/pressureProbe.ts\<close> (\<open>createPressureMonitor\<close>).
  A probe reading is a parameter (\<open>None\<close>: no signal, or the probe threw). The spawn-backed macOS
  probe of the same file parses tool output and is not modelled.
\<close>

datatype pressure_state = NormalState | AmberState | RedState

record pressure_config =
  pc_thresholds :: pressure_thresholds
  pc_hFree :: rat
  pc_hSwap :: rat

definition default_pressure_config :: pressure_config where
  "default_pressure_config = \<lparr>pc_thresholds = DEFAULT_PRESSURE_THRESHOLDS, pc_hFree = 3, pc_hSwap = GIB\<rparr>"

fun pressure_rank :: "pressure_state \<Rightarrow> nat" where
  "pressure_rank NormalState = 0"
| "pressure_rank AmberState = 1"
| "pressure_rank RedState = 2"

text \<open>One line of four triggers, the free-RAM and swap legs moved by a margin.\<close>

definition red_line :: "pressure_thresholds \<Rightarrow> rat \<Rightarrow> rat \<Rightarrow> pressure_reading \<Rightarrow> bool" where
  "red_line t mFree mSwap r \<longleftrightarrow>
     num_le (Fin (pt_redLevel t)) (pr_pressureLevel r)
   \<or> num_less (pr_freeRamPct r) (Fin (pt_redFreeRamPct t + mFree))
   \<or> num_less (Fin (pt_redSwapBytes t - mSwap)) (pr_swapUsedBytes r)
   \<or> num_le (Fin (pt_redPageoutRate t)) (pr_pageoutRate r)"

definition amber_line :: "pressure_thresholds \<Rightarrow> rat \<Rightarrow> rat \<Rightarrow> pressure_reading \<Rightarrow> bool" where
  "amber_line t mFree mSwap r \<longleftrightarrow>
     num_le (Fin (pt_amberLevel t)) (pr_pressureLevel r)
   \<or> num_less (pr_freeRamPct r) (Fin (pt_amberFreeRamPct t + mFree))
   \<or> num_less (Fin (pt_amberSwapBytes t - mSwap)) (pr_swapUsedBytes r)
   \<or> num_le (Fin (pt_amberPageoutRate t)) (pr_pageoutRate r)"

definition rawState :: "pressure_thresholds \<Rightarrow> pressure_reading \<Rightarrow> pressure_state" where
  "rawState t r = (if red_line t 0 0 r then RedState else if amber_line t 0 0 r then AmberState else NormalState)"

definition withHysteresis ::
  "pressure_config \<Rightarrow> pressure_state \<Rightarrow> pressure_state \<Rightarrow> pressure_reading \<Rightarrow> pressure_state" where
  "withHysteresis pc prior target r =
    (let t = pc_thresholds pc; hFree = pc_hFree pc; hSwap = pc_hSwap pc in
     if pressure_rank target \<ge> pressure_rank prior then target
     else if prior = RedState then
       (if red_line t hFree hSwap r then RedState
        else if amber_line t hFree hSwap r then AmberState else NormalState)
     else if amber_line t hFree hSwap r then AmberState else NormalState)"

definition pm_evaluate ::
  "pressure_config \<Rightarrow> pressure_state \<Rightarrow> pressure_reading option \<Rightarrow> pressure_state" where
  "pm_evaluate pc current reading = (case reading of
     None \<Rightarrow> current
   | Some r \<Rightarrow> withHysteresis pc current (rawState (pc_thresholds pc) r) r)"

definition pm_run :: "pressure_config \<Rightarrow> pressure_reading option list \<Rightarrow> pressure_state" where
  "pm_run pc rs = foldl (pm_evaluate pc) NormalState rs"

section \<open>Lines and margins\<close>

lemma num_less_shift: "num_less x (Fin a) \<Longrightarrow> a \<le> b \<Longrightarrow> num_less x (Fin b)"
  by (cases x) auto

lemma num_less_shift_left: "num_less (Fin a) x \<Longrightarrow> b \<le> a \<Longrightarrow> num_less (Fin b) x"
  by (cases x) auto

lemma red_line_mono: "red_line t 0 0 r \<Longrightarrow> 0 \<le> m \<Longrightarrow> 0 \<le> m' \<Longrightarrow> red_line t m m' r"
  by (auto simp: red_line_def intro: num_less_shift num_less_shift_left)

lemma amber_line_mono: "amber_line t 0 0 r \<Longrightarrow> 0 \<le> m \<Longrightarrow> 0 \<le> m' \<Longrightarrow> amber_line t m m' r"
  by (auto simp: amber_line_def intro: num_less_shift num_less_shift_left)

lemma evaluate_cases:
  assumes "0 \<le> pc_hFree pc" "0 \<le> pc_hSwap pc"
  defines "red r \<equiv> red_line (pc_thresholds pc) (pc_hFree pc) (pc_hSwap pc) r"
    and "amber r \<equiv> amber_line (pc_thresholds pc) (pc_hFree pc) (pc_hSwap pc) r"
    and "raw r \<equiv> rawState (pc_thresholds pc) r"
  shows "pm_evaluate pc RedState (Some r) = (if red r then RedState else if amber r then AmberState else NormalState)"
    "pm_evaluate pc AmberState (Some r) =
      (if raw r = RedState then RedState else if amber r then AmberState else NormalState)"
    "pm_evaluate pc NormalState (Some r) = raw r"
  using red_line_mono [OF _ assms(1,2), of "pc_thresholds pc" r]
    amber_line_mono [OF _ assms(1,2), of "pc_thresholds pc" r]
  by (auto simp: pm_evaluate_def withHysteresis_def rawState_def Let_def red_def amber_def raw_def)

section \<open>Properties\<close>



end
