(* ===== verification/Scheduler.thy ===== *)
theory Scheduler
  imports Pressure
begin

text \<open>
  The load-shedding scheduler (\<open>core/src/supervision/scheduler.ts\<close>) and the idle-hibernation planner
  (\<open>hibernation.ts\<close>). Both are pure: a plan is a list computed from the registered sessions.
\<close>

datatype shed_action = ShedLocalModel | ShedModelContext | ShedFrontendWeight
  | HibernateNonAccount | TrimScrollback | RecycleSession

definition SACRIFICE_ORDER :: "shed_action list" where
  "SACRIFICE_ORDER = [ShedLocalModel, ShedModelContext, ShedFrontendWeight, HibernateNonAccount, TrimScrollback]"

record shed_step =
  sp_action :: shed_action
  sp_sessionId :: "string option"
  sp_account :: "string option"
  sp_backend :: "string option"

record shed_plan_input =
  pi_pressure :: pressure_state
  pi_sessions :: "supervised_session list"
  pi_localModelResident :: bool
  pi_alreadyHibernated :: "string list"

abbreviation whole_machine :: "shed_action \<Rightarrow> shed_step" where
  "whole_machine a \<equiv> \<lparr>sp_action = a, sp_sessionId = None, sp_account = None, sp_backend = None\<rparr>"

definition victims :: "shed_plan_input \<Rightarrow> supervised_session list" where
  "victims i = js_sort (\<lambda>a b. ss_slot a - ss_slot b)
     (filter (\<lambda>s. \<not> ss_isAccountSession s \<and> ss_sessionId s \<notin> set (pi_alreadyHibernated i)) (pi_sessions i))"

definition eligible_actions :: "pressure_state \<Rightarrow> shed_action list" where
  "eligible_actions p = (if p = RedState then SACRIFICE_ORDER else [ShedModelContext, ShedFrontendWeight])"

definition plan_action :: "shed_plan_input \<Rightarrow> shed_action \<Rightarrow> shed_step list" where
  "plan_action i action =
    (if action \<notin> set (eligible_actions (pi_pressure i)) then []
     else case action of
       ShedLocalModel \<Rightarrow> if pi_localModelResident i then [whole_machine action] else []
     | ShedModelContext \<Rightarrow> [whole_machine action]
     | ShedFrontendWeight \<Rightarrow> [whole_machine action]
     | TrimScrollback \<Rightarrow> [whole_machine action]
     | HibernateNonAccount \<Rightarrow> map (\<lambda>v. \<lparr>sp_action = HibernateNonAccount,
          sp_sessionId = Some (ss_sessionId v), sp_account = Some (ss_account v),
          sp_backend = Some (ss_backend v)\<rparr>) (victims i)
     | RecycleSession \<Rightarrow> [])"

definition planShed :: "shed_plan_input \<Rightarrow> shed_step list" where
  "planShed i =
    (if pi_pressure i = NormalState then []
     else filter (\<lambda>step. case sp_sessionId step of None \<Rightarrow> True
            | Some sid \<Rightarrow> (case find (\<lambda>s. ss_sessionId s = sid) (pi_sessions i) of
                 None \<Rightarrow> True | Some target \<Rightarrow> \<not> ss_isAccountSession target))
          (concat (map (plan_action i) SACRIFICE_ORDER)))"

section \<open>Spawn admission\<close>

record spawn_admission_input =
  sa_pressure :: pressure_state
  sa_isAccountSpawn :: bool
  sa_residentAccountCount :: "nat option"
  sa_residentAccountSoftCeiling :: "rat option"

datatype spawn_admission = Admit | AdmitWithAdvisory | RefuseRedPressureNonAccount

definition admitSpawn :: "spawn_admission_input \<Rightarrow> spawn_admission" where
  "admitSpawn i =
    (if sa_isAccountSpawn i then
       (case (sa_residentAccountSoftCeiling i, sa_residentAccountCount i) of
          (Some cl, Some resident) \<Rightarrow>
            if cl > 0 \<and> of_nat resident \<ge> cl then AdmitWithAdvisory else Admit
        | _ \<Rightarrow> Admit)
     else if sa_pressure i = RedState then RefuseRedPressureNonAccount else Admit)"

section \<open>Idle hibernation\<close>

record idle_hibernation_input =
  ih_sessions :: "supervised_session list"
  ih_lastActivityMs :: "(string, rat) jmap"
  ih_nowMs :: rat
  ih_alreadyHibernated :: "string list"
  ih_idleWindowMs :: rat
  ih_allowAccountUnderRed :: bool

record hibernation_candidate =
  hc_sessionId :: string
  hc_idleMs :: rat
  hc_isAccount :: bool

definition idle_ms :: "idle_hibernation_input \<Rightarrow> supervised_session \<Rightarrow> rat" where
  "idle_ms i s = (case jm_get (ih_lastActivityMs i) (ss_sessionId s) of
     None \<Rightarrow> 0 | Some lastMs \<Rightarrow> max 0 (ih_nowMs i - lastMs))"

definition candidate_cmp :: "(hibernation_candidate \<times> int) \<Rightarrow> (hibernation_candidate \<times> int) \<Rightarrow> int" where
  "candidate_cmp a b =
    (let d = of_bool (hc_isAccount (fst a)) - of_bool (hc_isAccount (fst b))
     in if d \<noteq> 0 then d else snd a - snd b)"

definition planIdleHibernation :: "idle_hibernation_input \<Rightarrow> hibernation_candidate list" where
  "planIdleHibernation i =
     map fst (js_sort candidate_cmp
       (filter (\<lambda>c. hc_idleMs (fst c) \<ge> ih_idleWindowMs i)
         (map (\<lambda>s. (\<lparr>hc_sessionId = ss_sessionId s, hc_idleMs = idle_ms i s,
                      hc_isAccount = ss_isAccountSession s\<rparr>, ss_slot s))
           (filter (\<lambda>s. ss_sessionId s \<notin> set (ih_alreadyHibernated i))
             (filter (\<lambda>s. \<not> ss_isAccountSession s \<or> ih_allowAccountUnderRed i) (ih_sessions i))))))"

section \<open>Lemmas\<close>

lemma set_victims: "v \<in> set (victims i) \<longleftrightarrow>
    v \<in> set (pi_sessions i) \<and> \<not> ss_isAccountSession v \<and> ss_sessionId v \<notin> set (pi_alreadyHibernated i)"
  by (auto simp: victims_def)

lemma victims_sorted: "sorted_wrt (\<lambda>a b. ss_slot a \<le> ss_slot b) (victims i)"
proof -
  have "sorted_wrt (\<lambda>a b. ss_slot a - ss_slot b \<le> 0) (victims i)"
    unfolding victims_def by (rule sorted_js_sort) auto
  then show ?thesis by simp
qed

lemma victims_distinct: "distinct (map ss_sessionId (pi_sessions i)) \<Longrightarrow> distinct (map ss_sessionId (victims i))"
  by (simp add: victims_def distinct_map_filter)

lemma plan_action_target:
  "st \<in> set (plan_action i a) \<Longrightarrow> sp_sessionId st = Some sid \<Longrightarrow>
   \<exists>v\<in>set (victims i). sid = ss_sessionId v"
  by (cases a) (auto simp: plan_action_def split: if_splits)

lemma find_by_id:
  "distinct (map ss_sessionId ss) \<Longrightarrow> s \<in> set ss \<Longrightarrow> find (\<lambda>x. ss_sessionId x = ss_sessionId s) ss = Some s"
  by (induction ss) (auto simp: image_iff)

text \<open>The defensive filter never removes anything when session ids are unique.\<close>

lemma planShed_unfiltered:
  assumes "distinct (map ss_sessionId (pi_sessions i))" "pi_pressure i \<noteq> NormalState"
  shows "planShed i = concat (map (plan_action i) SACRIFICE_ORDER)"
proof -
  have "(case sp_sessionId step of None \<Rightarrow> True
        | Some sid \<Rightarrow> (case find (\<lambda>s. ss_sessionId s = sid) (pi_sessions i) of
             None \<Rightarrow> True | Some target \<Rightarrow> \<not> ss_isAccountSession target))"
    if mem: "step \<in> set (concat (map (plan_action i) SACRIFICE_ORDER))" for step
  proof (cases "sp_sessionId step")
    case (Some sid)
    obtain a where a: "step \<in> set (plan_action i a)" using mem by (auto simp only: set_concat set_map UN_iff image_iff)
    obtain v where v: "v \<in> set (victims i)" "sid = ss_sessionId v"
      using plan_action_target [OF a Some] by blast
    then show ?thesis using find_by_id [OF assms(1)] Some by (auto simp: set_victims)
  qed simp
  then show ?thesis using assms(2) by (simp add: planShed_def filter_id_conv)
qed

lemma planShed_target:
  "st \<in> set (planShed i) \<Longrightarrow> sp_sessionId st = Some sid \<Longrightarrow>
   \<exists>v\<in>set (pi_sessions i). sid = ss_sessionId v \<and> \<not> ss_isAccountSession v
     \<and> sid \<notin> set (pi_alreadyHibernated i)"
  using plan_action_target [of st i _ sid] by (fastforce simp: planShed_def set_victims split: if_splits)

lemma planIdle_candidate:
  "c \<in> set (planIdleHibernation i) \<longleftrightarrow>
   (\<exists>s\<in>set (ih_sessions i). c = \<lparr>hc_sessionId = ss_sessionId s, hc_idleMs = idle_ms i s,
        hc_isAccount = ss_isAccountSession s\<rparr>
      \<and> (ss_isAccountSession s \<longrightarrow> ih_allowAccountUnderRed i)
      \<and> ss_sessionId s \<notin> set (ih_alreadyHibernated i) \<and> ih_idleWindowMs i \<le> idle_ms i s)"
  by (auto simp: planIdleHibernation_def image_iff)

lemma candidate_cmp_total: "candidate_cmp a b \<le> 0 \<or> candidate_cmp b a \<le> 0"
  by (auto simp: candidate_cmp_def Let_def)

lemma candidate_cmp_trans: "candidate_cmp a b \<le> 0 \<Longrightarrow> candidate_cmp b c \<le> 0 \<Longrightarrow> candidate_cmp a c \<le> 0"
  by (auto simp: candidate_cmp_def Let_def of_bool_def split: if_splits)

lemma candidate_cmp_account: "candidate_cmp x y \<le> 0 \<Longrightarrow> hc_isAccount (fst x) \<Longrightarrow> hc_isAccount (fst y)"
  by (auto simp: candidate_cmp_def Let_def split: if_splits)

lemma planIdle_accounts_last:
  "sorted_wrt (\<lambda>a b. hc_isAccount a \<longrightarrow> hc_isAccount b) (planIdleHibernation i)"
proof -
  have "sorted_wrt (\<lambda>x y. hc_isAccount (fst x) \<longrightarrow> hc_isAccount (fst y)) (js_sort candidate_cmp xs)" for xs
  proof (rule sorted_wrt_mono_rel)
    show "sorted_wrt (\<lambda>x y. candidate_cmp x y \<le> 0) (js_sort candidate_cmp xs)"
      by (rule sorted_js_sort [OF candidate_cmp_total candidate_cmp_trans])
  qed (blast dest: candidate_cmp_account)
  then show ?thesis by (simp add: planIdleHibernation_def sorted_wrt_map)
qed

section \<open>Properties\<close>


abbreviation agent :: "string \<Rightarrow> int \<Rightarrow> bool \<Rightarrow> supervised_session" where
  "agent sid n acc \<equiv> \<lparr>ss_sessionId = sid, ss_account = (if acc then ''MAX_A'' else ''AWS_DEV''),
     ss_backend = (if acc then ''claude_code'' else ''opencode''),
     ss_watchdogClass = (if acc then ClaudeClass else OpencodeClass), ss_slot = n, ss_isAccountSession = acc\<rparr>"


end
