(* ===== verification/Governor.thy ===== *)
theory Governor
  imports Watchdog Scheduler
begin

text \<open>
  The governor of \<open>core/src/supervision/governor.ts\<close>: its closure state as a record, one definition
  per phase of \<open>tick\<close> in the order of the code, and the four public mutators. The telemetry and the
  side-effect ports are the argument \<open>tick_env\<close> of a tick: what the sampler and the probe read, and
  whether a port call succeeded. A tick is one atomic step: calls that arrive while a tick awaits a
  port are not interleaved into it.
\<close>

section \<open>State and environment\<close>

record governor_options =
  go_footprintThresholds :: "watchdog_class \<Rightarrow> footprint_thresholds"
  go_hysteresisMb :: rat
  go_pressure :: pressure_config
  go_idleWindowMs :: rat
  go_softCeiling :: "rat option"
  go_sustainedRedTicks :: nat
  go_hasRecycle :: bool
  go_hasLocalModel :: bool
  go_hasHibernate :: bool

record governor =
  gv_sessions :: "(string, supervised_session) jmap"
  gv_lastActivityMs :: "(string, rat) jmap"
  gv_hibernated :: "string list"
  gv_watchdog :: watchdog
  gv_monitor :: pressure_state
  gv_lastPressure :: pressure_state
  gv_consecutiveRedTicks :: nat

record tick_env =
  te_sampler :: "supervised_session \<Rightarrow> jsnum option"
  te_reading :: "pressure_reading option"
  te_residentBytes :: nat
  te_residentBytesAfter :: nat
  te_recycleOk :: "string \<Rightarrow> bool"
  te_hibernateOk :: "string \<Rightarrow> bool"

record shed_notice =
  sn_action :: shed_action
  sn_at :: rat
  sn_account :: "string option"
  sn_backend :: "string option"

record session_footprint =
  sf_account :: string
  sf_backend :: string
  sf_slot :: int
  sf_footprintMb :: int
  sf_band :: watchdog_band
  sf_hibernated :: bool

record resource_health =
  rh_capturedAt :: rat
  rh_fresh :: bool
  rh_pressureLevel :: jsnum
  rh_pressureState :: pressure_state
  rh_freeRamPct :: jsnum
  rh_swapUsedBytes :: jsnum
  rh_residentSessionCount :: nat
  rh_localModelResidentBytes :: "nat option"
  rh_sessions :: "session_footprint list"
  rh_notices :: "shed_notice list"

record tick_result =
  tr_snapshot :: resource_health
  tr_recycled :: "string list"
  tr_hibernated :: "string list"
  tr_shedActions :: "shed_action list"

definition new_governor :: governor where
  "new_governor = \<lparr>gv_sessions = [], gv_lastActivityMs = [], gv_hibernated = [], gv_watchdog = [],
     gv_monitor = NormalState, gv_lastPressure = NormalState, gv_consecutiveRedTicks = 0\<rparr>"

section \<open>The phases of a tick\<close>

definition targetOf :: "governor \<Rightarrow> string \<Rightarrow> string option \<times> string option" where
  "targetOf g sid = (case jm_get (gv_sessions g) sid of
     None \<Rightarrow> (None, None) | Some s \<Rightarrow> (Some (ss_account s), Some (ss_backend s)))"

definition notice_for :: "governor \<Rightarrow> shed_action \<Rightarrow> rat \<Rightarrow> string \<Rightarrow> shed_notice" where
  "notice_for g a nowMs sid = \<lparr>sn_action = a, sn_at = nowMs,
     sn_account = fst (targetOf g sid), sn_backend = snd (targetOf g sid)\<rparr>"

definition plain_notice :: "shed_action \<Rightarrow> rat \<Rightarrow> shed_notice" where
  "plain_notice a nowMs = \<lparr>sn_action = a, sn_at = nowMs, sn_account = None, sn_backend = None\<rparr>"

text \<open>Phases 1 and 2: recycle every session whose band says so.\<close>

primrec recycle_pass ::
  "governor_options \<Rightarrow> tick_env \<Rightarrow> governor \<Rightarrow> rat \<Rightarrow> watchdog_verdict list \<Rightarrow> watchdog \<Rightarrow>
   watchdog \<times> string list \<times> shed_notice list" where
  "recycle_pass opts env g nowMs [] wd = (wd, [], [])"
| "recycle_pass opts env g nowMs (v # vs) wd =
    (if wv_band v \<noteq> RecycleBand \<or> \<not> go_hasRecycle opts \<or> \<not> te_recycleOk env (wv_sessionId v)
     then recycle_pass opts env g nowMs vs wd
     else (case recycle_pass opts env g nowMs vs (wd_forget wd (wv_sessionId v)) of
        (wd', rec, ns) \<Rightarrow>
          (wd', wv_sessionId v # rec, notice_for g RecycleSession nowMs (wv_sessionId v) # ns)))"

text \<open>A hibernate call with no port is a no-op that does not throw.\<close>

definition hibernate_call :: "governor_options \<Rightarrow> tick_env \<Rightarrow> string \<Rightarrow> bool" where
  "hibernate_call opts env sid = (\<not> go_hasHibernate opts \<or> te_hibernateOk env sid)"

text \<open>Phase 4: execute the shed plan.\<close>

primrec shed_pass ::
  "governor_options \<Rightarrow> tick_env \<Rightarrow> governor \<Rightarrow> rat \<Rightarrow> shed_step list \<Rightarrow> string list \<Rightarrow>
   string list \<times> string list \<times> shed_notice list" where
  "shed_pass opts env g nowMs [] hib = (hib, [], [])"
| "shed_pass opts env g nowMs (step # steps) hib =
    (case sp_action step of
       HibernateNonAccount \<Rightarrow>
         (case sp_sessionId step of
            None \<Rightarrow> shed_pass opts env g nowMs steps hib
          | Some sid \<Rightarrow>
              if hibernate_call opts env sid
              then (case shed_pass opts env g nowMs steps (js_set_add hib sid) of
                 (hib', now', ns) \<Rightarrow> (hib', sid # now', notice_for g HibernateNonAccount nowMs sid # ns))
              else shed_pass opts env g nowMs steps hib)
     | RecycleSession \<Rightarrow> shed_pass opts env g nowMs steps hib
     | a \<Rightarrow> (case shed_pass opts env g nowMs steps hib of
               (hib', now', ns) \<Rightarrow> (hib', now', plain_notice a nowMs # ns)))"

text \<open>Phase 5: idle hibernation.\<close>

primrec idle_pass ::
  "governor_options \<Rightarrow> tick_env \<Rightarrow> governor \<Rightarrow> rat \<Rightarrow> hibernation_candidate list \<Rightarrow> string list \<Rightarrow>
   string list \<times> string list \<times> shed_notice list" where
  "idle_pass opts env g nowMs [] hib = (hib, [], [])"
| "idle_pass opts env g nowMs (c # cs) hib =
    (if hibernate_call opts env (hc_sessionId c)
     then (case idle_pass opts env g nowMs cs (js_set_add hib (hc_sessionId c)) of
        (hib', now', ns) \<Rightarrow> (hib', hc_sessionId c # now',
           (if hc_isAccount c then ns else notice_for g HibernateNonAccount nowMs (hc_sessionId c) # ns)))
     else idle_pass opts env g nowMs cs hib)"

definition allow_account_under_red :: "governor_options \<Rightarrow> pressure_state \<Rightarrow> nat \<Rightarrow> bool" where
  "allow_account_under_red opts p redTicks \<longleftrightarrow>
     go_sustainedRedTicks opts > 0 \<and> p = RedState \<and> redTicks \<ge> go_sustainedRedTicks opts \<and> go_hasHibernate opts"

text \<open>\<open>Math.round\<close> rounds half up.\<close>

definition math_round :: "rat \<Rightarrow> int" where
  "math_round q = \<lfloor>q + 1 / 2\<rfloor>"

text \<open>Phase 6: the snapshot. \<open>bandById\<close> keeps the last verdict of an id.\<close>

definition footprint_row :: "watchdog_verdict list \<Rightarrow> string list \<Rightarrow> supervised_session \<Rightarrow> session_footprint" where
  "footprint_row verdicts hib s =
    (let v = find (\<lambda>v. wv_sessionId v = ss_sessionId s) (rev verdicts)
     in \<lparr>sf_account = ss_account s, sf_backend = ss_backend s, sf_slot = ss_slot s,
         sf_footprintMb = math_round (case v of None \<Rightarrow> 0
            | Some w \<Rightarrow> (case wv_footprintMb w of None \<Rightarrow> 0 | Some q \<Rightarrow> q)),
         sf_band = (case v of None \<Rightarrow> OkBand | Some w \<Rightarrow> wv_band w),
         sf_hibernated = (ss_sessionId s \<in> set hib)\<rparr>)"

definition snapshot ::
  "governor_options \<Rightarrow> tick_env \<Rightarrow> rat \<Rightarrow> pressure_state \<Rightarrow> supervised_session list \<Rightarrow> watchdog_verdict list \<Rightarrow>
   string list \<Rightarrow> shed_notice list \<Rightarrow> resource_health" where
  "snapshot opts env nowMs p live verdicts hib notices =
    (let r = te_reading env in
     \<lparr>rh_capturedAt = nowMs, rh_fresh = (r \<noteq> None),
      rh_pressureLevel = (case r of None \<Rightarrow> num 0 | Some x \<Rightarrow> pr_pressureLevel x),
      rh_pressureState = p,
      rh_freeRamPct = (case r of None \<Rightarrow> num 0 | Some x \<Rightarrow> pr_freeRamPct x),
      rh_swapUsedBytes = (case r of None \<Rightarrow> num 0 | Some x \<Rightarrow> pr_swapUsedBytes x),
      rh_residentSessionCount = length (filter (\<lambda>s. ss_sessionId s \<notin> set hib) live),
      rh_localModelResidentBytes = (if go_hasLocalModel opts then Some (te_residentBytesAfter env) else None),
      rh_sessions = map (footprint_row verdicts hib) live,
      rh_notices = notices\<rparr>)"

definition gov_tick :: "governor_options \<Rightarrow> governor \<Rightarrow> rat \<Rightarrow> tick_env \<Rightarrow> governor \<times> tick_result" where
  "gov_tick opts g nowMs env =
    (let live = jm_values (gv_sessions g);
         (wd1, verdicts) = wd_evaluate (go_footprintThresholds opts) (go_hysteresisMb opts)
            (te_sampler env) live nowMs (gv_watchdog g);
         (wd2, recycled, n1) = recycle_pass opts env g nowMs verdicts wd1;
         p = pm_evaluate (go_pressure opts) (gv_monitor g) (te_reading env);
         redTicks = (if p = RedState then gv_consecutiveRedTicks g + 1 else 0);
         plan = planShed \<lparr>pi_pressure = p, pi_sessions = live,
            pi_localModelResident = (go_hasLocalModel opts \<and> te_residentBytes env > 0),
            pi_alreadyHibernated = gv_hibernated g\<rparr>;
         (hib1, now1, n2) = shed_pass opts env g nowMs plan (gv_hibernated g);
         candidates = planIdleHibernation \<lparr>ih_sessions = live, ih_lastActivityMs = gv_lastActivityMs g,
            ih_nowMs = nowMs, ih_alreadyHibernated = hib1, ih_idleWindowMs = go_idleWindowMs opts,
            ih_allowAccountUnderRed = allow_account_under_red opts p redTicks\<rparr>;
         (hib2, now2, n3) = idle_pass opts env g nowMs candidates hib1
     in (g\<lparr>gv_watchdog := wd2, gv_monitor := p, gv_lastPressure := p, gv_consecutiveRedTicks := redTicks,
            gv_hibernated := hib2\<rparr>,
         \<lparr>tr_snapshot = snapshot opts env nowMs p live verdicts hib2 (n1 @ n2 @ n3),
          tr_recycled = recycled, tr_hibernated = now1 @ now2, tr_shedActions = map sp_action plan\<rparr>))"

section \<open>The other entry points\<close>

definition gov_register :: "governor \<Rightarrow> supervised_session \<Rightarrow> governor" where
  "gov_register g s = g\<lparr>gv_sessions := jm_set (gv_sessions g) (ss_sessionId s) s\<rparr>"

definition gov_deregister :: "governor \<Rightarrow> string \<Rightarrow> governor" where
  "gov_deregister g sid = g\<lparr>gv_sessions := jm_delete (gv_sessions g) sid,
     gv_lastActivityMs := jm_delete (gv_lastActivityMs g) sid,
     gv_hibernated := js_set_delete (gv_hibernated g) sid,
     gv_watchdog := wd_forget (gv_watchdog g) sid\<rparr>"

definition gov_noteActivity :: "governor \<Rightarrow> string \<Rightarrow> rat \<Rightarrow> governor" where
  "gov_noteActivity g sid atMs = g\<lparr>gv_lastActivityMs := jm_set (gv_lastActivityMs g) sid atMs,
     gv_hibernated := js_set_delete (gv_hibernated g) sid\<rparr>"

definition admitSpawnNow :: "governor_options \<Rightarrow> governor \<Rightarrow> bool \<Rightarrow> spawn_admission" where
  "admitSpawnNow opts g isAccountSpawn = admitSpawn \<lparr>sa_pressure = gv_lastPressure g,
     sa_isAccountSpawn = isAccountSpawn,
     sa_residentAccountCount = Some (length (filter (\<lambda>s. ss_isAccountSession s \<and> ss_sessionId s \<notin> set (gv_hibernated g))
        (jm_values (gv_sessions g)))),
     sa_residentAccountSoftCeiling = go_softCeiling opts\<rparr>"

datatype gov_op = Register supervised_session | Deregister string | NoteActivity string rat | Tick rat tick_env

text \<open>A step yields the result of the tick, if it was one.\<close>

definition gov_step :: "governor_options \<Rightarrow> governor \<Rightarrow> gov_op \<Rightarrow> governor \<times> tick_result list" where
  "gov_step opts g op = (case op of
     Register s \<Rightarrow> (gov_register g s, [])
   | Deregister sid \<Rightarrow> (gov_deregister g sid, [])
   | NoteActivity sid atMs \<Rightarrow> (gov_noteActivity g sid atMs, [])
   | Tick nowMs env \<Rightarrow> (case gov_tick opts g nowMs env of (g', r) \<Rightarrow> (g', [r])))"

primrec gov_run :: "governor_options \<Rightarrow> governor \<Rightarrow> gov_op list \<Rightarrow> governor \<times> tick_result list" where
  "gov_run opts g [] = (g, [])"
| "gov_run opts g (op # ops) =
    (case gov_step opts g op of (g1, r1) \<Rightarrow> (case gov_run opts g1 ops of (g2, r2) \<Rightarrow> (g2, r1 @ r2)))"

text \<open>The composition root registers an id once; a repeated registration keeps its account flag.\<close>

definition consistent_op :: "governor \<Rightarrow> gov_op \<Rightarrow> bool" where
  "consistent_op g op = (case op of
     Register s \<Rightarrow> (case jm_get (gv_sessions g) (ss_sessionId s) of
        None \<Rightarrow> True | Some s' \<Rightarrow> ss_isAccountSession s' = ss_isAccountSession s)
   | _ \<Rightarrow> True)"

primrec consistent_run :: "governor_options \<Rightarrow> governor \<Rightarrow> gov_op list \<Rightarrow> bool" where
  "consistent_run opts g [] = True"
| "consistent_run opts g (op # ops) = (consistent_op g op \<and> consistent_run opts (fst (gov_step opts g op)) ops)"

section \<open>Invariants\<close>

definition registry_ok :: "governor \<Rightarrow> bool" where
  "registry_ok g \<longleftrightarrow> jm_ok (gv_sessions g) \<and> (\<forall>(k, s)\<in>set (gv_sessions g). ss_sessionId s = k)
     \<and> set (gv_hibernated g) \<subseteq> fst ` set (gv_sessions g) \<and> gv_monitor g = gv_lastPressure g"

definition registered :: "governor \<Rightarrow> string \<Rightarrow> bool \<Rightarrow> bool" where
  "registered g sid acc \<longleftrightarrow> (\<exists>s. jm_get (gv_sessions g) sid = Some s \<and> ss_isAccountSession s = acc)"

lemma live_ids:
  assumes "registry_ok g"
  shows "distinct (map ss_sessionId (jm_values (gv_sessions g)))"
    "s \<in> set (jm_values (gv_sessions g)) \<longleftrightarrow> jm_get (gv_sessions g) (ss_sessionId s) = Some s"
proof -
  have "map ss_sessionId (jm_values (gv_sessions g)) = map fst (gv_sessions g)"
    using assms by (auto simp: registry_ok_def jm_values_def)
  then show "distinct (map ss_sessionId (jm_values (gv_sessions g)))"
    using assms by (simp add: registry_ok_def jm_ok_def)
  show "s \<in> set (jm_values (gv_sessions g)) \<longleftrightarrow> jm_get (gv_sessions g) (ss_sessionId s) = Some s"
  proof
    assume "s \<in> set (jm_values (gv_sessions g))"
    then obtain k where "(k, s) \<in> set (gv_sessions g)" by (auto simp: jm_values_def)
    then show "jm_get (gv_sessions g) (ss_sessionId s) = Some s"
      using assms in_set_jm_get by (fastforce simp: registry_ok_def)
  next
    assume "jm_get (gv_sessions g) (ss_sessionId s) = Some s"
    then have "(ss_sessionId s, s) \<in> set (gv_sessions g)" by (rule jm_get_in_set)
    then have "snd (ss_sessionId s, s) \<in> snd ` set (gv_sessions g)" by (rule imageI)
    then show "s \<in> set (jm_values (gv_sessions g))" by (simp add: jm_values_def)
  qed
qed

lemma shed_pass_spec:
  "shed_pass opts env g nowMs plan hib = (hib', now', ns) \<Longrightarrow>
   set hib' = set hib \<union> set now' \<and>
   (\<forall>sid\<in>set now'. hibernate_call opts env sid \<and> (\<exists>st\<in>set plan. sp_sessionId st = Some sid)) \<and>
   (\<forall>n\<in>set ns. n = plain_notice (sn_action n) nowMs \<or> (\<exists>sid\<in>set now'. n = notice_for g HibernateNonAccount nowMs sid))"
proof (induction plan arbitrary: hib hib' now' ns)
  case (Cons st plan)
  show ?case
  proof (cases "sp_action st = HibernateNonAccount")
    case True
    then show ?thesis using Cons.prems
      by (auto split: option.splits if_splits prod.splits dest!: Cons.IH) blast
  next
    case False
    then show ?thesis using Cons.prems
      by (cases "sp_action st") (auto simp: plain_notice_def split: prod.splits dest!: Cons.IH)
  qed
qed simp

lemma idle_pass_spec:
  "idle_pass opts env g nowMs cs hib = (hib', now', ns) \<Longrightarrow>
   set hib' = set hib \<union> set now' \<and>
   (\<forall>sid\<in>set now'. hibernate_call opts env sid \<and> (\<exists>c\<in>set cs. hc_sessionId c = sid)) \<and>
   (\<forall>n\<in>set ns. \<exists>c\<in>set cs. \<not> hc_isAccount c \<and> n = notice_for g HibernateNonAccount nowMs (hc_sessionId c))"
proof (induction cs arbitrary: hib hib' now' ns)
  case (Cons c cs)
  then show ?case by (fastforce split: if_splits prod.splits)
qed simp

lemma recycle_pass_spec:
  "recycle_pass opts env g nowMs vs wd = (wd', rec, ns) \<Longrightarrow>
   (\<forall>sid\<in>set rec. \<exists>v\<in>set vs. wv_sessionId v = sid \<and> wv_band v = RecycleBand) \<and>
   (\<forall>n\<in>set ns. sn_action n = RecycleSession)"
proof (induction vs arbitrary: wd wd' rec ns)
  case (Cons v vs)
  then show ?case by (fastforce simp: notice_for_def split: if_splits prod.splits)
qed simp

definition tick_pressure :: "governor_options \<Rightarrow> governor \<Rightarrow> tick_env \<Rightarrow> pressure_state" where
  "tick_pressure opts g env = pm_evaluate (go_pressure opts) (gv_monitor g) (te_reading env)"

definition tick_red :: "governor_options \<Rightarrow> governor \<Rightarrow> tick_env \<Rightarrow> nat" where
  "tick_red opts g env = (if tick_pressure opts g env = RedState then gv_consecutiveRedTicks g + 1 else 0)"

definition idle_for :: "governor \<Rightarrow> rat \<Rightarrow> string \<Rightarrow> rat" where
  "idle_for g nowMs sid = (case jm_get (gv_lastActivityMs g) sid of None \<Rightarrow> 0 | Some la \<Rightarrow> max 0 (nowMs - la))"

text \<open>What one tick may hibernate, and what it may announce.\<close>

definition may_hibernate :: "governor_options \<Rightarrow> governor \<Rightarrow> rat \<Rightarrow> tick_env \<Rightarrow> string \<Rightarrow> bool" where
  "may_hibernate opts g nowMs env sid \<longleftrightarrow> hibernate_call opts env sid \<and>
     (registered g sid False \<or>
      registered g sid True \<and> allow_account_under_red opts (tick_pressure opts g env) (tick_red opts g env)
        \<and> go_idleWindowMs opts \<le> idle_for g nowMs sid)"

definition fair_notice :: "governor \<Rightarrow> rat \<Rightarrow> shed_notice \<Rightarrow> bool" where
  "fair_notice g nowMs n \<longleftrightarrow> sn_action n = RecycleSession \<or> n = plain_notice (sn_action n) nowMs
     \<or> (\<exists>sid. registered g sid False \<and> n = notice_for g HibernateNonAccount nowMs sid)"

definition shed_input :: "governor_options \<Rightarrow> governor \<Rightarrow> tick_env \<Rightarrow> shed_plan_input" where
  "shed_input opts g env = \<lparr>pi_pressure = tick_pressure opts g env, pi_sessions = jm_values (gv_sessions g),
      pi_localModelResident = (go_hasLocalModel opts \<and> te_residentBytes env > 0),
      pi_alreadyHibernated = gv_hibernated g\<rparr>"

definition idle_input :: "governor_options \<Rightarrow> governor \<Rightarrow> rat \<Rightarrow> tick_env \<Rightarrow> string list \<Rightarrow> idle_hibernation_input" where
  "idle_input opts g nowMs env hib = \<lparr>ih_sessions = jm_values (gv_sessions g), ih_lastActivityMs = gv_lastActivityMs g,
      ih_nowMs = nowMs, ih_alreadyHibernated = hib, ih_idleWindowMs = go_idleWindowMs opts,
      ih_allowAccountUnderRed = allow_account_under_red opts (tick_pressure opts g env) (tick_red opts g env)\<rparr>"

lemma gov_tick_eq:
  assumes "wd_evaluate (go_footprintThresholds opts) (go_hysteresisMb opts)
      (te_sampler env) (jm_values (gv_sessions g)) nowMs (gv_watchdog g) = (wd1, vs)"
    and "recycle_pass opts env g nowMs vs wd1 = (wd2, rec, n1)"
    and "shed_pass opts env g nowMs (planShed (shed_input opts g env)) (gv_hibernated g) = (hib1, now1, n2)"
    and "idle_pass opts env g nowMs (planIdleHibernation (idle_input opts g nowMs env hib1)) hib1 = (hib2, now2, n3)"
  shows "gov_tick opts g nowMs env =
    (g\<lparr>gv_watchdog := wd2, gv_monitor := tick_pressure opts g env, gv_lastPressure := tick_pressure opts g env,
        gv_consecutiveRedTicks := tick_red opts g env, gv_hibernated := hib2\<rparr>,
     \<lparr>tr_snapshot = snapshot opts env nowMs (tick_pressure opts g env) (jm_values (gv_sessions g)) vs hib2 (n1 @ n2 @ n3),
      tr_recycled = rec, tr_hibernated = now1 @ now2,
      tr_shedActions = map sp_action (planShed (shed_input opts g env))\<rparr>)"
proof -
  have red: "(if tick_pressure opts g env = RedState then gv_consecutiveRedTicks g + 1 else 0) = tick_red opts g env"
    by (simp add: tick_red_def)
  show ?thesis
    unfolding gov_tick_def tick_pressure_def [symmetric] Let_def assms(1) prod.case red
      shed_input_def [symmetric] assms(2,3) idle_input_def [symmetric] assms(4) ..
qed

lemma tick_facts:
  assumes ok: "registry_ok g" and tick: "gov_tick opts g nowMs env = (g', r)"
  shows "gv_sessions g' = gv_sessions g \<and> gv_lastActivityMs g' = gv_lastActivityMs g
    \<and> gv_monitor g' = tick_pressure opts g env \<and> gv_lastPressure g' = tick_pressure opts g env
    \<and> gv_consecutiveRedTicks g' = tick_red opts g env
    \<and> set (gv_hibernated g') = set (gv_hibernated g) \<union> set (tr_hibernated r)
    \<and> (\<forall>sid\<in>set (tr_hibernated r). may_hibernate opts g nowMs env sid)
    \<and> (\<forall>n\<in>set (rh_notices (tr_snapshot r)). fair_notice g nowMs n)
    \<and> rh_pressureState (tr_snapshot r) = tick_pressure opts g env
    \<and> rh_residentSessionCount (tr_snapshot r) =
        length (filter (\<lambda>s. ss_sessionId s \<notin> set (gv_hibernated g')) (jm_values (gv_sessions g)))
    \<and> (\<exists>verdicts. rh_sessions (tr_snapshot r) = map (footprint_row verdicts (gv_hibernated g')) (jm_values (gv_sessions g)))"
proof -
  define live where "live = jm_values (gv_sessions g)"
  define p where "p = tick_pressure opts g env"
  define red where "red = tick_red opts g env"
  define i where "i = shed_input opts g env"
  obtain wd1 vs where e: "wd_evaluate (go_footprintThresholds opts) (go_hysteresisMb opts)
      (te_sampler env) (jm_values (gv_sessions g)) nowMs (gv_watchdog g) = (wd1, vs)"
    by (meson surj_pair)
  obtain wd2 rec n1 where rp: "recycle_pass opts env g nowMs vs wd1 = (wd2, rec, n1)"
    by (meson prod_cases3)
  obtain hib1 now1 n2 where sp: "shed_pass opts env g nowMs (planShed i) (gv_hibernated g) = (hib1, now1, n2)"
    by (meson prod_cases3)
  define h where "h = idle_input opts g nowMs env hib1"
  obtain hib2 now2 n3 where ip: "idle_pass opts env g nowMs (planIdleHibernation h) hib1 = (hib2, now2, n3)"
    by (meson prod_cases3)
  have res: "g' = g\<lparr>gv_watchdog := wd2, gv_monitor := p, gv_lastPressure := p, gv_consecutiveRedTicks := red,
            gv_hibernated := hib2\<rparr>"
    "r = \<lparr>tr_snapshot = snapshot opts env nowMs p live vs hib2 (n1 @ n2 @ n3),
          tr_recycled = rec, tr_hibernated = now1 @ now2, tr_shedActions = map sp_action (planShed i)\<rparr>"
    using tick gov_tick_eq [OF e rp sp [unfolded i_def] ip [unfolded h_def]]
    unfolding live_def p_def red_def i_def by simp_all
  have reg: "registered g (ss_sessionId s) (ss_isAccountSession s)" if "s \<in> set live" for s
    using live_ids(2) [OF ok, of s] that by (simp add: live_def registered_def)
  have shed: "may_hibernate opts g nowMs env sid \<and> registered g sid False" if m1: "sid \<in> set now1" for sid
  proof -
    obtain st where st: "st \<in> set (planShed i)" "sp_sessionId st = Some sid" "hibernate_call opts env sid"
      using shed_pass_spec [OF sp] m1 by blast
    obtain v where v: "v \<in> set (pi_sessions i)" "sid = ss_sessionId v" "\<not> ss_isAccountSession v"
      using planShed_target [OF st(1,2)] by blast
    have "v \<in> set live" using v(1) by (simp add: i_def shed_input_def live_def)
    then have "registered g sid False" using reg [of v] v(2,3) by simp
    then show ?thesis using st(3) unfolding may_hibernate_def by blast
  qed
  have cand: "c = \<lparr>hc_sessionId = ss_sessionId s, hc_idleMs = idle_ms h s, hc_isAccount = ss_isAccountSession s\<rparr> \<Longrightarrow>
      s \<in> set live \<Longrightarrow> registered g (hc_sessionId c) (hc_isAccount c)" for c s
    using reg [of s] by simp
  have idle: "may_hibernate opts g nowMs env sid" if s: "sid \<in> set now2" for sid
  proof -
    obtain c where c: "c \<in> set (planIdleHibernation h)" "hc_sessionId c = sid" "hibernate_call opts env sid"
      using idle_pass_spec [OF ip] s by blast
    then obtain s where "s \<in> set live" "sid = ss_sessionId s"
      "ss_isAccountSession s \<longrightarrow> allow_account_under_red opts p red" "go_idleWindowMs opts \<le> idle_ms h s"
      unfolding planIdle_candidate by (auto simp: h_def idle_input_def live_def p_def red_def)
    moreover have "idle_ms h s = idle_for g nowMs (ss_sessionId s)" by (simp add: idle_ms_def idle_for_def h_def idle_input_def split: option.split)
    ultimately show ?thesis
      using reg [of s] c(3) by (cases "ss_isAccountSession s") (auto simp: may_hibernate_def p_def red_def)
  qed
  have "fair_notice g nowMs n" if "n \<in> set (n1 @ n2 @ n3)" for n
  proof -
    from that consider "n \<in> set n1" | "n \<in> set n2" | "n \<in> set n3" by auto
    then show ?thesis
    proof cases
      case 1
      then show ?thesis using recycle_pass_spec [OF rp] by (simp add: fair_notice_def)
    next
      case 2
      then have "n = plain_notice (sn_action n) nowMs \<or> (\<exists>sid\<in>set now1. n = notice_for g HibernateNonAccount nowMs sid)"
        using shed_pass_spec [OF sp] by blast
      then show ?thesis using shed unfolding fair_notice_def by blast
    next
      case 3
      then obtain c where c: "c \<in> set (planIdleHibernation h)" "\<not> hc_isAccount c"
        "n = notice_for g HibernateNonAccount nowMs (hc_sessionId c)"
        using idle_pass_spec [OF ip] by blast
      obtain s where "s \<in> set live" "c = \<lparr>hc_sessionId = ss_sessionId s, hc_idleMs = idle_ms h s, hc_isAccount = ss_isAccountSession s\<rparr>"
        using c(1) unfolding planIdle_candidate by (auto simp: h_def idle_input_def live_def)
      then have "registered g (hc_sessionId c) False" using cand c(2) by metis
      then show ?thesis using c(3) unfolding fair_notice_def by blast
    qed
  qed
  moreover have "set hib2 = set (gv_hibernated g) \<union> set (now1 @ now2)"
    using shed_pass_spec [OF sp] idle_pass_spec [OF ip] by auto
  moreover have "\<forall>sid\<in>set (now1 @ now2). may_hibernate opts g nowMs env sid" using shed idle by auto
  moreover have "\<exists>verdicts. map (footprint_row vs hib2) live = map (footprint_row verdicts hib2) (jm_values (gv_sessions g))"
    unfolding live_def by blast
  ultimately show ?thesis
    unfolding res p_def [symmetric] red_def [symmetric] by (simp add: snapshot_def live_def Let_def)
qed

section \<open>Histories\<close>

abbreviation pressure_of :: "tick_result \<Rightarrow> pressure_state" where
  "pressure_of r \<equiv> rh_pressureState (tr_snapshot r)"

definition red_streak :: "nat \<Rightarrow> tick_result list \<Rightarrow> bool" where
  "red_streak n rs \<longleftrightarrow> n \<le> length rs \<and> (\<forall>r\<in>set (take n (rev rs)). pressure_of r = RedState)"

definition last_red :: "tick_result list \<Rightarrow> bool" where
  "last_red rs \<longleftrightarrow> rs \<noteq> [] \<and> pressure_of (last rs) = RedState"

definition protected :: "governor_options \<Rightarrow> governor \<Rightarrow> bool" where
  "protected opts g \<longleftrightarrow> (go_sustainedRedTicks opts = 0 \<or> \<not> go_hasHibernate opts) \<longrightarrow>
     (\<forall>sid\<in>set (gv_hibernated g). registered g sid False)"

definition gov_inv :: "governor_options \<Rightarrow> governor \<Rightarrow> tick_result list \<Rightarrow> bool" where
  "gov_inv opts g rs \<longleftrightarrow> registry_ok g \<and> protected opts g \<and> red_streak (gv_consecutiveRedTicks g) rs
     \<and> (gv_lastPressure g = RedState \<longleftrightarrow> last_red rs)"

lemma new_governor_inv: "gov_inv opts new_governor []"
  by (simp add: gov_inv_def registry_ok_def protected_def red_streak_def last_red_def new_governor_def)

lemma red_streak_snoc: "red_streak n rs \<Longrightarrow> pressure_of r = RedState \<Longrightarrow> red_streak (Suc n) (rs @ [r])"
  by (simp add: red_streak_def)

lemma register_inv [inv_intros]:
  assumes "gov_inv opts g rs" "consistent_op g (Register s)"
  shows "gov_inv opts (gov_register g s) rs"
proof -
  have ok: "jm_ok (gv_sessions g)" using assms(1) by (simp add: gov_inv_def registry_ok_def)
  have same: "jm_set (gv_sessions g) (ss_sessionId s) s = gv_sessions (gov_register g s)"
    by (simp add: gov_register_def)
  have keys: "\<forall>(k, x)\<in>set (gv_sessions (gov_register g s)). ss_sessionId x = k"
  proof (clarify)
    fix k x assume m: "(k, x) \<in> set (gv_sessions (gov_register g s))"
    have "jm_ok (gv_sessions (gov_register g s))" using ok by (simp add: gov_register_def)
    from in_set_jm_get [OF this m] have "jm_get (jm_set (gv_sessions g) (ss_sessionId s) s) k = Some x"
      by (simp add: gov_register_def)
    then show "ss_sessionId x = k"
      using assms(1) jm_get_in_set [of "gv_sessions g" k x]
      by (auto simp: jm_get_set gov_inv_def registry_ok_def split: if_splits)
  qed
  have reg: "registered (gov_register g s) sid False" if "registered g sid False" for sid
    using that assms(2) by (auto simp: registered_def gov_register_def jm_get_set consistent_op_def)
  have "registry_ok (gov_register g s)"
    using assms(1) keys ok unfolding gov_inv_def registry_ok_def by (auto simp: gov_register_def)
  then show ?thesis using assms(1) reg unfolding gov_inv_def protected_def by (simp add: gov_register_def)
qed

lemma shrink_inv:
  assumes "gov_inv opts g rs" "registry_ok g'" "set (gv_hibernated g') \<subseteq> set (gv_hibernated g)"
    and "\<And>sid. sid \<in> set (gv_hibernated g') \<Longrightarrow> jm_get (gv_sessions g') sid = jm_get (gv_sessions g) sid"
    and "gv_consecutiveRedTicks g' = gv_consecutiveRedTicks g" "gv_lastPressure g' = gv_lastPressure g"
  shows "gov_inv opts g' rs"
  using assms unfolding gov_inv_def protected_def registered_def by auto

lemma deregister_inv [inv_intros]: "gov_inv opts g rs \<Longrightarrow> gov_inv opts (gov_deregister g sid) rs"
  by (rule shrink_inv)
     (auto simp: gov_inv_def registry_ok_def gov_deregister_def jm_get_delete
       dest!: jm_delete_subset [THEN subsetD])

lemma noteActivity_inv [inv_intros]: "gov_inv opts g rs \<Longrightarrow> gov_inv opts (gov_noteActivity g sid atMs) rs"
  by (rule shrink_inv) (auto simp: gov_inv_def registry_ok_def gov_noteActivity_def)

lemma tick_inv:
  assumes inv: "gov_inv opts g rs" and tick: "gov_tick opts g nowMs env = (g', r)"
  shows "gov_inv opts g' (rs @ [r])"
proof -
  have ok: "registry_ok g" using inv by (simp add: gov_inv_def)
  note f = tick_facts [OF ok tick]
  have red: "gv_consecutiveRedTicks g' = tick_red opts g env" "pressure_of r = tick_pressure opts g env"
    "gv_lastPressure g' = tick_pressure opts g env" "gv_monitor g' = tick_pressure opts g env" using f by simp_all
  have hib: "set (gv_hibernated g') = set (gv_hibernated g) \<union> set (tr_hibernated r)"
    "\<forall>sid\<in>set (tr_hibernated r). may_hibernate opts g nowMs env sid" "gv_sessions g' = gv_sessions g"
    using f by simp_all
  have sub: "set (tr_hibernated r) \<subseteq> fst ` set (gv_sessions g)"
  proof
    fix sid assume "sid \<in> set (tr_hibernated r)"
    then have "jm_get (gv_sessions g) sid \<noteq> None" using hib(2) by (auto simp: may_hibernate_def registered_def)
    then show "sid \<in> fst ` set (gv_sessions g)" using jm_get_None_iff by metis
  qed
  have "registry_ok g'" using ok hib(1,3) sub red unfolding registry_ok_def by auto
  moreover have "protected opts g'"
    using inv hib unfolding gov_inv_def protected_def may_hibernate_def allow_account_under_red_def registered_def
    by auto
  moreover have "red_streak (gv_consecutiveRedTicks g') (rs @ [r])"
    using red inv red_streak_snoc [of "gv_consecutiveRedTicks g" rs r]
    by (auto simp: tick_red_def gov_inv_def red_streak_def)
  moreover have "gv_lastPressure g' = RedState \<longleftrightarrow> last_red (rs @ [r])" using red by (simp add: last_red_def)
  ultimately show ?thesis by (simp add: gov_inv_def)
qed

lemma step_inv:
  assumes "gov_inv opts g rs" "consistent_op g op" "gov_step opts g op = (g', r)"
  shows "gov_inv opts g' (rs @ r)"
proof (cases op)
  case (Tick nowMs env)
  then obtain x where "gov_tick opts g nowMs env = (g', x)" "r = [x]"
    using assms(3) by (auto simp: gov_step_def split: prod.splits)
  then show ?thesis using tick_inv assms(1) by blast
qed (use assms in \<open>auto simp: gov_step_def intro: inv_intros\<close>)

lemma run_inv:
  "gov_inv opts g rs \<Longrightarrow> consistent_run opts g ops \<Longrightarrow> gov_run opts g ops = (g', rs') \<Longrightarrow> gov_inv opts g' (rs @ rs')"
proof (induction ops arbitrary: g rs rs')
  case (Cons op ops)
  obtain g1 r1 where st: "gov_step opts g op = (g1, r1)" by (cases "gov_step opts g op")
  obtain g2 r2 where rn: "gov_run opts g1 ops = (g2, r2)" by (cases "gov_run opts g1 ops")
  have "g2 = g'" "rs' = r1 @ r2" using Cons.prems(3) st rn by simp_all
  then show ?case
    using Cons.IH [of g1 "rs @ r1" r2] step_inv [OF Cons.prems(1) _ st] Cons.prems(2) st rn by simp
qed simp

lemmas fresh_gov = run_inv [OF new_governor_inv, simplified]

lemmas governor_eval = gov_step_def gov_register_def gov_noteActivity_def gov_tick_def new_governor_def
  consistent_op_def wd_evaluate.simps wd_step_def usable_reading_def fresh_state_def applyHysteresis_def
  rawBand_def pm_evaluate_def withHysteresis_def rawState_def red_line_def amber_line_def planShed_def
  plan_action_def eligible_actions_def SACRIFICE_ORDER_def victims_def js_sort_def planIdleHibernation_def
  idle_ms_def candidate_cmp_def hibernate_call_def allow_account_under_red_def js_set_add_def js_set_delete_def
  jm_get_def jm_values_def snapshot_def footprint_row_def default_pressure_config_def
  DEFAULT_PRESSURE_THRESHOLDS_def num_def Let_def

text \<open>A red reading, an obliging environment and a configuration for the concrete instances.\<close>

abbreviation red_env :: tick_env where
  "red_env \<equiv> \<lparr>te_sampler = (\<lambda>_. Some (Fin 100)), te_reading = Some \<lparr>pr_pressureLevel = Fin 4,
     pr_freeRamPct = Fin 50, pr_swapUsedBytes = Fin 0, pr_pageoutRate = Fin 0\<rparr>, te_residentBytes = 0,
     te_residentBytesAfter = 0, te_recycleOk = (\<lambda>_. True), te_hibernateOk = (\<lambda>_. True)\<rparr>"

abbreviation demo_opts :: "nat \<Rightarrow> governor_options" where
  "demo_opts n \<equiv> \<lparr>go_footprintThresholds = DEFAULT_FOOTPRINT_THRESHOLDS, go_hysteresisMb = 128,
     go_pressure = default_pressure_config, go_idleWindowMs = 1000, go_softCeiling = None,
     go_sustainedRedTicks = n, go_hasRecycle = True, go_hasLocalModel = False, go_hasHibernate = True\<rparr>"

abbreviation demo_ops :: "gov_op list" where
  "demo_ops \<equiv> [Register (agent ''a'' 0 True), Register (agent ''b'' 1 False), NoteActivity ''a'' 0]"

abbreviation demo_gov :: governor where
  "demo_gov \<equiv> \<lparr>gv_sessions = [(''a'', agent ''a'' 0 True), (''b'', agent ''b'' 1 False)],
     gv_lastActivityMs = [(''a'', 0)], gv_hibernated = [], gv_watchdog = [], gv_monitor = NormalState,
     gv_lastPressure = NormalState, gv_consecutiveRedTicks = 0\<rparr>"

lemma demo_run: "consistent_run (demo_opts n) new_governor demo_ops"
  "gov_run (demo_opts n) new_governor demo_ops = (demo_gov, [])"
  by (simp_all add: gov_step_def gov_register_def gov_noteActivity_def new_governor_def consistent_op_def
      js_set_delete_def jm_get_def)

section \<open>Properties\<close>

text \<open>Claim C5: account sessions are protected. In every history of registrations, activity,
  deregistrations and ticks, whatever the sampler, the probe and the ports do: when account
  hibernation is not enabled (or there is no port for it) only registered non-account sessions are
  ever hibernated; and no tick announces a shed or a hibernation of an account session.\<close>

theorem governor_protects_accounts:
  assumes "consistent_run opts new_governor ops" "gov_run opts new_governor ops = (g, rs)"
  shows "((go_sustainedRedTicks opts = 0 \<or> \<not> go_hasHibernate opts) \<longrightarrow>
       (\<forall>sid\<in>set (gv_hibernated g). registered g sid False))
    \<and> (\<forall>nowMs env g' r. gov_tick opts g nowMs env = (g', r) \<longrightarrow>
         (\<forall>n\<in>set (rh_notices (tr_snapshot r)). sn_action n = RecycleSession \<or> sn_account n = None
            \<or> (\<exists>s. s \<in> set (jm_values (gv_sessions g)) \<and> \<not> ss_isAccountSession s
                 \<and> sn_account n = Some (ss_account s) \<and> sn_backend n = Some (ss_backend s))))"
proof -
  note inv = fresh_gov [OF assms]
  have ok: "registry_ok g" using inv by (simp add: gov_inv_def)
  have "sn_action n = RecycleSession \<or> sn_account n = None
      \<or> (\<exists>s. s \<in> set (jm_values (gv_sessions g)) \<and> \<not> ss_isAccountSession s
           \<and> sn_account n = Some (ss_account s) \<and> sn_backend n = Some (ss_backend s))"
    if tk: "gov_tick opts g nowMs env = (g', r)" "n \<in> set (rh_notices (tr_snapshot r))" for nowMs env g' r n
  proof -
    consider "sn_action n = RecycleSession" | "n = plain_notice (sn_action n) nowMs"
      | sid where "registered g sid False" "n = notice_for g HibernateNonAccount nowMs sid"
      using tick_facts [OF ok tk(1)] tk(2) unfolding fair_notice_def by blast
    then show ?thesis
    proof cases
      case 2
      have "sn_account (plain_notice (sn_action n) nowMs) = None" by (simp add: plain_notice_def)
      then show ?thesis using 2 by simp
    next
      case 3
      then obtain s where s: "jm_get (gv_sessions g) sid = Some s" "\<not> ss_isAccountSession s"
        by (auto simp: registered_def)
      then have "ss_sessionId s = sid" using ok jm_get_in_set [OF s(1)] by (auto simp: registry_ok_def)
      then have "s \<in> set (jm_values (gv_sessions g))" using live_ids(2) [OF ok, of s] s(1) by simp
      then show ?thesis using 3 s by (auto simp: notice_for_def targetOf_def)
    qed simp
  qed
  then show ?thesis using inv unfolding gov_inv_def protected_def by blast
qed

theorem governor_protects_accounts_witness:
  "Some ''MAX_A'' \<notin> sn_account ` set (rh_notices (tr_snapshot (snd (gov_tick (demo_opts 0) demo_gov 5000 red_env))))"
proof
  let ?ns = "set (rh_notices (tr_snapshot (snd (gov_tick (demo_opts 0) demo_gov 5000 red_env))))"
  assume "Some ''MAX_A'' \<in> sn_account ` ?ns"
  then obtain n where n: "Some ''MAX_A'' = sn_account n" "n \<in> ?ns" by (rule imageE)
  have "\<forall>n\<in>?ns. sn_action n = RecycleSession \<or> sn_account n = None
      \<or> (\<exists>s. s \<in> set (jm_values (gv_sessions demo_gov)) \<and> \<not> ss_isAccountSession s
           \<and> sn_account n = Some (ss_account s) \<and> sn_backend n = Some (ss_backend s))"
    using governor_protects_accounts [OF demo_run, of 0] prod.collapse by metis
  then have "sn_action n = RecycleSession \<or> sn_account n = None
      \<or> (\<exists>s. s \<in> set (jm_values (gv_sessions demo_gov)) \<and> \<not> ss_isAccountSession s
           \<and> sn_account n = Some (ss_account s) \<and> sn_backend n = Some (ss_backend s))"
    using n(2) by (rule bspec)
  moreover have "\<forall>n\<in>?ns. sn_action n \<noteq> RecycleSession"
    by (simp add: governor_eval notice_for_def plain_notice_def)
  then have "sn_action n \<noteq> RecycleSession" using n(2) by (rule bspec)
  moreover have "\<forall>s\<in>set (jm_values (gv_sessions demo_gov)). \<not> ss_isAccountSession s \<longrightarrow> ss_account s \<noteq> ''MAX_A''"
    by (simp add: jm_values_def)
  ultimately show False using n(1) by (metis option.distinct(1) option.inject)
qed

text \<open>Claim C6: an account session is hibernated only as relief under sustained red. If a tick
  hibernates a registered account session, then the option is on, the hibernate port exists and
  accepted the call, the session was idle for the whole window, and the last N ticks, this one
  included, all derived red pressure, N being the configured number.\<close>

theorem account_hibernation_needs_sustained_red:
  assumes "consistent_run opts new_governor ops" "gov_run opts new_governor ops = (g, rs)"
    and "gov_tick opts g nowMs env = (g', r)" "sid \<in> set (tr_hibernated r)" "registered g sid True"
  shows "0 < go_sustainedRedTicks opts \<and> go_hasHibernate opts \<and> te_hibernateOk env sid
    \<and> go_idleWindowMs opts \<le> idle_for g nowMs sid
    \<and> go_sustainedRedTicks opts \<le> length (rs @ [r])
    \<and> (\<forall>x\<in>set (take (go_sustainedRedTicks opts) (rev (rs @ [r]))). pressure_of x = RedState)"
proof -
  note inv = fresh_gov [OF assms(1,2)]
  have ok: "registry_ok g" using inv by (simp add: gov_inv_def)
  have "\<not> registered g sid False" using assms(5) by (auto simp: registered_def)
  then have m: "hibernate_call opts env sid" "go_idleWindowMs opts \<le> idle_for g nowMs sid"
    "allow_account_under_red opts (tick_pressure opts g env) (tick_red opts g env)"
    using tick_facts [OF ok assms(3)] assms(4) unfolding may_hibernate_def by blast+
  have k: "red_streak (gv_consecutiveRedTicks g') (rs @ [r])" "gv_consecutiveRedTicks g' = tick_red opts g env"
    using tick_inv [OF inv assms(3)] tick_facts [OF ok assms(3)] by (simp_all add: gov_inv_def)
  then have "red_streak (go_sustainedRedTicks opts) (rs @ [r])"
    using m(3) set_take_subset_set_take [of "go_sustainedRedTicks opts" "tick_red opts g env" "rev (rs @ [r])"]
    unfolding red_streak_def allow_account_under_red_def by fastforce
  then show ?thesis using m unfolding red_streak_def allow_account_under_red_def hibernate_call_def by blast
qed

theorem account_hibernation_needs_sustained_red_witness:
  "\<exists>g' r. gov_tick (demo_opts 1) demo_gov 5000 red_env = (g', r) \<and> ''a'' \<in> set (tr_hibernated r)
     \<and> (\<forall>x\<in>set (take 1 (rev ([] @ [r]))). pressure_of x = RedState)"
proof -
  obtain g' r where t: "gov_tick (demo_opts 1) demo_gov 5000 red_env = (g', r)" by (meson surj_pair)
  have "''a'' \<in> set (tr_hibernated (snd (gov_tick (demo_opts 1) demo_gov 5000 red_env)))"
    by (simp add: governor_eval)
  then have h: "''a'' \<in> set (tr_hibernated r)" using t by simp
  have "registered demo_gov ''a'' True" by (simp add: registered_def jm_get_def)
  from account_hibernation_needs_sustained_red [OF demo_run t h this] t h show ?thesis by auto
qed

text \<open>Account spawns are always honoured. In every reachable state an account spawn is
  admitted (at most with an advisory), and a non-account spawn is refused exactly when the last
  tick derived red pressure.\<close>

theorem governor_admission:
  assumes "consistent_run opts new_governor ops" "gov_run opts new_governor ops = (g, rs)"
  shows "admitSpawnNow opts g True \<noteq> RefuseRedPressureNonAccount
    \<and> (admitSpawnNow opts g False = RefuseRedPressureNonAccount \<longleftrightarrow> last_red rs)"
  using fresh_gov [OF assms]
  by (auto simp: admitSpawnNow_def admitSpawn_def gov_inv_def split: option.splits)

theorem governor_admission_witness:
  "admitSpawnNow (demo_opts 0) demo_gov True \<noteq> RefuseRedPressureNonAccount
   \<and> admitSpawnNow (demo_opts 0) demo_gov False \<noteq> RefuseRedPressureNonAccount"
  using governor_admission [OF demo_run, of 0] by (simp add: last_red_def)

text \<open>The snapshot accounts for every session. A tick from any reachable state reports one
  row per registered session in registration order, marks as hibernated exactly those in the
  hibernated set after the tick, and counts the others as resident.\<close>

theorem tick_snapshot_consistent:
  assumes "consistent_run opts new_governor ops" "gov_run opts new_governor ops = (g, rs)"
    and "gov_tick opts g nowMs env = (g', r)"
  shows "map sf_slot (rh_sessions (tr_snapshot r)) = map ss_slot (jm_values (gv_sessions g))
    \<and> map sf_hibernated (rh_sessions (tr_snapshot r)) =
        map (\<lambda>s. ss_sessionId s \<in> set (gv_hibernated g')) (jm_values (gv_sessions g))
    \<and> rh_residentSessionCount (tr_snapshot r) + length (filter sf_hibernated (rh_sessions (tr_snapshot r)))
        = length (jm_values (gv_sessions g))
    \<and> set (gv_hibernated g') = set (gv_hibernated g) \<union> set (tr_hibernated r)"
proof -
  have ok: "registry_ok g" using fresh_gov [OF assms(1,2)] by (simp add: gov_inv_def)
  note f = tick_facts [OF ok assms(3)]
  then obtain vs where rows: "rh_sessions (tr_snapshot r) = map (footprint_row vs (gv_hibernated g')) (jm_values (gv_sessions g))"
    by blast
  have cnt: "rh_residentSessionCount (tr_snapshot r) =
      length (filter (\<lambda>s. ss_sessionId s \<notin> set (gv_hibernated g')) (jm_values (gv_sessions g)))" using f by blast
  have "length (filter sf_hibernated (rh_sessions (tr_snapshot r))) =
      length (filter (\<lambda>s. ss_sessionId s \<in> set (gv_hibernated g')) (jm_values (gv_sessions g)))"
    by (simp add: rows filter_map o_def footprint_row_def Let_def)
  then show ?thesis using f cnt sum_length_filter_compl [of "\<lambda>s. ss_sessionId s \<in> set (gv_hibernated g')" "jm_values (gv_sessions g)"]
    by (simp add: rows footprint_row_def Let_def)
qed

theorem tick_snapshot_consistent_witness:
  "rh_residentSessionCount (tr_snapshot (snd (gov_tick (demo_opts 0) demo_gov 5000 red_env))) + 1 = 2"
proof -
  obtain g' r where t: "gov_tick (demo_opts 0) demo_gov 5000 red_env = (g', r)" by (meson surj_pair)
  have "length (filter sf_hibernated (rh_sessions (tr_snapshot (snd (gov_tick (demo_opts 0) demo_gov 5000 red_env))))) = 1"
    by (simp add: governor_eval)
  then show ?thesis using tick_snapshot_consistent [OF demo_run t] t by (simp add: jm_values_def)
qed

end
