(* ===== verification/Vocab.thy ===== *)
theory Vocab
  imports Prelude
begin

text \<open>
  The label and backend vocabulary of \<open>packages/protocol/src/vocab.ts\<close> with its registry of backend
  descriptors. The module-level \<open>Map\<close> is an explicit state \<open>registry\<close>; \<open>bd_ref\<close> is the identity of a
  descriptor object (the code compares descriptors by reference). Values of the wrong JavaScript type
  are excluded by typing; the checks on their contents are modelled.
\<close>

section \<open>Labels\<close>

definition FIXED_BACKEND_LABELS :: "string list" where
  "FIXED_BACKEND_LABELS = [''AWS_DEV'', ''LOCAL'']"

definition BACKENDS :: "string list" where
  "BACKENDS = [''claude_code'', ''opencode'', ''lmstudio'']"

definition SUBSTRATES :: "string list" where
  "SUBSTRATES = [''sdk'', ''pty'']"

definition is_upper :: "char \<Rightarrow> bool" where
  "is_upper c = (65 \<le> (of_char c :: nat) \<and> (of_char c :: nat) \<le> 90)"

definition isFixedBackendLabel :: "string \<Rightarrow> bool" where
  "isFixedBackendLabel s = (s \<in> set FIXED_BACKEND_LABELS)"

definition isClaudeAccountLabel :: "string \<Rightarrow> bool" where
  "isClaudeAccountLabel s = (s = ''ENT'' \<or> (length s = 5 \<and> take 4 s = ''MAX_'' \<and> is_upper (s ! 4)))"

section \<open>The registry\<close>

record backend_descriptor =
  bd_id :: string
  bd_servesLabel :: "string \<Rightarrow> bool"
  bd_sourceName :: string
  bd_substrates :: "string list"
  bd_builtin :: bool
  bd_ref :: nat

type_synonym registry = "(string, backend_descriptor) jmap"

definition BUILTIN_BACKEND_DESCRIPTORS :: "backend_descriptor list" where
  "BUILTIN_BACKEND_DESCRIPTORS =
    [\<lparr>bd_id = ''claude_code'', bd_servesLabel = isClaudeAccountLabel, bd_sourceName = ''claude-otel'',
      bd_substrates = [''sdk'', ''pty''], bd_builtin = True, bd_ref = 0\<rparr>,
     \<lparr>bd_id = ''opencode'', bd_servesLabel = (\<lambda>l. l = ''AWS_DEV''), bd_sourceName = ''opencode-sse'',
      bd_substrates = [''sdk''], bd_builtin = True, bd_ref = 1\<rparr>,
     \<lparr>bd_id = ''lmstudio'', bd_servesLabel = (\<lambda>l. l = ''LOCAL''), bd_sourceName = ''lmstudio'',
      bd_substrates = [''sdk''], bd_builtin = True, bd_ref = 2\<rparr>]"

definition initial_registry :: registry where
  "initial_registry = map (\<lambda>d. (bd_id d, d)) BUILTIN_BACKEND_DESCRIPTORS"

definition registeredBackendServingLabel :: "registry \<Rightarrow> string \<Rightarrow> backend_descriptor option" where
  "registeredBackendServingLabel reg label = find (\<lambda>d. \<not> bd_builtin d \<and> bd_servesLabel d label) (jm_values reg)"

definition isAccountLabel :: "registry \<Rightarrow> string \<Rightarrow> bool" where
  "isAccountLabel reg s =
    (isClaudeAccountLabel s \<or> isFixedBackendLabel s \<or> registeredBackendServingLabel reg s \<noteq> None)"

definition isBackend :: "registry \<Rightarrow> string \<Rightarrow> bool" where
  "isBackend reg s = jm_has reg s"

definition backendForLabel :: "registry \<Rightarrow> string \<Rightarrow> string option" where
  "backendForLabel reg label =
    (if isClaudeAccountLabel label then Some ''claude_code''
     else if label = ''AWS_DEV'' then Some ''opencode''
     else if label = ''LOCAL'' then Some ''lmstudio''
     else map_option bd_id (registeredBackendServingLabel reg label))"

definition backendForLabelOrUndefined :: "registry \<Rightarrow> string \<Rightarrow> string option" where
  "backendForLabelOrUndefined reg label = (if isAccountLabel reg label then backendForLabel reg label else None)"

datatype registration_error = MalformedDescriptor | FlaggedBuiltin | BuiltinId | IdTaken | UnknownSubstrate
  | OverlapsBuiltin | CannotUnregisterBuiltin

definition PROBES :: "string list" where
  "PROBES = [''MAX_A'', ''MAX_Z'', ''ENT'', ''AWS_DEV'', ''LOCAL'']"

definition registerBackend :: "registry \<Rightarrow> backend_descriptor \<Rightarrow> registration_error + registry" where
  "registerBackend reg d =
    (if bd_id d = [] \<or> bd_sourceName d = [] then Inl MalformedDescriptor
     else if bd_builtin d then Inl FlaggedBuiltin
     else if bd_id d \<in> set BACKENDS then Inl BuiltinId
     else if (case jm_get reg (bd_id d) of None \<Rightarrow> False | Some e \<Rightarrow> bd_ref e \<noteq> bd_ref d) then Inl IdTaken
     else if list_ex (\<lambda>s. s \<notin> set SUBSTRATES) (bd_substrates d) then Inl UnknownSubstrate
     else if list_ex (\<lambda>b. list_ex (\<lambda>p. bd_servesLabel b p \<and> bd_servesLabel d p) PROBES)
               BUILTIN_BACKEND_DESCRIPTORS then Inl OverlapsBuiltin
     else Inr (jm_set reg (bd_id d) d))"

definition unregisterBackend :: "registry \<Rightarrow> string \<Rightarrow> registration_error + (registry \<times> bool)" where
  "unregisterBackend reg bid = (case jm_get reg bid of
     None \<Rightarrow> Inr (reg, False)
   | Some e \<Rightarrow> if bd_builtin e then Inl CannotUnregisterBuiltin else Inr (jm_delete reg bid, True))"

definition backendById :: "registry \<Rightarrow> string \<Rightarrow> backend_descriptor option" where
  "backendById reg bid = jm_get reg bid"

definition allBackends :: "registry \<Rightarrow> backend_descriptor list" where
  "allBackends reg = BUILTIN_BACKEND_DESCRIPTORS @ filter (\<lambda>d. \<not> bd_builtin d) (jm_values reg)"

definition allBackendIds :: "registry \<Rightarrow> string list" where
  "allBackendIds reg = map bd_id (allBackends reg)"

definition sourceForBackend :: "registry \<Rightarrow> string \<Rightarrow> string option" where
  "sourceForBackend reg b = map_option bd_sourceName (jm_get reg b)"

definition substrateLegalFor :: "registry \<Rightarrow> string \<Rightarrow> string \<Rightarrow> bool" where
  "substrateLegalFor reg substrate b = (case jm_get reg b of None \<Rightarrow> False | Some d \<Rightarrow> substrate \<in> set (bd_substrates d))"

datatype registry_op = RegisterB backend_descriptor | UnregisterB string

text \<open>A refused call throws and leaves the registry as it was.\<close>

definition registry_step :: "registry \<Rightarrow> registry_op \<Rightarrow> registry" where
  "registry_step reg op = (case op of
     RegisterB d \<Rightarrow> (case registerBackend reg d of Inl _ \<Rightarrow> reg | Inr r \<Rightarrow> r)
   | UnregisterB b \<Rightarrow> (case unregisterBackend reg b of Inl _ \<Rightarrow> reg | Inr (r, _) \<Rightarrow> r))"

definition registry_run :: "registry_op list \<Rightarrow> registry" where
  "registry_run ops = foldl registry_step initial_registry ops"

section \<open>Invariant\<close>

definition registry_inv :: "registry \<Rightarrow> bool" where
  "registry_inv reg \<longleftrightarrow> (\<exists>extras. reg = initial_registry @ extras \<and> jm_ok reg
     \<and> (\<forall>(k, d)\<in>set extras. bd_id d = k \<and> k \<noteq> [] \<and> \<not> bd_builtin d \<and> set (bd_substrates d) \<subseteq> set SUBSTRATES))"

lemma builtin_ids: "map fst initial_registry = BACKENDS"
  by (simp add: initial_registry_def BUILTIN_BACKEND_DESCRIPTORS_def BACKENDS_def)

lemma builtin_keys: "fst ` set initial_registry = set BACKENDS"
  unfolding builtin_ids [symmetric] by simp

lemma jm_set_append_new: "k \<notin> fst ` set m \<Longrightarrow> jm_set (m @ xs) k v = m @ jm_set xs k v"
  by (induction m) auto

lemma extras_registered:
  assumes "registry_inv reg" "k \<notin> set BACKENDS" "jm_ok (jm_set reg k d)"
    "bd_id d = k" "k \<noteq> []" "\<not> bd_builtin d" "set (bd_substrates d) \<subseteq> set SUBSTRATES"
  shows "registry_inv (jm_set reg k d)"
proof -
  obtain ex where ex: "reg = initial_registry @ ex" "jm_ok reg"
    "\<forall>(k, d)\<in>set ex. bd_id d = k \<and> k \<noteq> [] \<and> \<not> bd_builtin d \<and> set (bd_substrates d) \<subseteq> set SUBSTRATES"
    using assms(1) by (auto simp: registry_inv_def)
  have "k \<notin> fst ` set initial_registry" unfolding builtin_keys by (rule assms(2))
  then have eq: "jm_set reg k d = initial_registry @ jm_set ex k d" unfolding ex(1) by (rule jm_set_append_new)
  have sub: "set (jm_set ex k d) \<subseteq> insert (k, d) (set ex)"
    by (induction ex k d rule: jm_set.induct) auto
  have "\<forall>(k, d)\<in>set (jm_set ex k d). bd_id d = k \<and> k \<noteq> [] \<and> \<not> bd_builtin d \<and> set (bd_substrates d) \<subseteq> set SUBSTRATES"
  proof
    fix p assume "p \<in> set (jm_set ex k d)"
    then have "p = (k, d) \<or> p \<in> set ex" using sub by blast
    then show "case p of (k, d) \<Rightarrow> bd_id d = k \<and> k \<noteq> [] \<and> \<not> bd_builtin d \<and> set (bd_substrates d) \<subseteq> set SUBSTRATES"
      using ex(3) assms(4-7) by auto
  qed
  then show ?thesis unfolding registry_inv_def using eq assms(3) by blast
qed

lemma registry_step_inv: "registry_inv reg \<Longrightarrow> registry_inv (registry_step reg op)"
proof (cases op)
  case (RegisterB d)
  assume inv: "registry_inv reg"
  have ok: "jm_ok (jm_set reg (bd_id d) d)" using inv by (auto simp: registry_inv_def)
  show ?thesis
  proof (cases "registerBackend reg d")
    case (Inl e)
    then show ?thesis using RegisterB inv by (simp add: registry_step_def)
  next
    case (Inr r)
    then have "r = jm_set reg (bd_id d) d" "bd_id d \<notin> set BACKENDS" "bd_id d \<noteq> []" "\<not> bd_builtin d"
      "set (bd_substrates d) \<subseteq> set SUBSTRATES"
      unfolding registerBackend_def list_ex_iff by (auto split: if_splits)
    then show ?thesis using extras_registered [OF inv _ ok] RegisterB Inr by (simp add: registry_step_def)
  qed
next
  case (UnregisterB b)
  assume inv: "registry_inv reg"
  obtain ex where ex: "reg = initial_registry @ ex" "jm_ok reg"
    "\<forall>(k, d)\<in>set ex. bd_id d = k \<and> k \<noteq> [] \<and> \<not> bd_builtin d \<and> set (bd_substrates d) \<subseteq> set SUBSTRATES"
    using inv by (auto simp: registry_inv_def)
  show ?thesis
  proof (cases "\<exists>e. jm_get reg b = Some e \<and> \<not> bd_builtin e")
    case False
    then show ?thesis using UnregisterB inv
      by (auto simp: registry_step_def unregisterBackend_def split: option.splits)
  next
    case True
    then have "registry_step reg op = jm_delete reg b"
      using UnregisterB by (auto simp: registry_step_def unregisterBackend_def)
    moreover have nb: "b \<notin> set BACKENDS"
    proof
      assume "b \<in> set BACKENDS"
      then have "b \<in> fst ` set initial_registry" unfolding builtin_keys .
      then obtain e where e: "(b, e) \<in> set initial_registry" by auto
      then have "bd_builtin e" by (auto simp: initial_registry_def BUILTIN_BACKEND_DESCRIPTORS_def)
      moreover have "jm_get reg b = Some e" using in_set_jm_get [OF ex(2)] e ex(1) by simp
      ultimately show False using True by simp
    qed
    have "filter (\<lambda>(k', _). k' \<noteq> b) initial_registry = initial_registry"
      using nb builtin_keys by (subst filter_id_conv) force
    then have "jm_delete reg b = initial_registry @ jm_delete ex b"
      unfolding ex(1) jm_delete_def filter_append by simp
    moreover have "jm_ok (jm_delete reg b)" using ex(2) by simp
    moreover have "\<forall>(k, d)\<in>set (jm_delete ex b). bd_id d = k \<and> k \<noteq> [] \<and> \<not> bd_builtin d \<and> set (bd_substrates d) \<subseteq> set SUBSTRATES"
      using ex(3) jm_delete_subset [of ex b] by blast
    ultimately show ?thesis unfolding registry_inv_def by (intro exI [of _ "jm_delete ex b"]) simp
  qed
qed

lemma registry_run_inv: "registry_inv (registry_run ops)"
proof (induction ops rule: rev_induct)
  case Nil
  then show ?case by (simp add: registry_run_def registry_inv_def jm_ok_def builtin_ids BACKENDS_def)
next
  case (snoc op ops)
  then show ?case using registry_step_inv by (simp add: registry_run_def)
qed

section \<open>Properties\<close>

text \<open>Routing is total, closed and cannot be hijacked. After any sequence of registrations
  and removals, accepted or refused: a label passes the account-label gate exactly when it has a
  backend, that backend is registered, every Claude account label, \<open>AWS_DEV\<close> and \<open>LOCAL\<close> keep their
  built-in backend whatever was registered, the three built-ins are registered with their own
  sources, and backend ids are enumerated without repetition, built-ins first.\<close>

theorem vocab_routing:
  fixes ops :: "registry_op list" and l :: string
  defines "reg \<equiv> registry_run ops"
  shows "(isAccountLabel reg l \<longleftrightarrow> backendForLabel reg l \<noteq> None)
    \<and> (\<forall>b. backendForLabel reg l = Some b \<longrightarrow> isBackend reg b)
    \<and> (isClaudeAccountLabel l \<longrightarrow> backendForLabel reg l = Some ''claude_code'')
    \<and> backendForLabel reg ''AWS_DEV'' = Some ''opencode'' \<and> backendForLabel reg ''LOCAL'' = Some ''lmstudio''
    \<and> map (sourceForBackend reg) BACKENDS = [Some ''claude-otel'', Some ''opencode-sse'', Some ''lmstudio'']
    \<and> distinct (allBackendIds reg) \<and> take 3 (allBackendIds reg) = BACKENDS
    \<and> set (allBackendIds reg) = {b. isBackend reg b}"
proof -
  obtain ex where ex: "reg = initial_registry @ ex" "jm_ok reg"
    "\<forall>(k, d)\<in>set ex. bd_id d = k \<and> k \<noteq> [] \<and> \<not> bd_builtin d \<and> set (bd_substrates d) \<subseteq> set SUBSTRATES"
    using registry_run_inv [of ops] unfolding registry_inv_def reg_def by blast
  have vals: "jm_values reg = BUILTIN_BACKEND_DESCRIPTORS @ map snd ex"
    by (simp add: ex(1) jm_values_def initial_registry_def o_def)
  have built: "\<forall>d\<in>set BUILTIN_BACKEND_DESCRIPTORS. bd_builtin d" by (simp add: BUILTIN_BACKEND_DESCRIPTORS_def)
  have "filter (\<lambda>d. \<not> bd_builtin d) (map snd ex) = map snd ex"
    using ex(3) by (auto simp: filter_id_conv)
  then have all: "allBackends reg = BUILTIN_BACKEND_DESCRIPTORS @ map snd ex"
    using built by (simp add: allBackends_def vals filter_False)
  have exids: "map bd_id (map snd ex) = map fst ex" using ex(3) by auto
  have "map bd_id BUILTIN_BACKEND_DESCRIPTORS = BACKENDS" by (simp add: BUILTIN_BACKEND_DESCRIPTORS_def BACKENDS_def)
  then have ids: "allBackendIds reg = map fst reg"
    unfolding allBackendIds_def all map_append exids by (simp add: ex(1) builtin_ids)
  have served: "d \<in> set (map snd ex)" if "registeredBackendServingLabel reg s = Some d" for d s
    using that built find_SomeD [of _ "jm_values reg" d]
    by (auto simp: registeredBackendServingLabel_def vals)
  have b1: "isBackend reg b" if bl: "backendForLabel reg l = Some b" for b
  proof (cases "b \<in> set BACKENDS")
    case True
    then show ?thesis unfolding isBackend_def jm_has_def ex(1) by (simp add: builtin_ids)
  next
    case False
    then obtain d where d: "registeredBackendServingLabel reg l = Some d" "b = bd_id d"
      using bl by (auto simp: backendForLabel_def BACKENDS_def split: if_splits)
    have "b \<in> set (map bd_id (map snd ex))"
      unfolding d(2) list.set_map [of bd_id] by (rule imageI [OF served [OF d(1)]])
    then show ?thesis unfolding exids isBackend_def jm_has_def ex(1) by simp
  qed
  have fixed: "\<not> isClaudeAccountLabel ''AWS_DEV''" "\<not> isClaudeAccountLabel ''LOCAL''"
    by (simp_all add: isClaudeAccountLabel_def)
  have src: "map (sourceForBackend reg) BACKENDS = [Some ''claude-otel'', Some ''opencode-sse'', Some ''lmstudio'']"
    by (simp add: sourceForBackend_def ex(1) jm_get_def BACKENDS_def initial_registry_def BUILTIN_BACKEND_DESCRIPTORS_def)
  have "take 3 (allBackendIds reg) = BACKENDS" unfolding ids unfolding ex(1) by (simp add: builtin_ids BACKENDS_def)
  then show ?thesis
    using b1 fixed src ids ex(2)
    by (auto simp: isAccountLabel_def backendForLabel_def isFixedBackendLabel_def FIXED_BACKEND_LABELS_def
        jm_ok_def isBackend_def jm_has_def)
qed

abbreviation greedy_descriptor :: backend_descriptor where
  "greedy_descriptor \<equiv> \<lparr>bd_id = ''mlx'', bd_servesLabel = (\<lambda>l. l = ''MAX_M'' \<or> l = ''MLX''), bd_sourceName = ''mlx'',
     bd_substrates = [''sdk''], bd_builtin = False, bd_ref = 7\<rparr>"

theorem vocab_routing_witness:
  "isClaudeAccountLabel ''MAX_M'' \<and> backendForLabel (registry_run [RegisterB greedy_descriptor]) ''MAX_M'' = Some ''claude_code''
   \<and> isAccountLabel (registry_run [RegisterB greedy_descriptor]) ''MLX''"
proof -
  have c: "isClaudeAccountLabel ''MAX_M''" by (simp add: isClaudeAccountLabel_def is_upper_def)
  have "backendForLabel (registry_run [RegisterB greedy_descriptor]) ''MLX'' \<noteq> None"
    by (simp add: registry_run_def registry_step_def registerBackend_def BACKENDS_def SUBSTRATES_def PROBES_def
        jm_get_def initial_registry_def BUILTIN_BACKEND_DESCRIPTORS_def backendForLabel_def
        registeredBackendServingLabel_def jm_values_def isClaudeAccountLabel_def)
  then show ?thesis
    using c vocab_routing [of "[RegisterB greedy_descriptor]" "''MAX_M''"]
      vocab_routing [of "[RegisterB greedy_descriptor]" "''MLX''"] by blast
qed

text \<open>The overlap check is incomplete: a descriptor that claims the built-in label \<open>MAX_M\<close>
  is accepted, because only five probe labels are tried.\<close>

theorem registerBackend_accepts_overlap:
  "(\<exists>reg. registerBackend initial_registry greedy_descriptor = Inr reg)
   \<and> bd_servesLabel greedy_descriptor ''MAX_M'' \<and> isClaudeAccountLabel ''MAX_M''"
  by (simp add: registerBackend_def BACKENDS_def SUBSTRATES_def PROBES_def jm_get_def initial_registry_def
      BUILTIN_BACKEND_DESCRIPTORS_def isClaudeAccountLabel_def is_upper_def)

end
