(* ===== verification/Resume_Ledger.thy ===== *)
theory Resume_Ledger
  imports Vocab
begin

text \<open>
  The kernel tables of \<open>packages/schema/src/kernel.ts\<close>: the resume ledger with its state machine, the
  account profiles and the schema metadata. A table is a keyed store in insertion order; the
  constraints the database itself enforces on a ledger row (migration 0007) are \<open>ledger_check\<close>, and a
  violated constraint is the error \<open>SqlConstraint\<close>. The timestamp source is an argument of every write.
  Session states and substrates outside the vocabulary are excluded by typing or by the table's own
  constraint; labels and backends are decoded against the backend registry on every read, as in the code.

  Shown: the accessor refuses an insert exactly for the documented reasons and what it admits satisfies
  the table's constraints; over any history a row is never lost, its identity columns never change, its
  native session id is written once, its state moves only along legal transitions and \<open>exited\<close> is final;
  the restart scan returns exactly the rows that are not settled.
\<close>

section \<open>States\<close>

datatype session_state = Spawning | Running | Resumed | OrphanDetected | OrphanKilled | Exited

definition LEGAL_TRANSITIONS :: "session_state \<Rightarrow> session_state list" where
  "LEGAL_TRANSITIONS s = (case s of
     Spawning \<Rightarrow> [Running, Exited]
   | Running \<Rightarrow> [Resumed, OrphanDetected, Exited]
   | Resumed \<Rightarrow> [Resumed, OrphanDetected, Exited]
   | OrphanDetected \<Rightarrow> [OrphanKilled]
   | OrphanKilled \<Rightarrow> [Resumed, Exited]
   | Exited \<Rightarrow> [])"

definition isLegalTransition :: "session_state \<Rightarrow> session_state \<Rightarrow> bool" where
  "isLegalTransition a b = (b \<in> set (LEGAL_TRANSITIONS a))"

definition ACTIVE_SESSION_STATES :: "session_state list" where
  "ACTIVE_SESSION_STATES = [Spawning, Running, Resumed, OrphanDetected, OrphanKilled]"

section \<open>Rows\<close>

record ledger_row =
  rl_id :: string
  rl_accountLabel :: string
  rl_backend :: string
  rl_cwd :: string
  rl_substrate :: string
  rl_purpose :: string
  rl_workstreamHint :: "string option"
  rl_nativeSessionId :: "string option"
  rl_state :: session_state
  rl_pid :: "nat option"
  rl_spawnNonce :: "string option"
  rl_createdAtIso :: string
  rl_updatedAtIso :: string

record new_ledger_row =
  nl_id :: string
  nl_accountLabel :: string
  nl_backend :: string
  nl_cwd :: string
  nl_substrate :: string
  nl_purpose :: string
  nl_workstreamHint :: "string option"

type_synonym ledger = "(string, ledger_row) jmap"

datatype store_error =
    SessionNotFound string
  | IllegalTransition session_state session_state
  | VocabularyDecode
  | UnknownLabel
  | PairingViolation
  | SubstrateIllegal
  | CwdNotAbsolute
  | BadPid
  | BlankNonce
  | BackfillOnExited
  | BlankNativeId
  | NativeIdOverwrite
  | ProfileNotFound
  | ConfigDirNotAbsolute
  | BlankKey
  | SqlConstraint

text \<open>The constraints of the table itself.\<close>

definition builtin_label_form :: "string \<Rightarrow> bool" where
  "builtin_label_form l = (isClaudeAccountLabel l \<or> l = ''AWS_DEV'' \<or> l = ''LOCAL'')"

definition ledger_check :: "ledger_row \<Rightarrow> bool" where
  "ledger_check r = (rl_id r \<noteq> []
     \<and> (builtin_label_form (rl_accountLabel r) \<or> (rl_accountLabel r \<noteq> [] \<and> rl_backend r \<notin> set BACKENDS))
     \<and> rl_backend r \<noteq> [] \<and> rl_cwd r \<noteq> [] \<and> rl_substrate r \<in> set SUBSTRATES \<and> rl_purpose r \<noteq> []
     \<and> rl_pid r \<noteq> Some 0
     \<and> (rl_backend r \<notin> set BACKENDS
        \<or> (isClaudeAccountLabel (rl_accountLabel r) \<and> rl_backend r = ''claude_code'')
        \<or> (rl_accountLabel r = ''AWS_DEV'' \<and> rl_backend r = ''opencode'')
        \<or> (rl_accountLabel r = ''LOCAL'' \<and> rl_backend r = ''lmstudio''))
     \<and> (rl_substrate r \<noteq> ''pty'' \<or> rl_backend r = ''claude_code'' \<or> rl_backend r \<notin> set BACKENDS))"

section \<open>The resume ledger\<close>

definition rowFromSql :: "registry \<Rightarrow> ledger_row \<Rightarrow> store_error + ledger_row" where
  "rowFromSql reg r =
    (if isAccountLabel reg (rl_accountLabel r) \<and> isBackend reg (rl_backend r) \<and> rl_substrate r \<in> set SUBSTRATES
     then Inr r else Inl VocabularyDecode)"

definition getRow :: "registry \<Rightarrow> ledger \<Rightarrow> string \<Rightarrow> store_error + ledger_row" where
  "getRow reg led sid = (case jm_get led sid of None \<Rightarrow> Inl (SessionNotFound sid) | Some r \<Rightarrow> rowFromSql reg r)"

definition new_row :: "string \<Rightarrow> new_ledger_row \<Rightarrow> ledger_row" where
  "new_row ts inp = \<lparr>rl_id = nl_id inp, rl_accountLabel = nl_accountLabel inp, rl_backend = nl_backend inp,
     rl_cwd = nl_cwd inp, rl_substrate = nl_substrate inp, rl_purpose = nl_purpose inp,
     rl_workstreamHint = nl_workstreamHint inp, rl_nativeSessionId = None, rl_state = Spawning,
     rl_pid = None, rl_spawnNonce = None, rl_createdAtIso = ts, rl_updatedAtIso = ts\<rparr>"

definition absolute_path :: "string \<Rightarrow> bool" where
  "absolute_path p = (take 1 p = ''/'')"

definition insertBeforeSpawn :: "registry \<Rightarrow> ledger \<Rightarrow> string \<Rightarrow> new_ledger_row \<Rightarrow> store_error + (ledger \<times> ledger_row)" where
  "insertBeforeSpawn reg led ts inp =
    (if \<not> isAccountLabel reg (nl_accountLabel inp) then Inl UnknownLabel
     else if backendForLabel reg (nl_accountLabel inp) \<noteq> Some (nl_backend inp) then Inl PairingViolation
     else if \<not> substrateLegalFor reg (nl_substrate inp) (nl_backend inp) then Inl SubstrateIllegal
     else if \<not> absolute_path (nl_cwd inp) then Inl CwdNotAbsolute
     else if jm_has led (nl_id inp) \<or> \<not> ledger_check (new_row ts inp) then Inl SqlConstraint
     else let led' = jm_set led (nl_id inp) (new_row ts inp)
          in r_bind (getRow reg led' (nl_id inp)) (\<lambda>r. Inr (led', r)))"

definition ledger_get :: "registry \<Rightarrow> ledger \<Rightarrow> string \<Rightarrow> store_error + ledger_row option" where
  "ledger_get reg led sid =
    (case jm_get led sid of None \<Rightarrow> Inr None | Some r \<Rightarrow> r_bind (rowFromSql reg r) (\<lambda>r. Inr (Some r)))"

primrec decode_rows :: "registry \<Rightarrow> ledger_row list \<Rightarrow> store_error + ledger_row list" where
  "decode_rows reg [] = Inr []"
| "decode_rows reg (r # rs) =
    r_bind (rowFromSql reg r) (\<lambda>r. r_bind (decode_rows reg rs) (\<lambda>rs. Inr (r # rs)))"

definition created_cmp :: "ledger_row \<Rightarrow> ledger_row \<Rightarrow> int" where
  "created_cmp r s = then_cmp (str_cmp (rl_createdAtIso r) (rl_createdAtIso s)) (str_cmp (rl_id r) (rl_id s))"

definition select_states :: "ledger \<Rightarrow> session_state list \<Rightarrow> ledger_row list" where
  "select_states led states = js_sort created_cmp (filter (\<lambda>r. rl_state r \<in> set states) (jm_values led))"

definition ledger_list :: "registry \<Rightarrow> ledger \<Rightarrow> session_state list option \<Rightarrow> store_error + ledger_row list" where
  "ledger_list reg led filter_states = decode_rows reg (case filter_states of
     Some (s # ss) \<Rightarrow> select_states led (s # ss)
   | _ \<Rightarrow> js_sort created_cmp (jm_values led))"

definition unreconciled :: "registry \<Rightarrow> ledger \<Rightarrow> store_error + ledger_row list" where
  "unreconciled reg led = decode_rows reg (select_states led ACTIVE_SESSION_STATES)"

definition positive_safe :: "jsnum \<Rightarrow> nat option" where
  "positive_safe x = (case as_safe_nat x of Some n \<Rightarrow> if 0 < n then Some n else None | None \<Rightarrow> None)"

definition backfillPid :: "registry \<Rightarrow> ledger \<Rightarrow> string \<Rightarrow> string \<Rightarrow> jsnum \<Rightarrow> string \<Rightarrow> store_error + (ledger \<times> ledger_row)" where
  "backfillPid reg led ts sid pid nonce = (case positive_safe pid of
     None \<Rightarrow> Inl BadPid
   | Some p \<Rightarrow>
      if is_blank nonce then Inl BlankNonce
      else r_bind (getRow reg led sid) (\<lambda>current.
        if rl_state current = Exited then Inl BackfillOnExited
        else let led' = jm_set led sid (current\<lparr>rl_pid := Some p, rl_spawnNonce := Some nonce, rl_updatedAtIso := ts\<rparr>)
             in r_bind (getRow reg led' sid) (\<lambda>r. Inr (led', r))))"

definition backfillNativeSessionId :: "registry \<Rightarrow> ledger \<Rightarrow> string \<Rightarrow> string \<Rightarrow> string \<Rightarrow> store_error + (ledger \<times> ledger_row)" where
  "backfillNativeSessionId reg led ts sid native =
    (if is_blank native then Inl BlankNativeId
     else r_bind (getRow reg led sid) (\<lambda>current.
       if rl_nativeSessionId current \<noteq> None \<and> rl_nativeSessionId current \<noteq> Some native then Inl NativeIdOverwrite
       else if rl_nativeSessionId current = Some native then Inr (led, current)
       else let led' = jm_set led sid (current\<lparr>rl_nativeSessionId := Some native, rl_updatedAtIso := ts\<rparr>)
            in r_bind (getRow reg led' sid) (\<lambda>r. Inr (led', r))))"

definition ledger_transition :: "registry \<Rightarrow> ledger \<Rightarrow> string \<Rightarrow> string \<Rightarrow> session_state \<Rightarrow> store_error + (ledger \<times> ledger_row)" where
  "ledger_transition reg led ts sid to =
    r_bind (getRow reg led sid) (\<lambda>current.
      if \<not> isLegalTransition (rl_state current) to then Inl (IllegalTransition (rl_state current) to)
      else let led' = jm_set led sid (current\<lparr>rl_state := to, rl_updatedAtIso := ts\<rparr>)
           in r_bind (getRow reg led' sid) (\<lambda>r. Inr (led', r)))"

section \<open>Histories of the ledger\<close>

datatype ledger_op =
    LInsert new_ledger_row
  | LBackfillPid string jsnum string
  | LBackfillNative string string
  | LTransition string session_state

text \<open>One call with the registry and the clock of its moment; a call that throws changes nothing.\<close>

definition ledger_call :: "ledger \<Rightarrow> registry \<times> string \<times> ledger_op \<Rightarrow> store_error + (ledger \<times> ledger_row)" where
  "ledger_call led c = (case c of (reg, ts, op) \<Rightarrow> (case op of
     LInsert inp \<Rightarrow> insertBeforeSpawn reg led ts inp
   | LBackfillPid sid pid nonce \<Rightarrow> backfillPid reg led ts sid pid nonce
   | LBackfillNative sid native \<Rightarrow> backfillNativeSessionId reg led ts sid native
   | LTransition sid to \<Rightarrow> ledger_transition reg led ts sid to))"

definition ledger_step :: "ledger \<Rightarrow> registry \<times> string \<times> ledger_op \<Rightarrow> ledger" where
  "ledger_step led c = (case ledger_call led c of Inl _ \<Rightarrow> led | Inr (led', _) \<Rightarrow> led')"

definition ledger_table :: "ledger \<Rightarrow> bool" where
  "ledger_table led \<longleftrightarrow> jm_ok led \<and> (\<forall>sid r. jm_get led sid = Some r \<longrightarrow> rl_id r = sid \<and> ledger_check r)"

definition legal_rel :: "(session_state \<times> session_state) set" where
  "legal_rel = {(a, b). isLegalTransition a b}"

definition row_identity :: "ledger_row \<Rightarrow> string list \<times> string option" where
  "row_identity r = ([rl_id r, rl_accountLabel r, rl_backend r, rl_cwd r, rl_substrate r, rl_purpose r, rl_createdAtIso r],
     rl_workstreamHint r)"

definition row_le :: "ledger_row \<Rightarrow> ledger_row \<Rightarrow> bool" where
  "row_le r r' \<longleftrightarrow> row_identity r' = row_identity r
     \<and> (rl_nativeSessionId r \<noteq> None \<longrightarrow> rl_nativeSessionId r' = rl_nativeSessionId r)
     \<and> (rl_state r, rl_state r') \<in> legal_rel\<^sup>*
     \<and> (rl_state r = Exited \<longrightarrow> rl_pid r' = rl_pid r \<and> rl_spawnNonce r' = rl_spawnNonce r)"

definition ledger_le :: "ledger \<Rightarrow> ledger \<Rightarrow> bool" where
  "ledger_le led led' \<longleftrightarrow> (\<forall>sid r. jm_get led sid = Some r \<longrightarrow> (\<exists>r'. jm_get led' sid = Some r' \<and> row_le r r'))"

lemma exited_final: "(Exited, s) \<in> legal_rel\<^sup>* \<Longrightarrow> s = Exited"
proof -
  assume "(Exited, s) \<in> legal_rel\<^sup>*"
  then show "s = Exited"
    by (induction rule: rtrancl_induct) (auto simp: legal_rel_def isLegalTransition_def LEGAL_TRANSITIONS_def)
qed

lemma row_le_refl: "row_le r r"
  by (simp add: row_le_def)

lemma row_le_trans: "row_le r s \<Longrightarrow> row_le s t \<Longrightarrow> row_le r t"
  unfolding row_le_def by (auto dest: exited_final intro: rtrancl_trans)

lemma ledger_le_set: "jm_get led sid = Some r \<Longrightarrow> row_le r r' \<Longrightarrow> ledger_le led (jm_set led sid r')"
  by (auto simp: ledger_le_def jm_get_set row_le_refl)

lemma ledger_le_new: "jm_get led sid = None \<Longrightarrow> ledger_le led (jm_set led sid r')"
  by (auto simp: ledger_le_def jm_get_set row_le_refl)

lemma getRow_Inr: "getRow reg led sid = Inr r \<longleftrightarrow> jm_get led sid = Some r \<and> rowFromSql reg r = Inr r"
  by (auto simp: getRow_def rowFromSql_def split: option.splits if_splits)

text \<open>What a successful call writes.\<close>

lemma insert_Inr:
  assumes "insertBeforeSpawn reg led ts inp = Inr (led', r)"
  shows "jm_get led (nl_id inp) = None \<and> ledger_check (new_row ts inp)
    \<and> led' = jm_set led (nl_id inp) (new_row ts inp) \<and> r = new_row ts inp"
  using assms unfolding insertBeforeSpawn_def Let_def jm_has_iff_get
  by (simp add: r_bind_Inr getRow_Inr jm_get_set split: if_splits) blast

lemma pid_Inr:
  assumes "backfillPid reg led ts sid pid nonce = Inr (led', r)"
  obtains r0 p where "jm_get led sid = Some r0" "rl_state r0 \<noteq> Exited" "0 < p"
    "led' = jm_set led sid (r0\<lparr>rl_pid := Some p, rl_spawnNonce := Some nonce, rl_updatedAtIso := ts\<rparr>)"
proof (cases "positive_safe pid")
  case (Some p)
  have "0 < p" using Some by (auto simp: positive_safe_def split: option.splits if_splits)
  obtain r0 where r0: "jm_get led sid = Some r0"
    "(if rl_state r0 = Exited then Inl BackfillOnExited
      else let led' = jm_set led sid (r0\<lparr>rl_pid := Some p, rl_spawnNonce := Some nonce, rl_updatedAtIso := ts\<rparr>)
           in r_bind (getRow reg led' sid) (\<lambda>r. Inr (led', r))) = Inr (led', r)"
    using assms Some by (auto simp: backfillPid_def r_bind_Inr getRow_Inr simp del: Let_def split: if_split_asm)
  then show ?thesis using that [OF r0(1) _ \<open>0 < p\<close>] by (simp add: Let_def r_bind_Inr split: if_splits)
qed (use assms in \<open>simp add: backfillPid_def\<close>)

lemma native_Inr:
  assumes "backfillNativeSessionId reg led ts sid native = Inr (led', r)"
  obtains (same) "led' = led" "jm_get led sid = Some r" "rl_nativeSessionId r = Some native"
  | (new) r0 where "jm_get led sid = Some r0" "rl_nativeSessionId r0 = None"
      "led' = jm_set led sid (r0\<lparr>rl_nativeSessionId := Some native, rl_updatedAtIso := ts\<rparr>)"
proof -
  have nb: "\<not> is_blank native" using assms by (auto simp: backfillNativeSessionId_def)
  obtain r0 where r0: "getRow reg led sid = Inr r0"
    using assms nb by (cases "getRow reg led sid") (simp_all add: backfillNativeSessionId_def)
  then have g: "jm_get led sid = Some r0" by (simp add: getRow_Inr)
  show ?thesis
  proof (cases "rl_nativeSessionId r0")
    case None
    then have "led' = jm_set led sid (r0\<lparr>rl_nativeSessionId := Some native, rl_updatedAtIso := ts\<rparr>)"
      using assms nb r0 by (simp add: backfillNativeSessionId_def Let_def r_bind_Inr)
    then show ?thesis using new g None by blast
  next
    case (Some n)
    then have "n = native" "led' = led" "r = r0"
      using assms nb r0 by (simp_all add: backfillNativeSessionId_def split: if_splits)
    then show ?thesis using same g Some by simp
  qed
qed

lemma transition_Inr:
  assumes "ledger_transition reg led ts sid to = Inr (led', r)"
  obtains r0 where "jm_get led sid = Some r0" "isLegalTransition (rl_state r0) to"
    "led' = jm_set led sid (r0\<lparr>rl_state := to, rl_updatedAtIso := ts\<rparr>)"
proof -
  obtain r0 where r0: "jm_get led sid = Some r0"
    "(if \<not> isLegalTransition (rl_state r0) to then Inl (IllegalTransition (rl_state r0) to)
      else let led' = jm_set led sid (r0\<lparr>rl_state := to, rl_updatedAtIso := ts\<rparr>)
           in r_bind (getRow reg led' sid) (\<lambda>r. Inr (led', r))) = Inr (led', r)"
    using assms unfolding ledger_transition_def r_bind_Inr getRow_Inr by blast
  then show ?thesis using that [OF r0(1)] by (simp add: Let_def r_bind_Inr split: if_splits)
qed

lemma row_le_pid: "rl_state r \<noteq> Exited \<Longrightarrow> row_le r (r\<lparr>rl_pid := p, rl_spawnNonce := n, rl_updatedAtIso := ts\<rparr>)"
  by (simp add: row_le_def row_identity_def)

lemma row_le_native: "rl_nativeSessionId r = None \<Longrightarrow> row_le r (r\<lparr>rl_nativeSessionId := n, rl_updatedAtIso := ts\<rparr>)"
  by (simp add: row_le_def row_identity_def)

lemma row_le_state:
  "isLegalTransition (rl_state r) to \<Longrightarrow> row_le r (r\<lparr>rl_state := to, rl_updatedAtIso := ts\<rparr>)"
  by (simp add: row_le_def row_identity_def legal_rel_def r_into_rtrancl)

text \<open>Every successful call writes at most one row, upwards.\<close>

lemma ledger_call_cases:
  assumes "ledger_call led (reg, ts, op) = Inr (led', r)"
  obtains (insert) inp where "jm_get led (nl_id inp) = None" "ledger_check (new_row ts inp)"
      "led' = jm_set led (nl_id inp) (new_row ts inp)"
  | (update) sid r0 r1 where "jm_get led sid = Some r0" "row_le r0 r1" "ledger_check r0 \<Longrightarrow> ledger_check r1"
      "led' = jm_set led sid r1"
  | (same) "led' = led"
proof (cases op)
  case (LInsert inp)
  then have "insertBeforeSpawn reg led ts inp = Inr (led', r)" using assms by (simp add: ledger_call_def)
  then show ?thesis using insert_Inr insert by blast
next
  case (LBackfillPid sid pid nonce)
  then have "backfillPid reg led ts sid pid nonce = Inr (led', r)" using assms by (simp add: ledger_call_def)
  then show ?thesis
  proof (rule pid_Inr)
    fix r0 p assume r0: "jm_get led sid = Some r0" "rl_state r0 \<noteq> Exited" "0 < p"
      "led' = jm_set led sid (r0\<lparr>rl_pid := Some p, rl_spawnNonce := Some nonce, rl_updatedAtIso := ts\<rparr>)"
    show ?thesis by (rule update [OF r0(1) row_le_pid [OF r0(2)] _ r0(4)]) (use r0(3) in \<open>simp add: ledger_check_def\<close>)
  qed
next
  case (LBackfillNative sid native)
  then have "backfillNativeSessionId reg led ts sid native = Inr (led', r)" using assms by (simp add: ledger_call_def)
  then show ?thesis
  proof (cases rule: native_Inr)
    case (new r0)
    show ?thesis by (rule update [OF new(1) row_le_native [OF new(2)] _ new(3)]) (simp add: ledger_check_def)
  qed (rule same)
next
  case (LTransition sid to)
  then have "ledger_transition reg led ts sid to = Inr (led', r)" using assms by (simp add: ledger_call_def)
  then show ?thesis
  proof (rule transition_Inr)
    fix r0 assume r0: "jm_get led sid = Some r0" "isLegalTransition (rl_state r0) to"
      "led' = jm_set led sid (r0\<lparr>rl_state := to, rl_updatedAtIso := ts\<rparr>)"
    show ?thesis by (rule update [OF r0(1) row_le_state [OF r0(2)] _ r0(3)]) (simp add: ledger_check_def)
  qed
qed

lemma ledger_step_table: "ledger_table led \<Longrightarrow> ledger_table (ledger_step led c)"
proof (cases "ledger_call led c")
  case (Inr x)
  assume t: "ledger_table led"
  obtain led' r where x: "x = (led', r)" by (cases x)
  obtain reg ts op where c: "c = (reg, ts, op)" by (cases c)
  have s: "ledger_step led c = led'" using Inr x by (simp add: ledger_step_def)
  have put: "ledger_table (jm_set led sid r1)" if "rl_id r1 = sid" "ledger_check r1" for sid r1
    using t that unfolding ledger_table_def by (simp add: jm_get_set)
  have "ledger_call led (reg, ts, op) = Inr (led', r)" using Inr x c by simp
  then show ?thesis
  proof (cases rule: ledger_call_cases)
    case (insert inp)
    have "rl_id (new_row ts inp) = nl_id inp" by (simp add: new_row_def)
    then show ?thesis unfolding s insert(3) using insert(2) by (rule put)
  next
    case (update sid r0 r1)
    have "rl_id r0 = sid" "ledger_check r0" using t update(1) by (simp_all add: ledger_table_def)
    moreover have "rl_id r1 = rl_id r0" using update(2) by (simp add: row_le_def row_identity_def)
    ultimately show ?thesis unfolding s update(4) using update(3) by (intro put) simp_all
  qed (simp add: s t)
qed (simp add: ledger_step_def)

lemma ledger_le_refl: "ledger_le led led"
  by (simp add: ledger_le_def row_le_refl)

lemma ledger_step_le: "ledger_le led (ledger_step led c)"
proof (cases "ledger_call led c")
  case (Inr x)
  obtain led' r where x: "x = (led', r)" by (cases x)
  obtain reg ts op where c: "c = (reg, ts, op)" by (cases c)
  have s: "ledger_step led c = led'" using Inr x by (simp add: ledger_step_def)
  have "ledger_call led (reg, ts, op) = Inr (led', r)" using Inr x c by simp
  then show ?thesis
  proof (cases rule: ledger_call_cases)
    case (insert inp)
    then show ?thesis using ledger_le_new s by simp
  next
    case (update sid r0 r1)
    then show ?thesis using ledger_le_set s by simp
  qed (simp add: s ledger_le_refl)
qed (simp add: ledger_step_def ledger_le_refl)

interpretation lg: evolution ledger_step ledger_table ledger_le
proof unfold_locales
  fix led led' led'' c
  show "ledger_table led \<Longrightarrow> ledger_table (ledger_step led c)" by (rule ledger_step_table)
  show "ledger_le led led" by (rule ledger_le_refl)
  show "ledger_le led led' \<Longrightarrow> ledger_le led' led'' \<Longrightarrow> ledger_le led led''"
    unfolding ledger_le_def by (meson row_le_trans)
  show "ledger_le led (ledger_step led c)" by (rule ledger_step_le)
qed

section \<open>Account profiles and schema metadata\<close>

record profile_row =
  pr_label :: string
  pr_backend :: string
  pr_configDir :: "string option"
  pr_createdAtIso :: string
  pr_updatedAtIso :: string

type_synonym profiles = "(string, profile_row) jmap"

definition profileFromSql :: "registry \<Rightarrow> profile_row \<Rightarrow> store_error + profile_row" where
  "profileFromSql reg p =
    (if isAccountLabel reg (pr_label p) \<and> isBackend reg (pr_backend p) then Inr p else Inl VocabularyDecode)"

primrec decode_profiles :: "registry \<Rightarrow> profile_row list \<Rightarrow> store_error + profile_row list" where
  "decode_profiles reg [] = Inr []"
| "decode_profiles reg (p # ps) =
    r_bind (profileFromSql reg p) (\<lambda>p. r_bind (decode_profiles reg ps) (\<lambda>ps. Inr (p # ps)))"

definition profiles_list :: "registry \<Rightarrow> profiles \<Rightarrow> store_error + profile_row list" where
  "profiles_list reg t = decode_profiles reg (js_sort (\<lambda>p q. str_cmp (pr_label p) (pr_label q)) (jm_values t))"

definition profiles_get :: "registry \<Rightarrow> profiles \<Rightarrow> string \<Rightarrow> store_error + profile_row option" where
  "profiles_get reg t label =
    (case jm_get t label of None \<Rightarrow> Inr None | Some p \<Rightarrow> r_bind (profileFromSql reg p) (\<lambda>p. Inr (Some p)))"

definition setConfigDir :: "registry \<Rightarrow> profiles \<Rightarrow> string \<Rightarrow> string \<Rightarrow> string \<Rightarrow> store_error + (profiles \<times> profile_row)" where
  "setConfigDir reg t ts label dir =
    (if \<not> isAccountLabel reg label then Inl UnknownLabel
     else if \<not> absolute_path dir then Inl ConfigDirNotAbsolute
     else case jm_get t label of
       None \<Rightarrow> Inl ProfileNotFound
     | Some p \<Rightarrow>
        let p' = p\<lparr>pr_configDir := Some dir, pr_updatedAtIso := ts\<rparr>; t' = jm_set t label p'
        in r_bind (profileFromSql reg p') (\<lambda>r. Inr (t', r)))"

definition meta_set :: "(string, string) jmap \<Rightarrow> string \<Rightarrow> string \<Rightarrow> store_error + (string, string) jmap" where
  "meta_set t key val = (if is_blank key then Inl BlankKey else Inr (jm_set t key val))"

definition meta_all :: "(string, string) jmap \<Rightarrow> (string \<times> string) list" where
  "meta_all t = js_sort (\<lambda>a b. str_cmp (fst a) (fst b)) t"

section \<open>Properties\<close>

lemma registered_label:
  assumes "registry_inv reg" "registeredBackendServingLabel reg l = Some d"
  shows "jm_get reg (bd_id d) = Some d \<and> bd_id d \<notin> set BACKENDS \<and> bd_id d \<noteq> [] \<and> set (bd_substrates d) \<subseteq> set SUBSTRATES"
proof -
  obtain ex where ex: "reg = initial_registry @ ex" "jm_ok reg"
    "\<forall>(k, d)\<in>set ex. bd_id d = k \<and> k \<noteq> [] \<and> \<not> bd_builtin d \<and> set (bd_substrates d) \<subseteq> set SUBSTRATES"
    using assms(1) by (auto simp: registry_inv_def)
  have d: "d \<in> set (jm_values reg)" "\<not> bd_builtin d"
    using find_SomeD [OF assms(2) [unfolded registeredBackendServingLabel_def]] by auto
  then obtain k where k: "(k, d) \<in> set reg" by (auto simp: jm_values_def)
  have "(k, d) \<notin> set initial_registry"
    using d(2) by (auto simp: initial_registry_def BUILTIN_BACKEND_DESCRIPTORS_def)
  then have kx: "(k, d) \<in> set ex" using k ex(1) by simp
  then have i: "bd_id d = k" "k \<noteq> []" "set (bd_substrates d) \<subseteq> set SUBSTRATES" using ex(3) by auto
  have "k \<notin> fst ` set initial_registry" using ex(1,2) kx by (force simp: jm_ok_def)
  then show ?thesis using i in_set_jm_get [OF ex(2) k] builtin_keys by simp
qed

lemma builtin_lookup:
  assumes "registry_inv reg"
  shows "map_option bd_substrates (jm_get reg ''claude_code'') = Some [''sdk'', ''pty'']"
    "map_option bd_substrates (jm_get reg ''opencode'') = Some [''sdk'']"
    "map_option bd_substrates (jm_get reg ''lmstudio'') = Some [''sdk'']"
  using assms by (auto simp: registry_inv_def jm_get_def initial_registry_def BUILTIN_BACKEND_DESCRIPTORS_def)

text \<open>The guards of the accessor imply the constraints of the table.\<close>

lemma guards_imply_check:
  assumes inv: "registry_inv reg"
    and be: "backendForLabel reg (nl_accountLabel inp) = Some (nl_backend inp)"
    and sub: "substrateLegalFor reg (nl_substrate inp) (nl_backend inp)"
    and ne: "absolute_path (nl_cwd inp)" "nl_id inp \<noteq> []" "nl_purpose inp \<noteq> []" "nl_accountLabel inp \<noteq> []"
  shows "ledger_check (new_row ts inp) \<and> isBackend reg (nl_backend inp) \<and> nl_substrate inp \<in> set SUBSTRATES"
proof -
  let ?l = "nl_accountLabel inp" and ?b = "nl_backend inp" and ?s = "nl_substrate inp"
  have cwd: "nl_cwd inp \<noteq> []" using ne(1) by (auto simp: absolute_path_def)
  obtain d where d: "jm_get reg ?b = Some d" "?s \<in> set (bd_substrates d)"
    using sub by (auto simp: substrateLegalFor_def split: option.splits)
  have ib: "isBackend reg ?b" using d(1) by (simp add: isBackend_def jm_has_iff_get)
  consider (claude) "isClaudeAccountLabel ?l" "?b = ''claude_code''" "?s \<in> {''sdk'', ''pty''}"
    | (aws) "?l = ''AWS_DEV''" "?b = ''opencode''" "?s = ''sdk''"
    | (loc) "?l = ''LOCAL''" "?b = ''lmstudio''" "?s = ''sdk''"
    | (reg) "?b \<notin> set BACKENDS" "?s \<in> set SUBSTRATES" "?b \<noteq> []"
  proof -
    show thesis
    proof (cases "isClaudeAccountLabel ?l \<or> ?l = ''AWS_DEV'' \<or> ?l = ''LOCAL''")
      case True
      then show thesis using that be d builtin_lookup [OF inv] by (auto simp: backendForLabel_def split: if_splits)
    next
      case False
      then obtain e where e: "registeredBackendServingLabel reg ?l = Some e" "bd_id e = ?b"
        using be by (auto simp: backendForLabel_def)
      then have "e = d" using registered_label [OF inv e(1)] d(1) by simp
      then show thesis using that(4) registered_label [OF inv e(1)] e(2) d(2) by auto
    qed
  qed
  then show ?thesis
    by cases (use ne cwd ib in \<open>simp_all add: ledger_check_def new_row_def builtin_label_form_def BACKENDS_def SUBSTRATES_def\<close>)
qed

lemma insert_exact:
  fixes rops :: "registry_op list"
  defines "reg \<equiv> registry_run rops"
  shows "insertBeforeSpawn reg led ts inp =
    (if \<not> isAccountLabel reg (nl_accountLabel inp) then Inl UnknownLabel
     else if backendForLabel reg (nl_accountLabel inp) \<noteq> Some (nl_backend inp) then Inl PairingViolation
     else if \<not> substrateLegalFor reg (nl_substrate inp) (nl_backend inp) then Inl SubstrateIllegal
     else if \<not> absolute_path (nl_cwd inp) then Inl CwdNotAbsolute
     else if nl_id inp = [] \<or> nl_purpose inp = [] \<or> nl_accountLabel inp = [] \<or> jm_has led (nl_id inp)
     then Inl SqlConstraint
     else Inr (led @ [(nl_id inp, new_row ts inp)], new_row ts inp))"
proof -
  have inv: "registry_inv reg" unfolding reg_def by (rule registry_run_inv)
  have dec: "getRow reg (led @ [(nl_id inp, new_row ts inp)]) (nl_id inp) = Inr (new_row ts inp)"
    if "isAccountLabel reg (nl_accountLabel inp)" "isBackend reg (nl_backend inp)" "nl_substrate inp \<in> set SUBSTRATES"
      "jm_get led (nl_id inp) = None"
    using that by (simp add: getRow_Inr rowFromSql_def new_row_def jm_get_snoc)
  have empty: "\<not> ledger_check (new_row ts inp)" if "nl_id inp = [] \<or> nl_purpose inp = [] \<or> nl_accountLabel inp = []"
    using that by (auto simp: ledger_check_def new_row_def builtin_label_form_def isClaudeAccountLabel_def)
  show ?thesis
    unfolding insertBeforeSpawn_def jm_has_iff_get Let_def
    using guards_imply_check [OF inv, of inp ts] dec empty jm_has_iff_get [of led "nl_id inp"] jm_set_fresh [of led "nl_id inp"] by (auto simp del: not_None_eq)
qed

text \<open>What the ledger admits. Whatever was registered before, \<open>insertBeforeSpawn\<close> refuses an
  unknown label, a label paired with another backend, a substrate the backend does not have and a
  relative path, in this order and with these errors; beyond that the database refuses only an empty
  id, purpose or label and an id that is taken. Every other request is stored as a row in state
  \<open>spawning\<close> without pid and native id, at the end of the table, and is read back.\<close>

theorem insertBeforeSpawn_exact:
  fixes rops :: "registry_op list"
  defines "reg \<equiv> registry_run rops"
  shows "insertBeforeSpawn reg led ts inp =
    (if \<not> isAccountLabel reg (nl_accountLabel inp) then Inl UnknownLabel
     else if backendForLabel reg (nl_accountLabel inp) \<noteq> Some (nl_backend inp) then Inl PairingViolation
     else if \<not> substrateLegalFor reg (nl_substrate inp) (nl_backend inp) then Inl SubstrateIllegal
     else if \<not> absolute_path (nl_cwd inp) then Inl CwdNotAbsolute
     else if nl_id inp = [] \<or> nl_purpose inp = [] \<or> nl_accountLabel inp = [] \<or> jm_has led (nl_id inp)
     then Inl SqlConstraint
     else Inr (led @ [(nl_id inp, new_row ts inp)], new_row ts inp))"
  unfolding reg_def by (rule insert_exact)

text \<open>Claim C25: what a history of the ledger preserves. Take the ledger after any sequence of calls,
  successful or refused, and again after any further calls. A row that was there is still there with the
  same identity columns; a native session id, once set, is unchanged; the state has moved along legal
  transitions only; an exited session is still exited with the pid and nonce it had; and the row still
  satisfies the table's constraints.\<close>

theorem ledger_history:
  assumes "jm_get (foldl ledger_step [] calls) sid = Some r"
  shows "\<exists>r'. jm_get (foldl ledger_step [] (calls @ later)) sid = Some r' \<and> row_identity r' = row_identity r
    \<and> (rl_nativeSessionId r \<noteq> None \<longrightarrow> rl_nativeSessionId r' = rl_nativeSessionId r)
    \<and> (rl_state r, rl_state r') \<in> legal_rel\<^sup>*
    \<and> (rl_state r = Exited \<longrightarrow> rl_state r' = Exited \<and> rl_pid r' = rl_pid r \<and> rl_spawnNonce r' = rl_spawnNonce r)
    \<and> rl_id r' = sid \<and> ledger_check r'"
proof -
  have e: "ledger_table []" by (simp add: ledger_table_def jm_get_def)
  obtain r' where r': "jm_get (foldl ledger_step [] (calls @ later)) sid = Some r'" "row_le r r'"
    using lg.le_later [OF e, of calls later] assms unfolding ledger_le_def by blast
  moreover have "rl_id r' = sid \<and> ledger_check r'"
    using lg.inv_run [OF e, of "calls @ later"] r'(1) unfolding ledger_table_def by blast
  ultimately show ?thesis unfolding row_le_def using exited_final by metis
qed

text \<open>A session that runs and exits.\<close>

definition sample_insert :: new_ledger_row where
  "sample_insert = \<lparr>nl_id = ''ses_1'', nl_accountLabel = ''MAX_A'', nl_backend = ''claude_code'', nl_cwd = ''/w'',
     nl_substrate = ''sdk'', nl_purpose = ''p'', nl_workstreamHint = None\<rparr>"

lemma sample_inserted:
  "insertBeforeSpawn initial_registry [] ts sample_insert =
    Inr ([(''ses_1'', new_row ts sample_insert)], new_row ts sample_insert)"
  using insert_exact [of "[]" "[]" ts sample_insert]
  by (simp add: registry_run_def sample_insert_def isAccountLabel_def backendForLabel_def isClaudeAccountLabel_def
      is_upper_def substrateLegalFor_def jm_get_def jm_has_def initial_registry_def BUILTIN_BACKEND_DESCRIPTORS_def absolute_path_def)

theorem ledger_history_witness:
  "\<exists>r'. jm_get (foldl ledger_step [] ([(initial_registry, ''t0'', LInsert sample_insert)]
        @ [(initial_registry, ''t1'', LTransition ''ses_1'' Running), (initial_registry, ''t2'', LTransition ''ses_1'' Spawning)]))
      ''ses_1'' = Some r' \<and> (Spawning, rl_state r') \<in> legal_rel\<^sup>* \<and> ledger_check r'"
proof -
  have "jm_get (foldl ledger_step [] [(initial_registry, ''t0'', LInsert sample_insert)]) ''ses_1''
      = Some (new_row ''t0'' sample_insert)"
    by (simp add: ledger_step_def ledger_call_def sample_inserted jm_get_def)
  from ledger_history [OF this, of "[(initial_registry, ''t1'', LTransition ''ses_1'' Running),
      (initial_registry, ''t2'', LTransition ''ses_1'' Spawning)]"]
  show ?thesis by (auto simp: new_row_def)
qed

lemma decode_rows_ok: "list_all (\<lambda>r. rowFromSql reg r = Inr r) rs \<Longrightarrow> decode_rows reg rs = Inr rs"
  by (induction rs) simp_all

lemma created_cmp_total: "created_cmp r s \<le> 0 \<or> created_cmp s r \<le> 0"
  using str_cmp_total [of "rl_createdAtIso r" "rl_createdAtIso s"] str_cmp_total [of "rl_id r" "rl_id s"]
  by (auto simp: created_cmp_def then_cmp_def str_cmp_0)

lemma created_cmp_trans: "created_cmp r s \<le> 0 \<Longrightarrow> created_cmp s t \<le> 0 \<Longrightarrow> created_cmp r t \<le> 0"
  using str_cmp_trans [of "rl_createdAtIso r" "rl_createdAtIso s" "rl_createdAtIso t"]
    str_cmp_trans [of "rl_id r" "rl_id s" "rl_id t"] str_cmp_neg str_cmp_0
  unfolding created_cmp_def then_cmp_def by (smt (verit, best))

text \<open>The restart scan is exact. On a table whose unsettled rows decode, \<open>unreconciled\<close> returns
  every row that is not in state \<open>exited\<close> and no other, oldest first, ties broken by id.\<close>

theorem unreconciled_exact:
  assumes "\<And>r. r \<in> set (jm_values led) \<Longrightarrow> rl_state r \<noteq> Exited \<Longrightarrow> rowFromSql reg r = Inr r"
  shows "\<exists>rows. unreconciled reg led = Inr rows
    \<and> set rows = {r \<in> set (jm_values led). rl_state r \<noteq> Exited}
    \<and> sorted_wrt (\<lambda>r s. created_cmp r s \<le> 0) rows"
proof -
  have act: "s \<in> set ACTIVE_SESSION_STATES \<longleftrightarrow> s \<noteq> Exited" for s
    by (cases s) (simp_all add: ACTIVE_SESSION_STATES_def)
  let ?rows = "select_states led ACTIVE_SESSION_STATES"
  have set: "set ?rows = {r \<in> set (jm_values led). rl_state r \<noteq> Exited}"
    by (auto simp: select_states_def act)
  then have "list_all (\<lambda>r. rowFromSql reg r = Inr r) ?rows" using assms by (auto simp: list_all_iff)
  then have "unreconciled reg led = Inr ?rows" by (simp add: unreconciled_def decode_rows_ok)
  moreover have "sorted_wrt (\<lambda>r s. created_cmp r s \<le> 0) ?rows"
    unfolding select_states_def by (rule sorted_js_sort [OF created_cmp_total created_cmp_trans])
  ultimately show ?thesis using set by blast
qed

theorem unreconciled_exact_witness:
  "\<exists>rows. unreconciled initial_registry [(''ses_1'', new_row ''t0'' sample_insert)] = Inr rows
     \<and> set rows = {new_row ''t0'' sample_insert}"
proof -
  have "rowFromSql initial_registry (new_row ''t0'' sample_insert) = Inr (new_row ''t0'' sample_insert)"
    by (simp add: rowFromSql_def new_row_def sample_insert_def isAccountLabel_def isClaudeAccountLabel_def is_upper_def
        isBackend_def jm_has_def initial_registry_def BUILTIN_BACKEND_DESCRIPTORS_def SUBSTRATES_def)
  moreover have "{r \<in> set (jm_values [(''ses_1'', new_row ''t0'' sample_insert)]). rl_state r \<noteq> Exited}
      = {new_row ''t0'' sample_insert}"
    by (auto simp: jm_values_def new_row_def)
  ultimately show ?thesis
    using unreconciled_exact [of "[(''ses_1'', new_row ''t0'' sample_insert)]" initial_registry]
    by (auto simp: jm_values_def)
qed

end
