(* ===== verification/Dag.thy ===== *)
theory Dag
  imports Vocab
begin

text \<open>
  The pipeline document format: the types of \<open>packages/protocol/src/dag/types.ts\<close> and the validator
  of \<open>validate.ts\<close>, from a JSON value to a sanitized document or the first refusal (its code and
  path; the message text is omitted). \<open>isAccountLabel\<close> reads the backend registry, which is a
  parameter of the validators.
\<close>

section \<open>Vocabularies\<close>

definition DAG_SCHEMA_VERSION :: nat where "DAG_SCHEMA_VERSION = 1"

definition STEP_KINDS :: "string list" where
  "STEP_KINDS = [''prompt'', ''skill'', ''agent'', ''workflow-script'', ''approval'']"

definition isStepKind :: "string \<Rightarrow> bool" where
  "isStepKind s = (s \<in> set STEP_KINDS)"

definition STEP_BACKENDS :: "string list" where
  "STEP_BACKENDS = [''claude'', ''opencode'', ''bedrock'', ''lmstudio'']"

definition isStepBackend :: "string \<Rightarrow> bool" where
  "isStepBackend s = (s \<in> set STEP_BACKENDS)"

definition accountStepBackendsFor :: "string \<Rightarrow> string list" where
  "accountStepBackendsFor label =
    (if isClaudeAccountLabel label then [''claude'']
     else if label = ''AWS_DEV'' then [''opencode'', ''bedrock'']
     else if label = ''LOCAL'' then [''lmstudio''] else [])"

definition PERMISSION_MODES :: "string list" where
  "PERMISSION_MODES = [''default'', ''acceptEdits'', ''plan'', ''bypassPermissions'']"

definition isPermissionMode :: "string \<Rightarrow> bool" where
  "isPermissionMode s = (s \<in> set PERMISSION_MODES)"

definition ON_ERROR_POLICIES :: "string list" where
  "ON_ERROR_POLICIES = [''fail'', ''continue'']"

definition RETRY_ON_CLASSES :: "string list" where
  "RETRY_ON_CLASSES = [''rate_limit'', ''overloaded'', ''timeout'', ''network'']"

definition isRetryOnClass :: "string \<Rightarrow> bool" where
  "isRetryOnClass s = (s \<in> set RETRY_ON_CLASSES)"

definition CAPABILITY_SCOPES :: "string list" where
  "CAPABILITY_SCOPES = [''enterprise'', ''user'', ''project'', ''plugin'', ''opencode-global'', ''opencode-project'']"

definition isCapabilityScope :: "string \<Rightarrow> bool" where
  "isCapabilityScope s = (s \<in> set CAPABILITY_SCOPES)"

text \<open>The three identifier patterns share the charset \<open>[A-Za-z0-9_-]\<close>.\<close>

definition id_char :: "char \<Rightarrow> bool" where
  "id_char c = (let n = of_char c :: nat in
     (65 \<le> n \<and> n \<le> 90) \<or> (97 \<le> n \<and> n \<le> 122) \<or> (48 \<le> n \<and> n \<le> 57) \<or> n = 95 \<or> n = 45)"

definition DAG_ID_RE :: "string \<Rightarrow> bool" where
  "DAG_ID_RE s = (1 \<le> length s \<and> length s \<le> 128 \<and> list_all id_char s)"

definition STEP_ID_RE :: "string \<Rightarrow> bool" where
  "STEP_ID_RE s = (1 \<le> length s \<and> length s \<le> 64 \<and> list_all id_char s)"

definition DAG_NAME_RE :: "string \<Rightarrow> bool" where
  "DAG_NAME_RE s = (1 \<le> length s \<and> length s \<le> 64 \<and> list_all id_char s)"

section \<open>Documents\<close>

record retry_policy =
  rp_max :: nat
  rp_backoffSec :: "rat option"
  rp_retryOn :: "string list option"

record step_budget =
  sb_usd :: "rat option"
  sb_turns :: "nat option"
  sb_wallClockSec :: "nat option"

record capability_ref =
  cr_name :: string
  cr_scope :: "string option"
  cr_args :: "string option"

record loop_control =
  lc_until :: string
  lc_maxIterations :: nat

record step_control =
  sc_needs :: "string list option"
  sc_when :: "string option"
  sc_forEach :: "string option"
  sc_maxParallel :: "nat option"
  sc_loop :: "loop_control option"

record exec_common =
  ec_account :: "string option"
  ec_backend :: "string option"
  ec_cwd :: "string option"
  ec_permissionMode :: "string option"
  ec_budget :: "step_budget option"
  ec_retry :: "retry_policy option"
  ec_outputSchema :: "json option"
  ec_onError :: "string option"

datatype pipeline_step =
    PromptStep string step_control exec_common string
  | SkillStep string step_control exec_common capability_ref "string option"
  | AgentStep string step_control exec_common capability_ref string
  | WorkflowScriptStep string step_control exec_common string
  | ApprovalStep string step_control "string option" "nat option" "string option"

fun step_id :: "pipeline_step \<Rightarrow> string" where
  "step_id (PromptStep i _ _ _) = i"
| "step_id (SkillStep i _ _ _ _) = i"
| "step_id (AgentStep i _ _ _ _) = i"
| "step_id (WorkflowScriptStep i _ _ _) = i"
| "step_id (ApprovalStep i _ _ _ _) = i"

fun step_ctl :: "pipeline_step \<Rightarrow> step_control" where
  "step_ctl (PromptStep _ c _ _) = c"
| "step_ctl (SkillStep _ c _ _ _) = c"
| "step_ctl (AgentStep _ c _ _ _) = c"
| "step_ctl (WorkflowScriptStep _ c _ _) = c"
| "step_ctl (ApprovalStep _ c _ _ _) = c"

fun step_exec :: "pipeline_step \<Rightarrow> exec_common option" where
  "step_exec (PromptStep _ _ e _) = Some e"
| "step_exec (SkillStep _ _ e _ _) = Some e"
| "step_exec (AgentStep _ _ e _ _) = Some e"
| "step_exec (WorkflowScriptStep _ _ e _) = Some e"
| "step_exec (ApprovalStep _ _ _ _ _) = None"

definition step_needs :: "pipeline_step \<Rightarrow> string list" where
  "step_needs s = (case sc_needs (step_ctl s) of None \<Rightarrow> [] | Some ns \<Rightarrow> ns)"

record dag_defaults =
  dd_account :: "string option"
  dd_backend :: "string option"
  dd_permissionMode :: "string option"
  dd_cwd :: "string option"

record dag_document =
  dg_id :: string
  dg_name :: string
  dg_description :: "string option"
  dg_defaults :: "dag_defaults option"
  dg_inputs :: "(string \<times> json) list option"
  dg_steps :: "pipeline_step list"

section \<open>Refusals\<close>

datatype dag_issue_code = UnsupportedVersion | UnknownStepKind | DanglingNeeds | DuplicateStepId
  | Cycle | InvalidAccount | BadShape

record dag_issue =
  di_code :: dag_issue_code
  di_path :: string

definition dag_fail :: "dag_issue_code \<Rightarrow> string \<Rightarrow> dag_issue" where
  "dag_fail code path = \<lparr>di_code = code, di_path = path\<rparr>"

section \<open>Primitives\<close>

text \<open>The checked value as the validators use it afterwards: \<open>positive_int v\<close> is \<open>Some n\<close> exactly when
  \<open>isPositiveInteger v\<close>.\<close>

definition non_empty_str :: "json \<Rightarrow> string option" where
  "non_empty_str v = (case v of JStr s \<Rightarrow> if s = [] then None else Some s | _ \<Rightarrow> None)"

definition str_in :: "'e \<Rightarrow> (string \<Rightarrow> bool) \<Rightarrow> json \<Rightarrow> 'e + string" where
  "str_in e P v = (case v of JStr s \<Rightarrow> if P s then Inr s else Inl e | _ \<Rightarrow> Inl e)"

definition str_when :: "(string \<Rightarrow> bool) \<Rightarrow> json \<Rightarrow> string option" where
  "str_when P v = (case v of JStr s \<Rightarrow> if P s then Some s else None | _ \<Rightarrow> None)"

definition str_elems :: "(string \<Rightarrow> bool) \<Rightarrow> json \<Rightarrow> string list option" where
  "str_elems P v = (case v of
     JArr xs \<Rightarrow> if list_all (\<lambda>x. case x of JStr s \<Rightarrow> P s | _ \<Rightarrow> False) xs
       then Some (map (\<lambda>x. case x of JStr s \<Rightarrow> s | _ \<Rightarrow> []) xs) else None
   | _ \<Rightarrow> None)"

definition up_to :: "nat \<Rightarrow> nat \<Rightarrow> nat option" where
  "up_to m n = (if n > m then None else Some n)"

definition positive_int :: "json \<Rightarrow> nat option" where
  "positive_int v = (case v of JNum x \<Rightarrow>
     (case as_safe_nat x of Some n \<Rightarrow> if n > 0 then Some n else None | None \<Rightarrow> None) | _ \<Rightarrow> None)"

definition non_negative_int :: "json \<Rightarrow> nat option" where
  "non_negative_int v = (case v of JNum x \<Rightarrow> as_safe_nat x | _ \<Rightarrow> None)"

definition positive_finite :: "json \<Rightarrow> rat option" where
  "positive_finite v = (case v of JNum (Fin q) \<Rightarrow> if q > 0 then Some q else None | _ \<Rightarrow> None)"

definition non_negative_finite :: "json \<Rightarrow> rat option" where
  "non_negative_finite v = (case v of JNum (Fin q) \<Rightarrow> if q < 0 then None else Some q | _ \<Rightarrow> None)"

definition isAbsolutePath :: "string \<Rightarrow> bool" where
  "isAbsolutePath s = (s \<noteq> [] \<and> hd s = CHR ''/'')"

definition is_digit :: "char \<Rightarrow> bool" where
  "is_digit c = (48 \<le> (of_char c :: nat) \<and> (of_char c :: nat) \<le> 57)"

definition is_alpha :: "char \<Rightarrow> bool" where
  "is_alpha c = ((65 \<le> (of_char c :: nat) \<and> (of_char c :: nat) \<le> 90) \<or>
     (97 \<le> (of_char c :: nat) \<and> (of_char c :: nat) \<le> 122))"

definition email_local_char :: "char \<Rightarrow> bool" where
  "email_local_char c = (is_alpha c \<or> is_digit c \<or> c \<in> set ''._%+-'')"

definition email_domain_char :: "char \<Rightarrow> bool" where
  "email_domain_char c = (is_alpha c \<or> is_digit c \<or> c \<in> set ''.-'')"

text \<open>The part of \<open>EMAIL_RE\<close> after the at sign: domain characters, a dot, two letters.\<close>

definition email_tail :: "string \<Rightarrow> bool" where
  "email_tail r = list_ex (\<lambda>n. list_all email_domain_char (take n r) \<and> r ! n = CHR ''.''
     \<and> is_alpha (r ! (n + 1)) \<and> is_alpha (r ! (n + 2))) [1..<length r - 2]"

definition EMAIL_RE :: "string \<Rightarrow> bool" where
  "EMAIL_RE s = list_ex (\<lambda>i. email_local_char (s ! i) \<and> s ! (i + 1) = CHR ''@''
     \<and> email_tail (drop (i + 2) s)) [0..<length s - 1]"

definition TWELVE_DIGIT_RE :: "string \<Rightarrow> bool" where
  "TWELVE_DIGIT_RE s = list_ex (\<lambda>i. (i = 0 \<or> \<not> is_digit (s ! (i - 1)))
     \<and> list_all is_digit (take 12 (drop i s))
     \<and> (i + 12 = length s \<or> \<not> is_digit (s ! (i + 12)))) [0..<length s - 11]"

definition screenNaming :: "string \<Rightarrow> string \<Rightarrow> dag_issue + unit" where
  "screenNaming path value =
    (if EMAIL_RE value then Inl (dag_fail BadShape path)
     else if TWELVE_DIGIT_RE value then Inl (dag_fail BadShape path) else Inr ())"

section \<open>Sub-object validators\<close>

text \<open>\<open>raw\<close> account and backend values: any JSON value may stand there.\<close>

definition checkAccountBackend ::
  "registry \<Rightarrow> string \<Rightarrow> json option \<Rightarrow> json option \<Rightarrow> dag_issue + (string option \<times> string option)" where
  "checkAccountBackend reg path account backend =
    r_bind (opt_field account (str_in (dag_fail InvalidAccount path) (isAccountLabel reg))) (\<lambda>acc.
    r_bind (opt_field backend (str_in (dag_fail BadShape path) isStepBackend)) (\<lambda>be.
    r_bind (guard (case (acc, be) of (Some a, Some b) \<Rightarrow> b \<in> set (accountStepBackendsFor a) | _ \<Rightarrow> True)
              (dag_fail InvalidAccount path)) (\<lambda>_.
    Inr (acc, be))))"

definition of_option :: "'e \<Rightarrow> 'a option \<Rightarrow> 'e + 'a" where
  "of_option e x = (case x of None \<Rightarrow> Inl e | Some y \<Rightarrow> Inr y)"

definition validateBudget :: "string \<Rightarrow> json \<Rightarrow> dag_issue + step_budget" where
  "validateBudget path value =
    r_bind (guard (isRecord value) (dag_fail BadShape path)) (\<lambda>_.
    r_bind (opt_field (obj_get value ''usd'')
       (\<lambda>v. of_option (dag_fail BadShape (path @ ''.usd'')) (positive_finite v))) (\<lambda>usd.
    r_bind (opt_field (obj_get value ''turns'')
       (\<lambda>v. of_option (dag_fail BadShape (path @ ''.turns'')) (positive_int v))) (\<lambda>turns.
    r_bind (opt_field (obj_get value ''wallClockSec'')
       (\<lambda>v. of_option (dag_fail BadShape (path @ ''.wallClockSec'')) (positive_int v))) (\<lambda>wall.
    r_bind (guard (usd \<noteq> None \<or> turns \<noteq> None \<or> wall \<noteq> None) (dag_fail BadShape path)) (\<lambda>_.
    Inr \<lparr>sb_usd = usd, sb_turns = turns, sb_wallClockSec = wall\<rparr>)))))"

definition retry_classes :: "json \<Rightarrow> string list option" where
  "retry_classes v = Option.bind (str_elems isRetryOnClass v) (\<lambda>cs. if cs = [] then None else Some cs)"

definition validateRetry :: "string \<Rightarrow> json \<Rightarrow> dag_issue + retry_policy" where
  "validateRetry path value =
    r_bind (guard (isRecord value) (dag_fail BadShape path)) (\<lambda>_.
    r_bind (of_option (dag_fail BadShape (path @ ''.max''))
       (Option.bind (Option.bind (obj_get value ''max'') non_negative_int) (up_to 10))) (\<lambda>mx.
    r_bind (opt_field (obj_get value ''backoffSec'')
       (\<lambda>v. of_option (dag_fail BadShape (path @ ''.backoffSec''))
          (non_negative_finite v))) (\<lambda>backoff.
    r_bind (opt_field (obj_get value ''retryOn'')
       (\<lambda>v. of_option (dag_fail BadShape (path @ ''.retryOn'')) (retry_classes v))) (\<lambda>retryOn.
    Inr \<lparr>rp_max = mx, rp_backoffSec = backoff, rp_retryOn = retryOn\<rparr>))))"

definition validateCapabilityRef :: "string \<Rightarrow> json option \<Rightarrow> dag_issue + capability_ref" where
  "validateCapabilityRef path value0 =
    r_bind (of_option (dag_fail BadShape path) value0) (\<lambda>value.
    r_bind (guard (isRecord value) (dag_fail BadShape path)) (\<lambda>_.
    r_bind (of_option (dag_fail BadShape (path @ ''.name''))
       (Option.bind (obj_get value ''name'') non_empty_str)) (\<lambda>name.
    r_bind (screenNaming (path @ ''.name'') name) (\<lambda>_.
    r_bind (opt_field (obj_get value ''scope'')
       (str_in (dag_fail BadShape (path @ ''.scope'')) isCapabilityScope)) (\<lambda>scope.
    r_bind (opt_field (obj_get value ''args'')
       (\<lambda>v. of_option (dag_fail BadShape (path @ ''.args'')) (as_str v))) (\<lambda>args.
    Inr \<lparr>cr_name = name, cr_scope = scope, cr_args = args\<rparr>))))))"

definition validateLoop :: "string \<Rightarrow> json \<Rightarrow> dag_issue + loop_control" where
  "validateLoop path value =
    r_bind (guard (isRecord value) (dag_fail BadShape path)) (\<lambda>_.
    r_bind (of_option (dag_fail BadShape (path @ ''.until''))
       (Option.bind (obj_get value ''until'') non_empty_str)) (\<lambda>until.
    r_bind (of_option (dag_fail BadShape (path @ ''.maxIterations''))
       (Option.bind (Option.bind (obj_get value ''maxIterations'') positive_int) (up_to 100))) (\<lambda>n.
    Inr \<lparr>lc_until = until, lc_maxIterations = n\<rparr>)))"

definition validateOnError :: "string \<Rightarrow> json \<Rightarrow> string list \<Rightarrow> dag_issue + string" where
  "validateOnError path value stepIds =
    r_bind (of_option (dag_fail BadShape path) (as_str value)) (\<lambda>s.
    if s \<in> set ON_ERROR_POLICIES then Inr s
    else if take 5 s = ''goto:'' then
      (if drop 5 s \<in> set stepIds then Inr s else Inl (dag_fail DanglingNeeds path))
    else Inl (dag_fail BadShape path))"

section \<open>Steps\<close>

definition validateStepCommonControl :: "string \<Rightarrow> string list \<Rightarrow> json \<Rightarrow> dag_issue + step_control" where
  "validateStepCommonControl path stepIds raw =
    r_bind (opt_field (obj_get raw ''needs'') (\<lambda>v.
       r_bind (of_option (dag_fail BadShape (path @ ''.needs'')) (str_elems (\<lambda>s. s \<noteq> []) v)) (\<lambda>ns.
       r_bind (guard (list_all (\<lambda>n. n \<in> set stepIds) ns) (dag_fail DanglingNeeds (path @ ''.needs''))) (\<lambda>_.
       Inr ns)))) (\<lambda>needs.
    r_bind (opt_field (obj_get raw ''when'')
       (\<lambda>v. of_option (dag_fail BadShape (path @ ''.when'')) (non_empty_str v))) (\<lambda>when.
    r_bind (guard (\<not> (obj_get raw ''forEach'' \<noteq> None \<and> obj_get raw ''loop'' \<noteq> None)) (dag_fail BadShape path)) (\<lambda>_.
    r_bind (opt_field (obj_get raw ''forEach'')
       (\<lambda>v. of_option (dag_fail BadShape (path @ ''.forEach'')) (non_empty_str v))) (\<lambda>forEach.
    r_bind (if obj_get raw ''forEach'' \<noteq> None
       then opt_field (obj_get raw ''maxParallel'') (\<lambda>v. of_option (dag_fail BadShape (path @ ''.maxParallel''))
              (Option.bind (positive_int v) (up_to 16)))
       else if obj_get raw ''maxParallel'' \<noteq> None then Inl (dag_fail BadShape (path @ ''.maxParallel''))
       else Inr None) (\<lambda>maxParallel.
    r_bind (opt_field (obj_get raw ''loop'') (validateLoop (path @ ''.loop''))) (\<lambda>loop.
    Inr \<lparr>sc_needs = needs, sc_when = when, sc_forEach = forEach, sc_maxParallel = maxParallel, sc_loop = loop\<rparr>))))))"

definition has_type :: "json \<Rightarrow> bool" where
  "has_type v = (isRecord v \<and> (case obj_get v ''type'' of Some (JStr _) \<Rightarrow> True | _ \<Rightarrow> False))"

definition validateExecutableCommon :: "registry \<Rightarrow> string \<Rightarrow> string list \<Rightarrow> json \<Rightarrow> dag_issue + exec_common" where
  "validateExecutableCommon reg path stepIds raw =
    r_bind (checkAccountBackend reg path (obj_get raw ''account'') (obj_get raw ''backend'')) (\<lambda>ab.
    r_bind (opt_field (obj_get raw ''cwd'') (\<lambda>v.
       r_bind (of_option (dag_fail BadShape (path @ ''.cwd'')) (non_empty_str v)) (\<lambda>s.
       r_bind (guard (sublist ''${'' s \<or> hd s = CHR ''/'') (dag_fail BadShape (path @ ''.cwd''))) (\<lambda>_. Inr s)))) (\<lambda>cwd.
    r_bind (opt_field (obj_get raw ''permissionMode'') (str_in (dag_fail BadShape (path @ ''.permissionMode'')) isPermissionMode)) (\<lambda>pm.
    r_bind (opt_field (obj_get raw ''budget'') (validateBudget (path @ ''.budget''))) (\<lambda>budget.
    r_bind (opt_field (obj_get raw ''retry'') (validateRetry (path @ ''.retry''))) (\<lambda>retry.
    r_bind (opt_field (obj_get raw ''outputSchema'') (\<lambda>v.
       if has_type v then Inr v else Inl (dag_fail BadShape (path @ ''.outputSchema'')))) (\<lambda>schema.
    r_bind (opt_field (obj_get raw ''onError'') (\<lambda>v. validateOnError (path @ ''.onError'') v stepIds)) (\<lambda>onError.
    Inr \<lparr>ec_account = fst ab, ec_backend = snd ab, ec_cwd = cwd, ec_permissionMode = pm, ec_budget = budget,
         ec_retry = retry, ec_outputSchema = schema, ec_onError = onError\<rparr>)))))))"

definition validateApproval :: "string \<Rightarrow> string \<Rightarrow> step_control \<Rightarrow> json \<Rightarrow> dag_issue + pipeline_step" where
  "validateApproval path sid control raw =
    r_bind (opt_field (obj_get raw ''summary'') (\<lambda>v.
       r_bind (of_option (dag_fail BadShape (path @ ''.summary'')) (non_empty_str v)) (\<lambda>s.
       r_bind (screenNaming (path @ ''.summary'') s) (\<lambda>_. Inr s)))) (\<lambda>summary.
    r_bind (opt_field (obj_get raw ''timeoutSec'')
       (\<lambda>v. of_option (dag_fail BadShape (path @ ''.timeoutSec'')) (positive_int v))) (\<lambda>timeoutSec.
    r_bind (opt_field (obj_get raw ''onTimeout'') (str_in (dag_fail BadShape (path @ ''.onTimeout''))
       (\<lambda>s. s = ''fail'' \<or> s = ''continue''))) (\<lambda>onTimeout.
    Inr (ApprovalStep sid control summary timeoutSec onTimeout))))"

definition required_prompt :: "string \<Rightarrow> json \<Rightarrow> dag_issue + string" where
  "required_prompt path raw =
    r_bind (of_option (dag_fail BadShape (path @ ''.prompt''))
       (Option.bind (obj_get raw ''prompt'') non_empty_str)) (\<lambda>p.
    r_bind (screenNaming (path @ ''.prompt'') p) (\<lambda>_. Inr p))"

definition validateExecutable :: "string \<Rightarrow> string \<Rightarrow> string \<Rightarrow> step_control \<Rightarrow> exec_common \<Rightarrow> json \<Rightarrow> dag_issue + pipeline_step" where
  "validateExecutable path kind sid control exec raw =
    (if kind = ''prompt'' then
       r_bind (required_prompt path raw) (\<lambda>p. Inr (PromptStep sid control exec p))
     else if kind = ''skill'' then
       r_bind (validateCapabilityRef (path @ ''.skill'') (obj_get raw ''skill'')) (\<lambda>ref.
       r_bind (opt_field (obj_get raw ''prompt'')
         (\<lambda>v. of_option (dag_fail BadShape (path @ ''.prompt'')) (non_empty_str v))) (\<lambda>p.
       Inr (SkillStep sid control exec ref p)))
     else if kind = ''agent'' then
       r_bind (validateCapabilityRef (path @ ''.agent'') (obj_get raw ''agent'')) (\<lambda>ref.
       r_bind (required_prompt path raw) (\<lambda>p. Inr (AgentStep sid control exec ref p)))
     else
       r_bind (of_option (dag_fail BadShape (path @ ''.scriptPath'')) (Option.bind (obj_get raw ''scriptPath'') (str_when isAbsolutePath))) (\<lambda>s.
       Inr (WorkflowScriptStep sid control exec s)))"

definition validateStep :: "registry \<Rightarrow> string \<Rightarrow> string list \<Rightarrow> json \<Rightarrow> dag_issue + pipeline_step" where
  "validateStep reg path stepIds raw =
    r_bind (guard (isRecord raw) (dag_fail BadShape path)) (\<lambda>_.
    r_bind (of_option (dag_fail UnknownStepKind (path @ ''.kind''))
       (Option.bind (obj_get raw ''kind'') (str_when isStepKind))) (\<lambda>kind.
    r_bind (of_option (dag_fail BadShape (path @ ''.id''))
       (Option.bind (obj_get raw ''id'') (str_when STEP_ID_RE))) (\<lambda>sid.
    r_bind (validateStepCommonControl path stepIds raw) (\<lambda>control.
    if kind = ''approval'' then validateApproval path sid control raw
    else r_bind (validateExecutableCommon reg path stepIds raw) (\<lambda>exec.
         validateExecutable path kind sid control exec raw)))))"

section \<open>Defaults and inputs\<close>

definition validateDefaults :: "registry \<Rightarrow> json \<Rightarrow> dag_issue + dag_defaults" where
  "validateDefaults reg value =
    r_bind (guard (isRecord value) (dag_fail BadShape ''defaults'')) (\<lambda>_.
    r_bind (checkAccountBackend reg ''defaults'' (obj_get value ''account'') (obj_get value ''backend'')) (\<lambda>ab.
    r_bind (opt_field (obj_get value ''permissionMode'') (str_in (dag_fail BadShape ''defaults.permissionMode'') isPermissionMode)) (\<lambda>pm.
    r_bind (opt_field (obj_get value ''cwd'')
       (\<lambda>v. of_option (dag_fail BadShape ''defaults.cwd'') (non_empty_str v))) (\<lambda>cwd.
    Inr \<lparr>dd_account = fst ab, dd_backend = snd ab, dd_permissionMode = pm, dd_cwd = cwd\<rparr>))))"

text \<open>The sanitized inputs are built by \<open>out[name] = schema\<close> on an object literal: the name \<open>__proto__\<close>
  passes \<open>DAG_NAME_RE\<close> but the assignment sets the prototype and adds no key.\<close>

primrec validate_inputs :: "(string \<times> json) list \<Rightarrow> dag_issue + (string \<times> json) list" where
  "validate_inputs [] = Inr []"
| "validate_inputs (kv # kvs) =
    (if \<not> DAG_NAME_RE (fst kv) then Inl (dag_fail BadShape (''inputs.'' @ fst kv))
     else if \<not> has_type (snd kv) then Inl (dag_fail BadShape (''inputs.'' @ fst kv))
     else r_bind (validate_inputs kvs) (\<lambda>rest. Inr (if fst kv = ''__proto__'' then rest else kv # rest)))"

definition validateInputs :: "json \<Rightarrow> dag_issue + (string \<times> json) list" where
  "validateInputs value = (case value of
     JObj kvs \<Rightarrow> validate_inputs kvs | _ \<Rightarrow> Inl (dag_fail BadShape ''inputs''))"

lemma of_option_Inr: "of_option e x = Inr y \<longleftrightarrow> x = Some y"
  by (auto simp: of_option_def split: option.splits)

end
