(* ===== verification/Approvals.thy ===== *)
theory Approvals
  imports Resume_Ledger Dag
begin

text \<open>
  The approval broker of \<open>core/src/kernel/approvals.ts\<close>: the queue of pending approvals, its fan-out to
  subscribers, decisions, expiry timers, supersession and shutdown, and the bridge that turns a
  resolution into the answer the SDK gets.

  The state is a record: the pending map in arrival order, the armed timers, the settled promises, the
  subscribers in order of subscription and the log of what each was sent. A promise is named by a handle
  (a counter); a second resolution of a settled promise has no effect, as in JavaScript. Time enters as an
  argument. A subscriber that throws is ignored by the code and leaves no trace in the model; subscribers
  that call back into the broker from inside a notification are outside the model.

  Shown: while the ids minted are not already pending, every escalation is settled exactly once or still
  pending, nothing stays pending after a shutdown, and an allowance always comes from an explicit
  decision.
\<close>

section \<open>Data\<close>

datatype approval_source = CanUseTool | HookFloor | WorkflowGate

datatype approval_outcome = Allowed | Denied | Expired | Superseded

datatype approval_verdict = Allow | Deny

text \<open>\<open>ttlMs\<close>: absent, null, or a number of milliseconds.\<close>

datatype ttl = TtlDefault | TtlNull | TtlMs int

record approval_input =
  ai_source :: approval_source
  ai_summary :: string
  ai_accountLabel :: string
  ai_sessionId :: "string option"
  ai_toolName :: "string option"
  ai_toolUseId :: "string option"
  ai_runId :: "string option"
  ai_stepId :: "string option"
  ai_ttlMs :: ttl

record approval_request =
  ar_approvalId :: string
  ar_source :: approval_source
  ar_summary :: string
  ar_accountLabel :: string
  ar_sessionId :: "string option"
  ar_toolName :: "string option"
  ar_toolUseId :: "string option"
  ar_runId :: "string option"
  ar_stepId :: "string option"
  ar_expiresAt :: "int option"

record approval_resolution =
  rs_outcome :: approval_outcome
  rs_updatedInput :: "json option"
  rs_note :: "string option"

record approval_decision =
  ad_approvalId :: string
  ad_verdict :: approval_verdict
  ad_updatedInput :: "json option"
  ad_note :: "string option"

datatype approvals_msg = RequestMsg approval_request | ResolvedMsg string approval_outcome

datatype approval_error = BrokerClosed | InvalidRequest | InvalidApprovalId | UpdatedInputOnDeny | ApprovalNotPending

record pending_entry =
  pe_handle :: nat
  pe_request :: approval_request

record broker =
  br_pending :: "(string, pending_entry) jmap"
  br_timers :: "(nat, pending_entry) jmap"
  br_settled :: "(nat, approval_resolution) jmap"
  br_listeners :: "nat list"
  br_log :: "(nat \<times> approvals_msg) list"
  br_closed :: bool
  br_next :: nat

definition DEFAULT_APPROVAL_TTL_MS :: int where
  "DEFAULT_APPROVAL_TTL_MS = 10 * 60 * 1000"

definition createApprovalBroker :: broker where
  "createApprovalBroker = \<lparr>br_pending = [], br_timers = [], br_settled = [], br_listeners = [], br_log = [],
     br_closed = False, br_next = 0\<rparr>"

section \<open>Operations\<close>

definition fanOut :: "broker \<Rightarrow> approvals_msg \<Rightarrow> broker" where
  "fanOut b msg = b\<lparr>br_log := br_log b @ map (\<lambda>l. (l, msg)) (br_listeners b)\<rparr>"

text \<open>Resolving a promise: the first resolution stands.\<close>

definition settle :: "(nat, approval_resolution) jmap \<Rightarrow> nat \<Rightarrow> approval_resolution \<Rightarrow> (nat, approval_resolution) jmap" where
  "settle m h r = (if jm_has m h then m else jm_set m h r)"

definition resolveEntry :: "broker \<Rightarrow> pending_entry \<Rightarrow> approval_outcome \<Rightarrow> json option \<Rightarrow> string option \<Rightarrow> broker" where
  "resolveEntry b entry outcome ui note =
    fanOut (b\<lparr>br_timers := jm_delete (br_timers b) (pe_handle entry),
              br_pending := jm_delete (br_pending b) (ar_approvalId (pe_request entry)),
              br_settled := settle (br_settled b) (pe_handle entry)
                 \<lparr>rs_outcome = outcome, rs_updatedInput = ui, rs_note = note\<rparr>\<rparr>)
           (ResolvedMsg (ar_approvalId (pe_request entry)) outcome)"

definition assertMatrix :: "registry \<Rightarrow> approval_input \<Rightarrow> bool" where
  "assertMatrix reg inp = (ai_summary inp \<noteq> [] \<and> isAccountLabel reg (ai_accountLabel inp) \<and> (case ai_source inp of
     WorkflowGate \<Rightarrow> ai_runId inp \<noteq> None \<and> ai_stepId inp \<noteq> None \<and> ai_toolName inp = None \<and> ai_toolUseId inp = None
   | _ \<Rightarrow> ai_sessionId inp \<noteq> None \<and> ai_toolName inp \<noteq> None \<and> ai_runId inp = None \<and> ai_stepId inp = None))"

definition APPROVAL_ID_RE :: "string \<Rightarrow> bool" where
  "APPROVAL_ID_RE s = (s \<noteq> [] \<and> length s \<le> 128 \<and> list_all id_char s)"

definition ttl_of :: "int option \<Rightarrow> ttl \<Rightarrow> int option" where
  "ttl_of defaultTtl t = (case t of TtlDefault \<Rightarrow> defaultTtl | TtlNull \<Rightarrow> None | TtlMs n \<Rightarrow> Some n)"

definition request_of :: "int option \<Rightarrow> string \<Rightarrow> int \<Rightarrow> approval_input \<Rightarrow> approval_request" where
  "request_of defaultTtl aid now inp = \<lparr>ar_approvalId = aid, ar_source = ai_source inp, ar_summary = ai_summary inp,
     ar_accountLabel = ai_accountLabel inp, ar_sessionId = ai_sessionId inp, ar_toolName = ai_toolName inp,
     ar_toolUseId = ai_toolUseId inp, ar_runId = ai_runId inp, ar_stepId = ai_stepId inp,
     ar_expiresAt = map_option (\<lambda>ms. now + ms) (ttl_of defaultTtl (ai_ttlMs inp))\<rparr>"

definition broker_request ::
  "registry \<Rightarrow> int option \<Rightarrow> broker \<Rightarrow> string \<Rightarrow> int \<Rightarrow> approval_input \<Rightarrow> approval_error + (broker \<times> nat)" where
  "broker_request reg defaultTtl b aid now inp =
    (if br_closed b then Inl BrokerClosed
     else if \<not> assertMatrix reg inp then Inl InvalidRequest
     else if \<not> APPROVAL_ID_RE aid then Inl InvalidApprovalId
     else let req = request_of defaultTtl aid now inp;
              entry = \<lparr>pe_handle = br_next b, pe_request = req\<rparr>;
              b1 = b\<lparr>br_pending := jm_set (br_pending b) aid entry, br_next := br_next b + 1\<rparr>;
              b2 = (if ar_expiresAt req \<noteq> None then b1\<lparr>br_timers := jm_set (br_timers b1) (br_next b) entry\<rparr> else b1)
          in Inr (fanOut b2 (RequestMsg req), br_next b))"

definition broker_decide :: "broker \<Rightarrow> approval_decision \<Rightarrow> approval_error + broker" where
  "broker_decide b d =
    (if ad_verdict d \<noteq> Allow \<and> ad_updatedInput d \<noteq> None then Inl UpdatedInputOnDeny
     else case jm_get (br_pending b) (ad_approvalId d) of
       None \<Rightarrow> Inl ApprovalNotPending
     | Some entry \<Rightarrow> Inr (resolveEntry b entry (if ad_verdict d = Allow then Allowed else Denied)
         (ad_updatedInput d) (ad_note d)))"

definition broker_pending :: "broker \<Rightarrow> approval_request list" where
  "broker_pending b = map pe_request (jm_values (br_pending b))"

definition broker_supersede :: "broker \<Rightarrow> string \<Rightarrow> broker \<times> bool" where
  "broker_supersede b aid = (case jm_get (br_pending b) aid of
     None \<Rightarrow> (b, False) | Some entry \<Rightarrow> (resolveEntry b entry Superseded None None, True))"

definition supersede_all :: "broker \<Rightarrow> pending_entry list \<Rightarrow> broker" where
  "supersede_all b entries = foldl (\<lambda>b e. resolveEntry b e Superseded None None) b entries"

definition broker_supersedeSession :: "broker \<Rightarrow> string \<Rightarrow> broker \<times> nat" where
  "broker_supersedeSession b sid =
    (let es = filter (\<lambda>e. ar_sessionId (pe_request e) = Some sid) (jm_values (br_pending b))
     in (supersede_all b es, length es))"

definition broker_subscribe :: "broker \<Rightarrow> nat \<Rightarrow> broker" where
  "broker_subscribe b l = b\<lparr>br_listeners := js_set_add (br_listeners b) l\<rparr>"

definition broker_unsubscribe :: "broker \<Rightarrow> nat \<Rightarrow> broker" where
  "broker_unsubscribe b l = b\<lparr>br_listeners := js_set_delete (br_listeners b) l\<rparr>"

definition broker_close :: "broker \<Rightarrow> broker" where
  "broker_close b = (if br_closed b then b
     else (supersede_all (b\<lparr>br_closed := True\<rparr>) (jm_values (br_pending b)))\<lparr>br_listeners := []\<rparr>)"

text \<open>The callback of an armed timer.\<close>

definition broker_fire :: "broker \<Rightarrow> nat \<Rightarrow> broker" where
  "broker_fire b h = (case jm_get (br_timers b) h of
     None \<Rightarrow> b
   | Some entry \<Rightarrow>
      let b1 = b\<lparr>br_timers := jm_delete (br_timers b) h\<rparr>
      in if jm_has (br_pending b1) (ar_approvalId (pe_request entry)) then resolveEntry b1 entry Expired None None else b1)"

section \<open>The bridge to the SDK\<close>

datatype can_use_tool_result = BehaviorAllow json | BehaviorDeny string

definition bridge_input :: "string \<Rightarrow> string \<Rightarrow> ttl \<Rightarrow> string \<Rightarrow> string option \<Rightarrow> approval_input" where
  "bridge_input sid label t toolName toolUseId = \<lparr>ai_source = CanUseTool, ai_summary = ''tool escalation: '' @ toolName,
     ai_accountLabel = label, ai_sessionId = Some sid, ai_toolName = Some toolName, ai_toolUseId = toolUseId,
     ai_runId = None, ai_stepId = None, ai_ttlMs = t\<rparr>"

definition bridge_result :: "json \<Rightarrow> approval_resolution \<Rightarrow> can_use_tool_result" where
  "bridge_result inp r = (case rs_outcome r of
     Allowed \<Rightarrow> BehaviorAllow (case rs_updatedInput r of Some ui \<Rightarrow> ui | None \<Rightarrow> inp)
   | Denied \<Rightarrow> BehaviorDeny (case rs_note r of Some n \<Rightarrow> n | None \<Rightarrow> ''denied from the approval inbox'')
   | Expired \<Rightarrow> BehaviorDeny ''approval expired with no decision''
   | Superseded \<Rightarrow> BehaviorDeny ''approval superseded (session or run ended)'')"

section \<open>Histories\<close>

datatype broker_op =
    BRequest string int approval_input
  | BDecide approval_decision
  | BSupersede string
  | BSupersedeSession string
  | BSubscribe nat
  | BUnsubscribe nat
  | BFire nat
  | BClose

definition broker_step :: "registry \<Rightarrow> int option \<Rightarrow> broker \<Rightarrow> broker_op \<Rightarrow> broker" where
  "broker_step reg dttl b op = (case op of
     BRequest aid now inp \<Rightarrow> (case broker_request reg dttl b aid now inp of Inl _ \<Rightarrow> b | Inr (b', _) \<Rightarrow> b')
   | BDecide d \<Rightarrow> (case broker_decide b d of Inl _ \<Rightarrow> b | Inr b' \<Rightarrow> b')
   | BSupersede aid \<Rightarrow> fst (broker_supersede b aid)
   | BSupersedeSession sid \<Rightarrow> fst (broker_supersedeSession b sid)
   | BSubscribe l \<Rightarrow> broker_subscribe b l
   | BUnsubscribe l \<Rightarrow> broker_unsubscribe b l
   | BFire h \<Rightarrow> broker_fire b h
   | BClose \<Rightarrow> broker_close b)"

definition broker_run :: "registry \<Rightarrow> int option \<Rightarrow> broker_op list \<Rightarrow> broker" where
  "broker_run reg dttl ops = foldl (broker_step reg dttl) createApprovalBroker ops"

text \<open>The id factory does not hand out an id that is still pending.\<close>

definition fresh_op :: "broker \<Rightarrow> broker_op \<Rightarrow> bool" where
  "fresh_op b op = (case op of BRequest aid _ _ \<Rightarrow> \<not> jm_has (br_pending b) aid | _ \<Rightarrow> True)"

primrec fresh_ops :: "registry \<Rightarrow> int option \<Rightarrow> broker \<Rightarrow> broker_op list \<Rightarrow> bool" where
  "fresh_ops reg dttl b [] = True"
| "fresh_ops reg dttl b (op # ops) = (fresh_op b op \<and> fresh_ops reg dttl (broker_step reg dttl b op) ops)"

definition broker_inv :: "broker \<Rightarrow> bool" where
  "broker_inv b \<longleftrightarrow> jm_ok (br_pending b) \<and> jm_ok (br_settled b) \<and> jm_ok (br_timers b)
     \<and> (\<forall>aid e. jm_get (br_pending b) aid = Some e \<longrightarrow> ar_approvalId (pe_request e) = aid \<and> pe_handle e < br_next b
          \<and> \<not> jm_has (br_settled b) (pe_handle e))
     \<and> (\<forall>aid e aid' e'. jm_get (br_pending b) aid = Some e \<longrightarrow> jm_get (br_pending b) aid' = Some e'
          \<longrightarrow> pe_handle e = pe_handle e' \<longrightarrow> aid = aid')
     \<and> (\<forall>h e. jm_get (br_timers b) h = Some e \<longrightarrow> pe_handle e = h
          \<and> jm_get (br_pending b) (ar_approvalId (pe_request e)) = Some e)
     \<and> (\<forall>h. jm_has (br_settled b) h \<longrightarrow> h < br_next b)
     \<and> (\<forall>h < br_next b. jm_has (br_settled b) h \<or> (\<exists>aid e. jm_get (br_pending b) aid = Some e \<and> pe_handle e = h))"

lemma broker_inv_new: "broker_inv createApprovalBroker"
  by (simp add: broker_inv_def createApprovalBroker_def jm_get_def jm_has_def)

lemma jm_has_set [simp]: "jm_has (jm_set m k v) k' \<longleftrightarrow> k' = k \<or> jm_has m k'"
  by (simp add: jm_has_def)

lemma jm_has_delete [simp]: "jm_has (jm_delete m k) k' \<longleftrightarrow> k' \<noteq> k \<and> jm_has m k'"
  by (auto simp: jm_has_def)

lemma broker_inv_cong:
  "br_pending b' = br_pending b \<Longrightarrow> br_settled b' = br_settled b \<Longrightarrow> br_timers b' = br_timers b \<Longrightarrow> br_next b' = br_next b
   \<Longrightarrow> broker_inv b' = broker_inv b"
  by (simp add: broker_inv_def)

lemma broker_inv_fanOut [simp]: "broker_inv (fanOut b m) = broker_inv b"
  by (rule broker_inv_cong) (simp_all add: fanOut_def)

lemma broker_invD:
  assumes "broker_inv b"
  shows "jm_ok (br_pending b)" "jm_ok (br_settled b)" "jm_ok (br_timers b)"
    "\<And>aid e. jm_get (br_pending b) aid = Some e \<Longrightarrow> ar_approvalId (pe_request e) = aid"
    "\<And>aid e. jm_get (br_pending b) aid = Some e \<Longrightarrow> pe_handle e < br_next b"
    "\<And>aid e. jm_get (br_pending b) aid = Some e \<Longrightarrow> \<not> jm_has (br_settled b) (pe_handle e)"
    "\<And>aid e aid' e'. jm_get (br_pending b) aid = Some e \<Longrightarrow> jm_get (br_pending b) aid' = Some e'
       \<Longrightarrow> pe_handle e = pe_handle e' \<Longrightarrow> aid = aid'"
    "\<And>h e. jm_get (br_timers b) h = Some e \<Longrightarrow> pe_handle e = h"
    "\<And>h e. jm_get (br_timers b) h = Some e \<Longrightarrow> jm_get (br_pending b) (ar_approvalId (pe_request e)) = Some e"
    "\<And>h. jm_has (br_settled b) h \<Longrightarrow> h < br_next b"
    "\<And>h. h < br_next b \<Longrightarrow> \<not> jm_has (br_settled b) h \<Longrightarrow> \<exists>aid e. jm_get (br_pending b) aid = Some e \<and> pe_handle e = h"
  using assms unfolding broker_inv_def by simp_all blast+

lemma broker_invI:
  assumes "jm_ok (br_pending b)" "jm_ok (br_settled b)" "jm_ok (br_timers b)"
    "\<And>aid e. jm_get (br_pending b) aid = Some e \<Longrightarrow> ar_approvalId (pe_request e) = aid \<and> pe_handle e < br_next b
        \<and> \<not> jm_has (br_settled b) (pe_handle e)"
    "\<And>aid e aid' e'. jm_get (br_pending b) aid = Some e \<Longrightarrow> jm_get (br_pending b) aid' = Some e'
       \<Longrightarrow> pe_handle e = pe_handle e' \<Longrightarrow> aid = aid'"
    "\<And>h e. jm_get (br_timers b) h = Some e \<Longrightarrow> pe_handle e = h
       \<and> jm_get (br_pending b) (ar_approvalId (pe_request e)) = Some e"
    "\<And>h. jm_has (br_settled b) h \<Longrightarrow> h < br_next b"
    "\<And>h. h < br_next b \<Longrightarrow> \<not> jm_has (br_settled b) h \<Longrightarrow> \<exists>aid e. jm_get (br_pending b) aid = Some e \<and> pe_handle e = h"
  shows "broker_inv b"
  unfolding broker_inv_def
proof (intro conjI allI impI, goal_cases)
  case (7 aid e aid' e')
  then show ?case by (rule assms(5))
next
  case (11 h)
  then show ?case using assms(8) [of h] by blast
qed (use assms(1-3) assms(4) assms(6) assms(7) in blast)+

lemma broker_inv_resolve:
  assumes inv: "broker_inv b" and e: "jm_get (br_pending b) (ar_approvalId (pe_request e)) = Some e"
  shows "broker_inv (resolveEntry b e outc ui note)"
proof -
  note D = broker_invD [OF inv]
  let ?a = "ar_approvalId (pe_request e)" and ?r = "\<lparr>rs_outcome = outc, rs_updatedInput = ui, rs_note = note\<rparr>"
  have st: "settle (br_settled b) (pe_handle e) ?r = jm_set (br_settled b) (pe_handle e) ?r"
    using D(6) [OF e] by (simp add: settle_def)
  have uniq: "aid = ?a" if "jm_get (br_pending b) aid = Some e'" "pe_handle e' = pe_handle e" for aid e'
    using D(7) [OF that(1) e that(2)] .
  show ?thesis
    unfolding resolveEntry_def broker_inv_fanOut st
  proof (rule broker_invI, goal_cases)
    case (4 aid e')
    then have g: "jm_get (br_pending b) aid = Some e'" "aid \<noteq> ?a" by (simp_all add: jm_get_delete split: if_splits)
    have "pe_handle e' \<noteq> pe_handle e" using uniq [OF g(1)] g(2) by blast
    then show ?case using D(4) [OF g(1)] D(5) [OF g(1)] D(6) [OF g(1)] by simp
  next
    case (5 aid e' aid' e'')
    then have "jm_get (br_pending b) aid = Some e'" "jm_get (br_pending b) aid' = Some e''"
      by (simp_all add: jm_get_delete split: if_splits)
    then show ?case using 5(3) by (rule D(7))
  next
    case (6 h e')
    then have h: "jm_get (br_timers b) h = Some e'" "h \<noteq> pe_handle e" by (simp_all add: jm_get_delete split: if_splits)
    have "ar_approvalId (pe_request e') \<noteq> ?a"
    proof
      assume "ar_approvalId (pe_request e') = ?a"
      then have "Some e' = Some e" using D(9) [OF h(1)] e by (simp only:)
      then show False using D(8) [OF h(1)] h(2) by blast
    qed
    then have "jm_get (jm_delete (br_pending b) ?a) (ar_approvalId (pe_request e')) = Some e'"
      using D(9) [OF h(1)] by (simp only: jm_get_delete if_False)
    then show ?case using D(8) [OF h(1)] by simp
  next
    case (7 h)
    then have "h = pe_handle e \<or> jm_has (br_settled b) h" by simp
    then show ?case using D(10) [of h] D(5) [OF e] by auto
  next
    case (8 h)
    then have "h < br_next b" "\<not> jm_has (br_settled b) h" "h \<noteq> pe_handle e" by simp_all
    then obtain aid e' where g: "jm_get (br_pending b) aid = Some e'" "pe_handle e' = h" using D(11) by blast
    have "aid \<noteq> ?a" using g e \<open>h \<noteq> pe_handle e\<close> by auto
    then have "jm_get (jm_delete (br_pending b) ?a) aid = Some e'" using g(1) by (simp add: jm_get_delete)
    then show ?case using g(2) by auto
  qed (use D(1-3) in simp_all)
qed

lemma broker_inv_supersede_all:
  assumes "broker_inv b" "distinct (map (\<lambda>e. ar_approvalId (pe_request e)) es)"
    and "\<And>e. e \<in> set es \<Longrightarrow> jm_get (br_pending b) (ar_approvalId (pe_request e)) = Some e"
  shows "broker_inv (supersede_all b es)"
  using assms
proof (induction es arbitrary: b)
  case (Cons e es)
  let ?b = "resolveEntry b e Superseded None None"
  have e: "jm_get (br_pending b) (ar_approvalId (pe_request e)) = Some e" using Cons.prems(3) by simp
  have p: "br_pending ?b = jm_delete (br_pending b) (ar_approvalId (pe_request e))"
    by (simp add: resolveEntry_def fanOut_def)
  have "jm_get (br_pending ?b) (ar_approvalId (pe_request e')) = Some e'" if "e' \<in> set es" for e'
  proof -
    have "ar_approvalId (pe_request e') \<noteq> ar_approvalId (pe_request e)" using Cons.prems(2) that by (force simp: image_iff)
    moreover have "jm_get (br_pending b) (ar_approvalId (pe_request e')) = Some e'" using Cons.prems(3) that by simp
    ultimately show ?thesis unfolding p by (simp only: jm_get_delete if_False)
  qed
  then have "broker_inv (supersede_all ?b es)"
    using Cons.IH [OF broker_inv_resolve [OF Cons.prems(1) e]] Cons.prems(2) by simp
  then show ?case by (simp add: supersede_all_def)
qed (simp add: supersede_all_def)

text \<open>The entries of a snapshot of the pending map.\<close>

lemma snapshot:
  assumes "broker_inv b" "set es \<subseteq> set (jm_values (br_pending b))"
  shows "\<And>e. e \<in> set es \<Longrightarrow> jm_get (br_pending b) (ar_approvalId (pe_request e)) = Some e"
proof -
  fix e assume "e \<in> set es"
  then obtain aid where "(aid, e) \<in> set (br_pending b)" using assms(2) by (auto simp: jm_values_def)
  then have "jm_get (br_pending b) aid = Some e" using in_set_jm_get broker_invD(1) [OF assms(1)] by metis
  then show "jm_get (br_pending b) (ar_approvalId (pe_request e)) = Some e"
    using broker_invD(4) [OF assms(1), of aid e] by simp
qed

lemma snapshot_ids:
  assumes "broker_inv b"
  shows "map (\<lambda>e. ar_approvalId (pe_request e)) (jm_values (br_pending b)) = jm_keys (br_pending b)"
proof -
  have "ar_approvalId (pe_request e) = aid" if "(aid, e) \<in> set (br_pending b)" for aid e
    using in_set_jm_get [OF broker_invD(1) [OF assms] that] by (rule broker_invD(4) [OF assms])
  then show ?thesis by (auto simp: jm_values_def jm_keys_def)
qed

lemma snapshot_distinct:
  "broker_inv b \<Longrightarrow> distinct (map (\<lambda>e. ar_approvalId (pe_request e)) (jm_values (br_pending b)))"
  using snapshot_ids broker_invD(1) by (simp add: jm_keys_def jm_ok_def)

lemma broker_inv_request:
  assumes inv: "broker_inv b" and f: "\<not> jm_has (br_pending b) aid"
    and r: "broker_request reg dttl b aid now inp = Inr (b', h)"
  shows "broker_inv b'"
proof -
  note D = broker_invD [OF inv]
  define req where "req = request_of dttl aid now inp"
  define e where "e = \<lparr>pe_handle = br_next b, pe_request = req\<rparr>"
  have aid: "ar_approvalId req = aid" by (simp add: req_def request_of_def)
  obtain ts where b': "b' = fanOut (b\<lparr>br_pending := jm_set (br_pending b) aid e, br_next := br_next b + 1, br_timers := ts\<rparr>) (RequestMsg req)"
    "ts = br_timers b \<or> ts = jm_set (br_timers b) (br_next b) e"
  proof (cases "ar_expiresAt req = None")
    case True
    then show ?thesis using r that [of "br_timers b"]
      by (auto simp: broker_request_def Let_def req_def [symmetric] e_def [symmetric] split: if_splits)
  next
    case False
    then show ?thesis using r that [of "jm_set (br_timers b) (br_next b) e"]
      by (auto simp: broker_request_def Let_def req_def [symmetric] e_def [symmetric] split: if_splits)
  qed
  have none: "jm_get (br_pending b) aid = None" using f by (simp add: jm_has_iff_get)
  have tm: "jm_get ts k = Some e' \<Longrightarrow> (k = br_next b \<and> e' = e) \<or> jm_get (br_timers b) k = Some e'" for k e'
    using b'(2) by (auto simp: jm_get_set split: if_splits)
  have old: "pe_handle e' \<noteq> br_next b" if "jm_get (br_pending b) k = Some e'" for k e'
    using D(5) [OF that] by simp
  show ?thesis
    unfolding b'(1) broker_inv_fanOut
  proof (rule broker_invI, goal_cases)
    case (4 k e')
    show ?case
    proof (cases "k = aid")
      case True
      then have "e' = e" using 4 by (simp add: jm_get_set)
      then show ?thesis using True aid D(10) [of "br_next b"] by (auto simp: e_def)
    next
      case False
      then have g: "jm_get (br_pending b) k = Some e'" using 4 by (simp add: jm_get_set)
      show ?thesis using D(4) [OF g] D(5) [OF g] D(6) [OF g] by simp
    qed
  next
    case (5 k e' k' e'')
    then have "(k = aid \<and> e' = e) \<or> jm_get (br_pending b) k = Some e'" "(k' = aid \<and> e'' = e) \<or> jm_get (br_pending b) k' = Some e''"
      by (auto simp: jm_get_set split: if_splits)
    then show ?case using 5(3) old [of k e'] old [of k' e''] D(7) [of k e' k' e''] by (auto simp: e_def)
  next
    case (6 k e')
    then have "(k = br_next b \<and> e' = e) \<or> jm_get (br_timers b) k = Some e'" using tm by simp
    then show ?case
    proof
      assume "k = br_next b \<and> e' = e"
      then show ?case using aid by (simp add: e_def)
    next
      assume g: "jm_get (br_timers b) k = Some e'"
      have "ar_approvalId (pe_request e') \<noteq> aid" using D(9) [OF g] none by auto
      then show ?case using D(8) [OF g] D(9) [OF g] by (simp add: jm_get_set)
    qed
  next
    case (7 k)
    then show ?case using D(10) [of k] by simp
  next
    case (8 k)
    show ?case
    proof (cases "k = br_next b")
      case True
      then have "jm_get (jm_set (br_pending b) aid e) aid = Some e \<and> pe_handle e = k" by (simp add: e_def)
      then have "\<exists>a' e'. jm_get (jm_set (br_pending b) aid e) a' = Some e' \<and> pe_handle e' = k" by blast
      then show ?thesis by simp
    next
      case False
      then obtain a' e' where g: "jm_get (br_pending b) a' = Some e'" "pe_handle e' = k" using D(11) [of k] 8 by auto
      have "a' \<noteq> aid" using g none by auto
      then have "jm_get (jm_set (br_pending b) aid e) a' = Some e'" using g(1) by (simp add: jm_get_set)
      then show ?thesis using g(2) by auto
    qed
  qed (use D(1-3) b'(2) in auto)
qed

lemma broker_inv_fire: "broker_inv b \<Longrightarrow> broker_inv (broker_fire b h)"
proof (cases "jm_get (br_timers b) h")
  case (Some e)
  assume inv: "broker_inv b"
  note D = broker_invD [OF inv]
  let ?b = "b\<lparr>br_timers := jm_delete (br_timers b) h\<rparr>"
  have b: "broker_inv ?b"
  proof (rule broker_invI, goal_cases)
    case (4 aid e')
    then show ?case using D(4) [of aid e'] D(5) [of aid e'] D(6) [of aid e'] by simp
  next
    case (5 aid e' aid' e'')
    then show ?case using D(7) [of aid e' aid' e''] by simp
  next
    case (6 k e')
    then have "jm_get (br_timers b) k = Some e'" by (simp add: jm_get_delete split: if_splits)
    then show ?case using D(8) [of k e'] D(9) [of k e'] by simp
  next
    case (7 k)
    then show ?case using D(10) [of k] by simp
  next
    case (8 k)
    then show ?case using D(11) [of k] by simp
  qed (use D(1-3) in simp_all)
  have "jm_get (br_pending ?b) (ar_approvalId (pe_request e)) = Some e" using D(9) [OF Some] by simp
  then show ?thesis using broker_inv_resolve [OF b] Some
    by (simp add: broker_fire_def Let_def jm_has_iff_get)
qed (simp add: broker_fire_def)

lemma broker_inv_step:
  assumes inv: "broker_inv b" and f: "fresh_op b op"
  shows "broker_inv (broker_step reg dttl b op)"
proof (cases op)
  case (BRequest aid now inp)
  then have "\<not> jm_has (br_pending b) aid" using f by (simp add: fresh_op_def)
  then show ?thesis using inv broker_inv_request [OF inv] BRequest
    by (auto simp: broker_step_def split: sum.splits)
next
  case (BDecide d)
  show ?thesis
  proof (cases "jm_get (br_pending b) (ad_approvalId d)")
    case (Some e)
    then have "jm_get (br_pending b) (ar_approvalId (pe_request e)) = Some e" using broker_invD(4) [OF inv Some] by simp
    then show ?thesis using inv broker_inv_resolve [OF inv] BDecide Some by (simp add: broker_step_def broker_decide_def)
  qed (use inv BDecide in \<open>simp add: broker_step_def broker_decide_def\<close>)
next
  case (BSupersede aid)
  show ?thesis
  proof (cases "jm_get (br_pending b) aid")
    case (Some e)
    then have "jm_get (br_pending b) (ar_approvalId (pe_request e)) = Some e" using broker_invD(4) [OF inv Some] by simp
    then show ?thesis using broker_inv_resolve [OF inv] BSupersede Some by (simp add: broker_step_def broker_supersede_def)
  qed (use inv BSupersede in \<open>simp add: broker_step_def broker_supersede_def\<close>)
next
  case (BSupersedeSession sid)
  let ?es = "filter (\<lambda>e. ar_sessionId (pe_request e) = Some sid) (jm_values (br_pending b))"
  have "broker_inv (supersede_all b ?es)"
    by (rule broker_inv_supersede_all [OF inv distinct_map_filter [OF snapshot_distinct [OF inv]]])
      (rule snapshot [OF inv], auto)
  then show ?thesis using BSupersedeSession by (simp add: broker_step_def broker_supersedeSession_def Let_def)
next
  case BClose
  let ?b = "b\<lparr>br_closed := True\<rparr>"
  have i: "broker_inv ?b" using inv broker_inv_cong [of ?b b] by simp
  have "broker_inv (supersede_all ?b (jm_values (br_pending b)))"
    by (rule broker_inv_supersede_all [OF i snapshot_distinct [OF inv]]) (use snapshot [OF inv subset_refl] in simp)
  moreover have "broker_inv (b'\<lparr>br_listeners := []\<rparr>) = broker_inv b'" for b' by (rule broker_inv_cong) simp_all
  ultimately show ?thesis using BClose inv by (simp add: broker_step_def broker_close_def)
next
  case (BFire h)
  then show ?thesis using broker_inv_fire [OF inv] by (simp add: broker_step_def)
next
  case (BSubscribe l)
  then show ?thesis using inv broker_inv_cong [of "broker_subscribe b l" b] by (simp add: broker_step_def broker_subscribe_def)
next
  case (BUnsubscribe l)
  then show ?thesis using inv broker_inv_cong [of "broker_unsubscribe b l" b] by (simp add: broker_step_def broker_unsubscribe_def)
qed

lemma fresh_run_inv:
  "broker_inv b \<Longrightarrow> fresh_ops reg dttl b ops \<Longrightarrow> broker_inv (foldl (broker_step reg dttl) b ops)"
  by (induction ops arbitrary: b) (simp_all add: broker_inv_step)

section \<open>Effects of the steps\<close>

lemma resolve_fields:
  "br_pending (resolveEntry b e oc ui note) = jm_delete (br_pending b) (ar_approvalId (pe_request e))"
  "br_settled (resolveEntry b e oc ui note) = settle (br_settled b) (pe_handle e) \<lparr>rs_outcome = oc, rs_updatedInput = ui, rs_note = note\<rparr>"
  "br_closed (resolveEntry b e oc ui note) = br_closed b" "br_next (resolveEntry b e oc ui note) = br_next b"
  "br_listeners (resolveEntry b e oc ui note) = br_listeners b"
  "br_log (resolveEntry b e oc ui note) = br_log b @ map (\<lambda>l. (l, ResolvedMsg (ar_approvalId (pe_request e)) oc)) (br_listeners b)"
  by (simp_all add: resolveEntry_def fanOut_def)

lemma settle_get:
  "jm_get (settle m h r) h' = (if h' = h \<and> \<not> jm_has m h then Some r else jm_get m h')"
  by (simp add: settle_def jm_get_set)

lemma settle_keep: "jm_get m h' = Some r' \<Longrightarrow> jm_get (settle m h r) h' = Some r'"
  by (auto simp: settle_get jm_has_iff_get)

lemma supersede_all_fields:
  "br_pending (supersede_all b es) = filter (\<lambda>(k, _). k \<notin> (\<lambda>e. ar_approvalId (pe_request e)) ` set es) (br_pending b)"
  "br_closed (supersede_all b es) = br_closed b" "br_next (supersede_all b es) = br_next b"
  "br_listeners (supersede_all b es) = br_listeners b"
  "br_log (supersede_all b es) = br_log b
     @ concat (map (\<lambda>e. map (\<lambda>l. (l, ResolvedMsg (ar_approvalId (pe_request e)) Superseded)) (br_listeners b)) es)"
proof -
  have "br_pending (supersede_all b es) = filter (\<lambda>(k, _). k \<notin> (\<lambda>e. ar_approvalId (pe_request e)) ` set es) (br_pending b)
      \<and> br_closed (supersede_all b es) = br_closed b \<and> br_next (supersede_all b es) = br_next b
      \<and> br_listeners (supersede_all b es) = br_listeners b
      \<and> br_log (supersede_all b es) = br_log b
         @ concat (map (\<lambda>e. map (\<lambda>l. (l, ResolvedMsg (ar_approvalId (pe_request e)) Superseded)) (br_listeners b)) es)"
  proof (induction es arbitrary: b)
    case (Cons e es)
    have s: "supersede_all b (e # es) = supersede_all (resolveEntry b e Superseded None None) es"
      by (simp add: supersede_all_def)
    have f: "filter (\<lambda>(k, _). k \<notin> (\<lambda>e. ar_approvalId (pe_request e)) ` set es) (jm_delete (br_pending b) (ar_approvalId (pe_request e)))
        = filter (\<lambda>(k, _). k \<notin> (\<lambda>e. ar_approvalId (pe_request e)) ` set (e # es)) (br_pending b)"
      unfolding jm_delete_def filter_filter by (rule filter_cong) auto
    show ?case unfolding s using Cons.IH [of "resolveEntry b e Superseded None None"] f by (simp add: resolve_fields)
  qed (auto simp: supersede_all_def)
  then show "br_pending (supersede_all b es) = filter (\<lambda>(k, _). k \<notin> (\<lambda>e. ar_approvalId (pe_request e)) ` set es) (br_pending b)"
    "br_closed (supersede_all b es) = br_closed b" "br_next (supersede_all b es) = br_next b"
    "br_listeners (supersede_all b es) = br_listeners b"
    "br_log (supersede_all b es) = br_log b
       @ concat (map (\<lambda>e. map (\<lambda>l. (l, ResolvedMsg (ar_approvalId (pe_request e)) Superseded)) (br_listeners b)) es)"
    by blast+
qed

lemma supersede_all_settled:
  "jm_get (br_settled (supersede_all b es)) h = Some r \<Longrightarrow> jm_get (br_settled b) h = Some r \<or> rs_outcome r = Superseded"
proof (induction es arbitrary: b)
  case (Cons e es)
  have "jm_get (br_settled (resolveEntry b e Superseded None None)) h = Some r \<or> rs_outcome r = Superseded"
    using Cons.IH [of "resolveEntry b e Superseded None None"] Cons.prems by (simp add: supersede_all_def)
  then show ?case by (auto simp: resolve_fields settle_get split: if_splits)
qed (simp add: supersede_all_def)

lemma supersede_all_keep:
  "jm_get (br_settled b) h = Some r \<Longrightarrow> jm_get (br_settled (supersede_all b es)) h = Some r"
  by (induction es arbitrary: b) (simp_all add: supersede_all_def resolve_fields settle_keep)

lemma request_fields:
  assumes "broker_request reg dttl b aid now inp = Inr (b', h)"
  shows "br_settled b' = br_settled b" "br_closed b' = br_closed b" "\<not> br_closed b" "br_listeners b' = br_listeners b"
    "br_pending b' = jm_set (br_pending b) aid \<lparr>pe_handle = br_next b, pe_request = request_of dttl aid now inp\<rparr>"
    "br_log b' = br_log b @ map (\<lambda>l. (l, RequestMsg (request_of dttl aid now inp))) (br_listeners b)"
    "h = br_next b" "br_next b' = br_next b + 1"
  using assms by (auto simp: broker_request_def Let_def fanOut_def split: if_splits)

text \<open>A settled promise keeps its resolution.\<close>

lemma settled_keep:
  "jm_get (br_settled b) h = Some r \<Longrightarrow> jm_get (br_settled (broker_step reg dttl b op)) h = Some r"
proof (cases op)
  case (BRequest aid now inp)
  assume "jm_get (br_settled b) h = Some r"
  then show ?thesis using BRequest request_fields(1) by (auto simp: broker_step_def split: sum.splits)
qed (auto simp: broker_step_def broker_decide_def broker_supersede_def broker_supersedeSession_def broker_subscribe_def
    broker_unsubscribe_def broker_fire_def broker_close_def Let_def resolve_fields settle_keep supersede_all_keep
    split: option.splits)

text \<open>What can settle a promise.\<close>

definition decided_by :: "broker \<Rightarrow> broker_op \<Rightarrow> nat \<Rightarrow> approval_resolution \<Rightarrow> bool" where
  "decided_by b op h r \<longleftrightarrow> (\<exists>d e. op = BDecide d \<and> jm_get (br_pending b) (ad_approvalId d) = Some e \<and> pe_handle e = h
     \<and> (ad_verdict d = Allow \<or> ad_updatedInput d = None)
     \<and> r = \<lparr>rs_outcome = (if ad_verdict d = Allow then Allowed else Denied), rs_updatedInput = ad_updatedInput d, rs_note = ad_note d\<rparr>)"

lemma settled_step:
  assumes "jm_get (br_settled (broker_step reg dttl b op)) h = Some r"
  shows "jm_get (br_settled b) h = Some r \<or> decided_by b op h r \<or> rs_outcome r = Expired \<or> rs_outcome r = Superseded"
proof (cases op)
  case (BRequest aid now inp)
  then show ?thesis using assms request_fields(1) by (auto simp: broker_step_def split: sum.splits)
next
  case (BDecide d)
  show ?thesis
  proof (cases "(ad_verdict d \<noteq> Allow \<and> ad_updatedInput d \<noteq> None) \<or> jm_get (br_pending b) (ad_approvalId d) = None")
    case True
    then show ?thesis using assms BDecide by (auto simp: broker_step_def broker_decide_def split: if_splits)
  next
    case False
    then obtain e where e: "jm_get (br_pending b) (ad_approvalId d) = Some e" by blast
    then show ?thesis using assms BDecide False
      by (auto simp: broker_step_def broker_decide_def resolve_fields settle_get decided_by_def split: if_splits)
  qed
next
  case (BSupersedeSession sid)
  then show ?thesis using assms supersede_all_settled
    by (auto simp: broker_step_def broker_supersedeSession_def Let_def)
next
  case BClose
  then show ?thesis using assms supersede_all_settled [of "b\<lparr>br_closed := True\<rparr>"]
    by (auto simp: broker_step_def broker_close_def split: if_splits)
qed (use assms in \<open>auto simp: broker_step_def broker_supersede_def broker_fire_def broker_subscribe_def broker_unsubscribe_def
    Let_def resolve_fields settle_get split: option.splits if_splits\<close>)

lemma closed_empty_step:
  "broker_inv b \<Longrightarrow> (br_closed b \<longrightarrow> br_pending b = []) \<Longrightarrow>
   br_closed (broker_step reg dttl b op) \<longrightarrow> br_pending (broker_step reg dttl b op) = []"
proof (cases op)
  case (BRequest aid now inp)
  assume "br_closed b \<longrightarrow> br_pending b = []"
  then show ?thesis using BRequest request_fields(2,3) by (auto simp: broker_step_def split: sum.splits)
next
  case BClose
  assume inv: "broker_inv b" and c: "br_closed b \<longrightarrow> br_pending b = []"
  have "(\<lambda>e. ar_approvalId (pe_request e)) ` set (jm_values (br_pending b)) = fst ` set (br_pending b)"
    using arg_cong [OF snapshot_ids [OF inv], of set] by (simp add: jm_keys_def)
  then have "filter (\<lambda>(k, _). k \<notin> (\<lambda>e. ar_approvalId (pe_request e)) ` set (jm_values (br_pending b))) (br_pending b) = []"
    by (force simp: filter_empty_conv)
  then show ?thesis using BClose c by (auto simp: broker_step_def broker_close_def supersede_all_fields)
qed (auto simp: broker_step_def broker_decide_def broker_supersede_def broker_supersedeSession_def broker_subscribe_def
    broker_unsubscribe_def broker_fire_def Let_def resolve_fields supersede_all_fields jm_delete_def split: option.splits)

section \<open>Properties\<close>

lemma run_facts:
  assumes "fresh_ops reg dttl createApprovalBroker ops"
  shows "broker_inv (broker_run reg dttl ops)"
    "br_closed (broker_run reg dttl ops) \<longrightarrow> br_pending (broker_run reg dttl ops) = []"
proof -
  show "broker_inv (broker_run reg dttl ops)"
    unfolding broker_run_def by (rule fresh_run_inv [OF broker_inv_new assms])
  have "br_closed (foldl (broker_step reg dttl) b ops) \<longrightarrow> br_pending (foldl (broker_step reg dttl) b ops) = []"
    if "broker_inv b" "fresh_ops reg dttl b ops" "br_closed b \<longrightarrow> br_pending b = []" for b
    using that
  proof (induction ops arbitrary: b)
    case (Cons op ops)
    then show ?case using broker_inv_step [OF Cons.prems(1)] closed_empty_step [OF Cons.prems(1,3)] by simp
  qed simp
  then show "br_closed (broker_run reg dttl ops) \<longrightarrow> br_pending (broker_run reg dttl ops) = []"
    unfolding broker_run_def using broker_inv_new assms by (simp add: createApprovalBroker_def)
qed

lemma settled_run: "jm_get (br_settled b) h = Some r \<Longrightarrow> jm_get (br_settled (foldl (broker_step reg dttl) b ops)) h = Some r"
  by (induction ops arbitrary: b) (simp_all add: settled_keep)

text \<open>Claim C14: every escalation is answered exactly once. After any history of requests, decisions, timers,
  supersessions, subscriptions and shutdown, as long as no id is minted that is still pending: each escalation
  handed out is either still in the queue or settled, never both; once the broker is closed the queue is
  empty and every escalation is settled; and whatever happens later, a settled escalation keeps its
  resolution.\<close>

theorem approvals_settle_once:
  assumes "fresh_ops reg dttl createApprovalBroker ops"
  shows "(\<forall>h < br_next (broker_run reg dttl ops).
      (h \<in> pe_handle ` set (jm_values (br_pending (broker_run reg dttl ops)))) \<noteq> jm_has (br_settled (broker_run reg dttl ops)) h)
    \<and> (br_closed (broker_run reg dttl ops) \<longrightarrow> broker_pending (broker_run reg dttl ops) = []
        \<and> (\<forall>h < br_next (broker_run reg dttl ops). jm_has (br_settled (broker_run reg dttl ops)) h))
    \<and> (\<forall>h r later. jm_get (br_settled (broker_run reg dttl ops)) h = Some r \<longrightarrow>
          jm_get (br_settled (broker_run reg dttl (ops @ later))) h = Some r)"
proof -
  let ?b = "broker_run reg dttl ops"
  note D = broker_invD [OF run_facts(1) [OF assms]]
  have vals: "e \<in> set (jm_values (br_pending ?b)) \<longleftrightarrow> (\<exists>aid. jm_get (br_pending ?b) aid = Some e)" for e
  proof
    assume "e \<in> set (jm_values (br_pending ?b))"
    then obtain aid where "(aid, e) \<in> set (br_pending ?b)" by (auto simp: jm_values_def)
    then show "\<exists>aid. jm_get (br_pending ?b) aid = Some e" using in_set_jm_get [OF D(1)] by blast
  next
    assume "\<exists>aid. jm_get (br_pending ?b) aid = Some e"
    then obtain aid where "jm_get (br_pending ?b) aid = Some e" by blast
    then have "(aid, e) \<in> set (br_pending ?b)" by (rule jm_get_in_set)
    then show "e \<in> set (jm_values (br_pending ?b))" unfolding jm_values_def by force
  qed
  have one: "(h \<in> pe_handle ` set (jm_values (br_pending ?b))) \<noteq> jm_has (br_settled ?b) h" if h: "h < br_next ?b" for h
  proof (cases "jm_has (br_settled ?b) h")
    case True
    have "h \<notin> pe_handle ` set (jm_values (br_pending ?b))"
    proof
      assume "h \<in> pe_handle ` set (jm_values (br_pending ?b))"
      then obtain e where e: "h = pe_handle e" "e \<in> set (jm_values (br_pending ?b))" by (rule imageE)
      then obtain aid where "jm_get (br_pending ?b) aid = Some e" unfolding vals by blast
      then show False using D(6) [of aid e] True e(1) by simp
    qed
    then show ?thesis using True by simp
  next
    case False
    obtain aid e where e: "jm_get (br_pending ?b) aid = Some e" "pe_handle e = h" using D(11) [OF h False] by blast
    then have "e \<in> set (jm_values (br_pending ?b))" unfolding vals by blast
    then show ?thesis using False e(2) by blast
  qed
  moreover have "broker_pending ?b = [] \<and> (\<forall>h < br_next ?b. jm_has (br_settled ?b) h)" if "br_closed ?b"
  proof -
    have "br_pending ?b = []" using run_facts(2) [OF assms] that by blast
    then have v: "jm_values (br_pending ?b) = []" by (simp add: jm_values_def)
    have "jm_has (br_settled ?b) h" if "h < br_next ?b" for h using one [OF that] v by simp
    then show ?thesis using v by (simp add: broker_pending_def)
  qed
  moreover have "jm_get (br_settled (broker_run reg dttl (ops @ later))) h = Some r"
    if "jm_get (br_settled ?b) h = Some r" for h r later
    using settled_run [OF that] by (simp add: broker_run_def)
  ultimately show ?thesis by blast
qed

definition sample_input :: approval_input where
  "sample_input = bridge_input ''ses_1'' ''MAX_A'' TtlDefault ''Bash'' None"

definition sample_ops :: "broker_op list" where
  "sample_ops = [BSubscribe 7, BRequest ''apr_1'' 0 sample_input, BRequest ''apr_2'' 5 sample_input,
     BDecide \<lparr>ad_approvalId = ''apr_1'', ad_verdict = Allow, ad_updatedInput = None, ad_note = None\<rparr>]"

lemmas approvals_eval = broker_step_def broker_request_def broker_decide_def broker_close_def broker_subscribe_def
  assertMatrix_def bridge_input_def request_of_def ttl_of_def isAccountLabel_def isClaudeAccountLabel_def is_upper_def
  APPROVAL_ID_RE_def id_char_def Let_def fanOut_def resolveEntry_def settle_def supersede_all_def createApprovalBroker_def
  jm_get_def jm_has_def jm_delete_def jm_values_def js_set_add_def fresh_op_def

lemma sample_fresh: "fresh_ops initial_registry (Some 1000) createApprovalBroker (sample_ops @ [BClose])"
  by (simp add: sample_ops_def sample_input_def approvals_eval)

theorem approvals_settle_once_witness:
  "br_closed (broker_run initial_registry (Some 1000) (sample_ops @ [BClose]))
   \<and> broker_pending (broker_run initial_registry (Some 1000) (sample_ops @ [BClose])) = []
   \<and> jm_has (br_settled (broker_run initial_registry (Some 1000) (sample_ops @ [BClose]))) 1"
proof -
  have "br_closed (broker_run initial_registry (Some 1000) (sample_ops @ [BClose]))"
    "br_next (broker_run initial_registry (Some 1000) (sample_ops @ [BClose])) = 2"
    by (simp_all add: broker_run_def sample_ops_def sample_input_def approvals_eval)
  then show ?thesis using approvals_settle_once [OF sample_fresh] by simp
qed

text \<open>Claim C11: nothing is allowed without a decision. If an escalation ends up allowed, some earlier call
  of \<open>decide\<close> with verdict \<open>allow\<close> named it while it was pending, and the tool runs with the input that
  decision carried, or its own if it carried none; an expired, superseded or denied escalation makes the
  bridge answer deny.\<close>

theorem approval_allow_needs_decision:
  assumes "jm_get (br_settled (broker_run reg dttl ops)) h = Some r" "bridge_result inp r = BehaviorAllow used"
  shows "\<exists>before d after e. ops = before @ BDecide d # after \<and> ad_verdict d = Allow
    \<and> jm_get (br_pending (broker_run reg dttl before)) (ad_approvalId d) = Some e \<and> pe_handle e = h
    \<and> used = (case ad_updatedInput d of Some ui \<Rightarrow> ui | None \<Rightarrow> inp)"
proof -
  have al: "rs_outcome r = Allowed" using assms(2) by (auto simp: bridge_result_def split: approval_outcome.splits)
  have "\<exists>before op after. ops = before @ op # after \<and> decided_by (broker_run reg dttl before) op h r"
    using assms(1)
  proof (induction ops rule: rev_induct)
    case Nil
    then show ?case by (simp add: broker_run_def createApprovalBroker_def jm_get_def)
  next
    case (snoc op ops)
    let ?b = "broker_run reg dttl ops"
    have "jm_get (br_settled (broker_step reg dttl ?b op)) h = Some r" using snoc.prems by (simp add: broker_run_def)
    then have "jm_get (br_settled ?b) h = Some r \<or> decided_by ?b op h r" using settled_step al by fastforce
    then show ?case
    proof
      assume "jm_get (br_settled ?b) h = Some r"
      then obtain before op' after where "ops = before @ op' # after" "decided_by (broker_run reg dttl before) op' h r"
        using snoc.IH by blast
      then show ?case by (intro exI [of _ before] exI [of _ op'] exI [of _ "after @ [op]"]) simp
    next
      assume "decided_by ?b op h r"
      then show ?case by blast
    qed
  qed
  then obtain before op after where o: "ops = before @ op # after" "decided_by (broker_run reg dttl before) op h r" by blast
  then obtain d e where d: "op = BDecide d" "jm_get (br_pending (broker_run reg dttl before)) (ad_approvalId d) = Some e"
    "pe_handle e = h" "r = \<lparr>rs_outcome = (if ad_verdict d = Allow then Allowed else Denied), rs_updatedInput = ad_updatedInput d, rs_note = ad_note d\<rparr>"
    unfolding decided_by_def by blast
  have "ad_verdict d = Allow" using al d(4) by (simp split: if_splits)
  moreover have "used = (case ad_updatedInput d of Some ui \<Rightarrow> ui | None \<Rightarrow> inp)"
    using assms(2) al d(4) by (simp add: bridge_result_def)
  ultimately show ?thesis using o(1) d(1-3) by blast
qed

theorem approval_allow_needs_decision_witness:
  "\<exists>before d after e. sample_ops = before @ BDecide d # after \<and> ad_verdict d = Allow
    \<and> jm_get (br_pending (broker_run initial_registry (Some 1000) before)) (ad_approvalId d) = Some e \<and> pe_handle e = 0
    \<and> JNull = (case ad_updatedInput d of Some ui \<Rightarrow> ui | None \<Rightarrow> JNull)"
proof (rule approval_allow_needs_decision)
  show "jm_get (br_settled (broker_run initial_registry (Some 1000) sample_ops)) 0
      = Some \<lparr>rs_outcome = Allowed, rs_updatedInput = None, rs_note = None\<rparr>"
    by (simp add: broker_run_def sample_ops_def sample_input_def approvals_eval)
  show "bridge_result JNull \<lparr>rs_outcome = Allowed, rs_updatedInput = None, rs_note = None\<rparr> = BehaviorAllow JNull"
    by (simp add: bridge_result_def)
qed

end
