(* ===== verification/Approvals_Inbox.thy ===== *)
theory Approvals_Inbox
  imports Approvals
begin

text \<open>
  The approval inbox of the client, \<open>app/src/lib/stores/approvalsStore.ts\<close>, and its refinement of the
  broker's queue: a window that is subscribed from the start and applies what it is sent shows exactly the
  broker's pending approvals in arrival order, minus those whose decision is on its way.

  The records of the store are plain objects: the operator \<open>in\<close> also finds the names every object inherits
  (\<open>OBJECT_PROTOTYPE_KEYS\<close>).
\<close>

section \<open>The store\<close>

record pending_approval =
  pa_request :: approval_request
  pa_receivedAtMs :: int

record resolved_approval =
  rv_approvalId :: string
  rv_outcome :: approval_outcome
  rv_resolvedAtMs :: int
  rv_request :: "approval_request option"

record inbox =
  ib_pending :: "(string, pending_approval) jmap"
  ib_order :: "string list"
  ib_recentResolved :: "resolved_approval list"
  ib_deciding :: "string list"

definition MAX_RESOLVED_RETAINED :: nat where
  "MAX_RESOLVED_RETAINED = 50"

definition OBJECT_PROTOTYPE_KEYS :: "string list" where
  "OBJECT_PROTOTYPE_KEYS = [''constructor'', ''__defineGetter__'', ''__defineSetter__'', ''hasOwnProperty'',
     ''__lookupGetter__'', ''__lookupSetter__'', ''isPrototypeOf'', ''propertyIsEnumerable'', ''toString'', ''valueOf'',
     ''__proto__'', ''toLocaleString'']"

definition key_in :: "string list \<Rightarrow> string \<Rightarrow> bool" where
  "key_in own k = (k \<in> set own \<or> k \<in> set OBJECT_PROTOTYPE_KEYS)"

definition empty_inbox :: inbox where
  "empty_inbox = \<lparr>ib_pending = [], ib_order = [], ib_recentResolved = [], ib_deciding = []\<rparr>"

definition applyServer :: "inbox \<Rightarrow> approvals_msg \<Rightarrow> int \<Rightarrow> inbox" where
  "applyServer s msg now = (case msg of
     RequestMsg req \<Rightarrow>
       (if key_in (jm_keys (ib_pending s)) (ar_approvalId req) then s
        else s\<lparr>ib_pending := jm_set (ib_pending s) (ar_approvalId req) \<lparr>pa_request = req, pa_receivedAtMs = now\<rparr>,
               ib_order := ib_order s @ [ar_approvalId req]\<rparr>)
   | ResolvedMsg aid outcome \<Rightarrow>
       (let resolved = \<lparr>rv_approvalId = aid, rv_outcome = outcome, rv_resolvedAtMs = now,
                         rv_request = map_option pa_request (jm_get (ib_pending s) aid)\<rparr>;
            xs = ib_recentResolved s @ [resolved]
        in s\<lparr>ib_pending := jm_delete (ib_pending s) aid,
             ib_order := filter (\<lambda>k. k \<noteq> aid) (ib_order s),
             ib_recentResolved := drop (length xs - MAX_RESOLVED_RETAINED) xs,
             ib_deciding := (if key_in (ib_deciding s) aid then js_set_delete (ib_deciding s) aid else ib_deciding s)\<rparr>))"

definition markDeciding :: "inbox \<Rightarrow> string \<Rightarrow> inbox" where
  "markDeciding s aid =
    (if key_in (ib_deciding s) aid \<or> \<not> key_in (jm_keys (ib_pending s)) aid then s
     else s\<lparr>ib_deciding := ib_deciding s @ [aid]\<rparr>)"

definition pendingApprovals :: "inbox \<Rightarrow> pending_approval list" where
  "pendingApprovals s = List.map_filter (\<lambda>k. if key_in (ib_deciding s) k then None else jm_get (ib_pending s) k) (ib_order s)"

definition inbox_reset :: "inbox \<Rightarrow> inbox" where
  "inbox_reset s = s\<lparr>ib_pending := [], ib_order := [], ib_recentResolved := [], ib_deciding := []\<rparr>"

datatype inbox_op = IServer approvals_msg int | IMark string | IReset

definition inbox_step :: "inbox \<Rightarrow> inbox_op \<Rightarrow> inbox" where
  "inbox_step s op = (case op of IServer m now \<Rightarrow> applyServer s m now | IMark aid \<Rightarrow> markDeciding s aid | IReset \<Rightarrow> inbox_reset s)"

definition inbox_run :: "inbox_op list \<Rightarrow> inbox" where
  "inbox_run ops = foldl inbox_step empty_inbox ops"

section \<open>The abstract queue\<close>

type_synonym queue_view = "string list \<times> (string \<Rightarrow> approval_request option)"

definition view_apply :: "queue_view \<Rightarrow> approvals_msg \<Rightarrow> queue_view" where
  "view_apply v msg = (case msg of
     RequestMsg req \<Rightarrow>
       (if snd v (ar_approvalId req) \<noteq> None \<or> ar_approvalId req \<in> set OBJECT_PROTOTYPE_KEYS then v
        else (fst v @ [ar_approvalId req], (snd v)(ar_approvalId req \<mapsto> req)))
   | ResolvedMsg aid _ \<Rightarrow> (filter (\<lambda>k. k \<noteq> aid) (fst v), (snd v)(aid := None)))"

definition inbox_view :: "inbox \<Rightarrow> queue_view" where
  "inbox_view s = (ib_order s, \<lambda>k. map_option pa_request (jm_get (ib_pending s) k))"

definition broker_view :: "broker \<Rightarrow> queue_view" where
  "broker_view b = (jm_keys (br_pending b), \<lambda>k. map_option pe_request (jm_get (br_pending b) k))"

primrec server_part :: "inbox_op list \<Rightarrow> approvals_msg list" where
  "server_part [] = []"
| "server_part (op # ops) = (case op of IServer m _ \<Rightarrow> m # server_part ops | _ \<Rightarrow> server_part ops)"

definition sent_to :: "nat \<Rightarrow> (nat \<times> approvals_msg) list \<Rightarrow> approvals_msg list" where
  "sent_to l sent = map snd (filter (\<lambda>(k, _). k = l) sent)"

lemma keys_mem: "k \<in> set (jm_keys m) \<longleftrightarrow> jm_get m k \<noteq> None"
  using jm_has_iff_get [of m k] by (simp add: jm_has_def jm_keys_def)

text \<open>The store implements the abstract queue.\<close>

lemma inbox_view_apply: "inbox_view (applyServer s m now) = view_apply (inbox_view s) m"
proof (cases m)
  case (RequestMsg req)
  then show ?thesis
    by (auto simp: applyServer_def view_apply_def inbox_view_def key_in_def keys_mem jm_get_set)
next
  case (ResolvedMsg aid oc)
  then show ?thesis
    by (auto simp: applyServer_def view_apply_def inbox_view_def Let_def jm_get_delete)
qed

lemma inbox_view_mark: "inbox_view (markDeciding s aid) = inbox_view s"
  by (simp add: markDeciding_def inbox_view_def)

lemma inbox_view_run:
  "IReset \<notin> set ops \<Longrightarrow> inbox_view (foldl inbox_step s ops) = foldl view_apply (inbox_view s) (server_part ops)"
proof (induction ops arbitrary: s)
  case (Cons op ops)
  then show ?case by (cases op) (simp_all add: inbox_step_def inbox_view_apply inbox_view_mark)
qed simp

section \<open>The broker keeps its subscribers in step\<close>

definition in_step :: "nat \<Rightarrow> broker \<Rightarrow> bool" where
  "in_step l b \<longleftrightarrow> foldl view_apply ([], \<lambda>_. None) (sent_to l (br_log b)) = broker_view b"

lemma sent_to_append: "sent_to l (xs @ ys) = sent_to l xs @ sent_to l ys"
  by (simp add: sent_to_def)

lemma sent_to_fan: "distinct ls \<Longrightarrow> sent_to l (map (\<lambda>k. (k, m)) ls) = (if l \<in> set ls then [m] else [])"
  by (induction ls) (auto simp: sent_to_def)

lemma broker_view_delete:
  "(filter (\<lambda>k. k \<noteq> aid) (fst (broker_view b)), (snd (broker_view b))(aid := None))
     = (jm_keys (jm_delete (br_pending b) aid), \<lambda>k. map_option pe_request (jm_get (jm_delete (br_pending b) aid) k))"
proof -
  have "filter (\<lambda>k. k \<noteq> aid) (map fst xs) = map fst (filter (\<lambda>(k', _). k' \<noteq> aid) xs)" for xs :: "(string \<times> pending_entry) list"
    by (induction xs) auto
  then have "filter (\<lambda>k. k \<noteq> aid) (jm_keys (br_pending b)) = jm_keys (jm_delete (br_pending b) aid)"
    by (simp add: jm_keys_def jm_delete_def)
  then show ?thesis by (auto simp: broker_view_def jm_get_delete)
qed

lemma in_step_resolve:
  assumes "in_step l b" "l \<in> set (br_listeners b)" "distinct (br_listeners b)"
  shows "in_step l (resolveEntry b e oc ui n)"
  using assms broker_view_delete [of "ar_approvalId (pe_request e)" b]
  by (simp add: in_step_def resolve_fields sent_to_append sent_to_fan view_apply_def broker_view_def)

lemma in_step_supersede_all:
  "in_step l b \<Longrightarrow> l \<in> set (br_listeners b) \<Longrightarrow> distinct (br_listeners b) \<Longrightarrow> in_step l (supersede_all b es)"
proof (induction es arbitrary: b)
  case (Cons e es)
  have "in_step l (resolveEntry b e Superseded None None)" by (rule in_step_resolve [OF Cons.prems])
  then show ?case using Cons.IH [of "resolveEntry b e Superseded None None"] Cons.prems(2,3)
    by (simp add: supersede_all_def resolve_fields)
qed (simp add: supersede_all_def)

lemma in_step_cong: "br_log b' = br_log b \<Longrightarrow> br_pending b' = br_pending b \<Longrightarrow> in_step l b' = in_step l b"
  by (simp add: in_step_def broker_view_def)

lemma in_step_request:
  assumes "in_step l b" "l \<in> set (br_listeners b)" "distinct (br_listeners b)"
    and f: "\<not> jm_has (br_pending b) aid" "aid \<notin> set OBJECT_PROTOTYPE_KEYS"
    and r: "broker_request reg dttl b aid now inp = Inr (b', h)"
  shows "in_step l b'"
proof -
  note R = request_fields [OF r]
  have n: "jm_get (br_pending b) aid = None" using f(1) by (simp add: jm_has_iff_get)
  have "ar_approvalId (request_of dttl aid now inp) = aid" by (simp add: request_of_def)
  then have "view_apply (broker_view b) (RequestMsg (request_of dttl aid now inp)) = broker_view b'"
    using n f(2) by (auto simp: view_apply_def broker_view_def R(5) jm_set_fresh jm_get_snoc jm_keys_def)
  then show ?thesis using assms(1-3) by (simp add: in_step_def R(6) sent_to_append sent_to_fan)
qed

text \<open>A subscriber stays in step: while the broker is open it is on the list; after the shutdown
  nothing is pending and nothing is sent.\<close>

definition attached :: "nat \<Rightarrow> broker \<Rightarrow> bool" where
  "attached l b \<longleftrightarrow> in_step l b \<and> distinct (br_listeners b) \<and> (if br_closed b then br_pending b = [] else l \<in> set (br_listeners b))"

definition tracked_op :: "nat \<Rightarrow> broker_op \<Rightarrow> bool" where
  "tracked_op l op = (case op of
     BUnsubscribe k \<Rightarrow> k \<noteq> l | BRequest aid _ _ \<Rightarrow> aid \<notin> set OBJECT_PROTOTYPE_KEYS | _ \<Rightarrow> True)"

lemma attached_resolve: "attached l b \<Longrightarrow> jm_get (br_pending b) aid = Some e \<Longrightarrow> attached l (resolveEntry b e oc ui n)"
  using in_step_resolve [of l b e oc ui n]
  by (auto simp: attached_def resolve_fields jm_get_def split: if_splits)

lemma attached_step:
  assumes a: "attached l b" and t: "tracked_op l op" and f: "fresh_op b op" and inv: "broker_inv b"
  shows "attached l (broker_step reg dttl b op)"
proof (cases op)
  case (BRequest aid now inp)
  then have af: "\<not> jm_has (br_pending b) aid" "aid \<notin> set OBJECT_PROTOTYPE_KEYS"
    using t f by (simp_all add: fresh_op_def tracked_op_def)
  show ?thesis
  proof (cases "broker_request reg dttl b aid now inp")
    case (Inr x)
    obtain b' h where x: "x = (b', h)" by (cases x)
    note R = request_fields [OF Inr [unfolded x]]
    have "l \<in> set (br_listeners b)" "distinct (br_listeners b)" "in_step l b" using a R(3) by (simp_all add: attached_def)
    then show ?thesis using in_step_request [OF _ _ _ af Inr [unfolded x], of l] R x Inr BRequest
      by (simp add: attached_def broker_step_def)
  qed (use a BRequest in \<open>simp add: broker_step_def\<close>)
next
  case (BDecide d)
  then show ?thesis using a attached_resolve
    by (auto simp: broker_step_def broker_decide_def split: option.splits)
next
  case (BSupersede aid)
  then show ?thesis using a attached_resolve
    by (auto simp: broker_step_def broker_supersede_def split: option.splits)
next
  case (BSupersedeSession sid)
  let ?es = "filter (\<lambda>e. ar_sessionId (pe_request e) = Some sid) (jm_values (br_pending b))"
  have "attached l (supersede_all b ?es)"
  proof (cases "br_closed b")
    case True
    then have "?es = []" using a by (simp add: attached_def jm_values_def)
    then show ?thesis using a unfolding supersede_all_def by simp
  next
    case False
    then show ?thesis using a in_step_supersede_all [of l b ?es] by (simp add: attached_def supersede_all_fields)
  qed
  then show ?thesis using BSupersedeSession by (simp add: broker_step_def broker_supersedeSession_def Let_def)
next
  case (BFire h)
  show ?thesis
  proof (cases "jm_get (br_timers b) h")
    case (Some e)
    let ?b = "b\<lparr>br_timers := jm_delete (br_timers b) h\<rparr>"
    have "attached l ?b" using a in_step_cong [of ?b b] by (simp add: attached_def)
    moreover have "jm_get (br_pending ?b) (ar_approvalId (pe_request e)) = Some e"
      using broker_invD(9) [OF inv Some] by simp
    ultimately show ?thesis using attached_resolve [of l ?b "ar_approvalId (pe_request e)" e] BFire Some
      by (simp add: broker_step_def broker_fire_def Let_def jm_has_iff_get)
  qed (use a BFire in \<open>simp add: broker_step_def broker_fire_def\<close>)
next
  case (BSubscribe k)
  then show ?thesis using a in_step_cong [of "broker_subscribe b k" b]
    by (auto simp: attached_def broker_step_def broker_subscribe_def)
next
  case (BUnsubscribe k)
  then show ?thesis using a t in_step_cong [of "broker_unsubscribe b k" b]
    by (auto simp: attached_def broker_step_def broker_unsubscribe_def tracked_op_def)
next
  case BClose
  show ?thesis
  proof (cases "br_closed b")
    case False
    let ?b = "b\<lparr>br_closed := True\<rparr>"
    have l: "l \<in> set (br_listeners b)" "distinct (br_listeners b)" "in_step l ?b"
      using a False in_step_cong [of ?b b] by (simp_all add: attached_def)
    have s: "in_step l (supersede_all ?b (jm_values (br_pending b)))" using l in_step_supersede_all by simp
    have p: "br_pending (supersede_all ?b (jm_values (br_pending b))) = []"
      using closed_empty_step [OF inv, of reg dttl BClose] False by (simp add: broker_step_def broker_close_def supersede_all_fields)
    let ?c = "supersede_all ?b (jm_values (br_pending b))"
    have "in_step l (?c\<lparr>br_listeners := []\<rparr>)" using s in_step_cong [of "?c\<lparr>br_listeners := []\<rparr>" ?c] by simp
    then show ?thesis using BClose False p by (simp add: attached_def broker_step_def broker_close_def supersede_all_fields)
  qed (use a BClose in \<open>simp add: broker_step_def broker_close_def\<close>)
qed

section \<open>Properties\<close>

lemma attached_run:
  "attached l b \<Longrightarrow> list_all (tracked_op l) ops \<Longrightarrow> fresh_ops reg dttl b ops \<Longrightarrow> broker_inv b
   \<Longrightarrow> attached l (foldl (broker_step reg dttl) b ops)"
proof (induction ops arbitrary: b)
  case (Cons op ops)
  then show ?case using attached_step [of l b op reg dttl] broker_inv_step [of b op reg dttl] by simp
qed simp

lemma attached_from_subscribe: "attached l (broker_step reg dttl createApprovalBroker (BSubscribe l))"
  by (simp add: attached_def in_step_def sent_to_def broker_step_def broker_subscribe_def createApprovalBroker_def
      broker_view_def jm_keys_def jm_get_def)

definition inbox_inv :: "inbox \<Rightarrow> bool" where
  "inbox_inv s \<longleftrightarrow> (\<forall>k. k \<in> set (ib_order s) \<longleftrightarrow> jm_get (ib_pending s) k \<noteq> None)
     \<and> (\<forall>k \<in> set (ib_order s). k \<notin> set OBJECT_PROTOTYPE_KEYS)
     \<and> set (ib_deciding s) \<subseteq> set (ib_order s)
     \<and> length (ib_recentResolved s) \<le> MAX_RESOLVED_RETAINED"

lemma inbox_inv_step: "inbox_inv s \<Longrightarrow> inbox_inv (inbox_step s op)"
  unfolding inbox_inv_def
  by (cases op) (auto simp: inbox_step_def applyServer_def markDeciding_def inbox_reset_def key_in_def keys_mem jm_get_set
    jm_get_delete Let_def jm_get_def [of "[]"] split: approvals_msg.splits if_splits)

lemma inbox_inv_run: "inbox_inv s \<Longrightarrow> inbox_inv (foldl inbox_step s ops)"
  by (induction ops arbitrary: s) (simp_all add: inbox_inv_step)

lemma inbox_inv_empty: "inbox_inv empty_inbox"
  by (simp add: inbox_inv_def empty_inbox_def jm_get_def)

lemma shown_rows:
  assumes inv: "inbox_inv s" and v: "inbox_view s = broker_view b" and ok: "jm_ok (br_pending b)"
    and ids: "\<And>aid e. jm_get (br_pending b) aid = Some e \<Longrightarrow> ar_approvalId (pe_request e) = aid"
  shows "map pa_request (pendingApprovals s) = filter (\<lambda>r. ar_approvalId r \<notin> set (ib_deciding s)) (broker_pending b)"
proof -
  have ord: "ib_order s = map fst (br_pending b)" using v by (simp add: inbox_view_def broker_view_def jm_keys_def)
  have get: "map_option pa_request (jm_get (ib_pending s) k) = map_option pe_request (jm_get (br_pending b) k)" for k
    using v by (auto simp: inbox_view_def broker_view_def dest: fun_cong)
  have row: "\<exists>pa. jm_get (ib_pending s) k = Some pa \<and> pa_request pa = pe_request e"
    "ar_approvalId (pe_request e) = k" "key_in (ib_deciding s) k = (k \<in> set (ib_deciding s))"
    if "(k, e) \<in> set (br_pending b)" for k e
  proof -
    have g: "jm_get (br_pending b) k = Some e" using in_set_jm_get [OF ok that] .
    show "\<exists>pa. jm_get (ib_pending s) k = Some pa \<and> pa_request pa = pe_request e" using get [of k] g by auto
    show "ar_approvalId (pe_request e) = k" using ids [OF g] .
    have "k \<in> set (ib_order s)" using that ord by force
    then show "key_in (ib_deciding s) k = (k \<in> set (ib_deciding s))" using inv by (auto simp: inbox_inv_def key_in_def)
  qed
  have "map pa_request (List.map_filter (\<lambda>k. if key_in (ib_deciding s) k then None else jm_get (ib_pending s) k) (map fst xs))
      = filter (\<lambda>r. ar_approvalId r \<notin> set (ib_deciding s)) (map pe_request (map snd xs))"
    if "set xs \<subseteq> set (br_pending b)" for xs
    using that
  proof (induction xs)
    case (Cons x xs)
    then show ?case using row [of "fst x" "snd x"] by (auto simp: map_filter_simps)
  qed (simp add: map_filter_simps)
  from this [of "br_pending b"] show ?thesis by (simp add: pendingApprovals_def ord broker_pending_def jm_values_def)
qed

text \<open>Claim C27: the inbox mirrors the broker. A window subscribed before the first escalation, that applies
  the notifications it was sent in order (marking decisions as under way whenever the operator likes),
  shows exactly the broker's pending approvals, in arrival order, except those whose decision is under
  way; only pending approvals are ever under way, and at most \<open>MAX_RESOLVED_RETAINED\<close> resolutions
  are kept. The ids are fresh and are not names every object inherits.\<close>

theorem inbox_mirrors_broker:
  assumes "fresh_ops reg dttl createApprovalBroker (BSubscribe l # ops)" "list_all (tracked_op l) ops"
    and "b = broker_run reg dttl (BSubscribe l # ops)"
    and "server_part cops = sent_to l (br_log b)" "IReset \<notin> set cops"
  shows "map pa_request (pendingApprovals (inbox_run cops))
      = filter (\<lambda>r. ar_approvalId r \<notin> set (ib_deciding (inbox_run cops))) (broker_pending b)
    \<and> set (ib_deciding (inbox_run cops)) \<subseteq> ar_approvalId ` set (broker_pending b)
    \<and> length (ib_recentResolved (inbox_run cops)) \<le> MAX_RESOLVED_RETAINED"
proof -
  let ?s = "inbox_run cops"
  let ?b1 = "broker_step reg dttl createApprovalBroker (BSubscribe l)"
  have binv: "broker_inv b" using run_facts(1) [OF assms(1)] assms(3) by simp
  note D = broker_invD [OF binv]
  have "attached l (foldl (broker_step reg dttl) ?b1 ops)"
    using attached_run [OF attached_from_subscribe assms(2)] assms(1) broker_inv_step [OF broker_inv_new] by simp
  then have "in_step l b" using assms(3) by (simp add: broker_run_def attached_def)
  then have v: "inbox_view ?s = broker_view b"
    using inbox_view_run [OF assms(5), of empty_inbox] assms(4)
    by (simp add: inbox_run_def in_step_def inbox_view_def empty_inbox_def jm_get_def)
  have inv: "inbox_inv ?s" unfolding inbox_run_def by (rule inbox_inv_run [OF inbox_inv_empty])
  have "k \<in> ar_approvalId ` set (broker_pending b)" if "k \<in> set (ib_deciding ?s)" for k
  proof -
    have "k \<in> set (map fst (br_pending b))"
      using that inv v by (auto simp: inbox_inv_def inbox_view_def broker_view_def jm_keys_def)
    then obtain e where e: "(k, e) \<in> set (br_pending b)" by auto
    then have "ar_approvalId (pe_request e) = k" using D(4) in_set_jm_get [OF D(1)] by blast
    moreover have "pe_request e \<in> set (broker_pending b)" using e by (force simp: broker_pending_def jm_values_def)
    ultimately show ?thesis by blast
  qed
  then show ?thesis using shown_rows [OF inv v D(1) D(4)] inv by (auto simp: inbox_inv_def)
qed

definition sample_client :: "inbox_op list" where
  "sample_client = [IServer (RequestMsg (request_of (Some 1000) ''apr_1'' 0 sample_input)) 1, IMark ''apr_1'',
     IServer (RequestMsg (request_of (Some 1000) ''apr_2'' 5 sample_input)) 6, IServer (ResolvedMsg ''apr_1'' Allowed) 9]"

theorem inbox_mirrors_broker_witness:
  "map (\<lambda>p. ar_approvalId (pa_request p)) (pendingApprovals (inbox_run sample_client)) = [''apr_2'']"
proof -
  let ?b = "broker_run initial_registry (Some 1000) (BSubscribe 7 # tl sample_ops)"
  have f: "fresh_ops initial_registry (Some 1000) createApprovalBroker (BSubscribe 7 # tl sample_ops)"
    by (simp add: sample_ops_def sample_input_def approvals_eval)
  have t: "list_all (tracked_op 7) (tl sample_ops)" by (simp add: sample_ops_def tracked_op_def OBJECT_PROTOTYPE_KEYS_def)
  have sent: "server_part sample_client = sent_to 7 (br_log ?b)"
    by (simp add: broker_run_def sample_client_def sample_ops_def sample_input_def approvals_eval sent_to_def)
  have none: "ib_deciding (inbox_run sample_client) = []"
    by (simp add: inbox_run_def sample_client_def inbox_step_def applyServer_def markDeciding_def empty_inbox_def key_in_def
        request_of_def OBJECT_PROTOTYPE_KEYS_def jm_get_def jm_delete_def jm_keys_def js_set_delete_def Let_def)
  have p: "map ar_approvalId (broker_pending ?b) = [''apr_2'']"
    by (simp add: broker_run_def sample_ops_def sample_input_def approvals_eval broker_pending_def)
  have "map pa_request (pendingApprovals (inbox_run sample_client)) = broker_pending ?b"
    using inbox_mirrors_broker [OF f t refl sent] none by (simp add: sample_client_def)
  then have "map ar_approvalId (map pa_request (pendingApprovals (inbox_run sample_client))) = [''apr_2'']" using p by simp
  then show ?thesis by (simp add: comp_def)
qed

end
