(* ===== verification/Session_Env.thy ===== *)
theory Session_Env
  imports Vocab
begin

text \<open>
  The spawn environment of \<open>core/src/kernel/env.ts\<close>: what is scrubbed from the base environment, what is
  injected, and the refusal of a token in the environment.

  An environment is a keyed store in insertion order; a base variable may carry \<open>undefined\<close> (\<open>None\<close>).
  Assigning a string to the key \<open>__proto__\<close> of a plain object has no effect in JavaScript (\<open>js_assign\<close>).

  Shown: the environment of a session holds the five injected variables with the profile's values, of the
  base environment exactly the variables outside the SDK's namespace whose names are not secret-shaped,
  and nothing else.
\<close>

section \<open>Profiles\<close>

record claude_profile =
  cp_label :: string
  cp_configDir :: string
  cp_securestorageDir :: string

section \<open>The scrub list\<close>

datatype spawn_error = TokenMixing | BareModeRefused

definition SCRUBBED_ENV_VARS :: "string list" where
  "SCRUBBED_ENV_VARS = [''ANTHROPIC_API_KEY'', ''ANTHROPIC_AUTH_TOKEN'', ''ANTHROPIC_PROFILE'']"

definition SCRUBBED_ENV_PREFIXES :: "string list" where
  "SCRUBBED_ENV_PREFIXES = [''CLAUDE_CODE_USE_'']"

definition OAUTH_TOKEN_ENV_VAR :: string where
  "OAUTH_TOKEN_ENV_VAR = ''CLAUDE_CODE_OAUTH_TOKEN''"

definition PERMITTED_SDK_NAMESPACE_VARS :: "string list" where
  "PERMITTED_SDK_NAMESPACE_VARS =
     [''CLAUDE_CONFIG_DIR'', ''CLAUDE_SECURESTORAGE_CONFIG_DIR'', ''CLAUDE_CODE_ENABLE_TELEMETRY'']"

definition SDK_NAMESPACE_PREFIXES :: "string list" where
  "SDK_NAMESPACE_PREFIXES = [''ANTHROPIC_'', ''CLAUDE_'']"

definition starts_with :: "string \<Rightarrow> string \<Rightarrow> bool" where
  "starts_with p s = (take (length p) s = p)"

fun contains_str :: "string \<Rightarrow> string \<Rightarrow> bool" where
  "contains_str p [] = (p = [])"
| "contains_str p (c # s) = (starts_with p (c # s) \<or> contains_str p s)"

definition upper_char :: "char \<Rightarrow> char" where
  "upper_char c = (let n = of_char c :: nat in if 97 \<le> n \<and> n \<le> 122 then char_of (n - 32) else c)"

definition SECRET_WORDS :: "string list" where
  "SECRET_WORDS = [''TOKEN'', ''SECRET'', ''PASSWORD'', ''CREDENTIAL'', ''API_KEY'', ''ACCESS_KEY'', ''PRIVATE_KEY'']"

definition SECRET_SHAPED_NAME_RE :: "string \<Rightarrow> bool" where
  "SECRET_SHAPED_NAME_RE name = list_ex (\<lambda>w. contains_str w (map upper_char name)) SECRET_WORDS"

definition isSdkNamespaceVar :: "string \<Rightarrow> bool" where
  "isSdkNamespaceVar name = list_ex (\<lambda>p. starts_with p name) SDK_NAMESPACE_PREFIXES"

definition isUnknownSdkCredentialVar :: "string \<Rightarrow> bool" where
  "isUnknownSdkCredentialVar name =
    (if \<not> isSdkNamespaceVar name then False
     else if name = OAUTH_TOKEN_ENV_VAR then False
     else name \<notin> set PERMITTED_SDK_NAMESPACE_VARS)"

definition isScrubbedEnvVar :: "string \<Rightarrow> bool" where
  "isScrubbedEnvVar name =
    (if name \<in> set SCRUBBED_ENV_VARS then True
     else if list_ex (\<lambda>p. starts_with p name) SCRUBBED_ENV_PREFIXES then True
     else if isUnknownSdkCredentialVar name then True
     else SECRET_SHAPED_NAME_RE name \<and> name \<notin> set PERMITTED_SDK_NAMESPACE_VARS)"

section \<open>Building the environment\<close>

type_synonym env = "(string, string) jmap"

definition buildOtelEnvBlock :: "string \<Rightarrow> (string \<times> string) list" where
  "buildOtelEnvBlock label = [(''CLAUDE_CODE_ENABLE_TELEMETRY'', ''1''), (''OTEL_LOG_TOOL_DETAILS'', ''1''),
     (''OTEL_RESOURCE_ATTRIBUTES'', ''account='' @ label)]"

definition assertNoForbiddenArgs :: "string list option \<Rightarrow> spawn_error + unit" where
  "assertNoForbiddenArgs args = (case args of
     None \<Rightarrow> Inr ()
   | Some as \<Rightarrow> if list_ex (\<lambda>a. a = ''--bare'' \<or> starts_with ''--bare='' a) as then Inl BareModeRefused else Inr ())"

definition js_assign :: "env \<Rightarrow> string \<Rightarrow> string \<Rightarrow> env" where
  "js_assign e k v = (if k = ''__proto__'' then e else jm_set e k v)"

definition assign_all :: "env \<Rightarrow> (string \<times> string) list \<Rightarrow> env" where
  "assign_all e kvs = foldl (\<lambda>e (k, v). js_assign e k v) e kvs"

primrec copy_base :: "(string \<times> string option) list \<Rightarrow> env \<Rightarrow> env" where
  "copy_base [] e = e"
| "copy_base (kv # rest) e =
    copy_base rest (case snd kv of
      None \<Rightarrow> e
    | Some v \<Rightarrow> if isScrubbedEnvVar (fst kv) then e else js_assign e (fst kv) v)"

definition buildSessionEnv :: "claude_profile \<Rightarrow> (string, string option) jmap \<Rightarrow> spawn_error + env" where
  "buildSessionEnv prof base =
    (if jm_has base OAUTH_TOKEN_ENV_VAR \<and> jm_get base OAUTH_TOKEN_ENV_VAR \<noteq> Some None then Inl TokenMixing
     else Inr (assign_all
        (js_assign (js_assign (copy_base base []) ''CLAUDE_CONFIG_DIR'' (cp_configDir prof))
          ''CLAUDE_SECURESTORAGE_CONFIG_DIR'' (cp_securestorageDir prof))
        (buildOtelEnvBlock (cp_label prof))))"

section \<open>Correctness\<close>

lemma starts_with_iff: "starts_with p s \<longleftrightarrow> (\<exists>t. s = p @ t)"
  unfolding starts_with_def by (metis append_eq_conv_conj append_take_drop_id)

lemma contains_str_iff: "contains_str p s \<longleftrightarrow> (\<exists>a b. s = a @ p @ b)"
proof (induction s)
  case (Cons c s)
  have "(\<exists>a b. c # s = a @ p @ b) \<longleftrightarrow> (\<exists>b. c # s = p @ b) \<or> (\<exists>a b. s = a @ p @ b)"
    by (metis append_Cons append_Nil neq_Nil_conv list.inject)
  then show ?case using Cons by (simp add: starts_with_iff)
qed simp

text \<open>What the environment promises: the injected variables, and which base variables pass.\<close>

definition injected :: "claude_profile \<Rightarrow> (string, string) jmap" where
  "injected prof = [(''CLAUDE_CONFIG_DIR'', cp_configDir prof), (''CLAUDE_SECURESTORAGE_CONFIG_DIR'', cp_securestorageDir prof),
     (''CLAUDE_CODE_ENABLE_TELEMETRY'', ''1''), (''OTEL_LOG_TOOL_DETAILS'', ''1''),
     (''OTEL_RESOURCE_ATTRIBUTES'', ''account='' @ cp_label prof)]"

definition carries_credential_name :: "string \<Rightarrow> bool" where
  "carries_credential_name k \<longleftrightarrow> (\<exists>t. k = ''ANTHROPIC_'' @ t) \<or> (\<exists>t. k = ''CLAUDE_'' @ t)
     \<or> (\<exists>w \<in> set SECRET_WORDS. \<exists>a b. map upper_char k = a @ w @ b)"

lemma scrub_exact:
  assumes "k \<noteq> OAUTH_TOKEN_ENV_VAR" "k \<notin> set PERMITTED_SDK_NAMESPACE_VARS"
  shows "isScrubbedEnvVar k = carries_credential_name k"
proof -
  have "isSdkNamespaceVar k" if "k \<in> set SCRUBBED_ENV_VARS"
    using that by (auto simp: SCRUBBED_ENV_VARS_def isSdkNamespaceVar_def SDK_NAMESPACE_PREFIXES_def starts_with_def)
  moreover have "isSdkNamespaceVar k" if "list_ex (\<lambda>p. starts_with p k) SCRUBBED_ENV_PREFIXES"
    using that by (auto simp: SCRUBBED_ENV_PREFIXES_def isSdkNamespaceVar_def SDK_NAMESPACE_PREFIXES_def starts_with_iff)
  moreover have "carries_credential_name k \<longleftrightarrow> isSdkNamespaceVar k \<or> SECRET_SHAPED_NAME_RE k"
    by (auto simp: carries_credential_name_def isSdkNamespaceVar_def SDK_NAMESPACE_PREFIXES_def starts_with_iff
        SECRET_SHAPED_NAME_RE_def list_ex_iff contains_str_iff)
  ultimately show ?thesis using assms by (auto simp: isScrubbedEnvVar_def isUnknownSdkCredentialVar_def)
qed

lemma get_js_assign: "jm_get (js_assign e k v) k' = (if k' = k \<and> k \<noteq> ''__proto__'' then Some v else jm_get e k')"
  by (simp add: js_assign_def jm_get_set)

lemma get_copy_base:
  "jm_ok base \<Longrightarrow> jm_get (copy_base base e) k
     = (if isScrubbedEnvVar k \<or> k = ''__proto__'' then jm_get e k
        else case jm_get base k of Some (Some v) \<Rightarrow> Some v | _ \<Rightarrow> jm_get e k)"
proof (induction base arbitrary: e)
  case (Cons kv rest)
  have ok: "jm_ok rest" "fst kv \<notin> fst ` set rest" using Cons.prems by (simp_all add: jm_ok_def)
  have fresh: "jm_get rest (fst kv) = None" using ok(2) by (simp add: jm_get_None_iff)
  have cons: "jm_get (kv # rest) k = (if k = fst kv then Some (snd kv) else jm_get rest k)" for k
    by (simp add: jm_get_def)
  show ?case using Cons.IH [OF ok(1)] fresh unfolding cons
    by (cases "k = fst kv") (auto simp: get_js_assign split: option.splits)
qed (simp add: jm_get_def)

text \<open>Claim C17: the spawn environment is sealed. Building it fails exactly when the base environment
  carries the OAuth token variable with a value (also an empty one). Otherwise every variable of the
  result is accounted for: the five injected ones have the values of this profile; any other variable is
  there exactly when the base environment has it with a value, with that value, and its name is neither
  in the SDK's namespace (\<open>ANTHROPIC_\<close>, \<open>CLAUDE_\<close>) nor contains, in any case, one of the secret words.\<close>

theorem session_env_sealed:
  assumes "jm_ok base"
  shows "case buildSessionEnv prof base of
      Inl e \<Rightarrow> e = TokenMixing \<and> (\<exists>v. jm_get base ''CLAUDE_CODE_OAUTH_TOKEN'' = Some (Some v))
    | Inr env \<Rightarrow> (\<nexists>v. jm_get base ''CLAUDE_CODE_OAUTH_TOKEN'' = Some (Some v))
        \<and> (\<forall>k. jm_get env k = (case jm_get (injected prof) k of
             Some v \<Rightarrow> Some v
           | None \<Rightarrow> (if carries_credential_name k \<or> k = ''__proto__'' then None
                     else case jm_get base k of Some (Some v) \<Rightarrow> Some v | _ \<Rightarrow> None)))"
proof -
  have tok: "(jm_has base OAUTH_TOKEN_ENV_VAR \<and> jm_get base OAUTH_TOKEN_ENV_VAR \<noteq> Some None)
      \<longleftrightarrow> (\<exists>v. jm_get base ''CLAUDE_CODE_OAUTH_TOKEN'' = Some (Some v))"
    by (auto simp: OAUTH_TOKEN_ENV_VAR_def jm_has_iff_get)
  have inj: "jm_get (injected prof) k = (if k = ''CLAUDE_CONFIG_DIR'' then Some (cp_configDir prof)
      else if k = ''CLAUDE_SECURESTORAGE_CONFIG_DIR'' then Some (cp_securestorageDir prof)
      else if k = ''CLAUDE_CODE_ENABLE_TELEMETRY'' then Some ''1'' else if k = ''OTEL_LOG_TOOL_DETAILS'' then Some ''1''
      else if k = ''OTEL_RESOURCE_ATTRIBUTES'' then Some (''account='' @ cp_label prof) else None)" for k
    by (simp add: injected_def jm_get_def)
  have env: "jm_get (assign_all
        (js_assign (js_assign (copy_base base []) ''CLAUDE_CONFIG_DIR'' (cp_configDir prof))
          ''CLAUDE_SECURESTORAGE_CONFIG_DIR'' (cp_securestorageDir prof))
        (buildOtelEnvBlock (cp_label prof))) k
      = (case jm_get (injected prof) k of Some v \<Rightarrow> Some v | None \<Rightarrow> jm_get (copy_base base []) k)" for k
    unfolding inj by (simp add: assign_all_def buildOtelEnvBlock_def get_js_assign)
  have pass: "isScrubbedEnvVar k = carries_credential_name k"
    if "jm_get (injected prof) k = None" "k \<noteq> OAUTH_TOKEN_ENV_VAR" for k
    using that by (intro scrub_exact) (auto simp: inj PERMITTED_SDK_NAMESPACE_VARS_def split: if_splits)
  have oauth: "carries_credential_name OAUTH_TOKEN_ENV_VAR"
    by (simp add: carries_credential_name_def OAUTH_TOKEN_ENV_VAR_def)
  show ?thesis
  proof (cases "\<exists>v. jm_get base ''CLAUDE_CODE_OAUTH_TOKEN'' = Some (Some v)")
    case True
    then show ?thesis using tok by (simp add: buildSessionEnv_def)
  next
    case False
    have "jm_get (copy_base base []) k = (if carries_credential_name k \<or> k = ''__proto__'' then None
        else case jm_get base k of Some (Some v) \<Rightarrow> Some v | _ \<Rightarrow> None)"
      if "jm_get (injected prof) k = None" for k
    proof (cases "k = OAUTH_TOKEN_ENV_VAR")
      case True
      then show ?thesis using oauth False get_copy_base [OF assms, of "[]" k]
        by (auto simp: jm_get_def [of "[]"] OAUTH_TOKEN_ENV_VAR_def split: option.splits)
    next
      case False
      then show ?thesis using pass [OF that] get_copy_base [OF assms, of "[]" k]
        by (auto simp: jm_get_def [of "[]"] split: option.splits)
    qed
    then show ?thesis using False tok env by (auto simp: buildSessionEnv_def split: option.splits)
  qed
qed

definition sample_profile :: claude_profile where
  "sample_profile = \<lparr>cp_label = ''MAX_A'', cp_configDir = ''/h/max-a'', cp_securestorageDir = ''/h/max-a''\<rparr>"

definition sample_base :: "(string, string option) jmap" where
  "sample_base = [(''PATH'', Some ''/bin''), (''ANTHROPIC_API_KEY'', Some ''k''), (''gh_token'', Some ''t''), (''HOME'', None)]"

theorem session_env_sealed_witness:
  "\<exists>env. buildSessionEnv sample_profile sample_base = Inr env
     \<and> jm_get env ''PATH'' = Some ''/bin'' \<and> jm_get env ''gh_token'' = None \<and> jm_get env ''CLAUDE_CONFIG_DIR'' = Some ''/h/max-a''"
proof -
  have ok: "jm_ok sample_base" by (simp add: sample_base_def jm_ok_def)
  obtain env where e: "buildSessionEnv sample_profile sample_base = Inr env"
    by (simp add: buildSessionEnv_def sample_base_def OAUTH_TOKEN_ENV_VAR_def jm_has_def)
  have get: "jm_get env k = (case jm_get (injected sample_profile) k of
             Some v \<Rightarrow> Some v
           | None \<Rightarrow> (if carries_credential_name k \<or> k = ''__proto__'' then None
                     else case jm_get sample_base k of Some (Some v) \<Rightarrow> Some v | _ \<Rightarrow> None))" for k
    using session_env_sealed [OF ok, of sample_profile] e by simp
  have c: "carries_credential_name k = (list_ex (\<lambda>p. starts_with p k) SDK_NAMESPACE_PREFIXES \<or> SECRET_SHAPED_NAME_RE k)" for k
    by (simp add: carries_credential_name_def SDK_NAMESPACE_PREFIXES_def starts_with_iff SECRET_SHAPED_NAME_RE_def list_ex_iff
        contains_str_iff)
  have "\<not> carries_credential_name ''PATH''" "carries_credential_name ''gh_token''"
    unfolding c by code_simp+
  then show ?thesis using e get [of "''PATH''"] get [of "''gh_token''"] get [of "''CLAUDE_CONFIG_DIR''"]
    by (simp add: injected_def sample_profile_def sample_base_def jm_get_def)
qed

end
