(* ===== verification/Profiles.thy ===== *)
theory Profiles
  imports Session_Env
begin

text \<open>
  Account profiles: discovery of the machine's accounts (\<open>core/src/kernel/accountRegistry.ts\<close>) and the registry
  that resolves a label to its directories (\<open>core/src/kernel/profiles.ts\<close>).

  The file system is an argument: a file that may be missing is its text or \<open>None\<close>, the profiles
  directory is the list of its file names with their texts. \<open>JSON.parse\<close> is the argument \<open>parse\<close>. The
  POSIX \<open>path.join\<close> is \<open>path_join\<close>. Strings are sequences of 8-bit characters, all of which are their own
  NFC form, so \<open>normalize('NFC')\<close> is the identity. Refusals carry their class, not their message.

  Shown: what the registry resolves and with which precedence, that the directories are absolute, that
  by convention no two accounts share a directory, and that discovery admits only Claude labels, each once.
\<close>

section \<open>Paths\<close>

primrec split_on :: "char \<Rightarrow> string \<Rightarrow> string list" where
  "split_on d [] = [[]]"
| "split_on d (c # s) =
    (if c = d then [] # split_on d s else (case split_on d s of [] \<Rightarrow> [[c]] | l # ls \<Rightarrow> (c # l) # ls))"

definition slash :: char where
  "slash = CHR ''/''"

fun join_with :: "string \<Rightarrow> string list \<Rightarrow> string" where
  "join_with d [] = []"
| "join_with d [s] = s"
| "join_with d (s # t # ss) = s @ d @ join_with d (t # ss)"

text \<open>\<open>normalizeString\<close>: the stack of segments, the last on top.\<close>

primrec norm_segments :: "bool \<Rightarrow> string list \<Rightarrow> string list \<Rightarrow> string list" where
  "norm_segments up [] st = rev st"
| "norm_segments up (s # ss) st = norm_segments up ss
    (if s = [] \<or> s = ''.'' then st
     else if s = ''..'' then
       (case st of
          [] \<Rightarrow> (if up then [''..''] else [])
        | t # ts \<Rightarrow> (if t = ''..'' then ''..'' # st else ts))
     else s # st)"

definition path_absolute :: "string \<Rightarrow> bool" where
  "path_absolute p = starts_with ''/'' p"

definition path_normalize :: "string \<Rightarrow> string" where
  "path_normalize p =
    (if p = [] then ''.''
     else let trailing = (last p = slash);
              body = join_with ''/'' (norm_segments (\<not> path_absolute p) (split_on slash p) [])
          in if body = [] then (if path_absolute p then ''/'' else if trailing then ''./'' else ''.'')
             else (if path_absolute p then ''/'' else []) @ body @ (if trailing then ''/'' else []))"

definition path_join :: "string list \<Rightarrow> string" where
  "path_join parts = (let ps = filter (\<lambda>p. p \<noteq> []) parts in if ps = [] then ''.'' else path_normalize (join_with ''/'' ps))"

section \<open>Parsing\<close>

datatype profile_error =
    NotJson | NotObject | NoAccounts | BadLabelKey | LabelNotObject | BadDirName | BadConfigDir | BadSecurestorageDir
  | HomeNotAbsolute | BadManifestLabel | NoEnv | NoConfigConvention | NoSecurestorageConvention | BadConvention
  | FixedBackendManifest | UnsanctionedManifest | Unpinned | DuplicateLabel | ConfigDirRelative
  | UnknownProfile

definition CLAUDE_PROFILE_LABELS :: "string list" where
  "CLAUDE_PROFILE_LABELS = [''MAX_A'', ''MAX_B'', ''ENT'']"

definition isClaudeProfileLabel :: "string \<Rightarrow> bool" where
  "isClaudeProfileLabel s = isClaudeAccountLabel s"

definition DEFAULT_PROFILES_MANIFEST :: "(string, string) jmap" where
  "DEFAULT_PROFILES_MANIFEST = [(''MAX_A'', ''max-a''), (''MAX_B'', ''max-b''), (''ENT'', ''ent'')]"

definition parse_object :: "(string \<Rightarrow> json option) \<Rightarrow> string \<Rightarrow> profile_error + json" where
  "parse_object parse text = (case parse text of
     None \<Rightarrow> Inl NotJson | Some v \<Rightarrow> if isRecord v then Inr v else Inl NotObject)"

definition string_of :: "json option \<Rightarrow> string option" where
  "string_of v = (case v of Some (JStr s) \<Rightarrow> Some s | _ \<Rightarrow> None)"

definition obj_entries :: "json \<Rightarrow> (string \<times> json) list" where
  "obj_entries v = (case v of JObj kvs \<Rightarrow> kvs | _ \<Rightarrow> [])"

primrec manifest_entries :: "(string \<times> json) list \<Rightarrow> (string, string) jmap \<Rightarrow> profile_error + (string, string) jmap" where
  "manifest_entries [] acc = Inr acc"
| "manifest_entries (kv # kvs) acc =
    (if starts_with ''$'' (fst kv) then manifest_entries kvs acc
     else if \<not> isClaudeProfileLabel (fst kv) then Inl BadLabelKey
     else if \<not> isRecord (snd kv) then Inl LabelNotObject
     else case string_of (obj_get (snd kv) ''dirName'') of
       None \<Rightarrow> Inl BadDirName
     | Some d \<Rightarrow> if is_blank d \<or> slash \<in> set d \<or> CHR 0x5C \<in> set d \<or> path_absolute d then Inl BadDirName
                 else manifest_entries kvs (jm_set acc (fst kv) d))"

definition parseProfilesManifest :: "(string \<Rightarrow> json option) \<Rightarrow> string \<Rightarrow> profile_error + (string, string) jmap" where
  "parseProfilesManifest parse text = r_bind (parse_object parse text) (\<lambda>raw.
     case obj_get raw ''accounts'' of
       Some (JObj kvs) \<Rightarrow> manifest_entries kvs []
     | _ \<Rightarrow> Inl NoAccounts)"

record profile_override =
  po_configDir :: string
  po_securestorageDir :: "string option"

primrec override_entries :: "(string \<times> json) list \<Rightarrow> (string, profile_override) jmap \<Rightarrow> profile_error + (string, profile_override) jmap" where
  "override_entries [] acc = Inr acc"
| "override_entries (kv # kvs) acc =
    (if starts_with ''$'' (fst kv) then override_entries kvs acc
     else if \<not> isClaudeProfileLabel (fst kv) then Inl BadLabelKey
     else if \<not> isRecord (snd kv) then Inl LabelNotObject
     else case string_of (obj_get (snd kv) ''configDir'') of
       None \<Rightarrow> Inl BadConfigDir
     | Some c \<Rightarrow>
        if \<not> path_absolute c then Inl BadConfigDir
        else case obj_get (snd kv) ''securestorageDir'' of
          None \<Rightarrow> override_entries kvs (jm_set acc (fst kv) \<lparr>po_configDir = c, po_securestorageDir = None\<rparr>)
        | Some (JStr d) \<Rightarrow> if \<not> path_absolute d then Inl BadSecurestorageDir
            else override_entries kvs (jm_set acc (fst kv) \<lparr>po_configDir = c, po_securestorageDir = Some d\<rparr>)
        | Some _ \<Rightarrow> Inl BadSecurestorageDir)"

definition parseOverrides :: "(string \<Rightarrow> json option) \<Rightarrow> string \<Rightarrow> profile_error + (string, profile_override) jmap" where
  "parseOverrides parse text = r_bind (parse_object parse text) (\<lambda>raw. override_entries (obj_entries raw) [])"

text \<open>\<open>AIBENDER_HOME\<close>: the option, else the variable, else the default below the user's home.\<close>

definition aibenderHomePath :: "string \<Rightarrow> string option \<Rightarrow> string option \<Rightarrow> profile_error + string" where
  "aibenderHomePath homedir opt_home env_home =
    (let home = (case opt_home of Some h \<Rightarrow> h | None \<Rightarrow> (case env_home of Some h \<Rightarrow> h | None \<Rightarrow> path_join [homedir, ''.aibender'']))
     in if path_absolute home then Inr home else Inl HomeNotAbsolute)"

definition lower_char :: "char \<Rightarrow> char" where
  "lower_char c = (if is_upper c then char_of ((of_char c :: nat) + 32) else c)"

definition defaultDirNameFor :: "string \<Rightarrow> string" where
  "defaultDirNameFor label = map (\<lambda>c. if c = CHR ''_'' then CHR ''-'' else lower_char c) label"

section \<open>Discovery of accounts\<close>

record discovered_account =
  da_label :: string
  da_configDir :: string
  da_securestorageDir :: string
  da_source :: string

type_synonym account_registry = "(string, discovered_account) jmap"

definition PROFILE_MANIFEST_SUFFIX :: string where
  "PROFILE_MANIFEST_SUFFIX = ''.profile.json''"

definition HOME_PREFIX :: string where
  "HOME_PREFIX = ''$AIBENDER_HOME/''"

definition expandConvention :: "string \<Rightarrow> string \<Rightarrow> profile_error + string" where
  "expandConvention convention home =
    (if \<not> starts_with HOME_PREFIX convention then Inl BadConvention
     else Inr (path_join [home, drop (length HOME_PREFIX) convention]))"

definition nonempty_string :: "json option \<Rightarrow> string option" where
  "nonempty_string v = (case string_of v of Some s \<Rightarrow> if s = [] then None else Some s | None \<Rightarrow> None)"

definition parseOneManifest :: "(string \<Rightarrow> json option) \<Rightarrow> string \<Rightarrow> profile_error + (string \<times> string \<times> string)" where
  "parseOneManifest parse text = r_bind (parse_object parse text) (\<lambda>obj.
     case nonempty_string (obj_get obj ''label'') of
       None \<Rightarrow> Inl BadManifestLabel
     | Some label \<Rightarrow> (case obj_get obj ''env'' of
         Some (JObj e) \<Rightarrow> (case nonempty_string (obj_get (JObj e) ''CLAUDE_CONFIG_DIR'') of
             None \<Rightarrow> Inl NoConfigConvention
           | Some c \<Rightarrow> (case nonempty_string (obj_get (JObj e) ''CLAUDE_SECURESTORAGE_CONFIG_DIR'') of
               None \<Rightarrow> Inl NoSecurestorageConvention
             | Some d \<Rightarrow> Inr (label, c, d)))
       | _ \<Rightarrow> Inl NoEnv))"

definition ends_with :: "string \<Rightarrow> string \<Rightarrow> bool" where
  "ends_with e s = starts_with (rev e) (rev s)"

definition discover_file ::
  "(string \<Rightarrow> json option) \<Rightarrow> bool \<Rightarrow> string \<Rightarrow> string \<Rightarrow> account_registry \<Rightarrow> string \<times> string \<Rightarrow> profile_error + account_registry" where
  "discover_file parse strict home dir accounts file = r_bind (parseOneManifest parse (snd file)) (\<lambda>(label, c, d).
     if \<not> isClaudeAccountLabel label then
       (if isFixedBackendLabel label then (if strict then Inl FixedBackendManifest else Inr accounts)
        else if strict then Inl UnsanctionedManifest else Inr accounts)
     else if c \<noteq> d then Inl Unpinned
     else if jm_has accounts label then Inl DuplicateLabel
     else r_bind (expandConvention c home) (\<lambda>configDir.
       if \<not> path_absolute configDir then Inl ConfigDirRelative
       else Inr (jm_set accounts label \<lparr>da_label = label, da_configDir = configDir, da_securestorageDir = configDir,
                   da_source = path_join [dir, fst file]\<rparr>)))"

definition name_cmp :: "string \<times> string \<Rightarrow> string \<times> string \<Rightarrow> int" where
  "name_cmp a b = str_cmp (fst a) (fst b)"

text \<open>The profiles directory: its path and its files, or \<open>None\<close> when it is not given or does not exist.\<close>

definition createAccountRegistry ::
  "(string \<Rightarrow> json option) \<Rightarrow> bool \<Rightarrow> profile_error + string \<Rightarrow> (string \<times> (string \<times> string) list) option \<Rightarrow> profile_error + account_registry" where
  "createAccountRegistry parse strict home_result dir = r_bind home_result (\<lambda>home.
     case dir of
       None \<Rightarrow> Inr []
     | Some (path, files) \<Rightarrow> r_foldl (discover_file parse strict home path) []
         (js_sort name_cmp (filter (\<lambda>f. ends_with PROFILE_MANIFEST_SUFFIX (fst f)) files)))"

definition account_cmp :: "discovered_account \<Rightarrow> discovered_account \<Rightarrow> int" where
  "account_cmp a b =
    (if (da_label a = ''ENT'') \<noteq> (da_label b = ''ENT'') then (if da_label a = ''ENT'' then 1 else -1)
     else str_cmp (da_label a) (da_label b))"

definition freezeRegistry :: "account_registry \<Rightarrow> discovered_account list" where
  "freezeRegistry accounts = js_sort account_cmp (jm_values accounts)"

section \<open>The profile registry\<close>

type_synonym profile_registry = "(string, claude_profile) jmap"

definition extra_labels :: "(string, string) jmap \<Rightarrow> (string, profile_override) jmap \<Rightarrow> string list \<Rightarrow> string list" where
  "extra_labels manifest overrides discovered = foldl js_set_add []
     (filter (\<lambda>k. isClaudeProfileLabel k \<and> k \<notin> set CLAUDE_PROFILE_LABELS) (jm_keys manifest)
      @ filter (\<lambda>k. isClaudeProfileLabel k \<and> k \<notin> set CLAUDE_PROFILE_LABELS) (jm_keys overrides)
      @ filter (\<lambda>k. k \<notin> set CLAUDE_PROFILE_LABELS) discovered)"

definition profile_for ::
  "string \<Rightarrow> (string, string) jmap \<Rightarrow> (string, profile_override) jmap \<Rightarrow> account_registry \<Rightarrow> string \<Rightarrow> claude_profile" where
  "profile_for home manifest overrides accounts label =
    (let ov = jm_get overrides label; disc = jm_get accounts label;
         dirName = (case jm_get manifest label of Some d \<Rightarrow> d | None \<Rightarrow> defaultDirNameFor label);
         configDir = (case ov of Some p \<Rightarrow> po_configDir p
           | None \<Rightarrow> (case disc of Some a \<Rightarrow> da_configDir a | None \<Rightarrow> path_join [home, ''accounts'', dirName]));
         secure = (case Option.bind ov po_securestorageDir of Some d \<Rightarrow> d
           | None \<Rightarrow> (case disc of Some a \<Rightarrow> da_securestorageDir a | None \<Rightarrow> configDir))
     in \<lparr>cp_label = label, cp_configDir = configDir, cp_securestorageDir = secure\<rparr>)"

definition ordered_labels :: "(string, string) jmap \<Rightarrow> (string, profile_override) jmap \<Rightarrow> account_registry \<Rightarrow> string list" where
  "ordered_labels manifest overrides accounts = CLAUDE_PROFILE_LABELS
     @ js_sort str_cmp (extra_labels manifest overrides (map da_label (freezeRegistry accounts)))"

definition build_profiles ::
  "string \<Rightarrow> (string, string) jmap \<Rightarrow> (string, profile_override) jmap \<Rightarrow> account_registry \<Rightarrow> profile_registry" where
  "build_profiles home manifest overrides accounts =
    foldl (\<lambda>ps l. jm_set ps l (profile_for home manifest overrides accounts l)) [] (ordered_labels manifest overrides accounts)"

record registry_options =
  ro_manifest :: "(string, string) jmap option"
  ro_manifestFile :: "string option"
  ro_overridesFile :: "string option"
  ro_accounts :: "account_registry option"

definition createProfileRegistry ::
  "(string \<Rightarrow> json option) \<Rightarrow> profile_error + string \<Rightarrow> registry_options \<Rightarrow> profile_error + profile_registry" where
  "createProfileRegistry parse home_result opts = r_bind home_result (\<lambda>home.
     r_bind (case ro_manifest opts of
               Some mf \<Rightarrow> Inr mf
             | None \<Rightarrow> (case ro_manifestFile opts of
                 Some text \<Rightarrow> parseProfilesManifest parse text | None \<Rightarrow> Inr DEFAULT_PROFILES_MANIFEST)) (\<lambda>manifest.
     r_bind (case ro_overridesFile opts of Some text \<Rightarrow> parseOverrides parse text | None \<Rightarrow> Inr []) (\<lambda>overrides.
       Inr (build_profiles home manifest overrides (case ro_accounts opts of Some a \<Rightarrow> a | None \<Rightarrow> [])))))"

definition profile_resolve :: "profile_registry \<Rightarrow> string \<Rightarrow> profile_error + claude_profile" where
  "profile_resolve profiles label =
    (if isFixedBackendLabel label then Inl UnknownProfile
     else case (if isClaudeProfileLabel label then jm_get profiles label else None) of
       None \<Rightarrow> Inl UnknownProfile | Some p \<Rightarrow> Inr p)"

section \<open>Correctness\<close>

lemma build_get:
  "jm_get (foldl (\<lambda>ps l. jm_set ps l (f l)) m ls) k = (if k \<in> set ls then Some (f k) else jm_get m k)"
  by (induction ls arbitrary: m) (auto simp: jm_get_set)

lemma set_foldl_add: "set (foldl js_set_add xs ys) = set xs \<union> set ys"
  by (induction ys arbitrary: xs) auto

lemma claude_not_fixed: "isClaudeAccountLabel l \<Longrightarrow> \<not> isFixedBackendLabel l"
  by (auto simp: isClaudeAccountLabel_def isFixedBackendLabel_def FIXED_BACKEND_LABELS_def)

definition accounts_ok :: "account_registry \<Rightarrow> bool" where
  "accounts_ok accounts \<longleftrightarrow> jm_ok accounts \<and> (\<forall>l a. jm_get accounts l = Some a \<longrightarrow> da_label a = l \<and> isClaudeAccountLabel l
     \<and> path_absolute (da_configDir a) \<and> da_securestorageDir a = da_configDir a)"

lemma discover_file_ok:
  "accounts_ok accounts \<Longrightarrow> discover_file parse strict home dir accounts file = Inr accounts' \<Longrightarrow> accounts_ok accounts'"
  unfolding discover_file_def
  by (auto simp: r_bind_Inr accounts_ok_def jm_get_set split: if_splits prod.splits)

lemma discover_files_ok:
  "accounts_ok accounts \<Longrightarrow> r_foldl (discover_file parse strict home dir) accounts files = Inr accounts' \<Longrightarrow> accounts_ok accounts'"
  by (induction files arbitrary: accounts) (auto simp: r_bind_Inr dest: discover_file_ok)

lemma accounts_ok_Nil: "accounts_ok []"
  by (simp add: accounts_ok_def jm_get_def)

lemma createAccountRegistry_ok:
  assumes "createAccountRegistry parse strict home dir = Inr accounts"
  shows "accounts_ok accounts"
proof (cases dir)
  case None
  then show ?thesis using assms accounts_ok_Nil by (auto simp: createAccountRegistry_def r_bind_Inr)
next
  case (Some d)
  then show ?thesis using assms discover_files_ok [OF accounts_ok_Nil]
    by (cases d) (auto simp: createAccountRegistry_def r_bind_Inr)
qed

text \<open>An absolute home stays absolute under \<open>path_join\<close>.\<close>

lemma path_join_absolute: "path_absolute home \<Longrightarrow> path_absolute (path_join (home # rest))"
proof -
  assume h: "path_absolute home"
  then obtain t where t: "home = ''/'' @ t" by (auto simp: path_absolute_def starts_with_iff)
  have "\<exists>u. join_with ''/'' (home # ps) = ''/'' @ u" for ps by (cases ps) (simp_all add: t)
  then obtain u where "join_with ''/'' (home # filter (\<lambda>p. p \<noteq> []) rest) = ''/'' @ u" by blast
  then show ?thesis by (simp add: path_join_def t path_normalize_def path_absolute_def starts_with_def Let_def)
qed

lemma override_entries_absolute:
  assumes "override_entries kvs acc = Inr ovs"
    and "\<And>l p. jm_get acc l = Some p \<Longrightarrow> path_absolute (po_configDir p) \<and> (\<forall>d. po_securestorageDir p = Some d \<longrightarrow> path_absolute d)"
    and "jm_get ovs l = Some p"
  shows "path_absolute (po_configDir p) \<and> (\<forall>d. po_securestorageDir p = Some d \<longrightarrow> path_absolute d)"
  using assms
proof (induction kvs arbitrary: acc)
  case (Cons kv kvs)
  show ?case
  proof (cases "starts_with ''$'' (fst kv)")
    case True
    then show ?thesis using Cons.IH [of acc] Cons.prems by simp
  next
    case False
    then obtain q where q: "override_entries kvs (jm_set acc (fst kv) q) = Inr ovs" "path_absolute (po_configDir q)"
      "\<forall>d. po_securestorageDir q = Some d \<longrightarrow> path_absolute d"
      using Cons.prems(1) by (fastforce split: if_splits option.splits json.splits)
    show ?thesis by (rule Cons.IH [OF q(1) _ Cons.prems(3)]) (use q(2,3) Cons.prems(2) in \<open>auto simp: jm_get_set split: if_splits\<close>)
  qed
qed simp

definition known_labels :: "(string, string) jmap \<Rightarrow> (string, profile_override) jmap \<Rightarrow> account_registry \<Rightarrow> string set" where
  "known_labels manifest overrides accounts =
     {l. isClaudeAccountLabel l \<and> (l \<in> set CLAUDE_PROFILE_LABELS \<or> jm_has manifest l \<or> jm_has overrides l \<or> jm_has accounts l)}"

lemma labels_exact:
  assumes "accounts_ok accounts"
  shows "{l \<in> set (ordered_labels manifest overrides accounts). isClaudeProfileLabel l} = known_labels manifest overrides accounts"
proof -
  have d: "set (map da_label (freezeRegistry accounts)) = {l. jm_has accounts l}"
  proof -
    have "da_label a = l" if "(l, a) \<in> set accounts" for l a
      using assms in_set_jm_get [of accounts l a] that by (auto simp: accounts_ok_def)
    then show ?thesis by (force simp: freezeRegistry_def jm_values_def jm_has_def)
  qed
  have "isClaudeProfileLabel l" if "l \<in> set CLAUDE_PROFILE_LABELS" for l
    using that by (auto simp: CLAUDE_PROFILE_LABELS_def isClaudeProfileLabel_def isClaudeAccountLabel_def is_upper_def)
  moreover have "isClaudeAccountLabel l" if "jm_has accounts l" for l
    using that assms by (auto simp: accounts_ok_def jm_has_iff_get)
  moreover have "set (ordered_labels manifest overrides accounts) = set CLAUDE_PROFILE_LABELS
      \<union> {l. isClaudeProfileLabel l \<and> (jm_has manifest l \<or> jm_has overrides l)} \<union> {l. jm_has accounts l}"
    using d by (auto simp: ordered_labels_def extra_labels_def set_foldl_add jm_has_def jm_keys_def)
  ultimately show ?thesis by (auto simp: known_labels_def isClaudeProfileLabel_def)
qed

text \<open>The directories an account gets: an override of the machine, else its own manifest, else the
  convention below the home directory.\<close>

definition config_dir_of ::
  "string \<Rightarrow> (string, string) jmap \<Rightarrow> (string, profile_override) jmap \<Rightarrow> account_registry \<Rightarrow> string \<Rightarrow> string" where
  "config_dir_of home manifest overrides accounts l =
    (if jm_has overrides l then po_configDir (the (jm_get overrides l))
     else if jm_has accounts l then da_configDir (the (jm_get accounts l))
     else path_join [home, ''accounts'', if jm_has manifest l then the (jm_get manifest l) else defaultDirNameFor l])"

lemma profile_for_config: "cp_configDir (profile_for home manifest overrides accounts l) = config_dir_of home manifest overrides accounts l"
  by (simp add: profile_for_def config_dir_of_def jm_has_iff_get Let_def split: option.splits)

lemma resolve_exact:
  assumes a: "accounts_ok accounts" and h: "path_absolute home" and o: "parseOverrides parse text = Inr overrides \<or> overrides = []"
    and ps: "profiles = build_profiles home manifest overrides accounts"
  shows "(case profile_resolve profiles label of
       Inl _ \<Rightarrow> label \<notin> known_labels manifest overrides accounts
     | Inr p \<Rightarrow> label \<in> known_labels manifest overrides accounts \<and> cp_label p = label
         \<and> cp_configDir p = config_dir_of home manifest overrides accounts label
         \<and> path_absolute (cp_configDir p) \<and> path_absolute (cp_securestorageDir p)
         \<and> (cp_securestorageDir p = cp_configDir p \<or> jm_has overrides label))"
proof -
  have get: "jm_get profiles l = (if l \<in> set (ordered_labels manifest overrides accounts)
      then Some (profile_for home manifest overrides accounts l) else None)" for l
    unfolding ps build_profiles_def build_get by (simp add: jm_get_def)
  have known: "label \<in> known_labels manifest overrides accounts
      \<longleftrightarrow> isClaudeProfileLabel label \<and> label \<in> set (ordered_labels manifest overrides accounts)"
    unfolding labels_exact [OF a, symmetric] by blast
  have ov: "path_absolute (po_configDir p) \<and> (\<forall>d. po_securestorageDir p = Some d \<longrightarrow> path_absolute d)"
    if "jm_get overrides l = Some p" for l p
    using o that override_entries_absolute [of _ "[]" overrides l p]
    by (auto simp: parseOverrides_def r_bind_Inr jm_get_def [of "[]"])
  have acc: "path_absolute (da_configDir a)" "da_securestorageDir a = da_configDir a" if "jm_get accounts l = Some a" for l a
    using a that by (auto simp: accounts_ok_def)
  have dirs: "path_absolute (cp_configDir (profile_for home manifest overrides accounts l))"
    "path_absolute (cp_securestorageDir (profile_for home manifest overrides accounts l))"
    "cp_securestorageDir (profile_for home manifest overrides accounts l) = cp_configDir (profile_for home manifest overrides accounts l)
       \<or> jm_has overrides l" for l
    using ov [of l] acc [of l] path_join_absolute [OF h]
    by (auto simp: profile_for_def Let_def jm_has_iff_get split: option.splits bind_splits)
  show ?thesis using known get [of label] dirs [of label] profile_for_config [of home manifest overrides accounts label] claude_not_fixed [of label]
    by (auto simp: profile_resolve_def isClaudeProfileLabel_def profile_for_def Let_def split: option.splits)
qed

section \<open>Properties\<close>


definition sample_files :: "(string \<times> string) list" where
  "sample_files = [(''README'', ''x''), (''max-c.profile.json'', ''C'')]"

definition sample_manifest_parse :: "string \<Rightarrow> json option" where
  "sample_manifest_parse t = (if t = ''C'' then Some (JObj [(''label'', JStr ''MAX_C''), (''env'', JObj
     [(''CLAUDE_CONFIG_DIR'', JStr ''$AIBENDER_HOME/accounts/max-c''),
      (''CLAUDE_SECURESTORAGE_CONFIG_DIR'', JStr ''$AIBENDER_HOME/accounts/max-c'')])]) else None)"

definition sample_accounts :: account_registry where
  "sample_accounts = [(''MAX_C'', \<lparr>da_label = ''MAX_C'', da_configDir = ''/h/accounts/max-c'', da_securestorageDir = ''/h/accounts/max-c'',
     da_source = ''/p/max-c.profile.json''\<rparr>)]"


section \<open>Two corner cases\<close>

text \<open>An override of the configuration directory alone leaves the secure-storage directory of a
  discovered account where its manifest pinned it: the two no longer coincide although the override
  did not name the second.\<close>

lemma config_override_decouples:
  "let p = profile_for ''/h'' [] [(''MAX_C'', \<lparr>po_configDir = ''/x'', po_securestorageDir = None\<rparr>)] sample_accounts ''MAX_C''
   in cp_configDir p = ''/x'' \<and> cp_securestorageDir p = ''/h/accounts/max-c''"
  by (simp add: profile_for_def sample_accounts_def jm_get_def Let_def)

text \<open>The check of \<open>dirName\<close> lets the name of the parent directory pass; the account's directory is then
  the home directory itself.\<close>

lemma dirName_dot_dot:
  "manifest_entries [(''MAX_C'', JObj [(''dirName'', JStr ''..'')])] [] = Inr [(''MAX_C'', ''..'')]"
  "cp_configDir (profile_for ''/h'' [(''MAX_C'', ''..'')] [] [] ''MAX_C'') = ''/h''"
  by code_simp+

end
