(* ===== verification/Transcript_Tail.thy ===== *)
theory Transcript_Tail
  imports Prelude
begin

text \<open>
  The transcript-tail validator of \<open>core/src/kernel/transcriptTail.ts\<close>: it reads a JSONL transcript line by
  line, tracks tool calls without a result, and decides whether a plain resume is safe and from which
  message a repair may fork.

  \<open>JSON.parse\<close> is the argument \<open>parse\<close> (\<open>None\<close> when it throws). Reading \<open>type\<close> of a block that is \<open>null\<close>
  throws a \<open>TypeError\<close>, the error \<open>NullBlock\<close>.

  Shown: the verdict is exact. A resume is safe exactly when every line parses and every tool call
  is followed by its result; the anchor is the last message after which no call was open.
\<close>

section \<open>The validator\<close>

record tail_verdict =
  tv_safeToResume :: bool
  tv_lastCoherentUuid :: "string option"
  tv_unpairedToolUseIds :: "string list"
  tv_tornTail :: bool
  tv_malformedInterior :: bool
  tv_empty :: bool
  tv_parsedLines :: nat

datatype tail_error = NullBlock

record tail_state =
  ts_pending :: "(string, unit) jmap"
  ts_last :: "string option"
  ts_torn :: bool
  ts_malformed :: bool
  ts_parsed :: nat

definition contentBlocks :: "json \<Rightarrow> json list" where
  "contentBlocks line = (case obj_get line ''message'' of
     Some m \<Rightarrow> (case obj_get m ''content'' of Some (JArr bs) \<Rightarrow> bs | _ \<Rightarrow> [])
   | None \<Rightarrow> [])"

definition str_field :: "json \<Rightarrow> string \<Rightarrow> string option" where
  "str_field v k = (case obj_get v k of Some (JStr s) \<Rightarrow> Some s | _ \<Rightarrow> None)"

definition block_step :: "(string, unit) jmap \<Rightarrow> json \<Rightarrow> tail_error + (string, unit) jmap" where
  "block_step pending block =
    (if block = JNull then Inl NullBlock
     else if str_field block ''type'' = Some ''tool_use'' \<and> str_field block ''id'' \<noteq> None
       then Inr (jm_set pending (the (str_field block ''id'')) ())
     else if str_field block ''type'' = Some ''tool_result'' \<and> str_field block ''tool_use_id'' \<noteq> None
       then Inr (jm_delete pending (the (str_field block ''tool_use_id'')))
     else Inr pending)"

definition line_step :: "tail_state \<Rightarrow> json \<Rightarrow> tail_error + tail_state" where
  "line_step st line = r_bind (r_foldl block_step (ts_pending st) (contentBlocks line)) (\<lambda>pending.
     Inr (st\<lparr>ts_parsed := ts_parsed st + 1, ts_pending := pending,
             ts_last := (if pending = [] \<and> str_field line ''uuid'' \<noteq> None then str_field line ''uuid'' else ts_last st)\<rparr>))"

definition break_chain :: "tail_state \<Rightarrow> bool \<Rightarrow> tail_state" where
  "break_chain st isFinal = (if isFinal then st\<lparr>ts_torn := True\<rparr> else st\<lparr>ts_malformed := True\<rparr>)"

primrec tail_loop :: "(string \<Rightarrow> json option) \<Rightarrow> string list \<Rightarrow> tail_state \<Rightarrow> tail_error + tail_state" where
  "tail_loop parse [] st = Inr st"
| "tail_loop parse (segment # rest) st =
    (let text = js_trim segment
     in if text = [] then tail_loop parse rest st
        else case parse text of
          None \<Rightarrow> Inr (break_chain st (rest = []))
        | Some parsed \<Rightarrow>
            if \<not> isRecord parsed then Inr (break_chain st (rest = []))
            else r_bind (line_step st parsed) (tail_loop parse rest))"

primrec split_lines :: "string \<Rightarrow> string list" where
  "split_lines [] = [[]]"
| "split_lines (c # s) =
    (if c = CHR 0x0A then [] # split_lines s
     else (case split_lines s of [] \<Rightarrow> [[c]] | l # ls \<Rightarrow> (c # l) # ls))"

definition initial_tail :: tail_state where
  "initial_tail = \<lparr>ts_pending = [], ts_last = None, ts_torn = False, ts_malformed = False, ts_parsed = 0\<rparr>"

definition validateTranscriptTail :: "(string \<Rightarrow> json option) \<Rightarrow> string \<Rightarrow> tail_error + tail_verdict" where
  "validateTranscriptTail parse jsonl =
    r_bind (tail_loop parse (split_lines jsonl) initial_tail) (\<lambda>st.
      let unpaired = jm_keys (ts_pending st); empty = (ts_parsed st = 0)
      in Inr \<lparr>tv_safeToResume = (\<not> empty \<and> \<not> ts_torn st \<and> \<not> ts_malformed st \<and> length unpaired = 0),
              tv_lastCoherentUuid = ts_last st, tv_unpairedToolUseIds = unpaired, tv_tornTail = ts_torn st,
              tv_malformedInterior = ts_malformed st, tv_empty = empty, tv_parsedLines = ts_parsed st\<rparr>)"

section \<open>The specification\<close>

text \<open>The non-blank lines, the records that can be trusted (up to the first line that is not one), and
  the tool calls that are open after them: a call is open when no result for it follows.\<close>

definition text_lines :: "string list \<Rightarrow> string list" where
  "text_lines segs = filter (\<lambda>t. t \<noteq> []) (map js_trim segs)"

definition record_of :: "(string \<Rightarrow> json option) \<Rightarrow> string \<Rightarrow> json option" where
  "record_of parse t = (case parse t of Some v \<Rightarrow> if isRecord v then Some v else None | None \<Rightarrow> None)"

primrec trusted :: "(string \<Rightarrow> json option) \<Rightarrow> string list \<Rightarrow> json list" where
  "trusted parse [] = []"
| "trusted parse (t # ts) = (case record_of parse t of None \<Rightarrow> [] | Some v \<Rightarrow> v # trusted parse ts)"

datatype tool_event = ToolUse string | ToolResult string

definition block_event :: "json \<Rightarrow> tool_event option" where
  "block_event b = (if str_field b ''type'' = Some ''tool_use'' then map_option ToolUse (str_field b ''id'')
     else if str_field b ''type'' = Some ''tool_result'' then map_option ToolResult (str_field b ''tool_use_id'') else None)"

definition line_events :: "json \<Rightarrow> tool_event list" where
  "line_events l = List.map_filter block_event (contentBlocks l)"

definition tool_events :: "json list \<Rightarrow> tool_event list" where
  "tool_events ls = concat (map line_events ls)"

definition open_calls :: "tool_event list \<Rightarrow> string set" where
  "open_calls es = {i. \<exists>pre post. es = pre @ ToolUse i # post \<and> ToolResult i \<notin> set post}"

definition coherent_uuids :: "json list \<Rightarrow> string list" where
  "coherent_uuids ls = List.map_filter
     (\<lambda>n. if open_calls (tool_events (take (Suc n) ls)) = {} then str_field (ls ! n) ''uuid'' else None) [0 ..< length ls]"

definition last_opt :: "'a list \<Rightarrow> 'a option" where
  "last_opt xs = (if xs = [] then None else Some (last xs))"

lemma last_opt_snoc [simp]: "last_opt (xs @ [x]) = Some x" "last_opt [] = None"
  by (simp_all add: last_opt_def)

lemma open_calls_Nil [simp]: "open_calls [] = {}"
  by (simp add: open_calls_def)

lemma open_calls_iff: "i \<in> open_calls es \<longleftrightarrow> (\<exists>pre post. es = pre @ ToolUse i # post \<and> ToolResult i \<notin> set post)"
  by (simp add: open_calls_def)

lemma open_calls_snoc:
  "open_calls (es @ [e]) = (case e of ToolUse i \<Rightarrow> insert i (open_calls es) | ToolResult i \<Rightarrow> open_calls es - {i})"
proof -
  have "i \<in> open_calls (es @ [e]) \<longleftrightarrow> e = ToolUse i \<or> (i \<in> open_calls es \<and> e \<noteq> ToolResult i)" for i
  proof
    assume "i \<in> open_calls (es @ [e])"
    then obtain pre post where s: "es @ [e] = pre @ ToolUse i # post" "ToolResult i \<notin> set post"
      unfolding open_calls_iff by blast
    then show "e = ToolUse i \<or> (i \<in> open_calls es \<and> e \<noteq> ToolResult i)"
      by (cases post rule: rev_cases) (auto simp: open_calls_iff)
  next
    assume "e = ToolUse i \<or> (i \<in> open_calls es \<and> e \<noteq> ToolResult i)"
    then show "i \<in> open_calls (es @ [e])"
    proof
      assume "e = ToolUse i"
      then show ?thesis unfolding open_calls_iff by (intro exI [of _ es] exI [of _ "[]"]) simp
    next
      assume a: "i \<in> open_calls es \<and> e \<noteq> ToolResult i"
      then obtain pre post where "es = pre @ ToolUse i # post" "ToolResult i \<notin> set post" unfolding open_calls_iff by blast
      then show ?thesis unfolding open_calls_iff using a by (intro exI [of _ pre] exI [of _ "post @ [e]"]) auto
    qed
  qed
  then show ?thesis by (cases e) auto
qed

section \<open>The loop computes the specification\<close>

definition keys :: "(string, unit) jmap \<Rightarrow> string set" where
  "keys m = fst ` set m"

lemma keys_empty_iff: "keys m = {} \<longleftrightarrow> m = []"
  by (simp add: keys_def)

lemma keys_set_delete: "keys (jm_set m k u) = insert k (keys m)" "keys (jm_delete m k) = keys m - {k}"
  by (simp_all only: keys_def set_keys_jm_set keys_jm_delete)

lemma block_step_cases:
  assumes "block_step p b = Inr p'"
  shows "p' = (case block_event b of None \<Rightarrow> p | Some (ToolUse i) \<Rightarrow> jm_set p i () | Some (ToolResult i) \<Rightarrow> jm_delete p i)"
  using assms by (auto simp: block_step_def block_event_def split: if_splits)

lemma block_step_keys:
  assumes "block_step p b = Inr p'" "keys p = open_calls es"
  shows "keys p' = open_calls (es @ (case block_event b of None \<Rightarrow> [] | Some e \<Rightarrow> [e]))"
  unfolding block_step_cases [OF assms(1)] using assms(2)
  by (simp add: keys_set_delete open_calls_snoc split: option.split tool_event.split)

lemma blocks_keys:
  assumes "r_foldl block_step p bs = Inr p'" "keys p = open_calls es"
  shows "keys p' = open_calls (es @ List.map_filter block_event bs)"
  using assms
proof (induction bs arbitrary: p es)
  case (Cons b bs)
  obtain q where q: "block_step p b = Inr q" "r_foldl block_step q bs = Inr p'"
    using Cons.prems(1) by (auto simp: r_bind_Inr)
  show ?case using Cons.IH [OF q(2) block_step_keys [OF q(1) Cons.prems(2)]]
    by (cases "block_event b") (simp_all add: map_filter_simps)
qed (simp add: map_filter_simps)

definition tracks :: "json list \<Rightarrow> tail_state \<Rightarrow> bool" where
  "tracks ls st \<longleftrightarrow> keys (ts_pending st) = open_calls (tool_events ls) \<and> ts_last st = last_opt (coherent_uuids ls)
     \<and> ts_parsed st = length ls"

lemma map_filter_agree: "(\<And>x. x \<in> set xs \<Longrightarrow> f x = g x) \<Longrightarrow> List.map_filter f xs = List.map_filter g xs"
  by (induction xs) (simp_all add: map_filter_simps split: option.split)

lemma coherent_snoc:
  "coherent_uuids (ls @ [l]) = coherent_uuids ls
     @ (if open_calls (tool_events (ls @ [l])) = {} then (case str_field l ''uuid'' of None \<Rightarrow> [] | Some u \<Rightarrow> [u]) else [])"
proof -
  have "List.map_filter (\<lambda>n. if open_calls (tool_events (take (Suc n) (ls @ [l]))) = {} then str_field ((ls @ [l]) ! n) ''uuid'' else None) [0 ..< length ls]
      = coherent_uuids ls"
    unfolding coherent_uuids_def by (rule map_filter_agree) (auto simp: nth_append)
  then show ?thesis
    by (simp add: coherent_uuids_def [of "ls @ [l]"] map_filter_def split: option.split)
qed

lemma line_tracks:
  assumes "line_step st l = Inr st'" "tracks ls st"
  shows "tracks (ls @ [l]) st'" "ts_torn st' = ts_torn st" "ts_malformed st' = ts_malformed st"
proof -
  obtain p where p: "r_foldl block_step (ts_pending st) (contentBlocks l) = Inr p"
    "st' = st\<lparr>ts_parsed := ts_parsed st + 1, ts_pending := p,
       ts_last := (if p = [] \<and> str_field l ''uuid'' \<noteq> None then str_field l ''uuid'' else ts_last st)\<rparr>"
    using assms(1) by (auto simp: line_step_def r_bind_Inr)
  have k: "keys p = open_calls (tool_events (ls @ [l]))"
    using blocks_keys [OF p(1)] assms(2) by (simp add: tracks_def tool_events_def line_events_def)
  then show "tracks (ls @ [l]) st'" using p(2) assms(2) keys_empty_iff [of p]
    by (auto simp: tracks_def coherent_snoc split: option.splits)
  show "ts_torn st' = ts_torn st" "ts_malformed st' = ts_malformed st" using p(2) by simp_all
qed

lemma last_text: "segs \<noteq> [] \<Longrightarrow> js_trim (last segs) \<noteq> [] \<Longrightarrow> filter (\<lambda>t. t \<noteq> []) (map js_trim segs) \<noteq> []"
  using last_in_set [of segs] by (force simp: filter_empty_conv)

lemma tail_loop_tracks:
  assumes "tail_loop parse segs st = Inr st'" "tracks ls st" "\<not> ts_torn st" "\<not> ts_malformed st"
  shows "tracks (ls @ trusted parse (text_lines segs)) st'
    \<and> (ts_torn st' \<or> ts_malformed st' \<longleftrightarrow> length (trusted parse (text_lines segs)) < length (text_lines segs))
    \<and> \<not> (ts_torn st' \<and> ts_malformed st')
    \<and> (ts_torn st' \<longleftrightarrow> segs \<noteq> [] \<and> js_trim (last segs) \<noteq> []
         \<and> Suc (length (trusted parse (text_lines segs))) = length (text_lines segs))"
  using assms
proof (induction segs arbitrary: ls st)
  case (Cons seg rest)
  show ?case
  proof (cases "js_trim seg = []")
    case True
    then have "tail_loop parse rest st = Inr st'" using Cons.prems(1) by (simp add: Let_def)
    from Cons.IH [OF this Cons.prems(2-4)] show ?thesis using True by (auto simp: text_lines_def)
  next
    case nb: False
    show ?thesis
    proof (cases "record_of parse (js_trim seg)")
      case None
      then have st': "st' = break_chain st (rest = [])"
        using Cons.prems(1) nb by (auto simp: Let_def record_of_def split: option.splits if_splits)
      have "Suc 0 = length (js_trim seg # text_lines rest) \<longleftrightarrow> text_lines rest = []" by simp
      then show ?thesis using Cons.prems(2-4) nb None st'
        by (cases "rest = []") (auto simp: break_chain_def text_lines_def tracks_def last_text)
    next
      case (Some v)
      then obtain st1 where st1: "line_step st v = Inr st1" "tail_loop parse rest st1 = Inr st'"
        using Cons.prems(1) nb by (auto simp: Let_def record_of_def r_bind_Inr split: option.splits if_splits)
      note L = line_tracks [OF st1(1) Cons.prems(2)]
      show ?thesis using Cons.IH [OF st1(2) L(1)] L(2,3) Cons.prems(3,4) nb Some
        by (auto simp: text_lines_def)
    qed
  qed
qed (auto simp: text_lines_def)

section \<open>Properties\<close>

text \<open>Claim C22: the verdict of the transcript-tail validator is exact. Let \<open>ts\<close> be the non-blank lines and \<open>ls\<close>
  the records before the first line that is not one. A plain resume is declared safe exactly when there is
  a line, every line is a record and every tool call is followed by a result with its id; the unpaired
  ids are exactly the calls left open; the anchor of a repair is the uuid of the last record that
  has one and after which no call was open; the tail is torn exactly when the only bad line is the final segment of
  the text, and malformed exactly when a line is bad and the tail is not torn.\<close>

theorem transcript_tail_exact:
  assumes "validateTranscriptTail parse jsonl = Inr v"
    and "ts = text_lines (split_lines jsonl)" and "ls = trusted parse ts"
  shows "(tv_safeToResume v \<longleftrightarrow> ts \<noteq> [] \<and> length ls = length ts \<and> open_calls (tool_events ls) = {})
    \<and> set (tv_unpairedToolUseIds v) = open_calls (tool_events ls)
    \<and> tv_lastCoherentUuid v = last_opt (coherent_uuids ls)
    \<and> tv_parsedLines v = length ls \<and> (tv_empty v \<longleftrightarrow> ls = [])
    \<and> (tv_tornTail v \<longleftrightarrow> js_trim (last (split_lines jsonl)) \<noteq> [] \<and> Suc (length ls) = length ts)
    \<and> (tv_malformedInterior v \<longleftrightarrow> length ls < length ts \<and> \<not> tv_tornTail v)"
proof -
  obtain st where st: "tail_loop parse (split_lines jsonl) initial_tail = Inr st"
    "v = \<lparr>tv_safeToResume = (\<not> ts_parsed st = 0 \<and> \<not> ts_torn st \<and> \<not> ts_malformed st \<and> length (jm_keys (ts_pending st)) = 0),
          tv_lastCoherentUuid = ts_last st, tv_unpairedToolUseIds = jm_keys (ts_pending st), tv_tornTail = ts_torn st,
          tv_malformedInterior = ts_malformed st, tv_empty = (ts_parsed st = 0), tv_parsedLines = ts_parsed st\<rparr>"
    using assms(1) by (auto simp: validateTranscriptTail_def r_bind_Inr Let_def)
  have init: "tracks [] initial_tail"
    by (simp add: tracks_def initial_tail_def keys_def tool_events_def coherent_uuids_def map_filter_simps)
  have ne: "split_lines s \<noteq> []" for s by (induction s) (auto split: list.splits)
  have T: "tracks ls st" "ts_torn st \<or> ts_malformed st \<longleftrightarrow> length ls < length ts" "\<not> (ts_torn st \<and> ts_malformed st)"
    "ts_torn st \<longleftrightarrow> js_trim (last (split_lines jsonl)) \<noteq> [] \<and> Suc (length ls) = length ts"
    using tail_loop_tracks [OF st(1) init] ne assms(2,3) by (auto simp: initial_tail_def)
  have le: "length ls \<le> length ts"
    unfolding assms(3) by (induction ts) (auto split: option.splits)
  have k: "set (jm_keys (ts_pending st)) = open_calls (tool_events ls)" using T(1) by (simp add: tracks_def keys_def jm_keys_def)
  have "length (jm_keys (ts_pending st)) = 0 \<longleftrightarrow> open_calls (tool_events ls) = {}"
    using k by (metis length_0_conv set_empty)
  then show ?thesis using T k le st(2) by (auto simp: tracks_def)
qed

definition sample_call :: json where
  "sample_call = JObj [(''uuid'', JStr ''u1''), (''message'', JObj [(''content'', JArr [JObj [(''type'', JStr ''tool_use''), (''id'', JStr ''t1'')]])])]"

definition sample_start :: json where
  "sample_start = JObj [(''uuid'', JStr ''u0'')]"

definition sample_parse :: "string \<Rightarrow> json option" where
  "sample_parse s = (if s = ''a'' then Some sample_start else if s = ''b'' then Some sample_call else None)"

theorem transcript_tail_exact_witness:
  "\<exists>v. validateTranscriptTail sample_parse (''a'' @ [CHR 0x0A] @ ''b'' @ [CHR 0x0A] @ ''{'') = Inr v \<and> \<not> tv_safeToResume v
     \<and> set (tv_unpairedToolUseIds v) = open_calls [ToolUse ''t1''] \<and> tv_tornTail v"
proof -
  let ?s = "''a'' @ [CHR 0x0A] @ ''b'' @ [CHR 0x0A] @ ''{''"
  have lines: "split_lines ?s = [''a'', ''b'', ''{'']" by simp
  have ts: "text_lines (split_lines ?s) = [''a'', ''b'', ''{'']"
    unfolding lines by (simp add: text_lines_def js_trim_def js_ws_def)
  have ls: "trusted sample_parse [''a'', ''b'', ''{''] = [sample_start, sample_call]"
    by (simp add: record_of_def sample_parse_def sample_call_def sample_start_def isRecord_def)
  have "case validateTranscriptTail sample_parse ?s of Inl _ \<Rightarrow> False | Inr _ \<Rightarrow> True"
    unfolding validateTranscriptTail_def lines
    by (simp add: js_trim_def js_ws_def sample_parse_def sample_start_def sample_call_def isRecord_def line_step_def contentBlocks_def
        block_step_def str_field_def initial_tail_def Let_def break_chain_def)
  then obtain v where v: "validateTranscriptTail sample_parse ?s = Inr v" by (auto split: sum.splits)
  have te: "tool_events [sample_start, sample_call] = [ToolUse ''t1'']"
    by (simp add: tool_events_def line_events_def contentBlocks_def sample_start_def sample_call_def map_filter_simps block_event_def str_field_def)
  have trim: "js_trim (last (split_lines ?s)) \<noteq> []" unfolding lines by (simp add: js_trim_def js_ws_def)
  show ?thesis using v transcript_tail_exact [OF v refl refl, unfolded ts ls te] trim by simp
qed

end
