(* ===== verification/Session_Kernel.thy ===== *)
theory Session_Kernel
  imports Approvals Profiles Transcript_Tail
begin

text \<open>
  The session kernel of \<open>core/src/kernel/sessionKernel.ts\<close>: launch, resume, fork, abort, status and shutdown over
  the resume ledger, the spawn environment, the profiles, the transcript-tail validator and the approval
  broker.

  The code is asynchronous: \<open>launch\<close> and \<open>resume\<close> run up to an \<open>await\<close> and go on when it settles. The model makes
  each stretch between two awaits one step, so the interleavings of concurrent calls are the sequences of
  steps. A \<^emph>\<open>run\<close> is one spawn on its way: \<open>Inserted\<close> (the row is written, the hook is awaited), \<open>Starting\<close>
  (\<open>runner.start\<close> was called and is awaited), \<open>Pumping\<close> (the handle is live and its messages are read). The
  runner, the process table, the file system, the id factory and the clock are arguments of the steps; each
  step reads the clock once. \<open>handle.messages()\<close> does not throw synchronously. The times in lineage
  records and log output are left out.
\<close>

section \<open>Data\<close>

record query_spec =
  qs_sessionId :: string
  qs_prompt :: string
  qs_cwd :: string
  qs_env :: env
  qs_resumeNativeSessionId :: "string option"
  qs_forkSession :: "bool option"
  qs_resumeSessionAt :: "string option"
  qs_canUseTool :: bool

datatype run_phase = Inserted | Starting | Pumping

record runner_result =
  rr_ok :: bool
  rr_detail :: string

datatype runner_message = InitMessage string | ResultMessage runner_result | OtherMessage json

record kernel_run =
  ru_spec :: query_spec
  ru_phase :: run_phase
  ru_repairOf :: "string option"
  ru_result :: "runner_result option"

datatype lineage_record =
    LineageLaunch string string string "string option"
  | LineageFork string string
  | LineageResume string string

record session_exit =
  se_sessionId :: string
  se_result :: "runner_result option"

record kernel =
  kn_ledger :: ledger
  kn_runs :: "(nat, kernel_run) jmap"
  kn_live :: "(string, nat) jmap"
  kn_shuttingDown :: bool
  kn_settles :: "string list"
  kn_spawned :: "query_spec list"
  kn_aborted :: "nat list"
  kn_lineage :: "lineage_record list"
  kn_exits :: "session_exit list"
  kn_broker :: broker
  kn_next :: nat

datatype not_resumable = SpawnWindow | OrphanNotReaped | ExitedTerminal | NoAnchor | NoNativeId | NotClaudeSession

datatype kernel_error =
    KernelShutdown
  | KProfile profile_error
  | KSpawn spawn_error
  | KStore store_error
  | KTail tail_error
  | BadPairing
  | BadSubstrate
  | BadCwd
  | PromptRequired
  | NotClaude
  | SessionNotFoundKernel
  | DoubleResume
  | NotResumable not_resumable
  | NotLive
  | TranscriptUnreadable

record launch_params =
  lp_accountLabel :: string
  lp_backend :: string
  lp_substrate :: string
  lp_cwd :: string
  lp_purpose :: string
  lp_workstreamHint :: "string option"
  lp_prompt :: "string option"

datatype file_read = FileMissing | FileError | FileText string

record kernel_config =
  kc_profiles :: profile_registry
  kc_baseEnv :: "(string, string option) jmap"
  kc_locate :: "claude_profile \<Rightarrow> string \<Rightarrow> string \<Rightarrow> string option"
  kc_parse :: "string \<Rightarrow> json option"
  kc_approvals :: bool
  kc_ttl :: "int option"

definition createSessionKernel :: "ledger \<Rightarrow> kernel" where
  "createSessionKernel led = \<lparr>kn_ledger = led, kn_runs = [], kn_live = [], kn_shuttingDown = False, kn_settles = [],
     kn_spawned = [], kn_aborted = [], kn_lineage = [], kn_exits = [], kn_broker = createApprovalBroker, kn_next = 0\<rparr>"

section \<open>Transcript location\<close>

definition projectDirSlug :: "string \<Rightarrow> string" where
  "projectDirSlug cwd = map (\<lambda>c. if c = CHR ''/'' \<or> c = CHR ''.'' then CHR ''-'' else c) cwd"

definition defaultTranscriptLocator :: "claude_profile \<Rightarrow> string \<Rightarrow> string \<Rightarrow> string option" where
  "defaultTranscriptLocator prof cwd native =
     Some (path_join [cp_configDir prof, ''projects'', projectDirSlug cwd, native @ ''.jsonl''])"

section \<open>Spawning\<close>

definition buildEnvFor :: "kernel_config \<Rightarrow> claude_profile \<Rightarrow> kernel_error + env" where
  "buildEnvFor cfg prof = (case buildSessionEnv prof (kc_baseEnv cfg) of Inl e \<Rightarrow> Inl (KSpawn e) | Inr e \<Rightarrow> Inr e)"

definition resolve_profile :: "kernel_config \<Rightarrow> string \<Rightarrow> kernel_error + claude_profile" where
  "resolve_profile cfg label = (case profile_resolve (kc_profiles cfg) label of Inl e \<Rightarrow> Inl (KProfile e) | Inr p \<Rightarrow> Inr p)"

record spawn_args =
  sa_id :: string
  sa_accountLabel :: string
  sa_cwd :: string
  sa_purpose :: string
  sa_workstreamHint :: "string option"
  sa_prompt :: string
  sa_resumeNativeSessionId :: "string option"
  sa_forkSession :: "bool option"
  sa_resumeSessionAt :: "string option"
  sa_lineageForkFrom :: "string option"

definition row_for :: "spawn_args \<Rightarrow> new_ledger_row" where
  "row_for a = \<lparr>nl_id = sa_id a, nl_accountLabel = sa_accountLabel a, nl_backend = ''claude_code'', nl_cwd = sa_cwd a,
     nl_substrate = ''sdk'', nl_purpose = sa_purpose a, nl_workstreamHint = sa_workstreamHint a\<rparr>"

definition spec_for :: "kernel_config \<Rightarrow> spawn_args \<Rightarrow> env \<Rightarrow> query_spec" where
  "spec_for cfg a e = \<lparr>qs_sessionId = sa_id a, qs_prompt = sa_prompt a, qs_cwd = sa_cwd a, qs_env = e,
     qs_resumeNativeSessionId = sa_resumeNativeSessionId a, qs_forkSession = sa_forkSession a,
     qs_resumeSessionAt = sa_resumeSessionAt a, qs_canUseTool = kc_approvals cfg\<rparr>"

definition insertRowAndSpawn ::
  "kernel_config \<Rightarrow> registry \<Rightarrow> string \<Rightarrow> kernel \<Rightarrow> spawn_args \<Rightarrow> string option \<Rightarrow> kernel_error + kernel" where
  "insertRowAndSpawn cfg reg ts k a repairOf =
    r_bind (resolve_profile cfg (sa_accountLabel a)) (\<lambda>prof.
    r_bind (buildEnvFor cfg prof) (\<lambda>e.
      case insertBeforeSpawn reg (kn_ledger k) ts (row_for a) of
        Inl er \<Rightarrow> Inl (KStore er)
      | Inr (led, _) \<Rightarrow> Inr (k\<lparr>
          kn_ledger := led,
          kn_lineage := kn_lineage k @ [LineageLaunch (sa_id a) (sa_accountLabel a) (sa_cwd a) (sa_workstreamHint a)]
            @ (case sa_lineageForkFrom a of None \<Rightarrow> [] | Some parent \<Rightarrow> [LineageFork parent (sa_id a)]),
          kn_runs := jm_set (kn_runs k) (kn_next k)
            \<lparr>ru_spec = spec_for cfg a e, ru_phase = Inserted, ru_repairOf = repairOf, ru_result = None\<rparr>,
          kn_next := kn_next k + 1\<rparr>)))"

definition try_transition :: "registry \<Rightarrow> string \<Rightarrow> ledger \<Rightarrow> string \<Rightarrow> session_state \<Rightarrow> ledger \<times> bool" where
  "try_transition reg ts led sid to = (case ledger_transition reg led ts sid to of Inl _ \<Rightarrow> (led, False) | Inr (led', _) \<Rightarrow> (led', True))"

definition drop_run :: "kernel \<Rightarrow> nat \<Rightarrow> kernel" where
  "drop_run k run = k\<lparr>kn_runs := jm_delete (kn_runs k) run\<rparr>"

text \<open>The continuation after the hook: a shutdown in the meantime settles the row and refuses; otherwise
  the runner is started.\<close>

definition after_hook :: "registry \<Rightarrow> string \<Rightarrow> kernel \<Rightarrow> nat \<Rightarrow> kernel" where
  "after_hook reg ts k run = (case jm_get (kn_runs k) run of
     Some ru \<Rightarrow>
      if ru_phase ru \<noteq> Inserted then k
      else if kn_shuttingDown k
        then (drop_run k run)\<lparr>kn_ledger := fst (try_transition reg ts (kn_ledger k) (qs_sessionId (ru_spec ru)) Exited)\<rparr>
      else k\<lparr>kn_runs := jm_set (kn_runs k) run (ru\<lparr>ru_phase := Starting\<rparr>), kn_spawned := kn_spawned k @ [ru_spec ru]\<rparr>
   | None \<Rightarrow> k)"

definition start_failed :: "registry \<Rightarrow> string \<Rightarrow> kernel \<Rightarrow> nat \<Rightarrow> kernel" where
  "start_failed reg ts k run = (case jm_get (kn_runs k) run of
     Some ru \<Rightarrow>
      if ru_phase ru \<noteq> Starting then k
      else (drop_run k run)\<lparr>kn_ledger := fst (try_transition reg ts (kn_ledger k) (qs_sessionId (ru_spec ru)) Exited)\<rparr>
   | None \<Rightarrow> k)"

text \<open>The writes after a successful start; \<open>False\<close> when one of them throws.\<close>

definition start_writes :: "registry \<Rightarrow> string \<Rightarrow> ledger \<Rightarrow> string \<Rightarrow> jsnum option \<Rightarrow> string option \<Rightarrow> ledger \<times> bool" where
  "start_writes reg ts led sid pid nonce = (case ledger_get reg led sid of
     Inl _ \<Rightarrow> (led, False)
   | Inr r \<Rightarrow>
      let w = (if map_option rl_state r = Some Spawning then try_transition reg ts led sid Running else (led, True))
      in if \<not> snd w then w
         else case (pid, nonce) of
           (Some p, Some n) \<Rightarrow> (case backfillPid reg (fst w) ts sid p n of Inl _ \<Rightarrow> (fst w, False) | Inr (led', _) \<Rightarrow> (led', True))
         | _ \<Rightarrow> w)"

definition start_done :: "registry \<Rightarrow> string \<Rightarrow> kernel \<Rightarrow> nat \<Rightarrow> jsnum option \<Rightarrow> string option \<Rightarrow> kernel" where
  "start_done reg ts k run pid nonce = (case jm_get (kn_runs k) run of
     Some ru \<Rightarrow>
      if ru_phase ru \<noteq> Starting then k
      else let sid = qs_sessionId (ru_spec ru); w = start_writes reg ts (kn_ledger k) sid pid nonce
           in if \<not> snd w then (drop_run k run)\<lparr>kn_ledger := fst w\<rparr>
              else k\<lparr>kn_ledger := fst w, kn_live := jm_set (kn_live k) sid run,
                     kn_runs := jm_set (kn_runs k) run (ru\<lparr>ru_phase := Pumping\<rparr>),
                     kn_settles := kn_settles k @ (case ru_repairOf ru of None \<Rightarrow> [] | Some parent \<Rightarrow> [parent])\<rparr>
   | None \<Rightarrow> k)"

section \<open>The pump\<close>

definition session_ended :: "kernel_config \<Rightarrow> kernel \<Rightarrow> string \<Rightarrow> kernel" where
  "session_ended cfg k sid =
    (if kc_approvals cfg then k\<lparr>kn_broker := fst (broker_supersedeSession (kn_broker k) sid)\<rparr> else k)"

definition settle_exit :: "registry \<Rightarrow> string \<Rightarrow> ledger \<Rightarrow> string \<Rightarrow> ledger" where
  "settle_exit reg ts led sid = (case ledger_get reg led sid of
     Inr (Some r) \<Rightarrow> if rl_state r = Spawning \<or> rl_state r = Running \<or> rl_state r = Resumed
                     then fst (try_transition reg ts led sid Exited) else led
   | _ \<Rightarrow> led)"

text \<open>The stream ended or the pump failed.\<close>

definition pump_end :: "kernel_config \<Rightarrow> registry \<Rightarrow> string \<Rightarrow> kernel \<Rightarrow> nat \<Rightarrow> kernel" where
  "pump_end cfg reg ts k run = (case jm_get (kn_runs k) run of
     Some ru \<Rightarrow>
      if ru_phase ru \<noteq> Pumping then k
      else let sid = qs_sessionId (ru_spec ru); k1 = session_ended cfg ((drop_run k run)\<lparr>kn_live := jm_delete (kn_live k) sid\<rparr>) sid
           in k1\<lparr>kn_ledger := settle_exit reg ts (kn_ledger k) sid,
                 kn_exits := kn_exits k @ [\<lparr>se_sessionId = sid, se_result = ru_result ru\<rparr>]\<rparr>
   | None \<Rightarrow> k)"

definition pump_message :: "kernel_config \<Rightarrow> registry \<Rightarrow> string \<Rightarrow> kernel \<Rightarrow> nat \<Rightarrow> runner_message \<Rightarrow> kernel" where
  "pump_message cfg reg ts k run msg = (case jm_get (kn_runs k) run of
     Some ru \<Rightarrow>
      if ru_phase ru \<noteq> Pumping then k
      else (case msg of
         InitMessage native \<Rightarrow> (let sid = qs_sessionId (ru_spec ru) in case ledger_get reg (kn_ledger k) sid of
             Inl _ \<Rightarrow> pump_end cfg reg ts k run
           | Inr current \<Rightarrow>
              if Option.bind current rl_nativeSessionId = None
              then (case backfillNativeSessionId reg (kn_ledger k) ts sid native of
                      Inl _ \<Rightarrow> pump_end cfg reg ts k run
                    | Inr (led, _) \<Rightarrow> k\<lparr>kn_ledger := led\<rparr>)
              else k)
       | ResultMessage r \<Rightarrow> k\<lparr>kn_runs := jm_set (kn_runs k) run (ru\<lparr>ru_result := Some r\<rparr>)\<rparr>
       | OtherMessage _ \<Rightarrow> k)
   | None \<Rightarrow> k)"

section \<open>The verbs\<close>

definition launch :: "kernel_config \<Rightarrow> registry \<Rightarrow> string \<Rightarrow> kernel \<Rightarrow> string \<Rightarrow> launch_params \<Rightarrow> kernel_error + kernel" where
  "launch cfg reg ts k newid p =
    (if kn_shuttingDown k then Inl KernelShutdown
     else r_bind (resolve_profile cfg (lp_accountLabel p)) (\<lambda>_.
       if Some (lp_backend p) \<noteq> backendForLabel reg (lp_accountLabel p) then Inl BadPairing
       else if lp_substrate p \<noteq> ''sdk'' then Inl BadSubstrate
       else if \<not> path_absolute (lp_cwd p) then Inl BadCwd
       else case lp_prompt p of
         None \<Rightarrow> Inl PromptRequired
       | Some prompt \<Rightarrow>
          if prompt = [] then Inl PromptRequired
          else if \<not> isClaudeProfileLabel (lp_accountLabel p) then Inl NotClaude
          else insertRowAndSpawn cfg reg ts k
            \<lparr>sa_id = newid, sa_accountLabel = lp_accountLabel p, sa_cwd = lp_cwd p, sa_purpose = lp_purpose p,
             sa_workstreamHint = lp_workstreamHint p, sa_prompt = prompt, sa_resumeNativeSessionId = None,
             sa_forkSession = None, sa_resumeSessionAt = None, sa_lineageForkFrom = None\<rparr> None))"

definition validateForDeadResume ::
  "kernel_config \<Rightarrow> (string \<Rightarrow> file_read) \<Rightarrow> ledger_row \<Rightarrow> kernel_error + tail_verdict option" where
  "validateForDeadResume cfg readf r = (case rl_nativeSessionId r of
     None \<Rightarrow> Inr None
   | Some native \<Rightarrow> r_bind (resolve_profile cfg (rl_accountLabel r)) (\<lambda>prof.
       case kc_locate cfg prof (rl_cwd r) native of
         None \<Rightarrow> Inr None
       | Some path \<Rightarrow> (case readf path of
           FileMissing \<Rightarrow> Inr None
         | FileError \<Rightarrow> Inl TranscriptUnreadable
         | FileText t \<Rightarrow> (case validateTranscriptTail (kc_parse cfg) t of Inl e \<Rightarrow> Inl (KTail e) | Inr v \<Rightarrow> Inr (Some v)))))"

definition forkFrom ::
  "kernel_config \<Rightarrow> registry \<Rightarrow> string \<Rightarrow> kernel \<Rightarrow> string \<Rightarrow> ledger_row \<Rightarrow> string \<Rightarrow> string option \<Rightarrow> bool \<Rightarrow> kernel_error + kernel" where
  "forkFrom cfg reg ts k newid parent prompt resumeSessionAt repaired = (case rl_nativeSessionId parent of
     None \<Rightarrow> Inl (NotResumable NoNativeId)
   | Some native \<Rightarrow>
      if \<not> isClaudeProfileLabel (rl_accountLabel parent) then Inl (NotResumable NotClaudeSession)
      else insertRowAndSpawn cfg reg ts k
        \<lparr>sa_id = newid, sa_accountLabel = rl_accountLabel parent, sa_cwd = rl_cwd parent, sa_purpose = rl_purpose parent,
         sa_workstreamHint = rl_workstreamHint parent, sa_prompt = prompt, sa_resumeNativeSessionId = Some native,
         sa_forkSession = Some True, sa_resumeSessionAt = resumeSessionAt, sa_lineageForkFrom = Some (rl_id parent)\<rparr>
        (if repaired then Some (rl_id parent) else None))"

text \<open>The un-forked dead resume: the row moves to \<open>resumed\<close>, then the runner is started on it. When the
  profile or the environment throws, the transition stands.\<close>

definition redrive ::
  "kernel_config \<Rightarrow> registry \<Rightarrow> string \<Rightarrow> kernel \<Rightarrow> ledger_row \<Rightarrow> string \<Rightarrow> string \<Rightarrow> kernel_error option \<times> kernel" where
  "redrive cfg reg ts k r native prompt = (case ledger_transition reg (kn_ledger k) ts (rl_id r) Resumed of
     Inl e \<Rightarrow> (Some (KStore e), k)
   | Inr (led, _) \<Rightarrow>
      let k1 = k\<lparr>kn_ledger := led, kn_lineage := kn_lineage k @ [LineageResume (rl_id r) (rl_id r)]\<rparr>
      in case r_bind (resolve_profile cfg (rl_accountLabel r)) (buildEnvFor cfg) of
           Inl e \<Rightarrow> (Some e, k1)
         | Inr e \<Rightarrow>
            let spec = \<lparr>qs_sessionId = rl_id r, qs_prompt = prompt, qs_cwd = rl_cwd r, qs_env = e,
                        qs_resumeNativeSessionId = Some native, qs_forkSession = None, qs_resumeSessionAt = None,
                        qs_canUseTool = kc_approvals cfg\<rparr>
            in (None, k1\<lparr>kn_runs := jm_set (kn_runs k1) (kn_next k1)
                   \<lparr>ru_spec = spec, ru_phase = Starting, ru_repairOf = None, ru_result = None\<rparr>,
                 kn_spawned := kn_spawned k1 @ [spec], kn_next := kn_next k1 + 1\<rparr>))"

definition as_call :: "kernel \<Rightarrow> kernel_error + kernel \<Rightarrow> kernel_error option \<times> kernel" where
  "as_call k r = (case r of Inl e \<Rightarrow> (Some e, k) | Inr k' \<Rightarrow> (None, k'))"

definition resume_dead ::
  "kernel_config \<Rightarrow> registry \<Rightarrow> string \<Rightarrow> kernel \<Rightarrow> string \<Rightarrow> ledger_row \<Rightarrow> string \<Rightarrow> bool
    \<Rightarrow> (nat \<Rightarrow> string option \<Rightarrow> bool) \<Rightarrow> (string \<Rightarrow> file_read) \<Rightarrow> kernel_error option \<times> kernel" where
  "resume_dead cfg reg ts k newid r prompt fork probe readf =
    (if rl_state r = Running \<and> \<not> fork \<and> (case rl_pid r of None \<Rightarrow> False | Some pid \<Rightarrow> probe pid (rl_spawnNonce r))
     then (Some DoubleResume, k)
     else case validateForDeadResume cfg readf r of
       Inl e \<Rightarrow> (Some e, k)
     | Inr verdict \<Rightarrow>
        if (case verdict of None \<Rightarrow> False | Some v \<Rightarrow> \<not> tv_safeToResume v) then
          (case Option.bind verdict tv_lastCoherentUuid of
             None \<Rightarrow> (Some (NotResumable NoAnchor), k)
           | Some anchor \<Rightarrow> as_call k (forkFrom cfg reg ts k newid r prompt (Some anchor) True))
        else if fork then as_call k (forkFrom cfg reg ts k newid r prompt None False)
        else case rl_nativeSessionId r of
          None \<Rightarrow> (Some (NotResumable NoNativeId), k)
        | Some native \<Rightarrow>
           if \<not> isClaudeProfileLabel (rl_accountLabel r) then (Some (NotResumable NotClaudeSession), k)
           else redrive cfg reg ts k r native prompt)"

definition resume ::
  "kernel_config \<Rightarrow> registry \<Rightarrow> string \<Rightarrow> kernel \<Rightarrow> string \<Rightarrow> string \<Rightarrow> string option \<Rightarrow> bool
    \<Rightarrow> (nat \<Rightarrow> string option \<Rightarrow> bool) \<Rightarrow> (string \<Rightarrow> file_read) \<Rightarrow> kernel_error option \<times> kernel" where
  "resume cfg reg ts k newid sid prompt_opt fork probe readf =
    (if kn_shuttingDown k then (Some KernelShutdown, k)
     else case ledger_get reg (kn_ledger k) sid of
       Inl e \<Rightarrow> (Some (KStore e), k)
     | Inr None \<Rightarrow> (Some SessionNotFoundKernel, k)
     | Inr (Some r) \<Rightarrow>
        (case prompt_opt of
           None \<Rightarrow> (Some PromptRequired, k)
         | Some prompt \<Rightarrow>
            if prompt = [] then (Some PromptRequired, k)
            else if jm_has (kn_live k) sid then
              (if \<not> fork then (Some DoubleResume, k) else as_call k (forkFrom cfg reg ts k newid r prompt None False))
            else (case rl_state r of
               Spawning \<Rightarrow> (Some (NotResumable SpawnWindow), k)
             | OrphanDetected \<Rightarrow> (Some (NotResumable OrphanNotReaped), k)
             | Exited \<Rightarrow>
                if \<not> fork then (Some (NotResumable ExitedTerminal), k)
                else as_call k (forkFrom cfg reg ts k newid r prompt None False)
             | _ \<Rightarrow> resume_dead cfg reg ts k newid r prompt fork probe readf)))"

definition kernel_abort :: "registry \<Rightarrow> kernel \<Rightarrow> string \<Rightarrow> kernel_error option \<times> kernel" where
  "kernel_abort reg k sid = (case jm_get (kn_live k) sid of
     None \<Rightarrow> (case ledger_get reg (kn_ledger k) sid of
        Inl e \<Rightarrow> (Some (KStore e), k) | Inr None \<Rightarrow> (Some SessionNotFoundKernel, k) | Inr (Some _) \<Rightarrow> (Some NotLive, k))
   | Some run \<Rightarrow> (None, k\<lparr>kn_aborted := kn_aborted k @ [run]\<rparr>))"

definition kernel_shutdown :: "kernel \<Rightarrow> kernel" where
  "kernel_shutdown k = k\<lparr>kn_shuttingDown := True, kn_aborted := kn_aborted k @ jm_values (kn_live k)\<rparr>"

text \<open>The end of a repairing resume: the child is up, the parent is settled.\<close>

definition settle_repaired :: "registry \<Rightarrow> string \<Rightarrow> kernel \<Rightarrow> kernel" where
  "settle_repaired reg ts k = (case kn_settles k of
     [] \<Rightarrow> k
   | parent # rest \<Rightarrow> k\<lparr>kn_settles := rest, kn_ledger := fst (try_transition reg ts (kn_ledger k) parent Exited)\<rparr>)"

record session_status =
  ss_sessionId :: string
  ss_accountLabel :: string
  ss_backend :: string
  ss_substrate :: string
  ss_state :: session_state
  ss_cwd :: string
  ss_purpose :: string
  ss_workstreamHint :: "string option"
  ss_nativeSessionId :: "string option"
  ss_pid :: "nat option"

definition status_of :: "ledger_row \<Rightarrow> session_status" where
  "status_of r = \<lparr>ss_sessionId = rl_id r, ss_accountLabel = rl_accountLabel r, ss_backend = rl_backend r, ss_substrate = rl_substrate r,
     ss_state = rl_state r, ss_cwd = rl_cwd r, ss_purpose = rl_purpose r, ss_workstreamHint = rl_workstreamHint r,
     ss_nativeSessionId = rl_nativeSessionId r, ss_pid = rl_pid r\<rparr>"

definition kernel_status :: "registry \<Rightarrow> kernel \<Rightarrow> string option \<Rightarrow> kernel_error + session_status list" where
  "kernel_status reg k sid_opt = (case sid_opt of
     None \<Rightarrow> (case ledger_list reg (kn_ledger k) None of Inl e \<Rightarrow> Inl (KStore e) | Inr rs \<Rightarrow> Inr (map status_of rs))
   | Some sid \<Rightarrow> (case ledger_get reg (kn_ledger k) sid of
       Inl e \<Rightarrow> Inl (KStore e) | Inr None \<Rightarrow> Inl SessionNotFoundKernel | Inr (Some r) \<Rightarrow> Inr [status_of r]))"

section \<open>Histories\<close>

datatype kernel_op =
    KLaunch string launch_params
  | KResume string string "string option" bool "nat \<Rightarrow> string option \<Rightarrow> bool" "string \<Rightarrow> file_read"
  | KHook nat
  | KStartFailed nat
  | KStarted nat "jsnum option" "string option"
  | KMessage nat runner_message
  | KEnd nat
  | KSettle
  | KAbort string
  | KShutdown
  | KApproval broker_op

definition kernel_step :: "kernel_config \<Rightarrow> kernel \<Rightarrow> registry \<times> string \<times> kernel_op \<Rightarrow> kernel" where
  "kernel_step cfg k c = (case c of (reg, ts, op) \<Rightarrow> (case op of
     KLaunch newid p \<Rightarrow> snd (as_call k (launch cfg reg ts k newid p))
   | KResume newid sid prompt fork probe readf \<Rightarrow> snd (resume cfg reg ts k newid sid prompt fork probe readf)
   | KHook run \<Rightarrow> after_hook reg ts k run
   | KStartFailed run \<Rightarrow> start_failed reg ts k run
   | KStarted run pid nonce \<Rightarrow> start_done reg ts k run pid nonce
   | KMessage run msg \<Rightarrow> pump_message cfg reg ts k run msg
   | KEnd run \<Rightarrow> pump_end cfg reg ts k run
   | KSettle \<Rightarrow> settle_repaired reg ts k
   | KAbort sid \<Rightarrow> snd (kernel_abort reg k sid)
   | KShutdown \<Rightarrow> kernel_shutdown k
   | KApproval bop \<Rightarrow> k\<lparr>kn_broker := broker_step reg (kc_ttl cfg) (kn_broker k) bop\<rparr>))"

definition kernel_run_ops :: "kernel_config \<Rightarrow> ledger \<Rightarrow> (registry \<times> string \<times> kernel_op) list \<Rightarrow> kernel" where
  "kernel_run_ops cfg led ops = foldl (kernel_step cfg) (createSessionKernel led) ops"

end
