(* ===== verification/Session_Runs.thy ===== *)
theory Session_Runs
  imports Session_Kernel
begin

text \<open>
  Correctness of the session kernel over all interleavings: the ledger history a kernel history makes, the
  correspondence between the state of a row and the run behind it, the bar on two runners for one
  session, row-before-spawn and shutdown.
\<close>

section \<open>The ledger under the kernel\<close>

text \<open>Every step of the kernel acts on the ledger by calls of the accessor.\<close>

definition ledger_moves :: "ledger \<Rightarrow> ledger \<Rightarrow> bool" where
  "ledger_moves led led' \<longleftrightarrow> (\<exists>cs. led' = foldl ledger_step led cs)"

lemma ledger_moves_refl [simp]: "ledger_moves led led"
  unfolding ledger_moves_def by (rule exI [of _ "[]"]) simp

lemma ledger_moves_one: "ledger_moves led (ledger_step led c)"
  unfolding ledger_moves_def by (rule exI [of _ "[c]"]) simp

lemma ledger_moves_trans: "ledger_moves a b \<Longrightarrow> ledger_moves b c \<Longrightarrow> ledger_moves a c"
  unfolding ledger_moves_def by (metis foldl_append)

lemma ledger_moves_table: "ledger_moves led led' \<Longrightarrow> ledger_table led \<Longrightarrow> ledger_table led'"
  unfolding ledger_moves_def using lg.inv_run by blast

lemma ledger_moves_le: "ledger_moves led led' \<Longrightarrow> ledger_table led \<Longrightarrow> ledger_le led led'"
  unfolding ledger_moves_def using lg.le_run by blast

lemma try_transition_step: "fst (try_transition reg ts led sid to) = ledger_step led (reg, ts, LTransition sid to)"
  by (simp add: try_transition_def ledger_step_def ledger_call_def split: sum.splits)

lemma try_transition_moves [simp]: "ledger_moves led (fst (try_transition reg ts led sid to))"
  by (simp add: try_transition_step ledger_moves_one)

lemma insert_moves: "insertBeforeSpawn reg led ts inp = Inr (led', r) \<Longrightarrow> ledger_moves led led'"
  using ledger_moves_one [of led "(reg, ts, LInsert inp)"] by (simp add: ledger_step_def ledger_call_def)

lemma pid_moves: "backfillPid reg led ts sid p n = Inr (led', r) \<Longrightarrow> ledger_moves led led'"
  using ledger_moves_one [of led "(reg, ts, LBackfillPid sid p n)"] by (simp add: ledger_step_def ledger_call_def)

lemma native_moves: "backfillNativeSessionId reg led ts sid n = Inr (led', r) \<Longrightarrow> ledger_moves led led'"
  using ledger_moves_one [of led "(reg, ts, LBackfillNative sid n)"] by (simp add: ledger_step_def ledger_call_def)

lemma transition_moves: "ledger_transition reg led ts sid to = Inr (led', r) \<Longrightarrow> ledger_moves led led'"
  using ledger_moves_one [of led "(reg, ts, LTransition sid to)"] by (simp add: ledger_step_def ledger_call_def)

lemma start_writes_moves: "ledger_moves led (fst (start_writes reg ts led sid pid nonce))"
  unfolding start_writes_def Let_def
  by (auto intro: pid_moves ledger_moves_trans [OF try_transition_moves pid_moves] split: sum.splits option.splits)

lemma settle_exit_moves: "ledger_moves led (settle_exit reg ts led sid)"
  by (auto simp: settle_exit_def split: sum.splits option.splits)

text \<open>A call on one session leaves the other rows alone.\<close>

lemma transition_other: "ledger_transition reg led ts sid to = Inr (led', r) \<Longrightarrow> sid' \<noteq> sid \<Longrightarrow> jm_get led' sid' = jm_get led sid'"
  by (auto elim!: transition_Inr simp: jm_get_set)

lemma try_transition_other: "sid' \<noteq> sid \<Longrightarrow> jm_get (fst (try_transition reg ts led sid to)) sid' = jm_get led sid'"
  by (auto simp: try_transition_def transition_other split: sum.splits)

lemma pid_other: "backfillPid reg led ts sid p n = Inr (led', r) \<Longrightarrow> sid' \<noteq> sid \<Longrightarrow> jm_get led' sid' = jm_get led sid'"
  by (auto elim!: pid_Inr simp: jm_get_set)

lemma native_other: "backfillNativeSessionId reg led ts sid n = Inr (led', r) \<Longrightarrow> sid' \<noteq> sid \<Longrightarrow> jm_get led' sid' = jm_get led sid'"
  by (erule native_Inr) (auto simp: jm_get_set)

lemma start_writes_other: "sid' \<noteq> sid \<Longrightarrow> jm_get (fst (start_writes reg ts led sid pid nonce)) sid' = jm_get led sid'"
  unfolding start_writes_def Let_def
  by (auto simp: try_transition_other pid_other split: sum.splits option.splits)

lemma settle_exit_other: "sid' \<noteq> sid \<Longrightarrow> jm_get (settle_exit reg ts led sid) sid' = jm_get led sid'"
  by (auto simp: settle_exit_def try_transition_other split: sum.splits option.splits)

section \<open>Rows of this kernel\<close>

definition claude_row :: "ledger_row \<Rightarrow> bool" where
  "claude_row r \<longleftrightarrow> isClaudeAccountLabel (rl_accountLabel r) \<and> rl_backend r = ''claude_code'' \<and> rl_substrate r = ''sdk''"

lemma claude_row_decodes: "claude_row r \<Longrightarrow> isBackend reg ''claude_code'' \<Longrightarrow> rowFromSql reg r = Inr r"
  by (simp add: rowFromSql_def claude_row_def isAccountLabel_def SUBSTRATES_def)

lemma claude_transition:
  assumes "jm_get led sid = Some r" "claude_row r" "isBackend reg ''claude_code''" "isLegalTransition (rl_state r) to"
  shows "ledger_transition reg led ts sid to = Inr (jm_set led sid (r\<lparr>rl_state := to, rl_updatedAtIso := ts\<rparr>), r\<lparr>rl_state := to, rl_updatedAtIso := ts\<rparr>)"
proof -
  have "claude_row (r\<lparr>rl_state := to, rl_updatedAtIso := ts\<rparr>)" using assms(2) by (simp add: claude_row_def)
  then show ?thesis using assms claude_row_decodes [OF assms(2,3)] claude_row_decodes [of "r\<lparr>rl_state := to, rl_updatedAtIso := ts\<rparr>" reg]
    by (simp add: ledger_transition_def getRow_def jm_get_set Let_def)
qed

lemma claude_try_transition:
  assumes "jm_get led sid = Some r" "claude_row r" "isBackend reg ''claude_code''" "isLegalTransition (rl_state r) to"
  shows "try_transition reg ts led sid to = (jm_set led sid (r\<lparr>rl_state := to, rl_updatedAtIso := ts\<rparr>), True)"
  by (simp add: try_transition_def claude_transition [OF assms])

lemma claude_get: "jm_get led sid = Some r \<Longrightarrow> claude_row r \<Longrightarrow> isBackend reg ''claude_code'' \<Longrightarrow> ledger_get reg led sid = Inr (Some r)"
  by (simp add: ledger_get_def claude_row_decodes)

text \<open>A handle as the runner documents it: a positive pid with a non-blank nonce, or one of them missing.\<close>

definition good_handle :: "jsnum option \<Rightarrow> string option \<Rightarrow> bool" where
  "good_handle pid nonce = (case (pid, nonce) of (Some p, Some n) \<Rightarrow> positive_safe p \<noteq> None \<and> \<not> is_blank n | _ \<Rightarrow> True)"

lemma claude_start_writes:
  assumes g: "jm_get led sid = Some r" and c: "claude_row r" "isBackend reg ''claude_code''" and s: "rl_state r = Spawning"
    and h: "good_handle pid nonce"
  obtains r' where "snd (start_writes reg ts led sid pid nonce)" "jm_get (fst (start_writes reg ts led sid pid nonce)) sid = Some r'"
    "rl_state r' = Running" "claude_row r'"
proof -
  let ?r1 = "r\<lparr>rl_state := Running, rl_updatedAtIso := ts\<rparr>"
  let ?led1 = "jm_set led sid ?r1"
  have legal: "isLegalTransition (rl_state r) Running" by (simp add: s isLegalTransition_def LEGAL_TRANSITIONS_def)
  have t: "try_transition reg ts led sid Running = (?led1, True)" by (rule claude_try_transition [OF g c legal])
  have c1: "claude_row ?r1" using c(1) by (simp add: claude_row_def)
  have sw: "start_writes reg ts led sid pid nonce = (case (pid, nonce) of
      (Some p, Some n) \<Rightarrow> (case backfillPid reg ?led1 ts sid p n of Inl _ \<Rightarrow> (?led1, False) | Inr (led', _) \<Rightarrow> (led', True))
    | _ \<Rightarrow> (?led1, True))"
    by (simp add: start_writes_def claude_get [OF g c] s t Let_def split: option.split sum.split)
  show ?thesis
  proof (cases "pid = None \<or> nonce = None")
    case True
    then have "start_writes reg ts led sid pid nonce = (?led1, True)" unfolding sw by (auto split: option.splits)
    then show ?thesis using that c1 by (simp add: jm_get_set)
  next
    case False
    then obtain p n q where pn: "pid = Some p" "nonce = Some n" "positive_safe p = Some q" "\<not> is_blank n"
      using h by (auto simp: good_handle_def)
    let ?r2 = "?r1\<lparr>rl_pid := Some q, rl_spawnNonce := Some n, rl_updatedAtIso := ts\<rparr>"
    have c2: "claude_row ?r2" using c(1) by (simp add: claude_row_def)
    have "backfillPid reg ?led1 ts sid p n = Inr (jm_set ?led1 sid ?r2, ?r2)"
      using pn(3,4) claude_row_decodes [OF c1 c(2)] claude_row_decodes [OF c2 c(2)]
      by (simp add: backfillPid_def getRow_def jm_get_set Let_def)
    then have "start_writes reg ts led sid pid nonce = (jm_set ?led1 sid ?r2, True)" using sw pn(1,2) by simp
    then show ?thesis using that [of ?r2] c2 by (simp add: jm_get_set)
  qed
qed

section \<open>One run per session\<close>

definition run_sid :: "kernel_run \<Rightarrow> string" where
  "run_sid ru = qs_sessionId (ru_spec ru)"

definition watched :: "string set \<Rightarrow> kernel \<Rightarrow> bool" where
  "watched S k \<longleftrightarrow> (\<forall>run ru. jm_get (kn_runs k) run = Some ru \<longrightarrow> run < kn_next k \<and> jm_has (kn_ledger k) (run_sid ru))
     \<and> (\<forall>a ra b rb. jm_get (kn_runs k) a = Some ra \<longrightarrow> jm_get (kn_runs k) b = Some rb \<longrightarrow> run_sid ra = run_sid rb
          \<longrightarrow> run_sid ra \<in> S \<longrightarrow> a = b)
     \<and> (\<forall>sid \<in> S. \<forall>run. jm_get (kn_live k) sid = Some run
          \<longleftrightarrow> (\<exists>ru. jm_get (kn_runs k) run = Some ru \<and> run_sid ru = sid \<and> ru_phase ru = Pumping))"

lemma watchedD:
  assumes "watched S k"
  shows "\<And>run ru. jm_get (kn_runs k) run = Some ru \<Longrightarrow> run < kn_next k"
    "\<And>run ru. jm_get (kn_runs k) run = Some ru \<Longrightarrow> jm_has (kn_ledger k) (run_sid ru)"
    "\<And>a ra b rb. jm_get (kn_runs k) a = Some ra \<Longrightarrow> jm_get (kn_runs k) b = Some rb \<Longrightarrow> run_sid ra = run_sid rb
       \<Longrightarrow> run_sid ra \<in> S \<Longrightarrow> a = b"
    "\<And>sid run. sid \<in> S \<Longrightarrow> jm_get (kn_live k) sid = Some run
       \<longleftrightarrow> (\<exists>ru. jm_get (kn_runs k) run = Some ru \<and> run_sid ru = sid \<and> ru_phase ru = Pumping)"
  using assms unfolding watched_def by simp_all

lemma watchedI:
  assumes "\<And>run ru. jm_get (kn_runs k) run = Some ru \<Longrightarrow> run < kn_next k"
    "\<And>run ru. jm_get (kn_runs k) run = Some ru \<Longrightarrow> jm_has (kn_ledger k) (run_sid ru)"
    "\<And>a ra b rb. jm_get (kn_runs k) a = Some ra \<Longrightarrow> jm_get (kn_runs k) b = Some rb \<Longrightarrow> run_sid ra = run_sid rb
       \<Longrightarrow> run_sid ra \<in> S \<Longrightarrow> a = b"
    "\<And>sid run. sid \<in> S \<Longrightarrow> jm_get (kn_live k) sid = Some run
       \<longleftrightarrow> (\<exists>ru. jm_get (kn_runs k) run = Some ru \<and> run_sid ru = sid \<and> ru_phase ru = Pumping)"
  shows "watched S k"
  unfolding watched_def using assms by blast

text \<open>The kinds of change a step makes.\<close>

definition bigger :: "kernel \<Rightarrow> kernel \<Rightarrow> bool" where
  "bigger k k' \<longleftrightarrow> kn_next k \<le> kn_next k' \<and> (\<forall>sid. jm_has (kn_ledger k) sid \<longrightarrow> jm_has (kn_ledger k') sid)"

lemma moves_has: "ledger_moves led led' \<Longrightarrow> ledger_table led \<Longrightarrow> jm_has led sid \<Longrightarrow> jm_has led' sid"
  using ledger_moves_le [of led led'] by (fastforce simp: ledger_le_def jm_has_iff_get)

lemma watched_idle:
  assumes "watched S k" "bigger k k'" "kn_runs k' = kn_runs k" "kn_live k' = kn_live k"
  shows "watched S k'"
proof (rule watchedI, goal_cases)
  case (1 run ru)
  then show ?case using watchedD(1) [OF assms(1), of run ru] assms(2,3) by (simp add: bigger_def)
next
  case (2 run ru)
  then show ?case using watchedD(2) [OF assms(1), of run ru] assms(2,3) by (simp add: bigger_def)
next
  case (3 a ra b rb)
  then show ?case using watchedD(3) [OF assms(1), of a ra b rb] assms(3) by simp
next
  case (4 sid run)
  then show ?case using watchedD(4) [OF assms(1), of sid run] assms(3,4) by simp
qed

text \<open>A new run, for a session that has none.\<close>

lemma watched_add:
  assumes w: "watched S k" and b: "bigger k k'" and n: "kn_next k' = Suc (kn_next k)"
    and r: "kn_runs k' = jm_set (kn_runs k) (kn_next k) ru" and l: "kn_live k' = kn_live k"
    and p: "ru_phase ru \<noteq> Pumping" and h: "jm_has (kn_ledger k') (run_sid ru)"
    and u: "\<And>run ru'. jm_get (kn_runs k) run = Some ru' \<Longrightarrow> run_sid ru' = run_sid ru \<Longrightarrow> run_sid ru \<in> S \<Longrightarrow> False"
  shows "watched S k'"
proof (rule watchedI, goal_cases)
  case (1 run ru')
  then show ?case using watchedD(1) [OF w, of run ru'] n by (auto simp: r jm_get_set split: if_splits)
next
  case (2 run ru')
  then show ?case using watchedD(2) [OF w, of run ru'] b h by (auto simp: r jm_get_set bigger_def split: if_splits)
next
  case (3 a ra c rc)
  then show ?case using watchedD(3) [OF w, of a ra c rc] u [of a ra] u [of c rc] by (auto simp: r jm_get_set split: if_splits)
next
  case (4 sid run)
  have "jm_get (kn_runs k) (kn_next k) = None"
    using watchedD(1) [OF w, of "kn_next k"] by (cases "jm_get (kn_runs k) (kn_next k)") auto
  then show ?case using watchedD(4) [OF w 4, of run] p by (auto simp: r l jm_get_set)
qed

text \<open>A run that moves on without becoming live, or only records its result.\<close>

lemma watched_relabel:
  assumes w: "watched S k" and b: "bigger k k'" and g: "jm_get (kn_runs k) run = Some ru"
    and r: "kn_runs k' = jm_set (kn_runs k) run ru'" and l: "kn_live k' = kn_live k"
    and s: "run_sid ru' = run_sid ru" and p: "(ru_phase ru' = Pumping) = (ru_phase ru = Pumping)"
  shows "watched S k'"
proof (rule watchedI, goal_cases)
  case (1 x rx)
  then show ?case using watchedD(1) [OF w, of x] g b by (fastforce simp: r jm_get_set bigger_def split: if_splits)
next
  case (2 x rx)
  then show ?case using watchedD(2) [OF w, of x] g b s by (fastforce simp: r jm_get_set bigger_def split: if_splits)
next
  case (3 a ra c rc)
  have "\<exists>ra'. jm_get (kn_runs k) a = Some ra' \<and> run_sid ra' = run_sid ra" "\<exists>rc'. jm_get (kn_runs k) c = Some rc' \<and> run_sid rc' = run_sid rc"
    using 3(1,2) g s by (auto simp: r jm_get_set split: if_splits)
  then show ?case using watchedD(3) [OF w] 3(3,4) by metis
next
  case (4 sid x)
  then show ?case using watchedD(4) [OF w 4, of x] g s p by (auto simp: r l jm_get_set)
qed

text \<open>A starting run becomes live.\<close>

lemma watched_live:
  assumes w: "watched S k" and b: "bigger k k'" and g: "jm_get (kn_runs k) run = Some ru" and np: "ru_phase ru \<noteq> Pumping"
    and r: "kn_runs k' = jm_set (kn_runs k) run ru'" and l: "kn_live k' = jm_set (kn_live k) (run_sid ru) run"
    and s: "run_sid ru' = run_sid ru" and p: "ru_phase ru' = Pumping"
  shows "watched S k'"
proof (rule watchedI, goal_cases)
  case (1 x rx)
  then show ?case using watchedD(1) [OF w, of x] g b by (fastforce simp: r jm_get_set bigger_def split: if_splits)
next
  case (2 x rx)
  then show ?case using watchedD(2) [OF w, of x] g b s by (fastforce simp: r jm_get_set bigger_def split: if_splits)
next
  case (3 a ra c rc)
  have "\<exists>ra'. jm_get (kn_runs k) a = Some ra' \<and> run_sid ra' = run_sid ra" "\<exists>rc'. jm_get (kn_runs k) c = Some rc' \<and> run_sid rc' = run_sid rc"
    using 3(1,2) g s by (auto simp: r jm_get_set split: if_splits)
  then show ?case using watchedD(3) [OF w] 3(3,4) by metis
next
  case (4 sid x)
  show ?case
  proof (cases "sid = run_sid ru")
    case True
    have "x = run" if "jm_get (kn_runs k) x = Some rx" "run_sid rx = sid" for rx
      using watchedD(3) [OF w that(1) g] that(2) True 4 by simp
    then show ?thesis using True s p by (auto simp: r l jm_get_set)
  next
    case False
    then show ?thesis using watchedD(4) [OF w 4, of x] s g by (auto simp: r l jm_get_set)
  qed
qed

text \<open>A run that is over.\<close>

lemma watched_drop:
  assumes w: "watched S k" and b: "bigger k k'" and g: "jm_get (kn_runs k) run = Some ru"
    and r: "kn_runs k' = jm_delete (kn_runs k) run"
    and l: "kn_live k' = (if ru_phase ru = Pumping then jm_delete (kn_live k) (run_sid ru) else kn_live k)"
  shows "watched S k'"
proof (rule watchedI, goal_cases)
  case (1 x rx)
  then show ?case using watchedD(1) [OF w, of x] b by (fastforce simp: r jm_get_delete bigger_def split: if_splits)
next
  case (2 x rx)
  then show ?case using watchedD(2) [OF w, of x] b by (fastforce simp: r jm_get_delete bigger_def split: if_splits)
next
  case (3 a ra c rc)
  then show ?case using watchedD(3) [OF w, of a ra c rc] by (auto simp: r jm_get_delete split: if_splits)
next
  case (4 sid x)
  show ?case
  proof (cases "ru_phase ru = Pumping \<and> sid = run_sid ru")
    case True
    have "x = run" if "jm_get (kn_runs k) x = Some rx" "run_sid rx = sid" for rx
      using watchedD(3) [OF w that(1) g] that(2) True 4 by simp
    then show ?thesis using True by (auto simp: r l jm_get_delete)
  next
    case False
    have "x \<noteq> run" if "jm_get (kn_live k) sid = Some x"
      using that watchedD(4) [OF w 4, of x] False g by auto
    then show ?thesis using watchedD(4) [OF w 4, of x] False g by (auto simp: r l jm_get_delete)
  qed
qed

section \<open>The effect of a step\<close>

type_synonym core = "ledger \<times> (nat, kernel_run) jmap \<times> (string, nat) jmap \<times> nat \<times> query_spec list \<times> string list"

definition core_of :: "kernel \<Rightarrow> core" where
  "core_of k = (kn_ledger k, kn_runs k, kn_live k, kn_next k, kn_spawned k, kn_settles k)"

text \<open>A row that no run of this kernel drives and that may be driven again.\<close>

definition dead_row :: "kernel \<Rightarrow> string \<Rightarrow> ledger_row \<Rightarrow> bool" where
  "dead_row k sid r \<longleftrightarrow> jm_get (kn_ledger k) sid = Some r \<and> \<not> jm_has (kn_live k) sid \<and> rl_state r \<in> {Running, Resumed, OrphanKilled}"

text \<open>The specification handed to the runner belongs to its row: same session, same directory, and the
  environment of the profile of the row's account.\<close>

definition spec_of_row :: "kernel_config \<Rightarrow> query_spec \<Rightarrow> ledger_row \<Rightarrow> bool" where
  "spec_of_row cfg spec r \<longleftrightarrow> qs_sessionId spec = rl_id r \<and> qs_cwd spec = rl_cwd r
     \<and> (\<exists>prof. profile_resolve (kc_profiles cfg) (rl_accountLabel r) = Inr prof
          \<and> buildSessionEnv prof (kc_baseEnv cfg) = Inr (qs_env spec))"

inductive kernel_effect :: "kernel_config \<Rightarrow> registry \<Rightarrow> string \<Rightarrow> kernel_op \<Rightarrow> kernel \<Rightarrow> kernel \<Rightarrow> bool"
  for cfg reg ts op k where
  quiet: "core_of k' = core_of k \<Longrightarrow> kernel_effect cfg reg ts op k k'"
| row: "jm_get (kn_ledger k) (rl_id r) = None \<Longrightarrow> ledger_moves (kn_ledger k) (jm_set (kn_ledger k) (rl_id r) r)
    \<Longrightarrow> rl_state r = Spawning \<Longrightarrow> claude_row r \<Longrightarrow> spec_of_row cfg spec r
    \<Longrightarrow> (\<And>p. repairOf = Some p \<Longrightarrow> \<exists>rp. dead_row k p rp)
    \<Longrightarrow> core_of k' = (jm_set (kn_ledger k) (rl_id r) r,
          jm_set (kn_runs k) (kn_next k) \<lparr>ru_spec = spec, ru_phase = Inserted, ru_repairOf = repairOf, ru_result = None\<rparr>,
          kn_live k, Suc (kn_next k), kn_spawned k, kn_settles k)
    \<Longrightarrow> kernel_effect cfg reg ts op k k'"
| redriven: "op = KResume newid sid prompt False probe readf \<Longrightarrow> \<not> kn_shuttingDown k \<Longrightarrow> dead_row k sid r
    \<Longrightarrow> ledger_transition reg (kn_ledger k) ts sid Resumed = Inr (led, r') \<Longrightarrow> spec_of_row cfg spec r \<Longrightarrow> rl_id r = sid
    \<Longrightarrow> core_of k' = (led,
          jm_set (kn_runs k) (kn_next k) \<lparr>ru_spec = spec, ru_phase = Starting, ru_repairOf = None, ru_result = None\<rparr>,
          kn_live k, Suc (kn_next k), kn_spawned k @ [spec], kn_settles k)
    \<Longrightarrow> kernel_effect cfg reg ts op k k'"
| redrive_refused: "op = KResume newid sid prompt False probe readf \<Longrightarrow> dead_row k sid r
    \<Longrightarrow> ledger_transition reg (kn_ledger k) ts sid Resumed = Inr (led, r')
    \<Longrightarrow> core_of k' = (led, kn_runs k, kn_live k, kn_next k, kn_spawned k, kn_settles k)
    \<Longrightarrow> kernel_effect cfg reg ts op k k'"
| go: "jm_get (kn_runs k) run = Some ru \<Longrightarrow> ru_phase ru = Inserted \<Longrightarrow> \<not> kn_shuttingDown k
    \<Longrightarrow> core_of k' = (kn_ledger k, jm_set (kn_runs k) run (ru\<lparr>ru_phase := Starting\<rparr>), kn_live k, kn_next k,
          kn_spawned k @ [ru_spec ru], kn_settles k)
    \<Longrightarrow> kernel_effect cfg reg ts op k k'"
| given_up: "jm_get (kn_runs k) run = Some ru \<Longrightarrow> ru_phase ru \<noteq> Pumping
    \<Longrightarrow> core_of k' = (fst (try_transition reg ts (kn_ledger k) (run_sid ru) Exited), jm_delete (kn_runs k) run, kn_live k, kn_next k,
          kn_spawned k, kn_settles k)
    \<Longrightarrow> kernel_effect cfg reg ts op k k'"
| start_bad: "op = KStarted run pid nonce \<Longrightarrow> jm_get (kn_runs k) run = Some ru \<Longrightarrow> ru_phase ru = Starting
    \<Longrightarrow> \<not> snd (start_writes reg ts (kn_ledger k) (run_sid ru) pid nonce)
    \<Longrightarrow> core_of k' = (fst (start_writes reg ts (kn_ledger k) (run_sid ru) pid nonce), jm_delete (kn_runs k) run, kn_live k, kn_next k,
          kn_spawned k, kn_settles k)
    \<Longrightarrow> kernel_effect cfg reg ts op k k'"
| start_ok: "op = KStarted run pid nonce \<Longrightarrow> jm_get (kn_runs k) run = Some ru \<Longrightarrow> ru_phase ru = Starting
    \<Longrightarrow> snd (start_writes reg ts (kn_ledger k) (run_sid ru) pid nonce)
    \<Longrightarrow> core_of k' = (fst (start_writes reg ts (kn_ledger k) (run_sid ru) pid nonce),
          jm_set (kn_runs k) run (ru\<lparr>ru_phase := Pumping\<rparr>), jm_set (kn_live k) (run_sid ru) run, kn_next k,
          kn_spawned k, kn_settles k @ (case ru_repairOf ru of None \<Rightarrow> [] | Some p \<Rightarrow> [p]))
    \<Longrightarrow> kernel_effect cfg reg ts op k k'"
| named: "jm_get (kn_runs k) run = Some ru \<Longrightarrow> ru_phase ru = Pumping
    \<Longrightarrow> backfillNativeSessionId reg (kn_ledger k) ts (run_sid ru) native = Inr (led, r')
    \<Longrightarrow> core_of k' = (led, kn_runs k, kn_live k, kn_next k, kn_spawned k, kn_settles k)
    \<Longrightarrow> kernel_effect cfg reg ts op k k'"
| result: "jm_get (kn_runs k) run = Some ru \<Longrightarrow> ru_phase ru = Pumping
    \<Longrightarrow> core_of k' = (kn_ledger k, jm_set (kn_runs k) run (ru\<lparr>ru_result := res\<rparr>), kn_live k, kn_next k, kn_spawned k, kn_settles k)
    \<Longrightarrow> kernel_effect cfg reg ts op k k'"
| ended: "jm_get (kn_runs k) run = Some ru \<Longrightarrow> ru_phase ru = Pumping
    \<Longrightarrow> core_of k' = (settle_exit reg ts (kn_ledger k) (run_sid ru), jm_delete (kn_runs k) run, jm_delete (kn_live k) (run_sid ru),
          kn_next k, kn_spawned k, kn_settles k)
    \<Longrightarrow> kernel_effect cfg reg ts op k k'"
| settled: "kn_settles k = p # rest
    \<Longrightarrow> core_of k' = (fst (try_transition reg ts (kn_ledger k) p Exited), kn_runs k, kn_live k, kn_next k, kn_spawned k, rest)
    \<Longrightarrow> kernel_effect cfg reg ts op k k'"

lemma resolve_claude: "resolve_profile cfg label = Inr prof \<longleftrightarrow> profile_resolve (kc_profiles cfg) label = Inr prof"
  by (simp add: resolve_profile_def split: sum.splits)

lemma buildEnvFor_Inr: "buildEnvFor cfg prof = Inr e \<longleftrightarrow> buildSessionEnv prof (kc_baseEnv cfg) = Inr e"
  by (simp add: buildEnvFor_def split: sum.splits)

lemma resolve_form: "profile_resolve ps label = Inr prof \<Longrightarrow> isClaudeAccountLabel label"
  by (auto simp: profile_resolve_def isClaudeProfileLabel_def split: if_splits option.splits)

lemma insertRowAndSpawn_effect:
  assumes ok: "insertRowAndSpawn cfg reg ts k a repairOf = Inr k'"
    and rep: "\<And>p. repairOf = Some p \<Longrightarrow> \<exists>rp. dead_row k p rp"
  shows "kernel_effect cfg reg ts op k k'"
proof -
  obtain prof e where pe: "resolve_profile cfg (sa_accountLabel a) = Inr prof" "buildEnvFor cfg prof = Inr e"
    using ok unfolding insertRowAndSpawn_def r_bind_Inr by blast
  obtain led r0 where p: "resolve_profile cfg (sa_accountLabel a) = Inr prof" "buildEnvFor cfg prof = Inr e"
    "insertBeforeSpawn reg (kn_ledger k) ts (row_for a) = Inr (led, r0)"
    and k': "core_of k' = (led, jm_set (kn_runs k) (kn_next k) \<lparr>ru_spec = spec_for cfg a e, ru_phase = Inserted, ru_repairOf = repairOf, ru_result = None\<rparr>,
       kn_live k, Suc (kn_next k), kn_spawned k, kn_settles k)"
    using ok pe by (cases "insertBeforeSpawn reg (kn_ledger k) ts (row_for a)") (auto simp: insertRowAndSpawn_def core_of_def)
  note I = insert_Inr [OF p(3)]
  let ?r = "new_row ts (row_for a)"
  have rid: "rl_id ?r = nl_id (row_for a)" by (simp add: new_row_def)
  have led: "led = jm_set (kn_ledger k) (rl_id ?r) ?r" using I rid by simp
  have pr: "profile_resolve (kc_profiles cfg) (sa_accountLabel a) = Inr prof" using p(1) by (simp add: resolve_claude)
  have env: "buildSessionEnv prof (kc_baseEnv cfg) = Inr e" using p(2) by (simp add: buildEnvFor_Inr)
  show ?thesis
  proof (rule kernel_effect.row [where r = ?r and spec = "spec_for cfg a e" and repairOf = repairOf])
    show "jm_get (kn_ledger k) (rl_id ?r) = None" using I rid by simp
    show "ledger_moves (kn_ledger k) (jm_set (kn_ledger k) (rl_id ?r) ?r)" using insert_moves [OF p(3)] led by simp
    show "rl_state ?r = Spawning" by (simp add: new_row_def)
    show "claude_row ?r" using resolve_form [OF pr] by (simp add: claude_row_def new_row_def row_for_def)
    show "spec_of_row cfg (spec_for cfg a e) ?r" using pr env by (simp add: spec_of_row_def spec_for_def new_row_def row_for_def)
  qed (use rep k' led in auto)
qed

lemma forkFrom_effect:
  assumes ok: "forkFrom cfg reg ts k newid r prompt anchor repaired = Inr k'"
    and rep: "repaired \<Longrightarrow> \<exists>rp. dead_row k (rl_id r) rp"
  shows "kernel_effect cfg reg ts op k k'"
proof -
  obtain a where "insertRowAndSpawn cfg reg ts k a (if repaired then Some (rl_id r) else None) = Inr k'"
    using ok by (auto simp: forkFrom_def split: option.splits if_split_asm)
  then show ?thesis by (rule insertRowAndSpawn_effect) (use rep in \<open>auto split: if_splits\<close>)
qed

lemma as_call_effect:
  "(\<And>k'. r = Inr k' \<Longrightarrow> kernel_effect cfg reg ts op k k') \<Longrightarrow> kernel_effect cfg reg ts op k (snd (as_call k r))"
  by (auto simp: as_call_def intro: kernel_effect.quiet split: sum.splits)

lemma launch_effect: "launch cfg reg ts k newid p = Inr k' \<Longrightarrow> kernel_effect cfg reg ts op k k'"
  unfolding launch_def
  by (auto simp: r_bind_Inr intro: insertRowAndSpawn_effect split: if_splits option.splits)

lemma redrive_effect:
  assumes op: "op = KResume newid sid prompt_opt False probe readf" and d: "dead_row k sid r" and i: "rl_id r = sid"
    and sh: "\<not> kn_shuttingDown k"
  shows "kernel_effect cfg reg ts op k (snd (redrive cfg reg ts k r native prompt))"
proof (cases "ledger_transition reg (kn_ledger k) ts sid Resumed")
  case (Inl e)
  then show ?thesis by (simp add: redrive_def i kernel_effect.quiet)
next
  case (Inr x)
  obtain led r' where x: "x = (led, r')" by (cases x)
  show ?thesis
  proof (cases "r_bind (resolve_profile cfg (rl_accountLabel r)) (buildEnvFor cfg)")
    case (Inl e)
    show ?thesis by (rule kernel_effect.redrive_refused [OF op d Inr [unfolded x]]) (simp add: redrive_def i Inr x Inl Let_def core_of_def)
  next
    case (Inr e)
    then obtain prof where "profile_resolve (kc_profiles cfg) (rl_accountLabel r) = Inr prof" "buildSessionEnv prof (kc_baseEnv cfg) = Inr e"
      by (auto simp: r_bind_Inr resolve_claude buildEnvFor_Inr)
    then have "spec_of_row cfg \<lparr>qs_sessionId = rl_id r, qs_prompt = prompt, qs_cwd = rl_cwd r, qs_env = e,
        qs_resumeNativeSessionId = Some native, qs_forkSession = None, qs_resumeSessionAt = None, qs_canUseTool = kc_approvals cfg\<rparr> r"
      by (simp add: spec_of_row_def)
    then show ?thesis
      by (rule kernel_effect.redriven [OF op sh d \<open>ledger_transition reg (kn_ledger k) ts sid Resumed = Inr x\<close> [unfolded x] _ i])
        (simp add: redrive_def i \<open>ledger_transition reg (kn_ledger k) ts sid Resumed = Inr x\<close> x Inr Let_def core_of_def)
  qed
qed

lemma resume_effect:
  assumes op: "op = KResume newid sid prompt_opt fork probe readf" and t: "ledger_table (kn_ledger k)"
  shows "kernel_effect cfg reg ts op k (snd (resume cfg reg ts k newid sid prompt_opt fork probe readf))"
proof -
  have q: "kernel_effect cfg reg ts op k k" by (rule kernel_effect.quiet) simp
  show ?thesis
  proof (cases "kn_shuttingDown k \<or> (\<nexists>r. ledger_get reg (kn_ledger k) sid = Inr (Some r)) \<or> (\<nexists>prompt. prompt_opt = Some prompt \<and> prompt \<noteq> [])")
    case True
    then have "snd (resume cfg reg ts k newid sid prompt_opt fork probe readf) = k"
      by (auto simp: resume_def split: sum.splits option.splits)
    then show ?thesis using q by simp
  next
    case False
    then obtain r prompt where r: "ledger_get reg (kn_ledger k) sid = Inr (Some r)" and p: "prompt_opt = Some prompt" "prompt \<noteq> []"
      and sh: "\<not> kn_shuttingDown k" by blast
    have g: "jm_get (kn_ledger k) sid = Some r"
      using r by (auto simp: ledger_get_def r_bind_Inr rowFromSql_def split: option.splits if_splits)
    have i: "rl_id r = sid" using t g by (simp add: ledger_table_def)
    have fk: "kernel_effect cfg reg ts op k (snd (as_call k (forkFrom cfg reg ts k newid r prompt anchor False)))" for anchor
      using forkFrom_effect [where repaired = False] by (intro as_call_effect) blast
    have dead: "kernel_effect cfg reg ts op k (snd (resume_dead cfg reg ts k newid r prompt fork probe readf))"
      if d: "dead_row k sid r"
    proof -
      have fr: "kernel_effect cfg reg ts op k (snd (as_call k (forkFrom cfg reg ts k newid r prompt anchor True)))" for anchor
        using forkFrom_effect [where repaired = True and r = r] d i by (intro as_call_effect) blast
      have rd: "kernel_effect cfg reg ts op k (snd (redrive cfg reg ts k r native prompt))" if "\<not> fork" for native
        using op that by (intro redrive_effect [OF _ d i sh]) simp
      show ?thesis unfolding resume_dead_def
        using q fk fr rd by (auto split: sum.splits option.splits)
    qed
    show ?thesis
    proof (cases "jm_has (kn_live k) sid")
      case True
      then show ?thesis using sh r p q fk by (simp add: resume_def)
    next
      case False
      then show ?thesis using sh r p q fk dead g
        by (cases "rl_state r"; cases fork) (simp_all add: resume_def dead_row_def)
    qed
  qed
qed

lemma pump_end_effect: "kernel_effect cfg reg ts op k (pump_end cfg reg ts k run)"
proof (cases "\<exists>ru. jm_get (kn_runs k) run = Some ru \<and> ru_phase ru = Pumping")
  case True
  then obtain ru where ru: "jm_get (kn_runs k) run = Some ru" "ru_phase ru = Pumping" by blast
  show ?thesis by (rule kernel_effect.ended [OF ru])
    (simp add: pump_end_def ru session_ended_def drop_run_def Let_def core_of_def run_sid_def)
next
  case False
  then have "pump_end cfg reg ts k run = k" by (auto simp: pump_end_def split: option.splits)
  then show ?thesis by (simp add: kernel_effect.quiet)
qed

lemma pump_message_effect: "kernel_effect cfg reg ts op k (pump_message cfg reg ts k run msg)"
proof (cases "\<exists>ru. jm_get (kn_runs k) run = Some ru \<and> ru_phase ru = Pumping")
  case True
  then obtain ru where ru: "jm_get (kn_runs k) run = Some ru" "ru_phase ru = Pumping" by blast
  have q: "kernel_effect cfg reg ts op k k" by (rule kernel_effect.quiet) simp
  show ?thesis
  proof (cases msg)
    case (InitMessage native)
    have b: "kernel_effect cfg reg ts op k (k\<lparr>kn_ledger := led\<rparr>)"
      if "backfillNativeSessionId reg (kn_ledger k) ts (run_sid ru) native = Inr (led, r')" for led r'
      by (rule kernel_effect.named [OF ru that]) (simp add: core_of_def)
    show ?thesis using InitMessage ru q b pump_end_effect
      by (auto simp: pump_message_def Let_def run_sid_def split: sum.splits)
  next
    case (ResultMessage res)
    show ?thesis by (rule kernel_effect.result [OF ru, of _ "Some res"]) (simp add: pump_message_def ru ResultMessage core_of_def)
  next
    case (OtherMessage v)
    then show ?thesis using q ru by (simp add: pump_message_def)
  qed
next
  case False
  then have "pump_message cfg reg ts k run msg = k" by (auto simp: pump_message_def split: option.splits)
  then show ?thesis by (simp add: kernel_effect.quiet)
qed

lemma after_hook_effect: "kernel_effect cfg reg ts op k (after_hook reg ts k run)"
proof (cases "\<exists>ru. jm_get (kn_runs k) run = Some ru \<and> ru_phase ru = Inserted")
  case True
  then obtain ru where ru: "jm_get (kn_runs k) run = Some ru" "ru_phase ru = Inserted" by blast
  show ?thesis
  proof (cases "kn_shuttingDown k")
    case True
    show ?thesis by (rule kernel_effect.given_up [OF ru(1)])
      (simp_all add: after_hook_def ru True drop_run_def core_of_def run_sid_def)
  next
    case False
    show ?thesis by (rule kernel_effect.go [OF ru False]) (simp add: after_hook_def ru False core_of_def)
  qed
next
  case False
  then have "after_hook reg ts k run = k" by (auto simp: after_hook_def split: option.splits)
  then show ?thesis by (simp add: kernel_effect.quiet)
qed

lemma start_failed_effect: "kernel_effect cfg reg ts op k (start_failed reg ts k run)"
proof (cases "\<exists>ru. jm_get (kn_runs k) run = Some ru \<and> ru_phase ru = Starting")
  case True
  then obtain ru where ru: "jm_get (kn_runs k) run = Some ru" "ru_phase ru = Starting" by blast
  show ?thesis by (rule kernel_effect.given_up [OF ru(1)])
    (simp_all add: start_failed_def ru drop_run_def core_of_def run_sid_def)
next
  case False
  then have "start_failed reg ts k run = k" by (auto simp: start_failed_def split: option.splits)
  then show ?thesis by (simp add: kernel_effect.quiet)
qed

lemma start_done_effect: "op = KStarted run pid nonce \<Longrightarrow> kernel_effect cfg reg ts op k (start_done reg ts k run pid nonce)"
proof (cases "\<exists>ru. jm_get (kn_runs k) run = Some ru \<and> ru_phase ru = Starting")
  case True
  assume op: "op = KStarted run pid nonce"
  obtain ru where ru: "jm_get (kn_runs k) run = Some ru" "ru_phase ru = Starting" using True by blast
  show ?thesis
  proof (cases "snd (start_writes reg ts (kn_ledger k) (run_sid ru) pid nonce)")
    case True
    show ?thesis by (rule kernel_effect.start_ok [OF op ru True])
      (use True in \<open>simp add: start_done_def ru run_sid_def Let_def core_of_def split: option.split\<close>)
  next
    case False
    show ?thesis by (rule kernel_effect.start_bad [OF op ru False])
      (use False in \<open>simp add: start_done_def ru run_sid_def drop_run_def Let_def core_of_def\<close>)
  qed
next
  case False
  then have "start_done reg ts k run pid nonce = k" by (auto simp: start_done_def split: option.splits)
  then show ?thesis by (simp add: kernel_effect.quiet)
qed

lemma settle_effect: "kernel_effect cfg reg ts op k (settle_repaired reg ts k)"
proof (cases "kn_settles k")
  case Nil
  then show ?thesis by (simp add: settle_repaired_def kernel_effect.quiet)
next
  case (Cons p rest)
  show ?thesis by (rule kernel_effect.settled [OF Cons]) (simp add: settle_repaired_def Cons core_of_def)
qed

theorem kernel_step_effect:
  assumes "ledger_table (kn_ledger k)"
  shows "kernel_effect cfg reg ts op k (kernel_step cfg k (reg, ts, op))"
proof (cases op)
  case (KAbort sid)
  then show ?thesis
    by (intro kernel_effect.quiet) (auto simp: kernel_step_def kernel_abort_def core_of_def split: option.splits sum.splits)
qed (auto simp: kernel_step_def kernel_shutdown_def core_of_def intro: kernel_effect.quiet as_call_effect launch_effect
    resume_effect [OF _ assms] after_hook_effect start_failed_effect start_done_effect pump_message_effect pump_end_effect settle_effect)

section \<open>Invariants\<close>

lemma effect_moves: "kernel_effect cfg reg ts op k k' \<Longrightarrow> ledger_moves (kn_ledger k) (kn_ledger k')"
  by (erule kernel_effect.cases)
    (auto simp: core_of_def intro: transition_moves native_moves start_writes_moves settle_exit_moves)

lemma effect_next: "kernel_effect cfg reg ts op k k' \<Longrightarrow> kn_next k \<le> kn_next k'"
  by (erule kernel_effect.cases) (auto simp: core_of_def)

lemma effect_bigger: "kernel_effect cfg reg ts op k k' \<Longrightarrow> ledger_table (kn_ledger k) \<Longrightarrow> bigger k k'"
  unfolding bigger_def using effect_moves effect_next moves_has by blast

text \<open>No un-forked resume of a watched session while a start of that session is awaited.\<close>

definition no_overlap :: "string set \<Rightarrow> kernel \<Rightarrow> kernel_op \<Rightarrow> bool" where
  "no_overlap S k op \<longleftrightarrow> (case op of
     KResume _ sid _ fork _ _ \<Rightarrow> fork \<or> sid \<notin> S
        \<or> (\<forall>(run, ru) \<in> set (kn_runs k). run_sid ru = sid \<longrightarrow> ru_phase ru = Pumping)
   | _ \<Rightarrow> True)"

lemma watched_effect:
  assumes w: "watched S k" and t: "ledger_table (kn_ledger k)" and e: "kernel_effect cfg reg ts op k k'"
    and n: "no_overlap S k op \<or> (\<forall>sid r. dead_row k sid r \<longrightarrow> sid \<notin> S)"
  shows "watched S k'"
proof -
  note b = effect_bigger [OF e t]
  show ?thesis using e
  proof cases
    case (row r spec repairOf)
    have "jm_get (kn_ledger k) (qs_sessionId spec) = None" using row(1,5) by (simp add: spec_of_row_def)
    then have "run_sid ru' \<noteq> qs_sessionId spec" if "jm_get (kn_runs k) run = Some ru'" for run ru'
      using watchedD(2) [OF w that] by (auto simp: jm_has_iff_get)
    then show ?thesis using row(5,7)
      by (intro watched_add [OF w b, of "\<lparr>ru_spec = spec, ru_phase = Inserted, ru_repairOf = repairOf, ru_result = None\<rparr>"])
        (auto simp: core_of_def run_sid_def spec_of_row_def)
  next
    case (redriven newid sid prompt probe readf r led r' spec)
    have nl: "\<not> jm_has (kn_live k) sid" using redriven(3) by (simp add: dead_row_def)
    have sp: "qs_sessionId spec = sid" using redriven(5,6) by (simp add: spec_of_row_def)
    have has: "jm_has (kn_ledger k') sid" using redriven(3) b by (auto simp: dead_row_def bigger_def jm_has_iff_get)
    have "False" if g: "jm_get (kn_runs k) run = Some ru'" and s: "run_sid ru' = sid" and S: "sid \<in> S" for run ru'
    proof -
      have "ru_phase ru' = Pumping" using n redriven(1,3) s S jm_get_in_set [OF g] by (auto simp: no_overlap_def)
      then have "jm_get (kn_live k) sid = Some run" using watchedD(4) [OF w S] g s by blast
      then show False using nl by (simp add: jm_has_iff_get)
    qed
    then show ?thesis using redriven(7) sp has
      by (intro watched_add [OF w b, of "\<lparr>ru_spec = spec, ru_phase = Starting, ru_repairOf = None, ru_result = None\<rparr>"])
        (auto simp: core_of_def run_sid_def)
  next
    case (go run ru)
    show ?thesis by (rule watched_relabel [OF w b go(1), of "ru\<lparr>ru_phase := Starting\<rparr>"]) (use go in \<open>auto simp: core_of_def run_sid_def\<close>)
  next
    case (given_up run ru)
    show ?thesis by (rule watched_drop [OF w b given_up(1)]) (use given_up in \<open>auto simp: core_of_def\<close>)
  next
    case (start_bad run pid nonce ru)
    show ?thesis by (rule watched_drop [OF w b start_bad(2)]) (use start_bad in \<open>auto simp: core_of_def\<close>)
  next
    case (start_ok run pid nonce ru)
    show ?thesis by (rule watched_live [OF w b start_ok(2), of "ru\<lparr>ru_phase := Pumping\<rparr>"]) (use start_ok in \<open>auto simp: core_of_def run_sid_def\<close>)
  next
    case (result run ru res)
    show ?thesis by (rule watched_relabel [OF w b result(1), of "ru\<lparr>ru_result := res\<rparr>"]) (use result in \<open>auto simp: core_of_def run_sid_def\<close>)
  next
    case (ended run ru)
    show ?thesis by (rule watched_drop [OF w b ended(1)]) (use ended in \<open>auto simp: core_of_def\<close>)
  qed (rule watched_idle [OF w b]; simp add: core_of_def)+
qed

end
