(* ===== verification/Session_Truth.thy ===== *)
theory Session_Truth
  imports Session_Runs
begin

text \<open>
  What the invariants of the session kernel give: the state of a row agrees with the run behind it, a
  session never has two runners while starts do not overlap, every runner is started on a row that is
  already written, and a shutdown stops all spawning. The window in which two runners can be started
  on one session, and the start that outlives a shutdown, are shown as concrete histories.
\<close>

section \<open>The ledger tells the truth\<close>

definition has_run :: "kernel \<Rightarrow> string \<Rightarrow> bool \<Rightarrow> bool" where
  "has_run k sid pumping \<longleftrightarrow> (\<exists>run ru. jm_get (kn_runs k) run = Some ru \<and> run_sid ru = sid \<and> (ru_phase ru = Pumping) = pumping)"

definition honest :: "kernel \<Rightarrow> string \<Rightarrow> session_state \<Rightarrow> bool" where
  "honest k sid s = (case s of
     Spawning \<Rightarrow> has_run k sid False
   | Running \<Rightarrow> jm_has (kn_live k) sid
   | Exited \<Rightarrow> \<not> has_run k sid False \<and> \<not> has_run k sid True
   | _ \<Rightarrow> False)"

text \<open>\<open>D\<close> holds the sessions the ledger had when the kernel was created.\<close>

definition truthful :: "string set \<Rightarrow> kernel \<Rightarrow> bool" where
  "truthful D k \<longleftrightarrow> (\<forall>sid r. sid \<notin> D \<longrightarrow> jm_get (kn_ledger k) sid = Some r \<longrightarrow> claude_row r \<and> honest k sid (rl_state r))
     \<and> set (kn_settles k) \<subseteq> D \<and> (\<forall>run ru p. jm_get (kn_runs k) run = Some ru \<longrightarrow> ru_repairOf ru = Some p \<longrightarrow> p \<in> D)"

lemma truthfulD:
  assumes "truthful D k"
  shows "\<And>sid r. sid \<notin> D \<Longrightarrow> jm_get (kn_ledger k) sid = Some r \<Longrightarrow> claude_row r \<and> honest k sid (rl_state r)"
    "set (kn_settles k) \<subseteq> D" "\<And>run ru p. jm_get (kn_runs k) run = Some ru \<Longrightarrow> ru_repairOf ru = Some p \<Longrightarrow> p \<in> D"
  using assms unfolding truthful_def by simp_all

lemma honest_dead: "truthful D k \<Longrightarrow> dead_row k sid r \<Longrightarrow> sid \<in> D"
  by (rule ccontr) (use truthfulD(1) [of D k sid r] in \<open>auto simp: dead_row_def honest_def\<close>)

lemma nonpumping_spawning:
  assumes w: "watched (- D) k" and t: "truthful D k" and g: "jm_get (kn_runs k) run = Some ru" and p: "ru_phase ru \<noteq> Pumping"
    and d: "run_sid ru \<notin> D"
  obtains r where "jm_get (kn_ledger k) (run_sid ru) = Some r" "rl_state r = Spawning" "claude_row r"
proof -
  obtain r where r: "jm_get (kn_ledger k) (run_sid ru) = Some r" using watchedD(2) [OF w g] by (auto simp: jm_has_iff_get)
  note h = truthfulD(1) [OF t d r]
  have hr: "has_run k (run_sid ru) False" using g p by (auto simp: has_run_def)
  have "\<not> jm_has (kn_live k) (run_sid ru)"
  proof
    assume "jm_has (kn_live k) (run_sid ru)"
    then obtain run' where "jm_get (kn_live k) (run_sid ru) = Some run'" by (auto simp: jm_has_iff_get)
    then obtain ru' where "jm_get (kn_runs k) run' = Some ru'" "run_sid ru' = run_sid ru" "ru_phase ru' = Pumping"
      using watchedD(4) [OF w, of "run_sid ru"] d by auto
    then show False using watchedD(3) [OF w _ g, of run' ru'] d g p by auto
  qed
  then have "rl_state r = Spawning" using h hr by (auto simp: honest_def split: session_state.splits)
  then show ?thesis using that r h by blast
qed

lemma pumping_running:
  assumes w: "watched (- D) k" and t: "truthful D k" and g: "jm_get (kn_runs k) run = Some ru" and p: "ru_phase ru = Pumping"
    and d: "run_sid ru \<notin> D"
  obtains r where "jm_get (kn_ledger k) (run_sid ru) = Some r" "rl_state r = Running" "claude_row r"
proof -
  obtain r where r: "jm_get (kn_ledger k) (run_sid ru) = Some r" using watchedD(2) [OF w g] by (auto simp: jm_has_iff_get)
  note h = truthfulD(1) [OF t d r]
  have hr: "has_run k (run_sid ru) True" using g p by (auto simp: has_run_def)
  have "\<not> has_run k (run_sid ru) False"
  proof
    assume "has_run k (run_sid ru) False"
    then obtain run' ru' where "jm_get (kn_runs k) run' = Some ru'" "run_sid ru' = run_sid ru" "ru_phase ru' \<noteq> Pumping"
      by (auto simp: has_run_def)
    then show False using watchedD(3) [OF w _ g, of run' ru'] d g p by auto
  qed
  then have "rl_state r = Running" using h hr by (auto simp: honest_def split: session_state.splits)
  then show ?thesis using that r h by blast
qed

text \<open>A session a step does not touch stays as it was.\<close>

lemma has_run_cong:
  "(\<And>x rx. run_sid rx = sid \<Longrightarrow> jm_get (kn_runs k') x = Some rx \<longleftrightarrow> jm_get (kn_runs k) x = Some rx)
   \<Longrightarrow> has_run k' sid b = has_run k sid b"
  unfolding has_run_def by blast

lemma has_run_set_other:
  "kn_runs k' = jm_set (kn_runs k) run ru' \<Longrightarrow> run_sid ru' \<noteq> sid
   \<Longrightarrow> (\<And>ru. jm_get (kn_runs k) run = Some ru \<Longrightarrow> run_sid ru \<noteq> sid) \<Longrightarrow> has_run k' sid b = has_run k sid b"
  by (rule has_run_cong) (auto simp: jm_get_set)

lemma has_run_delete_other:
  "kn_runs k' = jm_delete (kn_runs k) run \<Longrightarrow> (\<And>ru. jm_get (kn_runs k) run = Some ru \<Longrightarrow> run_sid ru \<noteq> sid)
   \<Longrightarrow> has_run k' sid b = has_run k sid b"
  by (rule has_run_cong) (auto simp: jm_get_delete)

lemma has_run_same: "kn_runs k' = kn_runs k \<Longrightarrow> has_run k' sid b = has_run k sid b"
  by (simp add: has_run_def)

lemma has_run_set_same:
  "jm_get (kn_runs k) run = Some ru \<Longrightarrow> kn_runs k' = jm_set (kn_runs k) run ru' \<Longrightarrow> run_sid ru' = run_sid ru
   \<Longrightarrow> (ru_phase ru' = Pumping) = (ru_phase ru = Pumping) \<Longrightarrow> has_run k' sid b = has_run k sid b"
proof -
  assume a: "jm_get (kn_runs k) run = Some ru" "kn_runs k' = jm_set (kn_runs k) run ru'" "run_sid ru' = run_sid ru"
    "(ru_phase ru' = Pumping) = (ru_phase ru = Pumping)"
  have "(\<exists>rx. jm_get (kn_runs k') x = Some rx \<and> run_sid rx = sid \<and> (ru_phase rx = Pumping) = b)
      \<longleftrightarrow> (\<exists>rx. jm_get (kn_runs k) x = Some rx \<and> run_sid rx = sid \<and> (ru_phase rx = Pumping) = b)" for x
    using a by (cases "x = run") (simp_all add: jm_get_set)
  then show ?thesis unfolding has_run_def by simp
qed

lemma no_run_after_delete:
  assumes w: "watched (- D) k" and g: "jm_get (kn_runs k) run = Some ru" and d: "run_sid ru \<notin> D"
    and r: "kn_runs k' = jm_delete (kn_runs k) run"
  shows "\<not> has_run k' (run_sid ru) b"
proof
  assume "has_run k' (run_sid ru) b"
  then obtain x rx where "jm_get (kn_runs k) x = Some rx" "x \<noteq> run" "run_sid rx = run_sid ru"
    by (auto simp: has_run_def r jm_get_delete split: if_splits)
  then show False using watchedD(3) [OF w _ g, of x rx] d by auto
qed

lemma honest_cong:
  "(\<And>b. has_run k' sid b = has_run k sid b) \<Longrightarrow> jm_has (kn_live k') sid = jm_has (kn_live k) sid \<Longrightarrow> honest k' sid s = honest k sid s"
  by (cases s) (simp_all add: honest_def)

lemma truthfulI:
  assumes t: "truthful D k"
    and other: "\<And>sid. sid \<noteq> c \<Longrightarrow> sid \<notin> D \<Longrightarrow> jm_get (kn_ledger k') sid = jm_get (kn_ledger k) sid
       \<and> (\<forall>b. has_run k' sid b = has_run k sid b) \<and> jm_has (kn_live k') sid = jm_has (kn_live k) sid"
    and own: "\<And>r. c \<notin> D \<Longrightarrow> jm_get (kn_ledger k') c = Some r \<Longrightarrow> claude_row r \<and> honest k' c (rl_state r)"
    and settles: "set (kn_settles k') \<subseteq> D"
    and repairs: "\<And>run ru p. jm_get (kn_runs k') run = Some ru \<Longrightarrow> ru_repairOf ru = Some p \<Longrightarrow> p \<in> D"
  shows "truthful D k'"
  unfolding truthful_def
proof (intro conjI allI impI)
  fix sid r assume s: "sid \<notin> D" "jm_get (kn_ledger k') sid = Some r"
  have "claude_row r \<and> honest k' sid (rl_state r)"
  proof (cases "sid = c")
    case False
    then show ?thesis using other [OF False s(1)] truthfulD(1) [OF t s(1), of r] s(2) honest_cong [of k' sid k "rl_state r"] by auto
  qed (use own s in auto)
  then show "claude_row r" "honest k' sid (rl_state r)" by simp_all
qed (use settles repairs in auto)

definition good_op :: "kernel_op \<Rightarrow> bool" where
  "good_op op = (case op of KStarted _ pid nonce \<Rightarrow> good_handle pid nonce | _ \<Rightarrow> True)"

lemma exited_honest: "\<not> has_run k sid False \<Longrightarrow> \<not> has_run k sid True \<Longrightarrow> honest k sid Exited"
  by (simp add: honest_def)

lemma legal_exits: "isLegalTransition Spawning Exited" "isLegalTransition Running Exited"
  by (simp_all add: isLegalTransition_def LEGAL_TRANSITIONS_def)

lemma truthful_quiet:
  assumes t: "truthful D k"
    and quiet: "core_of k' = core_of k"
  shows "truthful D k'"
proof -
  have c: "kn_ledger k' = kn_ledger k" "kn_runs k' = kn_runs k" "kn_live k' = kn_live k" "kn_settles k' = kn_settles k"
    using quiet by (simp_all add: core_of_def)
  show ?thesis using t honest_cong [of k' _ k] has_run_same [OF c(2)] by (simp add: truthful_def c)
qed

lemma truthful_row:
  assumes t: "truthful D k" and w: "watched (- D) k"
    and row: "jm_get (kn_ledger k) (rl_id r) = None"
    "ledger_moves (kn_ledger k) (jm_set (kn_ledger k) (rl_id r) r)"
    "rl_state r = Spawning"
    "claude_row r"
    "spec_of_row cfg spec r"
    "(\<And>p. repairOf = Some p \<Longrightarrow> \<exists>rp. dead_row k p rp)"
    "core_of k' = (jm_set (kn_ledger k) (rl_id r) r, jm_set (kn_runs k) (kn_next k) \<lparr>ru_spec = spec, ru_phase = Inserted, ru_repairOf = repairOf, ru_result = None\<rparr>, kn_live k, Suc (kn_next k), kn_spawned k, kn_settles k)"
  shows "truthful D k'"
proof -
  let ?ru = "\<lparr>ru_spec = spec, ru_phase = Inserted, ru_repairOf = repairOf, ru_result = None\<rparr>"
  have c: "kn_ledger k' = jm_set (kn_ledger k) (rl_id r) r" "kn_runs k' = jm_set (kn_runs k) (kn_next k) ?ru"
    "kn_live k' = kn_live k" "kn_settles k' = kn_settles k" using row(7) by (simp_all add: core_of_def)
  have sid: "run_sid ?ru = rl_id r" using row(5) by (simp add: run_sid_def spec_of_row_def)
  have fresh: "jm_get (kn_runs k) (kn_next k) = None"
    using watchedD(1) [OF w, of "kn_next k"] by (cases "jm_get (kn_runs k) (kn_next k)") auto
  show ?thesis
  proof (rule truthfulI [OF t, of "rl_id r"], goal_cases)
    case (1 sid)
    then show ?case using has_run_set_other [OF c(2), of sid] \<open>run_sid ?ru = rl_id r\<close> fresh by (auto simp: c(1,3) jm_get_set)
  next
    case (2 r')
    have "has_run k' (rl_id r) False" unfolding has_run_def c(2)
      by (rule exI [of _ "kn_next k"]) (use sid in \<open>auto simp: jm_get_set\<close>)
    then show ?case using 2 row(3,4) by (simp add: c(1) jm_get_set honest_def)
  next
    case 3
    then show ?case using truthfulD(2) [OF t] by (simp add: c(4))
  next
    case (4 run ru p)
    then show ?case using truthfulD(3) [OF t, of run ru p] row(6) honest_dead [OF t] by (auto simp: c(2) jm_get_set split: if_splits)
  qed
qed

lemma truthful_redriven:
  assumes t: "truthful D k" and w: "watched (- D) k"
    and redriven: "op = KResume newid sid prompt False probe readf"
    "\<not> kn_shuttingDown k"
    "dead_row k sid r"
    "ledger_transition reg (kn_ledger k) ts sid Resumed = Inr (led, r')"
    "spec_of_row cfg spec r"
    "rl_id r = sid"
    "core_of k' = (led, jm_set (kn_runs k) (kn_next k) \<lparr>ru_spec = spec, ru_phase = Starting, ru_repairOf = None, ru_result = None\<rparr>, kn_live k, Suc (kn_next k), kn_spawned k @ [spec], kn_settles k)"
  shows "truthful D k'"
proof -
  let ?ru = "\<lparr>ru_spec = spec, ru_phase = Starting, ru_repairOf = None, ru_result = None\<rparr>"
  have c: "kn_ledger k' = led" "kn_runs k' = jm_set (kn_runs k) (kn_next k) ?ru"
    "kn_live k' = kn_live k" "kn_settles k' = kn_settles k" using redriven(7) by (simp_all add: core_of_def)
  have d: "sid \<in> D" by (rule honest_dead [OF t redriven(3)])
  have s: "run_sid ?ru = sid" using redriven(5,6) by (simp add: run_sid_def spec_of_row_def)
  have fresh: "jm_get (kn_runs k) (kn_next k) = None"
    using watchedD(1) [OF w, of "kn_next k"] by (cases "jm_get (kn_runs k) (kn_next k)") auto
  show ?thesis
  proof (rule truthfulI [OF t, of sid], goal_cases)
    case (1 sid')
    then show ?case using has_run_set_other [OF c(2), of sid'] s fresh transition_other [OF redriven(4)] by (auto simp: c)
  next
    case (4 run ru p)
    then show ?case using truthfulD(3) [OF t, of run ru p] by (auto simp: c(2) jm_get_set split: if_splits)
  qed (use d truthfulD(2) [OF t] in \<open>auto simp: c\<close>)
qed

lemma truthful_redrive_refused:
  assumes t: "truthful D k"
    and redrive_refused: "op = KResume newid sid prompt False probe readf"
    "dead_row k sid r"
    "ledger_transition reg (kn_ledger k) ts sid Resumed = Inr (led, r')"
    "core_of k' = (led, kn_runs k, kn_live k, kn_next k, kn_spawned k, kn_settles k)"
  shows "truthful D k'"
proof -
  have c: "kn_ledger k' = led" "kn_runs k' = kn_runs k" "kn_live k' = kn_live k" "kn_settles k' = kn_settles k"
    using redrive_refused(4) by (simp_all add: core_of_def)
  have d: "sid \<in> D" by (rule honest_dead [OF t redrive_refused(2)])
  show ?thesis
    by (rule truthfulI [OF t, of sid])
      (use d truthfulD(2,3) [OF t] transition_other [OF redrive_refused(3)] has_run_same [OF c(2)] in \<open>auto simp: c\<close>)
qed

lemma truthful_go:
  assumes t: "truthful D k"
    and go: "jm_get (kn_runs k) run = Some ru"
    "ru_phase ru = Inserted"
    "\<not> kn_shuttingDown k"
    "core_of k' = (kn_ledger k, jm_set (kn_runs k) run (ru\<lparr>ru_phase := Starting\<rparr>), kn_live k, kn_next k, kn_spawned k @ [ru_spec ru], kn_settles k)"
  shows "truthful D k'"
proof -
  have c: "kn_ledger k' = kn_ledger k" "kn_runs k' = jm_set (kn_runs k) run (ru\<lparr>ru_phase := Starting\<rparr>)"
    "kn_live k' = kn_live k" "kn_settles k' = kn_settles k" using go(4) by (simp_all add: core_of_def)
  have h: "has_run k' sid b = has_run k sid b" for sid b
    by (rule has_run_set_same [OF go(1) c(2)]) (simp_all add: run_sid_def go(2))
  show ?thesis unfolding truthful_def
    using t truthfulD(3) [OF t] go(1) honest_cong [of k' _ k, OF h] by (auto simp: truthful_def c jm_get_set split: if_splits)
qed

lemma truthful_result:
  assumes t: "truthful D k"
    and result: "jm_get (kn_runs k) run = Some ru"
    "ru_phase ru = Pumping"
    "core_of k' = (kn_ledger k, jm_set (kn_runs k) run (ru\<lparr>ru_result := res\<rparr>), kn_live k, kn_next k, kn_spawned k, kn_settles k)"
  shows "truthful D k'"
proof -
  have c: "kn_ledger k' = kn_ledger k" "kn_runs k' = jm_set (kn_runs k) run (ru\<lparr>ru_result := res\<rparr>)"
    "kn_live k' = kn_live k" "kn_settles k' = kn_settles k" using result(3) by (simp_all add: core_of_def)
  have h: "has_run k' sid b = has_run k sid b" for sid b
    by (rule has_run_set_same [OF result(1) c(2)]) (simp_all add: run_sid_def)
  show ?thesis unfolding truthful_def
    using t truthfulD(3) [OF t] result(1) honest_cong [of k' _ k, OF h] by (auto simp: truthful_def c jm_get_set split: if_splits)
qed

lemma truthful_given_up:
  assumes t: "truthful D k" and w: "watched (- D) k" and reg: "isBackend reg ''claude_code''"
    and given_up: "jm_get (kn_runs k) run = Some ru"
    "ru_phase ru \<noteq> Pumping"
    "core_of k' = (fst (try_transition reg ts (kn_ledger k) (run_sid ru) Exited), jm_delete (kn_runs k) run, kn_live k, kn_next k, kn_spawned k, kn_settles k)"
  shows "truthful D k'"
proof -
  have c: "kn_ledger k' = fst (try_transition reg ts (kn_ledger k) (run_sid ru) Exited)" "kn_runs k' = jm_delete (kn_runs k) run"
    "kn_live k' = kn_live k" "kn_settles k' = kn_settles k" using given_up(3) by (simp_all add: core_of_def)
  show ?thesis
  proof (rule truthfulI [OF t, of "run_sid ru"], goal_cases)
    case (1 sid)
    then show ?case using has_run_delete_other [OF c(2), of sid] given_up(1) try_transition_other [of sid] by (auto simp: c(1,3))
  next
    case (2 r)
    obtain r0 where r0: "jm_get (kn_ledger k) (run_sid ru) = Some r0" "rl_state r0 = Spawning" "claude_row r0"
      by (rule nonpumping_spawning [OF w t given_up(1,2) 2(1)])
    have "r = r0\<lparr>rl_state := Exited, rl_updatedAtIso := ts\<rparr>"
      using claude_try_transition [OF r0(1,3) reg, of Exited ts] r0(2) 2(2) legal_exits by (simp add: c(1) jm_get_set)
    then show ?case using r0(3) exited_honest no_run_after_delete [OF w given_up(1) 2(1) c(2)] by (simp add: claude_row_def)
  qed (use truthfulD(2,3) [OF t] in \<open>auto simp: c jm_get_delete split: if_splits\<close>)
qed

lemma truthful_start_bad:
  assumes t: "truthful D k" and w: "watched (- D) k" and reg: "isBackend reg ''claude_code''" and good: "good_op op"
    and start_bad: "op = KStarted run pid nonce"
    "jm_get (kn_runs k) run = Some ru"
    "ru_phase ru = Starting"
    "\<not> snd (start_writes reg ts (kn_ledger k) (run_sid ru) pid nonce)"
    "core_of k' = (fst (start_writes reg ts (kn_ledger k) (run_sid ru) pid nonce), jm_delete (kn_runs k) run, kn_live k, kn_next k, kn_spawned k, kn_settles k)"
  shows "truthful D k'"
proof -
  have c: "kn_ledger k' = fst (start_writes reg ts (kn_ledger k) (run_sid ru) pid nonce)" "kn_runs k' = jm_delete (kn_runs k) run"
    "kn_live k' = kn_live k" "kn_settles k' = kn_settles k" using start_bad(5) by (simp_all add: core_of_def)
  have gh: "good_handle pid nonce" using good start_bad(1) by (simp add: good_op_def)
  have d: "run_sid ru \<in> D"
  proof (rule ccontr)
    assume n: "run_sid ru \<notin> D"
    have np: "ru_phase ru \<noteq> Pumping" using start_bad(3) by simp
    obtain r0 where r0: "jm_get (kn_ledger k) (run_sid ru) = Some r0" "rl_state r0 = Spawning" "claude_row r0"
      by (rule nonpumping_spawning [OF w t start_bad(2) np n])
    show False using claude_start_writes [OF r0(1,3) reg r0(2) gh] start_bad(4) by metis
  qed
  show ?thesis
    by (rule truthfulI [OF t, of "run_sid ru"])
      (use d truthfulD(2,3) [OF t] start_writes_other has_run_delete_other [OF c(2)] start_bad(2) in \<open>auto simp: c jm_get_delete split: if_splits\<close>)
qed

lemma truthful_start_ok:
  assumes t: "truthful D k" and w: "watched (- D) k" and reg: "isBackend reg ''claude_code''" and good: "good_op op"
    and start_ok: "op = KStarted run pid nonce"
    "jm_get (kn_runs k) run = Some ru"
    "ru_phase ru = Starting"
    "snd (start_writes reg ts (kn_ledger k) (run_sid ru) pid nonce)"
    "core_of k' = (fst (start_writes reg ts (kn_ledger k) (run_sid ru) pid nonce), jm_set (kn_runs k) run (ru\<lparr>ru_phase := Pumping\<rparr>), jm_set (kn_live k) (run_sid ru) run, kn_next k, kn_spawned k, kn_settles k @ (case ru_repairOf ru of None \<Rightarrow> [] | Some p \<Rightarrow> [p]))"
  shows "truthful D k'"
proof -
  have c: "kn_ledger k' = fst (start_writes reg ts (kn_ledger k) (run_sid ru) pid nonce)"
    "kn_runs k' = jm_set (kn_runs k) run (ru\<lparr>ru_phase := Pumping\<rparr>)" "kn_live k' = jm_set (kn_live k) (run_sid ru) run"
    "kn_settles k' = kn_settles k @ (case ru_repairOf ru of None \<Rightarrow> [] | Some p \<Rightarrow> [p])"
    using start_ok(5) by (simp_all add: core_of_def)
  have gh: "good_handle pid nonce" using good start_ok(1) by (simp add: good_op_def)
  have np: "ru_phase ru \<noteq> Pumping" using start_ok(3) by simp
  have rs: "run_sid (ru\<lparr>ru_phase := Pumping\<rparr>) = run_sid ru" by (simp add: run_sid_def)
  show ?thesis
  proof (rule truthfulI [OF t, of "run_sid ru"], goal_cases)
    case (1 sid)
    then show ?case using has_run_set_other [OF c(2), of sid] rs start_ok(2) start_writes_other [of sid] by (auto simp: c(1,3) jm_has_iff_get jm_get_set)
  next
    case (2 r)
    obtain r0 where r0: "jm_get (kn_ledger k) (run_sid ru) = Some r0" "rl_state r0 = Spawning" "claude_row r0"
      by (rule nonpumping_spawning [OF w t start_ok(2) np 2(1)])
    have "rl_state r = Running \<and> claude_row r"
      by (rule claude_start_writes [OF r0(1,3) reg r0(2) gh, of ts]) (use 2(2) in \<open>auto simp: c(1)\<close>)
    then show ?case by (simp add: honest_def c(3) jm_has_iff_get jm_get_set)
  next
    case 3
    then show ?case using truthfulD(2) [OF t] truthfulD(3) [OF t start_ok(2)] by (auto simp: c(4) split: option.splits)
  next
    case (4 x rx p)
    then show ?case using truthfulD(3) [OF t] start_ok(2) by (auto simp: c(2) jm_get_set split: if_splits)
  qed
qed

lemma truthful_named:
  assumes t: "truthful D k" and w: "watched (- D) k"
    and named: "jm_get (kn_runs k) run = Some ru"
    "ru_phase ru = Pumping"
    "backfillNativeSessionId reg (kn_ledger k) ts (run_sid ru) native = Inr (led, r')"
    "core_of k' = (led, kn_runs k, kn_live k, kn_next k, kn_spawned k, kn_settles k)"
  shows "truthful D k'"
proof -
  have c: "kn_ledger k' = led" "kn_runs k' = kn_runs k" "kn_live k' = kn_live k" "kn_settles k' = kn_settles k"
    using named(4) by (simp_all add: core_of_def)
  show ?thesis
  proof (rule truthfulI [OF t, of "run_sid ru"], goal_cases)
    case (1 sid)
    then show ?case using has_run_same [OF c(2)] native_other [OF named(3)] by (auto simp: c)
  next
    case (2 r)
    obtain r0 where r0: "jm_get (kn_ledger k) (run_sid ru) = Some r0" "rl_state r0 = Running" "claude_row r0"
      by (rule pumping_running [OF w t named(1,2) 2(1)])
    have "rl_state r = Running \<and> claude_row r"
      using named(3)
    proof (cases rule: native_Inr)
      case same
      then show ?thesis using r0 2(2) by (simp add: c)
    next
      case (new r1)
      then show ?thesis using r0 2(2) by (auto simp: c jm_get_set claude_row_def)
    qed
    then show ?case using truthfulD(1) [OF t 2(1) r0(1)] r0(2) by (simp add: honest_def c(3))
  qed (use truthfulD(2,3) [OF t] in \<open>auto simp: c\<close>)
qed

lemma truthful_ended:
  assumes t: "truthful D k" and w: "watched (- D) k" and reg: "isBackend reg ''claude_code''"
    and ended: "jm_get (kn_runs k) run = Some ru"
    "ru_phase ru = Pumping"
    "core_of k' = (settle_exit reg ts (kn_ledger k) (run_sid ru), jm_delete (kn_runs k) run, jm_delete (kn_live k) (run_sid ru), kn_next k, kn_spawned k, kn_settles k)"
  shows "truthful D k'"
proof -
  have c: "kn_ledger k' = settle_exit reg ts (kn_ledger k) (run_sid ru)" "kn_runs k' = jm_delete (kn_runs k) run"
    "kn_live k' = jm_delete (kn_live k) (run_sid ru)" "kn_settles k' = kn_settles k" using ended(3) by (simp_all add: core_of_def)
  show ?thesis
  proof (rule truthfulI [OF t, of "run_sid ru"], goal_cases)
    case (1 sid)
    then show ?case using has_run_delete_other [OF c(2), of sid] ended(1) settle_exit_other [of sid]
      by (auto simp: c(1,3) jm_has_iff_get jm_get_delete)
  next
    case (2 r)
    obtain r0 where r0: "jm_get (kn_ledger k) (run_sid ru) = Some r0" "rl_state r0 = Running" "claude_row r0"
      by (rule pumping_running [OF w t ended(1,2) 2(1)])
    have "r = r0\<lparr>rl_state := Exited, rl_updatedAtIso := ts\<rparr>"
      using claude_try_transition [OF r0(1,3) reg, of Exited ts] r0(2) 2(2) legal_exits
      by (simp add: c(1) settle_exit_def claude_get [OF r0(1,3) reg] jm_get_set)
    then show ?case using r0(3) exited_honest no_run_after_delete [OF w ended(1) 2(1) c(2)] by (simp add: claude_row_def)
  qed (use truthfulD(2,3) [OF t] in \<open>auto simp: c jm_get_delete split: if_splits\<close>)
qed

lemma truthful_settled:
  assumes t: "truthful D k"
    and settled: "kn_settles k = p # rest"
    "core_of k' = (fst (try_transition reg ts (kn_ledger k) p Exited), kn_runs k, kn_live k, kn_next k, kn_spawned k, rest)"
  shows "truthful D k'"
proof -
  have c: "kn_ledger k' = fst (try_transition reg ts (kn_ledger k) p Exited)" "kn_runs k' = kn_runs k" "kn_live k' = kn_live k" "kn_settles k' = rest"
    using settled(2) by (simp_all add: core_of_def)
  have d: "p \<in> D" "set rest \<subseteq> D" using truthfulD(2) [OF t] settled(1) by simp_all
  show ?thesis
    by (rule truthfulI [OF t, of p])
      (use d truthfulD(3) [OF t] try_transition_other has_run_same [OF c(2)] in \<open>auto simp: c\<close>)
qed

lemma truthful_effect:
  assumes t: "truthful D k" and w: "watched (- D) k" and e: "kernel_effect cfg reg ts op k k'"
    and reg: "isBackend reg ''claude_code''" and good: "good_op op"
  shows "truthful D k'"
  using e
proof cases
  case quiet
  show ?thesis by (rule truthful_quiet [OF t quiet])
next
  case row
  show ?thesis by (rule truthful_row [OF t w row])
next
  case redriven
  show ?thesis by (rule truthful_redriven [OF t w redriven])
next
  case redrive_refused
  show ?thesis by (rule truthful_redrive_refused [OF t redrive_refused])
next
  case go
  show ?thesis by (rule truthful_go [OF t go])
next
  case result
  show ?thesis by (rule truthful_result [OF t result])
next
  case given_up
  show ?thesis by (rule truthful_given_up [OF t w reg given_up])
next
  case start_bad
  show ?thesis by (rule truthful_start_bad [OF t w reg good start_bad])
next
  case start_ok
  show ?thesis by (rule truthful_start_ok [OF t w reg good start_ok])
next
  case named
  show ?thesis by (rule truthful_named [OF t w named])
next
  case ended
  show ?thesis by (rule truthful_ended [OF t w reg ended])
next
  case settled
  show ?thesis by (rule truthful_settled [OF t settled])
qed

section \<open>Every run is backed by a row\<close>

lemma spec_of_row_le: "spec_of_row cfg spec r \<Longrightarrow> row_le r r' \<Longrightarrow> spec_of_row cfg spec r'"
  by (auto simp: spec_of_row_def row_le_def row_identity_def)

definition backed :: "kernel_config \<Rightarrow> string set \<Rightarrow> kernel \<Rightarrow> bool" where
  "backed cfg D k \<longleftrightarrow> (\<forall>run ru. jm_get (kn_runs k) run = Some ru \<longrightarrow>
     (\<exists>r. jm_get (kn_ledger k) (run_sid ru) = Some r \<and> spec_of_row cfg (ru_spec ru) r) \<and> (ru_phase ru = Inserted \<longrightarrow> run_sid ru \<notin> D))"

lemma backedD:
  assumes "backed cfg D k" "jm_get (kn_runs k) run = Some ru"
  shows "\<exists>r. jm_get (kn_ledger k) (run_sid ru) = Some r \<and> spec_of_row cfg (ru_spec ru) r" "ru_phase ru = Inserted \<Longrightarrow> run_sid ru \<notin> D"
  using assms unfolding backed_def by simp_all

lemma backed_keep:
  assumes b: "backed cfg D k" and le: "ledger_le (kn_ledger k) (kn_ledger k')"
    and r: "\<And>run ru. jm_get (kn_runs k') run = Some ru \<Longrightarrow>
       (\<exists>ru0. jm_get (kn_runs k) run = Some ru0 \<and> ru_spec ru0 = ru_spec ru \<and> (ru_phase ru = Inserted \<longrightarrow> ru_phase ru0 = Inserted))
       \<or> ((\<exists>r. jm_get (kn_ledger k') (run_sid ru) = Some r \<and> spec_of_row cfg (ru_spec ru) r) \<and> (ru_phase ru = Inserted \<longrightarrow> run_sid ru \<notin> D))"
  shows "backed cfg D k'"
  unfolding backed_def
proof (intro allI impI)
  fix run ru assume g: "jm_get (kn_runs k') run = Some ru"
  show "(\<exists>r. jm_get (kn_ledger k') (run_sid ru) = Some r \<and> spec_of_row cfg (ru_spec ru) r) \<and> (ru_phase ru = Inserted \<longrightarrow> run_sid ru \<notin> D)"
    using r [OF g]
  proof
    assume "\<exists>ru0. jm_get (kn_runs k) run = Some ru0 \<and> ru_spec ru0 = ru_spec ru \<and> (ru_phase ru = Inserted \<longrightarrow> ru_phase ru0 = Inserted)"
    then obtain ru0 where ru0: "jm_get (kn_runs k) run = Some ru0" "ru_spec ru0 = ru_spec ru" "ru_phase ru = Inserted \<longrightarrow> ru_phase ru0 = Inserted"
      by blast
    have s: "run_sid ru0 = run_sid ru" using ru0(2) by (simp add: run_sid_def)
    obtain r where r: "jm_get (kn_ledger k) (run_sid ru) = Some r" "spec_of_row cfg (ru_spec ru) r"
      using backedD(1) [OF b ru0(1)] ru0(2) s by auto
    obtain r' where "jm_get (kn_ledger k') (run_sid ru) = Some r'" "row_le r r'" using le r(1) by (auto simp: ledger_le_def)
    then show ?thesis using spec_of_row_le [OF r(2)] backedD(2) [OF b ru0(1)] ru0(3) s by auto
  qed
qed

lemma backed_effect:
  assumes b: "backed cfg D k" and t: "ledger_table (kn_ledger k)" and d: "\<And>sid. sid \<in> D \<Longrightarrow> jm_has (kn_ledger k) sid"
    and e: "kernel_effect cfg reg ts op k k'"
  shows "backed cfg D k'"
proof (rule backed_keep [OF b ledger_moves_le [OF effect_moves [OF e] t]])
  fix x rx assume g: "jm_get (kn_runs k') x = Some rx"
  show "(\<exists>ru0. jm_get (kn_runs k) x = Some ru0 \<and> ru_spec ru0 = ru_spec rx \<and> (ru_phase rx = Inserted \<longrightarrow> ru_phase ru0 = Inserted))
       \<or> ((\<exists>r. jm_get (kn_ledger k') (run_sid rx) = Some r \<and> spec_of_row cfg (ru_spec rx) r) \<and> (ru_phase rx = Inserted \<longrightarrow> run_sid rx \<notin> D))"
    using e
  proof cases
    case (row r spec repairOf)
    have "rl_id r \<notin> D" using row(1) d [of "rl_id r"] by (auto simp: jm_has_iff_get)
    then show ?thesis using g row(5,7) by (auto simp: core_of_def jm_get_set run_sid_def spec_of_row_def split: if_splits)
  next
    case (redriven newid sid prompt probe readf r led r')
    obtain r1 where "jm_get led sid = Some r1" "row_le r r1"
      using ledger_moves_le [OF transition_moves [OF redriven(4)] t] redriven(3) by (auto simp: ledger_le_def dead_row_def)
    then show ?thesis using g redriven(5-7) spec_of_row_le [OF redriven(5)]
      by (auto simp: core_of_def jm_get_set run_sid_def spec_of_row_def split: if_splits)
  qed (use g in \<open>auto simp: core_of_def jm_get_set jm_get_delete split: if_splits\<close>)
qed

lemma runs_ok_effect: "kernel_effect cfg reg ts op k k' \<Longrightarrow> jm_ok (kn_runs k) \<Longrightarrow> jm_ok (kn_runs k')"
  by (erule kernel_effect.cases) (auto simp: core_of_def)

section \<open>Histories\<close>

definition proper_call :: "registry \<times> string \<times> kernel_op \<Rightarrow> bool" where
  "proper_call c = (case c of (reg, ts, op) \<Rightarrow> isBackend reg ''claude_code'' \<and> good_op op)"

text \<open>What holds after any history, and what holds when the calls are proper.\<close>

lemma kernel_basics:
  assumes "ledger_table led"
  shows "ledger_table (kn_ledger (kernel_run_ops cfg led ops))" "ledger_moves led (kn_ledger (kernel_run_ops cfg led ops))"
    "jm_ok (kn_runs (kernel_run_ops cfg led ops))" "backed cfg {sid. jm_has led sid} (kernel_run_ops cfg led ops)"
proof (induction ops rule: rev_induct)
  case Nil
  case 1 show ?case using assms by (simp add: kernel_run_ops_def createSessionKernel_def)
  case 2 show ?case by (simp add: kernel_run_ops_def createSessionKernel_def)
  case 3 show ?case by (simp add: kernel_run_ops_def createSessionKernel_def)
  case 4 show ?case by (simp add: kernel_run_ops_def createSessionKernel_def backed_def jm_get_def)
next
  case (snoc c ops)
  obtain reg ts op where c: "c = (reg, ts, op)" by (cases c)
  let ?k = "kernel_run_ops cfg led ops"
  have e: "kernel_effect cfg reg ts op ?k (kernel_run_ops cfg led (ops @ [c]))"
    using kernel_step_effect [OF snoc(1)] by (simp add: kernel_run_ops_def c)
  case 1 show ?case by (rule ledger_moves_table [OF effect_moves [OF e] snoc(1)])
  case 2 show ?case by (rule ledger_moves_trans [OF snoc(2) effect_moves [OF e]])
  case 3 show ?case by (rule runs_ok_effect [OF e snoc(3)])
  case 4 show ?case by (rule backed_effect [OF snoc(4,1) _ e]) (use moves_has [OF snoc(2) assms] in auto)
qed

lemma kernel_truth:
  assumes led: "ledger_table led" and p: "list_all proper_call ops"
  shows "truthful {sid. jm_has led sid} (kernel_run_ops cfg led ops) \<and> watched (- {sid. jm_has led sid}) (kernel_run_ops cfg led ops)"
  using p
proof (induction ops rule: rev_induct)
  case Nil
  have "truthful {sid. jm_has led sid} (createSessionKernel led)"
    by (simp add: truthful_def createSessionKernel_def jm_has_iff_get jm_get_def [of "[]"])
  moreover have "watched (- {sid. jm_has led sid}) (createSessionKernel led)"
    by (simp add: watched_def createSessionKernel_def jm_get_def [of "[]"])
  ultimately show ?case by (simp add: kernel_run_ops_def)
next
  case (snoc c ops)
  obtain reg ts op where c: "c = (reg, ts, op)" by (cases c)
  let ?k = "kernel_run_ops cfg led ops"
  have e: "kernel_effect cfg reg ts op ?k (kernel_run_ops cfg led (ops @ [c]))"
    using kernel_step_effect [OF kernel_basics(1) [OF led]] by (simp add: kernel_run_ops_def c)
  have ih: "truthful {sid. jm_has led sid} ?k" "watched (- {sid. jm_has led sid}) ?k" using snoc by simp_all
  have pr: "isBackend reg ''claude_code''" "good_op op" using snoc.prems by (simp_all add: c proper_call_def)
  show ?case using truthful_effect [OF ih e pr] watched_effect [OF ih(2) kernel_basics(1) [OF led] e] honest_dead [OF ih(1)] by blast
qed

primrec no_overlaps :: "kernel_config \<Rightarrow> kernel \<Rightarrow> (registry \<times> string \<times> kernel_op) list \<Rightarrow> bool" where
  "no_overlaps cfg k [] = True"
| "no_overlaps cfg k (c # cs) = (no_overlap UNIV k (snd (snd c)) \<and> no_overlaps cfg (kernel_step cfg k c) cs)"

lemma no_overlaps_snoc:
  "no_overlaps cfg k (cs @ [c]) \<longleftrightarrow> no_overlaps cfg k cs \<and> no_overlap UNIV (foldl (kernel_step cfg) k cs) (snd (snd c))"
  by (induction cs arbitrary: k) auto

lemma kernel_watched:
  assumes led: "ledger_table led" and n: "no_overlaps cfg (createSessionKernel led) ops"
  shows "watched UNIV (kernel_run_ops cfg led ops)"
  using n
proof (induction ops rule: rev_induct)
  case Nil
  show ?case by (simp add: kernel_run_ops_def watched_def createSessionKernel_def jm_get_def)
next
  case (snoc c ops)
  obtain reg ts op where c: "c = (reg, ts, op)" by (cases c)
  have e: "kernel_effect cfg reg ts op (kernel_run_ops cfg led ops) (kernel_run_ops cfg led (ops @ [c]))"
    using kernel_step_effect [OF kernel_basics(1) [OF led]] by (simp add: kernel_run_ops_def c)
  have n: "no_overlaps cfg (createSessionKernel led) ops" "no_overlap UNIV (kernel_run_ops cfg led ops) op"
    using snoc.prems by (simp_all add: no_overlaps_snoc kernel_run_ops_def c)
  show ?case using watched_effect [OF snoc.IH [OF n(1)] kernel_basics(1) [OF led] e] n(2) by blast
qed

definition session_runs :: "kernel \<Rightarrow> string \<Rightarrow> (nat \<times> kernel_run) list" where
  "session_runs k sid = filter (\<lambda>(_, ru). run_sid ru = sid) (kn_runs k)"

lemma distinct_singleton: "distinct xs \<Longrightarrow> set xs = {y} \<Longrightarrow> xs = [y]"
proof (cases xs)
  case (Cons a as)
  assume d: "distinct xs" "set xs = {y}"
  have a: "a = y" and as: "set as \<subseteq> {y}" using d(2) Cons by auto
  have "y \<notin> set as" using d(1) Cons a by simp
  then have "as = []" using as by (cases as) auto
  then show ?thesis using Cons a by simp
qed simp

lemma session_runs_single:
  assumes ok: "jm_ok (kn_runs k)" and w: "watched S k" and S: "sid \<in> S" and g: "jm_get (kn_runs k) run = Some ru" and s: "run_sid ru = sid"
  shows "session_runs k sid = [(run, ru)]"
proof -
  have all: "x = (run, ru)" if "x \<in> set (session_runs k sid)" for x
  proof -
    obtain a ra where x: "x = (a, ra)" by (cases x)
    then have "jm_get (kn_runs k) a = Some ra" "run_sid ra = sid" using that in_set_jm_get [OF ok] by (auto simp: session_runs_def)
    then show ?thesis using watchedD(3) [OF w _ g, of a ra] s S g x by auto
  qed
  have m: "(run, ru) \<in> set (session_runs k sid)" using jm_get_in_set [OF g] s by (simp add: session_runs_def)
  have "distinct (kn_runs k)" using ok by (simp add: jm_ok_def distinct_map)
  then have "distinct (session_runs k sid)" by (simp add: session_runs_def)
  moreover have "set (session_runs k sid) = {(run, ru)}" using all m by blast
  ultimately show ?thesis by (rule distinct_singleton)
qed

lemma session_runs_none:
  assumes "jm_ok (kn_runs k)"
  shows "session_runs k sid = [] \<longleftrightarrow> \<not> has_run k sid False \<and> \<not> has_run k sid True"
proof -
  have "session_runs k sid = [] \<longleftrightarrow> (\<forall>run ru. (run, ru) \<in> set (kn_runs k) \<longrightarrow> run_sid ru \<noteq> sid)"
    by (auto simp: session_runs_def filter_empty_conv)
  also have "\<dots> \<longleftrightarrow> (\<forall>run ru. jm_get (kn_runs k) run = Some ru \<longrightarrow> run_sid ru \<noteq> sid)"
    using in_set_jm_get [OF assms] jm_get_in_set by metis
  also have "\<dots> \<longleftrightarrow> \<not> has_run k sid False \<and> \<not> has_run k sid True" by (auto simp: has_run_def)
  finally show ?thesis .
qed

section \<open>Properties\<close>

text \<open>Claim C8: the ledger tells the truth about the sessions of this kernel. After any interleaving of
  launches, resumes, starts, failures, messages, exits, aborts, approvals and shutdown, for a session
  that was not in the ledger when the kernel was created: its row is \<open>spawning\<close> exactly while one spawn of it is on its
  way, \<open>running\<close> exactly while its one handle is live, and otherwise \<open>exited\<close> with nothing left running.
  The Claude backend is registered and the runner returns proper handles (a positive pid with a
  non-blank nonce, or none).\<close>

theorem session_state_truth:
  assumes "ledger_table led" "list_all proper_call ops" "k = kernel_run_ops cfg led ops"
    and "jm_get led sid = None" "jm_get (kn_ledger k) sid = Some r"
  shows "case rl_state r of
      Spawning \<Rightarrow> (\<exists>run ru. session_runs k sid = [(run, ru)] \<and> ru_phase ru \<noteq> Pumping) \<and> jm_get (kn_live k) sid = None
    | Running \<Rightarrow> (\<exists>run ru. session_runs k sid = [(run, ru)] \<and> ru_phase ru = Pumping \<and> jm_get (kn_live k) sid = Some run)
    | Exited \<Rightarrow> session_runs k sid = [] \<and> jm_get (kn_live k) sid = None
    | _ \<Rightarrow> False"
proof -
  let ?D = "{sid. jm_has led sid}"
  have T: "truthful ?D k" and W: "watched (- ?D) k" and ok: "jm_ok (kn_runs k)"
    using kernel_truth [OF assms(1,2), of cfg] kernel_basics(3) [OF assms(1), of cfg ops] assms(3) by simp_all
  have d: "sid \<notin> ?D" "sid \<in> - ?D" using assms(4) by (simp_all add: jm_has_iff_get)
  have h: "honest k sid (rl_state r)" using truthfulD(1) [OF T d(1) assms(5)] by simp
  have lv: "jm_get (kn_live k) sid = None" if "\<not> has_run k sid True"
    using watchedD(4) [OF W d(2)] that by (cases "jm_get (kn_live k) sid") (auto simp: has_run_def)
  show ?thesis
  proof (cases "rl_state r")
    case Spawning
    then obtain run ru where g: "jm_get (kn_runs k) run = Some ru" "run_sid ru = sid" "ru_phase ru \<noteq> Pumping"
      using h by (auto simp: honest_def has_run_def)
    have one: "session_runs k sid = [(run, ru)]" by (rule session_runs_single [OF ok W d(2) g(1,2)])
    have "\<not> has_run k sid True"
      using watchedD(3) [OF W _ g(1)] g d(2) by (fastforce simp: has_run_def)
    then show ?thesis using Spawning one g(3) lv by auto
  next
    case Running
    then obtain run where l: "jm_get (kn_live k) sid = Some run" using h by (auto simp: honest_def jm_has_iff_get)
    then obtain ru where g: "jm_get (kn_runs k) run = Some ru" "run_sid ru = sid" "ru_phase ru = Pumping"
      using watchedD(4) [OF W d(2)] by blast
    show ?thesis using Running session_runs_single [OF ok W d(2) g(1,2)] g(3) l by auto
  next
    case Exited
    then show ?thesis using h lv session_runs_none [OF ok] by (auto simp: honest_def)
  qed (use h in \<open>simp_all add: honest_def\<close>)
qed

definition sample_config :: kernel_config where
  "sample_config = \<lparr>kc_profiles = [(''MAX_A'', sample_profile)], kc_baseEnv = [], kc_locate = (\<lambda>_ _ _. None), kc_parse = (\<lambda>_. None),
     kc_approvals = True, kc_ttl = None\<rparr>"

definition sample_launch :: launch_params where
  "sample_launch = \<lparr>lp_accountLabel = ''MAX_A'', lp_backend = ''claude_code'', lp_substrate = ''sdk'', lp_cwd = ''/w'', lp_purpose = ''p'',
     lp_workstreamHint = None, lp_prompt = Some ''go''\<rparr>"

definition call_at :: "string \<Rightarrow> kernel_op \<Rightarrow> registry \<times> string \<times> kernel_op" where
  "call_at ts op = (initial_registry, ts, op)"

definition sample_history :: "(registry \<times> string \<times> kernel_op) list" where
  "sample_history = [call_at ''t0'' (KLaunch ''ses_1'' sample_launch), call_at ''t1'' (KHook 0), call_at ''t2'' (KStarted 0 None None)]"

lemma sample_running:
  "map_option rl_state (jm_get (kn_ledger (kernel_run_ops sample_config [] sample_history)) ''ses_1'') = Some Running"
  by code_simp

theorem session_state_truth_witness:
  "\<exists>run ru. session_runs (kernel_run_ops sample_config [] sample_history) ''ses_1'' = [(run, ru)] \<and> ru_phase ru = Pumping"
proof -
  let ?k = "kernel_run_ops sample_config [] sample_history"
  obtain r where r: "jm_get (kn_ledger ?k) ''ses_1'' = Some r" "rl_state r = Running" using sample_running by auto
  have t: "ledger_table []" by (simp add: ledger_table_def jm_get_def)
  have p: "list_all proper_call sample_history"
    by (simp add: sample_history_def proper_call_def call_at_def good_op_def good_handle_def isBackend_def initial_registry_def
        BUILTIN_BACKEND_DESCRIPTORS_def jm_has_def)
  have n: "jm_get ([] :: ledger) ''ses_1'' = None" by (simp add: jm_get_def)
  show ?thesis using session_state_truth [OF t p refl n r(1)] r(2) by auto
qed

text \<open>Claim C9: the un-forked double resume is blocked. After any history in which no un-forked resume of
  a session is issued while a start of the same session is still awaited, no session has two runs at a time, and
  a session is live exactly when its one run has a handle; and at every moment an un-forked resume of a
  live session changes nothing.\<close>

theorem single_runner:
  assumes "ledger_table led" "no_overlaps cfg (createSessionKernel led) ops" "k = kernel_run_ops cfg led ops"
  shows "length (session_runs k sid) \<le> 1
    \<and> (jm_get (kn_live k) sid = Some run \<longleftrightarrow> (\<exists>ru. session_runs k sid = [(run, ru)] \<and> ru_phase ru = Pumping))
    \<and> (\<not> jm_has (kn_live k) sid \<or> snd (resume cfg reg ts k newid sid prompt False probe readf) = k)"
proof -
  have W: "watched UNIV k" and ok: "jm_ok (kn_runs k)"
    using kernel_watched [OF assms(1,2)] kernel_basics(3) [OF assms(1), of cfg ops] assms(3) by simp_all
  have one: "session_runs k sid = [(a, ra)]" if "jm_get (kn_runs k) a = Some ra" "run_sid ra = sid" for a ra
    using session_runs_single [OF ok W _ that] by simp
  have mem: "jm_get (kn_runs k) a = Some ra \<and> run_sid ra = sid" if "(a, ra) \<in> set (session_runs k sid)" for a ra
    using that in_set_jm_get [OF ok] by (auto simp: session_runs_def)
  have "length (session_runs k sid) \<le> 1"
  proof (cases "session_runs k sid")
    case (Cons x xs)
    then have "jm_get (kn_runs k) (fst x) = Some (snd x) \<and> run_sid (snd x) = sid" using mem [of "fst x" "snd x"] by simp
    then show ?thesis using one by auto
  qed simp
  moreover have "jm_get (kn_live k) sid = Some run \<longleftrightarrow> (\<exists>ru. session_runs k sid = [(run, ru)] \<and> ru_phase ru = Pumping)"
    using watchedD(4) [OF W UNIV_I, of sid run] one mem by fastforce
  moreover have "snd (resume cfg reg ts k newid sid prompt False probe readf) = k" if "jm_has (kn_live k) sid"
    using that by (simp add: resume_def split: sum.split option.split)
  ultimately show ?thesis by blast
qed

theorem single_runner_witness:
  "length (session_runs (kernel_run_ops sample_config [] sample_history) ''ses_1'') \<le> 1"
proof -
  have t: "ledger_table []" by (simp add: ledger_table_def jm_get_def)
  have n: "no_overlaps sample_config (createSessionKernel []) sample_history"
    by (simp add: sample_history_def call_at_def no_overlap_def)
  show ?thesis using single_runner [OF t n refl] by blast
qed

text \<open>Claim C10: row before spawn. Whatever step hands specifications to the runner, after any history, each
  of them belongs to a row the ledger already held before that step: same session and directory, and the
  sealed environment of the profile of the row's account; right after the call that row is \<open>spawning\<close> or
  \<open>resumed\<close>, so a crash at this point leaves a row the restart scan finds.\<close>

theorem row_before_spawn:
  assumes "ledger_table led" "list_all proper_call ops"
    and "k = kernel_run_ops cfg led ops" "k' = kernel_step cfg k (reg, ts, op)"
  shows "\<exists>specs. kn_spawned k' = kn_spawned k @ specs
    \<and> list_all (\<lambda>spec. \<exists>r r'. jm_get (kn_ledger k) (qs_sessionId spec) = Some r \<and> spec_of_row cfg spec r
         \<and> jm_get (kn_ledger k') (qs_sessionId spec) = Some r' \<and> (rl_state r' = Spawning \<or> rl_state r' = Resumed)) specs"
proof -
  let ?D = "{sid. jm_has led sid}"
  have tab: "ledger_table (kn_ledger k)" and B: "backed cfg ?D k" and T: "truthful ?D k" and W: "watched (- ?D) k"
    using kernel_basics [OF assms(1), of cfg ops] kernel_truth [OF assms(1,2), of cfg] assms(3) by simp_all
  show ?thesis using kernel_step_effect [OF tab, of cfg reg ts op, folded assms(4)]
  proof cases
    case (redriven newid sid prompt probe readf r led' r' spec)
    have c: "kn_ledger k' = led'" "kn_spawned k' = kn_spawned k @ [spec]" using redriven(7) by (simp_all add: core_of_def)
    have s: "qs_sessionId spec = sid" using redriven(5,6) by (simp add: spec_of_row_def)
    have g: "jm_get (kn_ledger k) sid = Some r" using redriven(3) by (simp add: dead_row_def)
    obtain r1 where "jm_get led' sid = Some r1" "rl_state r1 = Resumed"
      using redriven(4) by (auto elim!: transition_Inr simp: jm_get_set)
    then show ?thesis using g redriven(5) c s by (intro exI [of _ "[spec]"]) auto
  next
    case (go run ru)
    have c: "kn_ledger k' = kn_ledger k" "kn_spawned k' = kn_spawned k @ [ru_spec ru]" using go(4) by (simp_all add: core_of_def)
    obtain r where r: "jm_get (kn_ledger k) (run_sid ru) = Some r" "spec_of_row cfg (ru_spec ru) r" using backedD(1) [OF B go(1)] by blast
    have n: "run_sid ru \<notin> ?D" by (rule backedD(2) [OF B go(1,2)])
    have np: "ru_phase ru \<noteq> Pumping" using go(2) by simp
    obtain r0 where "jm_get (kn_ledger k) (run_sid ru) = Some r0" "rl_state r0 = Spawning"
      by (rule nonpumping_spawning [OF W T go(1) np n])
    then show ?thesis using r c by (intro exI [of _ "[ru_spec ru]"]) (auto simp: run_sid_def)
  qed (rule exI [of _ "[]"]; simp add: core_of_def)+
qed

theorem row_before_spawn_witness:
  "\<exists>specs. kn_spawned (kernel_step sample_config (kernel_run_ops sample_config [] (take 1 sample_history)) (call_at ''t1'' (KHook 0)))
      = kn_spawned (kernel_run_ops sample_config [] (take 1 sample_history)) @ specs
    \<and> list_all (\<lambda>spec. \<exists>r. jm_get (kn_ledger (kernel_run_ops sample_config [] (take 1 sample_history))) (qs_sessionId spec) = Some r
         \<and> spec_of_row sample_config spec r) specs"
proof -
  have t: "ledger_table []" by (simp add: ledger_table_def jm_get_def)
  have p: "list_all proper_call (take 1 sample_history)"
    by (simp add: sample_history_def proper_call_def call_at_def good_op_def isBackend_def initial_registry_def
        BUILTIN_BACKEND_DESCRIPTORS_def jm_has_def)
  show ?thesis using row_before_spawn [OF t p refl refl, of sample_config initial_registry "''t1''" "KHook 0"]
    unfolding call_at_def by (elim exE conjE, intro exI conjI) (auto simp: list_all_iff)
qed

lemma shutting_mono: "kn_shuttingDown k \<Longrightarrow> kn_shuttingDown (kernel_step cfg k (reg, ts, op))"
  by (cases op) (auto simp: kernel_step_def as_call_def launch_def resume_def after_hook_def start_failed_def start_done_def
    pump_message_def pump_end_def session_ended_def settle_repaired_def kernel_abort_def kernel_shutdown_def drop_run_def Let_def
    split: option.splits sum.splits runner_message.splits list.splits)

lemma shutting_no_spawn:
  assumes "ledger_table (kn_ledger k)" "kn_shuttingDown k"
  shows "kn_spawned (kernel_step cfg k (reg, ts, op)) = kn_spawned k"
  using kernel_step_effect [OF assms(1), of cfg reg ts op] by (cases rule: kernel_effect.cases) (use assms(2) in \<open>simp_all add: core_of_def\<close>)

text \<open>Claim C12: shutdown. Once \<open>shutdown\<close> was called, every session that was live is aborted and no
  specification is ever handed to the runner again, also not for the rows whose spawn was on its way.\<close>

theorem shutdown_stops_spawning:
  assumes "ledger_table led"
  shows "set (jm_values (kn_live (kernel_run_ops cfg led (ops @ [(reg, ts, KShutdown)]))))
      \<subseteq> set (kn_aborted (kernel_run_ops cfg led (ops @ [(reg, ts, KShutdown)])))
    \<and> kn_spawned (kernel_run_ops cfg led (ops @ [(reg, ts, KShutdown)] @ later)) = kn_spawned (kernel_run_ops cfg led ops)"
proof -
  have sd: "kernel_run_ops cfg led (ops @ [(reg, ts, KShutdown)]) = kernel_shutdown (kernel_run_ops cfg led ops)"
    by (simp add: kernel_run_ops_def kernel_step_def)
  have "kn_shuttingDown (kernel_run_ops cfg led (ops @ [(reg, ts, KShutdown)] @ later))
      \<and> kn_spawned (kernel_run_ops cfg led (ops @ [(reg, ts, KShutdown)] @ later)) = kn_spawned (kernel_run_ops cfg led ops)"
  proof (induction later rule: rev_induct)
    case Nil
    then show ?case using sd by (simp add: kernel_shutdown_def)
  next
    case (snoc c later)
    obtain g u op where c: "c = (g, u, op)" by (cases c)
    let ?k = "kernel_run_ops cfg led (ops @ [(reg, ts, KShutdown)] @ later)"
    have st: "kernel_run_ops cfg led (ops @ [(reg, ts, KShutdown)] @ later @ [c]) = kernel_step cfg ?k (g, u, op)"
      by (simp add: kernel_run_ops_def c)
    show ?case unfolding st using snoc shutting_mono [of ?k cfg g u op] shutting_no_spawn [OF kernel_basics(1) [OF assms], of cfg _ cfg g u op]
      by auto
  qed
  then show ?thesis unfolding sd by (simp add: kernel_shutdown_def)
qed

theorem shutdown_stops_spawning_witness:
  "kn_spawned (kernel_run_ops sample_config [] (take 1 sample_history @ [call_at ''t1'' KShutdown] @ [call_at ''t2'' (KHook 0)]))
     = kn_spawned (kernel_run_ops sample_config [] (take 1 sample_history))"
proof -
  have t: "ledger_table []" by (simp add: ledger_table_def jm_get_def)
  show ?thesis unfolding call_at_def using shutdown_stops_spawning [OF t] by blast
qed

section \<open>Two histories\<close>

text \<open>The end of a session supersedes its approvals.\<close>

lemma session_end_supersedes:
  assumes "kc_approvals cfg" "jm_get (kn_runs k) run = Some ru" "ru_phase ru = Pumping" "broker_inv (kn_broker k)"
  shows "\<forall>e \<in> set (jm_values (br_pending (kn_broker (pump_end cfg reg ts k run)))). ar_sessionId (pe_request e) \<noteq> Some (run_sid ru)"
proof -
  let ?b = "kn_broker k"
  let ?es = "filter (\<lambda>e. ar_sessionId (pe_request e) = Some (run_sid ru)) (jm_values (br_pending ?b))"
  have b: "kn_broker (pump_end cfg reg ts k run) = supersede_all ?b ?es"
    using assms(1-3) by (simp add: pump_end_def session_ended_def drop_run_def Let_def broker_supersedeSession_def run_sid_def)
  have id: "ar_approvalId (pe_request e) = aid" if "(aid, e) \<in> set (br_pending ?b)" for aid e
    using broker_invD(4) [OF assms(4) in_set_jm_get [OF broker_invD(1) [OF assms(4)] that]] .
  show ?thesis unfolding b supersede_all_fields jm_values_def using id by force
qed

definition old_row :: ledger_row where
  "old_row = \<lparr>rl_id = ''ses_0'', rl_accountLabel = ''MAX_A'', rl_backend = ''claude_code'', rl_cwd = ''/w'', rl_substrate = ''sdk'', rl_purpose = ''p'',
     rl_workstreamHint = None, rl_nativeSessionId = Some ''n'', rl_state = Resumed, rl_pid = None, rl_spawnNonce = None,
     rl_createdAtIso = ''t'', rl_updatedAtIso = ''t''\<rparr>"

definition resume_old :: kernel_op where
  "resume_old = KResume ''x'' ''ses_0'' (Some ''go'') False (\<lambda>_ _. False) (\<lambda>_. FileMissing)"

text \<open>While the start of an un-forked resume is awaited the session is not live yet, so a second
  un-forked resume of it passes and a second runner is started on the same native session.\<close>

lemma double_resume_window:
  "map qs_sessionId (kn_spawned (kernel_run_ops sample_config [(''ses_0'', old_row)] [call_at ''t1'' resume_old, call_at ''t2'' resume_old]))
     = [''ses_0'', ''ses_0'']"
  by code_simp

text \<open>A start that is awaited when \<open>shutdown\<close> is called becomes live afterwards and is not aborted.\<close>

lemma start_outlives_shutdown:
  "let k = kernel_run_ops sample_config [(''ses_0'', old_row)] [call_at ''t1'' resume_old, call_at ''t2'' KShutdown, call_at ''t3'' (KStarted 0 None None)]
   in jm_get (kn_live k) ''ses_0'' = Some 0 \<and> kn_aborted k = []"
  by code_simp

end
