(* ===== verification/Json_Text.thy ===== *)
theory Json_Text
  imports Dag
begin

text \<open>
  JSON texts. A database column that holds JSON text is the value the text parses to, or the raw string
  when it does not parse (\<open>json_text\<close>): \<open>JSON.stringify\<close> and \<open>JSON.parse\<close> are then the two directions,
  with the one loss the format has (a number that is not finite is written as \<open>null\<close>). Where the program
  builds strings out of values (prompt templates, the hash of a step's inputs) the text itself matters:
  \<open>json_str\<close> is \<open>JSON.stringify\<close> and \<open>js_string\<close> is \<open>String(v)\<close>, character by character. The decimal
  notation of a number that is not an integer below \<open>10 ^ 21\<close> is the parameter \<open>dec\<close>.
\<close>

section \<open>Columns\<close>

type_synonym json_text = "string + json"

fun json_norm :: "json \<Rightarrow> json" where
  "json_norm (JNum x) = (if is_finite_num x then JNum x else JNull)"
| "json_norm (JArr vs) = JArr (map json_norm vs)"
| "json_norm (JObj kvs) = JObj (map (\<lambda>(k, v). (k, json_norm v)) kvs)"
| "json_norm v = v"

definition JSON_stringify :: "json \<Rightarrow> json_text" where
  "JSON_stringify v = Inr (json_norm v)"

definition JSON_parse :: "json_text \<Rightarrow> json option" where
  "JSON_parse t = (case t of Inl _ \<Rightarrow> None | Inr v \<Rightarrow> Some v)"

definition blank_text :: "json_text \<Rightarrow> bool" where
  "blank_text t = (case t of Inl s \<Rightarrow> is_blank s | Inr _ \<Rightarrow> False)"

fun json_finite :: "json \<Rightarrow> bool" where
  "json_finite (JNum x) = is_finite_num x"
| "json_finite (JArr vs) = list_all json_finite vs"
| "json_finite (JObj kvs) = list_all (\<lambda>(k, v). json_finite v) kvs"
| "json_finite v = True"

lemma json_norm_finite: "json_finite v \<Longrightarrow> json_norm v = v"
proof (induction v rule: json_norm.induct)
  case (2 vs)
  then show ?case by (auto simp: list_all_iff intro: map_idI)
next
  case (3 kvs)
  have "(\<lambda>(k, v). (k, json_norm v)) kv = kv" if "kv \<in> set kvs" for kv
    using 3 that by (cases kv) (auto simp: list_all_iff)
  then show ?case by (simp add: map_idI)
qed auto

lemma json_norm_idem: "json_norm (json_norm v) = json_norm v"
proof (induction v rule: json_norm.induct)
  case (3 kvs)
  then show ?case by (force simp: comp_def)
qed (auto simp: is_finite_num_def)

lemma parse_stringify: "JSON_parse (JSON_stringify v) = Some (json_norm v)"
  by (simp add: JSON_parse_def JSON_stringify_def)

lemma parse_stringify_finite: "json_finite v \<Longrightarrow> JSON_parse (JSON_stringify v) = Some v"
  by (simp add: parse_stringify json_norm_finite)

lemma stringify_not_blank [simp]: "\<not> blank_text (JSON_stringify v)"
  by (simp add: blank_text_def JSON_stringify_def)

section \<open>Texts\<close>

fun join_with :: "string \<Rightarrow> string list \<Rightarrow> string" where
  "join_with sep [] = []"
| "join_with sep [s] = s"
| "join_with sep (s # t # ss) = s @ sep @ join_with sep (t # ss)"

definition hex_digit :: "nat \<Rightarrow> char" where
  "hex_digit n = (if n < 10 then char_of (48 + n) else char_of (87 + n))"

definition json_escape :: "char \<Rightarrow> string" where
  "json_escape c = (let n = of_char c :: nat in
     if n = 34 then [CHR 0x5C, CHR 0x22]
     else if n = 92 then [CHR 0x5C, CHR 0x5C]
     else if n = 8 then [CHR 0x5C, CHR ''b'']
     else if n = 9 then [CHR 0x5C, CHR ''t'']
     else if n = 10 then [CHR 0x5C, CHR ''n'']
     else if n = 12 then [CHR 0x5C, CHR ''f'']
     else if n = 13 then [CHR 0x5C, CHR ''r'']
     else if n < 32 then [CHR 0x5C, CHR ''u'', CHR ''0'', CHR ''0'', hex_digit (n div 16), hex_digit (n mod 16)]
     else [c])"

definition json_quote :: "string \<Rightarrow> string" where
  "json_quote s = [CHR 0x22] @ concat (map json_escape s) @ [CHR 0x22]"

definition int_str :: "int \<Rightarrow> string" where
  "int_str i = (if i < 0 then CHR ''-'' # nat_str (nat (- i)) else nat_str (nat i))"

definition rat_str :: "(rat \<Rightarrow> string) \<Rightarrow> rat \<Rightarrow> string" where
  "rat_str dec q = (if is_integer_rat q \<and> \<bar>q\<bar> < 10 ^ 21 then int_str \<lfloor>q\<rfloor> else dec q)"

fun num_str :: "(rat \<Rightarrow> string) \<Rightarrow> jsnum \<Rightarrow> string" where
  "num_str dec (Fin q) = rat_str dec q"
| "num_str dec PosInf = ''Infinity''"
| "num_str dec NegInf = ''-Infinity''"
| "num_str dec NaN = ''NaN''"

fun json_str :: "(rat \<Rightarrow> string) \<Rightarrow> json \<Rightarrow> string" where
  "json_str dec JNull = ''null''"
| "json_str dec (JBool b) = (if b then ''true'' else ''false'')"
| "json_str dec (JNum x) = (if is_finite_num x then num_str dec x else ''null'')"
| "json_str dec (JStr s) = json_quote s"
| "json_str dec (JArr vs) = ''['' @ join_with '','' (map (json_str dec) vs) @ '']''"
| "json_str dec (JObj kvs) =
    ''{'' @ join_with '','' (map (\<lambda>(k, v). json_quote k @ '':'' @ json_str dec v) kvs) @ ''}''"

text \<open>\<open>String(v)\<close>; an array joins its elements, where \<open>null\<close> is empty.\<close>

fun js_string :: "(rat \<Rightarrow> string) \<Rightarrow> json \<Rightarrow> string" where
  "js_string dec JNull = ''null''"
| "js_string dec (JBool b) = (if b then ''true'' else ''false'')"
| "js_string dec (JNum x) = num_str dec x"
| "js_string dec (JStr s) = s"
| "js_string dec (JArr vs) = join_with '','' (map (\<lambda>v. if v = JNull then [] else js_string dec v) vs)"
| "js_string dec (JObj kvs) = ''[object Object]''"

end
