(* ===== verification/Pipeline_Store.thy ===== *)
theory Pipeline_Store
  imports Json_Text
begin

text \<open>
  The pipeline tables of \<open>packages/schema/src/pipelines.ts\<close>: saved definitions, runs, and the step
  attempts that are the memoization journal. A table is a keyed store in insertion order. The constraints
  the database enforces itself (the primary keys and the unique index over run, step, iteration and attempt
  of migration 0009) are part of the operations; a violated one is \<open>JournalExists\<close> for the journal, whose
  insert translates every database error, and \<open>SqlFailure\<close> elsewhere. Run and step states outside the
  vocabulary are excluded by typing; account labels are decoded against the backend registry on every read.

  Shown: over any history of calls no row is lost, the identity columns of an attempt never change and no
  two attempts share their slot; what a lookup for a memoized attempt returns is the newest completed one.
\<close>

section \<open>Rows\<close>

datatype pipeline_run_state = RPending | RRunning | RPaused | RCompleted | RFailed | RCancelled

datatype pipeline_step_state = SPending | SBlocked | SRunning | SAwaitingApproval | SCompleted | SMemoized
  | SFailed | SSkipped | SCancelled

record definition_row =
  pd_id :: string
  pd_name :: string
  pd_documentJson :: json_text
  pd_schemaVersion :: nat
  pd_schemaHash :: string
  pd_createdAtMs :: nat
  pd_updatedAtMs :: nat

record new_definition =
  nd_id :: string
  nd_name :: string
  nd_documentJson :: json_text
  nd_schemaVersion :: jsnum
  nd_schemaHash :: string

record run_row =
  pr_id :: string
  pr_pipelineId :: string
  pr_schemaHash :: string
  pr_inputsJson :: "json_text option"
  pr_workstreamId :: "string option"
  pr_status :: pipeline_run_state
  pr_costEstimatedUsd :: "jsnum option"
  pr_startedAtMs :: "nat option"
  pr_finishedAtMs :: "nat option"
  pr_createdAtMs :: nat
  pr_updatedAtMs :: nat

record new_run =
  nr_id :: string
  nr_pipelineId :: string
  nr_schemaHash :: string
  nr_inputsJson :: "json_text option"
  nr_workstreamId :: "string option"
  nr_status :: "pipeline_run_state option"

record attempt_row =
  sa_id :: string
  sa_runId :: string
  sa_stepId :: string
  sa_iteration :: nat
  sa_attempt :: nat
  sa_inputHash :: string
  sa_status :: pipeline_step_state
  sa_sessionId :: "string option"
  sa_account :: "string option"
  sa_outputJson :: "json_text option"
  sa_costEstimatedUsd :: "jsnum option"
  sa_tokensIn :: "nat option"
  sa_tokensOut :: "nat option"
  sa_errorKind :: "string option"
  sa_startedAtMs :: "nat option"
  sa_finishedAtMs :: "nat option"
  sa_createdAtMs :: nat

record new_attempt =
  na_id :: string
  na_runId :: string
  na_stepId :: string
  na_iteration :: "jsnum option"
  na_attempt :: "jsnum option"
  na_inputHash :: string
  na_status :: "pipeline_step_state option"
  na_sessionId :: "string option"
  na_account :: "string option"

record attempt_result =
  ar_status :: pipeline_step_state
  ar_sessionId :: "string option"
  ar_account :: "string option"
  ar_outputJson :: "json_text option"
  ar_costEstimatedUsd :: "jsnum option"
  ar_tokensIn :: "jsnum option"
  ar_tokensOut :: "jsnum option"
  ar_errorKind :: "string option"
  ar_finishedAtMs :: "jsnum option"

record run_patch =
  rp_cost :: "jsnum option"
  rp_startedAtMs :: "jsnum option"
  rp_finishedAtMs :: "jsnum option"

record pipelines_db =
  db_definitions :: "(string, definition_row) jmap"
  db_runs :: "(string, run_row) jmap"
  db_attempts :: "(string, attempt_row) jmap"

datatype pipeline_store_error =
    PipelineNotFound string
  | PipelineRunNotFound string
  | AttemptNotFound string
  | BlankId
  | BlankName
  | IdentityShapedName
  | BadSchemaVersion
  | BlankDocument
  | BlankSchemaHash
  | AccountDecode
  | BlankStepId
  | BlankInputHash
  | NotNonNegInt
  | UnknownAccount
  | BadCost
  | JournalExists
  | SqlFailure

section \<open>Guards\<close>

definition requireNonBlankId :: "string \<Rightarrow> pipeline_store_error + unit" where
  "requireNonBlankId i = guard (\<not> is_blank i) BlankId"

definition label_char :: "char \<Rightarrow> bool" where
  "label_char c = (is_alpha c \<or> is_digit c \<or> c = CHR ''-'')"

text \<open>The screen of the events store: an address with a dotted domain, twelve digits in a row, or a token
  after a word boundary.\<close>

definition EVENTS_EMAIL_RE :: "string \<Rightarrow> bool" where
  "EVENTS_EMAIL_RE s = list_ex (\<lambda>i. email_local_char (s ! i) \<and> s ! (i + 1) = CHR ''@'' \<and>
     (let r = drop (i + 2) s in
      list_ex (\<lambda>n. list_all label_char (take n r) \<and> r ! n = CHR ''.'' \<and> label_char (r ! (n + 1)))
        [1..<length r - 1])) [0..<length s - 1]"

definition EVENTS_TWELVE_DIGIT_RE :: "string \<Rightarrow> bool" where
  "EVENTS_TWELVE_DIGIT_RE s = list_ex (\<lambda>i. list_all is_digit (take 12 (drop i s))) [0..<length s - 11]"

definition TOKEN_SHAPED_RE :: "string \<Rightarrow> bool" where
  "TOKEN_SHAPED_RE s = list_ex (\<lambda>i. (i = 0 \<or> \<not> (is_alpha (s ! (i - 1)) \<or> is_digit (s ! (i - 1)) \<or> s ! (i - 1) = CHR ''_''))
     \<and> take 3 (drop i s) = ''sk-'' \<and> list_all id_char (take 8 (drop (i + 3) s))) [0..<length s - 10]"

definition assertIdentityFreeColumn :: "string \<Rightarrow> bool" where
  "assertIdentityFreeColumn v = (\<not> EVENTS_EMAIL_RE v \<and> \<not> EVENTS_TWELVE_DIGIT_RE v \<and> \<not> TOKEN_SHAPED_RE v)"

definition screenName :: "string \<Rightarrow> pipeline_store_error + unit" where
  "screenName v = guard (assertIdentityFreeColumn v) IdentityShapedName"

definition nonNegInt :: "jsnum option \<Rightarrow> pipeline_store_error + nat option" where
  "nonNegInt v = opt_field v (\<lambda>x. of_option NotNonNegInt (as_safe_nat x))"

definition nonNegCost :: "jsnum option \<Rightarrow> pipeline_store_error + unit" where
  "nonNegCost v = guard (case v of None \<Rightarrow> True | Some (Fin q) \<Rightarrow> 0 \<le> q | Some _ \<Rightarrow> False) BadCost"

definition or_else :: "'a option \<Rightarrow> 'a option \<Rightarrow> 'a option" where
  "or_else x y = (case x of None \<Rightarrow> y | Some v \<Rightarrow> Some v)"

section \<open>Definitions\<close>

definition getDefinition :: "pipelines_db \<Rightarrow> string \<Rightarrow> pipeline_store_error + definition_row" where
  "getDefinition db i = of_option (PipelineNotFound i) (jm_get (db_definitions db) i)"

definition new_definition_row :: "nat \<Rightarrow> nat \<Rightarrow> nat \<Rightarrow> new_definition \<Rightarrow> definition_row" where
  "new_definition_row version created ts inp = \<lparr>pd_id = nd_id inp, pd_name = nd_name inp,
     pd_documentJson = nd_documentJson inp, pd_schemaVersion = version, pd_schemaHash = nd_schemaHash inp,
     pd_createdAtMs = created, pd_updatedAtMs = ts\<rparr>"

definition definitions_upsert :: "pipelines_db \<Rightarrow> nat \<Rightarrow> new_definition \<Rightarrow>
    pipeline_store_error + (pipelines_db \<times> definition_row)" where
  "definitions_upsert db ts inp =
    r_bind (requireNonBlankId (nd_id inp)) (\<lambda>_.
    r_bind (guard (\<not> is_blank (nd_name inp)) BlankName) (\<lambda>_.
    r_bind (screenName (nd_name inp)) (\<lambda>_.
    r_bind (of_option BadSchemaVersion
       (case as_safe_nat (nd_schemaVersion inp) of Some n \<Rightarrow> if 0 < n then Some n else None | None \<Rightarrow> None)) (\<lambda>version.
    r_bind (guard (\<not> blank_text (nd_documentJson inp)) BlankDocument) (\<lambda>_.
    r_bind (guard (\<not> is_blank (nd_schemaHash inp)) BlankSchemaHash) (\<lambda>_.
    let created = (case jm_get (db_definitions db) (nd_id inp) of None \<Rightarrow> ts | Some r \<Rightarrow> pd_createdAtMs r);
        db' = db\<lparr>db_definitions := jm_set (db_definitions db) (nd_id inp) (new_definition_row version created ts inp)\<rparr>
    in r_bind (getDefinition db' (nd_id inp)) (\<lambda>r. Inr (db', r))))))))"

definition definitions_get :: "pipelines_db \<Rightarrow> string \<Rightarrow> definition_row option" where
  "definitions_get db i = jm_get (db_definitions db) i"

definition int_cmp :: "nat \<Rightarrow> nat \<Rightarrow> int" where
  "int_cmp a b = int a - int b"

definition definitions_list :: "pipelines_db \<Rightarrow> definition_row list" where
  "definitions_list db = js_sort (\<lambda>r s. then_cmp (int_cmp (pd_createdAtMs r) (pd_createdAtMs s))
     (str_cmp (pd_id r) (pd_id s))) (jm_values (db_definitions db))"

section \<open>Runs\<close>

definition getRun :: "pipelines_db \<Rightarrow> string \<Rightarrow> pipeline_store_error + run_row" where
  "getRun db i = of_option (PipelineRunNotFound i) (jm_get (db_runs db) i)"

definition new_run_row :: "nat \<Rightarrow> new_run \<Rightarrow> run_row" where
  "new_run_row ts inp = \<lparr>pr_id = nr_id inp, pr_pipelineId = nr_pipelineId inp, pr_schemaHash = nr_schemaHash inp,
     pr_inputsJson = nr_inputsJson inp, pr_workstreamId = nr_workstreamId inp,
     pr_status = (case nr_status inp of None \<Rightarrow> RPending | Some st \<Rightarrow> st),
     pr_costEstimatedUsd = None, pr_startedAtMs = None, pr_finishedAtMs = None,
     pr_createdAtMs = ts, pr_updatedAtMs = ts\<rparr>"

definition runs_insert :: "pipelines_db \<Rightarrow> nat \<Rightarrow> new_run \<Rightarrow> pipeline_store_error + (pipelines_db \<times> run_row)" where
  "runs_insert db ts inp =
    r_bind (requireNonBlankId (nr_id inp)) (\<lambda>_.
    r_bind (getDefinition db (nr_pipelineId inp)) (\<lambda>_.
    r_bind (guard (\<not> is_blank (nr_schemaHash inp)) BlankSchemaHash) (\<lambda>_.
    r_bind (guard (\<not> jm_has (db_runs db) (nr_id inp)) SqlFailure) (\<lambda>_.
    let db' = db\<lparr>db_runs := jm_set (db_runs db) (nr_id inp) (new_run_row ts inp)\<rparr>
    in r_bind (getRun db' (nr_id inp)) (\<lambda>r. Inr (db', r))))))"

definition runs_get :: "pipelines_db \<Rightarrow> string \<Rightarrow> run_row option" where
  "runs_get db i = jm_get (db_runs db) i"

definition runs_list :: "pipelines_db \<Rightarrow> string option \<Rightarrow> pipeline_run_state list option \<Rightarrow> run_row list" where
  "runs_list db pipelineId statuses =
    js_sort (\<lambda>r s. then_cmp (int_cmp (pr_createdAtMs r) (pr_createdAtMs s)) (str_cmp (pr_id r) (pr_id s)))
      (filter (\<lambda>r. (case pipelineId of None \<Rightarrow> True | Some p \<Rightarrow> pr_pipelineId r = p) \<and>
         (case statuses of None \<Rightarrow> True | Some sts \<Rightarrow> sts = [] \<or> pr_status r \<in> set sts)) (jm_values (db_runs db)))"

definition runs_setStatus :: "pipelines_db \<Rightarrow> nat \<Rightarrow> string \<Rightarrow> pipeline_run_state \<Rightarrow> run_patch \<Rightarrow>
    pipeline_store_error + (pipelines_db \<times> run_row)" where
  "runs_setStatus db ts i status patch =
    r_bind (getRun db i) (\<lambda>current.
    r_bind (nonNegInt (rp_startedAtMs patch)) (\<lambda>started.
    r_bind (nonNegInt (rp_finishedAtMs patch)) (\<lambda>finished.
    r_bind (nonNegCost (rp_cost patch)) (\<lambda>_.
    let db' = db\<lparr>db_runs := jm_set (db_runs db) i (current\<lparr>pr_status := status,
          pr_costEstimatedUsd := or_else (rp_cost patch) (pr_costEstimatedUsd current),
          pr_startedAtMs := or_else started (pr_startedAtMs current),
          pr_finishedAtMs := or_else finished (pr_finishedAtMs current),
          pr_updatedAtMs := ts\<rparr>)\<rparr>
    in r_bind (getRun db' i) (\<lambda>r. Inr (db', r))))))"

section \<open>Step attempts\<close>

definition attemptFromSql :: "registry \<Rightarrow> attempt_row \<Rightarrow> pipeline_store_error + attempt_row" where
  "attemptFromSql reg r =
    (if (case sa_account r of None \<Rightarrow> True | Some a \<Rightarrow> isAccountLabel reg a) then Inr r else Inl AccountDecode)"

definition getAttempt :: "registry \<Rightarrow> pipelines_db \<Rightarrow> string \<Rightarrow> pipeline_store_error + attempt_row" where
  "getAttempt reg db i = r_bind (of_option (AttemptNotFound i) (jm_get (db_attempts db) i)) (attemptFromSql reg)"

definition slot_of :: "attempt_row \<Rightarrow> string \<times> string \<times> nat \<times> nat" where
  "slot_of r = (sa_runId r, sa_stepId r, sa_iteration r, sa_attempt r)"

definition new_attempt_row :: "nat \<Rightarrow> nat \<Rightarrow> nat \<Rightarrow> new_attempt \<Rightarrow> attempt_row" where
  "new_attempt_row iteration attempt ts inp =
    (let status = (case na_status inp of None \<Rightarrow> SPending | Some st \<Rightarrow> st)
     in \<lparr>sa_id = na_id inp, sa_runId = na_runId inp, sa_stepId = na_stepId inp, sa_iteration = iteration,
         sa_attempt = attempt, sa_inputHash = na_inputHash inp, sa_status = status,
         sa_sessionId = na_sessionId inp, sa_account = na_account inp, sa_outputJson = None,
         sa_costEstimatedUsd = None, sa_tokensIn = None, sa_tokensOut = None, sa_errorKind = None,
         sa_startedAtMs = (if status = SRunning then Some ts else None), sa_finishedAtMs = None,
         sa_createdAtMs = ts\<rparr>)"

definition attempt_constraints :: "pipelines_db \<Rightarrow> attempt_row \<Rightarrow> bool" where
  "attempt_constraints db r = (\<not> jm_has (db_attempts db) (sa_id r)
     \<and> \<not> list_ex (\<lambda>r'. slot_of r' = slot_of r) (jm_values (db_attempts db))
     \<and> sa_account r \<noteq> Some [])"

definition attempts_record :: "registry \<Rightarrow> pipelines_db \<Rightarrow> nat \<Rightarrow> new_attempt \<Rightarrow>
    pipeline_store_error + (pipelines_db \<times> attempt_row)" where
  "attempts_record reg db ts inp =
    r_bind (requireNonBlankId (na_id inp)) (\<lambda>_.
    r_bind (getRun db (na_runId inp)) (\<lambda>_.
    r_bind (guard (\<not> is_blank (na_stepId inp)) BlankStepId) (\<lambda>_.
    r_bind (guard (\<not> is_blank (na_inputHash inp)) BlankInputHash) (\<lambda>_.
    r_bind (nonNegInt (na_iteration inp)) (\<lambda>iteration.
    r_bind (nonNegInt (na_attempt inp)) (\<lambda>attempt.
    r_bind (guard (case na_account inp of None \<Rightarrow> True | Some a \<Rightarrow> isAccountLabel reg a) UnknownAccount) (\<lambda>_.
    let row = new_attempt_row (case iteration of None \<Rightarrow> 0 | Some n \<Rightarrow> n)
                (case attempt of None \<Rightarrow> 0 | Some n \<Rightarrow> n) ts inp;
        db' = db\<lparr>db_attempts := jm_set (db_attempts db) (na_id inp) row\<rparr>
    in r_bind (guard (attempt_constraints db row) JournalExists) (\<lambda>_.
       r_bind (getAttempt reg db' (na_id inp)) (\<lambda>r. Inr (db', r)))))))))) "

definition completed_row :: "attempt_row \<Rightarrow> nat \<Rightarrow> attempt_result \<Rightarrow> nat option \<Rightarrow> nat option \<Rightarrow> nat option \<Rightarrow> attempt_row" where
  "completed_row current ts result tin tout fin = current\<lparr>sa_status := ar_status result,
     sa_sessionId := or_else (ar_sessionId result) (sa_sessionId current),
     sa_account := or_else (ar_account result) (sa_account current),
     sa_outputJson := or_else (ar_outputJson result) (sa_outputJson current),
     sa_costEstimatedUsd := or_else (ar_costEstimatedUsd result) (sa_costEstimatedUsd current),
     sa_tokensIn := or_else tin (sa_tokensIn current),
     sa_tokensOut := or_else tout (sa_tokensOut current),
     sa_errorKind := or_else (ar_errorKind result) (sa_errorKind current),
     sa_finishedAtMs := or_else fin (or_else (sa_finishedAtMs current) (Some ts))\<rparr>"

definition attempts_complete :: "registry \<Rightarrow> pipelines_db \<Rightarrow> nat \<Rightarrow> string \<Rightarrow> attempt_result \<Rightarrow>
    pipeline_store_error + (pipelines_db \<times> attempt_row)" where
  "attempts_complete reg db ts i result =
    r_bind (getAttempt reg db i) (\<lambda>current.
    r_bind (guard (case ar_account result of None \<Rightarrow> True | Some a \<Rightarrow> isAccountLabel reg a) UnknownAccount) (\<lambda>_.
    r_bind (nonNegInt (ar_tokensIn result)) (\<lambda>tin.
    r_bind (nonNegInt (ar_tokensOut result)) (\<lambda>tout.
    r_bind (nonNegInt (ar_finishedAtMs result)) (\<lambda>fin.
    r_bind (nonNegCost (ar_costEstimatedUsd result)) (\<lambda>_.
    let row = completed_row current ts result tin tout fin;
        db' = db\<lparr>db_attempts := jm_set (db_attempts db) i row\<rparr>
    in r_bind (guard (sa_account row \<noteq> Some []) SqlFailure) (\<lambda>_.
       r_bind (getAttempt reg db' i) (\<lambda>r. Inr (db', r)))))))))"

definition attempts_get :: "registry \<Rightarrow> pipelines_db \<Rightarrow> string \<Rightarrow> pipeline_store_error + attempt_row option" where
  "attempts_get reg db i = (case jm_get (db_attempts db) i of
     None \<Rightarrow> Inr None | Some r \<Rightarrow> r_bind (attemptFromSql reg r) (\<lambda>r. Inr (Some r)))"

definition COMPLETED_STATES :: "pipeline_step_state list" where
  "COMPLETED_STATES = [SCompleted, SMemoized]"

definition memo_rows :: "pipelines_db \<Rightarrow> string \<Rightarrow> string \<Rightarrow> nat \<Rightarrow> string \<Rightarrow> attempt_row list" where
  "memo_rows db runId stepId iteration inputHash = filter (\<lambda>r. sa_runId r = runId \<and> sa_stepId r = stepId
     \<and> sa_iteration r = iteration \<and> sa_inputHash r = inputHash \<and> sa_status r \<in> set COMPLETED_STATES)
     (jm_values (db_attempts db))"

definition newest_cmp :: "attempt_row \<Rightarrow> attempt_row \<Rightarrow> int" where
  "newest_cmp r s = then_cmp (int_cmp (sa_attempt s) (sa_attempt r)) (int_cmp (sa_createdAtMs s) (sa_createdAtMs r))"

definition findMemoized :: "registry \<Rightarrow> pipelines_db \<Rightarrow> string \<Rightarrow> string \<Rightarrow> nat \<Rightarrow> string \<Rightarrow>
    pipeline_store_error + attempt_row option" where
  "findMemoized reg db runId stepId iteration inputHash =
    (case js_sort newest_cmp (memo_rows db runId stepId iteration inputHash) of
       [] \<Rightarrow> Inr None
     | r # _ \<Rightarrow> r_bind (attemptFromSql reg r) (\<lambda>r. Inr (Some r)))"

primrec decode_attempts :: "registry \<Rightarrow> attempt_row list \<Rightarrow> pipeline_store_error + attempt_row list" where
  "decode_attempts reg [] = Inr []"
| "decode_attempts reg (r # rs) =
    r_bind (attemptFromSql reg r) (\<lambda>r. r_bind (decode_attempts reg rs) (\<lambda>rs. Inr (r # rs)))"

definition run_order :: "attempt_row \<Rightarrow> attempt_row \<Rightarrow> int" where
  "run_order r s = then_cmp (int_cmp (sa_createdAtMs r) (sa_createdAtMs s))
     (then_cmp (int_cmp (sa_iteration r) (sa_iteration s))
     (then_cmp (int_cmp (sa_attempt r) (sa_attempt s)) (str_cmp (sa_id r) (sa_id s))))"

definition listByRun :: "registry \<Rightarrow> pipelines_db \<Rightarrow> string \<Rightarrow> pipeline_store_error + attempt_row list" where
  "listByRun reg db runId =
    decode_attempts reg (js_sort run_order (filter (\<lambda>r. sa_runId r = runId) (jm_values (db_attempts db))))"

section \<open>What a successful call writes\<close>

lemmas store_iffs = r_bind_Inr guard_Inr opt_field_Inr of_option_Inr

lemma getAttempt_Inr: "getAttempt reg db i = Inr r \<longleftrightarrow> jm_get (db_attempts db) i = Some r \<and> attemptFromSql reg r = Inr r"
  by (auto simp: getAttempt_def store_iffs attemptFromSql_def split: if_splits option.splits)

lemma upsert_Inr:
  assumes "definitions_upsert db ts inp = Inr (db', r)"
  obtains version where
    "r = new_definition_row version (case jm_get (db_definitions db) (nd_id inp) of None \<Rightarrow> ts | Some r \<Rightarrow> pd_createdAtMs r) ts inp"
    "db' = db\<lparr>db_definitions := jm_set (db_definitions db) (nd_id inp) r\<rparr>" "\<not> is_blank (nd_id inp)" "0 < version"
  using assms
  by (auto simp: definitions_upsert_def Let_def store_iffs getDefinition_def jm_get_set requireNonBlankId_def
      split: option.splits if_splits)

lemma run_insert_Inr:
  assumes "runs_insert db ts inp = Inr (db', r)"
  shows "jm_get (db_runs db) (nr_id inp) = None" "r = new_run_row ts inp" "\<not> is_blank (nr_id inp)"
    "db' = db\<lparr>db_runs := jm_set (db_runs db) (nr_id inp) r\<rparr>" "jm_get (db_definitions db) (nr_pipelineId inp) \<noteq> None"
  using assms
  by (auto simp: runs_insert_def Let_def store_iffs getRun_def getDefinition_def jm_get_set jm_has_iff_get requireNonBlankId_def)

lemma setStatus_Inr:
  assumes "runs_setStatus db ts i status patch = Inr (db', r)"
  obtains r0 started finished where "jm_get (db_runs db) i = Some r0"
    "nonNegInt (rp_startedAtMs patch) = Inr started" "nonNegInt (rp_finishedAtMs patch) = Inr finished"
    "r = r0\<lparr>pr_status := status, pr_costEstimatedUsd := or_else (rp_cost patch) (pr_costEstimatedUsd r0),
       pr_startedAtMs := or_else started (pr_startedAtMs r0),
       pr_finishedAtMs := or_else finished (pr_finishedAtMs r0), pr_updatedAtMs := ts\<rparr>"
    "db' = db\<lparr>db_runs := jm_set (db_runs db) i r\<rparr>"
  using assms
  by (auto simp: runs_setStatus_def Let_def store_iffs getRun_def jm_get_set)

lemma record_Inr:
  assumes "attempts_record reg db ts inp = Inr (db', r)"
  obtains iteration attempt where "nonNegInt (na_iteration inp) = Inr iteration" "nonNegInt (na_attempt inp) = Inr attempt"
    "r = new_attempt_row (case iteration of None \<Rightarrow> 0 | Some n \<Rightarrow> n) (case attempt of None \<Rightarrow> 0 | Some n \<Rightarrow> n) ts inp"
    "db' = db\<lparr>db_attempts := jm_set (db_attempts db) (na_id inp) r\<rparr>"
    "attempt_constraints db r" "jm_get (db_runs db) (na_runId inp) \<noteq> None" "attemptFromSql reg r = Inr r"
  using assms
  by (auto simp: attempts_record_def Let_def store_iffs getRun_def getAttempt_Inr jm_get_set)

lemma complete_Inr:
  assumes "attempts_complete reg db ts i result = Inr (db', r)"
  obtains r0 tin tout fin where "jm_get (db_attempts db) i = Some r0" "r = completed_row r0 ts result tin tout fin"
    "db' = db\<lparr>db_attempts := jm_set (db_attempts db) i r\<rparr>" "attemptFromSql reg r = Inr r"
  using assms
  by (auto simp: attempts_complete_def Let_def store_iffs getAttempt_Inr jm_get_set)

section \<open>Histories\<close>

datatype store_op =
    UpsertDefinition new_definition
  | InsertRun new_run
  | SetRunStatus string pipeline_run_state run_patch
  | RecordAttempt new_attempt
  | CompleteAttempt string attempt_result

text \<open>One call with the registry and the clock of its moment; a call that throws changes nothing.\<close>

definition store_call :: "pipelines_db \<Rightarrow> registry \<times> nat \<times> store_op \<Rightarrow> pipeline_store_error + pipelines_db" where
  "store_call db c = (case c of (reg, ts, op) \<Rightarrow> (case op of
     UpsertDefinition inp \<Rightarrow> r_bind (definitions_upsert db ts inp) (\<lambda>x. Inr (fst x))
   | InsertRun inp \<Rightarrow> r_bind (runs_insert db ts inp) (\<lambda>x. Inr (fst x))
   | SetRunStatus i status patch \<Rightarrow> r_bind (runs_setStatus db ts i status patch) (\<lambda>x. Inr (fst x))
   | RecordAttempt inp \<Rightarrow> r_bind (attempts_record reg db ts inp) (\<lambda>x. Inr (fst x))
   | CompleteAttempt i result \<Rightarrow> r_bind (attempts_complete reg db ts i result) (\<lambda>x. Inr (fst x))))"

definition store_step :: "pipelines_db \<Rightarrow> registry \<times> nat \<times> store_op \<Rightarrow> pipelines_db" where
  "store_step db c = (case store_call db c of Inl _ \<Rightarrow> db | Inr db' \<Rightarrow> db')"

definition attempt_identity :: "attempt_row \<Rightarrow> string list \<times> nat list" where
  "attempt_identity r = ([sa_id r, sa_runId r, sa_stepId r, sa_inputHash r],
     [sa_iteration r, sa_attempt r, sa_createdAtMs r])"

definition run_identity :: "run_row \<Rightarrow> string list \<times> json_text option \<times> string option \<times> nat" where
  "run_identity r = ([pr_id r, pr_pipelineId r, pr_schemaHash r], pr_inputsJson r, pr_workstreamId r, pr_createdAtMs r)"

definition db_ok :: "pipelines_db \<Rightarrow> bool" where
  "db_ok db \<longleftrightarrow> jm_ok (db_attempts db)
     \<and> (\<forall>i r. jm_get (db_attempts db) i = Some r \<longrightarrow> sa_id r = i \<and> jm_get (db_runs db) (sa_runId r) \<noteq> None)
     \<and> (\<forall>i r i' r'. jm_get (db_attempts db) i = Some r \<longrightarrow> jm_get (db_attempts db) i' = Some r' \<longrightarrow>
          slot_of r = slot_of r' \<longrightarrow> i = i')
     \<and> (\<forall>i r. jm_get (db_runs db) i = Some r \<longrightarrow> pr_id r = i \<and> jm_get (db_definitions db) (pr_pipelineId r) \<noteq> None)"

definition db_le :: "pipelines_db \<Rightarrow> pipelines_db \<Rightarrow> bool" where
  "db_le db db' \<longleftrightarrow>
     (\<forall>i r. jm_get (db_attempts db) i = Some r \<longrightarrow>
        (\<exists>r'. jm_get (db_attempts db') i = Some r' \<and> attempt_identity r' = attempt_identity r))
     \<and> (\<forall>i r. jm_get (db_runs db) i = Some r \<longrightarrow>
        (\<exists>r'. jm_get (db_runs db') i = Some r' \<and> run_identity r' = run_identity r))
     \<and> (\<forall>i r. jm_get (db_definitions db) i = Some r \<longrightarrow>
        (\<exists>r'. jm_get (db_definitions db') i = Some r' \<and> pd_createdAtMs r' = pd_createdAtMs r))"

lemma db_le_refl: "db_le db db"
  by (simp add: db_le_def)

lemma db_le_trans: "db_le a b \<Longrightarrow> db_le b c \<Longrightarrow> db_le a c"
  unfolding db_le_def by (intro conjI allI impI) metis+

text \<open>The effect of a successful call, one table at a time.\<close>

lemma store_call_cases:
  assumes "store_call db (reg, ts, op) = Inr db'"
  obtains (definition_written) i r where "db' = db\<lparr>db_definitions := jm_set (db_definitions db) i r\<rparr>"
      "\<And>r0. jm_get (db_definitions db) i = Some r0 \<Longrightarrow> pd_createdAtMs r = pd_createdAtMs r0"
  | (run_inserted) r where "db' = db\<lparr>db_runs := jm_set (db_runs db) (pr_id r) r\<rparr>" "jm_get (db_runs db) (pr_id r) = None"
      "jm_get (db_definitions db) (pr_pipelineId r) \<noteq> None"
  | (run_updated) i r0 r where "db' = db\<lparr>db_runs := jm_set (db_runs db) i r\<rparr>" "jm_get (db_runs db) i = Some r0"
      "run_identity r = run_identity r0"
  | (attempt_inserted) r where "db' = db\<lparr>db_attempts := jm_set (db_attempts db) (sa_id r) r\<rparr>"
      "attempt_constraints db r" "jm_get (db_runs db) (sa_runId r) \<noteq> None"
  | (attempt_updated) i r0 r where "db' = db\<lparr>db_attempts := jm_set (db_attempts db) i r\<rparr>"
      "jm_get (db_attempts db) i = Some r0" "attempt_identity r = attempt_identity r0"
proof (cases op)
  case (UpsertDefinition inp)
  then obtain r where "definitions_upsert db ts inp = Inr (db', r)"
    using assms by (auto simp: store_call_def r_bind_Inr)
  then show ?thesis by (rule upsert_Inr) (rule definition_written, auto simp: new_definition_row_def)
next
  case (InsertRun inp)
  then obtain r where r: "runs_insert db ts inp = Inr (db', r)"
    using assms by (auto simp: store_call_def r_bind_Inr)
  note w = run_insert_Inr [OF r]
  have "pr_id r = nr_id inp" "pr_pipelineId r = nr_pipelineId inp" using w(2) by (simp_all add: new_run_row_def)
  then show ?thesis using w(1,4,5) by (intro run_inserted [of r]) simp_all
next
  case (SetRunStatus i status patch)
  then obtain r where "runs_setStatus db ts i status patch = Inr (db', r)"
    using assms by (auto simp: store_call_def r_bind_Inr)
  then show ?thesis by (rule setStatus_Inr) (rule run_updated [of i r], auto simp: run_identity_def)
next
  case (RecordAttempt inp)
  then obtain r where r: "attempts_record reg db ts inp = Inr (db', r)"
    using assms by (auto simp: store_call_def r_bind_Inr)
  then show ?thesis
    by (rule record_Inr) (rule attempt_inserted [of r], auto simp: new_attempt_row_def Let_def)
next
  case (CompleteAttempt i result)
  then obtain r where "attempts_complete reg db ts i result = Inr (db', r)"
    using assms by (auto simp: store_call_def r_bind_Inr)
  then show ?thesis
    by (rule complete_Inr) (rule attempt_updated [of i r], auto simp: completed_row_def attempt_identity_def)
qed

lemma slot_of_identity: "attempt_identity r = attempt_identity r' \<Longrightarrow> slot_of r = slot_of r'"
  by (simp add: attempt_identity_def slot_of_def)

lemma constraints_slot_free:
  assumes "attempt_constraints db r" "jm_get (db_attempts db) i = Some r'"
  shows "slot_of r' \<noteq> slot_of r" "i \<noteq> sa_id r"
proof -
  have "r' \<in> set (jm_values (db_attempts db))"
    using jm_get_in_set [OF assms(2)] by (force simp: jm_values_def)
  then show "slot_of r' \<noteq> slot_of r" using assms(1) by (auto simp: attempt_constraints_def list_ex_iff)
  show "i \<noteq> sa_id r" using assms by (auto simp: attempt_constraints_def jm_has_iff_get)
qed

lemma store_call_ok: "db_ok db \<Longrightarrow> store_call db (reg, ts, op) = Inr db' \<Longrightarrow> db_ok db'"
proof (erule store_call_cases, goal_cases)
  case (1 i r)
  then show ?case by (auto simp: db_ok_def jm_get_set)
next
  case (2 r)
  then show ?case by (auto simp: db_ok_def jm_get_set)
next
  case (3 i r0 r)
  then have "pr_id r = i" "pr_pipelineId r = pr_pipelineId r0" by (auto simp: run_identity_def db_ok_def)
  then show ?case using 3 by (auto simp: db_ok_def jm_get_set)
next
  case (4 r)
  note free = constraints_slot_free [OF 4(3)]
  show ?case using 4 free by (auto simp: db_ok_def jm_get_set) metis
next
  case (5 i r0 r)
  then have "sa_id r = i" "sa_runId r = sa_runId r0" "slot_of r = slot_of r0"
    using slot_of_identity [OF 5(4)] by (auto simp: attempt_identity_def db_ok_def)
  then show ?case using 5 by (auto simp: db_ok_def jm_get_set)
qed

lemma store_call_le: "store_call db (reg, ts, op) = Inr db' \<Longrightarrow> db_le db db'"
proof (erule store_call_cases, goal_cases)
  case (4 r)
  then show ?case using constraints_slot_free(2) [OF 4(2)] by (auto simp: db_le_def jm_get_set)
qed (auto simp: db_le_def jm_get_set)

lemma store_step_inv: "db_ok db \<Longrightarrow> db_ok (store_step db c) \<and> db_le db (store_step db c)"
  by (cases c; cases "store_call db c") (auto simp: store_step_def db_le_refl intro: store_call_ok store_call_le)

interpretation ps: evolution store_step db_ok db_le
  by unfold_locales (auto simp: store_step_inv db_le_refl intro: db_le_trans)

section \<open>Properties\<close>

lemma newest_cmp_total: "newest_cmp r s \<le> 0 \<or> newest_cmp s r \<le> 0"
  by (auto simp: newest_cmp_def then_cmp_def int_cmp_def)

lemma newest_cmp_trans: "newest_cmp r s \<le> 0 \<Longrightarrow> newest_cmp s t \<le> 0 \<Longrightarrow> newest_cmp r t \<le> 0"
  by (auto simp: newest_cmp_def then_cmp_def int_cmp_def split: if_splits)

lemma findMemoized_cases:
  obtains (none) "findMemoized reg db runId stepId iteration h = Inr None" "memo_rows db runId stepId iteration h = []"
  | (newest) r where "r \<in> set (memo_rows db runId stepId iteration h)"
      "\<And>r'. r' \<in> set (memo_rows db runId stepId iteration h) \<Longrightarrow> newest_cmp r r' \<le> 0"
      "findMemoized reg db runId stepId iteration h = r_bind (attemptFromSql reg r) (\<lambda>r. Inr (Some r))"
proof (cases "js_sort newest_cmp (memo_rows db runId stepId iteration h)")
  case Nil
  then have "memo_rows db runId stepId iteration h = []" by (metis length_0_conv length_js_sort)
  then show ?thesis using none Nil by (simp add: findMemoized_def)
next
  case (Cons r rs)
  let ?rows = "memo_rows db runId stepId iteration h"
  have set: "set (r # rs) = set ?rows" using set_js_sort [of newest_cmp ?rows] Cons by simp
  have "sorted_wrt (\<lambda>x y. newest_cmp x y \<le> 0) (js_sort newest_cmp ?rows)"
    by (rule sorted_js_sort [OF newest_cmp_total newest_cmp_trans])
  then have "sorted_wrt (\<lambda>x y. newest_cmp x y \<le> 0) (r # rs)" using Cons by simp
  moreover have "newest_cmp r r \<le> 0" using newest_cmp_total [of r r] by simp
  ultimately have le: "newest_cmp r r' \<le> 0" if "r' \<in> set (r # rs)" for r' using that by auto
  show ?thesis
  proof (rule newest)
    show "r \<in> set ?rows" using set by auto
    show "newest_cmp r r' \<le> 0" if "r' \<in> set ?rows" for r' using le that set by blast
    show "findMemoized reg db runId stepId iteration h = r_bind (attemptFromSql reg r) (\<lambda>r. Inr (Some r))"
      using Cons by (simp add: findMemoized_def)
  qed
qed

definition empty_db :: pipelines_db where
  "empty_db = \<lparr>db_definitions = [], db_runs = [], db_attempts = []\<rparr>"

lemma empty_db_ok: "db_ok empty_db"
  by (simp add: db_ok_def empty_db_def jm_get_def)

text \<open>Claim C28: the journal is append-only. Take the tables after any sequence of store calls, successful or
  refused, and again after any further calls. An attempt that was journaled is still there under its id,
  with the same run, step, iteration, attempt number, input hash and creation time; it belongs to a run that
  exists, whose definition exists; and no other attempt has its slot (run, step, iteration, attempt).\<close>

theorem journal_append_only:
  assumes "jm_get (db_attempts (foldl store_step empty_db calls)) i = Some r"
  shows "\<exists>r'. jm_get (db_attempts (foldl store_step empty_db (calls @ later))) i = Some r'
    \<and> attempt_identity r' = attempt_identity r \<and> sa_id r' = i
    \<and> (\<exists>run. jm_get (db_runs (foldl store_step empty_db (calls @ later))) (sa_runId r) = Some run
        \<and> jm_get (db_definitions (foldl store_step empty_db (calls @ later))) (pr_pipelineId run) \<noteq> None)
    \<and> (\<forall>i' r''. jm_get (db_attempts (foldl store_step empty_db (calls @ later))) i' = Some r'' \<longrightarrow>
        slot_of r'' = slot_of r \<longrightarrow> i' = i)"
proof -
  let ?db = "foldl store_step empty_db (calls @ later)"
  have ok: "db_ok ?db" by (rule ps.inv_run [OF empty_db_ok])
  obtain r' where r': "jm_get (db_attempts ?db) i = Some r'" "attempt_identity r' = attempt_identity r"
    using ps.le_later [OF empty_db_ok, of calls later] assms unfolding db_le_def by blast
  have e: "sa_id r' = i" "jm_get (db_runs ?db) (sa_runId r') \<noteq> None" using ok r'(1) by (auto simp: db_ok_def)
  have same: "sa_runId r' = sa_runId r" "slot_of r' = slot_of r"
    using r'(2) slot_of_identity [OF r'(2)] by (auto simp: attempt_identity_def)
  obtain run where run: "jm_get (db_runs ?db) (sa_runId r) = Some run" using e(2) same(1) by auto
  have "jm_get (db_definitions ?db) (pr_pipelineId run) \<noteq> None" using ok run by (auto simp: db_ok_def)
  moreover have "\<forall>i' r''. jm_get (db_attempts ?db) i' = Some r'' \<longrightarrow> slot_of r'' = slot_of r \<longrightarrow> i' = i"
    using ok r'(1) same(2) unfolding db_ok_def by metis
  ultimately show ?thesis using r' e(1) run by blast
qed

text \<open>A pipeline with one run and an attempt that completes; a second attempt in the same slot is refused.\<close>

definition sample_calls :: "(registry \<times> nat \<times> store_op) list" where
  "sample_calls =
    [(initial_registry, 1, UpsertDefinition \<lparr>nd_id = ''wf'', nd_name = ''n'', nd_documentJson = Inr JNull,
        nd_schemaVersion = num 1, nd_schemaHash = ''h''\<rparr>),
     (initial_registry, 2, InsertRun \<lparr>nr_id = ''run'', nr_pipelineId = ''wf'', nr_schemaHash = ''h'', nr_inputsJson = None,
        nr_workstreamId = None, nr_status = None\<rparr>),
     (initial_registry, 3, RecordAttempt \<lparr>na_id = ''sa1'', na_runId = ''run'', na_stepId = ''s'', na_iteration = None,
        na_attempt = None, na_inputHash = ''x'', na_status = Some SRunning, na_sessionId = None,
        na_account = Some ''ENT''\<rparr>)]"

definition sample_attempt :: attempt_row where
  "sample_attempt = \<lparr>sa_id = ''sa1'', sa_runId = ''run'', sa_stepId = ''s'', sa_iteration = 0, sa_attempt = 0,
     sa_inputHash = ''x'', sa_status = SRunning, sa_sessionId = None, sa_account = Some ''ENT'', sa_outputJson = None,
     sa_costEstimatedUsd = None, sa_tokensIn = None, sa_tokensOut = None, sa_errorKind = None,
     sa_startedAtMs = Some 3, sa_finishedAtMs = None, sa_createdAtMs = 3\<rparr>"

lemma as_safe_1: "as_safe_nat (num (Suc 0)) = Some (Suc 0)"
  by (rule as_safe_nat_num) (simp add: max_safe_nat_def)

lemmas store_eval = definitions_upsert_def runs_insert_def attempts_record_def attempts_complete_def
  runs_setStatus_def requireNonBlankId_def screenName_def nonNegInt_def nonNegCost_def getDefinition_def
  getRun_def getAttempt_def attemptFromSql_def of_option_def blank_text_def is_blank_iff js_ws_def
  assertIdentityFreeColumn_def EVENTS_EMAIL_RE_def EVENTS_TWELVE_DIGIT_RE_def TOKEN_SHAPED_RE_def
  jm_get_def jm_has_def jm_values_def new_definition_row_def new_run_row_def new_attempt_row_def
  attempt_constraints_def slot_of_def Let_def isAccountLabel_def isClaudeAccountLabel_def as_safe_1

lemma sample_calls_journal:
  "jm_get (db_attempts (foldl store_step empty_db sample_calls)) ''sa1'' = Some sample_attempt"
  by (simp add: sample_calls_def store_step_def store_call_def empty_db_def store_eval sample_attempt_def)

theorem journal_append_only_witness:
  "\<exists>r'. jm_get (db_attempts (foldl store_step empty_db (sample_calls @
      [(initial_registry, 4, CompleteAttempt ''sa1'' \<lparr>ar_status = SCompleted, ar_sessionId = None, ar_account = None,
         ar_outputJson = None, ar_costEstimatedUsd = None, ar_tokensIn = None, ar_tokensOut = None,
         ar_errorKind = None, ar_finishedAtMs = None\<rparr>)]))) ''sa1'' = Some r'
     \<and> attempt_identity r' = attempt_identity sample_attempt"
  using journal_append_only [OF sample_calls_journal, of
      "[(initial_registry, 4, CompleteAttempt ''sa1'' \<lparr>ar_status = SCompleted, ar_sessionId = None, ar_account = None,
         ar_outputJson = None, ar_costEstimatedUsd = None, ar_tokensIn = None, ar_tokensOut = None,
         ar_errorKind = None, ar_finishedAtMs = None\<rparr>)]"]
  by blast

end
