(* ===== verification/Template.thy ===== *)
theory Template
  imports Json_Text
begin

text \<open>
  Templating and conditions of the pipeline runner (\<open>core/src/pipelines/template.ts\<close>) and the hash of a
  step's inputs (\<open>inputHash.ts\<close>). A value is a \<open>json option\<close>, \<open>None\<close> being \<open>undefined\<close>. Property access
  reads own properties; names of members of \<open>Object.prototype\<close> are outside the model. Numbers are exact
  rationals, so two decimal literals that JavaScript rounds to the same double stay apart here. The regular
  expressions are scanners; \<open>sha256\<close> is a parameter.

  Shown: a template without an expression renders as itself, rendering distributes over the text before an
  expression, the comparison operators are the six relations of one order on the operands, and the hash of a
  step's inputs does not depend on the order in which the fields of an object were written.
\<close>

record template_scope =
  ts_workspace :: "string option"
  ts_inputs :: "(string \<times> json) list"
  ts_steps :: "(string, json) jmap"
  ts_item :: "json option"

section \<open>Paths\<close>

fun js_split :: "char \<Rightarrow> string \<Rightarrow> string list" where
  "js_split c [] = [[]]"
| "js_split c (x # xs) = (if x = c then [] # js_split c xs
     else (case js_split c xs of [] \<Rightarrow> [[x]] | p # ps \<Rightarrow> (x # p) # ps))"

definition digit_val :: "char \<Rightarrow> nat" where
  "digit_val c = (let n = of_char c :: nat in if n < 58 then n - 48 else if n < 91 then n - 55 else n - 87)"

definition digits_val :: "nat \<Rightarrow> string \<Rightarrow> nat" where
  "digits_val base s = foldl (\<lambda>acc c. acc * base + digit_val c) 0 s"

definition is_hex :: "char \<Rightarrow> bool" where
  "is_hex c = (is_digit c \<or> (let n = of_char c :: nat in (65 \<le> n \<and> n \<le> 70) \<or> (97 \<le> n \<and> n \<le> 102)))"

definition all_digits :: "string \<Rightarrow> bool" where
  "all_digits s = (s \<noteq> [] \<and> list_all is_digit s)"

definition unsign :: "string \<Rightarrow> bool \<times> string" where
  "unsign s = (case s of [] \<Rightarrow> (False, [])
     | c # cs \<Rightarrow> if c = CHR ''-'' then (True, cs) else if c = CHR ''+'' then (False, cs) else (False, c # cs))"

definition signed :: "bool \<Rightarrow> rat \<Rightarrow> rat" where
  "signed neg q = (if neg then - q else q)"

text \<open>\<open>Number(key)\<close> for a path segment, which has no dot: blank is 0, decimal digits with an optional sign
  and exponent, or a prefixed hexadecimal, octal or binary numeral; everything else is not an integer.\<close>

definition key_number :: "string \<Rightarrow> rat option" where
  "key_number key =
    (let t = js_trim key; pre = take 2 t; body = drop 2 t;
         sgn = unsign t; mant = takeWhile is_digit (snd sgn); ex = drop (length mant) (snd sgn);
         esgn = unsign (drop 1 ex)
     in if t = [] then Some 0
        else if pre \<in> {''0x'', ''0X''} \<and> body \<noteq> [] \<and> list_all is_hex body then Some (of_nat (digits_val 16 body))
        else if pre \<in> {''0o'', ''0O''} \<and> body \<noteq> [] \<and> list_all (\<lambda>c. c \<in> set ''01234567'') body then Some (of_nat (digits_val 8 body))
        else if pre \<in> {''0b'', ''0B''} \<and> body \<noteq> [] \<and> list_all (\<lambda>c. c \<in> set ''01'') body then Some (of_nat (digits_val 2 body))
        else if mant = [] then None
        else if ex = [] then Some (signed (fst sgn) (of_nat (digits_val 10 mant)))
        else if hd ex \<in> {CHR ''e'', CHR ''E''} \<and> all_digits (snd esgn)
        then Some (signed (fst sgn) (of_nat (digits_val 10 mant)) *
               (if fst esgn then 1 / 10 ^ digits_val 10 (snd esgn) else 10 ^ digits_val 10 (snd esgn)))
        else None)"

definition array_at :: "json list \<Rightarrow> string \<Rightarrow> json option" where
  "array_at vs key = (case key_number key of
     None \<Rightarrow> None
   | Some q \<Rightarrow> if is_integer_rat q \<and> 0 \<le> q \<and> nat \<lfloor>q\<rfloor> < length vs then Some (vs ! nat \<lfloor>q\<rfloor>) else None)"

fun getPath :: "json option \<Rightarrow> string list \<Rightarrow> json option" where
  "getPath current [] = current"
| "getPath current (key # path) = (case current of
     None \<Rightarrow> None
   | Some (JArr vs) \<Rightarrow> getPath (array_at vs key) path
   | Some (JObj kvs) \<Rightarrow> getPath (map_of kvs key) path
   | Some _ \<Rightarrow> None)"

definition resolveExpression :: "string \<Rightarrow> template_scope \<Rightarrow> json option" where
  "resolveExpression expr scope =
    (if expr = ''workspace'' then map_option JStr (ts_workspace scope)
     else if expr = ''item'' then ts_item scope
     else case js_split (CHR ''.'') expr of
       [] \<Rightarrow> None
     | head # parts \<Rightarrow>
        if head = ''inputs'' then getPath (Some (JObj (ts_inputs scope))) parts
        else if head = ''steps'' then (case parts of
            [] \<Rightarrow> None
          | stepId # rest \<Rightarrow>
             let stepOutput = jm_get (ts_steps scope) stepId
             in (case rest of
                [] \<Rightarrow> stepOutput
              | accessor # path \<Rightarrow> if accessor = ''output'' \<or> accessor = ''outputs'' then getPath stepOutput path
                  else getPath stepOutput (accessor # path)))
        else None)"

section \<open>Rendering\<close>

definition render_value :: "(rat \<Rightarrow> string) \<Rightarrow> json option \<Rightarrow> string" where
  "render_value dec v = (case v of None \<Rightarrow> [] | Some JNull \<Rightarrow> [] | Some (JStr s) \<Rightarrow> s | Some w \<Rightarrow> json_str dec w)"

text \<open>The scan for \<open>${...}\<close>: the expression ends at the first closing brace; without one the dollar is text.\<close>

definition opens_expr :: "string \<Rightarrow> bool" where
  "opens_expr t = (take 2 t = ''${'' \<and> CHR ''}'' \<in> set (drop 2 t))"

definition expr_of :: "string \<Rightarrow> string" where
  "expr_of t = takeWhile (\<lambda>c. c \<noteq> CHR ''}'') (drop 2 t)"

function renderTemplate :: "(rat \<Rightarrow> string) \<Rightarrow> string \<Rightarrow> template_scope \<Rightarrow> string" where
  "renderTemplate dec t scope =
    (if t = [] then []
     else if opens_expr t then
       render_value dec (resolveExpression (js_trim (expr_of t)) scope)
         @ renderTemplate dec (drop (length (expr_of t) + 3) t) scope
     else hd t # renderTemplate dec (tl t) scope)"
  by pat_completeness auto
termination by (relation "measure (\<lambda>(dec, t, scope). length t)") auto

declare renderTemplate.simps [simp del]

definition stripSingleExpr :: "string \<Rightarrow> string" where
  "stripSingleExpr expr =
    (let t = js_trim expr; inner = butlast (drop 2 t)
     in if take 2 t = ''${'' \<and> drop 2 t \<noteq> [] \<and> last t = CHR ''}'' \<and> CHR ''}'' \<notin> set inner then js_trim inner else t)"

definition resolveArray :: "string \<Rightarrow> template_scope \<Rightarrow> json list" where
  "resolveArray expr scope = (case resolveExpression (stripSingleExpr expr) scope of
     Some (JArr vs) \<Rightarrow> vs | _ \<Rightarrow> [])"

section \<open>Conditions\<close>

text \<open>The pattern \<open>-?\d+(\.\d+)?\<close> and the value it denotes.\<close>

definition decimal_number :: "string \<Rightarrow> rat option" where
  "decimal_number s =
    (let neg = (s \<noteq> [] \<and> hd s = CHR ''-''); body = (if neg then tl s else s);
         ip = takeWhile is_digit body; rest = drop (length ip) body; fp = drop 1 rest
     in if ip = [] then None
        else if rest = [] then Some (signed neg (of_nat (digits_val 10 ip)))
        else if hd rest = CHR ''.'' \<and> all_digits fp
        then Some (signed neg (of_nat (digits_val 10 ip) + of_nat (digits_val 10 fp) / 10 ^ length fp))
        else None)"

definition quoted_by :: "char \<Rightarrow> string \<Rightarrow> bool" where
  "quoted_by q s = (s \<noteq> [] \<and> hd s = q \<and> last s = q)"

definition ends_with :: "string \<Rightarrow> string \<Rightarrow> bool" where
  "ends_with suf s = (length suf \<le> length s \<and> drop (length s - length suf) s = suf)"

definition length_of :: "json option \<Rightarrow> nat" where
  "length_of v = (case v of Some (JStr s) \<Rightarrow> length s | Some (JArr vs) \<Rightarrow> length vs
     | Some (JObj kvs) \<Rightarrow> length kvs | _ \<Rightarrow> 0)"

definition resolveOperand :: "string \<Rightarrow> template_scope \<Rightarrow> json option" where
  "resolveOperand raw scope =
    (let expr = stripSingleExpr raw
     in if quoted_by (CHR 0x22) expr \<or> quoted_by (CHR 0x27) expr then Some (JStr (butlast (tl expr)))
        else if expr = ''true'' then Some (JBool True)
        else if expr = ''false'' then Some (JBool False)
        else case decimal_number expr of
          Some q \<Rightarrow> Some (JNum (Fin q))
        | None \<Rightarrow>
           if ends_with ''.length'' expr
           then Some (JNum (num (length_of (resolveExpression (take (length expr - 7) expr) scope))))
           else resolveExpression expr scope)"

definition toNumber :: "json option \<Rightarrow> rat option" where
  "toNumber v = (case v of Some (JNum (Fin q)) \<Rightarrow> Some q | Some (JStr s) \<Rightarrow> decimal_number (js_trim s) | _ \<Rightarrow> None)"

definition string_of :: "(rat \<Rightarrow> string) \<Rightarrow> json option \<Rightarrow> string" where
  "string_of dec v = (case v of None \<Rightarrow> ''undefined'' | Some w \<Rightarrow> js_string dec w)"

datatype cmp_op = OpEq | OpNe | OpGe | OpLe | OpGt | OpLt

definition compare :: "(rat \<Rightarrow> string) \<Rightarrow> json option \<Rightarrow> cmp_op \<Rightarrow> json option \<Rightarrow> bool" where
  "compare dec lhs op rhs =
    (case (toNumber lhs, toNumber rhs) of
       (Some lnum, Some rnum) \<Rightarrow> (case op of OpEq \<Rightarrow> lnum = rnum | OpNe \<Rightarrow> lnum \<noteq> rnum | OpGt \<Rightarrow> lnum > rnum | OpGe \<Rightarrow> lnum \<ge> rnum
          | OpLt \<Rightarrow> lnum < rnum | OpLe \<Rightarrow> lnum \<le> rnum)
     | _ \<Rightarrow> (let c = str_cmp (string_of dec lhs) (string_of dec rhs)
             in case op of OpEq \<Rightarrow> string_of dec lhs = string_of dec rhs | OpNe \<Rightarrow> string_of dec lhs \<noteq> string_of dec rhs
                | OpGt \<Rightarrow> c > 0 | OpGe \<Rightarrow> c \<ge> 0 | OpLt \<Rightarrow> c < 0 | OpLe \<Rightarrow> c \<le> 0))"

definition truthy :: "json option \<Rightarrow> bool" where
  "truthy v = (case v of None \<Rightarrow> False | Some JNull \<Rightarrow> False | Some (JBool b) \<Rightarrow> b
     | Some (JNum x) \<Rightarrow> x \<noteq> Fin 0 | Some (JStr s) \<Rightarrow> s \<noteq> [] \<and> s \<noteq> ''false''
     | Some (JArr vs) \<Rightarrow> vs \<noteq> [] | Some (JObj kvs) \<Rightarrow> kvs \<noteq> [])"

text \<open>The operator at the head of a text, in the order of the alternation, with its length.\<close>

definition op_at :: "string \<Rightarrow> (cmp_op \<times> nat) option" where
  "op_at s = (if take 2 s = ''=='' then Some (OpEq, 2) else if take 2 s = ''!='' then Some (OpNe, 2)
     else if take 2 s = ''>='' then Some (OpGe, 2) else if take 2 s = ''<='' then Some (OpLe, 2)
     else if take 1 s = ''>'' then Some (OpGt, 1) else if take 1 s = ''<'' then Some (OpLt, 1) else None)"

fun split_op :: "string \<Rightarrow> (string \<times> cmp_op \<times> string) option" where
  "split_op [] = None"
| "split_op (c # cs) = (case op_at (c # cs) of
     Some (op, n) \<Rightarrow> Some ([], op, drop n (c # cs))
   | None \<Rightarrow> map_option (\<lambda>(l, op, r). (c # l, op, r)) (split_op cs))"

text \<open>The dots of the pattern do not match a line terminator, so a condition that has one is read as a bare
  operand.\<close>

definition one_line :: "string \<Rightarrow> bool" where
  "one_line s = (CHR 0x0A \<notin> set s \<and> CHR 0x0D \<notin> set s)"

definition evaluateCondition :: "(rat \<Rightarrow> string) \<Rightarrow> string \<Rightarrow> template_scope \<Rightarrow> bool" where
  "evaluateCondition dec condition scope =
    (let t = js_trim condition
     in case (if one_line t then split_op t else None) of
          Some (l, op, r) \<Rightarrow> compare dec (resolveOperand (js_trim l) scope) op (resolveOperand (js_trim r) scope)
        | None \<Rightarrow> truthy (resolveOperand t scope))"

section \<open>The hash of a step's inputs\<close>

fun canonicalize :: "(rat \<Rightarrow> string) \<Rightarrow> json \<Rightarrow> string" where
  "canonicalize dec (JArr vs) = ''['' @ join_with '','' (map (canonicalize dec) vs) @ '']''"
| "canonicalize dec (JObj kvs) = ''{'' @ join_with '',''
     (map (\<lambda>(k, t). json_quote k @ '':'' @ t)
       (js_sort (\<lambda>a b. str_cmp (fst a) (fst b)) (map (\<lambda>(k, v). (k, canonicalize dec v)) kvs))) @ ''}''"
| "canonicalize dec v = json_str dec v"

record step_input_identity =
  ii_kind :: string
  ii_account :: string
  ii_backend :: string
  ii_cwd :: string
  ii_prompt :: "string option"
  ii_skillName :: "string option"
  ii_agentName :: "string option"
  ii_scriptPath :: "string option"
  ii_capabilityContentHash :: "string option"
  ii_item :: "json option"

definition opt_str :: "string \<Rightarrow> string option \<Rightarrow> (string \<times> json) list" where
  "opt_str k v = (case v of None \<Rightarrow> [] | Some s \<Rightarrow> [(k, JStr s)])"

definition identity_json :: "step_input_identity \<Rightarrow> json" where
  "identity_json i = JObj ([(''kind'', JStr (ii_kind i)), (''account'', JStr (ii_account i)),
      (''backend'', JStr (ii_backend i)), (''cwd'', JStr (ii_cwd i))]
     @ opt_str ''prompt'' (ii_prompt i) @ opt_str ''skillName'' (ii_skillName i) @ opt_str ''agentName'' (ii_agentName i)
     @ opt_str ''scriptPath'' (ii_scriptPath i) @ opt_str ''capabilityContentHash'' (ii_capabilityContentHash i)
     @ (case ii_item i of None \<Rightarrow> [] | Some v \<Rightarrow> [(''item'', v)]))"

definition computeInputHash :: "(string \<Rightarrow> string) \<Rightarrow> (rat \<Rightarrow> string) \<Rightarrow> step_input_identity \<Rightarrow> string" where
  "computeInputHash sha256 dec i = ''sha256:'' @ sha256 (canonicalize dec (identity_json i))"

section \<open>Properties\<close>

lemma render_Nil [simp]: "renderTemplate dec [] scope = []"
  by (simp add: renderTemplate.simps)

lemma render_text: "\<not> opens_expr (c # cs) \<Longrightarrow> renderTemplate dec (c # cs) scope = c # renderTemplate dec cs scope"
  by (simp add: renderTemplate.simps)

lemma no_dollar_closed: "CHR ''$'' \<noteq> c \<Longrightarrow> \<not> opens_expr (c # cs)"
  by (cases cs) (simp_all add: opens_expr_def)

lemma render_plain_prefix: "CHR ''$'' \<notin> set p \<Longrightarrow> renderTemplate dec (p @ t) scope = p @ renderTemplate dec t scope"
  by (induction p) (auto simp: render_text no_dollar_closed)

lemma takeWhile_closing: "CHR ''}'' \<notin> set e \<Longrightarrow> takeWhile (\<lambda>c. c \<noteq> CHR ''}'') (e @ CHR ''}'' # t) = e"
  by (induction e) auto

lemma render_expr:
  assumes "CHR ''}'' \<notin> set e"
  shows "renderTemplate dec (''${'' @ e @ ''}'' @ t) scope =
    render_value dec (resolveExpression (js_trim e) scope) @ renderTemplate dec t scope"
proof -
  have x: "expr_of (''${'' @ e @ ''}'' @ t) = e" using takeWhile_closing [OF assms] by (simp add: expr_of_def)
  have "opens_expr (''${'' @ e @ ''}'' @ t)" by (simp add: opens_expr_def)
  moreover have "drop (length e + 3) (''${'' @ e @ ''}'' @ t) = t" by (simp add: numeral_3_eq_3)
  ultimately show ?thesis using x by (subst renderTemplate.simps) simp
qed

text \<open>Conditions compare by one order: the numeric one when both operands are numbers, else the order of
  their texts.\<close>

lemma compare_trichotomy:
  "compare dec a OpNe b = (\<not> compare dec a OpEq b)" "compare dec a OpGe b = (\<not> compare dec a OpLt b)"
  "compare dec a OpLe b = (\<not> compare dec a OpGt b)"
  "compare dec a OpLe b = (compare dec a OpLt b \<or> compare dec a OpEq b)"
  "compare dec a OpGt b = compare dec b OpLt a"
  using str_cmp_0 [of "string_of dec a" "string_of dec b"] str_cmp_neg [of "string_of dec b" "string_of dec a"]
  by (auto simp: compare_def Let_def split: option.splits)

text \<open>Lists sorted by a total order in which equal elements coincide are determined by their elements.\<close>

lemma sorted_wrt_unique:
  assumes "\<And>x y. x \<in> set xs \<Longrightarrow> y \<in> set xs \<Longrightarrow> R x y \<Longrightarrow> R y x \<Longrightarrow> x = y"
    and "sorted_wrt R xs" "sorted_wrt R ys" "set xs = set ys" "distinct xs" "distinct ys"
  shows "xs = ys"
  using assms
proof (induction xs arbitrary: ys)
  case (Cons x xs)
  then obtain y ys' where ys: "ys = y # ys'" by (cases ys) auto
  have "x = y"
  proof (rule ccontr)
    assume ne: "x \<noteq> y"
    then have "x \<in> set ys'" "y \<in> set xs" using Cons.prems(4) ys by auto
    then have "R y x" "R x y" using Cons.prems(2,3) ys by auto
    then show False using Cons.prems(1) [of x y] \<open>y \<in> set xs\<close> ne by simp
  qed
  moreover have "xs = ys'"
  proof (rule Cons.IH)
    show "\<And>a b. a \<in> set xs \<Longrightarrow> b \<in> set xs \<Longrightarrow> R a b \<Longrightarrow> R b a \<Longrightarrow> a = b" using Cons.prems(1) by simp
    show "sorted_wrt R xs" "sorted_wrt R ys'" "distinct xs" "distinct ys'" using Cons.prems ys by auto
    show "set xs = set ys'" using Cons.prems(4-6) ys \<open>x = y\<close> by auto
  qed
  ultimately show ?case using ys by simp
qed simp

lemma js_sort_keyed:
  assumes "set xs = set ys" "distinct (map fst xs)" "distinct (map fst ys)"
  shows "js_sort (\<lambda>a b. str_cmp (fst a) (fst b)) xs = js_sort (\<lambda>a b. str_cmp (fst a) (fst b)) ys"
proof (rule sorted_wrt_unique [where R = "\<lambda>a b. str_cmp (fst a) (fst b) \<le> 0"])
  fix a b assume ab: "a \<in> set (js_sort (\<lambda>a b. str_cmp (fst a) (fst b)) xs)" "b \<in> set (js_sort (\<lambda>a b. str_cmp (fst a) (fst b)) xs)"
    "str_cmp (fst a) (fst b) \<le> 0" "str_cmp (fst b) (fst a) \<le> 0"
  then have "fst a = fst b" using str_cmp_neg [of "fst a" "fst b"] str_cmp_0 [of "fst a" "fst b"] by linarith
  then show "a = b" using ab(1,2) assms(2) by (metis distinct_map inj_on_eq_iff set_js_sort)
next
  show "sorted_wrt (\<lambda>a b. str_cmp (fst a) (fst b) \<le> 0) (js_sort (\<lambda>a b. str_cmp (fst a) (fst b)) zs)" for zs :: "(string \<times> 'a) list"
    by (rule sorted_js_sort) (rule str_cmp_total, erule str_cmp_trans)
  then show "sorted_wrt (\<lambda>a b. str_cmp (fst a) (fst b) \<le> 0) (js_sort (\<lambda>a b. str_cmp (fst a) (fst b)) ys)" .
  show "distinct (js_sort (\<lambda>a b. str_cmp (fst a) (fst b)) xs)" "distinct (js_sort (\<lambda>a b. str_cmp (fst a) (fst b)) ys)"
    using assms(2,3) distinct_js_sort [of fst] by (metis distinct_map)+
  show "set (js_sort (\<lambda>a b. str_cmp (fst a) (fst b)) xs) = set (js_sort (\<lambda>a b. str_cmp (fst a) (fst b)) ys)"
    using assms(1) by simp
qed

text \<open>Two values that differ only in the order in which the properties of their objects were written.\<close>

inductive same_json :: "json \<Rightarrow> json \<Rightarrow> bool" where
  same_refl: "same_json v v"
| same_arr: "list_all2 same_json vs ws \<Longrightarrow> same_json (JArr vs) (JArr ws)"
| same_obj: "distinct (map fst kvs) \<Longrightarrow> distinct (map fst kws) \<Longrightarrow> fst ` set kvs = fst ` set kws \<Longrightarrow>
    (\<And>k v w. (k, v) \<in> set kvs \<Longrightarrow> (k, w) \<in> set kws \<Longrightarrow> same_json v w) \<Longrightarrow> same_json (JObj kvs) (JObj kws)"

lemma canonicalize_obj:
  assumes "distinct (map fst kvs)" "distinct (map fst kws)" "fst ` set kvs = fst ` set kws"
    and "\<And>k v w. (k, v) \<in> set kvs \<Longrightarrow> (k, w) \<in> set kws \<Longrightarrow> canonicalize dec v = canonicalize dec w"
  shows "canonicalize dec (JObj kvs) = canonicalize dec (JObj kws)"
proof -
  let ?f = "\<lambda>(k, v). (k, canonicalize dec v)"
  have sub: "set (map ?f a) \<subseteq> set (map ?f b)"
    if d: "fst ` set a \<subseteq> fst ` set b" and e: "\<And>k v w. (k, v) \<in> set a \<Longrightarrow> (k, w) \<in> set b \<Longrightarrow> canonicalize dec v = canonicalize dec w"
    for a b :: "(string \<times> json) list"
  proof
    fix x assume "x \<in> set (map ?f a)"
    then obtain k v where x: "(k, v) \<in> set a" "x = (k, canonicalize dec v)" by auto
    then obtain w where w: "(k, w) \<in> set b" using d by force
    then show "x \<in> set (map ?f b)" using e [OF x(1) w] x(2) by force
  qed
  have "set (map ?f kvs) = set (map ?f kws)"
  proof
    show "set (map ?f kvs) \<subseteq> set (map ?f kws)" by (rule sub [OF _ assms(4)]) (simp_all add: assms(3))
    show "set (map ?f kws) \<subseteq> set (map ?f kvs)" by (rule sub [OF _ assms(4) [symmetric]]) (simp_all add: assms(3))
  qed
  moreover have "map fst (map ?f zs) = map fst zs" for zs :: "(string \<times> json) list" by (induction zs) auto
  then have "distinct (map fst (map ?f kvs))" "distinct (map fst (map ?f kws))" using assms(1,2) by metis+
  ultimately have "js_sort (\<lambda>a b. str_cmp (fst a) (fst b)) (map ?f kvs) = js_sort (\<lambda>a b. str_cmp (fst a) (fst b)) (map ?f kws)"
    by (rule js_sort_keyed)
  then show ?thesis by (simp only: canonicalize.simps)
qed

lemma canonicalize_order_free: "same_json v w \<Longrightarrow> canonicalize dec v = canonicalize dec w"
proof (induction rule: same_json.induct)
  case (same_arr vs ws)
  then have "list_all2 (\<lambda>v w. canonicalize dec v = canonicalize dec w) vs ws"
    by (rule list_all2_mono) blast
  then have "map (canonicalize dec) vs = map (canonicalize dec) ws"
    by (induction rule: list_all2_induct) simp_all
  then show ?case by simp
next
  case (same_obj kvs kws)
  show ?case using same_obj.hyps(1-3) same_obj.IH by (intro canonicalize_obj) blast+
qed simp

lemma items_order_free:
  assumes "ii_item i = Some v" "same_json v w"
  shows "canonicalize dec (identity_json i) = canonicalize dec (identity_json (i\<lparr>ii_item := Some w\<rparr>))"
proof -
  let ?pre = "[(''kind'', JStr (ii_kind i)), (''account'', JStr (ii_account i)),
      (''backend'', JStr (ii_backend i)), (''cwd'', JStr (ii_cwd i))]
     @ opt_str ''prompt'' (ii_prompt i) @ opt_str ''skillName'' (ii_skillName i) @ opt_str ''agentName'' (ii_agentName i)
     @ opt_str ''scriptPath'' (ii_scriptPath i) @ opt_str ''capabilityContentHash'' (ii_capabilityContentHash i)"
  have d: "distinct (map fst (?pre @ [(''item'', x)]))" for x :: json
    by (auto simp: opt_str_def split: option.splits)
  have "same_json (JObj (?pre @ [(''item'', v)])) (JObj (?pre @ [(''item'', w)]))"
  proof (rule same_obj [OF d d])
    fix k a b assume ab: "(k, a) \<in> set (?pre @ [(''item'', v)])" "(k, b) \<in> set (?pre @ [(''item'', w)])"
    show "same_json a b"
    proof (cases "k = ''item''")
      case True
      then have "a = v" "b = w" using ab by (auto simp: opt_str_def split: option.splits)
      then show ?thesis using assms(2) by simp
    next
      case False
      then have "(k, a) \<in> set ?pre" "(k, b) \<in> set ?pre" using ab by auto
      moreover have "distinct (map fst ?pre)" using d [of JNull] by simp
      ultimately have "a = b" by (metis eq_key_imp_eq_value)
      then show ?thesis by (simp add: same_refl)
    qed
  qed auto
  from canonicalize_order_free [OF this] show ?thesis using assms(1) by (simp add: identity_json_def)
qed

text \<open>The memoization key ignores the order of properties. Two fan-out items that are the same
  value up to the order in which the properties of their objects were written, at any depth, give the same
  input hash, whatever the rest of the step's inputs and for every hash function.\<close>

theorem input_hash_order_free:
  assumes "ii_item i = Some v" "same_json v w"
  shows "computeInputHash sha256 dec i = computeInputHash sha256 dec (i\<lparr>ii_item := Some w\<rparr>)"
  by (simp add: computeInputHash_def items_order_free [OF assms])

definition sample_identity :: step_input_identity where
  "sample_identity = \<lparr>ii_kind = ''prompt'', ii_account = ''ENT'', ii_backend = ''claude'', ii_cwd = ''/w'', ii_prompt = Some ''go'',
     ii_skillName = None, ii_agentName = None, ii_scriptPath = None, ii_capabilityContentHash = None,
     ii_item = Some (JObj [(''b'', JNull), (''a'', JBool True)])\<rparr>"

theorem input_hash_order_free_witness:
  "computeInputHash (\<lambda>s. s) (\<lambda>_. []) sample_identity =
   computeInputHash (\<lambda>s. s) (\<lambda>_. []) (sample_identity\<lparr>ii_item := Some (JObj [(''a'', JBool True), (''b'', JNull)])\<rparr>)"
proof (rule input_hash_order_free)
  show "ii_item sample_identity = Some (JObj [(''b'', JNull), (''a'', JBool True)])" by (simp add: sample_identity_def)
  show "same_json (JObj [(''b'', JNull), (''a'', JBool True)]) (JObj [(''a'', JBool True), (''b'', JNull)])"
    by (rule same_obj) (auto intro: same_refl)
qed

text \<open>The condition form of the file's own comment, \<open>${steps.audit.outputs.length} > 0\<close>. The runner renders a
  condition before it evaluates it; the renderer has no \<open>length\<close> on arrays, so the left side disappears and
  the condition holds for every array, the empty one included.\<close>

theorem length_condition_vacuous:
  assumes "jm_get (ts_steps scope) ''audit'' = Some (JArr vs)"
  shows "evaluateCondition dec (renderTemplate dec ''${steps.audit.outputs.length} > 0'' scope) scope"
proof -
  have "js_trim ''steps.audit.outputs.length'' = ''steps.audit.outputs.length''" by (simp add: js_trim_def js_ws_def)
  moreover have "js_split (CHR ''.'') ''steps.audit.outputs.length'' = [''steps'', ''audit'', ''outputs'', ''length'']" by simp
  moreover have "key_number ''length'' = None"
    by (simp add: key_number_def js_trim_def js_ws_def unsign_def Let_def is_digit_def)
  ultimately have n: "resolveExpression (js_trim ''steps.audit.outputs.length'') scope = None"
    using assms by (simp add: resolveExpression_def array_at_def)
  have "renderTemplate dec '' > 0'' scope = '' > 0''" using render_plain_prefix [of "'' > 0''" dec "[]" scope] by simp
  moreover have "CHR ''}'' \<notin> set ''steps.audit.outputs.length''" by simp
  ultimately have r: "renderTemplate dec ''${steps.audit.outputs.length} > 0'' scope = '' > 0''"
    using render_expr [of "''steps.audit.outputs.length''" dec "'' > 0''" scope] n by (simp add: render_value_def)
  have t: "js_trim '' > 0'' = ''> 0''" "one_line ''> 0''" "split_op ''> 0'' = Some ([], OpGt, '' 0'')"
    "js_trim '' 0'' = ''0''" "js_trim [] = []" by (simp_all add: js_trim_def js_ws_def one_line_def op_at_def)
  have z: "resolveOperand ''0'' scope = Some (JNum (Fin 0))"
  proof -
    have "stripSingleExpr ''0'' = ''0''" "decimal_number ''0'' = Some 0" "\<not> quoted_by (CHR 0x22) ''0''" "\<not> quoted_by (CHR 0x27) ''0''"
      by (simp_all add: stripSingleExpr_def js_trim_def js_ws_def decimal_number_def is_digit_def digits_val_def
          digit_val_def signed_def quoted_by_def)
    then show ?thesis by (simp add: resolveOperand_def)
  qed
  have e: "resolveOperand [] scope = None"
  proof -
    have "stripSingleExpr [] = []" "decimal_number [] = None" "\<not> quoted_by (CHR 0x22) []" "\<not> quoted_by (CHR 0x27) []"
      "\<not> ends_with ''.length'' []"
      by (simp_all add: stripSingleExpr_def js_trim_def decimal_number_def quoted_by_def ends_with_def)
    then show ?thesis by (simp add: resolveOperand_def resolveExpression_def)
  qed
  have "char_of (48::nat) = CHR ''0''" by code_simp
  then have "rat_str dec 0 = ''0''" by (simp add: rat_str_def is_integer_rat_def int_str_def nat_str.simps)
  then show ?thesis using t e z unfolding r evaluateCondition_def
    by (simp add: compare_def toNumber_def string_of_def Let_def)
qed

theorem length_condition_vacuous_witness:
  "evaluateCondition (\<lambda>_. []) (renderTemplate (\<lambda>_. []) ''${steps.audit.outputs.length} > 0''
      \<lparr>ts_workspace = None, ts_inputs = [], ts_steps = [(''audit'', JArr [])], ts_item = None\<rparr>)
      \<lparr>ts_workspace = None, ts_inputs = [], ts_steps = [(''audit'', JArr [])], ts_item = None\<rparr>"
  by (rule length_condition_vacuous [of _ "[]"]) (simp add: jm_get_def)

end
