(* ===== verification/Kahn.thy ===== *)
theory Kahn
  imports Dag
begin

text \<open>
  Cycle detection of the DAG validator (\<open>findCycle\<close> of \<open>packages/protocol/src/dag/validate.ts\<close>): Kahn's
  algorithm over the \<open>needs\<close> graph with the code's two maps, its queue and its visited counter. The
  specification is acyclicity of the relation \<open>needs_rel\<close>; \<open>findCycle_correct\<close> shows that the two
  agree for every list of steps with unique ids and closed references.
\<close>

section \<open>The algorithm\<close>

definition deg :: "(string, int) jmap \<Rightarrow> string \<Rightarrow> int" where
  "deg indegree k = (case jm_get indegree k of None \<Rightarrow> 0 | Some n \<Rightarrow> n)"

definition succs :: "(string, string list) jmap \<Rightarrow> string \<Rightarrow> string list" where
  "succs successors k = (case jm_get successors k of None \<Rightarrow> [] | Some l \<Rightarrow> l)"

text \<open>The two initialisation loops.\<close>

definition init_maps :: "pipeline_step list \<Rightarrow> (string, int) jmap \<times> (string, string list) jmap" where
  "init_maps steps = foldl (\<lambda>(i, s) st. (jm_set i (step_id st) 0, jm_set s (step_id st) [])) ([], []) steps"

definition add_edge ::
  "string \<Rightarrow> string \<Rightarrow> (string, int) jmap \<times> (string, string list) jmap \<Rightarrow> (string, int) jmap \<times> (string, string list) jmap" where
  "add_edge sid need im = (case im of (i, s) \<Rightarrow>
     (jm_set i sid (deg i sid + 1),
      (case jm_get s need of None \<Rightarrow> s | Some l \<Rightarrow> jm_set s need (l @ [sid]))))"

definition build_maps :: "pipeline_step list \<Rightarrow> (string, int) jmap \<times> (string, string list) jmap" where
  "build_maps steps = foldl (\<lambda>im st. foldl (\<lambda>im need. add_edge (step_id st) need im) im (step_needs st))
     (init_maps steps) steps"

text \<open>One visited node: decrement its successors, enqueue those that reach zero.\<close>

primrec relax :: "string list \<Rightarrow> string list \<Rightarrow> (string, int) jmap \<Rightarrow> string list \<times> (string, int) jmap" where
  "relax [] queue indegree = (queue, indegree)"
| "relax (nxt # ns) queue indegree =
    (let d = deg indegree nxt - 1
     in relax ns (if d = 0 then queue @ [nxt] else queue) (jm_set indegree nxt d))"

definition positive :: "(string, int) jmap \<Rightarrow> string set" where
  "positive indegree = {k \<in> fst ` set indegree. 0 < deg indegree k}"

lemma deg_set [simp]: "deg (jm_set i k v) k' = (if k' = k then v else deg i k')"
  by (simp add: deg_def jm_get_set)

lemma finite_positive [simp]: "finite (positive i)"
  by (simp add: positive_def)

lemma deg_absent: "k \<notin> fst ` set i \<Longrightarrow> deg i k = 0"
  using jm_get_None_iff [of i k] by (simp add: deg_def)

lemma positive_iff: "k \<in> positive i \<longleftrightarrow> 0 < deg i k"
  using deg_absent [of k i] by (cases "k \<in> fst ` set i") (simp_all add: positive_def)

lemma relax_measure:
  "length (fst (relax ns q i)) + card (positive (snd (relax ns q i))) \<le> length q + card (positive i)"
proof (induction ns arbitrary: q i)
  case (Cons n ns)
  let ?d = "deg i n - 1"
  let ?q = "if ?d = 0 then q @ [n] else q"
  let ?i = "jm_set i n ?d"
  have pos: "positive ?i = (if ?d > 0 then positive i else positive i - {n})"
    by (intro set_eqI) (simp add: positive_iff)
  have "length ?q + card (positive ?i) \<le> length q + card (positive i)"
  proof (cases "?d = 0")
    case True
    then have "n \<in> positive i" by (simp add: positive_iff)
    then have "card (positive i) = Suc (card (positive i - {n}))" by (rule card.remove [OF finite_positive])
    then show ?thesis using pos True by simp
  next
    case False
    have "card (positive i - {n}) \<le> card (positive i)" by (rule card_mono) auto
    then show ?thesis using pos False by simp
  qed
  then show ?case using Cons.IH [of ?q ?i] by (simp add: Let_def)
qed simp

function kahn_loop ::
  "(string, string list) jmap \<Rightarrow> string list \<Rightarrow> (string, int) jmap \<Rightarrow> nat \<Rightarrow> (string, int) jmap \<times> nat" where
  "kahn_loop successors [] indegree visited = (indegree, visited)"
| "kahn_loop successors (x # queue) indegree visited =
    (case relax (succs successors x) queue indegree of
       (queue', indegree') \<Rightarrow> kahn_loop successors queue' indegree' (visited + 1))"
  by pat_completeness auto
termination
proof (relation "measure (\<lambda>(s, q, i, v). length q + card (positive i))", goal_cases)
  case (2 successors x queue indegree visited queue' indegree')
  then show ?case
    using relax_measure [of "succs successors x" queue indegree]
    by (cases "relax (succs successors x) queue indegree") simp
qed simp

definition findCycle :: "pipeline_step list \<Rightarrow> string option" where
  "findCycle steps =
    (let (indegree, successors) = build_maps steps;
         queue = map fst (filter (\<lambda>(k, d). d = 0) indegree);
         (indegree', visited) = kahn_loop successors queue indegree 0
     in if visited = length steps then None
        else case find (\<lambda>(k, d). d > 0) indegree' of
          Some (k, d) \<Rightarrow> Some k
        | None \<Rightarrow> map_option step_id (case steps of [] \<Rightarrow> None | s # _ \<Rightarrow> Some s))"

section \<open>The graph\<close>

definition needs_rel :: "pipeline_step list \<Rightarrow> (string \<times> string) set" where
  "needs_rel steps = {(n, step_id s) | n s. s \<in> set steps \<and> n \<in> set (step_needs s)}"

definition closed_graph :: "pipeline_step list \<Rightarrow> bool" where
  "closed_graph steps \<longleftrightarrow> distinct (map step_id steps)
     \<and> (\<forall>s\<in>set steps. set (step_needs s) \<subseteq> step_id ` set steps)"

definition needs_of :: "pipeline_step list \<Rightarrow> string \<Rightarrow> string list" where
  "needs_of steps k = (case find (\<lambda>s. step_id s = k) steps of None \<Rightarrow> [] | Some s \<Rightarrow> step_needs s)"

lemma needs_of_step: "distinct (map step_id steps) \<Longrightarrow> s \<in> set steps \<Longrightarrow> needs_of steps (step_id s) = step_needs s"
proof (induction steps)
  case (Cons x xs)
  then show ?case by (auto simp: needs_of_def image_iff)
qed simp

lemma needs_of_absent: "k \<notin> step_id ` set steps \<Longrightarrow> needs_of steps k = []"
proof -
  assume "k \<notin> step_id ` set steps"
  then have "find (\<lambda>s. step_id s = k) steps = None" by (auto simp: filter_find_None)
  then show ?thesis by (simp add: needs_of_def)
qed

section \<open>The initial maps\<close>

lemma init_maps_spec:
  "fst ` set (fst (init_maps steps)) = step_id ` set steps \<and> jm_ok (fst (init_maps steps))
   \<and> (\<forall>k. deg (fst (init_maps steps)) k = 0)
   \<and> (\<forall>k. jm_get (snd (init_maps steps)) k = (if k \<in> step_id ` set steps then Some [] else None))"
proof (induction steps rule: rev_induct)
  case Nil
  then show ?case by (simp add: init_maps_def deg_def jm_get_def)
next
  case (snoc s steps)
  obtain i m where im: "init_maps steps = (i, m)" by (cases "init_maps steps")
  then have "init_maps (steps @ [s]) = (jm_set i (step_id s) 0, jm_set m (step_id s) [])"
    by (simp add: init_maps_def)
  then show ?case using snoc im by (auto simp: jm_get_set)
qed

text \<open>After the edges of \<open>done\<close> (pairs of a step id and one need) were added.\<close>

definition maps_inv :: "string set \<Rightarrow> (string \<times> string) list \<Rightarrow> (string, int) jmap \<times> (string, string list) jmap \<Rightarrow> bool" where
  "maps_inv ids es im \<longleftrightarrow> fst ` set (fst im) = ids \<and> jm_ok (fst im)
     \<and> (\<forall>k. deg (fst im) k = int (length (filter (\<lambda>e. fst e = k) es)))
     \<and> (\<forall>k. jm_get (snd im) k = (if k \<in> ids then Some (map fst (filter (\<lambda>e. snd e = k) es)) else None))"

lemma add_edge_inv:
  "maps_inv ids es im \<Longrightarrow> sid \<in> ids \<Longrightarrow> maps_inv ids (es @ [(sid, need)]) (add_edge sid need im)"
  by (cases im) (auto simp: maps_inv_def add_edge_def jm_get_set)

definition edges :: "pipeline_step list \<Rightarrow> (string \<times> string) list" where
  "edges steps = concat (map (\<lambda>s. map (Pair (step_id s)) (step_needs s)) steps)"

lemma add_needs_inv:
  "maps_inv ids es im \<Longrightarrow> sid \<in> ids \<Longrightarrow>
   maps_inv ids (es @ map (Pair sid) ns) (foldl (\<lambda>im need. add_edge sid need im) im ns)"
proof (induction ns arbitrary: es im)
  case (Cons n ns)
  then show ?case using Cons.IH [OF add_edge_inv [OF Cons.prems(1,2), of n]] by simp
qed simp

lemma build_maps_inv: "maps_inv (step_id ` set steps) (edges steps) (build_maps steps)"
proof -
  have "set xs \<subseteq> set steps \<Longrightarrow> maps_inv (step_id ` set steps) (edges xs)
      (foldl (\<lambda>im st. foldl (\<lambda>im need. add_edge (step_id st) need im) im (step_needs st)) (init_maps steps) xs)" for xs
  proof (induction xs rule: rev_induct)
    case Nil
    then show ?case using init_maps_spec [of steps] by (auto simp: maps_inv_def edges_def)
  next
    case (snoc s xs)
    then show ?case using add_needs_inv [of "step_id ` set steps" "edges xs" _ "step_id s" "step_needs s"]
      by (auto simp: edges_def)
  qed
  then show ?thesis by (simp add: build_maps_def)
qed

lemma edges_count:
  "distinct (map step_id steps) \<Longrightarrow>
   filter (\<lambda>e. fst e = k) (edges steps) = map (Pair k) (needs_of steps k)"
proof (induction steps)
  case (Cons s steps)
  show ?case
  proof (cases "step_id s = k")
    case True
    then have "k \<notin> step_id ` set steps" using Cons.prems by auto
    then have "filter (\<lambda>e. fst e = k) (edges steps) = []" by (auto simp: edges_def filter_empty_conv)
    then show ?thesis using True by (simp add: edges_def needs_of_def filter_concat o_def)
  next
    case False
    then have "filter (\<lambda>e. fst e = k) (map (Pair (step_id s)) (step_needs s)) = []" by (simp add: filter_empty_conv)
    then show ?thesis using False Cons by (simp add: edges_def needs_of_def)
  qed
qed (simp add: edges_def needs_of_def)

lemma succs_count:
  assumes "closed_graph steps" "n \<in> step_id ` set steps"
  shows "count_list (succs (snd (build_maps steps)) n) x = count_list (needs_of steps x) n"
proof -
  have s: "succs (snd (build_maps steps)) n = map fst (filter (\<lambda>e. snd e = n) (edges steps))"
    using build_maps_inv [of steps] assms(2) by (simp add: maps_inv_def succs_def)
  have a: "count_list (map fst (filter (\<lambda>e. snd e = n) es)) x = length (filter (\<lambda>e. snd e = n) (filter (\<lambda>e. fst e = x) es))"
    for es :: "(string \<times> string) list"
    by (induction es) auto
  have b: "length (filter (\<lambda>e. snd e = n) (map (Pair x) ns)) = count_list ns n" for ns :: "string list"
    by (induction ns) auto
  have "distinct (map step_id steps)" using assms(1) by (simp add: closed_graph_def)
  from edges_count [OF this, of x] show ?thesis unfolding s a by (simp only: b)
qed

section \<open>The loop invariant\<close>

lemma relax_spec:
  assumes "relax ns q i = (q', i')" "set ns \<subseteq> fst ` set i" "distinct q" "\<forall>k\<in>set q. deg i k \<le> 0"
  shows "fst ` set i' = fst ` set i \<and> (\<forall>k. deg i' k = deg i k - int (count_list ns k))
    \<and> set q' = set q \<union> {k \<in> set ns. 0 < deg i k \<and> deg i k \<le> int (count_list ns k)} \<and> distinct q'"
  using assms
proof (induction ns arbitrary: q i)
  case (Cons n ns)
  define d where "d = deg i n - 1"
  define q1 where "q1 = (if d = 0 then q @ [n] else q)"
  define i1 where "i1 = jm_set i n d"
  have r: "relax ns q1 i1 = (q', i')" using Cons.prems(1) by (simp add: d_def q1_def i1_def Let_def)
  have dg: "deg i1 k = (if k = n then d else deg i k)" for k by (simp add: i1_def)
  have keys: "fst ` set i1 = fst ` set i" using Cons.prems(2) by (auto simp: i1_def)
  have dist: "distinct q1" using Cons.prems(3,4) by (auto simp: q1_def d_def)
  have le: "\<forall>k\<in>set q1. deg i1 k \<le> 0" using Cons.prems(4) by (auto simp: q1_def dg d_def)
  have sub: "set ns \<subseteq> fst ` set i1" using Cons.prems(2) keys by auto
  note IH = Cons.IH [OF r sub dist le]
  have "set q' = set q \<union> {k \<in> set (n # ns). 0 < deg i k \<and> deg i k \<le> int (count_list (n # ns) k)}"
  proof (intro set_eqI)
    fix k
    have e: "k \<in> set q' \<longleftrightarrow> k \<in> set q1 \<or> (k \<in> set ns \<and> 0 < deg i1 k \<and> deg i1 k \<le> int (count_list ns k))"
      using IH by auto
    show "k \<in> set q' \<longleftrightarrow> k \<in> set q \<union> {k \<in> set (n # ns). 0 < deg i k \<and> deg i k \<le> int (count_list (n # ns) k)}"
    proof (cases "k = n")
      case False
      then show ?thesis unfolding e using dg by (auto simp: q1_def)
    next
      case True
      have c0: "k \<notin> set ns \<Longrightarrow> count_list ns k = 0" by simp
      show ?thesis unfolding e using True dg c0 by (cases "k \<in> set ns") (auto simp: q1_def d_def)
    qed
  qed
  then show ?case using IH keys dg by (auto simp: d_def)
qed simp

definition kahn_inv :: "pipeline_step list \<Rightarrow> string list \<Rightarrow> string list \<Rightarrow> (string, int) jmap \<Rightarrow> bool" where
  "kahn_inv steps vs q i \<longleftrightarrow> distinct (vs @ q) \<and> fst ` set i = step_id ` set steps \<and> set (vs @ q) \<subseteq> step_id ` set steps
     \<and> (\<forall>k\<in>step_id ` set steps. deg i k = int (length (filter (\<lambda>n. n \<notin> set vs) (needs_of steps k))))
     \<and> (\<forall>k\<in>step_id ` set steps. k \<in> set (vs @ q) \<longleftrightarrow> deg i k = 0)
     \<and> (\<forall>j<length vs. set (needs_of steps (vs ! j)) \<subseteq> set (take j vs))"

lemma filter_out_one:
  "x \<notin> V \<Longrightarrow> length (filter (\<lambda>n. n \<notin> V) xs) = length (filter (\<lambda>n. n \<notin> insert x V) xs) + count_list xs x"
  by (induction xs) auto

lemma kahn_step:
  assumes cg: "closed_graph steps" and inv: "kahn_inv steps vs (x # q) i"
    and r: "relax (succs (snd (build_maps steps)) x) q i = (q', i')"
  shows "kahn_inv steps (vs @ [x]) q' i'"
proof -
  let ?ids = "step_id ` set steps" and ?s = "succs (snd (build_maps steps)) x"
  have x: "x \<in> ?ids" "x \<notin> set vs" "x \<notin> set q" using inv by (auto simp: kahn_inv_def)
  have degx: "\<forall>k\<in>?ids. deg i k = int (length (filter (\<lambda>n. n \<notin> set vs) (needs_of steps k)))"
    and zero: "\<forall>k\<in>?ids. k \<in> set (vs @ x # q) \<longleftrightarrow> deg i k = 0"
    and keys: "fst ` set i = ?ids" and sub: "set (vs @ x # q) \<subseteq> ?ids" using inv by (auto simp: kahn_inv_def)
  have cnt: "count_list ?s k = count_list (needs_of steps k) x" for k by (rule succs_count [OF cg x(1)])
  have subs: "set ?s \<subseteq> fst ` set i"
  proof
    fix k assume "k \<in> set ?s"
    then have "count_list (needs_of steps k) x \<noteq> 0" using cnt count_list_0_iff by metis
    then have "needs_of steps k \<noteq> []" by auto
    then show "k \<in> fst ` set i" using needs_of_absent keys by metis
  qed
  have q0: "\<forall>k\<in>set q. deg i k \<le> 0"
  proof
    fix k assume k: "k \<in> set q"
    then have "k \<in> ?ids" using sub by auto
    then have "deg i k = 0" using zero k by auto
    then show "deg i k \<le> 0" by simp
  qed
  have dq: "distinct q" using inv by (simp add: kahn_inv_def)
  have sp: "fst ` set i' = fst ` set i" "\<And>k. deg i' k = deg i k - int (count_list ?s k)"
    "set q' = set q \<union> {k \<in> set ?s. 0 < deg i k \<and> deg i k \<le> int (count_list ?s k)}" "distinct q'"
    using relax_spec [OF r subs dq q0] by blast+
  have new: "deg i' k = int (length (filter (\<lambda>n. n \<notin> set (vs @ [x])) (needs_of steps k)))" if "k \<in> ?ids" for k
    using bspec [OF degx that] sp(2) [of k] cnt [of k] filter_out_one [OF x(2), of "needs_of steps k"] by simp
  have mem: "k \<in> set (vs @ [x] @ q') \<longleftrightarrow> deg i' k = 0" if "k \<in> ?ids" for k
  proof (cases "deg i k = 0")
    case True
    then have "k \<in> set (vs @ x # q)" using zero that by blast
    moreover have "deg i' k = 0" using True sp(2) [of k] new [OF that] by linarith
    ultimately show ?thesis using sp(3) by auto
  next
    case False
    then have n: "k \<notin> set (vs @ x # q)" using zero that by blast
    have pos: "0 < deg i k" using False bspec [OF degx that] by simp
    have "deg i' k = 0 \<longleftrightarrow> deg i k \<le> int (count_list ?s k)" using sp(2) [of k] new [OF that] by linarith
    moreover have "deg i k \<le> int (count_list ?s k) \<Longrightarrow> k \<in> set ?s" using pos count_list_0_iff [of ?s k] by force
    ultimately show ?thesis using n pos sp(3) by auto
  qed
  have "filter (\<lambda>n. n \<notin> set vs) (needs_of steps x) = []"
    using bspec [OF degx x(1)] bspec [OF zero x(1)] by simp
  then have nx: "set (needs_of steps x) \<subseteq> set vs" by (auto simp: filter_empty_conv)
  have ord: "\<forall>j<length (vs @ [x]). set (needs_of steps ((vs @ [x]) ! j)) \<subseteq> set (take j (vs @ [x]))"
    using inv nx by (auto simp: kahn_inv_def nth_append less_Suc_eq)
  have d0: "deg i k = 0" if "k \<in> set (vs @ x # q)" for k using bspec [OF zero subsetD [OF sub that]] that by simp
  have "set (vs @ [x]) \<inter> set q' = {}"
  proof (rule ccontr)
    assume "set (vs @ [x]) \<inter> set q' \<noteq> {}"
    then obtain k where k: "k \<in> set (vs @ [x])" "k \<in> set q'" by blast
    then have "k \<notin> set q" using inv by (auto simp: kahn_inv_def)
    then have "0 < deg i k" using k(2) sp(3) by simp
    moreover have "deg i k = 0" using d0 [of k] k(1) by auto
    ultimately show False by simp
  qed
  moreover have "distinct (vs @ [x])" using inv by (simp add: kahn_inv_def)
  ultimately have dis: "distinct ((vs @ [x]) @ q')" using sp(4) by (simp only: distinct_append)
  have "set q' \<subseteq> ?ids" using sp(3) sub subs keys by auto
  then show ?thesis using dis sp(1) keys sub new mem ord unfolding kahn_inv_def by auto
qed

lemma kahn_loop_inv:
  assumes "closed_graph steps"
  shows "kahn_inv steps vs q i \<Longrightarrow> visited = length vs \<Longrightarrow>
    kahn_loop (snd (build_maps steps)) q i visited = (i', v') \<Longrightarrow>
    \<exists>vs'. kahn_inv steps vs' [] i' \<and> v' = length vs'"
proof (induction "snd (build_maps steps)" q i visited arbitrary: vs rule: kahn_loop.induct)
  case (1 i visited)
  then show ?case by auto
next
  case (2 x q i visited)
  obtain q1 i1 where r: "relax (succs (snd (build_maps steps)) x) q i = (q1, i1)"
    by (cases "relax (succs (snd (build_maps steps)) x) q i")
  have k: "kahn_loop (snd (build_maps steps)) q1 i1 (visited + 1) = (i', v')" using "2.prems"(3) r by simp
  show ?case using "2.hyps" [OF r [symmetric] kahn_step [OF assms "2.prems"(1) r] _ k] "2.prems"(2) by simp
qed

lemma kahn_start:
  assumes "closed_graph steps"
  shows "kahn_inv steps [] (map fst (filter (\<lambda>(k, d). d = 0) (fst (build_maps steps)))) (fst (build_maps steps))"
proof -
  let ?i = "fst (build_maps steps)"
  have b: "fst ` set ?i = step_id ` set steps" "jm_ok ?i"
    "\<And>k. deg ?i k = int (length (filter (\<lambda>e. fst e = k) (edges steps)))"
    using build_maps_inv [of steps] by (auto simp: maps_inv_def)
  have d: "deg ?i k = int (length (needs_of steps k))" for k
    using b(3) [of k] edges_count assms by (simp add: closed_graph_def)
  have q: "k \<in> set (map fst (filter (\<lambda>(k, d). d = 0) ?i)) \<longleftrightarrow> deg ?i k = 0" if kk: "k \<in> step_id ` set steps" for k
  proof -
    have "k \<in> fst ` set ?i" unfolding b(1) by (rule kk)
    then obtain v where v: "(k, v) \<in> set ?i" by auto
    have g: "jm_get ?i k = Some v" using in_set_jm_get [OF b(2) v] .
    have u: "w = v" if "(k, w) \<in> set ?i" for w using in_set_jm_get [OF b(2) that] g by simp
    have "k \<in> set (map fst (filter (\<lambda>(k, d). d = 0) ?i)) \<longleftrightarrow> (\<exists>w. (k, w) \<in> set ?i \<and> w = 0)" by force
    also have "\<dots> \<longleftrightarrow> v = 0" using u v by blast
    finally show ?thesis using g by (simp add: deg_def)
  qed
  have "distinct (map fst (filter (\<lambda>(k, d). d = 0) ?i))"
    using b(2) by (simp add: jm_ok_def distinct_map_filter)
  moreover have "set (map fst (filter (\<lambda>(k, d). d = 0) ?i)) \<subseteq> step_id ` set steps" using b(1) by auto
  ultimately show ?thesis unfolding kahn_inv_def using b(1) d q by simp
qed

section \<open>Correctness\<close>

lemma ordered_acyclic:
  assumes "\<forall>j<length vs. set (needs_of steps (vs ! j)) \<subseteq> set (take j vs)" "distinct vs"
    and "set vs = step_id ` set steps" "distinct (map step_id steps)"
  shows "acyclic (needs_rel steps)"
proof -
  define pos where "pos k = (LEAST j. j < length vs \<and> vs ! j = k)" for k
  have pos: "pos (vs ! j) = j" if "j < length vs" for j
    unfolding pos_def using that assms(2) by (intro Least_equality) (auto simp: nth_eq_iff_index_eq)
  have "pos n < pos k" if e: "(n, k) \<in> needs_rel steps" for n k
  proof -
    obtain s where s: "s \<in> set steps" "k = step_id s" "n \<in> set (step_needs s)" using e by (auto simp: needs_rel_def)
    obtain j where j: "j < length vs" "vs ! j = k" using s(1,2) assms(3) by (metis imageI in_set_conv_nth)
    have "set (needs_of steps k) \<subseteq> set (take j vs)" using assms(1) j by blast
    then have "n \<in> set (take j vs)" using s needs_of_step [OF assms(4) s(1)] by auto
    then obtain l where "l < j" "l < length vs" "vs ! l = n" by (auto simp: in_set_conv_nth)
    then show ?thesis using pos j by force
  qed
  then have "needs_rel steps \<subseteq> measure pos" by auto
  then show ?thesis using wf_acyclic wf_subset wf_measure by metis
qed

lemma stuck_cyclic:
  assumes "U \<subseteq> step_id ` set steps" "U \<noteq> {}" "\<forall>k\<in>U. \<exists>n\<in>U. (n, k) \<in> needs_rel steps"
  shows "\<not> acyclic (needs_rel steps)"
proof
  assume a: "acyclic (needs_rel steps)"
  have "needs_rel steps = (\<Union>s\<in>set steps. (\<lambda>n. (n, step_id s)) ` set (step_needs s))" by (auto simp: needs_rel_def)
  then have "finite (needs_rel steps)" by simp
  then have "wf (needs_rel steps)" using a finite_acyclic_wf by blast
  then show False using assms(2,3) by (meson ex_in_conv wf_eq_minimal)
qed

lemma findCycle_None_iff:
  assumes cg: "closed_graph steps"
  shows "findCycle steps = None \<longleftrightarrow> acyclic (needs_rel steps)"
proof -
  let ?ids = "step_id ` set steps"
  let ?q = "map fst (filter (\<lambda>(k, d). d = 0) (fst (build_maps steps)))"
  obtain i' v' where k: "kahn_loop (snd (build_maps steps)) ?q (fst (build_maps steps)) 0 = (i', v')" by (meson surj_pair)
  obtain vs where vs: "kahn_inv steps vs [] i'" "v' = length vs"
    using kahn_loop_inv [OF cg kahn_start [OF cg] _ k] by auto
  have ids: "card ?ids = length steps" using cg by (metis closed_graph_def distinct_card length_map list.set_map)
  have dv: "distinct vs" "set vs \<subseteq> ?ids" using vs(1) by (auto simp: kahn_inv_def)
  have full: "v' = length steps \<longleftrightarrow> set vs = ?ids"
    using vs(2) ids dv by (metis card_subset_eq distinct_card finite_imageI finite_set)
  have steps_ne: "steps \<noteq> [] \<or> v' = length steps" using dv vs(2) by auto
  have "findCycle steps = None \<longleftrightarrow> v' = length steps"
    using k steps_ne by (auto simp: findCycle_def Let_def split: prod.splits option.splits list.splits)
  also have "\<dots> \<longleftrightarrow> acyclic (needs_rel steps)"
  proof
    assume "v' = length steps"
    then show "acyclic (needs_rel steps)"
      using ordered_acyclic [OF _ dv(1)] full vs(1) cg by (auto simp: kahn_inv_def closed_graph_def)
  next
    assume a: "acyclic (needs_rel steps)"
    show "v' = length steps"
    proof (rule ccontr)
      assume "v' \<noteq> length steps"
      then have ne: "?ids - set vs \<noteq> {}" using full dv by auto
      have "\<exists>n\<in>?ids - set vs. (n, k) \<in> needs_rel steps" if kk: "k \<in> ?ids - set vs" for k
      proof -
        obtain s where s: "s \<in> set steps" "k = step_id s" using kk by auto
        have "deg i' k \<noteq> 0" "deg i' k = int (length (filter (\<lambda>n. n \<notin> set vs) (needs_of steps k)))"
          using vs(1) kk by (auto simp: kahn_inv_def)
        then have "filter (\<lambda>n. n \<notin> set vs) (needs_of steps k) \<noteq> []" by auto
        then obtain n where n: "n \<in> set (needs_of steps k)" "n \<notin> set vs" by (auto simp: filter_empty_conv)
        then have nn: "n \<in> set (step_needs s)" using needs_of_step s cg by (auto simp: closed_graph_def)
        then have "n \<in> ?ids" using cg s by (auto simp: closed_graph_def)
        then show ?thesis using n(2) nn s by (auto simp: needs_rel_def)
      qed
      then show False using stuck_cyclic [of "?ids - set vs" steps] ne a by blast
    qed
  qed
  finally show ?thesis .
qed

section \<open>Properties\<close>

text \<open>Claim C38: cycle detection is sound and complete. For every list of steps with unique ids whose
  \<open>needs\<close> name steps of the list, the detector reports a cycle exactly when the \<open>needs\<close> relation has
  one, repeated entries in a \<open>needs\<close> list and self references included.\<close>

theorem findCycle_correct:
  assumes "closed_graph steps"
  shows "findCycle steps = None \<longleftrightarrow> acyclic (needs_rel steps)"
  using assms by (rule findCycle_None_iff)

abbreviation plain_control :: "string list \<Rightarrow> step_control" where
  "plain_control ns \<equiv> \<lparr>sc_needs = Some ns, sc_when = None, sc_forEach = None, sc_maxParallel = None, sc_loop = None\<rparr>"

abbreviation gate :: "string \<Rightarrow> string list \<Rightarrow> pipeline_step" where
  "gate k ns \<equiv> ApprovalStep k (plain_control ns) None None None"

lemmas kahn_eval = findCycle_def build_maps_def init_maps_def add_edge_def step_needs_def deg_def succs_def
  jm_get_def Let_def

theorem findCycle_correct_witness:
  "acyclic (needs_rel [gate ''d'' [''b'', ''c'', ''b''], gate ''b'' [''a''], gate ''c'' [''a''], gate ''a'' []])
   \<and> \<not> acyclic (needs_rel [gate ''a'' [''b''], gate ''b'' [''a'']])"
proof -
  have c1: "closed_graph [gate ''d'' [''b'', ''c'', ''b''], gate ''b'' [''a''], gate ''c'' [''a''], gate ''a'' []]"
    by (auto simp: closed_graph_def step_needs_def)
  have f1: "findCycle [gate ''d'' [''b'', ''c'', ''b''], gate ''b'' [''a''], gate ''c'' [''a''], gate ''a'' []] = None"
    by (simp add: kahn_eval)
  have c2: "closed_graph [gate ''a'' [''b''], gate ''b'' [''a'']]" by (simp add: closed_graph_def step_needs_def)
  have f2: "findCycle [gate ''a'' [''b''], gate ''b'' [''a'']] \<noteq> None" by (simp add: kahn_eval)
  show ?thesis using findCycle_correct [OF c1] f1 findCycle_correct [OF c2] f2 by blast
qed

text \<open>The step named in the cycle report need not lie on a cycle: a step that only depends on one is
  named when it comes first.\<close>

theorem findCycle_representative_off_cycle:
  "findCycle [gate ''d'' [''a''], gate ''a'' [''b''], gate ''b'' [''a'']] = Some ''d''
   \<and> (''d'', ''d'') \<notin> (needs_rel [gate ''d'' [''a''], gate ''a'' [''b''], gate ''b'' [''a'']])\<^sup>+"
proof
  let ?r = "needs_rel [gate ''d'' [''a''], gate ''a'' [''b''], gate ''b'' [''a'']]"
  show "findCycle [gate ''d'' [''a''], gate ''a'' [''b''], gate ''b'' [''a'']] = Some ''d''"
    by (simp add: kahn_eval)
  have "''d'' \<notin> Domain ?r" by (auto simp: needs_rel_def step_needs_def)
  then show "(''d'', ''d'') \<notin> ?r\<^sup>+" by (meson Domain.DomainI tranclD)
qed

end
