(* ===== verification/Planner.thy ===== *)
theory Planner
  imports Kahn
begin

text \<open>
  The plan-time resolution of skills and agents (\<open>core/src/pipelines/planner.ts\<close>). A catalog lookup is a
  function from a query to a record; a plan pins one record per skill or agent step, or names the first step
  the catalog does not resolve. A pinned step has drifted when the catalog no longer resolves it or resolves
  it to another content hash.

  Shown: planning succeeds exactly when every capability step resolves and pins exactly those steps; drift
  detection reports exactly the pinned steps that changed, so it reports nothing for pins that were just
  planned with the same catalog.
\<close>

record catalog_record =
  ct_capId :: string
  ct_kind :: string
  ct_name :: string
  ct_scope :: string
  ct_sourcePath :: string
  ct_contentHash :: string
  ct_accounts :: "string list option"

record resolved_capability =
  rc_capId :: string
  rc_name :: string
  rc_sourcePath :: string
  rc_contentHash :: string

record catalog_query =
  cq_name :: string
  cq_scope :: "string option"
  cq_kinds :: "string list"

type_synonym catalog_resolver = "catalog_query \<Rightarrow> catalog_record option"

datatype plan_issue_code = UnresolvedCapability | CapabilityDrift

record plan_issue =
  pi_code :: plan_issue_code
  pi_stepId :: string

type_synonym pins = "(string, resolved_capability) jmap"

fun capabilityRefOf :: "pipeline_step \<Rightarrow> catalog_query option" where
  "capabilityRefOf (SkillStep _ _ _ r _) =
    Some \<lparr>cq_name = cr_name r, cq_scope = cr_scope r, cq_kinds = [''skill'', ''command'', ''oc-command'']\<rparr>"
| "capabilityRefOf (AgentStep _ _ _ r _) =
    Some \<lparr>cq_name = cr_name r, cq_scope = cr_scope r, cq_kinds = [''agent'', ''oc-agent'']\<rparr>"
| "capabilityRefOf _ = None"

definition pin_of :: "catalog_record \<Rightarrow> resolved_capability" where
  "pin_of r = \<lparr>rc_capId = ct_capId r, rc_name = ct_name r, rc_sourcePath = ct_sourcePath r, rc_contentHash = ct_contentHash r\<rparr>"

definition plan_step :: "catalog_resolver \<Rightarrow> pins \<Rightarrow> pipeline_step \<Rightarrow> plan_issue + pins" where
  "plan_step resolver pins step = (case capabilityRefOf step of
     None \<Rightarrow> Inr pins
   | Some q \<Rightarrow> (case resolver q of
       None \<Rightarrow> Inl \<lparr>pi_code = UnresolvedCapability, pi_stepId = step_id step\<rparr>
     | Some r \<Rightarrow> Inr (jm_set pins (step_id step) (pin_of r))))"

definition planCapabilities :: "dag_document \<Rightarrow> catalog_resolver \<Rightarrow> plan_issue + pins" where
  "planCapabilities document resolver = r_foldl (plan_step resolver) [] (dg_steps document)"

definition step_by_id :: "pipeline_step list \<Rightarrow> string \<Rightarrow> pipeline_step option" where
  "step_by_id steps i = jm_get (foldl (\<lambda>m s. jm_set m (step_id s) s) [] steps) i"

definition drifted :: "catalog_resolver \<Rightarrow> dag_document \<Rightarrow> string \<times> resolved_capability \<Rightarrow> bool" where
  "drifted resolver document e =
    (case Option.bind (step_by_id (dg_steps document) (fst e)) capabilityRefOf of
       None \<Rightarrow> False
     | Some q \<Rightarrow> (case resolver q of None \<Rightarrow> True | Some r \<Rightarrow> ct_contentHash r \<noteq> rc_contentHash (snd e)))"

definition detectDrift :: "pins \<Rightarrow> catalog_resolver \<Rightarrow> dag_document \<Rightarrow> plan_issue list" where
  "detectDrift pins resolver document =
    map (\<lambda>e. \<lparr>pi_code = CapabilityDrift, pi_stepId = fst e\<rparr>) (filter (drifted resolver document) pins)"

definition resolverFromRecords :: "catalog_record list \<Rightarrow> catalog_resolver" where
  "resolverFromRecords records q =
    (let candidates = filter (\<lambda>r. ct_name r = cq_name q \<and> ct_kind r \<in> set (cq_kinds q)) records
     in case candidates of
          [] \<Rightarrow> None
        | c # _ \<Rightarrow> (case cq_scope q of
            None \<Rightarrow> Some c
          | Some sc \<Rightarrow> (case find (\<lambda>r. ct_scope r = sc) candidates of Some r \<Rightarrow> Some r | None \<Rightarrow> Some c)))"

definition accountScopedResolver :: "catalog_resolver \<Rightarrow> string \<Rightarrow> catalog_resolver" where
  "accountScopedResolver base account q = (case base q of
     None \<Rightarrow> None
   | Some r \<Rightarrow> (case ct_accounts r of
       Some as \<Rightarrow> if account \<in> set as then Some r else None
     | None \<Rightarrow> Some r))"

section \<open>Lookup of steps\<close>

lemma foldl_steps_get:
  assumes "distinct (map step_id steps)"
  shows "jm_get (foldl (\<lambda>m s. jm_set m (step_id s) s) m0 steps) i =
    (case find (\<lambda>s. step_id s = i) steps of Some s \<Rightarrow> Some s | None \<Rightarrow> jm_get m0 i)"
  using assms
proof (induction steps arbitrary: m0)
  case (Cons s steps)
  have "find (\<lambda>t. step_id t = i) steps = None" if "step_id s = i"
    using Cons.prems that by (auto simp: find_None_iff image_iff)
  then show ?case using Cons by (auto simp: jm_get_set split: option.splits)
qed simp

lemma step_by_id_find: "distinct (map step_id steps) \<Longrightarrow> step_by_id steps i = find (\<lambda>s. step_id s = i) steps"
  unfolding step_by_id_def using foldl_steps_get [of steps "[]" i] jm_get_None_iff [of "[]" i] by (simp split: option.splits)

lemma step_by_id_mem: "distinct (map step_id steps) \<Longrightarrow> s \<in> set steps \<Longrightarrow> step_by_id steps (step_id s) = Some s"
proof -
  assume d: "distinct (map step_id steps)" "s \<in> set steps"
  have "find (\<lambda>t. step_id t = step_id s) steps \<noteq> None" using d(2) by (auto simp: find_None_iff)
  then obtain t where t: "find (\<lambda>t. step_id t = step_id s) steps = Some t" by auto
  then have "t \<in> set steps" "step_id t = step_id s" using find_SomeD [OF t] by auto
  then have "t = s" using d by (metis distinct_map inj_on_eq_iff)
  then show ?thesis using step_by_id_find [OF d(1)] t by simp
qed

lemma step_by_id_SomeD:
  "distinct (map step_id steps) \<Longrightarrow> step_by_id steps i = Some s \<Longrightarrow> s \<in> set steps \<and> step_id s = i"
  using find_SomeD [of "\<lambda>s. step_id s = i" steps s] by (simp add: step_by_id_find)

lemma step_by_id_None: "distinct (map step_id steps) \<Longrightarrow> step_by_id steps i = None \<longleftrightarrow> i \<notin> set (map step_id steps)"
  by (auto simp: step_by_id_find find_None_iff)

section \<open>Properties\<close>

definition resolved :: "catalog_resolver \<Rightarrow> pipeline_step \<Rightarrow> resolved_capability option" where
  "resolved resolver s = map_option pin_of (Option.bind (capabilityRefOf s) resolver)"

definition unresolved :: "catalog_resolver \<Rightarrow> pipeline_step \<Rightarrow> bool" where
  "unresolved resolver s \<longleftrightarrow> capabilityRefOf s \<noteq> None \<and> resolved resolver s = None"

lemma plan_step_eq:
  "plan_step resolver pins s =
    (if unresolved resolver s then Inl \<lparr>pi_code = UnresolvedCapability, pi_stepId = step_id s\<rparr>
     else Inr (case resolved resolver s of None \<Rightarrow> pins | Some c \<Rightarrow> jm_set pins (step_id s) c))"
  by (auto simp: plan_step_def unresolved_def resolved_def split: option.splits)

lemma plan_fold:
  "case r_foldl (plan_step resolver) pins steps of
     Inl issue \<Rightarrow> \<exists>pre s post. steps = pre @ s # post \<and> unresolved resolver s \<and> list_all (\<lambda>t. \<not> unresolved resolver t) pre
        \<and> issue = \<lparr>pi_code = UnresolvedCapability, pi_stepId = step_id s\<rparr>
   | Inr pins' \<Rightarrow> list_all (\<lambda>t. \<not> unresolved resolver t) steps \<and>
       (distinct (map step_id steps) \<longrightarrow> (\<forall>i. jm_get pins' i =
          (case Option.bind (find (\<lambda>s. step_id s = i) steps) (resolved resolver) of Some c \<Rightarrow> Some c | None \<Rightarrow> jm_get pins i)))"
proof (induction steps arbitrary: pins)
  case (Cons s steps)
  show ?case
  proof (cases "unresolved resolver s")
    case True
    then show ?thesis by (auto simp: plan_step_eq intro!: exI [of _ "[]"])
  next
    case False
    let ?p = "case resolved resolver s of None \<Rightarrow> pins | Some c \<Rightarrow> jm_set pins (step_id s) c"
    have e: "r_foldl (plan_step resolver) pins (s # steps) = r_foldl (plan_step resolver) ?p steps"
      using False by (simp add: plan_step_eq)
    show ?thesis
    proof (cases "r_foldl (plan_step resolver) ?p steps")
      case (Inl issue)
      then obtain pre t post where "steps = pre @ t # post" "unresolved resolver t" "list_all (\<lambda>t. \<not> unresolved resolver t) pre"
        "issue = \<lparr>pi_code = UnresolvedCapability, pi_stepId = step_id t\<rparr>" using Cons [of ?p] by auto
      then show ?thesis using e Inl False by (auto intro!: exI [of _ "s # pre"])
    next
      case (Inr pins')
      have "find (\<lambda>t. step_id t = step_id s) steps = None" if "distinct (map step_id (s # steps))"
        using that by (auto simp: find_None_iff image_iff)
      then show ?thesis using Cons [of ?p] e Inr False
        by (auto simp: jm_get_set split: option.splits)
    qed
  qed
qed simp

lemma plan_Inr:
  assumes "planCapabilities d resolver = Inr pins" "distinct (map step_id (dg_steps d))"
  shows "list_all (\<lambda>t. \<not> unresolved resolver t) (dg_steps d)"
    "jm_get pins i = Option.bind (step_by_id (dg_steps d) i) (resolved resolver)"
  using plan_fold [where resolver = resolver and pins = "[]" and steps = "dg_steps d"] assms
  by (auto simp: planCapabilities_def step_by_id_find jm_get_def split: option.splits)

lemma plan_pins_keys: "r_foldl (plan_step resolver) pins steps = Inr pins' \<Longrightarrow> jm_ok pins \<Longrightarrow> jm_ok pins'"
proof (induction steps arbitrary: pins)
  case (Cons s steps)
  then show ?case by (auto simp: plan_step_eq r_bind_Inr split: if_splits option.splits)
qed simp

lemma pinned_not_drifted:
  assumes "planCapabilities d resolver = Inr pins" "distinct (map step_id (dg_steps d))" "e \<in> set pins"
  shows "\<not> drifted resolver d e"
proof -
  have ok: "jm_ok pins" using assms(1) plan_pins_keys [where resolver = resolver and pins = "[]"] by (simp add: planCapabilities_def)
  have "jm_get pins (fst e) = Some (snd e)" using in_set_jm_get [OF ok] assms(3) by (cases e) simp
  then obtain s where s: "step_by_id (dg_steps d) (fst e) = Some s" "resolved resolver s = Some (snd e)"
    using plan_Inr(2) [OF assms(1,2)] by (cases "step_by_id (dg_steps d) (fst e)") auto
  then obtain q r where "capabilityRefOf s = Some q" "resolver q = Some r" "snd e = pin_of r"
    by (auto simp: resolved_def bind_eq_Some_conv)
  then show ?thesis using s(1) by (simp add: drifted_def pin_of_def)
qed

text \<open>Claim C39: planning is exact. For a document with distinct step ids, \<open>planCapabilities\<close> either names
  the first skill or agent step the catalog does not resolve, or pins every skill and agent step to the
  record the catalog resolves it to, and pins nothing else. Against the same catalog the fresh pins have not
  drifted; against another catalog a step is reported exactly when it is pinned, still a skill or agent step,
  and resolves to nothing or to another content hash.\<close>

theorem plan_exact:
  assumes "distinct (map step_id (dg_steps d))"
  shows "case planCapabilities d resolver of
     Inl issue \<Rightarrow> \<exists>pre s post. dg_steps d = pre @ s # post \<and> unresolved resolver s
        \<and> list_all (\<lambda>t. \<not> unresolved resolver t) pre
        \<and> issue = \<lparr>pi_code = UnresolvedCapability, pi_stepId = step_id s\<rparr>
   | Inr pins \<Rightarrow> list_all (\<lambda>t. \<not> unresolved resolver t) (dg_steps d)
        \<and> (\<forall>i. jm_get pins i = Option.bind (step_by_id (dg_steps d) i) (resolved resolver))
        \<and> detectDrift pins resolver d = []
        \<and> (\<forall>later i. i \<in> pi_stepId ` set (detectDrift pins later d) \<longleftrightarrow>
             (\<exists>s q c. step_by_id (dg_steps d) i = Some s \<and> capabilityRefOf s = Some q \<and> jm_get pins i = Some c
                \<and> map_option ct_contentHash (later q) \<noteq> Some (rc_contentHash c)))"
proof (cases "planCapabilities d resolver")
  case (Inl issue)
  then show ?thesis using plan_fold [where resolver = resolver and pins = "[]" and steps = "dg_steps d"] by (simp add: planCapabilities_def)
next
  case (Inr pins)
  have ok: "jm_ok pins" using Inr plan_pins_keys [where resolver = resolver and pins = "[]"] by (simp add: planCapabilities_def)
  have "detectDrift pins resolver d = []"
    using pinned_not_drifted [OF Inr assms] by (simp add: detectDrift_def filter_empty_conv)
  moreover have "i \<in> pi_stepId ` set (detectDrift pins later d) \<longleftrightarrow>
      (\<exists>s q c. step_by_id (dg_steps d) i = Some s \<and> capabilityRefOf s = Some q \<and> jm_get pins i = Some c
         \<and> map_option ct_contentHash (later q) \<noteq> Some (rc_contentHash c))" for later i
  proof -
    have "i \<in> pi_stepId ` set (detectDrift pins later d) \<longleftrightarrow> (\<exists>c. (i, c) \<in> set pins \<and> drifted later d (i, c))"
      by (force simp: detectDrift_def)
    also have "\<dots> \<longleftrightarrow> (\<exists>c. jm_get pins i = Some c \<and> drifted later d (i, c))"
      using in_set_jm_get [OF ok] jm_get_in_set by metis
    also have "\<dots> \<longleftrightarrow> (\<exists>c. jm_get pins i = Some c \<and> (\<exists>s q. step_by_id (dg_steps d) i = Some s \<and> capabilityRefOf s = Some q
        \<and> map_option ct_contentHash (later q) \<noteq> Some (rc_contentHash c)))"
    proof -
      have "drifted later d (i, c) \<longleftrightarrow> (\<exists>s q. step_by_id (dg_steps d) i = Some s \<and> capabilityRefOf s = Some q
        \<and> map_option ct_contentHash (later q) \<noteq> Some (rc_contentHash c))" for c
        by (cases "step_by_id (dg_steps d) i"; cases "capabilityRefOf (the (step_by_id (dg_steps d) i))")
          (auto simp: drifted_def split: option.splits)
      then show ?thesis by simp
    qed
    finally show ?thesis by blast
  qed
  ultimately show ?thesis using Inr plan_Inr [OF Inr assms] by simp
qed

text \<open>One skill step, against two catalogs.\<close>

definition bare_control :: step_control where
  "bare_control = \<lparr>sc_needs = None, sc_when = None, sc_forEach = None, sc_maxParallel = None, sc_loop = None\<rparr>"

definition bare_exec :: exec_common where
  "bare_exec = \<lparr>ec_account = None, ec_backend = None, ec_cwd = None, ec_permissionMode = None, ec_budget = None,
     ec_retry = None, ec_outputSchema = None, ec_onError = None\<rparr>"

definition skill_document :: dag_document where
  "skill_document = \<lparr>dg_id = ''wf'', dg_name = ''n'', dg_description = None, dg_defaults = None, dg_inputs = None,
     dg_steps = [SkillStep ''s'' bare_control bare_exec \<lparr>cr_name = ''review'', cr_scope = None, cr_args = None\<rparr> None]\<rparr>"

definition skill_record :: "string \<Rightarrow> catalog_record" where
  "skill_record h = \<lparr>ct_capId = ''c'', ct_kind = ''skill'', ct_name = ''review'', ct_scope = ''user'', ct_sourcePath = ''/r'',
     ct_contentHash = h, ct_accounts = None\<rparr>"

lemma skill_document_plan:
  "planCapabilities skill_document (resolverFromRecords [skill_record ''h1'']) = Inr [(''s'', pin_of (skill_record ''h1''))]"
  by (simp add: planCapabilities_def skill_document_def plan_step_def resolverFromRecords_def skill_record_def)

theorem plan_exact_witness:
  "detectDrift [(''s'', pin_of (skill_record ''h1''))] (resolverFromRecords [skill_record ''h1'']) skill_document = []
   \<and> ''s'' \<in> pi_stepId ` set (detectDrift [(''s'', pin_of (skill_record ''h1''))] (\<lambda>_. None) skill_document)"
proof -
  have d: "distinct (map step_id (dg_steps skill_document))" by (simp add: skill_document_def)
  from plan_exact [OF d, of "resolverFromRecords [skill_record ''h1'']"] skill_document_plan
  have "detectDrift [(''s'', pin_of (skill_record ''h1''))] (resolverFromRecords [skill_record ''h1'']) skill_document = []"
    and m: "\<And>later i. i \<in> pi_stepId ` set (detectDrift [(''s'', pin_of (skill_record ''h1''))] later skill_document) \<longleftrightarrow>
      (\<exists>s q c. step_by_id (dg_steps skill_document) i = Some s \<and> capabilityRefOf s = Some q
        \<and> jm_get [(''s'', pin_of (skill_record ''h1''))] i = Some c \<and> map_option ct_contentHash (later q) \<noteq> Some (rc_contentHash c))"
    by simp_all
  moreover have "step_by_id (dg_steps skill_document) ''s'' = Some (hd (dg_steps skill_document))"
    by (simp add: step_by_id_def skill_document_def jm_get_def)
  moreover have "capabilityRefOf (hd (dg_steps skill_document)) \<noteq> None" by (simp add: skill_document_def)
  ultimately show ?thesis by (auto simp: jm_get_def)
qed

end
