(* ===== verification/Runner.thy ===== *)
theory Runner
  imports Pipeline_Store Template Planner
begin

text \<open>
  The pipeline walk (\<open>runPipeline\<close> of \<open>core/src/pipelines/runner.ts\<close>) as a machine whose steps are the
  stretches of code between two awaits. Everything the closures of \<open>runPipeline\<close> share is the record
  \<open>run_state\<close>; what a suspended call will do next is its program counter: \<open>step_task\<close> for \<open>runStep\<close> and
  \<open>runGate\<close>, \<open>worker\<close> for the workers of \<open>runBounded\<close>, \<open>slot_pc\<close> for \<open>runIterations\<close> with
  \<open>runOneAttempt\<close>. \<open>walk_step\<close> resumes one of them; which one, and the answers of the executor, the approval
  gate and the timer, are its argument, so a list of events is one interleaving. The model has a resumption
  point at every await and allows every order of resumptions: more orders than the event loop produces.

  Arguments of a resumption: the clock (read once per resumption), the id \<open>newId\<close> returns, and the node id
  \<open>registerStepNode\<close> returns. The publisher, executor, gate, reaper, lineage recorder and the timer are ports;
  calls to them are the log. A call that throws rejects the promise of its step and with it the walk; the
  other calls in flight go on. JavaScript numbers that count (iterations, attempts) are natural numbers.
\<close>

section \<open>Ports and state\<close>

record run_options =
  ro_reg :: registry
  ro_sha256 :: "string \<Rightarrow> string"
  ro_dec :: "rat \<Rightarrow> string"
  ro_runId :: string
  ro_pipelineId :: string
  ro_document :: dag_document
  ro_schemaHash :: string
  ro_inputs :: "(string \<times> json) list option"
  ro_workspace :: "string option"
  ro_workstreamId :: "string option"
  ro_pins :: pins
  ro_driftedSteps :: "string list"
  ro_gate :: bool
  ro_lineageCost :: bool
  ro_pauseAborted :: bool
  ro_cancelAborted :: bool

record invocation =
  iv_prompt :: "string option"
  iv_skillName :: "string option"
  iv_agentName :: "string option"
  iv_scriptPath :: "string option"

record exec_request =
  eq_runId :: string
  eq_stepId :: string
  eq_iteration :: nat
  eq_attempt :: nat
  eq_account :: string
  eq_backend :: string
  eq_cwd :: string
  eq_invocation :: invocation
  eq_maxTurns :: "nat option"
  eq_outputSchema :: "json option"

record exec_result =
  xr_ok :: bool
  xr_output :: "json option"
  xr_sessionId :: "string option"
  xr_costEstimatedUsd :: "jsnum option"
  xr_tokensIn :: "jsnum option"
  xr_tokensOut :: "jsnum option"
  xr_errorKind :: "string option"
  xr_outputSchemaFailed :: "bool option"

record run_status_update =
  ru_state :: pipeline_run_state
  ru_costEstimatedUsd :: jsnum
  ru_startedAt :: "nat option"
  ru_finishedAt :: "nat option"
  ru_resumable :: "bool option"

record step_status_update =
  su_stepId :: string
  su_iteration :: nat
  su_attempt :: nat
  su_state :: pipeline_step_state
  su_sessionId :: "string option"
  su_account :: "string option"
  su_costEstimatedUsd :: "jsnum option"
  su_tokensIn :: "jsnum option"
  su_tokensOut :: "jsnum option"
  su_startedAt :: "nat option"
  su_finishedAt :: "nat option"
  su_errorKind :: "string option"

record lineage_input =
  li_stepId :: string
  li_iteration :: nat
  li_account :: string
  li_result :: exec_result
  li_ok :: bool

datatype effect =
    RunStatus run_status_update
  | StepStatus step_status_update
  | Execute exec_request
  | GateRequest string string string "nat option"
  | RegisterNode lineage_input
  | WorkflowEdge string string string string
  | LandCost lineage_input
  | Sleep rat
  | ReapStep "string \<times> nat \<times> nat"
  | ReapAll
  | ClearReap "string \<times> nat \<times> nat"

datatype disposition = Completed | Failed | Skipped | Cancelled
datatype run_outcome = OCompleted | OFailed | OCancelled | OPaused
datatype walk_error = StoreError pipeline_store_error | UnknownAccountLabel string

record attempt_ctx =
  ax_account :: string
  ax_backend :: string
  ax_cwd :: string
  ax_invocation :: invocation
  ax_inputHash :: string
  ax_first :: nat

datatype slot_pc =
    SLoop nat bool
  | SAttempt nat attempt_ctx nat
  | SExec nat attempt_ctx nat string bool
  | SBack nat bool
  | SReturn bool

datatype worker = WIdle | WBusy nat slot_pc | WDone | WThrew

datatype step_task =
    TStart
  | TGate string
  | TScalar slot_pc
  | TFan "json list" nat "bool option list" "worker list"
  | TDone
  | TThrew walk_error

datatype walk_phase = Walking | Settled run_outcome | Rejected walk_error

record run_state =
  rs_store :: pipelines_db
  rs_disposition :: "(string, disposition) jmap"
  rs_remaining :: "string list"
  rs_stepOutputs :: "(string, json) jmap"
  rs_stepNodes :: "(string, string list) jmap"
  rs_totalCost :: jsnum
  rs_cancelled :: bool
  rs_paused :: bool
  rs_tasks :: "(string, step_task) jmap"
  rs_phase :: walk_phase
  rs_log :: "effect list"

record resumption =
  io_now :: nat
  io_id :: string
  io_node :: "string option"

definition emit :: "effect \<Rightarrow> run_state \<Rightarrow> run_state" where
  "emit e s = s\<lparr>rs_log := rs_log s @ [e]\<rparr>"

text \<open>A store call inside a stretch: the result continues, an exception ends it in the state reached so far.\<close>

definition with_store :: "run_state \<Rightarrow> (pipelines_db \<Rightarrow> pipeline_store_error + (pipelines_db \<times> 'r)) \<Rightarrow>
    (run_state \<Rightarrow> 'r \<Rightarrow> run_state \<times> (walk_error + 'a)) \<Rightarrow> run_state \<times> (walk_error + 'a)" where
  "with_store s op k = (case op (rs_store s) of
     Inl e \<Rightarrow> (s, Inl (StoreError e))
   | Inr (db, r) \<Rightarrow> k (s\<lparr>rs_store := db\<rparr>) r)"

definition with_read :: "run_state \<Rightarrow> pipeline_store_error + 'r \<Rightarrow> ('r \<Rightarrow> run_state \<times> (walk_error + 'a)) \<Rightarrow>
    run_state \<times> (walk_error + 'a)" where
  "with_read s m k = (case m of Inl e \<Rightarrow> (s, Inl (StoreError e)) | Inr r \<Rightarrow> k r)"

fun num_add :: "jsnum \<Rightarrow> jsnum \<Rightarrow> jsnum" where
  "num_add (Fin a) (Fin b) = Fin (a + b)"
| "num_add NaN _ = NaN"
| "num_add _ NaN = NaN"
| "num_add PosInf NegInf = NaN"
| "num_add NegInf PosInf = NaN"
| "num_add PosInf _ = PosInf"
| "num_add _ PosInf = PosInf"
| "num_add NegInf _ = NegInf"
| "num_add _ NegInf = NegInf"

section \<open>Resolution helpers\<close>

definition first_of :: "'a option \<Rightarrow> 'a option \<Rightarrow> 'a \<Rightarrow> 'a" where
  "first_of x y d = (case x of Some v \<Rightarrow> v | None \<Rightarrow> (case y of Some v \<Rightarrow> v | None \<Rightarrow> d))"

definition default_of :: "(dag_defaults \<Rightarrow> 'a option) \<Rightarrow> dag_document \<Rightarrow> 'a option" where
  "default_of f d = Option.bind (dg_defaults d) f"

definition exec_field :: "(exec_common \<Rightarrow> 'a option) \<Rightarrow> pipeline_step \<Rightarrow> 'a option" where
  "exec_field f step = Option.bind (step_exec step) f"

definition resolveAccount :: "pipeline_step \<Rightarrow> dag_document \<Rightarrow> string" where
  "resolveAccount step d = first_of (exec_field ec_account step) (default_of dd_account d) ''MAX_A''"

definition mapWireBackend :: "registry \<Rightarrow> string \<Rightarrow> string option" where
  "mapWireBackend reg account = map_option (\<lambda>wire. if wire = ''claude_code'' then ''claude'' else wire) (backendForLabel reg account)"

definition resolveBackend :: "registry \<Rightarrow> pipeline_step \<Rightarrow> dag_document \<Rightarrow> string \<Rightarrow> string option" where
  "resolveBackend reg step d account =
    (case or_else (exec_field ec_backend step) (default_of dd_backend d) of
       Some b \<Rightarrow> Some b
     | None \<Rightarrow> (case accountStepBackendsFor account of b # _ \<Rightarrow> Some b | [] \<Rightarrow> mapWireBackend reg account))"

definition resolveCwd :: "pipeline_step \<Rightarrow> dag_document \<Rightarrow> string" where
  "resolveCwd step d = first_of (exec_field ec_cwd step) (default_of dd_cwd d) ''${workspace}''"

definition pinned_name :: "resolved_capability option \<Rightarrow> string \<Rightarrow> string" where
  "pinned_name pin n = (case pin of Some p \<Rightarrow> rc_name p | None \<Rightarrow> n)"

fun renderInvocation :: "(rat \<Rightarrow> string) \<Rightarrow> pipeline_step \<Rightarrow> template_scope \<Rightarrow> resolved_capability option \<Rightarrow> invocation" where
  "renderInvocation dec (PromptStep _ _ _ p) scope pin =
    \<lparr>iv_prompt = Some (renderTemplate dec p scope), iv_skillName = None, iv_agentName = None, iv_scriptPath = None\<rparr>"
| "renderInvocation dec (SkillStep _ _ _ r p) scope pin =
    (let name = pinned_name pin (cr_name r);
         args = (case cr_args r of None \<Rightarrow> [] | Some a \<Rightarrow> renderTemplate dec a scope);
         invo = (if args = [] then ''/'' @ name else ''/'' @ name @ '' '' @ args);
         extra = (case p of None \<Rightarrow> [] | Some q \<Rightarrow> CHR 0x0A # renderTemplate dec q scope)
     in \<lparr>iv_prompt = Some (invo @ extra), iv_skillName = Some name, iv_agentName = None, iv_scriptPath = None\<rparr>)"
| "renderInvocation dec (AgentStep _ _ _ r p) scope pin =
    \<lparr>iv_prompt = Some (renderTemplate dec p scope), iv_skillName = None,
     iv_agentName = Some (pinned_name pin (cr_name r)), iv_scriptPath = None\<rparr>"
| "renderInvocation dec (WorkflowScriptStep _ _ _ path) scope pin =
    \<lparr>iv_prompt = None, iv_skillName = None, iv_agentName = None, iv_scriptPath = Some path\<rparr>"
| "renderInvocation dec (ApprovalStep _ _ _ _ _) scope pin =
    \<lparr>iv_prompt = None, iv_skillName = None, iv_agentName = None, iv_scriptPath = None\<rparr>"

fun step_kind :: "pipeline_step \<Rightarrow> string" where
  "step_kind (PromptStep _ _ _ _) = ''prompt''"
| "step_kind (SkillStep _ _ _ _ _) = ''skill''"
| "step_kind (AgentStep _ _ _ _ _) = ''agent''"
| "step_kind (WorkflowScriptStep _ _ _ _) = ''workflow-script''"
| "step_kind (ApprovalStep _ _ _ _ _) = ''approval''"

definition schema_failed :: "exec_result \<Rightarrow> bool" where
  "schema_failed r = (xr_outputSchemaFailed r = Some True)"

definition errorKindOf :: "exec_result \<Rightarrow> string" where
  "errorKindOf r = (if schema_failed r then ''output_schema'' else (case xr_errorKind r of Some k \<Rightarrow> k | None \<Rightarrow> ''error''))"

definition baseScope :: "run_options \<Rightarrow> run_state \<Rightarrow> json option \<Rightarrow> template_scope" where
  "baseScope env s item = \<lparr>ts_workspace = ro_workspace env,
     ts_inputs = (case ro_inputs env of None \<Rightarrow> [] | Some kvs \<Rightarrow> kvs),
     ts_steps = rs_stepOutputs s, ts_item = item\<rparr>"

section \<open>Publishing and journaling\<close>

definition step_update :: "string \<Rightarrow> nat \<Rightarrow> nat \<Rightarrow> pipeline_step_state \<Rightarrow> string option \<Rightarrow> step_status_update" where
  "step_update sid iteration attempt st account = \<lparr>su_stepId = sid, su_iteration = iteration, su_attempt = attempt,
     su_state = st, su_sessionId = None, su_account = account, su_costEstimatedUsd = None, su_tokensIn = None,
     su_tokensOut = None, su_startedAt = None, su_finishedAt = None, su_errorKind = None\<rparr>"

definition publishStep :: "step_status_update \<Rightarrow> run_state \<Rightarrow> run_state" where
  "publishStep u s = emit (StepStatus u) s"

definition publishRun :: "pipeline_run_state \<Rightarrow> nat option \<Rightarrow> nat option \<Rightarrow> bool option \<Rightarrow> run_state \<Rightarrow> run_state" where
  "publishRun st started finished resumable s = emit (RunStatus \<lparr>ru_state = st, ru_costEstimatedUsd = rs_totalCost s,
     ru_startedAt = started, ru_finishedAt = finished, ru_resumable = resumable\<rparr>) s"

definition attempt_of :: "run_options \<Rightarrow> resumption \<Rightarrow> string \<Rightarrow> nat \<Rightarrow> nat \<Rightarrow> string \<Rightarrow> pipeline_step_state \<Rightarrow> string option \<Rightarrow> new_attempt" where
  "attempt_of env io sid iteration attempt h st account = \<lparr>na_id = io_id io, na_runId = ro_runId env, na_stepId = sid,
     na_iteration = Some (num iteration), na_attempt = Some (num attempt), na_inputHash = h, na_status = Some st,
     na_sessionId = None, na_account = account\<rparr>"

definition journal :: "run_options \<Rightarrow> resumption \<Rightarrow> run_state \<Rightarrow> new_attempt \<Rightarrow>
    (run_state \<Rightarrow> attempt_row \<Rightarrow> run_state \<times> (walk_error + 'a)) \<Rightarrow> run_state \<times> (walk_error + 'a)" where
  "journal env io s inp k = with_store s (\<lambda>db. attempts_record (ro_reg env) db (io_now io) inp) k"

definition recordStepAttempt :: "run_options \<Rightarrow> resumption \<Rightarrow> run_state \<Rightarrow> string \<Rightarrow> nat \<Rightarrow> nat \<Rightarrow> string \<Rightarrow> string \<Rightarrow>
    pipeline_step_state \<Rightarrow> (run_state \<Rightarrow> run_state \<times> (walk_error + 'a)) \<Rightarrow> run_state \<times> (walk_error + 'a)" where
  "recordStepAttempt env io s sid iteration attempt h account st k =
    journal env io s (attempt_of env io sid iteration attempt h st (Some account)) (\<lambda>s _.
      k (publishStep ((step_update sid iteration attempt st (Some account))\<lparr>su_finishedAt := Some (io_now io)\<rparr>) s))"

definition gate_account :: "run_options \<Rightarrow> string" where
  "gate_account env = (case default_of dd_account (ro_document env) of Some a \<Rightarrow> a | None \<Rightarrow> ''MAX_A'')"

definition is_approval :: "pipeline_step \<Rightarrow> bool" where
  "is_approval step = (step_exec step = None)"

definition recordSkip :: "run_options \<Rightarrow> resumption \<Rightarrow> pipeline_step \<Rightarrow> run_state \<Rightarrow> run_state" where
  "recordSkip env io step s =
    (let account = (if is_approval step then gate_account env else resolveAccount step (ro_document env))
     in publishStep ((step_update (step_id step) 0 0 SSkipped (Some account))\<lparr>su_finishedAt := Some (io_now io)\<rparr>) s)"

definition latestAttemptNumber :: "run_options \<Rightarrow> run_state \<Rightarrow> string \<Rightarrow> nat \<Rightarrow> pipeline_store_error + int" where
  "latestAttemptNumber env s sid iteration =
    r_bind (listByRun (ro_reg env) (rs_store s) (ro_runId env)) (\<lambda>rows.
      Inr (foldl (\<lambda>m r. max m (int (sa_attempt r))) (-1)
        (filter (\<lambda>r. sa_stepId r = sid \<and> sa_iteration r = iteration) rows)))"

definition markStepDone :: "string \<Rightarrow> disposition \<Rightarrow> run_state \<Rightarrow> run_state" where
  "markStepDone sid d s = s\<lparr>rs_disposition := jm_set (rs_disposition s) sid d,
     rs_remaining := js_set_delete (rs_remaining s) sid\<rparr>"

definition need_blocks :: "run_options \<Rightarrow> run_state \<Rightarrow> string \<Rightarrow> bool" where
  "need_blocks env s n = (case jm_get (rs_disposition s) n of
     Some Completed \<Rightarrow> False
   | Some Failed \<Rightarrow> (case step_by_id (dg_steps (ro_document env)) n of
       None \<Rightarrow> True
     | Some need \<Rightarrow> exec_field ec_onError need \<noteq> Some ''continue'')
   | _ \<Rightarrow> True)"

definition skipByUpstream :: "run_options \<Rightarrow> run_state \<Rightarrow> pipeline_step \<Rightarrow> bool" where
  "skipByUpstream env s step = list_ex (need_blocks env s) (step_needs step)"

definition needsSatisfied :: "run_options \<Rightarrow> run_state \<Rightarrow> string \<Rightarrow> bool" where
  "needsSatisfied env s sid = (case step_by_id (dg_steps (ro_document env)) sid of
     None \<Rightarrow> False
   | Some step \<Rightarrow> list_all (\<lambda>n. jm_get (rs_disposition s) n \<noteq> None) (step_needs step))"

section \<open>One attempt\<close>

definition applyMemoHit :: "run_options \<Rightarrow> resumption \<Rightarrow> run_state \<Rightarrow> string \<Rightarrow> nat \<Rightarrow> attempt_row \<Rightarrow>
    (run_state \<Rightarrow> run_state \<times> (walk_error + 'a)) \<Rightarrow> run_state \<times> (walk_error + 'a)" where
  "applyMemoHit env io s sid iteration memo k =
    with_read s (latestAttemptNumber env s sid iteration) (\<lambda>latest.
      let nextAttempt = nat (latest + 1)
      in journal env io s (attempt_of env io sid iteration nextAttempt (sa_inputHash memo) SMemoized (sa_account memo)) (\<lambda>s _.
           let s = (case sa_outputJson memo of
                None \<Rightarrow> s
              | Some t \<Rightarrow> (case JSON_parse t of
                  Some v \<Rightarrow> s\<lparr>rs_stepOutputs := jm_set (rs_stepOutputs s) sid v\<rparr>
                | None \<Rightarrow> s\<lparr>rs_stepOutputs := jm_delete (rs_stepOutputs s) sid\<rparr>))
           in k (publishStep ((step_update sid iteration nextAttempt SMemoized (sa_account memo))
                 \<lparr>su_costEstimatedUsd := sa_costEstimatedUsd memo, su_finishedAt := Some (io_now io)\<rparr>) s)))"

definition request_of :: "run_options \<Rightarrow> pipeline_step \<Rightarrow> nat \<Rightarrow> attempt_ctx \<Rightarrow> nat \<Rightarrow> exec_request" where
  "request_of env step iteration ctx attempt = \<lparr>eq_runId = ro_runId env, eq_stepId = step_id step, eq_iteration = iteration,
     eq_attempt = attempt, eq_account = ax_account ctx, eq_backend = ax_backend ctx, eq_cwd = ax_cwd ctx,
     eq_invocation = ax_invocation ctx, eq_maxTurns = Option.bind (exec_field ec_budget step) sb_turns,
     eq_outputSchema = exec_field ec_outputSchema step\<rparr>"

text \<open>The head of the retry loop, up to the call of the executor.\<close>

definition attempt_head :: "run_options \<Rightarrow> resumption \<Rightarrow> run_state \<Rightarrow> pipeline_step \<Rightarrow> nat \<Rightarrow> nat \<Rightarrow> attempt_ctx \<Rightarrow> nat \<Rightarrow>
    run_state \<times> (walk_error + slot_pc)" where
  "attempt_head env io s step iteration loopIdx ctx attempt =
    (if rs_cancelled s then
       recordStepAttempt env io s (step_id step) iteration attempt (ax_inputHash ctx) (ax_account ctx) SCancelled
         (\<lambda>s. (s, Inr (SBack loopIdx False)))
     else
       journal env io s (attempt_of env io (step_id step) iteration attempt (ax_inputHash ctx) SRunning (Some (ax_account ctx))) (\<lambda>s row.
         let s = publishStep ((step_update (step_id step) iteration attempt SRunning (Some (ax_account ctx)))
                  \<lparr>su_startedAt := Some (io_now io)\<rparr>) s;
             s = emit (Execute (request_of env step iteration ctx attempt)) s
         in (s, Inr (SExec loopIdx ctx attempt (sa_id row) False))))"

definition inputs_identity :: "pipeline_step \<Rightarrow> string \<Rightarrow> string \<Rightarrow> string \<Rightarrow> invocation \<Rightarrow> resolved_capability option \<Rightarrow> json option \<Rightarrow> step_input_identity" where
  "inputs_identity step account backend cwd ivc pin item = \<lparr>ii_kind = step_kind step, ii_account = account, ii_backend = backend,
     ii_cwd = cwd, ii_prompt = iv_prompt ivc, ii_skillName = iv_skillName ivc, ii_agentName = iv_agentName ivc,
     ii_scriptPath = iv_scriptPath ivc, ii_capabilityContentHash = map_option rc_contentHash pin, ii_item = item\<rparr>"

definition attempt_context :: "run_options \<Rightarrow> run_state \<Rightarrow> pipeline_step \<Rightarrow> json option \<Rightarrow> string \<Rightarrow> attempt_ctx" where
  "attempt_context env s step item backend =
    (let account = resolveAccount step (ro_document env); cwd = resolveCwd step (ro_document env);
         pin = jm_get (ro_pins env) (step_id step);
         ivc = renderInvocation (ro_dec env) step (baseScope env s item) pin
     in \<lparr>ax_account = account, ax_backend = backend, ax_cwd = cwd, ax_invocation = ivc,
         ax_inputHash = computeInputHash (ro_sha256 env) (ro_dec env) (inputs_identity step account backend cwd ivc pin item),
         ax_first = 0\<rparr>)"

definition memo_lookup :: "run_options \<Rightarrow> run_state \<Rightarrow> pipeline_step \<Rightarrow> nat \<Rightarrow> string \<Rightarrow> pipeline_store_error + attempt_row option" where
  "memo_lookup env s step iteration h =
    (if step_id step \<in> set (ro_driftedSteps env) then Inr None
     else findMemoized (ro_reg env) (rs_store s) (ro_runId env) (step_id step) iteration h)"

definition begin_attempt :: "run_options \<Rightarrow> resumption \<Rightarrow> run_state \<Rightarrow> pipeline_step \<Rightarrow> nat \<Rightarrow> json option \<Rightarrow> nat \<Rightarrow>
    run_state \<times> (walk_error + slot_pc)" where
  "begin_attempt env io s step iteration item loopIdx =
    (case resolveBackend (ro_reg env) step (ro_document env) (resolveAccount step (ro_document env)) of
       None \<Rightarrow> (s, Inl (UnknownAccountLabel (resolveAccount step (ro_document env))))
     | Some backend \<Rightarrow>
        let ctx = attempt_context env s step item backend
        in with_read s (memo_lookup env s step iteration (ax_inputHash ctx)) (\<lambda>memo.
          case memo of
            Some row \<Rightarrow> applyMemoHit env io s (step_id step) iteration row (\<lambda>s. (s, Inr (SBack loopIdx True)))
          | None \<Rightarrow> with_read s (latestAttemptNumber env s (step_id step) iteration) (\<lambda>latest.
              let first = nat (latest + 1)
              in attempt_head env io s step iteration loopIdx (ctx\<lparr>ax_first := first\<rparr>) first)))"

section \<open>The answer of the executor\<close>

definition failed_result :: "string \<Rightarrow> exec_result" where
  "failed_result kind = \<lparr>xr_ok = False, xr_output = None, xr_sessionId = None, xr_costEstimatedUsd = None,
     xr_tokensIn = None, xr_tokensOut = None, xr_errorKind = Some kind, xr_outputSchemaFailed = None\<rparr>"

text \<open>\<open>executeWithBudget\<close> after the await: the result the attempt sees, and the call on the reaper.\<close>

definition budget_result :: "bool \<Rightarrow> exec_result option \<Rightarrow> exec_result" where
  "budget_result breached answer = (case answer of
     Some r \<Rightarrow> if breached then failed_result ''timeout'' else r
   | None \<Rightarrow> failed_result ''error'')"

definition budget_effect :: "exec_result option \<Rightarrow> string \<times> nat \<times> nat \<Rightarrow> effect" where
  "budget_effect answer key = (case answer of Some _ \<Rightarrow> ClearReap key | None \<Rightarrow> ReapStep key)"

definition succeeded :: "exec_result \<Rightarrow> bool" where
  "succeeded r = (xr_ok r \<and> \<not> schema_failed r)"

definition add_cost :: "exec_result \<Rightarrow> run_state \<Rightarrow> run_state" where
  "add_cost r s = (case xr_costEstimatedUsd r of None \<Rightarrow> s | Some c \<Rightarrow> s\<lparr>rs_totalCost := num_add (rs_totalCost s) c\<rparr>)"

definition result_patch :: "resumption \<Rightarrow> string \<Rightarrow> exec_result \<Rightarrow> attempt_result" where
  "result_patch io account r = \<lparr>ar_status = (if succeeded r then SCompleted else SFailed), ar_sessionId = xr_sessionId r,
     ar_account = Some account, ar_outputJson = map_option JSON_stringify (xr_output r),
     ar_costEstimatedUsd = xr_costEstimatedUsd r, ar_tokensIn = xr_tokensIn r, ar_tokensOut = xr_tokensOut r,
     ar_errorKind = (if succeeded r then None else Some (errorKindOf r)), ar_finishedAtMs = Some (num (io_now io))\<rparr>"

definition nodes_of :: "run_state \<Rightarrow> string \<Rightarrow> string list" where
  "nodes_of s sid = (case jm_get (rs_stepNodes s) sid of None \<Rightarrow> [] | Some ns \<Rightarrow> ns)"

definition recordLineageAndCost :: "run_options \<Rightarrow> resumption \<Rightarrow> pipeline_step \<Rightarrow> nat \<Rightarrow> string \<Rightarrow> exec_result \<Rightarrow> run_state \<Rightarrow> run_state" where
  "recordLineageAndCost env io step iteration account r s =
    (if \<not> ro_lineageCost env then s
     else let li = \<lparr>li_stepId = step_id step, li_iteration = iteration, li_account = account, li_result = r, li_ok = succeeded r\<rparr>;
              s = emit (RegisterNode li) s;
              s = (case io_node io of
                 None \<Rightarrow> s
               | Some node \<Rightarrow>
                  let s = s\<lparr>rs_stepNodes := jm_set (rs_stepNodes s) (step_id step) (nodes_of s (step_id step) @ [node])\<rparr>
                  in s\<lparr>rs_log := rs_log s @ concat (map (\<lambda>need.
                       map (\<lambda>from. WorkflowEdge need from (step_id step) node) (nodes_of s need)) (step_needs step))\<rparr>)
          in emit (LandCost li) s)"

definition result_update :: "resumption \<Rightarrow> string \<Rightarrow> nat \<Rightarrow> nat \<Rightarrow> string \<Rightarrow> exec_result \<Rightarrow> step_status_update" where
  "result_update io sid iteration attempt account r =
    (step_update sid iteration attempt (if succeeded r then SCompleted else SFailed) (Some account))
      \<lparr>su_sessionId := xr_sessionId r, su_costEstimatedUsd := xr_costEstimatedUsd r, su_tokensIn := xr_tokensIn r,
       su_tokensOut := xr_tokensOut r, su_finishedAt := Some (io_now io),
       su_errorKind := (if succeeded r then None else Some (errorKindOf r))\<rparr>"

definition maxAttempts :: "pipeline_step \<Rightarrow> nat" where
  "maxAttempts step = 1 + (case exec_field ec_retry step of None \<Rightarrow> 0 | Some p \<Rightarrow> rp_max p)"

definition retryable :: "pipeline_step \<Rightarrow> exec_result \<Rightarrow> bool" where
  "retryable step r =
    (let retryOn = (case Option.bind (exec_field ec_retry step) rp_retryOn of Some cs \<Rightarrow> cs | None \<Rightarrow> RETRY_ON_CLASSES);
         kind = (if schema_failed r then ''error'' else (case xr_errorKind r of Some k \<Rightarrow> k | None \<Rightarrow> ''error''))
     in schema_failed r \<or> kind \<in> set retryOn)"

definition after_failure :: "pipeline_step \<Rightarrow> nat \<Rightarrow> attempt_ctx \<Rightarrow> nat \<Rightarrow> exec_result \<Rightarrow> run_state \<Rightarrow> run_state \<times> (walk_error + slot_pc)" where
  "after_failure step loopIdx ctx attempt r s =
    (if attempt - ax_first ctx + 1 \<ge> maxAttempts step \<or> \<not> retryable step r \<or> rs_cancelled s then (s, Inr (SBack loopIdx False))
     else ((case Option.bind (exec_field ec_retry step) rp_backoffSec of
              Some b \<Rightarrow> if b > 0 then emit (Sleep (b * 1000)) s else s
            | None \<Rightarrow> s), Inr (SAttempt loopIdx ctx (attempt + 1))))"

definition after_answer :: "run_options \<Rightarrow> resumption \<Rightarrow> run_state \<Rightarrow> pipeline_step \<Rightarrow> nat \<Rightarrow> nat \<Rightarrow> attempt_ctx \<Rightarrow> nat \<Rightarrow>
    string \<Rightarrow> bool \<Rightarrow> exec_result option \<Rightarrow> run_state \<times> (walk_error + slot_pc)" where
  "after_answer env io s step iteration loopIdx ctx attempt rowId breached answer =
    (let r = budget_result breached answer;
         s = add_cost r (emit (budget_effect answer (step_id step, iteration, attempt)) s)
     in with_store s (\<lambda>db. attempts_complete (ro_reg env) db (io_now io) rowId (result_patch io (ax_account ctx) r)) (\<lambda>s _.
          let s = recordLineageAndCost env io step iteration (ax_account ctx) r s;
              s = publishStep (result_update io (step_id step) iteration attempt (ax_account ctx) r) s
          in if succeeded r
             then ((case xr_output r of None \<Rightarrow> s | Some v \<Rightarrow> s\<lparr>rs_stepOutputs := jm_set (rs_stepOutputs s) (step_id step) v\<rparr>),
                   Inr (SBack loopIdx True))
             else after_failure step loopIdx ctx attempt r s))"

section \<open>Iterations\<close>

definition maxLoops :: "pipeline_step \<Rightarrow> nat" where
  "maxLoops step = (case sc_loop (step_ctl step) of None \<Rightarrow> 1 | Some l \<Rightarrow> lc_maxIterations l)"

definition effectiveIteration :: "pipeline_step \<Rightarrow> nat \<Rightarrow> nat \<Rightarrow> nat" where
  "effectiveIteration step iteration loopIdx =
    (if sc_loop (step_ctl step) \<noteq> None then iteration * 1000 + loopIdx else iteration)"

definition after_attempt :: "run_options \<Rightarrow> run_state \<Rightarrow> pipeline_step \<Rightarrow> json option \<Rightarrow> nat \<Rightarrow> bool \<Rightarrow> slot_pc" where
  "after_attempt env s step item loopIdx ok =
    (if \<not> ok then SReturn False
     else case sc_loop (step_ctl step) of
       None \<Rightarrow> SReturn True
     | Some l \<Rightarrow>
        let scope = baseScope env s item
        in if evaluateCondition (ro_dec env) (renderTemplate (ro_dec env) (lc_until l) scope) scope then SReturn True
           else SLoop (loopIdx + 1) True)"

datatype slot_event = Continue | Answer exec_result | ExecutorThrew | WallClock

definition wallClock :: "pipeline_step \<Rightarrow> bool" where
  "wallClock step = (Option.bind (exec_field ec_budget step) sb_wallClockSec \<noteq> None)"

fun slot_step :: "run_options \<Rightarrow> resumption \<Rightarrow> run_state \<Rightarrow> pipeline_step \<Rightarrow> nat \<Rightarrow> json option \<Rightarrow> slot_pc \<Rightarrow> slot_event \<Rightarrow>
    (run_state \<times> (walk_error + slot_pc)) option" where
  "slot_step env io s step iteration item (SLoop loopIdx lastOk) Continue =
    Some (if \<not> loopIdx < maxLoops step then (s, Inr (SReturn lastOk))
          else if rs_cancelled s \<or> rs_paused s then (s, Inr (SReturn lastOk))
          else begin_attempt env io s step (effectiveIteration step iteration loopIdx) item loopIdx)"
| "slot_step env io s step iteration item (SAttempt loopIdx ctx attempt) Continue =
    Some (attempt_head env io s step (effectiveIteration step iteration loopIdx) loopIdx ctx attempt)"
| "slot_step env io s step iteration item (SExec loopIdx ctx attempt rowId breached) (Answer r) =
    Some (after_answer env io s step (effectiveIteration step iteration loopIdx) loopIdx ctx attempt rowId breached (Some r))"
| "slot_step env io s step iteration item (SExec loopIdx ctx attempt rowId breached) ExecutorThrew =
    Some (after_answer env io s step (effectiveIteration step iteration loopIdx) loopIdx ctx attempt rowId breached None)"
| "slot_step env io s step iteration item (SExec loopIdx ctx attempt rowId breached) WallClock =
    (if breached \<or> \<not> wallClock step then None
     else Some (emit (ReapStep (step_id step, effectiveIteration step iteration loopIdx, attempt)) s,
       Inr (SExec loopIdx ctx attempt rowId True)))"
| "slot_step env io s step iteration item (SBack loopIdx ok) Continue =
    Some (s, Inr (after_attempt env s step item loopIdx ok))"
| "slot_step env io s step iteration item pc ev = None"

section \<open>Steps\<close>

definition maxParallel :: "pipeline_step \<Rightarrow> nat" where
  "maxParallel step = max 1 (min 16 (case sc_maxParallel (step_ctl step) of None \<Rightarrow> 1 | Some n \<Rightarrow> n))"

fun gate_summary :: "pipeline_step \<Rightarrow> string" where
  "gate_summary (ApprovalStep i _ (Some summary) _ _) = summary"
| "gate_summary step = ''pipeline gate: '' @ step_id step"

fun gate_ttl :: "pipeline_step \<Rightarrow> nat option" where
  "gate_ttl (ApprovalStep _ _ _ (Some sec) _) = Some (sec * 1000)"
| "gate_ttl _ = None"

fun gate_onTimeout :: "pipeline_step \<Rightarrow> string option" where
  "gate_onTimeout (ApprovalStep _ _ _ _ t) = t"
| "gate_onTimeout _ = None"

definition gate_patch :: "pipeline_step_state \<Rightarrow> attempt_result" where
  "gate_patch st = \<lparr>ar_status = st, ar_sessionId = None, ar_account = None, ar_outputJson = None, ar_costEstimatedUsd = None,
     ar_tokensIn = None, ar_tokensOut = None, ar_errorKind = None, ar_finishedAtMs = None\<rparr>"

definition gate_state :: "disposition \<Rightarrow> pipeline_step_state" where
  "gate_state d = (case d of Completed \<Rightarrow> SCompleted | Cancelled \<Rightarrow> SCancelled | _ \<Rightarrow> SFailed)"

text \<open>The end of \<open>runGate\<close> with the disposition that \<open>runStep\<close> marks.\<close>

definition settle_gate :: "run_options \<Rightarrow> resumption \<Rightarrow> run_state \<Rightarrow> pipeline_step \<Rightarrow> string \<Rightarrow> disposition \<Rightarrow>
    run_state \<times> (walk_error + step_task)" where
  "settle_gate env io s step rowId d =
    with_store s (\<lambda>db. attempts_complete (ro_reg env) db (io_now io) rowId (gate_patch (gate_state d))) (\<lambda>s _.
      let s = publishStep ((step_update (step_id step) 0 0 (gate_state d) (Some (gate_account env)))\<lparr>su_finishedAt := Some (io_now io)\<rparr>) s
      in (markStepDone (step_id step) d s, Inr TDone))"

definition runGate :: "run_options \<Rightarrow> resumption \<Rightarrow> run_state \<Rightarrow> pipeline_step \<Rightarrow> run_state \<times> (walk_error + step_task)" where
  "runGate env io s step =
    (let s = publishStep ((step_update (step_id step) 0 0 SAwaitingApproval (Some (gate_account env)))\<lparr>su_startedAt := Some (io_now io)\<rparr>) s
     in journal env io s (attempt_of env io (step_id step) 0 0 (''gate:'' @ step_id step) SAwaitingApproval (Some (gate_account env))) (\<lambda>s row.
          if \<not> ro_gate env
          then settle_gate env io s step (sa_id row) (if gate_onTimeout step = Some ''continue'' then Completed else Failed)
          else (emit (GateRequest (step_id step) (gate_summary step) (gate_account env) (gate_ttl step)) s, Inr (TGate (sa_id row)))))"

datatype gate_outcome = GAllowed | GDenied | GExpired | GSuperseded

definition gate_disposition :: "pipeline_step \<Rightarrow> gate_outcome \<Rightarrow> disposition" where
  "gate_disposition step g = (if g = GAllowed then Completed
     else if g = GExpired \<and> gate_onTimeout step = Some ''continue'' then Completed
     else if g = GSuperseded then Cancelled else Failed)"

definition when_false :: "run_options \<Rightarrow> run_state \<Rightarrow> pipeline_step \<Rightarrow> bool" where
  "when_false env s step = (case sc_when (step_ctl step) of
     None \<Rightarrow> False
   | Some c \<Rightarrow> let scope = baseScope env s None
               in \<not> evaluateCondition (ro_dec env) (renderTemplate (ro_dec env) c scope) scope)"

definition runStep :: "run_options \<Rightarrow> resumption \<Rightarrow> run_state \<Rightarrow> pipeline_step \<Rightarrow> run_state \<times> (walk_error + step_task)" where
  "runStep env io s0 step =
    (let s = s0\<lparr>rs_remaining := js_set_delete (rs_remaining s0) (step_id step)\<rparr>
     in if skipByUpstream env s step \<or> when_false env s step
        then (markStepDone (step_id step) Skipped (recordSkip env io step s), Inr TDone)
        else if is_approval step then runGate env io s step
        else case sc_forEach (step_ctl step) of
          Some expr \<Rightarrow>
            let items = resolveArray expr (baseScope env s None)
            in if items = [] then (markStepDone (step_id step) Skipped (recordSkip env io step s), Inr TDone)
               else (s, Inr (TFan items 0 (replicate (length items) None) (replicate (min (maxParallel step) (length items)) WIdle)))
        | None \<Rightarrow> (s, Inr (TScalar (SLoop 0 False))))"

definition done_of :: "bool \<Rightarrow> disposition" where
  "done_of ok = (if ok then Completed else Failed)"

section \<open>The walk\<close>

datatype walk_event =
    EGeneration
  | EStep string
  | ESlot string nat slot_event
  | EGate string gate_outcome
  | EPause
  | ECancel

definition set_task :: "string \<Rightarrow> step_task \<Rightarrow> run_state \<Rightarrow> run_state" where
  "set_task sid t s = s\<lparr>rs_tasks := jm_set (rs_tasks s) sid t\<rparr>"

text \<open>A rejection rejects the walk, once; the other tasks stay as they are.\<close>

definition reject :: "walk_error \<Rightarrow> run_state \<Rightarrow> run_state" where
  "reject e s = (if rs_phase s = Walking then s\<lparr>rs_phase := Rejected e\<rparr> else s)"

definition put_task :: "string \<Rightarrow> run_state \<times> (walk_error + step_task) \<Rightarrow> run_state" where
  "put_task sid x = (case x of
     (s, Inr t) \<Rightarrow> set_task sid t s
   | (s, Inl e) \<Rightarrow> reject e (set_task sid (TThrew e) s))"

definition run_state_of :: "run_outcome \<Rightarrow> pipeline_run_state" where
  "run_state_of oc = (case oc of OCompleted \<Rightarrow> RCompleted | OCancelled \<Rightarrow> RCancelled | OPaused \<Rightarrow> RPaused | OFailed \<Rightarrow> RFailed)"

definition outcome_of :: "run_state \<Rightarrow> run_outcome" where
  "outcome_of s = (if rs_cancelled s then OCancelled else if rs_paused s then OPaused
     else if Failed \<in> set (jm_values (rs_disposition s)) then OFailed else OCompleted)"

definition settle_run :: "run_options \<Rightarrow> resumption \<Rightarrow> run_state \<Rightarrow> run_state" where
  "settle_run env io s =
    (let oc = outcome_of s; finished = (if oc = OPaused then None else Some (io_now io))
     in case runs_setStatus (rs_store s) (io_now io) (ro_runId env) (run_state_of oc)
            \<lparr>rp_cost = Some (rs_totalCost s), rp_startedAtMs = None, rp_finishedAtMs = map_option num finished\<rparr> of
          Inl e \<Rightarrow> s\<lparr>rs_phase := Rejected (StoreError e)\<rparr>
        | Inr (db, _) \<Rightarrow> (publishRun (run_state_of oc) None finished
             (if oc = OPaused \<or> oc = OFailed then Some True else None) (s\<lparr>rs_store := db\<rparr>))\<lparr>rs_phase := Settled oc\<rparr>)"

definition generation :: "run_options \<Rightarrow> resumption \<Rightarrow> run_state \<Rightarrow> run_state" where
  "generation env io s =
    (if rs_cancelled s \<or> rs_paused s then settle_run env io s
     else let ready = filter (needsSatisfied env s) (rs_remaining s)
          in if ready = [] then settle_run env io s else s\<lparr>rs_tasks := map (\<lambda>sid. (sid, TStart)) ready\<rparr>)"

definition slot_key :: "pipeline_step \<Rightarrow> nat \<Rightarrow> slot_pc \<Rightarrow> (string \<times> nat \<times> nat) list" where
  "slot_key step iteration pc = (case pc of
     SExec loopIdx _ attempt _ _ \<Rightarrow> [(step_id step, effectiveIteration step iteration loopIdx, attempt)] | _ \<Rightarrow> [])"

definition task_keys :: "run_options \<Rightarrow> string \<times> step_task \<Rightarrow> (string \<times> nat \<times> nat) list" where
  "task_keys env e = (case step_by_id (dg_steps (ro_document env)) (fst e) of
     None \<Rightarrow> []
   | Some step \<Rightarrow> (case snd e of
       TScalar pc \<Rightarrow> slot_key step 0 pc
     | TFan _ _ _ ws \<Rightarrow> concat (map (\<lambda>w. case w of WBusy i pc \<Rightarrow> slot_key step i pc | _ \<Rightarrow> []) ws)
     | _ \<Rightarrow> []))"

definition cancel_walk :: "run_options \<Rightarrow> run_state \<Rightarrow> run_state" where
  "cancel_walk env s = s\<lparr>rs_cancelled := True,
     rs_log := rs_log s @ ReapAll # map ReapStep (concat (map (task_keys env) (rs_tasks s)))\<rparr>"

text \<open>One resumption of a worker of \<open>runBounded\<close>. When its slot throws, the worker's promise rejects and
  with it the step; the other workers of the step are not stopped.\<close>

definition fan_step :: "run_options \<Rightarrow> resumption \<Rightarrow> run_state \<Rightarrow> pipeline_step \<Rightarrow> json list \<Rightarrow> nat \<Rightarrow> bool option list \<Rightarrow> worker list \<Rightarrow>
    nat \<Rightarrow> slot_event \<Rightarrow> (run_state \<times> (walk_error + step_task)) option" where
  "fan_step env io s step items nxt results ws w ev =
    (if \<not> w < length ws then None
     else case ws ! w of
       WIdle \<Rightarrow> if ev \<noteq> Continue then None
          else Some (s, Inr (TFan items (nxt + 1) results
                 (ws[w := (if nxt < length items then WBusy nxt (SLoop 0 False) else WDone)])))
     | WBusy i (SReturn ok) \<Rightarrow> if ev \<noteq> Continue then None
          else Some (s, Inr (TFan items nxt (results[i := Some ok]) (ws[w := WIdle])))
     | WBusy i pc \<Rightarrow> map_option (\<lambda>(s, x). case x of
            Inl e \<Rightarrow> (reject e s, Inr (TFan items nxt results (ws[w := WThrew])))
          | Inr pc' \<Rightarrow> (s, Inr (TFan items nxt results (ws[w := WBusy i pc']))))
          (slot_step env io s step i (Some (items ! i)) pc ev)
     | _ \<Rightarrow> None)"

definition task_slot :: "run_options \<Rightarrow> resumption \<Rightarrow> run_state \<Rightarrow> pipeline_step \<Rightarrow> step_task \<Rightarrow> nat \<Rightarrow> slot_event \<Rightarrow>
    (run_state \<times> (walk_error + step_task)) option" where
  "task_slot env io s step t w ev = (case t of
     TScalar pc \<Rightarrow> if w \<noteq> 0 then None
        else map_option (\<lambda>(s, x). (s, case x of Inl e \<Rightarrow> Inl e | Inr pc' \<Rightarrow> Inr (TScalar pc'))) (slot_step env io s step 0 None pc ev)
   | TFan items nxt results ws \<Rightarrow> fan_step env io s step items nxt results ws w ev
   | _ \<Rightarrow> None)"

text \<open>The start of a step, and its end once its slots have returned.\<close>

definition task_step :: "run_options \<Rightarrow> resumption \<Rightarrow> run_state \<Rightarrow> pipeline_step \<Rightarrow> step_task \<Rightarrow>
    (run_state \<times> (walk_error + step_task)) option" where
  "task_step env io s step t = (case t of
     TStart \<Rightarrow> Some (runStep env io s step)
   | TScalar (SReturn ok) \<Rightarrow> Some (markStepDone (step_id step) (done_of ok) s, Inr TDone)
   | TFan items nxt results ws \<Rightarrow> if list_all (\<lambda>w. w = WDone) ws
        then Some (markStepDone (step_id step) (done_of (list_all (\<lambda>r. r = Some True) results)) s, Inr TDone) else None
   | _ \<Rightarrow> None)"

definition task_gate :: "run_options \<Rightarrow> resumption \<Rightarrow> run_state \<Rightarrow> pipeline_step \<Rightarrow> step_task \<Rightarrow> gate_outcome \<Rightarrow>
    (run_state \<times> (walk_error + step_task)) option" where
  "task_gate env io s step t g = (case t of
     TGate rowId \<Rightarrow> Some (settle_gate env io s step rowId (gate_disposition step g)) | _ \<Rightarrow> None)"

definition with_task :: "run_options \<Rightarrow> run_state \<Rightarrow> string \<Rightarrow>
    (pipeline_step \<Rightarrow> step_task \<Rightarrow> (run_state \<times> (walk_error + step_task)) option) \<Rightarrow> run_state option" where
  "with_task env s sid f = (case (step_by_id (dg_steps (ro_document env)) sid, jm_get (rs_tasks s) sid) of
     (Some step, Some t) \<Rightarrow> map_option (put_task sid) (f step t) | _ \<Rightarrow> None)"

definition walk_step :: "run_options \<Rightarrow> run_state \<Rightarrow> resumption \<times> walk_event \<Rightarrow> run_state option" where
  "walk_step env s e = (case e of (io, ev) \<Rightarrow> (case ev of
     EGeneration \<Rightarrow> if rs_phase s = Walking \<and> list_all (\<lambda>(_, t). t = TDone) (rs_tasks s)
        then Some (generation env io s) else None
   | EStep sid \<Rightarrow> with_task env s sid (task_step env io s)
   | ESlot sid w sev \<Rightarrow> with_task env s sid (\<lambda>step t. task_slot env io s step t w sev)
   | EGate sid g \<Rightarrow> with_task env s sid (\<lambda>step t. task_gate env io s step t g)
   | EPause \<Rightarrow> if rs_phase s = Walking \<and> \<not> rs_paused s then Some (s\<lparr>rs_paused := True\<rparr>) else None
   | ECancel \<Rightarrow> if rs_phase s = Walking \<and> \<not> rs_cancelled s then Some (cancel_walk env s) else None))"

definition step_ids :: "dag_document \<Rightarrow> string list" where
  "step_ids d = jm_keys (foldl (\<lambda>m s. jm_set m (step_id s) s) [] (dg_steps d))"

definition walk_init :: "run_options \<Rightarrow> pipelines_db \<Rightarrow> nat \<Rightarrow> run_state" where
  "walk_init env db now =
    (let s = \<lparr>rs_store = db, rs_disposition = [], rs_remaining = step_ids (ro_document env), rs_stepOutputs = [], rs_stepNodes = [],
              rs_totalCost = Fin 0, rs_cancelled = ro_cancelAborted env, rs_paused = ro_pauseAborted env, rs_tasks = [],
              rs_phase = Walking, rs_log = []\<rparr>
     in case runs_setStatus db now (ro_runId env) RRunning \<lparr>rp_cost = None, rp_startedAtMs = Some (num now), rp_finishedAtMs = None\<rparr> of
          Inl e \<Rightarrow> s\<lparr>rs_phase := Rejected (StoreError e)\<rparr>
        | Inr (db', _) \<Rightarrow> publishRun RRunning (Some now) None None (s\<lparr>rs_store := db'\<rparr>))"

fun walk_run :: "run_options \<Rightarrow> run_state \<Rightarrow> (resumption \<times> walk_event) list \<Rightarrow> run_state option" where
  "walk_run env s [] = Some s"
| "walk_run env s (e # es) = Option.bind (walk_step env s e) (\<lambda>s'. walk_run env s' es)"

end
