(* ===== verification/Runner_Walk.thy ===== *)
theory Runner_Walk
  imports Runner
begin

text \<open>
  Every walk of a pipeline ends. The frame lemmas first: what a stretch of code inside an attempt leaves
  alone (\<open>control\<close>: the tasks, the remaining steps, the dispositions, the flags and the phase). Then the
  amount of work each program counter has left, which every resumption decreases, whatever the executor, the
  gate and the timers answer and in whatever order the calls in flight are resumed.
\<close>

section \<open>Frames\<close>

definition control :: "run_state \<Rightarrow> (string, step_task) jmap \<times> string list \<times> (string, disposition) jmap \<times> bool \<times> bool \<times> walk_phase" where
  "control s = (rs_tasks s, rs_remaining s, rs_disposition s, rs_cancelled s, rs_paused s, rs_phase s)"

lemma control_simps [simp]:
  "control (emit e s) = control s"
  "control (publishStep u s) = control s"
  "control (publishRun a b c d s) = control s"
  "control (s\<lparr>rs_store := db\<rparr>) = control s"
  "control (s\<lparr>rs_stepOutputs := os\<rparr>) = control s"
  "control (s\<lparr>rs_stepNodes := ns\<rparr>) = control s"
  "control (s\<lparr>rs_totalCost := tc\<rparr>) = control s"
  "control (s\<lparr>rs_log := l\<rparr>) = control s"
  "control (recordSkip env io step s) = control s"
  "control (add_cost r s) = control s"
  by (simp_all add: control_def emit_def publishStep_def publishRun_def recordSkip_def add_cost_def Let_def split: option.splits)

lemma control_lineage [simp]: "control (recordLineageAndCost env io step i a r s) = control s"
proof -
  have c: "control (s\<lparr>rs_stepNodes := ns, rs_log := l\<rparr>) = control s" for s ns l by (simp add: control_def)
  show ?thesis unfolding recordLineageAndCost_def Let_def by (simp add: c split: option.splits)
qed

lemma with_store_control:
  "(\<And>s' r. control s' = control s \<Longrightarrow> control (fst (k s' r)) = control s) \<Longrightarrow> control (fst (with_store s op k)) = control s"
  by (auto simp: with_store_def split: sum.splits)

lemma with_read_control:
  "(\<And>r. m = Inr r \<Longrightarrow> control (fst (k r)) = control s) \<Longrightarrow> control (fst (with_read s m k)) = control s"
  by (auto simp: with_read_def split: sum.splits)

lemma journal_control:
  "(\<And>s' r. control s' = control s \<Longrightarrow> control (fst (k s' r)) = control s) \<Longrightarrow> control (fst (journal env io s inp k)) = control s"
  unfolding journal_def by (rule with_store_control)

lemma attempt_head_control: "control (fst (attempt_head env io s step i l ctx a)) = control s"
  unfolding attempt_head_def recordStepAttempt_def Let_def
  by (cases "rs_cancelled s") (simp_all, (rule journal_control, simp)+)

lemma memo_hit_control:
  assumes "\<And>s'. control s' = control s \<Longrightarrow> control (fst (k s')) = control s"
  shows "control (fst (applyMemoHit env io s sid i memo k)) = control s"
  unfolding applyMemoHit_def Let_def
  by (rule with_read_control, rule journal_control, rule assms) (simp split: option.splits)

lemma begin_attempt_control: "control (fst (begin_attempt env io s step i item l)) = control s"
proof (cases "resolveBackend (ro_reg env) step (ro_document env) (resolveAccount step (ro_document env))")
  case (Some b)
  have "control (fst (with_read s m (\<lambda>memo. case memo of
      Some row \<Rightarrow> applyMemoHit env io s (step_id step) i row (\<lambda>s. (s, Inr (SBack l True)))
    | None \<Rightarrow> with_read s m' (\<lambda>latest. attempt_head env io s step i l (ctx latest) (fa latest))))) = control s"
    for m m' ctx fa
  proof (rule with_read_control, goal_cases)
    case (1 memo)
    then show ?case
      by (cases memo) (simp_all add: with_read_control memo_hit_control attempt_head_control)
  qed
  then show ?thesis using Some by (simp add: begin_attempt_def Let_def)
qed (simp add: begin_attempt_def)

lemma after_failure_control: "control (fst (after_failure step l ctx a r s)) = control s"
  by (simp add: after_failure_def split: option.splits)

lemma after_answer_control: "control (fst (after_answer env io s step i l ctx a row b ans)) = control s"
proof -
  have c: "control (add_cost r (emit e s)) = control s" for r e by simp
  show ?thesis unfolding after_answer_def Let_def
    by (rule trans [OF with_store_control c]) (simp add: after_failure_control split: option.splits)
qed

lemma slot_step_control:
  "slot_step env io s step i item pc ev = Some x \<Longrightarrow> control (fst x) = control s"
  by (cases "(env, io, s, step, i, item, pc, ev)" rule: slot_step.cases)
    (auto simp: begin_attempt_control attempt_head_control after_answer_control split: if_splits)

section \<open>The work left in a slot\<close>

definition pass_work :: "pipeline_step \<Rightarrow> nat" where
  "pass_work step = 4 * maxAttempts step + 5"

definition attempts_left :: "pipeline_step \<Rightarrow> attempt_ctx \<Rightarrow> nat \<Rightarrow> nat" where
  "attempts_left step ctx a = maxAttempts step + ax_first ctx - a"

fun slot_work :: "pipeline_step \<Rightarrow> slot_pc \<Rightarrow> nat" where
  "slot_work step (SLoop l ok) = (maxLoops step - l) * pass_work step + 1"
| "slot_work step (SAttempt l ctx a) = (maxLoops step - Suc l) * pass_work step + 5 + 4 * attempts_left step ctx a"
| "slot_work step (SExec l ctx a row b) =
    (maxLoops step - Suc l) * pass_work step + 3 + 4 * attempts_left step ctx a + (if b then 0 else 1)"
| "slot_work step (SBack l ok) = (maxLoops step - Suc l) * pass_work step + 2"
| "slot_work step (SReturn ok) = 0"

lemma with_store_snd:
  "snd (with_store s op k) = Inr pc \<Longrightarrow> \<exists>s' r. snd (k s' r) = Inr pc"
  by (auto simp: with_store_def split: sum.splits)

lemma with_read_snd:
  "snd (with_read s m k) = Inr pc \<Longrightarrow> \<exists>r. m = Inr r \<and> snd (k r) = Inr pc"
  by (auto simp: with_read_def split: sum.splits)

lemma journal_snd: "snd (journal env io s inp k) = Inr pc \<Longrightarrow> \<exists>s' r. snd (k s' r) = Inr pc"
  unfolding journal_def by (rule with_store_snd)

lemma attempt_head_snd:
  assumes "snd (attempt_head env io s step i l ctx a) = Inr pc"
  shows "pc = SBack l False \<or> (\<exists>row. pc = SExec l ctx a row False)"
proof (cases "rs_cancelled s")
  case True
  then show ?thesis using assms journal_snd unfolding attempt_head_def recordStepAttempt_def
    by (fastforce simp: Let_def)
next
  case False
  then show ?thesis using assms journal_snd unfolding attempt_head_def by (fastforce simp: Let_def)
qed

lemma memo_hit_snd:
  "snd (applyMemoHit env io s sid i memo k) = Inr pc \<Longrightarrow> \<exists>s'. snd (k s') = Inr pc"
  unfolding applyMemoHit_def Let_def by (drule with_read_snd, clarify, drule journal_snd, clarify) blast

lemma begin_attempt_snd:
  assumes "snd (begin_attempt env io s step i item l) = Inr pc"
  shows "(\<exists>ok. pc = SBack l ok) \<or> (\<exists>ctx row. pc = SExec l ctx (ax_first ctx) row False)"
proof (cases "resolveBackend (ro_reg env) step (ro_document env) (resolveAccount step (ro_document env))")
  case (Some b)
  let ?ctx = "attempt_context env s step item b"
  let ?k = "\<lambda>memo. case memo of
      Some row \<Rightarrow> applyMemoHit env io s (step_id step) i row (\<lambda>s. (s, Inr (SBack l True)))
    | None \<Rightarrow> with_read s (latestAttemptNumber env s (step_id step) i) (\<lambda>latest.
        attempt_head env io s step i l (?ctx\<lparr>ax_first := nat (latest + 1)\<rparr>) (nat (latest + 1)))"
  have "snd (with_read s (memo_lookup env s step i (ax_inputHash ?ctx)) ?k) = Inr pc"
    using assms Some by (simp add: begin_attempt_def Let_def)
  from with_read_snd [OF this] obtain memo where memo: "snd (?k memo) = Inr pc" by blast
  show ?thesis
  proof (cases memo)
    case None
    then have "snd (with_read s (latestAttemptNumber env s (step_id step) i) (\<lambda>latest.
        attempt_head env io s step i l (?ctx\<lparr>ax_first := nat (latest + 1)\<rparr>) (nat (latest + 1)))) = Inr pc"
      using memo by simp
    from with_read_snd [OF this] obtain latest where
      "snd (attempt_head env io s step i l (?ctx\<lparr>ax_first := nat (latest + 1)\<rparr>) (nat (latest + 1))) = Inr pc" by blast
    from attempt_head_snd [OF this] show ?thesis
    proof
      assume "\<exists>row. pc = SExec l (?ctx\<lparr>ax_first := nat (latest + 1)\<rparr>) (nat (latest + 1)) row False"
      then obtain row where "pc = SExec l (?ctx\<lparr>ax_first := nat (latest + 1)\<rparr>)
          (ax_first (?ctx\<lparr>ax_first := nat (latest + 1)\<rparr>)) row False" by auto
      then show ?thesis by blast
    qed blast
  next
    case (Some row)
    then have "snd (applyMemoHit env io s (step_id step) i row (\<lambda>s. (s, Inr (SBack l True)))) = Inr pc"
      using memo by simp
    from memo_hit_snd [OF this] show ?thesis by auto
  qed
qed (use assms in \<open>simp add: begin_attempt_def\<close>)

lemma after_failure_snd:
  assumes "snd (after_failure step l ctx a r s) = Inr pc"
  shows "pc = SBack l False \<or> (pc = SAttempt l ctx (a + 1) \<and> a - ax_first ctx + 1 < maxAttempts step)"
  using assms by (auto simp: after_failure_def split: if_splits option.splits)

lemma after_answer_snd:
  assumes "snd (after_answer env io s step i l ctx a row b ans) = Inr pc"
  shows "(\<exists>ok. pc = SBack l ok) \<or> (pc = SAttempt l ctx (a + 1) \<and> a - ax_first ctx + 1 < maxAttempts step)"
proof -
  have "pc = SBack l True \<or> (\<exists>s'. snd (after_failure step l ctx a (budget_result b ans) s') = Inr pc)"
    using with_store_snd [OF assms [unfolded after_answer_def Let_def]] by (auto split: if_splits)
  then show ?thesis by (auto dest!: after_failure_snd)
qed

lemma after_answer_work:
  assumes "snd (after_answer env io s step i l ctx a row b ans) = Inr pc"
  shows "slot_work step pc < slot_work step (SExec l ctx a row b)"
  using after_answer_snd [OF assms]
proof
  assume *: "pc = SAttempt l ctx (a + 1) \<and> a - ax_first ctx + 1 < maxAttempts step"
  then have "attempts_left step ctx a = Suc (attempts_left step ctx (a + 1))" unfolding attempts_left_def by arith
  then show ?thesis using * by simp
qed auto

lemma slot_work_decreases:
  assumes "slot_step env io s step i item pc ev = Some (s', Inr pc')"
  shows "slot_work step pc' < slot_work step pc"
  using assms
proof (cases "(env, io, s, step, i, item, pc, ev)" rule: slot_step.cases)
  case (1 env io s step i item l ok)
  show ?thesis
  proof (cases "l < maxLoops step \<and> \<not> rs_cancelled s \<and> \<not> rs_paused s")
    case True
    then have "snd (begin_attempt env io s step (effectiveIteration step i l) item l) = Inr pc'"
      using assms 1 by (auto split: if_splits)
    moreover have "maxLoops step - l = Suc (maxLoops step - Suc l)" using True by (simp add: Suc_diff_Suc)
    ultimately show ?thesis using 1 begin_attempt_snd by (fastforce simp: pass_work_def attempts_left_def)
  next
    case False
    then show ?thesis using assms 1 by (auto split: if_splits)
  qed
next
  case (2 env io s step i item l ctx a)
  then have "snd (attempt_head env io s step (effectiveIteration step i l) l ctx a) = Inr pc'" using assms by auto
  then show ?thesis using 2 attempt_head_snd by fastforce
next
  case (3 env io s step i item l ctx a row b r)
  then have "snd (after_answer env io s step (effectiveIteration step i l) l ctx a row b (Some r)) = Inr pc'" using assms by auto
  then show ?thesis using 3 after_answer_work by fastforce
next
  case (4 env io s step i item l ctx a row b)
  then have "snd (after_answer env io s step (effectiveIteration step i l) l ctx a row b None) = Inr pc'" using assms by auto
  then show ?thesis using 4 after_answer_work by fastforce
next
  case (6 env io s step i item l ok)
  then have "pc' = after_attempt env s step item l ok" using assms by auto
  then show ?thesis using 6 by (auto simp: after_attempt_def Let_def split: option.splits)
qed (auto split: if_splits)

section \<open>The work left in a walk\<close>

fun worker_work :: "pipeline_step \<Rightarrow> worker \<Rightarrow> nat" where
  "worker_work step WIdle = 1"
| "worker_work step (WBusy i pc) = slot_work step pc + 2"
| "worker_work step _ = 0"

fun task_work :: "pipeline_step \<Rightarrow> step_task \<Rightarrow> nat" where
  "task_work step (TGate row) = 1"
| "task_work step (TScalar pc) = slot_work step pc + 1"
| "task_work step (TFan items nxt results ws) =
    sum_list (map (worker_work step) ws) + (length items - nxt) * (slot_work step (SLoop 0 False) + 2) + 1"
| "task_work step _ = 0"

definition work_of :: "run_options \<Rightarrow> string \<times> step_task \<Rightarrow> nat" where
  "work_of env e = (case step_by_id (dg_steps (ro_document env)) (fst e) of
     None \<Rightarrow> 0 | Some step \<Rightarrow> task_work step (snd e))"

text \<open>Steps not yet scheduled; tasks not yet started; work in flight with the flags and the phase.\<close>

definition unscheduled :: "run_state \<Rightarrow> nat" where
  "unscheduled s = length (filter (\<lambda>sid. jm_get (rs_tasks s) sid \<noteq> Some TStart) (rs_remaining s))"

definition unstarted :: "run_state \<Rightarrow> nat" where
  "unstarted s = length (filter (\<lambda>e. snd e = TStart) (rs_tasks s))"

definition in_flight :: "run_options \<Rightarrow> run_state \<Rightarrow> nat" where
  "in_flight env s = sum_list (map (work_of env) (rs_tasks s)) + (if rs_cancelled s then 0 else 1)
     + (if rs_paused s then 0 else 1) + (if rs_phase s = Walking then 1 else 0)"

definition walk_order :: "run_options \<Rightarrow> (run_state \<times> run_state) set" where
  "walk_order env = measures [unscheduled, unstarted, in_flight env]"

lemma walk_orderI:
  assumes "unscheduled s' < unscheduled s
    \<or> unscheduled s' \<le> unscheduled s \<and> unstarted s' < unstarted s
    \<or> unscheduled s' \<le> unscheduled s \<and> unstarted s' \<le> unstarted s \<and> in_flight env s' < in_flight env s"
  shows "(s', s) \<in> walk_order env"
  using assms by (auto simp: walk_order_def)

lemma sum_list_update_less:
  fixes f :: "'a \<Rightarrow> nat"
  shows "i < length xs \<Longrightarrow> f x + d < f (xs ! i) + c \<Longrightarrow> sum_list (map f (xs[i := x])) + d < sum_list (map f xs) + c"
proof (induction xs arbitrary: i)
  case (Cons a xs)
  then show ?case by (cases i) auto
qed simp

definition active :: "step_task \<Rightarrow> bool" where
  "active t = (case t of TGate _ \<Rightarrow> True | TScalar _ \<Rightarrow> True | TFan _ _ _ _ \<Rightarrow> True | _ \<Rightarrow> False)"

lemma active_simps [simp]: "active (TGate r)" "active (TScalar pc)" "active (TFan a b c d)" "\<not> active TStart" "\<not> active TDone" "\<not> active (TThrew e)"
  by (simp_all add: active_def)

definition crashed :: "step_task \<Rightarrow> bool" where
  "crashed t = (case t of TThrew _ \<Rightarrow> True | TFan _ _ _ ws \<Rightarrow> WThrew \<in> set ws | _ \<Rightarrow> False)"

lemma crashed_simps [simp]: "crashed (TFan items nxt results ws) \<longleftrightarrow> WThrew \<in> set ws" "\<not> crashed TStart" "\<not> crashed TDone"
    "\<not> crashed (TGate r)" "\<not> crashed (TScalar pc)"
  by (simp_all add: crashed_def)

lemma fan_step_work:
  assumes "fan_step env io s step items nxt results ws w ev = Some (s', x)"
  obtains t where "x = Inr t" "task_work step t < task_work step (TFan items nxt results ws)" "active t"
    "(control s' = control s \<and> (crashed t \<longrightarrow> WThrew \<in> set ws)) \<or> (\<exists>e. control s' = control (reject e s))"
proof -
  have w: "w < length ws" using assms by (auto simp: fan_step_def split: if_splits)
  have lt: "task_work step (TFan items nxt r' (ws[w := v])) < task_work step (TFan items nxt results ws)"
    if "worker_work step v < worker_work step (ws ! w)" for r' v
    using sum_list_update_less [of w ws "worker_work step" v 0 0] that w by simp
  have crash: "WThrew \<in> set ws" if "WThrew \<in> set (ws[w := v])" "v \<noteq> WThrew" for v
    using that set_update_subset_insert [of ws w v] by auto
  show ?thesis
  proof (cases "ws ! w")
    case WIdle
    have "worker_work step (if nxt < length items then WBusy nxt (SLoop 0 False) else WDone)
        + (length items - Suc nxt) * (slot_work step (SLoop 0 False) + 2)
      < worker_work step (ws ! w) + (length items - nxt) * (slot_work step (SLoop 0 False) + 2)"
    proof (cases "nxt < length items")
      case True
      then have "length items - nxt = Suc (length items - Suc nxt)" by (simp add: Suc_diff_Suc)
      then show ?thesis using True WIdle by simp
    qed (simp add: WIdle)
    note less = sum_list_update_less [OF w this]
    let ?v = "if nxt < length items then WBusy nxt (SLoop 0 False) else WDone"
    have "x = Inr (TFan items (nxt + 1) results (ws[w := ?v]))" "s' = s"
      using assms WIdle w by (auto simp: fan_step_def split: if_splits)
    moreover have "crashed (TFan items (nxt + 1) results (ws[w := ?v])) \<longrightarrow> WThrew \<in> set ws" using crash [of ?v] by auto
    moreover have "task_work step (TFan items (nxt + 1) results (ws[w := ?v])) < task_work step (TFan items nxt results ws)"
      using less by simp
    ultimately show ?thesis using that active_simps(3) by blast
  next
    case (WBusy i pc)
    show ?thesis
    proof (cases "\<exists>ok. pc = SReturn ok")
      case True
      then obtain ok where pc: "pc = SReturn ok" by blast
      have "x = Inr (TFan items nxt (results[i := Some ok]) (ws[w := WIdle]))" "s' = s"
        using assms WBusy pc w by (auto simp: fan_step_def split: if_splits)
      moreover have "crashed (TFan items nxt (results[i := Some ok]) (ws[w := WIdle])) \<longrightarrow> WThrew \<in> set ws" using crash [of WIdle] by auto
      moreover have "worker_work step WIdle < worker_work step (ws ! w)" using WBusy pc by simp
      ultimately show ?thesis using that lt active_simps(3) by blast
    next
      case False
      then obtain s1 y where y: "slot_step env io s step i (Some (items ! i)) pc ev = Some (s1, y)"
        using assms WBusy w by (cases pc) (auto simp: fan_step_def)
      have c: "control s1 = control s" using slot_step_control [OF y] by simp
      show ?thesis
      proof (cases y)
        case (Inl e)
        have "x = Inr (TFan items nxt results (ws[w := WThrew]))" "s' = reject e s1"
          using assms WBusy w y Inl False by (cases pc; simp add: fan_step_def)+
        moreover have "worker_work step WThrew < worker_work step (ws ! w)" using WBusy by simp
        moreover have "control (reject e s1) = control (reject e s)" using c by (simp add: reject_def control_def)
        ultimately show ?thesis using that lt active_simps(3) by blast
      next
        case (Inr pc')
        have "x = Inr (TFan items nxt results (ws[w := WBusy i pc']))" "s' = s1"
          using assms WBusy w y Inr False by (cases pc; simp add: fan_step_def)+
        moreover have "crashed (TFan items nxt results (ws[w := WBusy i pc'])) \<longrightarrow> WThrew \<in> set ws" using crash [of "WBusy i pc'"] by auto
        moreover have "worker_work step (WBusy i pc') < worker_work step (ws ! w)"
          using WBusy slot_work_decreases [of env io s step i "Some (items ! i)" pc ev s1 pc'] y Inr by simp
        ultimately show ?thesis using that lt c active_simps(3) by blast
      qed
    qed
  qed (use assms w in \<open>simp_all add: fan_step_def\<close>)
qed

lemma task_slot_work:
  assumes "task_slot env io s step t w ev = Some (s', x)"
  obtains (thrown) e where "x = Inl e" "0 < task_work step t" "active t" "control s' = control s"
  | (moved) t' where "x = Inr t'" "task_work step t' < task_work step t" "active t'" "active t"
      "(control s' = control s \<and> (crashed t' \<longrightarrow> crashed t)) \<or> (\<exists>e. control s' = control (reject e s))"
proof (cases t)
  case (TScalar pc)
  then obtain y where y: "slot_step env io s step 0 None pc ev = Some (s', y)"
    "x = (case y of Inl e \<Rightarrow> Inl e | Inr pc' \<Rightarrow> Inr (TScalar pc'))"
    using assms by (auto simp: task_slot_def split: if_splits)
  have c: "control s' = control s" using slot_step_control [OF y(1)] by simp
  show ?thesis
  proof (cases y)
    case (Inl e)
    then show ?thesis using thrown y(2) TScalar c by simp
  next
    case (Inr pc')
    then show ?thesis using moved [of "TScalar pc'"] y TScalar c slot_work_decreases by simp
  qed
next
  case (TFan items nxt results ws)
  then have "fan_step env io s step items nxt results ws w ev = Some (s', x)" using assms by (simp add: task_slot_def)
  then show ?thesis by (rule fan_step_work) (use moved TFan in auto)
qed (use assms in \<open>simp_all add: task_slot_def\<close>)

section \<open>The moves of a task\<close>

definition unremain :: "string \<Rightarrow> run_state \<Rightarrow> run_state" where
  "unremain sid s = s\<lparr>rs_remaining := js_set_delete (rs_remaining s) sid\<rparr>"

lemma control_cong:
  "control s = control s' \<Longrightarrow> control (markStepDone i d s) = control (markStepDone i d s')"
  "control s = control s' \<Longrightarrow> control (unremain i s) = control (unremain i s')"
  "control s = control s' \<Longrightarrow> control (reject e s) = control (reject e s')"
  "control s = control s' \<Longrightarrow> skipByUpstream env s step = skipByUpstream env s' step"
  by (simp_all add: control_def markStepDone_def unremain_def reject_def skipByUpstream_def need_blocks_def [abs_def])

lemma js_set_delete_idem [simp]: "js_set_delete (js_set_delete xs x) x = js_set_delete xs x"
  by (simp add: js_set_delete_def)

lemma mark_unremain [simp]: "markStepDone i d (unremain i s) = markStepDone i d s"
  by (simp add: markStepDone_def unremain_def)

lemma settle_gate_cases:
  assumes "settle_gate env io s step row d = (s', x)"
  obtains (thrown) e where "x = Inl e" "control s' = control s"
  | (settled) "x = Inr TDone" "control s' = control (markStepDone (step_id step) d s)"
proof (cases "attempts_complete (ro_reg env) (rs_store s) (io_now io) row (gate_patch (gate_state d))")
  case (Inl e)
  then show ?thesis using thrown assms by (auto simp: settle_gate_def with_store_def)
next
  case (Inr y)
  obtain db r where y: "y = (db, r)" by (cases y)
  let ?s = "publishStep ((step_update (step_id step) 0 0 (gate_state d) (Some (gate_account env)))\<lparr>su_finishedAt := Some (io_now io)\<rparr>)
    (s\<lparr>rs_store := db\<rparr>)"
  have "s' = markStepDone (step_id step) d ?s" "x = Inr TDone"
    using assms Inr y by (simp_all add: settle_gate_def with_store_def Let_def)
  moreover have "control ?s = control s" by simp
  ultimately show ?thesis using settled control_cong(1) by blast
qed

lemma journal_cases:
  assumes "journal env io s inp k = (s', x)"
  obtains (thrown) e where "x = Inl (StoreError e)" "s' = s"
  | (stored) db row where "attempts_record (ro_reg env) (rs_store s) (io_now io) inp = Inr (db, row)"
      "k (s\<lparr>rs_store := db\<rparr>) row = (s', x)"
  using assms by (auto simp: journal_def with_store_def split: sum.splits)

lemma runGate_cases:
  assumes "runGate env io s step = (s', x)"
  obtains (thrown) e where "x = Inl e" "control s' = control s"
  | (settled) d where "x = Inr TDone" "control s' = control (markStepDone (step_id step) d s)"
  | (waiting) row where "x = Inr (TGate row)" "control s' = control s"
  using assms unfolding runGate_def Let_def
proof (cases rule: journal_cases)
  case (thrown e)
  then show ?thesis using that(1) by simp
next
  case (stored db row)
  let ?s = "(publishStep ((step_update (step_id step) 0 0 SAwaitingApproval (Some (gate_account env)))\<lparr>su_startedAt := Some (io_now io)\<rparr>) s)\<lparr>rs_store := db\<rparr>"
  have c: "control ?s = control s" by simp
  show ?thesis
  proof (cases "ro_gate env")
    case True
    then have "control s' = control s" "x = Inr (TGate (sa_id row))" using stored(2) by auto
    then show ?thesis using waiting by blast
  next
    case False
    then have "settle_gate env io ?s step (sa_id row) (if gate_onTimeout step = Some ''continue'' then Completed else Failed) = (s', x)"
      using stored(2) by simp
    then show ?thesis
    proof (cases rule: settle_gate_cases)
      case (thrown e)
      then show ?thesis using that(1) c by simp
    next
      case settled
      then show ?thesis using that(2) control_cong(1) [OF c] by simp
    qed
  qed
qed

lemma runStep_cases:
  assumes "runStep env io s step = (s', x)"
  obtains (skipped) d where "x = Inr TDone" "control s' = control (markStepDone (step_id step) d s)"
  | (thrown) e where "x = Inl e" "control s' = control (unremain (step_id step) s)" "\<not> skipByUpstream env s step"
  | (started) t where "x = Inr t" "active t" "\<not> crashed t" "control s' = control (unremain (step_id step) s)" "\<not> skipByUpstream env s step"
proof -
  let ?s = "unremain (step_id step) s"
  have up: "skipByUpstream env ?s step = skipByUpstream env s step"
    by (simp add: skipByUpstream_def need_blocks_def [abs_def] unremain_def)
  have mark: "control (markStepDone (step_id step) Skipped (recordSkip env io step ?s)) = control (markStepDone (step_id step) Skipped s)"
    using control_cong(1) [of "recordSkip env io step ?s" ?s "step_id step" Skipped] by simp
  note run = assms [unfolded runStep_def Let_def, folded unremain_def]
  show ?thesis
  proof (cases "skipByUpstream env ?s step \<or> when_false env ?s step")
    case True
    then show ?thesis using run skipped mark by auto
  next
    case False
    then have ns: "\<not> skipByUpstream env s step" using up by simp
    show ?thesis
    proof (cases "is_approval step")
      case True
      then have "runGate env io ?s step = (s', x)" using run False by simp
      then show ?thesis
      proof (cases rule: runGate_cases)
        case (settled d)
        then show ?thesis using skipped by simp
      qed (use thrown started ns in \<open>auto simp: active_def\<close>)
    next
      case na: False
      show ?thesis
      proof (cases "sc_forEach (step_ctl step)")
        case None
        then show ?thesis using run False na started ns by (auto simp: active_def)
      next
        case (Some expr)
        then show ?thesis using run False na started ns skipped mark
          by (auto simp: active_def set_replicate_conv_if split: if_splits)
      qed
    qed
  qed
qed

lemma task_step_cases:
  assumes "task_step env io s step t = Some (s', x)"
  obtains (skipped) d where "t = TStart" "x = Inr TDone" "control s' = control (markStepDone (step_id step) d s)"
  | (start_thrown) e where "t = TStart" "x = Inl e" "control s' = control (unremain (step_id step) s)" "\<not> skipByUpstream env s step"
  | (started) t' where "t = TStart" "x = Inr t'" "active t'" "\<not> crashed t'" "control s' = control (unremain (step_id step) s)" "\<not> skipByUpstream env s step"
  | (finished) d where "active t" "x = Inr TDone" "control s' = control (markStepDone (step_id step) d s)"
proof (cases t)
  case TStart
  then have "runStep env io s step = (s', x)" using assms by (simp add: task_step_def)
  then show ?thesis by (cases rule: runStep_cases) (use TStart skipped start_thrown started in blast)+
next
  case (TScalar pc)
  then show ?thesis using assms finished by (cases pc) (auto simp: task_step_def active_def)
next
  case (TFan items nxt results ws)
  then show ?thesis using assms finished by (auto simp: task_step_def active_def split: if_splits)
qed (use assms in \<open>simp_all add: task_step_def\<close>)

definition task_after :: "walk_error + step_task \<Rightarrow> step_task" where
  "task_after x = (case x of Inl e \<Rightarrow> TThrew e | Inr t \<Rightarrow> t)"

lemma put_task_fields:
  "rs_tasks (put_task sid (s, x)) = jm_set (rs_tasks s) sid (task_after x)"
  "rs_remaining (put_task sid (s, x)) = rs_remaining s"
  "rs_disposition (put_task sid (s, x)) = rs_disposition s"
  "rs_log (put_task sid (s, x)) = rs_log s"
  "rs_store (put_task sid (s, x)) = rs_store s"
  "rs_cancelled (put_task sid (s, x)) = rs_cancelled s"
  "rs_paused (put_task sid (s, x)) = rs_paused s"
  "rs_phase (put_task sid (s, x)) = (case x of Inl e \<Rightarrow> if rs_phase s = Walking then Rejected e else rs_phase s | Inr _ \<Rightarrow> rs_phase s)"
  by (cases x; simp add: put_task_def reject_def set_task_def task_after_def)+

text \<open>What any resumption of a task does to the control state.\<close>

lemma with_task_cases:
  assumes "with_task env s sid f = Some s'"
  obtains step t s1 x where "step_by_id (dg_steps (ro_document env)) sid = Some step" "jm_get (rs_tasks s) sid = Some t"
    "f step t = Some (s1, x)" "s' = put_task sid (s1, x)"
  using assms by (auto simp: with_task_def split: option.splits)

definition ids_ok :: "run_options \<Rightarrow> bool" where
  "ids_ok env \<longleftrightarrow> distinct (map step_id (dg_steps (ro_document env)))"

lemma step_by_id_id: "step_by_id steps i = Some s \<Longrightarrow> step_id s = i"
proof -
  have "\<forall>e\<in>set (foldl (\<lambda>m s. jm_set m (step_id s) s) m0 steps). step_id (snd e) = fst e"
    if "\<forall>e\<in>set m0. step_id (snd e) = fst e" for m0
    using that
  proof (induction steps arbitrary: m0)
    case (Cons s steps)
    have "\<forall>e\<in>set (jm_set m (step_id s) s). step_id (snd e) = fst e" if "\<forall>e\<in>set m. step_id (snd e) = fst e" for m
      using that by (induction m) (force split: if_splits)+
    from Cons.IH [OF this [OF Cons.prems]] show ?case by simp
  qed simp
  from this [of "[]"] show "step_by_id steps i = Some s \<Longrightarrow> ?thesis"
    unfolding step_by_id_def by (force dest: jm_get_in_set)
qed

lemma task_event_cases:
  assumes "walk_step env s (io, ev) = Some s'" "ev \<notin> {EGeneration, EPause, ECancel}"
  obtains (mark) sid step t d s1 where "step_by_id (dg_steps (ro_document env)) sid = Some step" "jm_get (rs_tasks s) sid = Some t"
      "t = TStart \<or> active t" "s' = set_task sid TDone s1" "control s1 = control (markStepDone sid d s)"
  | (start) sid step x s1 where "step_by_id (dg_steps (ro_document env)) sid = Some step" "jm_get (rs_tasks s) sid = Some TStart"
      "(\<exists>e. x = Inl e) \<or> (\<exists>t. x = Inr t \<and> active t \<and> \<not> crashed t)" "\<not> skipByUpstream env s step"
      "s' = put_task sid (s1, x)" "control s1 = control (unremain sid s)"
  | (move) sid step t t' s1 where "step_by_id (dg_steps (ro_document env)) sid = Some step" "jm_get (rs_tasks s) sid = Some t"
      "active t" "active t'" "task_work step t' < task_work step t" "s' = set_task sid t' s1"
      "(control s1 = control s \<and> (crashed t' \<longrightarrow> crashed t)) \<or> (\<exists>e. control s1 = control (reject e s))"
  | (throw) sid step t e s1 where "step_by_id (dg_steps (ro_document env)) sid = Some step" "jm_get (rs_tasks s) sid = Some t"
      "active t" "s' = reject e (set_task sid (TThrew e) s1)" "control s1 = control s"
proof -
  consider (st) sid where "with_task env s sid (task_step env io s) = Some s'"
    | (sl) sid w sev where "with_task env s sid (\<lambda>step t. task_slot env io s step t w sev) = Some s'"
    | (gt) sid g where "with_task env s sid (\<lambda>step t. task_gate env io s step t g) = Some s'"
    using assms by (cases ev) (auto simp: walk_step_def)
  then show ?thesis
  proof cases
    case (st sid)
    then obtain step t s1 x where b: "step_by_id (dg_steps (ro_document env)) sid = Some step" "jm_get (rs_tasks s) sid = Some t"
      "task_step env io s step t = Some (s1, x)" "s' = put_task sid (s1, x)" by (rule with_task_cases)
    note i = step_by_id_id [OF b(1)]
    from b(3) show ?thesis
    proof (cases rule: task_step_cases)
      case (skipped d)
      then show ?thesis using mark [OF b(1,2)] b(4) i by (simp add: put_task_def)
    next
      case (finished d)
      then show ?thesis using mark [OF b(1,2)] b(4) i by (simp add: put_task_def)
    qed (use start [OF b(1)] b(2,4) i in auto)
  next
    case (sl sid w sev)
    then obtain step t s1 x where b: "step_by_id (dg_steps (ro_document env)) sid = Some step" "jm_get (rs_tasks s) sid = Some t"
      "task_slot env io s step t w sev = Some (s1, x)" "s' = put_task sid (s1, x)" by (rule with_task_cases)
    have a: "active t" using b(3) by (cases t) (auto simp: task_slot_def active_def)
    from b(3) show ?thesis
    proof (cases rule: task_slot_work)
      case (thrown e)
      then show ?thesis using throw [OF b(1,2) a] b(4) by (simp add: put_task_def)
    next
      case (moved t')
      then show ?thesis using move [OF b(1,2) a] b(4) by (simp add: put_task_def)
    qed
  next
    case (gt sid g)
    then obtain step t s1 x where b: "step_by_id (dg_steps (ro_document env)) sid = Some step" "jm_get (rs_tasks s) sid = Some t"
      "task_gate env io s step t g = Some (s1, x)" "s' = put_task sid (s1, x)" by (rule with_task_cases)
    obtain row where t: "t = TGate row" "settle_gate env io s step row (gate_disposition step g) = (s1, x)"
      using b(3) by (cases t) (auto simp: task_gate_def)
    have a: "active t" using t by (simp add: active_def)
    from t(2) show ?thesis
    proof (cases rule: settle_gate_cases)
      case (thrown e)
      then show ?thesis using throw [OF b(1,2) a] b(4) by (simp add: put_task_def)
    next
      case settled
      then show ?thesis using mark [OF b(1,2)] a b(4) step_by_id_id [OF b(1)] by (simp add: put_task_def)
    qed
  qed
qed

section \<open>Every walk ends\<close>

lemma jm_set_sum_less:
  fixes g :: "'k \<times> 'v \<Rightarrow> nat"
  shows "jm_get m k = Some old \<Longrightarrow> g (k, v) < g (k, old) \<Longrightarrow> sum_list (map g (jm_set m k v)) < sum_list (map g m)"
  by (induction m) (auto simp: jm_get_def)

lemma jm_set_sum_le:
  fixes g :: "'k \<times> 'v \<Rightarrow> nat"
  shows "jm_get m k = Some old \<Longrightarrow> g (k, v) \<le> g (k, old) \<Longrightarrow> sum_list (map g (jm_set m k v)) \<le> sum_list (map g m)"
  by (induction m) (auto simp: jm_get_def)

lemma count_starts: "length (filter (\<lambda>e. snd e = TStart) m) = sum_list (map (\<lambda>e. if snd e = TStart then 1 else 0) m)"
  by (induction m) auto

lemma unstarted_set:
  assumes "jm_get (rs_tasks s) sid = Some t" "t' \<noteq> TStart"
  shows "unstarted (set_task sid t' s) \<le> unstarted s" "t = TStart \<Longrightarrow> unstarted (set_task sid t' s) < unstarted s"
proof -
  let ?g = "\<lambda>e. if snd e = TStart then 1 else 0 :: nat"
  show "unstarted (set_task sid t' s) \<le> unstarted s"
    using jm_set_sum_le [OF assms(1), of ?g t'] assms(2) by (simp add: unstarted_def set_task_def count_starts)
  assume "t = TStart"
  then show "unstarted (set_task sid t' s) < unstarted s"
    using jm_set_sum_less [OF assms(1), of ?g t'] assms(2) by (simp add: unstarted_def set_task_def count_starts)
qed

lemma length_filter_le_mono:
  "(\<And>x. x \<in> set xs \<Longrightarrow> P x \<Longrightarrow> Q x) \<Longrightarrow> length (filter P xs) \<le> length (filter Q xs)"
  by (induction xs) (auto simp: le_SucI)

lemma unscheduled_set:
  assumes "jm_get (rs_tasks s) sid = Some t" "t \<noteq> TStart \<or> sid \<notin> set rem"
    and "rem = rs_remaining s \<or> rem = js_set_delete (rs_remaining s) sid"
  shows "length (filter (\<lambda>i. jm_get (jm_set (rs_tasks s) sid t') i \<noteq> Some TStart) rem) \<le> unscheduled s"
proof -
  have "length (filter (\<lambda>i. jm_get (jm_set (rs_tasks s) sid t') i \<noteq> Some TStart) rem)
      \<le> length (filter (\<lambda>i. jm_get (rs_tasks s) i \<noteq> Some TStart) rem)"
    by (rule length_filter_le_mono) (use assms in \<open>auto simp: jm_get_set split: if_splits\<close>)
  also have "\<dots> \<le> unscheduled s"
    using assms(3) by (auto simp: unscheduled_def js_set_delete_def) (rule length_filter_le_mono, simp)
  finally show ?thesis .
qed

lemma in_flight_control:
  assumes "control s1 = control s"
  shows "in_flight env (set_task sid t s1) = in_flight env (set_task sid t s)"
  using assms by (simp add: in_flight_def set_task_def control_def)

lemma measures_control:
  assumes "control s1 = control s"
  shows "unscheduled s1 = unscheduled s" "unstarted s1 = unstarted s" "in_flight env s1 = in_flight env s"
  using assms by (simp_all add: unscheduled_def unstarted_def in_flight_def control_def)

lemma unscheduled_put:
  assumes "jm_get (rs_tasks s) sid = Some t" "control s1 = control s" "t \<noteq> TStart"
  shows "unscheduled (set_task sid t' s1) \<le> unscheduled s"
  using unscheduled_set [OF assms(1), of "rs_remaining s" t'] assms(2,3)
  by (simp add: unscheduled_def set_task_def control_def)

lemma flight_less:
  assumes "jm_get (rs_tasks s) sid = Some t" "step_by_id (dg_steps (ro_document env)) sid = Some step"
    and "task_work step t' < task_work step t" "rs_tasks s1 = rs_tasks s" "rs_cancelled s1 = rs_cancelled s"
    "rs_paused s1 = rs_paused s" "rs_phase s1 = rs_phase s \<or> rs_phase s1 \<noteq> Walking"
  shows "in_flight env (set_task sid t' s1) < in_flight env s"
  using jm_set_sum_less [OF assms(1), of "work_of env" t'] assms
  by (auto simp: in_flight_def set_task_def work_of_def)

lemma in_flight_reject: "in_flight env (reject e s) \<le> in_flight env s" "unscheduled (reject e s) = unscheduled s"
    "unstarted (reject e s) = unstarted s"
  by (simp_all add: in_flight_def reject_def unscheduled_def unstarted_def)

lemma active_work: "active t \<Longrightarrow> 0 < task_work step t"
  by (cases t) auto

lemma task_event_decreases:
  assumes "walk_step env s (io, ev) = Some s'" "ev \<notin> {EGeneration, EPause, ECancel}"
  shows "(s', s) \<in> walk_order env"
  using assms
proof (cases rule: task_event_cases)
  case (mark sid step t d s1)
  have rem: "rs_remaining s1 = js_set_delete (rs_remaining s) sid" "rs_tasks s1 = rs_tasks s" "rs_cancelled s1 = rs_cancelled s"
    "rs_paused s1 = rs_paused s" "rs_phase s1 = rs_phase s"
    using mark(5) by (simp_all add: control_def markStepDone_def)
  have "unscheduled s' \<le> unscheduled s"
    using unscheduled_set [OF mark(2), of "js_set_delete (rs_remaining s) sid" TDone] rem mark(4)
    by (simp add: unscheduled_def set_task_def)
  moreover have "unstarted s' \<le> unstarted s" "t = TStart \<Longrightarrow> unstarted s' < unstarted s"
    using unstarted_set [of s1 sid t TDone] mark(2,4) rem(2) by (simp_all add: unstarted_def)
  moreover have "active t \<Longrightarrow> in_flight env s' < in_flight env s"
    using flight_less [OF mark(2,1), of TDone s1] rem mark(4) by (simp add: active_work)
  ultimately show ?thesis using mark(3) by (intro walk_orderI) blast
next
  case (start sid step x s1)
  have rem: "rs_remaining s1 = js_set_delete (rs_remaining s) sid" "rs_tasks s1 = rs_tasks s"
    using start(6) by (simp_all add: control_def unremain_def)
  let ?t' = "task_after x"
  have t': "?t' \<noteq> TStart" "rs_remaining s' = rs_remaining s1" "rs_tasks s' = jm_set (rs_tasks s1) sid ?t'"
    using start(3,5) by (auto simp: put_task_fields task_after_def)
  have "unscheduled s' \<le> unscheduled s"
    using unscheduled_set [OF start(2), of "js_set_delete (rs_remaining s) sid" ?t'] rem t' by (simp add: unscheduled_def)
  moreover have "unstarted s' < unstarted s"
    using unstarted_set(2) [OF start(2) t'(1)] t' rem by (simp add: unstarted_def set_task_def)
  ultimately show ?thesis by (intro walk_orderI) simp
next
  case (move sid step t t' s1)
  have t: "t \<noteq> TStart" "t' \<noteq> TStart" using move(3,4) by auto
  have c: "rs_tasks s1 = rs_tasks s" "rs_remaining s1 = rs_remaining s" "rs_cancelled s1 = rs_cancelled s"
    "rs_paused s1 = rs_paused s" "rs_phase s1 = rs_phase s \<or> rs_phase s1 \<noteq> Walking"
    using move(7) by (auto simp: control_def reject_def split: if_splits)
  have "unscheduled s' \<le> unscheduled s"
    using unscheduled_set [OF move(2), of "rs_remaining s" t'] t c move(6) by (simp add: unscheduled_def set_task_def)
  moreover have "unstarted s' \<le> unstarted s"
    using unstarted_set(1) [of s1 sid t t'] move(2,6) t c by (simp add: unstarted_def)
  moreover have "in_flight env s' < in_flight env s" using flight_less [OF move(2,1,5) c(1,3-5)] move(6) by simp
  ultimately show ?thesis by (intro walk_orderI) simp
next
  case (throw sid step t e s1)
  have t: "t \<noteq> TStart" using throw(3) by auto
  have c: "rs_tasks s1 = rs_tasks s" "rs_cancelled s1 = rs_cancelled s" "rs_paused s1 = rs_paused s" "rs_phase s1 = rs_phase s"
    using throw(5) by (simp_all add: control_def)
  have "unscheduled s' \<le> unscheduled s"
    using unscheduled_put [OF throw(2,5) t, of "TThrew e"] throw(4) by (simp add: in_flight_reject)
  moreover have "unstarted s' \<le> unstarted s"
    using unstarted_set(1) [of s1 sid t "TThrew e"] throw(2,4) c measures_control(2) [OF throw(5)] by (simp add: in_flight_reject)
  moreover have "in_flight env (set_task sid (TThrew e) s1) < in_flight env s"
    using flight_less [OF throw(2,1), of "TThrew e" s1] c throw(3) by (simp add: active_work)
  then have "in_flight env s' < in_flight env s"
    using in_flight_reject(1) [of env e "set_task sid (TThrew e) s1"] throw(4) by simp
  ultimately show ?thesis by (intro walk_orderI) simp
qed

lemma settle_run_decreases:
  assumes "rs_phase s = Walking"
  shows "(settle_run env io s, s) \<in> walk_order env"
proof -
  have "rs_tasks (settle_run env io s) = rs_tasks s" "rs_remaining (settle_run env io s) = rs_remaining s"
    "rs_cancelled (settle_run env io s) = rs_cancelled s" "rs_paused (settle_run env io s) = rs_paused s"
    "rs_phase (settle_run env io s) \<noteq> Walking"
    by (auto simp: settle_run_def publishRun_def emit_def Let_def split: sum.splits)
  then show ?thesis using assms by (intro walk_orderI) (simp add: unscheduled_def unstarted_def in_flight_def)
qed

lemma generation_decreases:
  assumes "rs_phase s = Walking" "list_all (\<lambda>(_, t). t = TDone) (rs_tasks s)"
  shows "(generation env io s, s) \<in> walk_order env"
proof (cases "rs_cancelled s \<or> rs_paused s \<or> filter (needsSatisfied env s) (rs_remaining s) = []")
  case True
  then have "generation env io s = settle_run env io s" by (auto simp: generation_def Let_def)
  then show ?thesis using settle_run_decreases [OF assms(1)] by simp
next
  case False
  let ?ready = "filter (needsSatisfied env s) (rs_remaining s)"
  have g: "generation env io s = s\<lparr>rs_tasks := map (\<lambda>sid. (sid, TStart)) ?ready\<rparr>" using False by (simp add: generation_def)
  have nostart: "jm_get (rs_tasks s) i \<noteq> Some TStart" for i
    using assms(2) jm_get_in_set [of "rs_tasks s" i TStart] by (auto simp: list_all_iff)
  have started: "jm_get (map (\<lambda>sid. (sid, TStart)) ?ready) i = (if i \<in> set ?ready then Some TStart else None)" for i
    by (simp add: jm_get_def map_of_map_restrict [of "\<lambda>_. TStart"] restrict_map_def)
  have "length (filter (\<lambda>i. i \<notin> set ?ready) (rs_remaining s)) < length (rs_remaining s)"
    using False length_filter_less [of _ "rs_remaining s" "\<lambda>i. i \<notin> set ?ready"] by (fastforce simp: filter_empty_conv)
  then have "unscheduled (generation env io s) < unscheduled s"
    using nostart started g by (simp add: unscheduled_def)
  then show ?thesis by (intro walk_orderI) simp
qed

lemma walk_step_decreases:
  assumes "walk_step env s e = Some s'"
  shows "(s', s) \<in> walk_order env"
proof (cases e)
  case (Pair io ev)
  show ?thesis
  proof (cases "ev \<in> {EGeneration, EPause, ECancel}")
    case False
    then show ?thesis using task_event_decreases assms Pair by blast
  next
    case True
    then consider "ev = EGeneration" | "ev = EPause" | "ev = ECancel" by blast
    then show ?thesis
    proof cases
      case 1
      then show ?thesis using assms Pair generation_decreases by (auto simp: walk_step_def split: if_splits)
    next
      case 2
      then have "s' = s\<lparr>rs_paused := True\<rparr>" "\<not> rs_paused s" using assms Pair by (simp_all add: walk_step_def split: if_splits)
      then show ?thesis by (intro walk_orderI) (simp add: unscheduled_def unstarted_def in_flight_def)
    next
      case 3
      then have "s' = cancel_walk env s" "\<not> rs_cancelled s" using assms Pair by (simp_all add: walk_step_def split: if_splits)
      then show ?thesis by (intro walk_orderI) (simp add: cancel_walk_def unscheduled_def unstarted_def in_flight_def)
    qed
  qed
qed

end
