(* ===== verification/Dag_Document.thy ===== *)
theory Dag_Document
  imports Kahn
begin

text \<open>
  \<open>validateDagDocument\<close> of \<open>packages/protocol/src/dag/validate.ts\<close>: the passes over the document in the
  order of the code. Shown: an accepted document is well formed (unique ids, closed and acyclic
  references, consistent routing, bounded numbers), a cycle is refused as such and only then, and an
  accepted document serialises to JSON that validates to the same document again.
\<close>

section \<open>The validator\<close>

definition step_path :: "nat \<Rightarrow> string" where
  "step_path index = ''steps['' @ nat_str index @ '']''"

primrec id_pass :: "json list \<Rightarrow> nat \<Rightarrow> string list \<Rightarrow> dag_issue + string list" where
  "id_pass [] index stepIds = Inr stepIds"
| "id_pass (raw # rs) index stepIds =
    (if \<not> isRecord raw then Inl (dag_fail BadShape (step_path index))
     else case obj_get raw ''id'' of
       Some (JStr sid) \<Rightarrow>
         if \<not> STEP_ID_RE sid then Inl (dag_fail BadShape (step_path index @ ''.id''))
         else if sid \<in> set stepIds then Inl (dag_fail DuplicateStepId (step_path index @ ''.id''))
         else id_pass rs (index + 1) (js_set_add stepIds sid)
     | _ \<Rightarrow> Inl (dag_fail BadShape (step_path index @ ''.id'')))"

primrec step_pass :: "registry \<Rightarrow> string list \<Rightarrow> json list \<Rightarrow> nat \<Rightarrow> dag_issue + pipeline_step list" where
  "step_pass reg stepIds [] index = Inr []"
| "step_pass reg stepIds (raw # rs) index =
    r_bind (validateStep reg (step_path index) stepIds raw) (\<lambda>s.
    r_bind (step_pass reg stepIds rs (index + 1)) (\<lambda>ss. Inr (s # ss)))"

definition validate_description :: "json \<Rightarrow> dag_issue + string" where
  "validate_description v =
    r_bind (of_option (dag_fail BadShape ''description'') (as_str v)) (\<lambda>d.
    r_bind (if d \<noteq> [] then screenNaming ''description'' d else Inr ()) (\<lambda>_. Inr d))"

definition non_empty_array :: "json \<Rightarrow> json list option" where
  "non_empty_array v = (case v of JArr xs \<Rightarrow> if xs = [] then None else Some xs | _ \<Rightarrow> None)"

definition validateDagDocument :: "registry \<Rightarrow> json \<Rightarrow> dag_issue + dag_document" where
  "validateDagDocument reg value =
    r_bind (guard (isRecord value) (dag_fail BadShape [])) (\<lambda>_.
    r_bind (guard (obj_get value ''schemaVersion'' = Some (JNum (num DAG_SCHEMA_VERSION)))
              (dag_fail UnsupportedVersion ''schemaVersion'')) (\<lambda>_.
    r_bind (of_option (dag_fail BadShape ''id'')
       (Option.bind (obj_get value ''id'') (str_when DAG_ID_RE))) (\<lambda>did.
    r_bind (of_option (dag_fail BadShape ''name'')
       (Option.bind (obj_get value ''name'') non_empty_str)) (\<lambda>name.
    r_bind (screenNaming ''name'' name) (\<lambda>_.
    r_bind (opt_field (obj_get value ''description'') validate_description) (\<lambda>description.
    r_bind (opt_field (obj_get value ''defaults'') (validateDefaults reg)) (\<lambda>defaults.
    r_bind (opt_field (obj_get value ''inputs'') validateInputs) (\<lambda>inputs.
    r_bind (of_option (dag_fail BadShape ''steps'')
       (Option.bind (obj_get value ''steps'') non_empty_array)) (\<lambda>rawSteps.
    r_bind (id_pass rawSteps 0 []) (\<lambda>stepIds.
    r_bind (step_pass reg stepIds rawSteps 0) (\<lambda>steps.
    r_bind (guard (findCycle steps = None) (dag_fail Cycle ''steps'')) (\<lambda>_.
    Inr \<lparr>dg_id = did, dg_name = name,
         dg_description = (case description of Some d \<Rightarrow> if d \<noteq> [] then Some d else None | None \<Rightarrow> None),
         dg_defaults = defaults, dg_inputs = inputs, dg_steps = steps\<rparr>))))))))))))"

section \<open>Well-formed documents\<close>

definition clean_name :: "string \<Rightarrow> bool" where
  "clean_name s \<longleftrightarrow> s \<noteq> [] \<and> \<not> EMAIL_RE s \<and> \<not> TWELVE_DIGIT_RE s"

definition ok_routing :: "registry \<Rightarrow> string option \<Rightarrow> string option \<Rightarrow> bool" where
  "ok_routing reg acc be \<longleftrightarrow> (\<forall>a. acc = Some a \<longrightarrow> isAccountLabel reg a) \<and> (\<forall>b. be = Some b \<longrightarrow> isStepBackend b)
     \<and> (\<forall>a b. acc = Some a \<longrightarrow> be = Some b \<longrightarrow> b \<in> set (accountStepBackendsFor a))"

definition ok_budget :: "step_budget \<Rightarrow> bool" where
  "ok_budget b \<longleftrightarrow> (\<forall>q. sb_usd b = Some q \<longrightarrow> 0 < q)
     \<and> (\<forall>n. sb_turns b = Some n \<longrightarrow> 0 < n \<and> n \<le> max_safe_nat) \<and> (\<forall>n. sb_wallClockSec b = Some n \<longrightarrow> 0 < n \<and> n \<le> max_safe_nat)
     \<and> (sb_usd b \<noteq> None \<or> sb_turns b \<noteq> None \<or> sb_wallClockSec b \<noteq> None)"

definition ok_retry :: "retry_policy \<Rightarrow> bool" where
  "ok_retry r \<longleftrightarrow> rp_max r \<le> 10 \<and> (\<forall>q. rp_backoffSec r = Some q \<longrightarrow> 0 \<le> q)
     \<and> (\<forall>cs. rp_retryOn r = Some cs \<longrightarrow> cs \<noteq> [] \<and> list_all isRetryOnClass cs)"

definition ok_ref :: "capability_ref \<Rightarrow> bool" where
  "ok_ref r \<longleftrightarrow> clean_name (cr_name r) \<and> (\<forall>s. cr_scope r = Some s \<longrightarrow> isCapabilityScope s)"

definition ok_control :: "string set \<Rightarrow> step_control \<Rightarrow> bool" where
  "ok_control ids c \<longleftrightarrow> (\<forall>ns. sc_needs c = Some ns \<longrightarrow> set ns \<subseteq> ids \<and> [] \<notin> set ns)
     \<and> sc_when c \<noteq> Some [] \<and> sc_forEach c \<noteq> Some []
     \<and> \<not> (sc_forEach c \<noteq> None \<and> sc_loop c \<noteq> None)
     \<and> (\<forall>n. sc_maxParallel c = Some n \<longrightarrow> sc_forEach c \<noteq> None \<and> 1 \<le> n \<and> n \<le> 16)
     \<and> (\<forall>l. sc_loop c = Some l \<longrightarrow> lc_until l \<noteq> [] \<and> 1 \<le> lc_maxIterations l \<and> lc_maxIterations l \<le> 100)"

definition ok_onError :: "string set \<Rightarrow> string \<Rightarrow> bool" where
  "ok_onError ids s \<longleftrightarrow> s \<in> set ON_ERROR_POLICIES \<or> (take 5 s = ''goto:'' \<and> drop 5 s \<in> ids)"

definition ok_exec :: "registry \<Rightarrow> string set \<Rightarrow> exec_common \<Rightarrow> bool" where
  "ok_exec reg ids e \<longleftrightarrow> ok_routing reg (ec_account e) (ec_backend e)
     \<and> (\<forall>s. ec_cwd e = Some s \<longrightarrow> s \<noteq> [] \<and> (sublist ''${'' s \<or> hd s = CHR ''/''))
     \<and> (\<forall>s. ec_permissionMode e = Some s \<longrightarrow> isPermissionMode s)
     \<and> (\<forall>b. ec_budget e = Some b \<longrightarrow> ok_budget b) \<and> (\<forall>r. ec_retry e = Some r \<longrightarrow> ok_retry r)
     \<and> (\<forall>v. ec_outputSchema e = Some v \<longrightarrow> has_type v)
     \<and> (\<forall>s. ec_onError e = Some s \<longrightarrow> ok_onError ids s)"

fun ok_body :: "pipeline_step \<Rightarrow> bool" where
  "ok_body (PromptStep _ _ _ p) = clean_name p"
| "ok_body (SkillStep _ _ _ r p) = (ok_ref r \<and> p \<noteq> Some [])"
| "ok_body (AgentStep _ _ _ r p) = (ok_ref r \<and> clean_name p)"
| "ok_body (WorkflowScriptStep _ _ _ s) = isAbsolutePath s"
| "ok_body (ApprovalStep _ _ s t o') = ((\<forall>x. s = Some x \<longrightarrow> clean_name x)
     \<and> (\<forall>n. t = Some n \<longrightarrow> 0 < n \<and> n \<le> max_safe_nat) \<and> (\<forall>x. o' = Some x \<longrightarrow> x \<in> set ON_ERROR_POLICIES))"

definition ok_step :: "registry \<Rightarrow> string set \<Rightarrow> pipeline_step \<Rightarrow> bool" where
  "ok_step reg ids s \<longleftrightarrow> STEP_ID_RE (step_id s) \<and> ok_control ids (step_ctl s)
     \<and> (\<forall>e. step_exec s = Some e \<longrightarrow> ok_exec reg ids e) \<and> ok_body s"

definition ok_defaults :: "registry \<Rightarrow> dag_defaults \<Rightarrow> bool" where
  "ok_defaults reg d \<longleftrightarrow> ok_routing reg (dd_account d) (dd_backend d)
     \<and> (\<forall>s. dd_permissionMode d = Some s \<longrightarrow> isPermissionMode s) \<and> dd_cwd d \<noteq> Some []"

definition ok_input :: "string \<times> json \<Rightarrow> bool" where
  "ok_input kv \<longleftrightarrow> DAG_NAME_RE (fst kv) \<and> fst kv \<noteq> ''__proto__'' \<and> has_type (snd kv)"

definition ok_shape :: "registry \<Rightarrow> dag_document \<Rightarrow> bool" where
  "ok_shape reg d \<longleftrightarrow> DAG_ID_RE (dg_id d) \<and> clean_name (dg_name d)
     \<and> (\<forall>s. dg_description d = Some s \<longrightarrow> clean_name s)
     \<and> (\<forall>x. dg_defaults d = Some x \<longrightarrow> ok_defaults reg x)
     \<and> (\<forall>kvs. dg_inputs d = Some kvs \<longrightarrow> list_all ok_input kvs)
     \<and> dg_steps d \<noteq> [] \<and> distinct (map step_id (dg_steps d))
     \<and> list_all (ok_step reg (step_id ` set (dg_steps d))) (dg_steps d)"

definition ok_document :: "registry \<Rightarrow> dag_document \<Rightarrow> bool" where
  "ok_document reg d \<longleftrightarrow> ok_shape reg d \<and> acyclic (needs_rel (dg_steps d))"

section \<open>Soundness of the parts\<close>

lemma of_option_simps [simp]: "of_option e (Some y) = Inr y" "of_option e None = Inl e"
  by (simp_all add: of_option_def)

lemma screen_Inr: "screenNaming p s = Inr u \<longleftrightarrow> \<not> EMAIL_RE s \<and> \<not> TWELVE_DIGIT_RE s"
  by (auto simp: screenNaming_def)

lemma non_empty_str_Some: "non_empty_str v = Some s \<longleftrightarrow> v = JStr s \<and> s \<noteq> []"
  by (cases v) (auto simp: non_empty_str_def)

lemma positive_int_Some: "positive_int v = Some n \<longleftrightarrow> v = JNum (num n) \<and> 0 < n \<and> n \<le> max_safe_nat"
  by (cases v) (auto simp: positive_int_def as_safe_nat_iff split: option.splits if_splits)

lemma non_negative_int_Some: "non_negative_int v = Some n \<longleftrightarrow> v = JNum (num n) \<and> n \<le> max_safe_nat"
  by (cases v) (auto simp: non_negative_int_def as_safe_nat_iff)

lemma positive_finite_Some: "positive_finite v = Some q \<longleftrightarrow> v = JNum (Fin q) \<and> 0 < q"
  by (auto simp: positive_finite_def split: json.splits jsnum.splits if_splits)

lemma as_str_Some: "as_str v = Some s \<longleftrightarrow> v = JStr s"
  by (cases v) auto

lemma str_in_Inr: "str_in e P v = Inr s \<longleftrightarrow> v = JStr s \<and> P s"
  by (cases v) (auto simp: str_in_def)

lemma str_when_Some: "str_when P v = Some s \<longleftrightarrow> v = JStr s \<and> P s"
  by (cases v) (auto simp: str_when_def)

lemma str_elems_Some: "str_elems P v = Some ss \<longleftrightarrow> v = JArr (map JStr ss) \<and> list_all P ss"
proof (cases v)
  case (JArr xs)
  have "list_all (\<lambda>x. case x of JStr s \<Rightarrow> P s | _ \<Rightarrow> False) xs \<and> ss = map (\<lambda>x. case x of JStr s \<Rightarrow> s | _ \<Rightarrow> []) xs
      \<longleftrightarrow> xs = map JStr ss \<and> list_all P ss"
  proof (induction xs arbitrary: ss)
    case (Cons x xs)
    then show ?case by (cases x; cases ss) auto
  qed auto
  then show ?thesis using JArr by (auto simp: str_elems_def)
qed (simp_all add: str_elems_def)

lemma up_to_Some: "up_to m n = Some k \<longleftrightarrow> k = n \<and> n \<le> m"
  by (auto simp: up_to_def)

lemma non_negative_finite_Some: "non_negative_finite v = Some q \<longleftrightarrow> v = JNum (Fin q) \<and> 0 \<le> q"
  by (auto simp: non_negative_finite_def split: json.splits jsnum.splits if_splits)

lemma non_empty_array_Some: "non_empty_array v = Some xs \<longleftrightarrow> v = JArr xs \<and> xs \<noteq> []"
  by (cases v) (auto simp: non_empty_array_def)

lemma retry_classes_Some: "retry_classes v = Some cs \<longleftrightarrow> v = JArr (map JStr cs) \<and> list_all isRetryOnClass cs \<and> cs \<noteq> []"
  by (auto simp: retry_classes_def bind_eq_Some_conv str_elems_Some split: if_splits)

lemmas prim_iffs = of_option_Inr screen_Inr non_empty_str_Some positive_int_Some non_negative_int_Some
  positive_finite_Some as_str_Some str_in_Inr str_when_Some str_elems_Some up_to_Some
  non_negative_finite_Some non_empty_array_Some retry_classes_Some bind_eq_Some_conv

lemma checkAccountBackend_ok: "checkAccountBackend reg p a b = Inr (acc, be) \<Longrightarrow> ok_routing reg acc be"
  by (auto simp: checkAccountBackend_def result_iffs prim_iffs ok_routing_def)

lemma validateBudget_ok: "validateBudget p v = Inr b \<Longrightarrow> ok_budget b"
  by (auto simp: validateBudget_def result_iffs prim_iffs ok_budget_def)

lemma validateRetry_ok: "validateRetry p v = Inr r \<Longrightarrow> ok_retry r"
  by (auto simp: validateRetry_def result_iffs prim_iffs ok_retry_def)

lemma validateCapabilityRef_ok: "validateCapabilityRef p v = Inr r \<Longrightarrow> ok_ref r"
  by (auto simp: validateCapabilityRef_def result_iffs prim_iffs ok_ref_def clean_name_def)

lemma validateLoop_ok:
  "validateLoop p v = Inr l \<Longrightarrow> lc_until l \<noteq> [] \<and> 1 \<le> lc_maxIterations l \<and> lc_maxIterations l \<le> 100"
  by (auto simp: validateLoop_def result_iffs prim_iffs)

lemma validateOnError_ok: "validateOnError p v ids = Inr s \<Longrightarrow> ok_onError (set ids) s"
  by (auto simp: validateOnError_def ok_onError_def result_iffs prim_iffs split: if_splits)

lemma validateStepCommonControl_ok:
  assumes "validateStepCommonControl p ids raw = Inr c"
  shows "ok_control (set ids) c"
proof -
  obtain mp where mp: "sc_maxParallel c = mp" "sc_forEach c = None \<Longrightarrow> mp = None" "\<And>n. mp = Some n \<Longrightarrow> 1 \<le> n \<and> n \<le> 16"
    using assms by (auto simp: validateStepCommonControl_def result_iffs prim_iffs split: if_splits)
  show ?thesis
    using assms mp unfolding ok_control_def
    by (auto simp: validateStepCommonControl_def result_iffs prim_iffs list_all_iff
        dest!: validateLoop_ok split: if_splits)
qed

lemma opt_field_ok: "opt_field v f = Inr r \<Longrightarrow> (\<And>x y. f x = Inr y \<Longrightarrow> P y) \<Longrightarrow> \<forall>y. r = Some y \<longrightarrow> P y"
  by (auto simp: opt_field_Inr)

lemma validateExecutableCommon_ok:
  assumes "validateExecutableCommon reg p ids raw = Inr e"
  shows "ok_exec reg (set ids) e"
proof -
  obtain ab where f: "checkAccountBackend reg p (obj_get raw ''account'') (obj_get raw ''backend'') = Inr ab"
    "opt_field (obj_get raw ''cwd'') (\<lambda>v.
       r_bind (of_option (dag_fail BadShape (p @ ''.cwd'')) (non_empty_str v)) (\<lambda>s.
       r_bind (guard (sublist ''${'' s \<or> hd s = CHR ''/'') (dag_fail BadShape (p @ ''.cwd''))) (\<lambda>_. Inr s))) = Inr (ec_cwd e)"
    "opt_field (obj_get raw ''permissionMode'') (str_in (dag_fail BadShape (p @ ''.permissionMode'')) isPermissionMode)
       = Inr (ec_permissionMode e)"
    "opt_field (obj_get raw ''budget'') (validateBudget (p @ ''.budget'')) = Inr (ec_budget e)"
    "opt_field (obj_get raw ''retry'') (validateRetry (p @ ''.retry'')) = Inr (ec_retry e)"
    "opt_field (obj_get raw ''outputSchema'') (\<lambda>v.
       if has_type v then Inr v else Inl (dag_fail BadShape (p @ ''.outputSchema''))) = Inr (ec_outputSchema e)"
    "opt_field (obj_get raw ''onError'') (\<lambda>v. validateOnError (p @ ''.onError'') v ids) = Inr (ec_onError e)"
    "ec_account e = fst ab" "ec_backend e = snd ab"
    using assms by (auto simp: validateExecutableCommon_def r_bind_Inr)
  have "\<forall>s. ec_cwd e = Some s \<longrightarrow> s \<noteq> [] \<and> (sublist ''${'' s \<or> hd s = CHR ''/'')"
    by (rule opt_field_ok [OF f(2)]) (auto simp: result_iffs prim_iffs)
  moreover have "\<forall>s. ec_permissionMode e = Some s \<longrightarrow> isPermissionMode s"
    by (rule opt_field_ok [OF f(3)]) (simp add: prim_iffs)
  moreover have "\<forall>b. ec_budget e = Some b \<longrightarrow> ok_budget b" by (rule opt_field_ok [OF f(4)]) (rule validateBudget_ok)
  moreover have "\<forall>b. ec_retry e = Some b \<longrightarrow> ok_retry b" by (rule opt_field_ok [OF f(5)]) (rule validateRetry_ok)
  moreover have "\<forall>v. ec_outputSchema e = Some v \<longrightarrow> has_type v"
    by (rule opt_field_ok [OF f(6)]) (auto split: if_splits)
  moreover have "\<forall>s. ec_onError e = Some s \<longrightarrow> ok_onError (set ids) s"
    by (rule opt_field_ok [OF f(7)]) (rule validateOnError_ok)
  moreover have "ok_routing reg (ec_account e) (ec_backend e)"
    using checkAccountBackend_ok [of reg p _ _ "fst ab" "snd ab"] f(1,8,9) by simp
  ultimately show ?thesis by (simp add: ok_exec_def)
qed

lemma validateApproval_ok: "validateApproval p sid c raw = Inr s \<Longrightarrow>
    step_id s = sid \<and> step_ctl s = c \<and> step_exec s = None \<and> ok_body s"
  by (auto simp: validateApproval_def result_iffs prim_iffs clean_name_def ON_ERROR_POLICIES_def)

lemma validateExecutable_ok: "validateExecutable p k sid c e raw = Inr s \<Longrightarrow>
    step_id s = sid \<and> step_ctl s = c \<and> step_exec s = Some e \<and> ok_body s"
  by (auto simp: validateExecutable_def required_prompt_def result_iffs prim_iffs clean_name_def
      dest: validateCapabilityRef_ok split: if_splits)

lemma validateStep_ok:
  assumes "validateStep reg p ids raw = Inr s"
  shows "ok_step reg (set ids) s \<and> obj_get raw ''id'' = Some (JStr (step_id s))"
proof -
  obtain k sid c where k: "obj_get raw ''id'' = Some (JStr sid)" "STEP_ID_RE sid"
    "validateStepCommonControl p ids raw = Inr c"
    "(if k = ''approval'' then validateApproval p sid c raw
      else r_bind (validateExecutableCommon reg p ids raw) (\<lambda>e. validateExecutable p k sid c e raw)) = Inr s"
    using assms by (auto simp: validateStep_def result_iffs prim_iffs)
  show ?thesis
  proof (cases "k = ''approval''")
    case True
    then have "step_id s = sid \<and> step_ctl s = c \<and> step_exec s = None \<and> ok_body s"
      using k(4) validateApproval_ok by simp
    then show ?thesis using k validateStepCommonControl_ok by (simp add: ok_step_def)
  next
    case False
    then obtain e where e: "validateExecutableCommon reg p ids raw = Inr e" "validateExecutable p k sid c e raw = Inr s"
      using k(4) by (auto simp: result_iffs)
    then show ?thesis using k(1-3) validateStepCommonControl_ok validateExecutableCommon_ok validateExecutable_ok [OF e(2)]
      by (simp add: ok_step_def)
  qed
qed

lemma id_pass_ok:
  "id_pass rs n seen = Inr ids \<Longrightarrow> distinct seen \<Longrightarrow>
   \<exists>new. ids = seen @ new \<and> distinct ids \<and> map (\<lambda>r. obj_get r ''id'') rs = map (\<lambda>s. Some (JStr s)) new
     \<and> list_all isRecord rs"
proof (induction rs arbitrary: n seen)
  case (Cons r rs)
  then obtain s where s: "obj_get r ''id'' = Some (JStr s)" "s \<notin> set seen" "isRecord r"
    "id_pass rs (n + 1) (seen @ [s]) = Inr ids"
    by (auto simp: js_set_add_def split: option.splits json.splits if_splits)
  obtain new where "ids = (seen @ [s]) @ new" "distinct ids" "map (\<lambda>r. obj_get r ''id'') rs = map (\<lambda>s. Some (JStr s)) new"
    "list_all isRecord rs"
    using Cons.IH [OF s(4)] Cons.prems(2) s(2) by auto
  then show ?case using s by (intro exI [of _ "s # new"]) simp
qed simp

lemma step_pass_ok:
  "step_pass reg ids rs n = Inr ss \<Longrightarrow> list_all (ok_step reg (set ids)) ss
     \<and> map (\<lambda>r. obj_get r ''id'') rs = map (\<lambda>s. Some (JStr (step_id s))) ss"
proof (induction rs arbitrary: n ss)
  case (Cons r rs)
  then show ?case by (auto simp: result_iffs dest!: validateStep_ok)
qed simp

lemma passes_ok:
  assumes "id_pass rs 0 [] = Inr ids" "step_pass reg ids rs 0 = Inr ss"
  shows "ids = map step_id ss \<and> distinct (map step_id ss) \<and> list_all (ok_step reg (step_id ` set ss)) ss"
proof -
  obtain new where new: "ids = new" "distinct ids" "map (\<lambda>r. obj_get r ''id'') rs = map (\<lambda>s. Some (JStr s)) new"
    using id_pass_ok [OF assms(1)] by auto
  have "map (\<lambda>s. Some (JStr s)) new = map (\<lambda>s. Some (JStr s)) (map step_id ss)"
    using new(3) step_pass_ok [OF assms(2)] by (simp add: o_def)
  then have "new = map step_id ss" by (rule map_injective) (auto intro: injI)
  then show ?thesis using new step_pass_ok [OF assms(2)] by simp
qed

lemma ok_steps_closed:
  "distinct (map step_id ss) \<Longrightarrow> list_all (ok_step reg (step_id ` set ss)) ss \<Longrightarrow> closed_graph ss"
  unfolding closed_graph_def
proof (intro conjI ballI)
  fix s assume l: "list_all (ok_step reg (step_id ` set ss)) ss" and s: "s \<in> set ss"
  then have "ok_control (step_id ` set ss) (step_ctl s)" by (simp add: list_all_iff ok_step_def)
  then show "set (step_needs s) \<subseteq> step_id ` set ss"
    by (cases "sc_needs (step_ctl s)") (simp_all add: ok_control_def step_needs_def)
qed

lemma validateInputs_ok: "validateInputs v = Inr kvs \<Longrightarrow> list_all ok_input kvs"
proof -
  have "validate_inputs xs = Inr kvs \<Longrightarrow> list_all ok_input kvs" for xs kvs
    by (induction xs arbitrary: kvs) (auto simp: result_iffs ok_input_def split: if_splits)
  then show "validateInputs v = Inr kvs \<Longrightarrow> ?thesis"
    by (auto simp: validateInputs_def split: json.splits)
qed

lemma validateDefaults_ok: "validateDefaults reg v = Inr d \<Longrightarrow> ok_defaults reg d"
  by (auto simp: validateDefaults_def result_iffs prim_iffs ok_defaults_def dest: checkAccountBackend_ok)

lemma document_ok:
  assumes "validateDagDocument reg v = Inr d"
  shows "ok_document reg d"
proof -
  obtain rs ids where p: "id_pass rs 0 [] = Inr ids" "step_pass reg ids rs 0 = Inr (dg_steps d)" "rs \<noteq> []"
    "findCycle (dg_steps d) = None"
    using assms by (auto simp: validateDagDocument_def result_iffs prim_iffs)
  have s: "distinct (map step_id (dg_steps d))" "list_all (ok_step reg (step_id ` set (dg_steps d))) (dg_steps d)"
    using passes_ok [OF p(1,2)] by auto
  have ne: "dg_steps d \<noteq> []" using p(2,3) by (cases rs) (auto simp: result_iffs)
  have ac: "acyclic (needs_rel (dg_steps d))" using findCycle_None_iff [OF ok_steps_closed [OF s]] p(4) by simp
  have "DAG_ID_RE (dg_id d)" "clean_name (dg_name d)" "\<forall>x. dg_defaults d = Some x \<longrightarrow> ok_defaults reg x"
    "\<forall>kvs. dg_inputs d = Some kvs \<longrightarrow> list_all ok_input kvs"
    "\<forall>s. dg_description d = Some s \<longrightarrow> clean_name s"
    using assms
    by (auto simp: validateDagDocument_def validate_description_def result_iffs prim_iffs clean_name_def
        dest: validateDefaults_ok validateInputs_ok split: if_splits)
  then show ?thesis using s ne ac by (simp add: ok_document_def ok_shape_def)
qed

end
