(* ===== verification/Runner_Safety.thy ===== *)
theory Runner_Safety
  imports Runner_Walk Dag_Document
begin

text \<open>
  Where a step is during a walk: still remaining, scheduled, active, thrown, or settled with a disposition;
  a disposition is set once and never changes. From this invariant follow that a walk in progress can always
  be resumed, that a walk that settles undisturbed has settled every step, and that the executor is called
  only for steps whose needs completed (or failed under \<open>onError: continue\<close>).
\<close>

section \<open>Where the steps are\<close>

abbreviation steps_of :: "run_options \<Rightarrow> pipeline_step list" where
  "steps_of env \<equiv> dg_steps (ro_document env)"

definition ids :: "run_options \<Rightarrow> string set" where
  "ids env = step_id ` set (steps_of env)"

definition open_needs :: "run_options \<Rightarrow> run_state \<Rightarrow> string \<Rightarrow> bool" where
  "open_needs env s sid \<longleftrightarrow> (\<forall>step. step_by_id (steps_of env) sid = Some step \<longrightarrow> \<not> skipByUpstream env s step)"

definition task_ok :: "run_options \<Rightarrow> run_state \<Rightarrow> string \<Rightarrow> step_task \<Rightarrow> bool" where
  "task_ok env s sid t \<longleftrightarrow> sid \<in> ids env
     \<and> (t = TStart \<longrightarrow> sid \<in> set (rs_remaining s) \<and> needsSatisfied env s sid)
     \<and> (active t \<longrightarrow> sid \<notin> set (rs_remaining s) \<and> jm_get (rs_disposition s) sid = None \<and> open_needs env s sid)
     \<and> (t = TDone \<longrightarrow> jm_get (rs_disposition s) sid \<noteq> None)
     \<and> (rs_phase s = Walking \<longrightarrow> \<not> crashed t)"

definition placed :: "run_options \<Rightarrow> run_state \<Rightarrow> bool" where
  "placed env s \<longleftrightarrow> jm_ok (rs_tasks s) \<and> distinct (rs_remaining s) \<and> set (rs_remaining s) \<subseteq> ids env
     \<and> (\<forall>sid\<in>set (rs_remaining s). jm_get (rs_disposition s) sid = None)
     \<and> (\<forall>sid t. jm_get (rs_tasks s) sid = Some t \<longrightarrow> task_ok env s sid t)
     \<and> (\<forall>sid\<in>ids env. sid \<in> set (rs_remaining s) \<or> jm_get (rs_disposition s) sid \<noteq> None
          \<or> (\<exists>t. jm_get (rs_tasks s) sid = Some t \<and> t \<noteq> TDone))"

lemma same_disposition:
  assumes "rs_disposition s = rs_disposition s'"
  shows "needsSatisfied env s = needsSatisfied env s'" "skipByUpstream env s = skipByUpstream env s'"
    "open_needs env s = open_needs env s'"
proof -
  show n: "needsSatisfied env s = needsSatisfied env s'"
    using assms by (intro ext) (simp add: needsSatisfied_def split: option.split)
  have "need_blocks env s = need_blocks env s'" using assms by (intro ext) (simp add: need_blocks_def)
  then show k: "skipByUpstream env s = skipByUpstream env s'" by (intro ext) (simp add: skipByUpstream_def)
  show "open_needs env s = open_needs env s'" by (intro ext) (simp add: open_needs_def k)
qed

lemma placed_control:
  assumes "control s = control s'"
  shows "placed env s = placed env s'"
proof -
  have "rs_disposition s = rs_disposition s'" using assms by (simp add: control_def)
  then have "task_ok env s = task_ok env s'"
    using assms same_disposition [of s s' env] by (intro ext) (simp add: task_ok_def control_def)
  then show ?thesis using assms by (simp add: placed_def control_def)
qed

text \<open>Settling one step leaves what was known of the needs of the others.\<close>

lemma not_blocks_stable:
  assumes "jm_get (rs_disposition s) sid = None" "rs_disposition s' = jm_set (rs_disposition s) sid d" "\<not> need_blocks env s n"
  shows "\<not> need_blocks env s' n"
  using assms by (auto simp: need_blocks_def jm_get_set split: option.splits disposition.splits if_splits)

lemma open_needs_stable:
  assumes "jm_get (rs_disposition s) sid = None" "rs_disposition s' = jm_set (rs_disposition s) sid d" "open_needs env s k"
  shows "open_needs env s' k"
  using assms not_blocks_stable [OF assms(1,2)] by (auto simp: open_needs_def skipByUpstream_def list_ex_iff)

lemma needsSatisfied_stable:
  assumes "rs_disposition s' = jm_set (rs_disposition s) sid d" "needsSatisfied env s k"
  shows "needsSatisfied env s' k"
  using assms by (auto simp: needsSatisfied_def jm_get_set list_all_iff split: option.splits)

lemma placed_mark:
  assumes p: "placed env s" and t: "jm_get (rs_tasks s) sid = Some t" "t = TStart \<or> active t"
  shows "placed env (set_task sid TDone (markStepDone sid d s))"
proof -
  let ?s = "set_task sid TDone (markStepDone sid d s)"
  have f: "rs_remaining ?s = js_set_delete (rs_remaining s) sid" "rs_disposition ?s = jm_set (rs_disposition s) sid d"
    "rs_tasks ?s = jm_set (rs_tasks s) sid TDone" "rs_phase ?s = rs_phase s"
    by (simp_all add: set_task_def markStepDone_def)
  have tok: "task_ok env s sid t" using p t(1) by (simp add: placed_def)
  then have none: "jm_get (rs_disposition s) sid = None" using t(2) p by (auto simp: task_ok_def placed_def)
  have "task_ok env ?s k u" if "jm_get (rs_tasks ?s) k = Some u" for k u
  proof (cases "k = sid")
    case True
    then have "u = TDone" using that f(3) by (simp add: jm_get_set)
    then show ?thesis using True tok f by (simp add: task_ok_def crashed_def jm_get_set)
  next
    case False
    then have "task_ok env s k u" using that p f(3) by (simp add: placed_def jm_get_set)
    then show ?thesis using False open_needs_stable [OF none f(2)] needsSatisfied_stable [OF f(2)]
      by (simp add: task_ok_def f jm_get_set)
  qed
  moreover have "jm_get (rs_disposition ?s) k = None" if "k \<in> set (rs_remaining ?s)" for k
    using that p f by (auto simp: placed_def jm_get_set)
  moreover have "k \<in> set (rs_remaining ?s) \<or> jm_get (rs_disposition ?s) k \<noteq> None
      \<or> (\<exists>u. jm_get (rs_tasks ?s) k = Some u \<and> u \<noteq> TDone)" if "k \<in> ids env" for k
    using that p f by (cases "k = sid") (auto simp: placed_def jm_get_set)
  ultimately show ?thesis using p f by (auto simp: placed_def)
qed

lemma placed_start:
  assumes p: "placed env s" and t: "jm_get (rs_tasks s) sid = Some TStart" "active t' \<or> (\<exists>e. t' = TThrew e)"
    and n: "open_needs env s sid" and c: "rs_phase s = Walking \<and> ph = Walking \<Longrightarrow> \<not> crashed t'" "ph = Walking \<Longrightarrow> rs_phase s = Walking"
  shows "placed env ((set_task sid t' (unremain sid s))\<lparr>rs_phase := ph\<rparr>)"
proof -
  let ?s = "(set_task sid t' (unremain sid s))\<lparr>rs_phase := ph\<rparr>"
  have f: "rs_remaining ?s = js_set_delete (rs_remaining s) sid" "rs_disposition ?s = rs_disposition s"
    "rs_tasks ?s = jm_set (rs_tasks s) sid t'" "rs_phase ?s = ph" by (simp_all add: set_task_def unremain_def)
  have tok: "sid \<in> ids env" "jm_get (rs_disposition s) sid = None"
    using p t(1) by (auto simp: placed_def task_ok_def)
  have o: "open_needs env ?s k = open_needs env s k" "needsSatisfied env ?s k = needsSatisfied env s k" for k
    by (simp_all only: same_disposition [OF f(2)])
  have "task_ok env ?s k u" if "jm_get (rs_tasks ?s) k = Some u" for k u
  proof (cases "k = sid")
    case True
    then have "u = t'" using that f(3) by (simp add: jm_get_set)
    then show ?thesis using True tok t(2) n c f o by (auto simp: task_ok_def)
  next
    case False
    then have "task_ok env s k u" using that p f(3) by (simp add: placed_def jm_get_set)
    then show ?thesis using False c(2) by (auto simp: task_ok_def f o)
  qed
  moreover have "k \<in> set (rs_remaining ?s) \<or> jm_get (rs_disposition ?s) k \<noteq> None
      \<or> (\<exists>u. jm_get (rs_tasks ?s) k = Some u \<and> u \<noteq> TDone)" if "k \<in> ids env" for k
    using that p f t(2) by (cases "k = sid") (auto simp: placed_def jm_get_set)
  ultimately show ?thesis using p f by (auto simp: placed_def)
qed

lemma placed_move:
  assumes p: "placed env s" and t: "jm_get (rs_tasks s) sid = Some t" "active t" "active t' \<or> (\<exists>e. t' = TThrew e)"
    and c: "rs_phase s = Walking \<and> ph = Walking \<Longrightarrow> \<not> crashed t'" "ph = Walking \<Longrightarrow> rs_phase s = Walking"
  shows "placed env ((set_task sid t' s)\<lparr>rs_phase := ph\<rparr>)"
proof -
  let ?s = "(set_task sid t' s)\<lparr>rs_phase := ph\<rparr>"
  have f: "rs_remaining ?s = rs_remaining s" "rs_disposition ?s = rs_disposition s"
    "rs_tasks ?s = jm_set (rs_tasks s) sid t'" "rs_phase ?s = ph" by (simp_all add: set_task_def)
  have tok: "task_ok env s sid t" using p t(1) by (simp add: placed_def)
  have o: "open_needs env ?s k = open_needs env s k" "needsSatisfied env ?s k = needsSatisfied env s k" for k
    by (simp_all only: same_disposition [OF f(2)])
  have "task_ok env ?s k u" if "jm_get (rs_tasks ?s) k = Some u" for k u
  proof (cases "k = sid")
    case True
    then have "u = t'" using that f(3) by (simp add: jm_get_set)
    then show ?thesis using True tok t c f o by (auto simp: task_ok_def)
  next
    case False
    then have "task_ok env s k u" using that p f(3) by (simp add: placed_def jm_get_set)
    then show ?thesis using False c(2) by (auto simp: task_ok_def f o)
  qed
  moreover have "k \<in> set (rs_remaining ?s) \<or> jm_get (rs_disposition ?s) k \<noteq> None
      \<or> (\<exists>u. jm_get (rs_tasks ?s) k = Some u \<and> u \<noteq> TDone)" if "k \<in> ids env" for k
    using that p f t(3) by (cases "k = sid") (auto simp: placed_def jm_get_set)
  ultimately show ?thesis using p f by (auto simp: placed_def)
qed

lemma needs_open:
  assumes "step_by_id (steps_of env) sid = Some step" "\<not> skipByUpstream env s step"
  shows "open_needs env s sid"
  using assms by (simp add: open_needs_def)

lemma placed_task_event:
  assumes p: "placed env s" and st: "walk_step env s (io, ev) = Some s'" "ev \<notin> {EGeneration, EPause, ECancel}"
  shows "placed env s'"
  using st
proof (cases rule: task_event_cases)
  case (mark sid step t d s1)
  have "control s' = control (set_task sid TDone (markStepDone sid d s))"
    using mark(4,5) by (simp add: control_def set_task_def)
  then show ?thesis using placed_mark [OF p mark(2,3)] placed_control by blast
next
  case (start sid step x s1)
  have ph: "rs_phase s1 = rs_phase s" using start(6) by (simp add: control_def unremain_def)
  have "control s' = control ((set_task sid (task_after x) (unremain sid s))\<lparr>rs_phase := rs_phase s'\<rparr>)"
    using start(5,6) by (simp add: control_def set_task_def unremain_def put_task_fields)
  moreover have "placed env ((set_task sid (task_after x) (unremain sid s))\<lparr>rs_phase := rs_phase s'\<rparr>)"
  proof (rule placed_start [OF p start(2) _ needs_open [OF start(1,4)]])
    show "active (task_after x) \<or> (\<exists>e. task_after x = TThrew e)" using start(3) by (auto simp: task_after_def)
    show "rs_phase s = Walking" if "rs_phase s' = Walking"
      using that ph start(5) by (cases x) (auto simp: put_task_fields split: if_splits)
    show "\<not> crashed (task_after x)" if "rs_phase s = Walking \<and> rs_phase s' = Walking"
      using that ph start(3,5) by (cases x) (auto simp: put_task_fields task_after_def split: if_splits)
  qed
  ultimately show ?thesis using placed_control by blast
next
  case (move sid step t t' s1)
  have tok: "task_ok env s sid t" using p move(2) by (simp add: placed_def)
  have f: "rs_tasks s1 = rs_tasks s" "rs_remaining s1 = rs_remaining s" "rs_disposition s1 = rs_disposition s"
    "rs_cancelled s1 = rs_cancelled s" "rs_paused s1 = rs_paused s"
    "rs_phase s1 = Walking \<Longrightarrow> rs_phase s = Walking \<and> (crashed t' \<longrightarrow> crashed t)"
    using move(7) by (auto simp: control_def reject_def split: if_splits)
  have c: "control s' = control ((set_task sid t' s)\<lparr>rs_phase := rs_phase s1\<rparr>)"
    using f(1-5) by (simp add: move(6) control_def set_task_def)
  have "placed env ((set_task sid t' s)\<lparr>rs_phase := rs_phase s1\<rparr>)"
  proof (rule placed_move [OF p move(2,3)])
    show "active t' \<or> (\<exists>e. t' = TThrew e)" using move(4) ..
    show "rs_phase s = Walking" if "rs_phase s1 = Walking" using that f(6) by blast
    show "\<not> crashed t'" if "rs_phase s = Walking \<and> rs_phase s1 = Walking"
      using that f(6) tok by (auto simp: task_ok_def)
  qed
  then show ?thesis using placed_control [OF c] by simp
next
  case (throw sid step t e s1)
  have f: "rs_phase s' \<noteq> Walking" "rs_tasks s' = jm_set (rs_tasks s) sid (TThrew e)" "rs_remaining s' = rs_remaining s"
    "rs_disposition s' = rs_disposition s" "rs_cancelled s' = rs_cancelled s" "rs_paused s' = rs_paused s"
    using throw(4,5) by (simp_all add: control_def set_task_def reject_def)
  then have c: "control s' = control ((set_task sid (TThrew e) s)\<lparr>rs_phase := rs_phase s'\<rparr>)"
    by (simp add: control_def set_task_def)
  have "placed env ((set_task sid (TThrew e) s)\<lparr>rs_phase := rs_phase s'\<rparr>)"
    by (rule placed_move [OF p throw(2,3)]) (use f(1) in auto)
  then show ?thesis using placed_control [OF c] by simp
qed

lemma settle_run_fields:
  "rs_tasks (settle_run env io s) = rs_tasks s" "rs_remaining (settle_run env io s) = rs_remaining s"
  "rs_disposition (settle_run env io s) = rs_disposition s"
  "rs_cancelled (settle_run env io s) = rs_cancelled s" "rs_paused (settle_run env io s) = rs_paused s"
  "rs_phase (settle_run env io s) \<noteq> Walking"
  by (auto simp: settle_run_def publishRun_def emit_def Let_def split: sum.splits)

lemma placed_settle: "placed env s \<Longrightarrow> placed env (settle_run env io s)"
proof -
  assume p: "placed env s"
  let ?s = "settle_run env io s"
  have "task_ok env ?s k u" if "task_ok env s k u" for k u
    using that same_disposition [of ?s s env] by (simp add: task_ok_def settle_run_fields)
  then show ?thesis using p by (simp add: placed_def settle_run_fields)
qed

lemma placed_generation:
  assumes p: "placed env s" and d: "list_all (\<lambda>(_, t). t = TDone) (rs_tasks s)"
  shows "placed env (generation env io s)"
proof (cases "rs_cancelled s \<or> rs_paused s \<or> filter (needsSatisfied env s) (rs_remaining s) = []")
  case True
  then have "generation env io s = settle_run env io s" by (auto simp: generation_def Let_def)
  then show ?thesis using placed_settle [OF p] by simp
next
  case False
  let ?ready = "filter (needsSatisfied env s) (rs_remaining s)"
  let ?s = "s\<lparr>rs_tasks := map (\<lambda>sid. (sid, TStart)) ?ready\<rparr>"
  have g: "generation env io s = ?s" using False by (simp add: generation_def)
  have get: "jm_get (rs_tasks ?s) i = (if i \<in> set ?ready then Some TStart else None)" for i
    by (simp add: jm_get_def map_of_map_restrict [of "\<lambda>_. TStart"] restrict_map_def)
  have alldone: "u = TDone" if "jm_get (rs_tasks s) k = Some u" for k u
    using d jm_get_in_set [OF that] by (auto simp: list_all_iff)
  have "task_ok env ?s k u" if "jm_get (rs_tasks ?s) k = Some u" for k u
  proof -
    have "u = TStart" "k \<in> set ?ready" using that get [of k] by (auto split: if_splits)
    then show ?thesis using p same_disposition [of ?s s env] by (auto simp: task_ok_def placed_def)
  qed
  moreover have "k \<in> set (rs_remaining s) \<or> jm_get (rs_disposition s) k \<noteq> None" if "k \<in> ids env" for k
    using that p alldone by (auto simp: placed_def)
  moreover have "jm_ok (rs_tasks ?s)" using p by (simp add: placed_def jm_ok_def comp_def)
  ultimately show ?thesis unfolding g using p by (auto simp: placed_def)
qed

lemma placed_walk_step: "placed env s \<Longrightarrow> walk_step env s e = Some s' \<Longrightarrow> placed env s'"
proof -
  assume p: "placed env s" and w: "walk_step env s e = Some s'"
  obtain io ev where e: "e = (io, ev)" by (cases e)
  have flag: "placed env (s\<lparr>rs_paused := b\<rparr>)" "placed env (s\<lparr>rs_cancelled := b, rs_log := l\<rparr>)" for b l
    using p same_disposition [of "s\<lparr>rs_paused := b\<rparr>" s env] same_disposition [of "s\<lparr>rs_cancelled := b, rs_log := l\<rparr>" s env]
    by (simp_all add: placed_def task_ok_def)
  show ?thesis
  proof (cases "ev \<in> {EGeneration, EPause, ECancel}")
    case True
    then consider "ev = EGeneration" | "ev = EPause" | "ev = ECancel" by blast
    then show ?thesis
      by cases (use w e placed_generation [OF p] flag in \<open>auto simp: walk_step_def cancel_walk_def split: if_splits\<close>)
  qed (use placed_task_event [OF p] w e in blast)
qed

section \<open>Start, progress, end\<close>

lemma set_step_ids: "set (step_ids d) = step_id ` set (dg_steps d)"
proof -
  have "fst ` set (foldl (\<lambda>m s. jm_set m (step_id s) s) m steps) = fst ` set m \<union> step_id ` set steps" for m steps
    by (induction steps arbitrary: m) auto
  from this [of "[]" "dg_steps d"] show ?thesis by (simp add: step_ids_def jm_keys_def)
qed

lemma distinct_step_ids: "distinct (step_ids d)"
proof -
  have "jm_ok (foldl (\<lambda>m s. jm_set m (step_id s) s) m steps)" if "jm_ok m" for m :: "(string, pipeline_step) jmap" and steps
    using that by (induction steps arbitrary: m) auto
  from this [of "[]" "dg_steps d"] show ?thesis by (simp add: step_ids_def jm_keys_def jm_ok_def)
qed

lemma placed_init: "placed env (walk_init env db now)"
proof -
  let ?s = "walk_init env db now"
  have "rs_remaining ?s = step_ids (ro_document env)" "rs_disposition ?s = []" "rs_tasks ?s = []"
    by (simp_all add: walk_init_def publishRun_def emit_def Let_def split: sum.splits)
  then show ?thesis by (simp add: placed_def ids_def set_step_ids distinct_step_ids jm_get_def)
qed

lemma placed_run: "placed env s \<Longrightarrow> walk_run env s es = Some s' \<Longrightarrow> placed env s'"
  by (induction es arbitrary: s) (auto simp: bind_eq_Some_conv intro: placed_walk_step)

text \<open>The answers a walk in progress may be waiting for; everything else is the program's own continuation.\<close>

definition program_event :: "walk_event \<Rightarrow> bool" where
  "program_event ev = (case ev of EPause \<Rightarrow> False | ECancel \<Rightarrow> False
     | ESlot _ _ WallClock \<Rightarrow> False | ESlot _ _ ExecutorThrew \<Rightarrow> False | _ \<Rightarrow> True)"

lemma slot_progress:
  assumes "\<nexists>ok. pc = SReturn ok"
  shows "\<exists>sev x. slot_step env io s step i item pc sev = Some x \<and> program_event (ESlot sid w sev)"
proof (cases pc)
  case (SExec l ctx a row b)
  then show ?thesis by (intro exI [of _ "Answer (failed_result [])"]) (simp add: program_event_def)
qed (use assms in \<open>auto intro!: exI [of _ Continue] simp: program_event_def\<close>)

lemma fan_progress:
  assumes "WThrew \<notin> set ws" "\<not> list_all (\<lambda>w. w = WDone) ws"
  shows "\<exists>w sev x. fan_step env io s step items nxt results ws w sev = Some x \<and> program_event (ESlot sid w sev)"
proof -
  obtain w where w: "w < length ws" "ws ! w \<noteq> WDone" using assms(2) by (auto simp: list_all_length)
  have "ws ! w \<noteq> WThrew" using assms(1) w(1) nth_mem by metis
  then consider "ws ! w = WIdle" | i pc where "ws ! w = WBusy i pc" using w(2) by (cases "ws ! w") auto
  then show ?thesis
  proof cases
    case 1
    then show ?thesis using w by (intro exI [of _ w] exI [of _ Continue]) (simp add: fan_step_def program_event_def)
  next
    case (2 i pc)
    show ?thesis
    proof (cases "\<exists>ok. pc = SReturn ok")
      case True
      then show ?thesis using w 2 by (intro exI [of _ w] exI [of _ Continue]) (auto simp: fan_step_def program_event_def)
    next
      case False
      obtain sev x where x: "slot_step env io s step i (Some (items ! i)) pc sev = Some x" "program_event (ESlot sid w sev)"
        using slot_progress [of pc env io s step i "Some (items ! i)" sid w] False by blast
      have "fan_step env io s step items nxt results ws w sev \<noteq> None"
        using w 2 False x(1) by (cases pc) (auto simp: fan_step_def)
      then show ?thesis using x(2) by blast
    qed
  qed
qed

lemma task_progress:
  assumes "\<not> crashed t" "t \<noteq> TDone"
  shows "(\<exists>x. task_step env io s step t = Some x)
    \<or> (\<exists>w sev x. task_slot env io s step t w sev = Some x \<and> program_event (ESlot sid w sev))
    \<or> (\<exists>x. task_gate env io s step t GAllowed = Some x)"
proof (cases t)
  case (TScalar pc)
  show ?thesis
  proof (cases "\<exists>ok. pc = SReturn ok")
    case True
    then show ?thesis using TScalar by (auto simp: task_step_def)
  next
    case False
    obtain sev x where x: "slot_step env io s step 0 None pc sev = Some x" "program_event (ESlot sid 0 sev)"
      using slot_progress [of pc env io s step 0 None sid 0] False by blast
    then have "\<exists>y. task_slot env io s step t 0 sev = Some y" using TScalar by (simp add: task_slot_def)
    then show ?thesis using x(2) by blast
  qed
next
  case (TFan items nxt results ws)
  show ?thesis
  proof (cases "list_all (\<lambda>w. w = WDone) ws")
    case True
    then show ?thesis using TFan by (auto simp: task_step_def)
  next
    case False
    then show ?thesis using fan_progress [of ws env io s step items nxt results sid] assms(1) TFan by (simp add: task_slot_def)
  qed
qed (use assms in \<open>auto simp: task_step_def task_gate_def crashed_def\<close>)

lemma walk_progress:
  assumes p: "placed env s" and d: "distinct (map step_id (steps_of env))" and w: "rs_phase s = Walking"
  shows "\<exists>ev s'. walk_step env s (io, ev) = Some s' \<and> program_event ev"
proof (cases "list_all (\<lambda>(_, t). t = TDone) (rs_tasks s)")
  case True
  then show ?thesis using w by (intro exI [of _ EGeneration]) (simp add: walk_step_def program_event_def)
next
  case False
  obtain sid t where "(sid, t) \<in> set (rs_tasks s)" and nd: "t \<noteq> TDone" using False by (auto simp: list_all_iff)
  then have "jm_get (rs_tasks s) sid = Some t" using p in_set_jm_get by (auto simp: placed_def)
  note t = this nd
  have tok: "task_ok env s sid t" using p t(1) by (simp add: placed_def)
  then have "sid \<in> set (map step_id (steps_of env))" by (simp add: task_ok_def ids_def)
  then obtain step where step: "step_by_id (steps_of env) sid = Some step"
    using step_by_id_None [OF d, of sid] by (cases "step_by_id (steps_of env) sid") auto
  have "\<not> crashed t" using tok w by (simp add: task_ok_def)
  from task_progress [OF this t(2), of env io s step sid] show ?thesis
  proof (elim disjE exE conjE)
    fix x assume "task_step env io s step t = Some x"
    then show ?thesis using t step
      by (intro exI [of _ "EStep sid"]) (simp add: walk_step_def with_task_def program_event_def)
  next
    fix wk sev x assume "task_slot env io s step t wk sev = Some x" "program_event (ESlot sid wk sev)"
    then show ?thesis using t step
      by (intro exI [of _ "ESlot sid wk sev"]) (simp add: walk_step_def with_task_def)
  next
    fix x assume "task_gate env io s step t GAllowed = Some x"
    then show ?thesis using t step
      by (intro exI [of _ "EGate sid GAllowed"]) (simp add: walk_step_def with_task_def program_event_def)
  qed
qed

text \<open>A walk that stops with neither pause nor cancel has settled every step: a step without disposition
  would wait for another one, and the needs have no cycle.\<close>

lemma all_settled:
  assumes p: "placed env s" and g: "closed_graph (steps_of env)" "acyclic (needs_rel (steps_of env))"
    and d: "list_all (\<lambda>(_, t). t = TDone) (rs_tasks s)" and r: "filter (needsSatisfied env s) (rs_remaining s) = []"
    and k: "k \<in> ids env"
  shows "jm_get (rs_disposition s) k \<noteq> None"
proof -
  define U where "U = {k \<in> ids env. jm_get (rs_disposition s) k = None}"
  have dist: "distinct (map step_id (steps_of env))" using g(1) by (simp add: closed_graph_def)
  have "\<exists>n\<in>U. (n, x) \<in> needs_rel (steps_of env)" if u: "x \<in> U" for x
  proof -
    have nd: "t = TDone" if "jm_get (rs_tasks s) x = Some t" for t using d jm_get_in_set [OF that] by (auto simp: list_all_iff)
    have none: "jm_get (rs_disposition s) x = None" "x \<in> ids env" using u by (auto simp: U_def)
    have "x \<in> set (rs_remaining s) \<or> jm_get (rs_disposition s) x \<noteq> None \<or> (\<exists>t. jm_get (rs_tasks s) x = Some t \<and> t \<noteq> TDone)"
      using p none(2) unfolding placed_def by blast
    then have "x \<in> set (rs_remaining s)" using none(1) nd by (elim disjE) auto
    then have ns: "\<not> needsSatisfied env s x" using r by (simp add: filter_empty_conv)
    obtain step where step: "step \<in> set (steps_of env)" "step_id step = x" using none(2) by (auto simp: ids_def)
    then have "step_by_id (steps_of env) x = Some step" using step_by_id_mem [OF dist step(1)] by simp
    then have "\<not> list_all (\<lambda>n. jm_get (rs_disposition s) n \<noteq> None) (step_needs step)" using ns by (simp add: needsSatisfied_def)
    then obtain n where n: "n \<in> set (step_needs step)" "jm_get (rs_disposition s) n = None" by (auto simp: list_all_iff)
    have "n \<in> ids env" using g(1) step(1) n(1) unfolding closed_graph_def ids_def by blast
    moreover have "(n, x) \<in> needs_rel (steps_of env)" using n(1) step unfolding needs_rel_def by blast
    ultimately show ?thesis using n(2) by (auto simp: U_def)
  qed
  moreover have "U \<subseteq> step_id ` set (steps_of env)" by (auto simp: ids_def U_def)
  ultimately have "U = {}" using stuck_cyclic [of U "steps_of env"] g(2) by blast
  then show ?thesis using k by (auto simp: U_def)
qed

definition settled_ok :: "run_options \<Rightarrow> run_state \<Rightarrow> bool" where
  "settled_ok env s \<longleftrightarrow> (\<forall>oc. rs_phase s = Settled oc \<longrightarrow> list_all (\<lambda>(_, t). t = TDone) (rs_tasks s) \<and> oc = outcome_of s
     \<and> (\<exists>run. jm_get (db_runs (rs_store s)) (ro_runId env) = Some run \<and> pr_status run = run_state_of oc)
     \<and> (rs_cancelled s \<or> rs_paused s \<or> (\<forall>k\<in>ids env. jm_get (rs_disposition s) k \<noteq> None)))"

lemma settle_run_ok:
  assumes "list_all (\<lambda>(_, t). t = TDone) (rs_tasks s)" "rs_cancelled s \<or> rs_paused s \<or> (\<forall>k\<in>ids env. jm_get (rs_disposition s) k \<noteq> None)"
  shows "settled_ok env (settle_run env io s)"
proof (cases "runs_setStatus (rs_store s) (io_now io) (ro_runId env) (run_state_of (outcome_of s))
    \<lparr>rp_cost = Some (rs_totalCost s), rp_startedAtMs = None,
     rp_finishedAtMs = map_option num (if outcome_of s = OPaused then None else Some (io_now io))\<rparr>")
  case (Inl e)
  then have "rs_phase (settle_run env io s) = Rejected (StoreError e)" by (simp add: settle_run_def Let_def)
  then show ?thesis by (simp add: settled_ok_def)
next
  case (Inr y)
  obtain db r where y: "y = (db, r)" by (cases y)
  have f: "rs_phase (settle_run env io s) = Settled (outcome_of s)" "rs_store (settle_run env io s) = db"
    using Inr y by (simp_all add: settle_run_def Let_def publishRun_def emit_def)
  have "jm_get (db_runs db) (ro_runId env) = Some r" "pr_status r = run_state_of (outcome_of s)"
    using Inr y by (auto elim!: setStatus_Inr simp: jm_get_set)
  moreover have "outcome_of (settle_run env io s) = outcome_of s" by (simp add: outcome_of_def settle_run_fields)
  ultimately show ?thesis using f assms by (simp add: settled_ok_def settle_run_fields)
qed

lemma task_event_phase:
  assumes "walk_step env s (io, ev) = Some s'" "ev \<notin> {EGeneration, EPause, ECancel}"
  shows "rs_phase s' = rs_phase s \<or> (\<exists>e. rs_phase s' = Rejected e)"
  using assms
proof (cases rule: task_event_cases)
  case (mark sid step t d s1)
  then show ?thesis by (simp add: set_task_def control_def markStepDone_def)
next
  case (start sid step x s1)
  then have "rs_phase s1 = rs_phase s" by (simp add: control_def unremain_def)
  then show ?thesis using start(5) by (cases x) (simp_all add: put_task_fields)
next
  case (move sid step t t' s1)
  then show ?thesis by (auto simp: set_task_def control_def reject_def split: if_splits)
next
  case (throw sid step t e s1)
  then show ?thesis by (simp add: set_task_def control_def reject_def)
qed

lemma settled_generation:
  assumes p: "placed env s" and g: "closed_graph (steps_of env)" "acyclic (needs_rel (steps_of env))"
    and w: "rs_phase s = Walking" and d: "list_all (\<lambda>(_, t). t = TDone) (rs_tasks s)"
  shows "settled_ok env (generation env io s)"
proof (cases "rs_cancelled s \<or> rs_paused s \<or> filter (needsSatisfied env s) (rs_remaining s) = []")
  case True
  then have "generation env io s = settle_run env io s" by (auto simp: generation_def Let_def)
  moreover have "settled_ok env (settle_run env io s)"
    using True by (intro settle_run_ok [OF d]) (use all_settled [OF p g d] in blast)
  ultimately show ?thesis by simp
next
  case False
  then have "rs_phase (generation env io s) = Walking" using w by (simp add: generation_def)
  then show ?thesis by (simp add: settled_ok_def)
qed

lemma settled_walk_step:
  assumes p: "placed env s" and g: "closed_graph (steps_of env)" "acyclic (needs_rel (steps_of env))"
    and i: "settled_ok env s" and w: "walk_step env s e = Some s'"
  shows "settled_ok env s'"
proof -
  obtain io ev where e: "e = (io, ev)" by (cases e)
  show ?thesis
  proof (cases "ev \<in> {EGeneration, EPause, ECancel}")
    case True
    then have wk: "rs_phase s = Walking" using w e by (auto simp: walk_step_def split: if_splits)
    from True consider "ev = EGeneration" | "ev \<in> {EPause, ECancel}" by blast
    then show ?thesis
    proof cases
      case 1
      then have "s' = generation env io s" "list_all (\<lambda>(_, t). t = TDone) (rs_tasks s)"
        using w e by (auto simp: walk_step_def split: if_splits)
      then show ?thesis using settled_generation [OF p g wk] by simp
    next
      case 2
      then have "rs_phase s' = Walking" using w e wk by (auto simp: walk_step_def cancel_walk_def split: if_splits)
      then show ?thesis by (simp add: settled_ok_def)
    qed
  next
    case False
    note ev = w [unfolded e] False
    show ?thesis
    proof (cases "\<exists>oc. rs_phase s = Settled oc")
      case True
      then have d: "list_all (\<lambda>(_, t). t = TDone) (rs_tasks s)" using i by (auto simp: settled_ok_def)
      have stuck: "\<not> (t = TStart \<or> active t)" if "jm_get (rs_tasks s) k = Some t" for k t
        using d jm_get_in_set [OF that] by (auto simp: list_all_iff)
      from ev show ?thesis by (cases rule: task_event_cases) (use stuck in blast)+
    next
      case nos: False
      then show ?thesis using task_event_phase [OF ev] by (auto simp: settled_ok_def)
    qed
  qed
qed

end
