(* ===== verification/Runner_Calls.thy ===== *)
theory Runner_Calls
  imports Runner_Safety
begin

text \<open>
  The calls a walk makes on the executor: which resumptions make one, for which step and with which numbers.
  From the invariant of the steps: a call is only made while every need of the step allows it, and that stays
  true ever after. From an invariant of the program counters: an attempt number stays within the retry budget
  of its pass, and a fan-out has at most its \<open>maxParallel\<close> calls outstanding.
\<close>

section \<open>Rules for stretches of code\<close>

lemma with_storeI:
  assumes "\<And>e. op (rs_store s) = Inl e \<Longrightarrow> P (s, Inl (StoreError e))"
    "\<And>db r. op (rs_store s) = Inr (db, r) \<Longrightarrow> P (k (s\<lparr>rs_store := db\<rparr>) r)"
  shows "P (with_store s op k)"
  using assms by (auto simp: with_store_def split: sum.splits)

lemma with_readI:
  assumes "\<And>e. m = Inl e \<Longrightarrow> P (s, Inl (StoreError e))" "\<And>r. m = Inr r \<Longrightarrow> P (k r)"
  shows "P (with_read s m k)"
  using assms by (auto simp: with_read_def split: sum.splits)

lemma journalI:
  assumes "\<And>e. P (s, Inl (StoreError e))"
    "\<And>db r. attempts_record (ro_reg env) (rs_store s) (io_now io) inp = Inr (db, r) \<Longrightarrow> P (k (s\<lparr>rs_store := db\<rparr>) r)"
  shows "P (journal env io s inp k)"
  unfolding journal_def by (rule with_storeI) (use assms in auto)

section \<open>Executor calls\<close>

definition exec_of :: "effect \<Rightarrow> exec_request option" where
  "exec_of e = (case e of Execute r \<Rightarrow> Some r | _ \<Rightarrow> None)"

lemma exec_of_Some [simp]: "exec_of e = Some r \<longleftrightarrow> e = Execute r"
  by (cases e) (auto simp: exec_of_def)

definition execs :: "run_state \<Rightarrow> exec_request list" where
  "execs s = List.map_filter exec_of (rs_log s)"

lemma set_map_filter_iff: "y \<in> set (List.map_filter f xs) \<longleftrightarrow> (\<exists>x\<in>set xs. f x = Some y)"
  by (induction xs) (auto simp: List.map_filter_simps split: option.splits)

lemma map_filter_append: "List.map_filter f (xs @ ys) = List.map_filter f xs @ List.map_filter f ys"
  by (induction xs) (auto simp: List.map_filter_simps split: option.splits)

lemma execs_iff: "r \<in> set (execs s) \<longleftrightarrow> Execute r \<in> set (rs_log s)"
  by (simp add: execs_def set_map_filter_iff)

lemma execs_log: "rs_log s = rs_log s' \<Longrightarrow> execs s = execs s'"
  by (simp add: execs_def)

lemma execs_simps [simp]:
  "execs (s\<lparr>rs_store := db\<rparr>) = execs s" "execs (s\<lparr>rs_stepOutputs := os\<rparr>) = execs s" "execs (s\<lparr>rs_stepNodes := ns\<rparr>) = execs s"
  "execs (s\<lparr>rs_totalCost := tc\<rparr>) = execs s" "execs (s\<lparr>rs_phase := ph\<rparr>) = execs s" "execs (s\<lparr>rs_paused := b\<rparr>) = execs s"
  "execs (s\<lparr>rs_tasks := ts\<rparr>) = execs s" "execs (s\<lparr>rs_remaining := rem\<rparr>) = execs s"
  "execs (publishStep u s) = execs s" "execs (publishRun a b' c d s) = execs s" "execs (recordSkip env io step s) = execs s"
  "execs (markStepDone i dd s) = execs s" "execs (add_cost r s) = execs s" "execs (set_task i t s) = execs s"
  "execs (unremain i s) = execs s" "execs (reject e s) = execs s"
  by (simp_all add: execs_def publishStep_def publishRun_def emit_def recordSkip_def markStepDone_def add_cost_def
      set_task_def unremain_def reject_def Let_def map_filter_append List.map_filter_simps exec_of_def split: option.splits)

lemma execs_emit [simp]: "execs (emit e s) = execs s @ (case e of Execute r \<Rightarrow> [r] | _ \<Rightarrow> [])"
  by (cases e) (simp_all add: execs_def emit_def map_filter_append List.map_filter_simps exec_of_def)

lemma execs_append:
  assumes "\<And>e. e \<in> set l \<Longrightarrow> exec_of e = None"
  shows "execs (s\<lparr>rs_log := rs_log s @ l\<rparr>) = execs s"
proof -
  have "List.map_filter exec_of l = []" using assms by (induction l) (auto simp: List.map_filter_simps)
  then show ?thesis by (simp add: execs_def map_filter_append)
qed

lemma execs_lineage [simp]: "execs (recordLineageAndCost env io step i a r s) = execs s"
proof -
  have "execs (s\<lparr>rs_log := rs_log s @ concat (map (\<lambda>need. map (\<lambda>from. WorkflowEdge need from k node) (f need)) ns)\<rparr>) = execs s"
    for s k node f ns by (rule execs_append) (auto simp: exec_of_def)
  from this [of "s\<lparr>rs_stepNodes := nn\<rparr>" for s nn] show ?thesis
    unfolding recordLineageAndCost_def Let_def by (auto split: option.splits)
qed

text \<open>The one place that calls the executor.\<close>

definition calls_once :: "run_options \<Rightarrow> pipeline_step \<Rightarrow> nat \<Rightarrow> run_state \<Rightarrow> run_state \<times> (walk_error + slot_pc) \<Rightarrow> bool" where
  "calls_once env step i s x \<longleftrightarrow> execs (fst x) = execs s
     \<or> (\<exists>l ctx a row. snd x = Inr (SExec l ctx a row False) \<and> execs (fst x) = execs s @ [request_of env step i ctx a])"

lemma attempt_head_calls: "calls_once env step i s (attempt_head env io s step i l ctx a)"
proof (cases "rs_cancelled s")
  case True
  then show ?thesis unfolding attempt_head_def recordStepAttempt_def
    by simp (rule journalI; simp add: calls_once_def)
next
  case False
  then show ?thesis unfolding attempt_head_def
    by simp (rule journalI; simp add: calls_once_def Let_def)
qed

lemma memo_hit_calls: "execs (fst (applyMemoHit env io s sid i memo (\<lambda>s. (s, x)))) = execs s"
  unfolding applyMemoHit_def Let_def
  by (rule with_readI) (simp, rule journalI, simp_all split: option.splits)

lemma begin_attempt_calls: "calls_once env step i s (begin_attempt env io s step i item l)"
proof (cases "resolveBackend (ro_reg env) step (ro_document env) (resolveAccount step (ro_document env))")
  case (Some b)
  show ?thesis unfolding begin_attempt_def Some Let_def option.case
  proof (rule with_readI, goal_cases)
    case (2 memo)
    show ?case
    proof (cases memo)
      case None
      show ?thesis unfolding None option.case
        by (rule with_readI) (simp add: calls_once_def, rule attempt_head_calls)
    next
      case (Some row)
      then show ?thesis by (simp add: calls_once_def memo_hit_calls)
    qed
  qed (simp add: calls_once_def)
qed (simp add: begin_attempt_def calls_once_def)

lemma after_failure_calls: "execs (fst (after_failure step l ctx a r s)) = execs s"
  by (simp add: after_failure_def split: option.splits)

lemma after_answer_calls: "execs (fst (after_answer env io s step i l ctx a row b ans)) = execs s"
proof -
  let ?s = "add_cost (budget_result b ans) (emit (budget_effect ans (step_id step, i, a)) s)"
  have e: "execs ?s = execs s" by (cases ans) (simp_all add: budget_effect_def)
  show ?thesis unfolding after_answer_def Let_def
  proof (rule with_storeI, goal_cases)
    case (1 e)
    then show ?case using e by (simp only: fst_conv)
  next
    case (2 db r)
    then show ?case using e by (cases "xr_output (budget_result b ans)") (simp_all add: after_failure_calls)
  qed
qed

lemma slot_step_calls:
  assumes "slot_step env io s step i item pc ev = Some x"
  shows "\<exists>l. calls_once env step (effectiveIteration step i l) s x"
  using assms
proof (cases "(env, io, s, step, i, item, pc, ev)" rule: slot_step.cases)
  case (1 env io s step i item l ok)
  show ?thesis
  proof (cases "l < maxLoops step \<and> \<not> rs_cancelled s \<and> \<not> rs_paused s")
    case True
    then have "x = begin_attempt env io s step (effectiveIteration step i l) item l" using 1 assms by (auto split: if_splits)
    then show ?thesis using begin_attempt_calls 1 by blast
  next
    case False
    then have "fst x = s" using 1 assms by (auto split: if_splits)
    then show ?thesis using 1 by (auto simp: calls_once_def)
  qed
next
  case (2 env io s step i item l ctx a)
  then have "x = attempt_head env io s step (effectiveIteration step i l) l ctx a" using assms by auto
  then show ?thesis using attempt_head_calls 2 by blast
qed (use assms after_answer_calls in \<open>auto simp: calls_once_def split: if_splits\<close>)

lemma settle_gate_execs: "execs (fst (settle_gate env io s step row d)) = execs s"
  unfolding settle_gate_def Let_def by (rule with_storeI) simp_all

lemma runGate_execs: "execs (fst (runGate env io s step)) = execs s"
  unfolding runGate_def Let_def
proof (rule journalI, goal_cases)
  case (2 db row)
  then show ?case by (simp add: settle_gate_execs)
qed simp

lemma runStep_execs: "execs (fst (runStep env io s step)) = execs s"
  by (simp add: runStep_def runGate_execs Let_def split: option.split)

lemma task_step_execs: "task_step env io s step t = Some x \<Longrightarrow> execs (fst x) = execs s"
  by (cases t) (auto simp: task_step_def runStep_execs split: slot_pc.splits if_splits)

definition new_call :: "run_options \<Rightarrow> pipeline_step \<Rightarrow> run_state \<Rightarrow> run_state \<Rightarrow> bool" where
  "new_call env step s s' \<longleftrightarrow> (\<exists>i ctx a. execs s' = execs s @ [request_of env step i ctx a])"

lemma fan_step_execs:
  assumes "fan_step env io s step items nxt results ws w ev = Some x"
  shows "execs (fst x) = execs s \<or> new_call env step s (fst x)"
proof -
  have w: "w < length ws" using assms by (auto simp: fan_step_def split: if_splits)
  show ?thesis
  proof (cases "ws ! w")
    case WIdle
    then show ?thesis using assms w by (auto simp: fan_step_def split: if_splits)
  next
    case (WBusy i pc)
    show ?thesis
    proof (cases "\<exists>ok. pc = SReturn ok")
      case True
      then show ?thesis using assms WBusy w by (auto simp: fan_step_def split: if_splits)
    next
      case False
      then have x: "map_option (\<lambda>(s, x). case x of
            Inl e \<Rightarrow> (reject e s, Inr (TFan items nxt results (ws[w := WThrew])))
          | Inr pc' \<Rightarrow> (s, Inr (TFan items nxt results (ws[w := WBusy i pc']))))
          (slot_step env io s step i (Some (items ! i)) pc ev) = Some x"
        using assms WBusy w by (cases pc) (auto simp: fan_step_def)
      then obtain y where y: "slot_step env io s step i (Some (items ! i)) pc ev = Some y" by auto
      have "execs (fst x) = execs (fst y)" using x y by (auto split: sum.splits prod.splits)
      then show ?thesis using slot_step_calls [OF y] by (auto simp: calls_once_def new_call_def)
    qed
  qed (use assms w in \<open>auto simp: fan_step_def\<close>)
qed

lemma task_slot_execs:
  assumes "task_slot env io s step t w ev = Some x"
  shows "execs (fst x) = execs s \<or> (active t \<and> new_call env step s (fst x))"
proof (cases t)
  case (TScalar pc)
  then obtain y where y: "slot_step env io s step 0 None pc ev = Some y" "fst x = fst y"
    using assms by (auto simp: task_slot_def split: if_splits)
  then show ?thesis using slot_step_calls [OF y(1)] TScalar by (auto simp: calls_once_def new_call_def)
next
  case (TFan items nxt results ws)
  then show ?thesis using assms fan_step_execs by (simp add: task_slot_def)
qed (use assms in \<open>simp_all add: task_slot_def\<close>)

lemma put_task_execs: "execs (put_task sid x) = execs (fst x)"
  by (cases x) (simp add: execs_def put_task_fields)

lemma cancel_execs: "execs (cancel_walk env s) = execs s"
proof -
  have "List.map_filter exec_of (ReapAll # map ReapStep ks) = []" for ks
    by (induction ks) (simp_all add: List.map_filter_simps exec_of_def)
  then have "List.map_filter exec_of (l @ ReapAll # map ReapStep ks) = List.map_filter exec_of l" for l ks
    by (simp only: map_filter_append) simp
  then show ?thesis by (simp add: cancel_walk_def execs_def)
qed

lemma generation_execs: "execs (generation env io s) = execs s"
proof -
  have "execs (settle_run env io s) = execs s" unfolding settle_run_def Let_def by (simp split: sum.split prod.split)
  then show ?thesis by (simp add: generation_def Let_def)
qed

lemma walk_step_execs:
  assumes "walk_step env s (io, ev) = Some s'"
  shows "execs s' = execs s \<or> (\<exists>sid step t. jm_get (rs_tasks s) sid = Some t \<and> active t
    \<and> step_by_id (steps_of env) sid = Some step \<and> new_call env step s s')"
proof (cases ev)
  case EGeneration
  then have "s' = generation env io s" using assms by (simp add: walk_step_def split: if_splits)
  then show ?thesis by (simp add: generation_execs)
next
  case (EStep sid)
  then have "with_task env s sid (task_step env io s) = Some s'" using assms by (simp add: walk_step_def)
  then show ?thesis
  proof (rule with_task_cases)
    fix step t s1 x assume a: "task_step env io s step t = Some (s1, x)" "s' = put_task sid (s1, x)"
    show ?thesis using task_step_execs [OF a(1)] a(2) by (simp add: put_task_execs)
  qed
next
  case (ESlot sid w sev)
  then have "with_task env s sid (\<lambda>step t. task_slot env io s step t w sev) = Some s'" using assms by (simp add: walk_step_def)
  then show ?thesis
  proof (rule with_task_cases)
    fix step t s1 x assume a: "step_by_id (steps_of env) sid = Some step" "jm_get (rs_tasks s) sid = Some t"
      "task_slot env io s step t w sev = Some (s1, x)" "s' = put_task sid (s1, x)"
    have e: "execs s' = execs s1" using a(4) by (simp add: put_task_execs)
    from task_slot_execs [OF a(3)] show ?thesis
    proof
      assume "active t \<and> new_call env step s (fst (s1, x))"
      then have "active t" "new_call env step s s'" by (simp_all add: new_call_def e)
      then show ?thesis using a(1,2) by blast
    qed (simp add: e)
  qed
next
  case (EGate sid g)
  then have "with_task env s sid (\<lambda>step t. task_gate env io s step t g) = Some s'" using assms by (simp add: walk_step_def)
  then show ?thesis
  proof (rule with_task_cases)
    fix step t s1 x assume a: "task_gate env io s step t g = Some (s1, x)" "s' = put_task sid (s1, x)"
    obtain row where "settle_gate env io s step row (gate_disposition step g) = (s1, x)"
      using a(1) by (cases t) (auto simp: task_gate_def)
    then have "execs s1 = execs s" using settle_gate_execs by (metis fst_conv)
    then show ?thesis using a(2) by (simp add: put_task_execs)
  qed
next
  case EPause
  then have "s' = s\<lparr>rs_paused := True\<rparr>" using assms by (simp add: walk_step_def split: if_splits)
  then show ?thesis by simp
next
  case ECancel
  then have "s' = cancel_walk env s" using assms by (simp add: walk_step_def split: if_splits)
  then show ?thesis by (simp add: cancel_execs)
qed

section \<open>Dispositions are final, calls respect the needs\<close>

lemma disposition_final:
  assumes "placed env s" "walk_step env s e = Some s'" "jm_get (rs_disposition s) k = Some d"
  shows "jm_get (rs_disposition s') k = Some d"
proof -
  obtain io ev where e: "e = (io, ev)" by (cases e)
  show ?thesis
  proof (cases "ev \<in> {EGeneration, EPause, ECancel}")
    case True
    then have "rs_disposition s' = rs_disposition s" using assms(2) e
      by (auto simp: walk_step_def generation_def settle_run_fields cancel_walk_def Let_def split: if_splits)
    then show ?thesis using assms(3) by simp
  next
    case False
    from assms(2) [unfolded e] False show ?thesis
    proof (cases rule: task_event_cases)
      case (mark sid step t d' s1)
      have "task_ok env s sid t" using assms(1) mark(2) by (simp add: placed_def)
      then have "jm_get (rs_disposition s) sid = None" using mark(3) assms(1) by (auto simp: task_ok_def placed_def)
      then have "k \<noteq> sid" using assms(3) by auto
      moreover have "rs_disposition s' = jm_set (rs_disposition s) sid d'"
        using mark(4,5) by (simp add: set_task_def control_def markStepDone_def)
      ultimately show ?thesis using assms(3) by (simp add: jm_get_set)
    next
      case (start sid step x s1)
      then show ?thesis using assms(3) by (simp add: put_task_fields control_def unremain_def)
    next
      case (move sid step t t' s1)
      then have "rs_disposition s1 = rs_disposition s" by (auto simp: control_def reject_def split: if_splits)
      then show ?thesis using assms(3) move(6) by (simp add: set_task_def)
    next
      case (throw sid step t e' s1)
      then show ?thesis using assms(3) by (simp add: set_task_def control_def reject_def)
    qed
  qed
qed

definition called_ok :: "run_options \<Rightarrow> run_state \<Rightarrow> bool" where
  "called_ok env s \<longleftrightarrow> (\<forall>r\<in>set (execs s). open_needs env s (eq_stepId r) \<and> eq_stepId r \<in> ids env)"

lemma open_needs_final:
  assumes "\<And>k d. jm_get (rs_disposition s) k = Some d \<Longrightarrow> jm_get (rs_disposition s') k = Some d" "open_needs env s sid"
  shows "open_needs env s' sid"
proof -
  have "\<not> need_blocks env s' n" if "\<not> need_blocks env s n" for n
    using that assms(1) [of n] by (auto simp: need_blocks_def split: option.splits disposition.splits)
  then show ?thesis using assms(2) by (auto simp: open_needs_def skipByUpstream_def list_ex_iff)
qed

lemma called_walk_step:
  assumes p: "placed env s" and c: "called_ok env s" and w: "walk_step env s e = Some s'"
  shows "called_ok env s'"
proof -
  obtain io ev where e: "e = (io, ev)" by (cases e)
  note stable = open_needs_final [OF disposition_final [OF p w], where env = env]
  have old: "open_needs env s' (eq_stepId r) \<and> eq_stepId r \<in> ids env" if "r \<in> set (execs s)" for r
    using c that stable by (auto simp: called_ok_def)
  from walk_step_execs [OF w [unfolded e]] show ?thesis
  proof
    assume "\<exists>sid step t. jm_get (rs_tasks s) sid = Some t \<and> active t
      \<and> step_by_id (steps_of env) sid = Some step \<and> new_call env step s s'"
    then obtain sid step t i ctx a where t: "jm_get (rs_tasks s) sid = Some t" "active t"
      "step_by_id (steps_of env) sid = Some step" "execs s' = execs s @ [request_of env step i ctx a]"
      by (auto simp: new_call_def)
    have "open_needs env s sid" "sid \<in> ids env" using p t(1,2) by (auto simp: placed_def task_ok_def)
    moreover have "eq_stepId (request_of env step i ctx a) = sid" using step_by_id_id [OF t(3)] by (simp add: request_of_def)
    ultimately show ?thesis using old t(4) stable by (auto simp: called_ok_def)
  qed (use old in \<open>simp add: called_ok_def\<close>)
qed

end
