(* ===== verification/Runner_Journal.thy ===== *)
theory Runner_Journal
  imports Runner_Calls
begin

text \<open>
  A walk and its journal. Whatever a resumption does to the tables is a sequence of calls on the pipelines
  store, so everything the store promises over its histories holds for a walk; and no call is made on the
  executor before its attempt row is in the journal.
\<close>

section \<open>Effects on the store\<close>

definition grows :: "pipelines_db \<Rightarrow> pipelines_db \<Rightarrow> bool" where
  "grows db db' \<longleftrightarrow> (\<exists>calls. db' = foldl store_step db calls)"

lemma grows_refl [simp, intro]: "grows db db"
  unfolding grows_def by (rule exI [of _ "[]"]) simp

lemma grows_trans: "grows a b \<Longrightarrow> grows b c \<Longrightarrow> grows a c"
  unfolding grows_def by (metis foldl_append)

lemma grows_step: "grows db (store_step db c)"
  unfolding grows_def by (rule exI [of _ "[c]"]) simp

lemma grows_ok: "grows db db' \<Longrightarrow> db_ok db \<Longrightarrow> db_ok db'"
  unfolding grows_def using ps.inv_run by blast

lemma grows_le: "grows db db' \<Longrightarrow> db_ok db \<Longrightarrow> db_le db db'"
  unfolding grows_def using ps.le_run by blast

lemma store_ops_grow:
  "attempts_record reg db ts inp = Inr (db', r) \<Longrightarrow> grows db db'"
  "attempts_complete reg db ts i res = Inr (db', r) \<Longrightarrow> grows db db'"
  "runs_setStatus db ts i st p = Inr (db', rr) \<Longrightarrow> grows db db'"
  "runs_insert db ts ni = Inr (db', rr) \<Longrightarrow> grows db db'"
  "definitions_upsert db ts nd = Inr (db', dr) \<Longrightarrow> grows db db'"
  using grows_step [of db "(reg, ts, RecordAttempt inp)"] grows_step [of db "(reg, ts, CompleteAttempt i res)"]
    grows_step [of db "(reg, ts, SetRunStatus i st p)"] grows_step [of db "(reg, ts, InsertRun ni)"]
    grows_step [of db "(reg, ts, UpsertDefinition nd)"]
  by (simp_all add: store_step_def store_call_def)

lemma store_frames [simp]:
  "rs_store (emit e s) = rs_store s" "rs_store (publishStep u s) = rs_store s" "rs_store (publishRun a b c d s) = rs_store s"
  "rs_store (recordSkip env io step s) = rs_store s" "rs_store (markStepDone i dd s) = rs_store s" "rs_store (add_cost r s) = rs_store s"
  "rs_store (set_task i t s) = rs_store s" "rs_store (reject er s) = rs_store s" "rs_store (cancel_walk env s) = rs_store s"
  "rs_store (recordLineageAndCost env io step it ac r s) = rs_store s"
  by (simp_all add: emit_def publishStep_def publishRun_def recordSkip_def markStepDone_def add_cost_def set_task_def reject_def
      cancel_walk_def recordLineageAndCost_def Let_def split: option.splits)

definition journaled :: "pipelines_db \<Rightarrow> exec_request \<Rightarrow> bool" where
  "journaled db q \<longleftrightarrow> (\<exists>i r. jm_get (db_attempts db) i = Some r
     \<and> slot_of r = (eq_runId q, eq_stepId q, eq_iteration q, eq_attempt q))"

lemma journaled_le: "journaled db q \<Longrightarrow> db_le db db' \<Longrightarrow> journaled db' q"
  unfolding journaled_def db_le_def by (metis slot_of_identity)

definition journals :: "run_state \<Rightarrow> run_state \<Rightarrow> bool" where
  "journals s s' \<longleftrightarrow> grows (rs_store s) (rs_store s') \<and> (\<forall>q\<in>set (execs s'). q \<in> set (execs s) \<or> journaled (rs_store s') q)"

lemma journals_quiet: "grows (rs_store s) (rs_store s') \<Longrightarrow> execs s' = execs s \<Longrightarrow> journals s s'"
  by (simp add: journals_def)

lemma journals_refl [simp]: "journals s s"
  by (simp add: journals_def)

section \<open>Stretches of code\<close>

lemma attempt_head_journals: "journals s (fst (attempt_head env io s step i l ctx a))"
proof (cases "rs_cancelled s")
  case True
  then show ?thesis unfolding attempt_head_def recordStepAttempt_def
    by simp (rule journalI; simp add: journals_def store_ops_grow)
next
  case False
  have "journaled db (request_of env step i ctx a)"
    if "attempts_record (ro_reg env) (rs_store s) (io_now io)
       (attempt_of env io (step_id step) i a (ax_inputHash ctx) SRunning (Some (ax_account ctx))) = Inr (db, r)" for db r
    using that by (rule record_Inr)
      (auto simp: journaled_def attempt_of_def new_attempt_row_def request_of_def slot_of_def Let_def nonNegInt_def r_bind_Inr of_option_Inr
        as_safe_nat_def num_def jm_get_set split: if_splits)
  then show ?thesis using False unfolding attempt_head_def
    by simp (rule journalI; simp add: journals_def store_ops_grow Let_def)
qed

lemma memo_hit_grows: "grows (rs_store s) (rs_store (fst (applyMemoHit env io s sid i memo (\<lambda>s. (s, x)))))"
  unfolding applyMemoHit_def Let_def
  by (rule with_readI) (simp, rule journalI, simp_all add: store_ops_grow split: option.splits)

lemma begin_attempt_journals: "journals s (fst (begin_attempt env io s step i item l))"
proof (cases "resolveBackend (ro_reg env) step (ro_document env) (resolveAccount step (ro_document env))")
  case (Some b)
  show ?thesis unfolding begin_attempt_def Some Let_def option.case
  proof (rule with_readI, goal_cases)
    case (2 memo)
    show ?case
    proof (cases memo)
      case None
      show ?thesis unfolding None option.case
        by (rule with_readI) (simp add: journals_def, rule attempt_head_journals)
    next
      case (Some row)
      then show ?thesis using journals_quiet [OF memo_hit_grows memo_hit_calls] by simp
    qed
  qed (simp add: journals_def)
qed (simp add: begin_attempt_def journals_def)

lemma after_failure_store: "rs_store (fst (after_failure step l ctx a r s)) = rs_store s"
  by (simp add: after_failure_def split: option.splits)

lemma after_answer_grows: "grows (rs_store s) (rs_store (fst (after_answer env io s step i l ctx a row b ans)))"
  unfolding after_answer_def Let_def
  by (rule with_storeI) (auto simp: after_failure_store store_ops_grow split: option.split)

lemma after_answer_journals: "journals s (fst (after_answer env io s step i l ctx a row b ans))"
  by (rule journals_quiet [OF after_answer_grows after_answer_calls])

lemma journals_reap: "journals s (emit (ReapStep k) s)"
  by (simp add: journals_def)

lemma slot_step_journals:
  assumes "slot_step env io s step i item pc ev = Some x"
  shows "journals s (fst x)"
  using assms
proof (cases "(env, io, s, step, i, item, pc, ev)" rule: slot_step.cases)
  case (1 env io s step i item l ok)
  then show ?thesis using assms begin_attempt_journals by (auto split: if_splits)
next
  case (2 env io s step i item l ctx a)
  then show ?thesis using assms attempt_head_journals by auto
qed (use assms in \<open>auto simp: after_answer_journals journals_reap split: if_splits\<close>)

lemma settle_gate_grows: "grows db (rs_store s) \<Longrightarrow> grows db (rs_store (fst (settle_gate env io s step row d)))"
  unfolding settle_gate_def Let_def by (rule with_storeI) (auto intro: grows_trans store_ops_grow)

lemma runGate_grows: "grows (rs_store s) (rs_store (fst (runGate env io s step)))"
  unfolding runGate_def Let_def
proof (rule journalI, goal_cases)
  case (2 db row)
  have "grows (rs_store s) db" using store_ops_grow(1) [OF 2] by simp
  then show ?case by (simp add: settle_gate_grows)
qed simp

lemma runStep_grows: "grows (rs_store s) (rs_store (fst (runStep env io s step)))"
proof -
  have "grows (rs_store s) (rs_store (fst (runGate env io (s\<lparr>rs_remaining := rem\<rparr>) step)))" for rem
    using runGate_grows [of "s\<lparr>rs_remaining := rem\<rparr>"] by simp
  then show ?thesis by (simp add: runStep_def Let_def split: option.split)
qed

lemma task_step_grows: "task_step env io s step t = Some x \<Longrightarrow> grows (rs_store s) (rs_store (fst x))"
  by (cases t) (auto simp: task_step_def runStep_grows split: slot_pc.splits if_splits)

lemma fan_step_journals:
  assumes "fan_step env io s step items nxt results ws w ev = Some x"
  shows "journals s (fst x)"
proof -
  have w: "w < length ws" using assms by (auto simp: fan_step_def split: if_splits)
  show ?thesis
  proof (cases "ws ! w")
    case WIdle
    then show ?thesis using assms w by (auto simp: fan_step_def split: if_splits)
  next
    case (WBusy i pc)
    show ?thesis
    proof (cases "\<exists>ok. pc = SReturn ok")
      case True
      then show ?thesis using assms WBusy w by (auto simp: fan_step_def split: if_splits)
    next
      case False
      then have x: "map_option (\<lambda>(s, x). case x of
            Inl e \<Rightarrow> (reject e s, Inr (TFan items nxt results (ws[w := WThrew])))
          | Inr pc' \<Rightarrow> (s, Inr (TFan items nxt results (ws[w := WBusy i pc']))))
          (slot_step env io s step i (Some (items ! i)) pc ev) = Some x"
        using assms WBusy w by (cases pc) (auto simp: fan_step_def)
      then obtain y where y: "slot_step env io s step i (Some (items ! i)) pc ev = Some y" by auto
      have "execs (fst x) = execs (fst y)" "rs_store (fst x) = rs_store (fst y)" using x y by (auto split: sum.splits prod.splits)
      then show ?thesis using slot_step_journals [OF y] by (simp add: journals_def)
    qed
  qed (use assms w in \<open>auto simp: fan_step_def\<close>)
qed

lemma task_slot_journals:
  assumes "task_slot env io s step t w ev = Some x"
  shows "journals s (fst x)"
proof (cases t)
  case (TScalar pc)
  then obtain y where y: "slot_step env io s step 0 None pc ev = Some y" "fst x = fst y"
    using assms by (auto simp: task_slot_def split: if_splits)
  then show ?thesis using slot_step_journals [OF y(1)] by simp
next
  case (TFan items nxt results ws)
  then show ?thesis using assms fan_step_journals by (simp add: task_slot_def)
qed (use assms in \<open>simp_all add: task_slot_def\<close>)

lemma journals_put: "journals s (put_task sid (s1, x)) = journals s s1"
  by (simp add: journals_def put_task_fields put_task_execs)

lemma generation_grows: "grows (rs_store s) (rs_store (generation env io s))"
proof -
  have "grows (rs_store s) (rs_store (settle_run env io s))"
    by (auto simp: settle_run_def Let_def store_ops_grow split: sum.split)
  then show ?thesis by (simp add: generation_def Let_def)
qed

lemma walk_step_journals:
  assumes "walk_step env s e = Some s'"
  shows "journals s s'"
proof -
  obtain io ev where e: "e = (io, ev)" by (cases e)
  show ?thesis
  proof (cases ev)
    case EGeneration
    then have "s' = generation env io s" using assms e by (simp add: walk_step_def split: if_splits)
    then show ?thesis by (simp add: journals_quiet generation_execs generation_grows)
  next
    case (EStep sid)
    then have "with_task env s sid (task_step env io s) = Some s'" using assms e by (simp add: walk_step_def)
    then show ?thesis
    proof (rule with_task_cases)
      fix step t s1 x assume a: "task_step env io s step t = Some (s1, x)" "s' = put_task sid (s1, x)"
      show ?thesis using journals_quiet task_step_grows [OF a(1)] task_step_execs [OF a(1)] a(2) by (simp add: journals_put)
    qed
  next
    case (ESlot sid w sev)
    then have "with_task env s sid (\<lambda>step t. task_slot env io s step t w sev) = Some s'" using assms e by (simp add: walk_step_def)
    then show ?thesis
    proof (rule with_task_cases)
      fix step t s1 x assume a: "task_slot env io s step t w sev = Some (s1, x)" "s' = put_task sid (s1, x)"
      show ?thesis using task_slot_journals [OF a(1)] a(2) by (simp add: journals_put)
    qed
  next
    case (EGate sid g)
    then have "with_task env s sid (\<lambda>step t. task_gate env io s step t g) = Some s'" using assms e by (simp add: walk_step_def)
    then show ?thesis
    proof (rule with_task_cases)
      fix step t s1 x assume a: "task_gate env io s step t g = Some (s1, x)" "s' = put_task sid (s1, x)"
      obtain row where "settle_gate env io s step row (gate_disposition step g) = (s1, x)"
        using a(1) by (cases t) (auto simp: task_gate_def)
      then have "execs s1 = execs s" "grows (rs_store s) (rs_store s1)"
        using settle_gate_execs [of env io s step row "gate_disposition step g"]
          settle_gate_grows [OF grows_refl, of s env io step row "gate_disposition step g"] by simp_all
      then show ?thesis using a(2) by (simp add: journals_put journals_quiet)
    qed
  qed (use assms e in \<open>auto simp: walk_step_def journals_def cancel_execs split: if_splits\<close>)
qed

lemma walk_init_grows: "grows db (rs_store (walk_init env db now))" "execs (walk_init env db now) = []"
  by (auto simp: walk_init_def Let_def store_ops_grow split: sum.split) (simp add: execs_def List.map_filter_simps)+

end
