(* ===== verification/Dag_Roundtrip.thy ===== *)
theory Dag_Roundtrip
  imports Dag_Document
begin

text \<open>
  The JSON form of a sanitized document (\<open>JSON.stringify\<close> of what \<open>validateDagDocument\<close> returns: an
  absent optional field is an absent key). A well-formed document validates to itself, so a saved
  definition that is parsed and validated again is the document that was saved.
\<close>

section \<open>Serialisation\<close>

definition opt_kv :: "string \<Rightarrow> ('a \<Rightarrow> json) \<Rightarrow> 'a option \<Rightarrow> (string \<times> json) list" where
  "opt_kv k f x = (case x of None \<Rightarrow> [] | Some v \<Rightarrow> [(k, f v)])"

definition budget_json :: "step_budget \<Rightarrow> json" where
  "budget_json b = JObj (opt_kv ''usd'' (\<lambda>q. JNum (Fin q)) (sb_usd b) @ opt_kv ''turns'' (\<lambda>n. JNum (num n)) (sb_turns b)
     @ opt_kv ''wallClockSec'' (\<lambda>n. JNum (num n)) (sb_wallClockSec b))"

definition retry_json :: "retry_policy \<Rightarrow> json" where
  "retry_json r = JObj ((''max'', JNum (num (rp_max r))) # opt_kv ''backoffSec'' (\<lambda>q. JNum (Fin q)) (rp_backoffSec r)
     @ opt_kv ''retryOn'' (\<lambda>cs. JArr (map JStr cs)) (rp_retryOn r))"

definition ref_json :: "capability_ref \<Rightarrow> json" where
  "ref_json r = JObj ((''name'', JStr (cr_name r)) # opt_kv ''scope'' JStr (cr_scope r) @ opt_kv ''args'' JStr (cr_args r))"

definition loop_json :: "loop_control \<Rightarrow> json" where
  "loop_json l = JObj [(''until'', JStr (lc_until l)), (''maxIterations'', JNum (num (lc_maxIterations l)))]"

definition control_kvs :: "step_control \<Rightarrow> (string \<times> json) list" where
  "control_kvs c = opt_kv ''needs'' (\<lambda>ns. JArr (map JStr ns)) (sc_needs c) @ opt_kv ''when'' JStr (sc_when c)
     @ opt_kv ''forEach'' JStr (sc_forEach c) @ opt_kv ''maxParallel'' (\<lambda>n. JNum (num n)) (sc_maxParallel c)
     @ opt_kv ''loop'' loop_json (sc_loop c)"

definition exec_kvs :: "exec_common \<Rightarrow> (string \<times> json) list" where
  "exec_kvs e = opt_kv ''account'' JStr (ec_account e) @ opt_kv ''backend'' JStr (ec_backend e)
     @ opt_kv ''cwd'' JStr (ec_cwd e) @ opt_kv ''permissionMode'' JStr (ec_permissionMode e)
     @ opt_kv ''budget'' budget_json (ec_budget e) @ opt_kv ''retry'' retry_json (ec_retry e)
     @ opt_kv ''outputSchema'' (\<lambda>v. v) (ec_outputSchema e) @ opt_kv ''onError'' JStr (ec_onError e)"

fun body_kvs :: "pipeline_step \<Rightarrow> (string \<times> json) list" where
  "body_kvs (PromptStep _ _ e p) = exec_kvs e @ [(''prompt'', JStr p)]"
| "body_kvs (SkillStep _ _ e r p) = exec_kvs e @ (''skill'', ref_json r) # opt_kv ''prompt'' JStr p"
| "body_kvs (AgentStep _ _ e r p) = exec_kvs e @ [(''agent'', ref_json r), (''prompt'', JStr p)]"
| "body_kvs (WorkflowScriptStep _ _ e s) = exec_kvs e @ [(''scriptPath'', JStr s)]"
| "body_kvs (ApprovalStep _ _ s t o') = opt_kv ''summary'' JStr s @ opt_kv ''timeoutSec'' (\<lambda>n. JNum (num n)) t
     @ opt_kv ''onTimeout'' JStr o'"

fun kind_name :: "pipeline_step \<Rightarrow> string" where
  "kind_name (PromptStep _ _ _ _) = ''prompt''"
| "kind_name (SkillStep _ _ _ _ _) = ''skill''"
| "kind_name (AgentStep _ _ _ _ _) = ''agent''"
| "kind_name (WorkflowScriptStep _ _ _ _) = ''workflow-script''"
| "kind_name (ApprovalStep _ _ _ _ _) = ''approval''"

definition step_json :: "pipeline_step \<Rightarrow> json" where
  "step_json s = JObj ((''kind'', JStr (kind_name s)) # (''id'', JStr (step_id s)) # control_kvs (step_ctl s) @ body_kvs s)"

definition defaults_json :: "dag_defaults \<Rightarrow> json" where
  "defaults_json d = JObj (opt_kv ''account'' JStr (dd_account d) @ opt_kv ''backend'' JStr (dd_backend d)
     @ opt_kv ''permissionMode'' JStr (dd_permissionMode d) @ opt_kv ''cwd'' JStr (dd_cwd d))"

definition document_json :: "dag_document \<Rightarrow> json" where
  "document_json d = JObj ((''schemaVersion'', JNum (num DAG_SCHEMA_VERSION)) # (''id'', JStr (dg_id d))
     # (''name'', JStr (dg_name d)) # opt_kv ''description'' JStr (dg_description d)
     @ opt_kv ''defaults'' defaults_json (dg_defaults d) @ opt_kv ''inputs'' JObj (dg_inputs d)
     @ [(''steps'', JArr (map step_json (dg_steps d)))])"

section \<open>Reading back\<close>

declare map_of_append [simp del]

lemma map_of_opt_kv: "map_of (opt_kv k f x @ m) k' = (if k' = k \<and> x \<noteq> None then map_option f x else map_of m k')"
  by (cases x) (auto simp: opt_kv_def)

lemma map_of_opt_kv_last: "map_of (opt_kv k f x) k' = (if k' = k then map_option f x else None)"
  by (cases x) (auto simp: opt_kv_def)

lemma prim_values [simp]:
  "s \<noteq> [] \<Longrightarrow> non_empty_str (JStr s) = Some s"
  "0 < n \<Longrightarrow> n \<le> max_safe_nat \<Longrightarrow> positive_int (JNum (num n)) = Some n"
  "n \<le> max_safe_nat \<Longrightarrow> non_negative_int (JNum (num n)) = Some n"
  "0 < q \<Longrightarrow> positive_finite (JNum (Fin q)) = Some q"
  "0 \<le> q \<Longrightarrow> non_negative_finite (JNum (Fin q)) = Some q"
  "P s \<Longrightarrow> str_in err P (JStr s) = Inr s"
  "P s \<Longrightarrow> str_when P (JStr s) = Some s"
  "list_all P ss \<Longrightarrow> str_elems P (JArr (map JStr ss)) = Some ss"
  "k \<le> m \<Longrightarrow> up_to m k = Some k"
  by (simp_all add: non_empty_str_Some positive_int_Some non_negative_int_Some positive_finite_Some
      non_negative_finite_Some str_in_Inr str_when_Some str_elems_Some up_to_Some)

lemma safe_100: "n \<le> 100 \<Longrightarrow> n \<le> max_safe_nat"
  by (simp add: max_safe_nat_def)

lemmas kv_simps = map_of_opt_kv map_of_opt_kv_last isRecord_def opt_field_def

text \<open>The value of a field that validates back to itself.\<close>

lemma opt_field_back: "(\<And>v. x = Some v \<Longrightarrow> g (f v) = Inr v) \<Longrightarrow> opt_field (map_option f x) g = Inr x"
  by (cases x) simp_all

lemma budget_back: "ok_budget b \<Longrightarrow> validateBudget p (budget_json b) = Inr b"
proof -
  assume ok: "ok_budget b"
  have f: "obj_get (budget_json b) ''usd'' = map_option (\<lambda>q. JNum (Fin q)) (sb_usd b)"
    "obj_get (budget_json b) ''turns'' = map_option (\<lambda>n. JNum (num n)) (sb_turns b)"
    "obj_get (budget_json b) ''wallClockSec'' = map_option (\<lambda>n. JNum (num n)) (sb_wallClockSec b)"
    "isRecord (budget_json b)"
    by (simp_all add: budget_json_def kv_simps)
  have "opt_field (map_option (\<lambda>q. JNum (Fin q)) (sb_usd b))
      (\<lambda>v. of_option (dag_fail BadShape (p @ ''.usd'')) (positive_finite v)) = Inr (sb_usd b)"
    "opt_field (map_option (\<lambda>n. JNum (num n)) (sb_turns b))
      (\<lambda>v. of_option (dag_fail BadShape (p @ ''.turns'')) (positive_int v)) = Inr (sb_turns b)"
    "opt_field (map_option (\<lambda>n. JNum (num n)) (sb_wallClockSec b))
      (\<lambda>v. of_option (dag_fail BadShape (p @ ''.wallClockSec'')) (positive_int v)) = Inr (sb_wallClockSec b)"
    using ok by (auto intro!: opt_field_back simp: ok_budget_def)
  then show ?thesis using ok by (simp add: validateBudget_def f ok_budget_def)
qed

lemma retry_back: "ok_retry r \<Longrightarrow> validateRetry p (retry_json r) = Inr r"
proof -
  assume ok: "ok_retry r"
  have f: "obj_get (retry_json r) ''max'' = Some (JNum (num (rp_max r)))"
    "obj_get (retry_json r) ''backoffSec'' = map_option (\<lambda>q. JNum (Fin q)) (rp_backoffSec r)"
    "obj_get (retry_json r) ''retryOn'' = map_option (\<lambda>cs. JArr (map JStr cs)) (rp_retryOn r)"
    "isRecord (retry_json r)"
    by (simp_all add: retry_json_def kv_simps)
  have "rp_max r \<le> max_safe_nat" using ok by (intro safe_100) (simp add: ok_retry_def)
  moreover have "opt_field (map_option (\<lambda>q. JNum (Fin q)) (rp_backoffSec r))
      (\<lambda>v. of_option (dag_fail BadShape (p @ ''.backoffSec'')) (non_negative_finite v)) = Inr (rp_backoffSec r)"
    "opt_field (map_option (\<lambda>cs. JArr (map JStr cs)) (rp_retryOn r))
      (\<lambda>v. of_option (dag_fail BadShape (p @ ''.retryOn'')) (retry_classes v)) = Inr (rp_retryOn r)"
    using ok by (auto intro!: opt_field_back simp: ok_retry_def retry_classes_def)
  ultimately show ?thesis using ok by (simp add: validateRetry_def f ok_retry_def)
qed

lemma screen_back: "clean_name s \<Longrightarrow> screenNaming p s = Inr ()"
  by (simp add: screenNaming_def clean_name_def)

lemma clean_nonempty: "clean_name s \<Longrightarrow> s \<noteq> []"
  by (simp add: clean_name_def)

lemma ref_back: "ok_ref r \<Longrightarrow> validateCapabilityRef p (Some (ref_json r)) = Inr r"
proof -
  assume ok: "ok_ref r"
  have f: "obj_get (ref_json r) ''name'' = Some (JStr (cr_name r))"
    "obj_get (ref_json r) ''scope'' = map_option JStr (cr_scope r)"
    "obj_get (ref_json r) ''args'' = map_option JStr (cr_args r)"
    "isRecord (ref_json r)"
    by (simp_all add: ref_json_def kv_simps)
  have "opt_field (map_option JStr (cr_scope r)) (str_in (dag_fail BadShape (p @ ''.scope'')) isCapabilityScope) = Inr (cr_scope r)"
    "opt_field (map_option JStr (cr_args r)) (\<lambda>v. of_option (dag_fail BadShape (p @ ''.args'')) (as_str v)) = Inr (cr_args r)"
    using ok by (auto intro!: opt_field_back simp: ok_ref_def)
  moreover have "cr_name r \<noteq> []" "screenNaming (p @ ''.name'') (cr_name r) = Inr ()"
    using ok screen_back by (auto simp: ok_ref_def clean_name_def)
  ultimately show ?thesis by (simp add: validateCapabilityRef_def f)
qed

lemma loop_back:
  "lc_until l \<noteq> [] \<Longrightarrow> 1 \<le> lc_maxIterations l \<Longrightarrow> lc_maxIterations l \<le> 100 \<Longrightarrow> validateLoop p (loop_json l) = Inr l"
  by (simp add: validateLoop_def loop_json_def isRecord_def safe_100)

lemma routing_back:
  assumes "ok_routing reg acc be"
  shows "checkAccountBackend reg p (map_option JStr acc) (map_option JStr be) = Inr (acc, be)"
proof -
  have "opt_field (map_option JStr acc) (str_in (dag_fail InvalidAccount p) (isAccountLabel reg)) = Inr acc"
    "opt_field (map_option JStr be) (str_in (dag_fail BadShape p) isStepBackend) = Inr be"
    using assms by (auto intro!: opt_field_back simp: ok_routing_def)
  moreover have "(case (acc, be) of (Some a, Some b) \<Rightarrow> b \<in> set (accountStepBackendsFor a) | _ \<Rightarrow> True)"
    using assms by (auto simp: ok_routing_def split: option.splits)
  ultimately show ?thesis by (simp add: checkAccountBackend_def)
qed

lemma control_back:
  assumes "ok_control (set ids) c"
    and f: "obj_get raw ''needs'' = map_option (\<lambda>ns. JArr (map JStr ns)) (sc_needs c)"
    "obj_get raw ''when'' = map_option JStr (sc_when c)" "obj_get raw ''forEach'' = map_option JStr (sc_forEach c)"
    "obj_get raw ''maxParallel'' = map_option (\<lambda>n. JNum (num n)) (sc_maxParallel c)"
    "obj_get raw ''loop'' = map_option loop_json (sc_loop c)"
  shows "validateStepCommonControl p ids raw = Inr c"
proof -
  have "opt_field (map_option (\<lambda>ns. JArr (map JStr ns)) (sc_needs c)) (\<lambda>v.
       r_bind (of_option (dag_fail BadShape (p @ ''.needs'')) (str_elems (\<lambda>s. s \<noteq> []) v)) (\<lambda>ns.
       r_bind (guard (list_all (\<lambda>n. n \<in> set ids) ns) (dag_fail DanglingNeeds (p @ ''.needs''))) (\<lambda>_. Inr ns)))
     = Inr (sc_needs c)"
  proof (rule opt_field_back)
    fix ns assume "sc_needs c = Some ns"
    then have "list_all (\<lambda>n. n \<in> set ids) ns" "list_all (\<lambda>s. s \<noteq> []) ns"
      using assms(1) by (auto simp: ok_control_def list_all_iff)
    then show "r_bind (of_option (dag_fail BadShape (p @ ''.needs'')) (str_elems (\<lambda>s. s \<noteq> []) (JArr (map JStr ns)))) (\<lambda>ns.
       r_bind (guard (list_all (\<lambda>n. n \<in> set ids) ns) (dag_fail DanglingNeeds (p @ ''.needs''))) (\<lambda>_. Inr ns)) = Inr ns"
      by simp
  qed
  moreover have "opt_field (map_option JStr (sc_when c)) (\<lambda>v. of_option (dag_fail BadShape (p @ ''.when'')) (non_empty_str v)) = Inr (sc_when c)"
    "opt_field (map_option JStr (sc_forEach c)) (\<lambda>v. of_option (dag_fail BadShape (p @ ''.forEach'')) (non_empty_str v)) = Inr (sc_forEach c)"
    "opt_field (map_option loop_json (sc_loop c)) (validateLoop (p @ ''.loop'')) = Inr (sc_loop c)"
    "opt_field (map_option (\<lambda>n. JNum (num n)) (sc_maxParallel c)) (\<lambda>v. of_option (dag_fail BadShape (p @ ''.maxParallel''))
              (Option.bind (positive_int v) (up_to 16))) = Inr (sc_maxParallel c)"
    using assms(1) by (auto intro!: opt_field_back loop_back simp: ok_control_def safe_100 Suc_le_eq)
  moreover have "\<not> (sc_forEach c \<noteq> None \<and> sc_loop c \<noteq> None)" "sc_forEach c = None \<Longrightarrow> sc_maxParallel c = None"
    using assms(1) by (auto simp: ok_control_def)
  ultimately show ?thesis
    unfolding validateStepCommonControl_def f by (cases "sc_forEach c") simp_all
qed

lemma exec_back:
  assumes "ok_exec reg (set ids) e"
    and f: "obj_get raw ''account'' = map_option JStr (ec_account e)" "obj_get raw ''backend'' = map_option JStr (ec_backend e)"
    "obj_get raw ''cwd'' = map_option JStr (ec_cwd e)" "obj_get raw ''permissionMode'' = map_option JStr (ec_permissionMode e)"
    "obj_get raw ''budget'' = map_option budget_json (ec_budget e)" "obj_get raw ''retry'' = map_option retry_json (ec_retry e)"
    "obj_get raw ''outputSchema'' = map_option (\<lambda>v. v) (ec_outputSchema e)" "obj_get raw ''onError'' = map_option JStr (ec_onError e)"
  shows "validateExecutableCommon reg p ids raw = Inr e"
proof -
  have "checkAccountBackend reg p (map_option JStr (ec_account e)) (map_option JStr (ec_backend e)) = Inr (ec_account e, ec_backend e)"
    using assms(1) by (intro routing_back) (simp add: ok_exec_def)
  moreover have "opt_field (map_option JStr (ec_cwd e)) (\<lambda>v.
       r_bind (of_option (dag_fail BadShape (p @ ''.cwd'')) (non_empty_str v)) (\<lambda>s.
       r_bind (guard (sublist ''${'' s \<or> hd s = CHR ''/'') (dag_fail BadShape (p @ ''.cwd''))) (\<lambda>_. Inr s))) = Inr (ec_cwd e)"
    using assms(1) by (intro opt_field_back) (auto simp: ok_exec_def)
  moreover have "opt_field (map_option JStr (ec_permissionMode e)) (str_in (dag_fail BadShape (p @ ''.permissionMode'')) isPermissionMode)
       = Inr (ec_permissionMode e)"
    using assms(1) by (intro opt_field_back) (simp add: ok_exec_def)
  moreover have "opt_field (map_option budget_json (ec_budget e)) (validateBudget (p @ ''.budget'')) = Inr (ec_budget e)"
    using assms(1) by (intro opt_field_back budget_back) (simp add: ok_exec_def)
  moreover have "opt_field (map_option retry_json (ec_retry e)) (validateRetry (p @ ''.retry'')) = Inr (ec_retry e)"
    using assms(1) by (intro opt_field_back retry_back) (simp add: ok_exec_def)
  moreover have "opt_field (map_option (\<lambda>v. v) (ec_outputSchema e)) (\<lambda>v.
       if has_type v then Inr v else Inl (dag_fail BadShape (p @ ''.outputSchema''))) = Inr (ec_outputSchema e)"
    using assms(1) by (intro opt_field_back) (simp add: ok_exec_def)
  moreover have "opt_field (map_option JStr (ec_onError e)) (\<lambda>v. validateOnError (p @ ''.onError'') v ids) = Inr (ec_onError e)"
    using assms(1) by (intro opt_field_back) (auto simp: ok_exec_def ok_onError_def validateOnError_def)
  ultimately show ?thesis unfolding validateExecutableCommon_def f by simp
qed

lemma step_fields:
  "obj_get (step_json s) ''kind'' = Some (JStr (kind_name s))" "obj_get (step_json s) ''id'' = Some (JStr (step_id s))"
  "obj_get (step_json s) ''needs'' = map_option (\<lambda>ns. JArr (map JStr ns)) (sc_needs (step_ctl s))"
  "obj_get (step_json s) ''when'' = map_option JStr (sc_when (step_ctl s))"
  "obj_get (step_json s) ''forEach'' = map_option JStr (sc_forEach (step_ctl s))"
  "obj_get (step_json s) ''maxParallel'' = map_option (\<lambda>n. JNum (num n)) (sc_maxParallel (step_ctl s))"
  "obj_get (step_json s) ''loop'' = map_option loop_json (sc_loop (step_ctl s))"
  by (cases s; simp add: step_json_def control_kvs_def exec_kvs_def kv_simps)+

lemma step_exec_fields:
  assumes "step_exec s = Some e"
  shows "obj_get (step_json s) ''account'' = map_option JStr (ec_account e)"
    "obj_get (step_json s) ''backend'' = map_option JStr (ec_backend e)"
    "obj_get (step_json s) ''cwd'' = map_option JStr (ec_cwd e)"
    "obj_get (step_json s) ''permissionMode'' = map_option JStr (ec_permissionMode e)"
    "obj_get (step_json s) ''budget'' = map_option budget_json (ec_budget e)"
    "obj_get (step_json s) ''retry'' = map_option retry_json (ec_retry e)"
    "obj_get (step_json s) ''outputSchema'' = map_option (\<lambda>v. v) (ec_outputSchema e)"
    "obj_get (step_json s) ''onError'' = map_option JStr (ec_onError e)"
  using assms by (cases s; simp add: step_json_def control_kvs_def exec_kvs_def kv_simps)+

lemma step_body_fields:
  "obj_get (step_json (PromptStep i c e p)) ''prompt'' = Some (JStr p)"
  "obj_get (step_json (SkillStep i c e r q)) ''skill'' = Some (ref_json r)"
  "obj_get (step_json (SkillStep i c e r q)) ''prompt'' = map_option JStr q"
  "obj_get (step_json (AgentStep i c e r p)) ''agent'' = Some (ref_json r)"
  "obj_get (step_json (AgentStep i c e r p)) ''prompt'' = Some (JStr p)"
  "obj_get (step_json (WorkflowScriptStep i c e p)) ''scriptPath'' = Some (JStr p)"
  "obj_get (step_json (ApprovalStep i c sm tm ot)) ''summary'' = map_option JStr sm"
  "obj_get (step_json (ApprovalStep i c sm tm ot)) ''timeoutSec'' = map_option (\<lambda>n. JNum (num n)) tm"
  "obj_get (step_json (ApprovalStep i c sm tm ot)) ''onTimeout'' = map_option JStr ot"
  by (simp_all add: step_json_def control_kvs_def exec_kvs_def kv_simps)

lemma approval_back:
  assumes "ok_body (ApprovalStep i c sm tm ot)"
  shows "validateApproval p i c (step_json (ApprovalStep i c sm tm ot)) = Inr (ApprovalStep i c sm tm ot)"
proof -
  have "opt_field (map_option JStr sm) (\<lambda>v.
       r_bind (of_option (dag_fail BadShape (p @ ''.summary'')) (non_empty_str v)) (\<lambda>s.
       r_bind (screenNaming (p @ ''.summary'') s) (\<lambda>_. Inr s))) = Inr sm"
    using assms by (intro opt_field_back) (simp add: screen_back clean_nonempty)
  moreover have "opt_field (map_option (\<lambda>n. JNum (num n)) tm) (\<lambda>v. of_option (dag_fail BadShape (p @ ''.timeoutSec'')) (positive_int v)) = Inr tm"
    using assms by (intro opt_field_back) simp
  moreover have "opt_field (map_option JStr ot) (str_in (dag_fail BadShape (p @ ''.onTimeout'')) (\<lambda>s. s = ''fail'' \<or> s = ''continue'')) = Inr ot"
    using assms by (intro opt_field_back) (auto simp: ON_ERROR_POLICIES_def)
  ultimately show ?thesis by (simp add: validateApproval_def step_body_fields)
qed

lemma prompt_back: "clean_name q \<Longrightarrow> obj_get raw ''prompt'' = Some (JStr q) \<Longrightarrow> required_prompt p raw = Inr q"
  by (simp add: required_prompt_def screen_back clean_nonempty)

lemma executable_back:
  assumes "step_exec s = Some e" "ok_body s"
  shows "validateExecutable p (kind_name s) (step_id s) (step_ctl s) e (step_json s) = Inr s"
proof (cases s)
  case (SkillStep i c e' r q)
  have "opt_field (map_option JStr q) (\<lambda>v. of_option (dag_fail BadShape (p @ ''.prompt'')) (non_empty_str v)) = Inr q"
    using assms SkillStep by (intro opt_field_back) auto
  then show ?thesis using assms SkillStep by (simp add: validateExecutable_def step_body_fields ref_back)
qed (use assms in \<open>simp_all add: validateExecutable_def step_body_fields ref_back prompt_back [OF _ step_body_fields(1)] prompt_back [OF _ step_body_fields(5)]\<close>)

lemma step_back:
  assumes "ok_step reg (set ids) s"
  shows "validateStep reg p ids (step_json s) = Inr s"
proof -
  have c: "validateStepCommonControl p ids (step_json s) = Inr (step_ctl s)"
    using assms by (intro control_back step_fields) (simp add: ok_step_def)
  have r: "isRecord (step_json s)" by (simp add: step_json_def isRecord_def)
  have k: "isStepKind (kind_name s)" by (cases s) (simp_all add: isStepKind_def STEP_KINDS_def)
  have i: "STEP_ID_RE (step_id s)" using assms by (simp add: ok_step_def)
  show ?thesis
  proof (cases "step_exec s")
    case None
    then obtain i' c' sm tm ot where s: "s = ApprovalStep i' c' sm tm ot" by (cases s) auto
    then show ?thesis using assms c r k i approval_back [of i' c' sm tm ot p]
      by (simp add: validateStep_def step_fields ok_step_def)
  next
    case (Some e)
    have "validateExecutableCommon reg p ids (step_json s) = Inr e"
      using assms Some by (intro exec_back step_exec_fields [OF Some]) (simp add: ok_step_def)
    moreover have "kind_name s \<noteq> ''approval''" using Some by (cases s) simp_all
    ultimately show ?thesis using assms c r k i executable_back [OF Some, of p]
      by (simp add: validateStep_def step_fields ok_step_def)
  qed
qed

lemma step_pass_back:
  "list_all (ok_step reg (set ids)) ss \<Longrightarrow> step_pass reg ids (map step_json ss) n = Inr ss"
  by (induction ss arbitrary: n) (simp_all add: step_back)

lemma id_pass_back:
  "distinct (seen @ map step_id ss) \<Longrightarrow> list_all (\<lambda>s. STEP_ID_RE (step_id s)) ss \<Longrightarrow>
   id_pass (map step_json ss) n seen = Inr (seen @ map step_id ss)"
proof (induction ss arbitrary: n seen)
  case (Cons s ss)
  have r: "isRecord (step_json s)" by (simp add: step_json_def isRecord_def)
  show ?case using Cons.prems r Cons.IH [of "seen @ [step_id s]" "n + 1"]
    by (simp add: step_fields js_set_add_def)
qed simp

lemma defaults_back: "ok_defaults reg d \<Longrightarrow> validateDefaults reg (defaults_json d) = Inr d"
proof -
  assume ok: "ok_defaults reg d"
  have f: "obj_get (defaults_json d) ''account'' = map_option JStr (dd_account d)"
    "obj_get (defaults_json d) ''backend'' = map_option JStr (dd_backend d)"
    "obj_get (defaults_json d) ''permissionMode'' = map_option JStr (dd_permissionMode d)"
    "obj_get (defaults_json d) ''cwd'' = map_option JStr (dd_cwd d)" "isRecord (defaults_json d)"
    by (simp_all add: defaults_json_def kv_simps)
  have "opt_field (map_option JStr (dd_permissionMode d)) (str_in (dag_fail BadShape ''defaults.permissionMode'') isPermissionMode)
      = Inr (dd_permissionMode d)"
    "opt_field (map_option JStr (dd_cwd d)) (\<lambda>v. of_option (dag_fail BadShape ''defaults.cwd'') (non_empty_str v)) = Inr (dd_cwd d)"
    using ok by (auto intro!: opt_field_back simp: ok_defaults_def)
  moreover have "checkAccountBackend reg ''defaults'' (map_option JStr (dd_account d)) (map_option JStr (dd_backend d))
      = Inr (dd_account d, dd_backend d)"
    using ok by (intro routing_back) (simp add: ok_defaults_def)
  ultimately show ?thesis by (simp add: validateDefaults_def f)
qed

lemma inputs_back: "list_all ok_input kvs \<Longrightarrow> validate_inputs kvs = Inr kvs"
  by (induction kvs) (auto simp: ok_input_def)

text \<open>A document of the right shape is read back pass by pass; only the cycle check can still refuse it.\<close>

lemma shape_back:
  assumes ok: "ok_shape reg d"
  shows "validateDagDocument reg (document_json d) =
    (if acyclic (needs_rel (dg_steps d)) then Inr d else Inl (dag_fail Cycle ''steps''))"
proof -
  let ?v = "document_json d"
  have f: "obj_get ?v ''schemaVersion'' = Some (JNum (num DAG_SCHEMA_VERSION))" "obj_get ?v ''id'' = Some (JStr (dg_id d))"
    "obj_get ?v ''name'' = Some (JStr (dg_name d))" "obj_get ?v ''description'' = map_option JStr (dg_description d)"
    "obj_get ?v ''defaults'' = map_option defaults_json (dg_defaults d)" "obj_get ?v ''inputs'' = map_option JObj (dg_inputs d)"
    "obj_get ?v ''steps'' = Some (JArr (map step_json (dg_steps d)))" "isRecord ?v"
    by (simp_all add: document_json_def kv_simps)
  have name: "dg_name d \<noteq> []" "screenNaming ''name'' (dg_name d) = Inr ()"
    using ok by (simp_all add: ok_shape_def clean_nonempty screen_back)
  have desc: "opt_field (map_option JStr (dg_description d)) validate_description = Inr (dg_description d)"
    using ok by (intro opt_field_back) (simp add: ok_shape_def validate_description_def screen_back)
  have desc2: "(case dg_description d of Some x \<Rightarrow> if x \<noteq> [] then Some x else None | None \<Rightarrow> None) = dg_description d"
    using ok by (cases "dg_description d") (simp_all add: ok_shape_def clean_nonempty)
  have dflt: "opt_field (map_option defaults_json (dg_defaults d)) (validateDefaults reg) = Inr (dg_defaults d)"
    using ok by (intro opt_field_back defaults_back) (simp add: ok_shape_def)
  have inp: "opt_field (map_option JObj (dg_inputs d)) validateInputs = Inr (dg_inputs d)"
    using ok by (intro opt_field_back) (simp add: ok_shape_def validateInputs_def inputs_back)
  have ids: "id_pass (map step_json (dg_steps d)) 0 [] = Inr (map step_id (dg_steps d))"
    using ok id_pass_back [of "[]" "dg_steps d" 0] by (simp add: ok_shape_def list_all_iff ok_step_def)
  have steps: "step_pass reg (map step_id (dg_steps d)) (map step_json (dg_steps d)) 0 = Inr (dg_steps d)"
    using ok by (intro step_pass_back) (simp add: ok_shape_def)
  have "closed_graph (dg_steps d)" using ok ok_steps_closed by (auto simp: ok_shape_def)
  then have cyc: "findCycle (dg_steps d) = None \<longleftrightarrow> acyclic (needs_rel (dg_steps d))" by (rule findCycle_None_iff)
  have id': "DAG_ID_RE (dg_id d)" "dg_steps d \<noteq> []" using ok by (simp_all add: ok_shape_def)
  show ?thesis
    using id' by (simp add: validateDagDocument_def f name desc desc2 dflt inp ids steps cyc non_empty_array_def guard_def)
qed

lemma document_back: "ok_document reg d \<Longrightarrow> validateDagDocument reg (document_json d) = Inr d"
  by (simp add: ok_document_def shape_back)

section \<open>The contract\<close>

definition sample_control :: step_control where
  "sample_control = \<lparr>sc_needs = None, sc_when = None, sc_forEach = None, sc_maxParallel = None, sc_loop = None\<rparr>"

definition sample_document :: "string list \<Rightarrow> dag_document" where
  "sample_document ns = \<lparr>dg_id = ''wf_1'', dg_name = ''build'', dg_description = None, dg_defaults = None, dg_inputs = None,
     dg_steps = [ApprovalStep ''a'' sample_control None (Some 60) (Some ''continue''),
                 ApprovalStep ''b'' (sample_control \<lparr>sc_needs := Some ns\<rparr>) (Some ''go on'') None None]\<rparr>"

lemma sample_shape: "ns = [''a''] \<or> ns = [''b''] \<Longrightarrow> ok_shape initial_registry (sample_document ns)"
  by (auto simp: ok_shape_def sample_document_def sample_control_def clean_name_def ok_step_def ok_control_def
      DAG_ID_RE_def STEP_ID_RE_def id_char_def EMAIL_RE_def email_local_char_def TWELVE_DIGIT_RE_def is_alpha_def
      is_digit_def ON_ERROR_POLICIES_def upt_rec max_safe_nat_def)

lemma sample_accepted: "validateDagDocument initial_registry (document_json (sample_document [''a''])) = Inr (sample_document [''a''])"
proof -
  have "findCycle (dg_steps (sample_document [''a''])) = None"
    by (simp add: sample_document_def sample_control_def) code_simp
  then have "acyclic (needs_rel (dg_steps (sample_document [''a''])))"
    using findCycle_None_iff ok_steps_closed sample_shape [of "[''a'']"] by (auto simp: ok_shape_def)
  then show ?thesis using shape_back [OF sample_shape [of "[''a'']"]] by simp
qed

text \<open>Claim C34: an accepted document is well formed. Whatever JSON value \<open>validateDagDocument\<close> is given,
  if it answers with a document then the ids are unique and in charset, every \<open>needs\<close> edge and every
  \<open>goto\<close> target names a step, the \<open>needs\<close> graph has no cycle, a step never sets \<open>forEach\<close> and \<open>loop\<close>
  together, account and backend agree, all bounds hold, and no naming field carries an email or a
  twelve-digit run.\<close>

theorem dag_document_sound:
  assumes "validateDagDocument reg v = Inr d"
  shows "ok_document reg d"
  using assms by (rule document_ok)

theorem dag_document_sound_witness:
  "ok_document initial_registry (sample_document [''a''])"
  by (rule dag_document_sound [OF sample_accepted])

text \<open>Claim C37: the saved form of a document is faithful. The JSON of a document validates, and to that same
  document, exactly when the document is well formed; so a definition that was validated, stored and
  parsed again is the one that was stored, and nothing ill-formed can be stored that would be read back.\<close>

theorem dag_document_roundtrip:
  "ok_document reg d = (validateDagDocument reg (document_json d) = Inr d)"
  using document_back document_ok by blast

text \<open>The cycle refusal is exact. For a document that passes every other check the answer depends
  on the \<open>needs\<close> graph alone: accepted as it is if the graph has no cycle, and refused with the class
  \<open>cycle\<close> at \<open>steps\<close> if it has one.\<close>

theorem dag_cycle_refusal_exact:
  assumes "ok_shape reg d"
  shows "validateDagDocument reg (document_json d) =
    (if acyclic (needs_rel (dg_steps d)) then Inr d else Inl (dag_fail Cycle ''steps''))"
  using assms by (rule shape_back)

theorem dag_cycle_refusal_exact_witness:
  "validateDagDocument initial_registry (document_json (sample_document [''b''])) = Inl (dag_fail Cycle ''steps'')"
proof -
  let ?b = "ApprovalStep ''b'' (sample_control \<lparr>sc_needs := Some [''b'']\<rparr>) (Some ''go on'') None None"
  have "?b \<in> set (dg_steps (sample_document [''b'']))" "''b'' \<in> set (step_needs ?b)"
    by (simp_all add: sample_document_def step_needs_def)
  then have "(''b'', step_id ?b) \<in> needs_rel (dg_steps (sample_document [''b'']))" unfolding needs_rel_def by blast
  then have "\<not> acyclic (needs_rel (dg_steps (sample_document [''b''])))"
    unfolding acyclic_def by (metis r_into_trancl' step_id.simps(5))
  then show ?thesis using dag_cycle_refusal_exact [OF sample_shape [of "[''b'']"]] by simp
qed

end
