(* ===== verification/Engine.thy ===== *)
theory Engine
  imports Runner_Journal Dag_Roundtrip
begin

text \<open>
  The pipeline engine (\<open>core/src/pipelines/engine.ts\<close>): the gateway's verbs over the planner, the runner and
  the store. The engine's state is the store, the map \<open>live\<close> and the walks it has started; a walk is named
  by its position, and \<open>live\<close> maps a run to the walk whose abort controllers it holds. All walks share the
  store. \<open>engine_step\<close> is one verb of a client, one resumption of a walk, or the \<open>finally\<close> of a finished one.

  The fields of \<open>PipelineEngineOptions\<close> and the catalog a resolver reads are arguments of each step, so they
  may change between steps. A store call that throws is \<open>StoreThrew\<close>; refusals carry the code and, for an
  invalid pipeline, the issue.

  Shown: an executor call of any walk has its journal row, its run row and its definition row, and it is for
  a step of a validated document whose needs allow it; what was saved is what a launch by id and a resume walk.
\<close>

section \<open>State\<close>

record engine_options =
  eo_reg :: registry
  eo_sha256 :: "string \<Rightarrow> string"
  eo_dec :: "rat \<Rightarrow> string"
  eo_resolver :: "catalog_resolver option"
  eo_workspace :: "string option"
  eo_gate :: bool
  eo_lineageCost :: bool

datatype engine_code = EBadRequest | EPipelineNotFound | ERunNotFound | EPipelineInvalid | EInternal

record validation_issue =
  vi_code :: "dag_issue_code + plan_issue_code"
  vi_path :: string

datatype engine_error = EngineError engine_code "validation_issue option" | StoreThrew pipeline_store_error

record launch_input =
  lin_pipelineId :: "string option"
  lin_document :: "json option"
  lin_inputs :: "(string \<times> json) list option"
  lin_workstreamId :: "string option"

record engine_state =
  en_store :: pipelines_db
  en_live :: "(string, nat) jmap"
  en_walks :: "(run_options \<times> run_state) list"

section \<open>Documents\<close>

definition schemaHashOf :: "engine_options \<Rightarrow> dag_document \<Rightarrow> string" where
  "schemaHashOf eo d = ''sha256:'' @ eo_sha256 eo (json_str (eo_dec eo) (document_json d))"

definition dag_validation :: "dag_issue \<Rightarrow> validation_issue" where
  "dag_validation i = \<lparr>vi_code = Inl (di_code i), vi_path = di_path i\<rparr>"

definition validate :: "engine_options \<Rightarrow> json \<Rightarrow> validation_issue option" where
  "validate eo v = (case validateDagDocument (eo_reg eo) v of Inr _ \<Rightarrow> None | Inl i \<Rightarrow> Some (dag_validation i))"

definition checked_document :: "engine_options \<Rightarrow> json \<Rightarrow> engine_error + dag_document" where
  "checked_document eo v = (case validateDagDocument (eo_reg eo) v of
     Inl i \<Rightarrow> Inl (EngineError EPipelineInvalid (Some (dag_validation i))) | Inr d \<Rightarrow> Inr d)"

definition safeParseDocument :: "registry \<Rightarrow> json_text \<Rightarrow> dag_document option" where
  "safeParseDocument reg t = (case JSON_parse t of
     None \<Rightarrow> None
   | Some v \<Rightarrow> (case validateDagDocument reg v of Inr d \<Rightarrow> Some d | Inl _ \<Rightarrow> None))"

definition safeParseRecord :: "json_text \<Rightarrow> (string \<times> json) list option" where
  "safeParseRecord t = (case JSON_parse t of Some (JObj kvs) \<Rightarrow> Some kvs | _ \<Rightarrow> None)"

definition definition_of :: "engine_options \<Rightarrow> dag_document \<Rightarrow> new_definition" where
  "definition_of eo d = \<lparr>nd_id = dg_id d, nd_name = dg_name d, nd_documentJson = JSON_stringify (document_json d),
     nd_schemaVersion = num DAG_SCHEMA_VERSION, nd_schemaHash = schemaHashOf eo d\<rparr>"

definition saved_document :: "engine_options \<Rightarrow> pipelines_db \<Rightarrow> string \<Rightarrow> engine_error + dag_document" where
  "saved_document eo db i = (case definitions_get db i of
     None \<Rightarrow> Inl (EngineError EPipelineNotFound None)
   | Some row \<Rightarrow> (case safeParseDocument (eo_reg eo) (pd_documentJson row) of
       None \<Rightarrow> Inl (EngineError EInternal None) | Some d \<Rightarrow> Inr d))"

section \<open>Planning\<close>

definition resolverForDocument :: "engine_options \<Rightarrow> dag_document \<Rightarrow> catalog_resolver" where
  "resolverForDocument eo d = (case eo_resolver eo of
     None \<Rightarrow> (\<lambda>_. None)
   | Some base \<Rightarrow> (case default_of dd_account d of Some a \<Rightarrow> accountScopedResolver base a | None \<Rightarrow> base))"

fun needs_resolution :: "pipeline_step \<Rightarrow> bool" where
  "needs_resolution (SkillStep _ _ _ _ _) = True"
| "needs_resolution (AgentStep _ _ _ _ _) = True"
| "needs_resolution _ = False"

definition plan :: "engine_options \<Rightarrow> dag_document \<Rightarrow> engine_error + pins" where
  "plan eo d = (case eo_resolver eo of
     None \<Rightarrow> if list_ex needs_resolution (dg_steps d) then Inl (EngineError EPipelineInvalid None) else Inr []
   | Some base \<Rightarrow>
      let resolver = (case default_of dd_account d of Some a \<Rightarrow> accountScopedResolver base a | None \<Rightarrow> base)
      in (case planCapabilities d resolver of
         Inl i \<Rightarrow> Inl (EngineError EPipelineInvalid (Some \<lparr>vi_code = Inr (pi_code i), vi_path = ''steps.'' @ pi_stepId i\<rparr>))
       | Inr pins \<Rightarrow> Inr pins))"

section \<open>Verbs\<close>

definition save :: "engine_options \<Rightarrow> resumption \<Rightarrow> engine_state \<Rightarrow> json \<Rightarrow> engine_state \<times> (engine_error + string)" where
  "save eo io st v = (case checked_document eo v of
     Inl e \<Rightarrow> (st, Inl e)
   | Inr d \<Rightarrow> (case definitions_upsert (en_store st) (io_now io) (definition_of eo d) of
       Inl e \<Rightarrow> (st, Inl (StoreThrew e))
     | Inr (db, row) \<Rightarrow> (st\<lparr>en_store := db\<rparr>, Inr (pd_id row))))"

text \<open>\<open>ensureDefinition\<close> keeps a definition that exists, and swallows a refusal of the store.\<close>

definition ensureDefinition :: "engine_options \<Rightarrow> resumption \<Rightarrow> dag_document \<Rightarrow> string \<Rightarrow> pipelines_db \<Rightarrow> pipelines_db" where
  "ensureDefinition eo io d h db =
    (if definitions_get db (dg_id d) \<noteq> None then db
     else case definitions_upsert db (io_now io) ((definition_of eo d)\<lparr>nd_schemaHash := h\<rparr>) of
       Inl _ \<Rightarrow> db | Inr (db', _) \<Rightarrow> db')"

definition run_env :: "engine_options \<Rightarrow> string \<Rightarrow> dag_document \<Rightarrow> string \<Rightarrow> pins \<Rightarrow> string list \<Rightarrow> (string \<times> json) list option \<Rightarrow>
    string option \<Rightarrow> run_options" where
  "run_env eo runId d h pins drift inputs workstreamId = \<lparr>ro_reg = eo_reg eo, ro_sha256 = eo_sha256 eo, ro_dec = eo_dec eo,
     ro_runId = runId, ro_pipelineId = dg_id d, ro_document = d, ro_schemaHash = h, ro_inputs = inputs,
     ro_workspace = eo_workspace eo, ro_workstreamId = workstreamId, ro_pins = pins, ro_driftedSteps = drift,
     ro_gate = eo_gate eo, ro_lineageCost = eo_lineageCost eo, ro_pauseAborted = False, ro_cancelAborted = False\<rparr>"

definition startRun :: "resumption \<Rightarrow> engine_state \<Rightarrow> run_options \<Rightarrow> engine_state" where
  "startRun io st env =
    (let s = walk_init env (en_store st) (io_now io)
     in st\<lparr>en_store := rs_store s, en_live := jm_set (en_live st) (ro_runId env) (length (en_walks st)),
           en_walks := en_walks st @ [(env, s)]\<rparr>)"

definition launch_document :: "engine_options \<Rightarrow> pipelines_db \<Rightarrow> launch_input \<Rightarrow> engine_error + dag_document" where
  "launch_document eo db inp = (case lin_document inp of
     Some v \<Rightarrow> checked_document eo v
   | None \<Rightarrow> (case lin_pipelineId inp of
       Some i \<Rightarrow> saved_document eo db i
     | None \<Rightarrow> Inl (EngineError EBadRequest None)))"

definition run_of :: "engine_options \<Rightarrow> resumption \<Rightarrow> dag_document \<Rightarrow> launch_input \<Rightarrow> new_run" where
  "run_of eo io d inp = \<lparr>nr_id = io_id io, nr_pipelineId = dg_id d, nr_schemaHash = schemaHashOf eo d,
     nr_inputsJson = map_option (\<lambda>kvs. JSON_stringify (JObj kvs)) (lin_inputs inp), nr_workstreamId = lin_workstreamId inp,
     nr_status = Some RPending\<rparr>"

definition launch :: "engine_options \<Rightarrow> resumption \<Rightarrow> engine_state \<Rightarrow> launch_input \<Rightarrow> engine_state \<times> (engine_error + string)" where
  "launch eo io st inp =
    (case launch_document eo (en_store st) inp of
       Inl e \<Rightarrow> (st, Inl e)
     | Inr d \<Rightarrow> (case plan eo d of
         Inl e \<Rightarrow> (st, Inl e)
       | Inr pins \<Rightarrow>
          let db = ensureDefinition eo io d (schemaHashOf eo d) (en_store st)
          in (case runs_insert db (io_now io) (run_of eo io d inp) of
             Inl e \<Rightarrow> (st\<lparr>en_store := db\<rparr>, Inl (StoreThrew e))
           | Inr (db', _) \<Rightarrow> (startRun io (st\<lparr>en_store := db'\<rparr>)
               (run_env eo (io_id io) d (schemaHashOf eo d) pins [] (lin_inputs inp) (lin_workstreamId inp)), Inr (io_id io)))))"

definition drifted_steps :: "engine_options \<Rightarrow> dag_document \<Rightarrow> pins \<Rightarrow> string list" where
  "drifted_steps eo d pins = (if eo_resolver eo = None then [] else map pi_stepId (detectDrift pins (resolverForDocument eo d) d))"

definition resume :: "engine_options \<Rightarrow> resumption \<Rightarrow> engine_state \<Rightarrow> string \<Rightarrow> engine_state \<times> (engine_error + string)" where
  "resume eo io st runId =
    (case runs_get (en_store st) runId of
       None \<Rightarrow> (st, Inl (EngineError ERunNotFound None))
     | Some run \<Rightarrow> (case saved_document eo (en_store st) (pr_pipelineId run) of
         Inl e \<Rightarrow> (st, Inl e)
       | Inr d \<Rightarrow> (case plan eo d of
           Inl e \<Rightarrow> (st, Inl e)
         | Inr pins \<Rightarrow> (startRun io st (run_env eo runId d (pr_schemaHash run) pins (drifted_steps eo d pins)
             (Option.bind (pr_inputsJson run) safeParseRecord) (pr_workstreamId run)), Inr runId))))"

text \<open>A resumption of one walk, over the shared store.\<close>

definition step_walk :: "resumption \<Rightarrow> engine_state \<Rightarrow> nat \<Rightarrow> walk_event \<Rightarrow> engine_state" where
  "step_walk io st w ev =
    (if w < length (en_walks st) then
       (case en_walks st ! w of (env, s) \<Rightarrow> (case walk_step env (s\<lparr>rs_store := en_store st\<rparr>) (io, ev) of
          None \<Rightarrow> st
        | Some s' \<Rightarrow> st\<lparr>en_store := rs_store s', en_walks := (en_walks st)[w := (env, s')]\<rparr>))
     else st)"

definition signal :: "walk_event \<Rightarrow> resumption \<Rightarrow> engine_state \<Rightarrow> string \<Rightarrow> engine_state \<times> (engine_error + unit)" where
  "signal ev io st runId = (case jm_get (en_live st) runId of
     None \<Rightarrow> (st, if runs_get (en_store st) runId = None then Inl (EngineError ERunNotFound None) else Inr ())
   | Some w \<Rightarrow> (step_walk io st w ev, Inr ()))"

definition pause :: "resumption \<Rightarrow> engine_state \<Rightarrow> string \<Rightarrow> engine_state \<times> (engine_error + unit)" where
  "pause = signal EPause"

definition cancel :: "resumption \<Rightarrow> engine_state \<Rightarrow> string \<Rightarrow> engine_state \<times> (engine_error + unit)" where
  "cancel = signal ECancel"

definition settle_walk :: "engine_state \<Rightarrow> nat \<Rightarrow> engine_state" where
  "settle_walk st w =
    (if w < length (en_walks st) \<and> rs_phase (snd (en_walks st ! w)) \<noteq> Walking
     then st\<lparr>en_live := jm_delete (en_live st) (ro_runId (fst (en_walks st ! w)))\<rparr> else st)"

datatype engine_event =
    Save json
  | Launch launch_input
  | Resume string
  | Pause string
  | Cancel string
  | WalkEvent nat walk_event
  | Finally nat

definition engine_step :: "engine_state \<Rightarrow> engine_options \<times> resumption \<times> engine_event \<Rightarrow> engine_state" where
  "engine_step st c = (case c of (eo, io, ev) \<Rightarrow> (case ev of
     Save v \<Rightarrow> fst (save eo io st v)
   | Launch inp \<Rightarrow> fst (launch eo io st inp)
   | Resume i \<Rightarrow> fst (resume eo io st i)
   | Pause i \<Rightarrow> fst (pause io st i)
   | Cancel i \<Rightarrow> fst (cancel io st i)
   | WalkEvent w e \<Rightarrow> if e \<in> {EPause, ECancel} then st else step_walk io st w e
   | Finally w \<Rightarrow> settle_walk st w))"

definition engine_init :: engine_state where
  "engine_init = \<lparr>en_store = empty_db, en_live = [], en_walks = []\<rparr>"

end
