(* ===== verification/Runner_Bounds.thy ===== *)
theory Runner_Bounds
  imports Runner_Calls
begin

text \<open>
  Bounds on a running step: the attempt numbers of a pass stay within the retry budget, a fan-out has as many
  workers as \<open>maxParallel\<close> and the number of items allow, and its workers hand out every index once
  (\<open>runBounded\<close>): an index is pending, or held by exactly one worker, or has its result.
\<close>

definition slot_bounded :: "pipeline_step \<Rightarrow> slot_pc \<Rightarrow> bool" where
  "slot_bounded step pc = (case pc of
     SAttempt l ctx a \<Rightarrow> ax_first ctx \<le> a \<and> a < ax_first ctx + maxAttempts step
   | SExec l ctx a row b \<Rightarrow> ax_first ctx \<le> a \<and> a < ax_first ctx + maxAttempts step
   | _ \<Rightarrow> True)"

lemma slot_bounded_simps [simp]:
  "slot_bounded step (SLoop l ok)" "slot_bounded step (SBack l ok)" "slot_bounded step (SReturn ok)"
  "slot_bounded step (SAttempt l ctx a) \<longleftrightarrow> ax_first ctx \<le> a \<and> a < ax_first ctx + maxAttempts step"
  "slot_bounded step (SExec l ctx a row b) \<longleftrightarrow> ax_first ctx \<le> a \<and> a < ax_first ctx + maxAttempts step"
  by (simp_all add: slot_bounded_def)

lemma maxAttempts_pos [simp]: "0 < maxAttempts step"
  by (simp add: maxAttempts_def)

lemma slot_step_bounded:
  assumes "slot_step env io s step i item pc ev = Some (s', Inr pc')" "slot_bounded step pc"
  shows "slot_bounded step pc'"
  using assms
proof (cases "(env, io, s, step, i, item, pc, ev)" rule: slot_step.cases)
  case (1 env io s step i item l ok)
  show ?thesis
  proof (cases "l < maxLoops step \<and> \<not> rs_cancelled s \<and> \<not> rs_paused s")
    case True
    then have "snd (begin_attempt env io s step (effectiveIteration step i l) item l) = Inr pc'"
      using assms 1 by (auto split: if_splits)
    from begin_attempt_snd [OF this] show ?thesis using 1 by auto
  next
    case False
    then show ?thesis using assms 1 by (auto split: if_splits)
  qed
next
  case (2 env io s step i item l ctx a)
  then have "snd (attempt_head env io s step (effectiveIteration step i l) l ctx a) = Inr pc'" using assms by auto
  from attempt_head_snd [OF this] show ?thesis using 2 assms(2) by auto
next
  case (3 env io s step i item l ctx a row b r)
  then have "snd (after_answer env io s step (effectiveIteration step i l) l ctx a row b (Some r)) = Inr pc'" using assms by auto
  from after_answer_snd [OF this] show ?thesis using 3 assms(2) by auto
next
  case (4 env io s step i item l ctx a row b)
  then have "snd (after_answer env io s step (effectiveIteration step i l) l ctx a row b None) = Inr pc'" using assms by auto
  from after_answer_snd [OF this] show ?thesis using 4 assms(2) by auto
next
  case (6 env io s step i item l ok)
  then have "pc' = after_attempt env s step item l ok" using assms by auto
  then show ?thesis using 6 by (auto simp: after_attempt_def Let_def split: option.splits)
qed (auto split: if_splits)

section \<open>The worker pool\<close>

definition fan_ok :: "pipeline_step \<Rightarrow> json list \<Rightarrow> nat \<Rightarrow> bool option list \<Rightarrow> worker list \<Rightarrow> bool" where
  "fan_ok step items nxt results ws \<longleftrightarrow> items \<noteq> [] \<and> length ws = min (maxParallel step) (length items) \<and> length results = length items
     \<and> (\<forall>w<length ws. \<forall>i pc. ws ! w = WBusy i pc \<longrightarrow> i < nxt \<and> i < length items \<and> results ! i = None \<and> slot_bounded step pc)
     \<and> (\<forall>w<length ws. \<forall>w'<length ws. \<forall>i pc pc'. ws ! w = WBusy i pc \<longrightarrow> ws ! w' = WBusy i pc' \<longrightarrow> w = w')
     \<and> (\<forall>i<length items. nxt \<le> i \<longrightarrow> results ! i = None)
     \<and> (WThrew \<notin> set ws \<longrightarrow> (\<forall>i<length items. i < nxt \<longrightarrow> results ! i = None \<longrightarrow> (\<exists>w<length ws. \<exists>pc. ws ! w = WBusy i pc)))
     \<and> (WDone \<in> set ws \<longrightarrow> length items \<le> nxt)"

lemma fan_okD:
  assumes "fan_ok step items nxt results ws"
  shows "items \<noteq> []" "length ws = min (maxParallel step) (length items)" "length results = length items"
    "\<And>w i pc. w < length ws \<Longrightarrow> ws ! w = WBusy i pc \<Longrightarrow> i < nxt \<and> i < length items \<and> results ! i = None \<and> slot_bounded step pc"
    "\<And>w w' i pc pc'. w < length ws \<Longrightarrow> w' < length ws \<Longrightarrow> ws ! w = WBusy i pc \<Longrightarrow> ws ! w' = WBusy i pc' \<Longrightarrow> w = w'"
    "\<And>i. i < length items \<Longrightarrow> nxt \<le> i \<Longrightarrow> results ! i = None"
    "\<And>i. WThrew \<notin> set ws \<Longrightarrow> i < length items \<Longrightarrow> i < nxt \<Longrightarrow> results ! i = None \<Longrightarrow> \<exists>w<length ws. \<exists>pc. ws ! w = WBusy i pc"
    "WDone \<in> set ws \<Longrightarrow> length items \<le> nxt"
  using assms unfolding fan_ok_def by blast+

lemma fan_okI:
  assumes "items \<noteq> []" "length ws = min (maxParallel step) (length items)" "length results = length items"
    "\<And>w i pc. w < length ws \<Longrightarrow> ws ! w = WBusy i pc \<Longrightarrow> i < nxt \<and> i < length items \<and> results ! i = None \<and> slot_bounded step pc"
    "\<And>w w' i pc pc'. w < length ws \<Longrightarrow> w' < length ws \<Longrightarrow> ws ! w = WBusy i pc \<Longrightarrow> ws ! w' = WBusy i pc' \<Longrightarrow> w = w'"
    "\<And>i. i < length items \<Longrightarrow> nxt \<le> i \<Longrightarrow> results ! i = None"
    "\<And>i. WThrew \<notin> set ws \<Longrightarrow> i < length items \<Longrightarrow> i < nxt \<Longrightarrow> results ! i = None \<Longrightarrow> \<exists>w<length ws. \<exists>pc. ws ! w = WBusy i pc"
    "WDone \<in> set ws \<Longrightarrow> length items \<le> nxt"
  shows "fan_ok step items nxt results ws"
  using assms unfolding fan_ok_def by blast

lemma set_update_cases: "x \<in> set (ws[w := v]) \<Longrightarrow> x = v \<or> x \<in> set ws"
  using set_update_subset_insert [of ws w v] by auto

lemma threw_update: "WThrew \<notin> set (ws[w := v]) \<Longrightarrow> w < length ws \<Longrightarrow> ws ! w \<noteq> WThrew \<Longrightarrow> WThrew \<notin> set ws"
  by (metis in_set_conv_nth length_list_update nth_list_update_neq)

lemma fan_take:
  assumes f: "fan_ok step items nxt results ws" and w: "w < length ws" "ws ! w = WIdle" and n: "nxt < length items"
  shows "fan_ok step items (nxt + 1) results (ws[w := WBusy nxt (SLoop 0 False)])"
proof (rule fan_okI)
  note d = fan_okD [OF f]
  show "items \<noteq> []" "length (ws[w := WBusy nxt (SLoop 0 False)]) = min (maxParallel step) (length items)" "length results = length items"
    using d(1-3) by simp_all
  fix v i pc assume v: "v < length (ws[w := WBusy nxt (SLoop 0 False)])" "ws[w := WBusy nxt (SLoop 0 False)] ! v = WBusy i pc"
  show "i < nxt + 1 \<and> i < length items \<and> results ! i = None \<and> slot_bounded step pc"
    using v d(4) [of v i pc] d(6) [OF n] n by (cases "v = w") (auto simp: nth_list_update)
next
  note d = fan_okD [OF f]
  fix v v' i pc pc' assume v: "v < length (ws[w := WBusy nxt (SLoop 0 False)])" "v' < length (ws[w := WBusy nxt (SLoop 0 False)])"
    "ws[w := WBusy nxt (SLoop 0 False)] ! v = WBusy i pc" "ws[w := WBusy nxt (SLoop 0 False)] ! v' = WBusy i pc'"
  show "v = v'" using v d(5) [of v v' i pc pc'] d(4) [of v i pc] d(4) [of v' i pc']
    by (cases "v = w"; cases "v' = w") (auto simp: nth_list_update)
next
  note d = fan_okD [OF f]
  fix i assume "i < length items" "nxt + 1 \<le> i"
  then show "results ! i = None" using d(6) by simp
next
  note d = fan_okD [OF f]
  fix i assume i: "WThrew \<notin> set (ws[w := WBusy nxt (SLoop 0 False)])" "i < length items" "i < nxt + 1" "results ! i = None"
  show "\<exists>v<length (ws[w := WBusy nxt (SLoop 0 False)]). \<exists>pc. ws[w := WBusy nxt (SLoop 0 False)] ! v = WBusy i pc"
  proof (cases "i = nxt")
    case True
    then show ?thesis using w(1) by (intro exI [of _ w]) simp
  next
    case False
    then obtain v pc where "v < length ws" "ws ! v = WBusy i pc"
      using d(7) [OF threw_update [OF i(1) w(1)] i(2) _ i(4)] i(3) w(2) by auto
    then show ?thesis using w by (intro exI [of _ v]) (auto simp: nth_list_update)
  qed
next
  assume "WDone \<in> set (ws[w := WBusy nxt (SLoop 0 False)])"
  then show "length items \<le> nxt + 1" using fan_okD(8) [OF f] by (auto dest: set_update_cases)
qed

lemma fan_exhausted:
  assumes f: "fan_ok step items nxt results ws" and w: "w < length ws" "ws ! w = WIdle" and n: "length items \<le> nxt"
  shows "fan_ok step items (nxt + 1) results (ws[w := WDone])"
proof (rule fan_okI)
  note d = fan_okD [OF f]
  show "items \<noteq> []" "length (ws[w := WDone]) = min (maxParallel step) (length items)" "length results = length items"
    using d(1-3) by simp_all
  show "i < nxt + 1 \<and> i < length items \<and> results ! i = None \<and> slot_bounded step pc"
    if "v < length (ws[w := WDone])" "ws[w := WDone] ! v = WBusy i pc" for v i pc
    using that d(4) [of v i pc] by (cases "v = w") (auto simp: nth_list_update)
  show "v = v'" if "v < length (ws[w := WDone])" "v' < length (ws[w := WDone])" "ws[w := WDone] ! v = WBusy i pc"
    "ws[w := WDone] ! v' = WBusy i pc'" for v v' i pc pc'
    using that w d(5) [of v v' i pc pc'] by (auto simp: nth_list_update split: if_splits)
  show "results ! i = None" if "i < length items" "nxt + 1 \<le> i" for i using that d(6) by simp
  show "\<exists>v<length (ws[w := WDone]). \<exists>pc. ws[w := WDone] ! v = WBusy i pc"
    if i: "WThrew \<notin> set (ws[w := WDone])" "i < length items" "i < nxt + 1" "results ! i = None" for i
  proof -
    obtain v pc where "v < length ws" "ws ! v = WBusy i pc"
      using d(7) [OF threw_update [OF i(1) w(1)] i(2) _ i(4)] i(2) n w(2) by auto
    then show ?thesis using w by (intro exI [of _ v]) (auto simp: nth_list_update)
  qed
  show "length items \<le> nxt + 1" using n by simp
qed

lemma fan_returned:
  assumes f: "fan_ok step items nxt results ws" and w: "w < length ws" "ws ! w = WBusy k (SReturn ok)"
  shows "fan_ok step items nxt (results[k := Some ok]) (ws[w := WIdle])"
proof (rule fan_okI)
  note d = fan_okD [OF f]
  have k: "k < nxt" "k < length items" using d(4) [OF w] by auto
  show "items \<noteq> []" "length (ws[w := WIdle]) = min (maxParallel step) (length items)" "length (results[k := Some ok]) = length items"
    using d(1-3) by simp_all
  show "i < nxt \<and> i < length items \<and> results[k := Some ok] ! i = None \<and> slot_bounded step pc"
    if "v < length (ws[w := WIdle])" "ws[w := WIdle] ! v = WBusy i pc" for v i pc
    using that d(4) [of v i pc] d(5) [of v w i pc "SReturn ok"] w d(3) k by (cases "v = w"; cases "i = k") (auto simp: nth_list_update)
  show "v = v'" if "v < length (ws[w := WIdle])" "v' < length (ws[w := WIdle])" "ws[w := WIdle] ! v = WBusy i pc"
    "ws[w := WIdle] ! v' = WBusy i pc'" for v v' i pc pc'
    using that w d(5) [of v v' i pc pc'] by (auto simp: nth_list_update split: if_splits)
  show "results[k := Some ok] ! i = None" if "i < length items" "nxt \<le> i" for i using that d(6) k by simp
  show "\<exists>v<length (ws[w := WIdle]). \<exists>pc. ws[w := WIdle] ! v = WBusy i pc"
    if i: "WThrew \<notin> set (ws[w := WIdle])" "i < length items" "i < nxt" "results[k := Some ok] ! i = None" for i
  proof -
    have "i \<noteq> k" using i(4) d(3) k by auto
    moreover obtain v pc where "v < length ws" "ws ! v = WBusy i pc"
      using d(7) [OF threw_update [OF i(1) w(1)] i(2,3)] i(4) w(2) \<open>i \<noteq> k\<close> by auto
    ultimately show ?thesis using w by (intro exI [of _ v]) (auto simp: nth_list_update)
  qed
  show "length items \<le> nxt" if "WDone \<in> set (ws[w := WIdle])" using that d(8) by (auto dest: set_update_cases)
qed

lemma fan_stepped:
  assumes f: "fan_ok step items nxt results ws" and w: "w < length ws" "ws ! w = WBusy k pc0" and b: "slot_bounded step pc1"
  shows "fan_ok step items nxt results (ws[w := WBusy k pc1])"
proof (rule fan_okI)
  note d = fan_okD [OF f]
  show "items \<noteq> []" "length (ws[w := WBusy k pc1]) = min (maxParallel step) (length items)" "length results = length items"
    using d(1-3) by simp_all
  show "i < nxt \<and> i < length items \<and> results ! i = None \<and> slot_bounded step pc"
    if "v < length (ws[w := WBusy k pc1])" "ws[w := WBusy k pc1] ! v = WBusy i pc" for v i pc
    using that d(4) [of v i pc] d(4) [OF w] b by (cases "v = w") (auto simp: nth_list_update)
  show "v = v'" if "v < length (ws[w := WBusy k pc1])" "v' < length (ws[w := WBusy k pc1])" "ws[w := WBusy k pc1] ! v = WBusy i pc"
    "ws[w := WBusy k pc1] ! v' = WBusy i pc'" for v v' i pc pc'
    using that d(5) [of v v' i pc pc'] d(5) [of w v' i pc0 pc'] d(5) [of w v i pc0 pc] w
    by (cases "v = w"; cases "v' = w") (auto simp: nth_list_update)
  show "results ! i = None" if "i < length items" "nxt \<le> i" for i using that d(6) by simp
  show "\<exists>v<length (ws[w := WBusy k pc1]). \<exists>pc. ws[w := WBusy k pc1] ! v = WBusy i pc"
    if i: "WThrew \<notin> set (ws[w := WBusy k pc1])" "i < length items" "i < nxt" "results ! i = None" for i
  proof -
    obtain v pc where v: "v < length ws" "ws ! v = WBusy i pc"
      using d(7) [OF threw_update [OF i(1) w(1)] i(2-4)] w(2) by auto
    then show ?thesis using w by (intro exI [of _ v]) (auto simp: nth_list_update)
  qed
  show "length items \<le> nxt" if "WDone \<in> set (ws[w := WBusy k pc1])" using that d(8) by (auto dest: set_update_cases)
qed

lemma fan_threw:
  assumes f: "fan_ok step items nxt results ws" and w: "w < length ws"
  shows "fan_ok step items nxt results (ws[w := WThrew])"
proof (rule fan_okI)
  note d = fan_okD [OF f]
  show "items \<noteq> []" "length (ws[w := WThrew]) = min (maxParallel step) (length items)" "length results = length items"
    using d(1-3) by simp_all
  show "i < nxt \<and> i < length items \<and> results ! i = None \<and> slot_bounded step pc"
    if "v < length (ws[w := WThrew])" "ws[w := WThrew] ! v = WBusy i pc" for v i pc
    using that d(4) [of v i pc] by (cases "v = w") (auto simp: nth_list_update)
  show "v = v'" if "v < length (ws[w := WThrew])" "v' < length (ws[w := WThrew])" "ws[w := WThrew] ! v = WBusy i pc"
    "ws[w := WThrew] ! v' = WBusy i pc'" for v v' i pc pc'
    using that w d(5) [of v v' i pc pc'] by (auto simp: nth_list_update split: if_splits)
  show "results ! i = None" if "i < length items" "nxt \<le> i" for i using that d(6) by simp
  show "\<exists>v<length (ws[w := WThrew]). \<exists>pc. ws[w := WThrew] ! v = WBusy i pc" if i: "WThrew \<notin> set (ws[w := WThrew])" for i
    using i w by (metis length_list_update nth_list_update_eq nth_mem)
  show "length items \<le> nxt" if "WDone \<in> set (ws[w := WThrew])" using that d(8) by (auto dest: set_update_cases)
qed

section \<open>Tasks\<close>

definition task_bounded :: "pipeline_step \<Rightarrow> step_task \<Rightarrow> bool" where
  "task_bounded step t = (case t of
     TScalar pc \<Rightarrow> slot_bounded step pc
   | TFan items nxt results ws \<Rightarrow> fan_ok step items nxt results ws
   | _ \<Rightarrow> True)"

lemma task_bounded_simps [simp]: "task_bounded step TStart" "task_bounded step TDone" "task_bounded step (TThrew e)"
    "task_bounded step (TGate r)" "task_bounded step (TScalar pc) = slot_bounded step pc"
    "task_bounded step (TFan items nxt results ws) = fan_ok step items nxt results ws"
  by (simp_all add: task_bounded_def)

lemma maxParallel_bounds: "1 \<le> maxParallel step" "maxParallel step \<le> 16"
  by (simp_all add: maxParallel_def)

lemma fan_initial:
  assumes "items \<noteq> []"
  shows "fan_ok step items 0 (replicate (length items) None) (replicate (min (maxParallel step) (length items)) WIdle)"
  by (rule fan_okI) (use assms in \<open>auto simp: set_replicate_conv_if split: if_splits\<close>)

lemma runGate_task: "runGate env io s step = (s', Inr t) \<Longrightarrow> task_bounded step t"
  by (erule runGate_cases) auto

lemma runStep_bounded:
  assumes "runStep env io s step = (s', Inr t)"
  shows "task_bounded step t"
proof -
  let ?s = "s\<lparr>rs_remaining := js_set_delete (rs_remaining s) (step_id step)\<rparr>"
  note run = assms [unfolded runStep_def Let_def]
  show ?thesis
  proof (cases "skipByUpstream env ?s step \<or> when_false env ?s step")
    case False
    show ?thesis
    proof (cases "is_approval step")
      case True
      then show ?thesis using run False runGate_task by simp
    next
      case na: False
      show ?thesis
      proof (cases "sc_forEach (step_ctl step)")
        case (Some expr)
        then show ?thesis using run False na fan_initial by (auto split: if_splits)
      qed (use run False na in auto)
    qed
  qed (use run in auto)
qed

lemma task_step_bounded: "task_step env io s step t = Some (s', Inr t') \<Longrightarrow> task_bounded step t'"
  using runStep_bounded by (cases t) (auto simp: task_step_def split: slot_pc.splits if_splits)

lemma fan_step_bounded:
  assumes "fan_step env io s step items nxt results ws w ev = Some (s', Inr t')" "fan_ok step items nxt results ws"
  shows "task_bounded step t'"
proof -
  have w: "w < length ws" using assms(1) by (auto simp: fan_step_def split: if_splits)
  show ?thesis
  proof (cases "ws ! w")
    case WIdle
    then show ?thesis using assms w fan_take [OF assms(2) w WIdle] fan_exhausted [OF assms(2) w WIdle]
      by (auto simp: fan_step_def split: if_splits)
  next
    case (WBusy i pc)
    show ?thesis
    proof (cases "\<exists>ok. pc = SReturn ok")
      case True
      then obtain ok where pc: "pc = SReturn ok" by blast
      then have "t' = TFan items nxt (results[i := Some ok]) (ws[w := WIdle])"
        using assms(1) WBusy w by (auto simp: fan_step_def split: if_splits)
      then show ?thesis using fan_returned [OF assms(2) w] WBusy pc by simp
    next
      case False
      have busy: "fan_step env io s step items nxt results ws w ev = map_option (\<lambda>(s, x). case x of
            Inl e \<Rightarrow> (reject e s, Inr (TFan items nxt results (ws[w := WThrew])))
          | Inr pc' \<Rightarrow> (s, Inr (TFan items nxt results (ws[w := WBusy i pc']))))
          (slot_step env io s step i (Some (items ! i)) pc ev)"
        using WBusy w False by (cases pc) (auto simp: fan_step_def)
      then obtain s1 y where y: "slot_step env io s step i (Some (items ! i)) pc ev = Some (s1, y)"
        using assms(1) by (cases "slot_step env io s step i (Some (items ! i)) pc ev") auto
      show ?thesis
      proof (cases y)
        case (Inl e)
        then have "t' = TFan items nxt results (ws[w := WThrew])" using assms(1) busy y by simp
        then show ?thesis using fan_threw [OF assms(2) w] by simp
      next
        case (Inr pc')
        have "slot_bounded step pc" using fan_okD(4) [OF assms(2) w WBusy] by blast
        then have "slot_bounded step pc'" using slot_step_bounded y Inr by blast
        moreover have "t' = TFan items nxt results (ws[w := WBusy i pc'])" using assms(1) busy y Inr by simp
        ultimately show ?thesis using fan_stepped [OF assms(2) w WBusy] by simp
      qed
    qed
  qed (use assms w in \<open>simp_all add: fan_step_def\<close>)
qed

lemma task_slot_bounded:
  assumes "task_slot env io s step t w ev = Some (s', Inr t')" "task_bounded step t"
  shows "task_bounded step t'"
proof (cases t)
  case (TScalar pc)
  then obtain y where "slot_step env io s step 0 None pc ev = Some (s', y)"
    "Inr t' = (case y of Inl e \<Rightarrow> Inl e | Inr pc' \<Rightarrow> Inr (TScalar pc'))"
    using assms(1) by (auto simp: task_slot_def split: if_splits)
  then obtain pc' where "slot_step env io s step 0 None pc ev = Some (s', Inr pc')" "t' = TScalar pc'"
    by (cases y) auto
  then show ?thesis using slot_step_bounded assms(2) TScalar by simp
next
  case (TFan items nxt results ws)
  then show ?thesis using assms fan_step_bounded by (simp add: task_slot_def)
qed (use assms(1) in \<open>simp_all add: task_slot_def\<close>)

definition bounded_tasks :: "run_options \<Rightarrow> run_state \<Rightarrow> bool" where
  "bounded_tasks env s \<longleftrightarrow> (\<forall>sid t step. jm_get (rs_tasks s) sid = Some t \<longrightarrow> step_by_id (steps_of env) sid = Some step \<longrightarrow> task_bounded step t)"

lemma bounded_put:
  assumes b: "bounded_tasks env s" and st: "step_by_id (steps_of env) sid = Some step"
    and tasks: "rs_tasks s1 = rs_tasks s" and x: "\<And>t'. x = Inr t' \<Longrightarrow> task_bounded step t'"
  shows "bounded_tasks env (put_task sid (s1, x))"
proof -
  have "task_bounded step (task_after x)" using x by (cases x) (auto simp: task_after_def)
  then show ?thesis using b st tasks by (auto simp: bounded_tasks_def put_task_fields jm_get_set split: if_splits)
qed

lemma task_slot_tasks: "task_slot env io s step t w ev = Some (s1, x) \<Longrightarrow> rs_tasks s1 = rs_tasks s"
  by (erule task_slot_work) (auto simp: control_def reject_def split: if_splits)

lemma task_step_tasks: "task_step env io s step t = Some (s1, x) \<Longrightarrow> rs_tasks s1 = rs_tasks s"
  by (erule task_step_cases) (simp_all add: control_def markStepDone_def unremain_def)

lemma bounded_walk_step:
  assumes b: "bounded_tasks env s" and w: "walk_step env s (io, ev) = Some s'"
  shows "bounded_tasks env s'"
proof (cases ev)
  case EGeneration
  then have "s' = generation env io s" using w by (simp add: walk_step_def split: if_splits)
  moreover have "bounded_tasks env (settle_run env io s)" using b by (simp add: bounded_tasks_def settle_run_fields)
  moreover have "bounded_tasks env (s\<lparr>rs_tasks := map (\<lambda>sid. (sid, TStart)) ready\<rparr>)" for ready
    by (auto simp: bounded_tasks_def dest!: jm_get_in_set)
  ultimately show ?thesis by (simp add: generation_def Let_def)
next
  case (EStep sid)
  then have "with_task env s sid (task_step env io s) = Some s'" using w by (simp add: walk_step_def)
  then show ?thesis
  proof (rule with_task_cases)
    fix step t s1 x assume a: "step_by_id (steps_of env) sid = Some step" "task_step env io s step t = Some (s1, x)" "s' = put_task sid (s1, x)"
    show ?thesis unfolding a(3) by (rule bounded_put [OF b a(1) task_step_tasks [OF a(2)]]) (use a(2) task_step_bounded in blast)
  qed
next
  case (ESlot sid wk sev)
  then have "with_task env s sid (\<lambda>step t. task_slot env io s step t wk sev) = Some s'" using w by (simp add: walk_step_def)
  then show ?thesis
  proof (rule with_task_cases)
    fix step t s1 x assume a: "step_by_id (steps_of env) sid = Some step" "jm_get (rs_tasks s) sid = Some t"
      "task_slot env io s step t wk sev = Some (s1, x)" "s' = put_task sid (s1, x)"
    have "task_bounded step t" using b a(1,2) by (simp add: bounded_tasks_def)
    then show ?thesis unfolding a(4)
      by (intro bounded_put [OF b a(1) task_slot_tasks [OF a(3)]]) (use a(3) task_slot_bounded in blast)
  qed
next
  case (EGate sid g)
  then have "with_task env s sid (\<lambda>step t. task_gate env io s step t g) = Some s'" using w by (simp add: walk_step_def)
  then show ?thesis
  proof (rule with_task_cases)
    fix step t s1 x assume a: "step_by_id (steps_of env) sid = Some step" "task_gate env io s step t g = Some (s1, x)" "s' = put_task sid (s1, x)"
    obtain row where sg: "settle_gate env io s step row (gate_disposition step g) = (s1, x)"
      using a(2) by (cases t) (auto simp: task_gate_def)
    have "rs_tasks s1 = rs_tasks s" "\<And>t'. x = Inr t' \<Longrightarrow> task_bounded step t'"
      by (rule settle_gate_cases [OF sg]; simp add: control_def markStepDone_def)+
    then show ?thesis unfolding a(3) by (rule bounded_put [OF b a(1)])
  qed
qed (use b w in \<open>auto simp: walk_step_def bounded_tasks_def cancel_walk_def split: if_splits\<close>)

end
