(* ===== verification/Runner_Memo.thy ===== *)
theory Runner_Memo
  imports Runner_Calls
begin

text \<open>
  Reuse of journaled results (\<open>runOneAttempt\<close> and \<open>applyMemoHit\<close> of \<open>core/src/pipelines/runner.ts\<close>): a pass
  over a step whose input hash has a completed row in the journal is answered from the journal and the
  executor is not called; every other pass calls it once, under an attempt number the journal has not seen.
\<close>

section \<open>Reading the journal\<close>

lemma attemptFromSql_Inr: "attemptFromSql reg r = Inr r' \<Longrightarrow> r' = r"
  by (auto simp: attemptFromSql_def split: if_splits)

lemma decode_attempts_Inr: "decode_attempts reg rs = Inr rs' \<Longrightarrow> rs' = rs"
  by (induction rs arbitrary: rs') (auto simp: r_bind_Inr dest: attemptFromSql_Inr)

lemma foldl_max_ge: "a \<le> foldl (\<lambda>m r. max m (f r)) a xs \<and> (\<forall>x\<in>set xs. f x \<le> foldl (\<lambda>m r. max m (f r)) a xs)" for a :: int
proof (induction xs arbitrary: a)
  case (Cons x xs)
  show ?case using Cons.IH [of "max a (f x)"] by auto
qed simp

definition pass_rows :: "run_options \<Rightarrow> pipelines_db \<Rightarrow> string \<Rightarrow> nat \<Rightarrow> attempt_row list" where
  "pass_rows env db sid iteration = filter (\<lambda>r. sa_runId r = ro_runId env \<and> sa_stepId r = sid \<and> sa_iteration r = iteration)
     (jm_values (db_attempts db))"

lemma latest_bounds:
  assumes "latestAttemptNumber env s sid iteration = Inr n"
  shows "-1 \<le> n" "r \<in> set (pass_rows env (rs_store s) sid iteration) \<Longrightarrow> int (sa_attempt r) \<le> n"
proof -
  obtain rows where rows: "listByRun (ro_reg env) (rs_store s) (ro_runId env) = Inr rows"
    "n = foldl (\<lambda>m r. max m (int (sa_attempt r))) (-1) (filter (\<lambda>r. sa_stepId r = sid \<and> sa_iteration r = iteration) rows)"
    using assms by (auto simp: latestAttemptNumber_def r_bind_Inr)
  have "set rows = {r \<in> set (jm_values (db_attempts (rs_store s))). sa_runId r = ro_runId env}"
    using decode_attempts_Inr rows(1) unfolding listByRun_def by fastforce
  then show "-1 \<le> n" "r \<in> set (pass_rows env (rs_store s) sid iteration) \<Longrightarrow> int (sa_attempt r) \<le> n"
    using foldl_max_ge [of "-1" "\<lambda>r. int (sa_attempt r)" "filter (\<lambda>r. sa_stepId r = sid \<and> sa_iteration r = iteration) rows"] rows(2)
    by (auto simp: pass_rows_def)
qed

lemma latest_next:
  assumes "latestAttemptNumber env s sid iteration = Inr n" "r \<in> set (pass_rows env (rs_store s) sid iteration)"
  shows "sa_attempt r < nat (n + 1)"
  using latest_bounds [OF assms(1)] assms(2) by fastforce

lemma jm_values_set_subset: "set (jm_values (jm_set m k v)) \<subseteq> insert v (set (jm_values m))"
  by (induction m k v rule: jm_set.induct) (auto simp: jm_values_def)

lemma jm_values_set_mem: "v \<in> set (jm_values (jm_set m k v))"
  by (induction m k v rule: jm_set.induct) (simp_all add: jm_values_def)

lemma as_safe_num: "as_safe_nat (num n) = Some m \<Longrightarrow> m = n"
  by (auto simp: as_safe_nat_def num_def split: if_splits)

lemma nonNegInt_num: "nonNegInt (Some (num n)) = Inr x \<Longrightarrow> x = Some n"
  by (auto simp: nonNegInt_def r_bind_Inr of_option_Inr dest: as_safe_num)

lemma record_of_Inr:
  assumes "attempts_record (ro_reg env) db ts (attempt_of env io sid iteration attempt h st account) = Inr (db', r)"
  shows "r = new_attempt_row iteration attempt ts (attempt_of env io sid iteration attempt h st account)"
    "db' = db\<lparr>db_attempts := jm_set (db_attempts db) (io_id io) r\<rparr>" "attemptFromSql (ro_reg env) r = Inr r"
  using assms by (auto elim!: record_Inr simp: attempt_of_def dest!: nonNegInt_num)

section \<open>A hit and a miss\<close>

definition restored :: "string \<Rightarrow> attempt_row \<Rightarrow> (string, json) jmap \<Rightarrow> (string, json) jmap" where
  "restored sid memo outputs = (case sa_outputJson memo of
     None \<Rightarrow> outputs
   | Some t \<Rightarrow> (case JSON_parse t of Some v \<Rightarrow> jm_set outputs sid v | None \<Rightarrow> jm_delete outputs sid))"

lemma memo_hit_Inr:
  assumes "applyMemoHit env io s sid iteration memo (\<lambda>s. (s, Inr pc)) = (s', Inr pc')"
  obtains n r where "latestAttemptNumber env s sid iteration = Inr n" "pc' = pc"
    "attempts_record (ro_reg env) (rs_store s) (io_now io)
       (attempt_of env io sid iteration (nat (n + 1)) (sa_inputHash memo) SMemoized (sa_account memo)) = Inr (rs_store s', r)"
    "rs_stepOutputs s' = restored sid memo (rs_stepOutputs s)"
  using assms
  by (auto simp: applyMemoHit_def with_read_def journal_def with_store_def Let_def restored_def publishStep_def emit_def
      split: sum.splits option.splits prod.splits)

lemma attempt_head_Inr:
  assumes "attempt_head env io s step iteration l ctx a = (s', Inr pc)" "\<not> rs_cancelled s"
  obtains rowId where "pc = SExec l ctx a rowId False" "execs s' = execs s @ [request_of env step iteration ctx a]"
  using assms
  by (auto simp: attempt_head_def journal_def with_store_def Let_def publishStep_def split: sum.splits prod.splits)

definition reusable :: "run_options \<Rightarrow> run_state \<Rightarrow> pipeline_step \<Rightarrow> nat \<Rightarrow> string \<Rightarrow> attempt_row list" where
  "reusable env s step iteration h = (if step_id step \<in> set (ro_driftedSteps env) then []
     else memo_rows (rs_store s) (ro_runId env) (step_id step) iteration h)"

lemma memo_lookup_cases:
  assumes "memo_lookup env s step iteration h = Inr memo"
  obtains (none) "memo = None" "reusable env s step iteration h = []"
  | (newest) r where "memo = Some r" "r \<in> set (reusable env s step iteration h)"
      "\<And>r'. r' \<in> set (reusable env s step iteration h) \<Longrightarrow> newest_cmp r r' \<le> 0"
proof (cases "step_id step \<in> set (ro_driftedSteps env)")
  case False
  then have f: "findMemoized (ro_reg env) (rs_store s) (ro_runId env) (step_id step) iteration h = Inr memo"
    "reusable env s step iteration h = memo_rows (rs_store s) (ro_runId env) (step_id step) iteration h"
    using assms by (simp_all add: memo_lookup_def reusable_def)
  show ?thesis
  proof (cases rule: findMemoized_cases [of "ro_reg env" "rs_store s" "ro_runId env" "step_id step" iteration h])
    case none
    then show ?thesis using f that(1) by simp
  next
    case (newest r)
    then have "r_bind (attemptFromSql (ro_reg env) r) (\<lambda>r. Inr (Some r)) = Inr memo" using f(1) by simp
    then have "memo = Some r" by (auto simp: r_bind_Inr dest: attemptFromSql_Inr)
    then show ?thesis using newest f(2) that(2) by simp
  qed
qed (use assms in \<open>auto simp: memo_lookup_def reusable_def intro: none\<close>)

text \<open>What one entry into the loop of passes does, when the store refuses nothing.\<close>

lemma begin_attempt_Inr:
  assumes "begin_attempt env io s step iteration item l = (s', Inr pc)" "\<not> rs_cancelled s"
    and "resolveBackend (ro_reg env) step (ro_document env) (resolveAccount step (ro_document env)) = Some backend"
  obtains (hit) memo n r where "memo \<in> set (reusable env s step iteration (ax_inputHash (attempt_context env s step item backend)))"
      "\<And>r'. r' \<in> set (reusable env s step iteration (ax_inputHash (attempt_context env s step item backend))) \<Longrightarrow> newest_cmp memo r' \<le> 0"
      "latestAttemptNumber env s (step_id step) iteration = Inr n" "pc = SBack l True" "execs s' = execs s"
      "attempts_record (ro_reg env) (rs_store s) (io_now io)
         (attempt_of env io (step_id step) iteration (nat (n + 1)) (sa_inputHash memo) SMemoized (sa_account memo)) = Inr (rs_store s', r)"
      "rs_stepOutputs s' = restored (step_id step) memo (rs_stepOutputs s)"
  | (miss) n ctx rowId where "reusable env s step iteration (ax_inputHash (attempt_context env s step item backend)) = []"
      "latestAttemptNumber env s (step_id step) iteration = Inr n"
      "ctx = (attempt_context env s step item backend)\<lparr>ax_first := nat (n + 1)\<rparr>"
      "pc = SExec l ctx (nat (n + 1)) rowId False" "execs s' = execs s @ [request_of env step iteration ctx (nat (n + 1))]"
proof -
  let ?ctx = "attempt_context env s step item backend"
  let ?h = "ax_inputHash ?ctx"
  obtain memo where memo: "memo_lookup env s step iteration ?h = Inr memo"
    using assms(1,3) by (auto simp: begin_attempt_def Let_def with_read_def split: sum.splits)
  from memo show ?thesis
  proof (cases rule: memo_lookup_cases)
    case none
    then obtain n where n: "latestAttemptNumber env s (step_id step) iteration = Inr n"
      "attempt_head env io s step iteration l (?ctx\<lparr>ax_first := nat (n + 1)\<rparr>) (nat (n + 1)) = (s', Inr pc)"
      using assms(1,3) memo by (auto simp: begin_attempt_def Let_def with_read_def split: sum.splits)
    from attempt_head_Inr [OF n(2) assms(2)] show ?thesis using miss [OF none(2) n(1) refl] by blast
  next
    case (newest r)
    then have h: "applyMemoHit env io s (step_id step) iteration r (\<lambda>s. (s, Inr (SBack l True))) = (s', Inr pc)"
      using assms(1,3) memo by (simp add: begin_attempt_def Let_def with_read_def)
    have "execs s' = execs s" using memo_hit_calls [of env io s "step_id step" iteration r "Inr (SBack l True)"] h by simp
    then show ?thesis using memo_hit_Inr [OF h] hit [OF newest(2,3)] by metis
  qed
qed

section \<open>What a second resumption finds\<close>

lemma record_slot_taken:
  assumes "attempts_record reg db ts inp = Inr (db', r)" "r' \<in> set (jm_values (db_attempts db))"
  shows "slot_of r' \<noteq> slot_of r"
  using assms(1) by (rule record_Inr) (use assms(2) in \<open>auto simp: attempt_constraints_def list_ex_iff\<close>)

text \<open>The row journaled by a hit carries no output, and it is the newest: the next lookup for the same pass
  finds it, so a run that is resumed a second time restores no output for the step.\<close>

theorem memo_hit_drops_output:
  assumes active: "loopIdx < maxLoops step" "\<not> rs_cancelled s" "\<not> rs_paused s"
    and backend: "resolveBackend (ro_reg env) step (ro_document env) (resolveAccount step (ro_document env)) = Some backend"
    and hash: "h = ax_inputHash (attempt_context env s step item backend)" "k = effectiveIteration step iteration loopIdx"
    and slot: "slot_step env io s step iteration item (SLoop loopIdx lastOk) Continue = Some (s', Inr pc)"
    and hit: "reusable env s step k h \<noteq> []"
  shows "\<exists>r. findMemoized (ro_reg env) (rs_store s') (ro_runId env) (step_id step) k h = Inr (Some r) \<and> sa_outputJson r = None"
proof -
  have b: "begin_attempt env io s step k item loopIdx = (s', Inr pc)" using slot active hash(2) by simp
  from b active(2) backend show ?thesis
  proof (cases rule: begin_attempt_Inr)
    case (hit memo n r)
    let ?rows = "memo_rows (rs_store s') (ro_runId env) (step_id step) k h"
    have mh: "sa_inputHash memo = h" using hit(1) hash(1) by (auto simp: reusable_def memo_rows_def split: if_splits)
    note na = record_of_Inr [OF hit(6)]
    have r: "sa_runId r = ro_runId env" "sa_stepId r = step_id step" "sa_iteration r = k" "sa_inputHash r = h" "sa_status r = SMemoized"
      "sa_attempt r = nat (n + 1)" "sa_outputJson r = None"
      using na(1) mh by (simp_all add: new_attempt_row_def attempt_of_def Let_def)
    have vals: "set (jm_values (db_attempts (rs_store s'))) \<subseteq> insert r (set (jm_values (db_attempts (rs_store s))))"
      "r \<in> set (jm_values (db_attempts (rs_store s')))"
      using na(2) by (auto simp: jm_values_set_mem dest!: subsetD [OF jm_values_set_subset])
    have rin: "r \<in> set ?rows" using vals(2) r by (simp add: memo_rows_def COMPLETED_STATES_def)
    show ?thesis
    proof (cases rule: findMemoized_cases [of "ro_reg env" "rs_store s'" "ro_runId env" "step_id step" k h])
      case none
      then show ?thesis using rin by simp
    next
      case (newest r1)
      have "sa_attempt r \<le> sa_attempt r1"
        using newest(2) [OF rin] by (auto simp: newest_cmp_def then_cmp_def int_cmp_def split: if_splits)
      moreover have "sa_attempt r1 < sa_attempt r" if "r1 \<noteq> r"
      proof -
        have "r1 \<in> set (pass_rows env (rs_store s) (step_id step) k)"
          using newest(1) vals(1) that by (auto simp: memo_rows_def pass_rows_def)
        then show ?thesis using latest_next [OF hit(3)] r(6) by simp
      qed
      ultimately have "r1 = r" by fastforce
      then show ?thesis using newest(3) na(3) r(7) by simp
    qed
  qed (use hit hash in simp)
qed

text \<open>An approval step always journals its attempt as number 0, so a run in which the step was already
  journaled cannot be resumed: the insert is refused and the walk rejects.\<close>

theorem gate_not_resumable:
  assumes "r \<in> set (jm_values (db_attempts (rs_store s)))" "slot_of r = (ro_runId env, step_id step, 0, 0)"
  shows "\<exists>s' e. runGate env io s step = (s', Inl (StoreError e))"
proof -
  let ?inp = "attempt_of env io (step_id step) 0 0 (''gate:'' @ step_id step) SAwaitingApproval (Some (gate_account env))"
  have "\<exists>e. attempts_record (ro_reg env) (rs_store s) (io_now io) ?inp = Inl e"
  proof (cases "attempts_record (ro_reg env) (rs_store s) (io_now io) ?inp")
    case (Inr x)
    obtain db' r1 where x: "attempts_record (ro_reg env) (rs_store s) (io_now io) ?inp = Inr (db', r1)" using Inr by (cases x) auto
    have "slot_of r1 = (ro_runId env, step_id step, 0, 0)"
      using record_of_Inr(1) [OF x] by (simp add: attempt_of_def new_attempt_row_def slot_of_def Let_def)
    then show ?thesis using record_slot_taken [OF x assms(1)] assms(2) by simp
  qed simp
  then show ?thesis by (auto simp: runGate_def Let_def journal_def with_store_def publishStep_def emit_def)
qed

end
