(* ===== verification/Runner_Properties.thy ===== *)
theory Runner_Properties
  imports Runner_Bounds Runner_Memo Dag_Roundtrip
begin

text \<open>
  The properties of the pipeline walk, for every validated document, every journal it starts from and every
  interleaving of its calls: it ends, it can always be continued to its end, an undisturbed end has settled
  every step, the executor is called only when the needs allow it, a memoized pass is not executed again, and
  a fan-out hands out every item once with a bounded number of calls in flight.
\<close>

section \<open>Invariants of a walk\<close>

locale walk_invariant =
  fixes env :: run_options and I :: "run_state \<Rightarrow> bool"
  assumes I_init: "I (walk_init env db now)"
    and I_step: "I s \<Longrightarrow> walk_step env s e = Some s' \<Longrightarrow> I s'"
begin

lemma I_run: "I s \<Longrightarrow> walk_run env s es = Some s' \<Longrightarrow> I s'"
  by (induction es arbitrary: s) (auto simp: bind_eq_Some_conv intro: I_step)

lemma reachable: "walk_run env (walk_init env db now) es = Some s \<Longrightarrow> I s"
  by (rule I_run [OF I_init])

end

definition walk_ok :: "run_options \<Rightarrow> run_state \<Rightarrow> bool" where
  "walk_ok env s \<longleftrightarrow> placed env s \<and> called_ok env s \<and> bounded_tasks env s
     \<and> (closed_graph (steps_of env) \<longrightarrow> acyclic (needs_rel (steps_of env)) \<longrightarrow> settled_ok env s)"

interpretation wk: walk_invariant env "walk_ok env" for env
proof unfold_locales
  fix db now
  let ?s = "walk_init env db now"
  have "rs_tasks ?s = []" "execs ?s = []" "\<nexists>oc. rs_phase ?s = Settled oc"
    by (simp_all add: walk_init_def publishRun_def emit_def execs_def exec_of_def Let_def List.map_filter_simps split: sum.splits)
  then show "walk_ok env ?s"
    by (simp add: walk_ok_def placed_init called_ok_def bounded_tasks_def settled_ok_def jm_get_def)
next
  fix s e s' assume "walk_ok env s" "walk_step env s e = Some s'"
  then show "walk_ok env s'"
    unfolding walk_ok_def by (cases e) (blast intro: placed_walk_step called_walk_step bounded_walk_step settled_walk_step)
qed

lemma validated_graph:
  assumes "validateDagDocument reg v = Inr (ro_document env)"
  shows "closed_graph (steps_of env)" "acyclic (needs_rel (steps_of env))" "distinct (map step_id (steps_of env))"
  using document_ok [OF assms] ok_steps_closed by (auto simp: ok_document_def ok_shape_def)

lemma walk_run_append: "walk_run env s (es @ es') = Option.bind (walk_run env s es) (\<lambda>s. walk_run env s es')"
  by (induction es arbitrary: s) (auto split: bind_split)

section \<open>Termination and liveness\<close>

lemma walk_relation_wf: "wf {(s', s). \<exists>e. walk_step env s e = Some s'}"
proof (rule wf_subset)
  show "wf (walk_order env)" by (simp add: walk_order_def)
  show "{(s', s). \<exists>e. walk_step env s e = Some s'} \<subseteq> walk_order env" using walk_step_decreases by blast
qed

lemma walk_continues:
  assumes "walk_ok env s" "distinct (map step_id (steps_of env))"
  shows "\<exists>es s'. walk_run env s es = Some s' \<and> rs_phase s' \<noteq> Walking \<and> list_all (\<lambda>e. program_event (snd e)) es"
  using walk_relation_wf [of env] assms(1)
proof (induction s rule: wf_induct_rule)
  case (less s)
  show ?case
  proof (cases "rs_phase s = Walking")
    case True
    obtain io :: resumption and ev s1 where st: "walk_step env s (io, ev) = Some s1" "program_event ev"
      using walk_progress [OF _ assms(2) True] less.prems unfolding walk_ok_def by blast
    have "walk_ok env s1" using wk.I_step [OF less.prems st(1)] .
    moreover have "(s1, s) \<in> {(s', s). \<exists>e. walk_step env s e = Some s'}" using st(1) by blast
    ultimately obtain es s' where "walk_run env s1 es = Some s'" "rs_phase s' \<noteq> Walking" "list_all (\<lambda>e. program_event (snd e)) es"
      using less.IH by blast
    then show ?thesis using st by (intro exI [of _ "(io, ev) # es"]) simp
  qed (auto intro: exI [of _ "[]"])
qed

text \<open>Claim C18: every walk ends. There is no infinite sequence of resumptions, in whatever order the steps,
  iterations and retries in flight are resumed, whatever the executor, the approval gate and the wall-clock
  timers answer, and whenever the run is paused or cancelled.\<close>

theorem walk_terminates:
  "wf {(s', s). \<exists>e. walk_step env s e = Some s'}"
  by (rule walk_relation_wf)

text \<open>Claim C20: a walk is never stuck and its end is what it says. Take any state that a walk of a validated
  document reaches. It can be continued, by the program's own continuations and answers of the executor and
  the gate alone, to a state where the walk has ended. And if it has settled, its outcome is the one its
  flags and dispositions dictate, the run row in the store has the corresponding status, and unless the run
  was paused or cancelled every step of the document has its disposition.\<close>

theorem walk_settles:
  assumes doc: "validateDagDocument reg v = Inr (ro_document env)"
    and run: "walk_run env (walk_init env db now) es = Some s"
  shows "(\<exists>es' s'. walk_run env s es' = Some s' \<and> rs_phase s' \<noteq> Walking \<and> list_all (\<lambda>e. program_event (snd e)) es')
    \<and> (\<forall>oc. rs_phase s = Settled oc \<longrightarrow> oc = outcome_of s
      \<and> (\<exists>row. jm_get (db_runs (rs_store s)) (ro_runId env) = Some row \<and> pr_status row = run_state_of oc)
      \<and> (\<not> rs_cancelled s \<longrightarrow> \<not> rs_paused s \<longrightarrow>
           (\<forall>step\<in>set (dg_steps (ro_document env)). jm_get (rs_disposition s) (step_id step) \<noteq> None)))"
proof -
  have ok: "walk_ok env s" by (rule wk.reachable [OF run])
  note g = validated_graph [OF doc]
  have "\<exists>es' s'. walk_run env s es' = Some s' \<and> rs_phase s' \<noteq> Walking \<and> list_all (\<lambda>e. program_event (snd e)) es'"
    by (rule walk_continues [OF ok g(3)])
  moreover have "settled_ok env s" using ok g(1,2) by (simp add: walk_ok_def)
  ultimately show ?thesis by (auto simp: settled_ok_def ids_def)
qed

text \<open>The accepted document of the validator's own example, with nothing wired.\<close>

definition sample_run :: run_options where
  "sample_run = \<lparr>ro_reg = initial_registry, ro_sha256 = (\<lambda>s. s), ro_dec = (\<lambda>_. []), ro_runId = ''run'', ro_pipelineId = ''wf'',
     ro_document = sample_document [''a''], ro_schemaHash = ''h'', ro_inputs = None, ro_workspace = None, ro_workstreamId = None,
     ro_pins = [], ro_driftedSteps = [], ro_gate = False, ro_lineageCost = False, ro_pauseAborted = False, ro_cancelAborted = False\<rparr>"

definition sample_db :: pipelines_db where
  "sample_db = \<lparr>db_definitions = [], db_runs = [(''run'', \<lparr>pr_id = ''run'', pr_pipelineId = ''wf'', pr_schemaHash = ''h'',
     pr_inputsJson = None, pr_workstreamId = None, pr_status = RPending, pr_costEstimatedUsd = None, pr_startedAtMs = None,
     pr_finishedAtMs = None, pr_createdAtMs = 1, pr_updatedAtMs = 1\<rparr>)], db_attempts = []\<rparr>"

definition tick :: "nat \<Rightarrow> string \<Rightarrow> resumption" where
  "tick n i = \<lparr>io_now = n, io_id = i, io_node = None\<rparr>"

definition sample_events :: "(resumption \<times> walk_event) list" where
  "sample_events = [(tick 3 [], EGeneration), (tick 4 ''sa1'', EStep ''a''), (tick 5 [], EGeneration),
     (tick 6 ''sa2'', EStep ''b''), (tick 7 [], EGeneration)]"

lemmas run_eval = walk_step_def with_task_def task_step_def runStep_def runGate_def settle_gate_def journal_def with_store_def
  generation_def needsSatisfied_def skipByUpstream_def need_blocks_def when_false_def is_approval_def markStepDone_def
  put_task_def set_task_def publishStep_def publishRun_def emit_def recordSkip_def settle_run_def outcome_of_def run_state_of_def
  attempt_of_def gate_account_def default_of_def gate_patch_def gate_state_def completed_row_def or_else_def
  step_by_id_def step_ids_def step_needs_def jm_keys_def js_set_delete_def tick_def walk_init_def
  attempts_record_def attempts_complete_def runs_setStatus_def requireNonBlankId_def nonNegInt_def nonNegCost_def
  getRun_def getAttempt_def attemptFromSql_def of_option_def is_blank_iff js_ws_def jm_get_def jm_has_def jm_values_def
  new_attempt_row_def attempt_constraints_def slot_of_def Let_def isAccountLabel_def isClaudeAccountLabel_def is_upper_def max_safe_nat_def

lemma as_safe_0: "as_safe_nat (num 0) = Some 0"
  by (rule as_safe_nat_num) simp

lemma as_safe_numeral: "numeral k \<le> max_safe_nat \<Longrightarrow> as_safe_nat (num (numeral k)) = Some (numeral k)"
  by (rule as_safe_nat_num)

lemma sample_walk:
  "\<exists>s. walk_run sample_run (walk_init sample_run sample_db 2) sample_events = Some s \<and> rs_phase s = Settled OFailed
    \<and> rs_disposition s = [(''a'', Completed), (''b'', Failed)] \<and> \<not> rs_paused s \<and> \<not> rs_cancelled s"
  by (simp add: sample_events_def run_eval as_safe_0 as_safe_numeral sample_run_def sample_db_def sample_document_def sample_control_def)

theorem walk_settles_witness:
  "\<exists>s row. walk_run sample_run (walk_init sample_run sample_db 2) sample_events = Some s
    \<and> jm_get (db_runs (rs_store s)) ''run'' = Some row \<and> pr_status row = RFailed \<and> outcome_of s = OFailed"
proof -
  have d: "validateDagDocument initial_registry (document_json (sample_document [''a''])) = Inr (ro_document sample_run)"
    using sample_accepted by (simp add: sample_run_def)
  obtain s where s: "walk_run sample_run (walk_init sample_run sample_db 2) sample_events = Some s" "rs_phase s = Settled OFailed"
    using sample_walk by blast
  have "outcome_of s = OFailed \<and> (\<exists>row. jm_get (db_runs (rs_store s)) (ro_runId sample_run) = Some row \<and> pr_status row = run_state_of OFailed)"
    using walk_settles [OF d s(1)] s(2) by simp
  then show ?thesis using s(1) by (auto simp: sample_run_def run_state_of_def)
qed

section \<open>Calls\<close>

lemma length_concat_le: "(\<And>x. length (f x) \<le> 1) \<Longrightarrow> length (concat (map f xs)) \<le> length xs"
proof (induction xs)
  case (Cons x xs)
  then show ?case using add_mono [of "length (f x)" 1 "length (concat (map f xs))" "length xs"] by simp
qed simp

text \<open>A fan-out behind an approval: the step \<open>b\<close> runs once per element of an input, two at a time.\<close>

definition fan_exec :: exec_common where
  "fan_exec = \<lparr>ec_account = None, ec_backend = None, ec_cwd = None, ec_permissionMode = None, ec_budget = None,
     ec_retry = None, ec_outputSchema = None, ec_onError = None\<rparr>"

definition fan_document :: dag_document where
  "fan_document = \<lparr>dg_id = ''wf_1'', dg_name = ''build'', dg_description = None, dg_defaults = None, dg_inputs = None,
     dg_steps = [ApprovalStep ''a'' sample_control None (Some 60) (Some ''continue''),
                 PromptStep ''b'' (sample_control\<lparr>sc_needs := Some [''a''], sc_forEach := Some ''inputs.xs'', sc_maxParallel := Some 2\<rparr>)
                   fan_exec ''go'']\<rparr>"

definition fan_run :: run_options where
  "fan_run = sample_run\<lparr>ro_pipelineId := ''wf_1'', ro_document := fan_document, ro_schemaHash := ''sha256:h'', ro_sha256 := (\<lambda>_. ''h''),
     ro_inputs := Some [(''xs'', JArr [JStr ''p'', JStr ''q'', JStr ''r''])]\<rparr>"

definition fan_events :: "(resumption \<times> walk_event) list" where
  "fan_events = [(tick 3 [], EGeneration), (tick 4 ''sa1'', EStep ''a''), (tick 5 [], EGeneration), (tick 6 [], EStep ''b''),
     (tick 7 [], ESlot ''b'' 0 Continue), (tick 8 ''sa2'', ESlot ''b'' 0 Continue)]"

lemma fan_shape: "ok_shape initial_registry fan_document"
  by (auto simp: ok_shape_def ok_exec_def ok_routing_def fan_document_def fan_exec_def sample_control_def clean_name_def ok_step_def ok_control_def
      DAG_ID_RE_def STEP_ID_RE_def id_char_def EMAIL_RE_def email_local_char_def TWELVE_DIGIT_RE_def is_alpha_def
      is_digit_def ON_ERROR_POLICIES_def upt_rec max_safe_nat_def)

lemma fan_accepted: "validateDagDocument initial_registry (document_json fan_document) = Inr fan_document"
proof -
  have "findCycle (dg_steps fan_document) = None"
    by (simp add: fan_document_def sample_control_def) code_simp
  then have "acyclic (needs_rel (dg_steps fan_document))"
    using findCycle_None_iff ok_steps_closed fan_shape by (auto simp: ok_shape_def)
  then show ?thesis using shape_back [OF fan_shape] by simp
qed

lemmas slot_eval = begin_attempt_def attempt_context_def memo_lookup_def findMemoized_def memo_rows_def latestAttemptNumber_def
  listByRun_def decode_attempts_def attempt_head_def request_of_def exec_field_def first_of_def resolveBackend_def resolveAccount_def
  resolveCwd_def mapWireBackend_def accountStepBackendsFor_def baseScope_def computeInputHash_def inputs_identity_def
  with_read_def task_slot_def fan_step_def effectiveIteration_def maxLoops_def maxParallel_def

lemma fan_items: "resolveArray ''inputs.xs'' \<lparr>ts_workspace = w, ts_inputs = [(''xs'', JArr vs)], ts_steps = st, ts_item = it\<rparr> = vs"
  by (simp add: resolveArray_def stripSingleExpr_def resolveExpression_def js_trim_def js_ws_def Let_def)

lemma fan_walk:
  "\<exists>s ctx. walk_run fan_run (walk_init fan_run \<lparr>db_definitions = ds, db_runs = [(''run'', r)], db_attempts = []\<rparr> 2) fan_events = Some s \<and> rs_disposition s = [(''a'', Completed)]
    \<and> rs_tasks s = [(''b'', TFan [JStr ''p'', JStr ''q'', JStr ''r''] 1 [None, None, None] [WBusy 0 (SExec 0 ctx 0 ''sa2'' False), WIdle])]
    \<and> Execute (request_of fan_run (dg_steps fan_document ! 1) 0 ctx 0) \<in> set (rs_log s)"
  by (simp add: fan_events_def run_eval slot_eval fan_items js_sort_def as_safe_0 as_safe_numeral sample_run_def fan_run_def fan_document_def fan_exec_def sample_control_def)

text \<open>Claim C13: the needs of a step guard its executor. In every state a walk reaches, each call that was made
  on the executor is for a step of the document all of whose needs have completed, or have failed and declare
  \<open>onError: continue\<close>. A disposition, once given, is never changed by the rest of the walk.\<close>

theorem calls_respect_needs:
  assumes doc: "validateDagDocument reg v = Inr (ro_document env)"
    and run: "walk_run env (walk_init env db now) es = Some s" and call: "Execute req \<in> set (rs_log s)"
  shows "\<exists>step. step_by_id (dg_steps (ro_document env)) (eq_stepId req) = Some step
    \<and> (\<forall>n\<in>set (step_needs step). jm_get (rs_disposition s) n = Some Completed
        \<or> (jm_get (rs_disposition s) n = Some Failed
           \<and> (\<exists>need. step_by_id (dg_steps (ro_document env)) n = Some need \<and> exec_field ec_onError need = Some ''continue'')))
    \<and> (\<forall>es' s' k d. walk_run env s es' = Some s' \<longrightarrow> jm_get (rs_disposition s) k = Some d \<longrightarrow> jm_get (rs_disposition s') k = Some d)"
proof -
  have ok: "walk_ok env s" by (rule wk.reachable [OF run])
  have r: "open_needs env s (eq_stepId req)" "eq_stepId req \<in> ids env"
    using ok call by (auto simp: walk_ok_def called_ok_def execs_iff)
  have "eq_stepId req \<in> set (map step_id (steps_of env))" using r(2) by (simp add: ids_def)
  then obtain step where step: "step_by_id (steps_of env) (eq_stepId req) = Some step"
    using step_by_id_None [OF validated_graph(3) [OF doc]] by (cases "step_by_id (steps_of env) (eq_stepId req)") auto
  have "\<not> need_blocks env s n" if "n \<in> set (step_needs step)" for n
    using r(1) step that by (auto simp: open_needs_def skipByUpstream_def list_ex_iff)
  then have "\<forall>n\<in>set (step_needs step). jm_get (rs_disposition s) n = Some Completed
        \<or> (jm_get (rs_disposition s) n = Some Failed
           \<and> (\<exists>need. step_by_id (steps_of env) n = Some need \<and> exec_field ec_onError need = Some ''continue''))"
    by (fastforce simp: need_blocks_def split: option.splits disposition.splits)
  moreover have "jm_get (rs_disposition s') k = Some d"
    if "walk_run env s es' = Some s'" "jm_get (rs_disposition s) k = Some d" for es' s' k d
    using that ok
  proof (induction es' arbitrary: s)
    case (Cons e es')
    then obtain s1 where s1: "walk_step env s e = Some s1" "walk_run env s1 es' = Some s'" by (auto simp: bind_eq_Some_conv)
    have "placed env s" using Cons.prems(3) by (simp add: walk_ok_def)
    then show ?case using Cons.IH [OF s1(2)] disposition_final s1(1) Cons.prems(2) wk.I_step [OF Cons.prems(3) s1(1)] by blast
  qed simp
  ultimately show ?thesis using step by blast
qed

theorem calls_respect_needs_witness:
  "\<exists>s req step. walk_run fan_run (walk_init fan_run sample_db 2) fan_events = Some s \<and> Execute req \<in> set (rs_log s)
    \<and> step_by_id (dg_steps fan_document) (eq_stepId req) = Some step \<and> step_needs step = [''a'']
    \<and> (\<forall>n\<in>set (step_needs step). jm_get (rs_disposition s) n = Some Completed)"
proof -
  have d: "validateDagDocument initial_registry (document_json fan_document) = Inr (ro_document fan_run)"
    using fan_accepted by (simp add: fan_run_def)
  obtain s ctx where s: "walk_run fan_run (walk_init fan_run sample_db 2) fan_events = Some s" "rs_disposition s = [(''a'', Completed)]"
    "Execute (request_of fan_run (dg_steps fan_document ! 1) 0 ctx 0) \<in> set (rs_log s)" using fan_walk unfolding sample_db_def by blast
  let ?req = "request_of fan_run (dg_steps fan_document ! 1) 0 ctx 0"
  obtain step where st: "step_by_id (dg_steps fan_document) (eq_stepId ?req) = Some step"
    "\<forall>n\<in>set (step_needs step). jm_get (rs_disposition s) n = Some Completed \<or> jm_get (rs_disposition s) n = Some Failed"
    using calls_respect_needs [OF d s(1,3)] by (auto simp: fan_run_def)
  have "step_needs step = [''a'']"
    using st(1) by (auto simp: request_of_def step_by_id_def jm_get_def fan_document_def step_needs_def sample_control_def)
  then show ?thesis using s st by (intro exI [of _ s] exI [of _ ?req] exI [of _ step]) (simp add: jm_get_def)
qed

text \<open>Claim C23: fan-out is bounded and complete. In every state a walk reaches, a step that fans out over a
  list has at most \<open>maxParallel\<close>, and never more than 16, calls outstanding; no two of its workers hold the
  same index; each outstanding call's attempt number is within the retry budget counted from the first
  attempt of its pass; and once all its workers are done every item has its result, so the step completes
  exactly when every item succeeded.\<close>

theorem fan_out_exact:
  assumes run: "walk_run env (walk_init env db now) es = Some s"
    and step: "step_by_id (dg_steps (ro_document env)) sid = Some step"
    and task: "jm_get (rs_tasks s) sid = Some (TFan items nxt results ws)"
  shows "length (task_keys env (sid, TFan items nxt results ws)) \<le> maxParallel step \<and> maxParallel step \<le> 16
    \<and> (\<forall>w<length ws. \<forall>w'<length ws. \<forall>i pc pc'. ws ! w = WBusy i pc \<longrightarrow> ws ! w' = WBusy i pc' \<longrightarrow> w = w')
    \<and> (\<forall>i l ctx a row b. WBusy i (SExec l ctx a row b) \<in> set ws \<longrightarrow> ax_first ctx \<le> a \<and> a < ax_first ctx + maxAttempts step)
    \<and> (list_all (\<lambda>w. w = WDone) ws \<longrightarrow> length results = length items \<and> (\<forall>i<length items. results ! i \<noteq> None))"
proof -
  have "bounded_tasks env s" using wk.reachable [OF run] by (simp add: walk_ok_def)
  then have f: "fan_ok step items nxt results ws" using step task by (force simp: bounded_tasks_def)
  note d = fan_okD [OF f]
  have one: "length (case w of WBusy i pc \<Rightarrow> slot_key step i pc | _ \<Rightarrow> []) \<le> 1" for w
    by (auto simp: slot_key_def split: worker.split slot_pc.split)
  have "length (concat (map (\<lambda>w. case w of WBusy i pc \<Rightarrow> slot_key step i pc | _ \<Rightarrow> []) ws)) \<le> length ws"
    by (rule length_concat_le) (rule one)
  then have "length (task_keys env (sid, TFan items nxt results ws)) \<le> maxParallel step"
    using step d(2) by (simp add: task_keys_def)
  moreover have "ax_first ctx \<le> a \<and> a < ax_first ctx + maxAttempts step" if "WBusy i (SExec l ctx a row b) \<in> set ws" for i l ctx a row b
    using that d(4) by (fastforce simp: in_set_conv_nth)
  moreover have "results ! i \<noteq> None" if all: "list_all (\<lambda>w. w = WDone) ws" and i: "i < length items" for i
  proof -
    have "0 < min (maxParallel step) (length items)" using d(1) maxParallel_bounds(1) [of step] by (cases items) auto
    then have "0 < length ws" using d(2) by simp
    then have "ws \<noteq> []" by simp
    then have "WDone \<in> set ws" using all by (cases ws) auto
    then have "i < nxt" using d(8) i by simp
    moreover have "WThrew \<notin> set ws" "\<nexists>w pc. w < length ws \<and> ws ! w = WBusy i pc"
      using all by (auto simp: list_all_length in_set_conv_nth)
    ultimately show ?thesis using d(7) [OF _ i] by blast
  qed
  ultimately show ?thesis using maxParallel_bounds(2) d(3,5) by blast
qed

theorem fan_out_exact_witness:
  "\<exists>s items nxt results ws. walk_run fan_run (walk_init fan_run sample_db 2) fan_events = Some s
    \<and> jm_get (rs_tasks s) ''b'' = Some (TFan items nxt results ws) \<and> length items = 3
    \<and> length (task_keys fan_run (''b'', TFan items nxt results ws)) \<le> 2"
proof -
  let ?step = "dg_steps fan_document ! 1"
  obtain s ctx where s: "walk_run fan_run (walk_init fan_run sample_db 2) fan_events = Some s"
    "rs_tasks s = [(''b'', TFan [JStr ''p'', JStr ''q'', JStr ''r''] 1 [None, None, None] [WBusy 0 (SExec 0 ctx 0 ''sa2'' False), WIdle])]"
    using fan_walk unfolding sample_db_def by blast
  have st: "step_by_id (dg_steps (ro_document fan_run)) ''b'' = Some ?step" "maxParallel ?step = 2"
    by (simp_all add: fan_run_def fan_document_def step_by_id_def jm_get_def maxParallel_def)
  have t: "jm_get (rs_tasks s) ''b'' = Some (TFan [JStr ''p'', JStr ''q'', JStr ''r''] 1 [None, None, None] [WBusy 0 (SExec 0 ctx 0 ''sa2'' False), WIdle])"
    using s(2) by (simp add: jm_get_def)
  show ?thesis using fan_out_exact [OF s(1) st(1) t] s(1) t st(2) by (metis (no_types, lifting) length_Cons list.size(3) numeral_3_eq_3)
qed

section \<open>Reuse\<close>

text \<open>Claim C15: memoization is exact. Take a pass that is about to start in a run that is neither paused nor
  cancelled, and suppose the store refuses nothing. If the journal has a completed attempt of this run, step
  and iteration with the same input hash, and the step is not marked as drifted, then the executor is not
  called, the pass succeeds, the output of the newest such attempt is restored, and a new \<open>memoized\<close> row is
  journaled. Otherwise the executor is called exactly once, with an attempt number larger than that of every
  journaled attempt of this step and iteration.\<close>

theorem memo_exact:
  assumes active: "loopIdx < maxLoops step" "\<not> rs_cancelled s" "\<not> rs_paused s"
    and backend: "resolveBackend (ro_reg env) step (ro_document env) (resolveAccount step (ro_document env)) = Some backend"
    and hash: "h = ax_inputHash (attempt_context env s step item backend)" "k = effectiveIteration step iteration loopIdx"
    and slot: "slot_step env io s step iteration item (SLoop loopIdx lastOk) Continue = Some (s', Inr pc)"
  shows "(reusable env s step k h \<noteq> [] \<longrightarrow> pc = SBack loopIdx True \<and> execs s' = execs s
      \<and> (\<exists>memo\<in>set (reusable env s step k h). (\<forall>r\<in>set (reusable env s step k h). newest_cmp memo r \<le> 0)
          \<and> rs_stepOutputs s' = restored (step_id step) memo (rs_stepOutputs s))
      \<and> (\<exists>r. jm_get (db_attempts (rs_store s')) (io_id io) = Some r \<and> sa_status r = SMemoized \<and> sa_inputHash r = h))
    \<and> (reusable env s step k h = [] \<longrightarrow> (\<exists>ctx a rowId. pc = SExec loopIdx ctx a rowId False \<and> ax_inputHash ctx = h
        \<and> execs s' = execs s @ [request_of env step k ctx a]
        \<and> (\<forall>r\<in>set (pass_rows env (rs_store s) (step_id step) k). sa_attempt r < a)))"
proof -
  have b: "begin_attempt env io s step k item loopIdx = (s', Inr pc)" using slot active hash(2) by simp
  from b active(2) backend show ?thesis
  proof (cases rule: begin_attempt_Inr)
    case (hit memo n r)
    have m: "memo \<in> set (reusable env s step k h)" "\<forall>r\<in>set (reusable env s step k h). newest_cmp memo r \<le> 0"
      using hit(1,2) hash(1) by auto
    then have "sa_inputHash memo = h" by (auto simp: reusable_def memo_rows_def split: if_splits)
    moreover have "jm_get (db_attempts (rs_store s')) (io_id io) = Some r \<and> sa_status r = SMemoized \<and> sa_inputHash r = sa_inputHash memo"
      using hit(6) by (rule record_Inr) (auto simp: attempt_of_def new_attempt_row_def Let_def jm_get_set)
    moreover have "reusable env s step k h \<noteq> []" using m(1) by auto
    ultimately show ?thesis using m hit(4,5,7) by blast
  next
    case (miss n ctx rowId)
    have "ax_inputHash ctx = h" "reusable env s step k h = []" using miss(1,3) hash(1) by simp_all
    then show ?thesis using miss(4,5) latest_next [OF miss(2)] by blast
  qed
qed

text \<open>The journal of an earlier walk that completed the first element of the fan-out.\<close>

definition memo_row :: attempt_row where
  "memo_row = \<lparr>sa_id = ''sa0'', sa_runId = ''run'', sa_stepId = ''b'', sa_iteration = 0, sa_attempt = 0, sa_inputHash = ''sha256:h'',
     sa_status = SCompleted, sa_sessionId = None, sa_account = Some ''MAX_A'', sa_outputJson = Some (JSON_stringify (JStr ''out'')),
     sa_costEstimatedUsd = None, sa_tokensIn = None, sa_tokensOut = None, sa_errorKind = None, sa_startedAtMs = None,
     sa_finishedAtMs = None, sa_createdAtMs = 1\<rparr>"

definition memo_state :: run_state where
  "memo_state = walk_init fan_run (sample_db\<lparr>db_attempts := [(''sa0'', memo_row)]\<rparr>) 2"

lemma memo_state_step:
  "\<exists>s'. slot_step fan_run (tick 8 ''sa2'') memo_state (dg_steps fan_document ! 1) 0 (Some (JStr ''p'')) (SLoop 0 False) Continue
     = Some (s', Inr (SBack 0 True))"
  by (simp add: memo_state_def memo_row_def run_eval slot_eval js_sort_def COMPLETED_STATES_def applyMemoHit_def as_safe_0 as_safe_numeral sample_run_def fan_run_def sample_db_def
      fan_document_def fan_exec_def sample_control_def)

theorem memo_exact_witness:
  "\<exists>s'. slot_step fan_run (tick 8 ''sa2'') memo_state (dg_steps fan_document ! 1) 0 (Some (JStr ''p'')) (SLoop 0 False) Continue
     = Some (s', Inr (SBack 0 True)) \<and> execs s' = execs memo_state \<and> rs_stepOutputs s' = [(''b'', JStr ''out'')]"
proof -
  let ?step = "dg_steps fan_document ! 1" and ?k = "effectiveIteration (dg_steps fan_document ! 1) 0 0"
  let ?h = "ax_inputHash (attempt_context fan_run memo_state ?step (Some (JStr ''p'')) ''claude'')"
  obtain s' where s': "slot_step fan_run (tick 8 ''sa2'') memo_state ?step 0 (Some (JStr ''p'')) (SLoop 0 False) Continue
     = Some (s', Inr (SBack 0 True))" using memo_state_step by blast
  have st: "0 < maxLoops ?step" "\<not> rs_cancelled memo_state" "\<not> rs_paused memo_state"
    "resolveBackend (ro_reg fan_run) ?step (ro_document fan_run) (resolveAccount ?step (ro_document fan_run)) = Some ''claude''"
    by (simp_all add: memo_state_def memo_row_def run_eval slot_eval sample_run_def fan_run_def sample_db_def fan_document_def fan_exec_def
        sample_control_def as_safe_numeral)
  have rows: "reusable fan_run memo_state ?step ?k ?h = [memo_row]"
    by (simp add: reusable_def memo_state_def memo_row_def run_eval slot_eval COMPLETED_STATES_def sample_run_def fan_run_def sample_db_def
        fan_document_def fan_exec_def sample_control_def as_safe_numeral)
  have "rs_stepOutputs memo_state = []" by (simp add: memo_state_def walk_init_def publishRun_def emit_def Let_def split: sum.split)
  then show ?thesis using memo_exact [OF st refl refl s'] rows s'
    by (auto simp: restored_def memo_row_def fan_document_def JSON_stringify_def JSON_parse_def json_norm.simps)
qed

end
