(* ===== verification/Engine_Properties.thy ===== *)
theory Engine_Properties
  imports Engine Runner_Properties
begin

text \<open>
  The properties of the engine over any sequence of its steps: verbs of clients interleaved with the
  resumptions of any number of walks, of the same run or of different ones, over one store.
\<close>

section \<open>The invariant\<close>

definition walk_good :: "pipelines_db \<Rightarrow> run_options \<times> run_state \<Rightarrow> bool" where
  "walk_good db x \<longleftrightarrow> (\<exists>reg v. validateDagDocument reg v = Inr (ro_document (fst x)))
     \<and> placed (fst x) (snd x) \<and> called_ok (fst x) (snd x)
     \<and> (\<forall>q\<in>set (execs (snd x)). eq_runId q = ro_runId (fst x) \<and> journaled db q)
     \<and> jm_get (db_runs db) (ro_runId (fst x)) \<noteq> None"

definition engine_ok :: "engine_state \<Rightarrow> bool" where
  "engine_ok st \<longleftrightarrow> db_ok (en_store st) \<and> (\<forall>x\<in>set (en_walks st). walk_good (en_store st) x)"

definition engine_le :: "engine_state \<Rightarrow> engine_state \<Rightarrow> bool" where
  "engine_le st st' \<longleftrightarrow> db_le (en_store st) (en_store st') \<and> length (en_walks st) \<le> length (en_walks st')
     \<and> (\<forall>w<length (en_walks st). fst (en_walks st' ! w) = fst (en_walks st ! w))"

lemma engine_le_refl: "engine_le st st"
  by (simp add: engine_le_def db_le_refl)

lemma engine_le_trans: "engine_le a b \<Longrightarrow> engine_le b c \<Longrightarrow> engine_le a c"
  unfolding engine_le_def using db_le_trans by (metis order_less_le_trans order_trans)

lemma walk_good_mono:
  assumes "walk_good db x" "db_le db db'"
  shows "walk_good db' x"
proof -
  have "jm_get (db_runs db') (ro_runId (fst x)) \<noteq> None" using assms unfolding walk_good_def db_le_def by blast
  then show ?thesis using assms journaled_le unfolding walk_good_def by blast
qed

text \<open>A step that only writes the store keeps everything.\<close>

lemma store_only:
  assumes "engine_ok st" "grows (en_store st) db"
  shows "engine_ok (st\<lparr>en_store := db\<rparr>)" "engine_le st (st\<lparr>en_store := db\<rparr>)"
  using assms grows_ok grows_le walk_good_mono by (auto simp: engine_ok_def engine_le_def)

lemma live_only: "engine_ok (st\<lparr>en_live := l\<rparr>) = engine_ok st" "engine_le st (st\<lparr>en_live := l\<rparr>)"
  by (simp_all add: engine_ok_def engine_le_def db_le_refl)

section \<open>Steps\<close>

lemma startRun_ok:
  assumes "engine_ok st" "validateDagDocument reg v = Inr (ro_document env)"
    and "jm_get (db_runs (en_store st)) (ro_runId env) = Some run"
  shows "engine_ok (startRun io st env)" "engine_le st (startRun io st env)"
proof -
  let ?s = "walk_init env (en_store st) (io_now io)"
  have ok: "db_ok (en_store st)" using assms(1) by (simp add: engine_ok_def)
  have le: "db_le (en_store st) (rs_store ?s)" "db_ok (rs_store ?s)"
    using grows_le [OF walk_init_grows(1) ok] grows_ok [OF walk_init_grows(1) ok] by blast+
  have "walk_good (en_store st) (env, ?s)"
    using assms(2,3) placed_init by (auto simp: walk_good_def called_ok_def walk_init_grows(2))
  then show "engine_ok (startRun io st env)"
    using assms(1) le walk_good_mono by (auto simp: startRun_def engine_ok_def Let_def)
  show "engine_le st (startRun io st env)" using le(1) by (simp add: startRun_def engine_le_def Let_def nth_append)
qed

lemma with_db: "placed env (s\<lparr>rs_store := db\<rparr>) = placed env s" "called_ok env (s\<lparr>rs_store := db\<rparr>) = called_ok env s"
proof -
  have "need_blocks env (s\<lparr>rs_store := db\<rparr>) = need_blocks env s" by (rule ext) (simp add: need_blocks_def)
  then have n: "open_needs env (s\<lparr>rs_store := db\<rparr>) = open_needs env s" by (intro ext) (simp add: open_needs_def skipByUpstream_def)
  have "needsSatisfied env (s\<lparr>rs_store := db\<rparr>) = needsSatisfied env s" by (rule ext) (simp add: needsSatisfied_def split: option.split)
  then show "placed env (s\<lparr>rs_store := db\<rparr>) = placed env s" using n by (simp add: placed_def task_ok_def)
  show "called_ok env (s\<lparr>rs_store := db\<rparr>) = called_ok env s" using n by (simp add: called_ok_def)
qed

lemma new_call_run: "execs s' = execs s \<or> (\<exists>step. new_call env step s s') \<Longrightarrow> q \<in> set (execs s') \<Longrightarrow> q \<in> set (execs s) \<or> eq_runId q = ro_runId env"
  by (auto simp: new_call_def request_of_def)

lemma step_walk_ok:
  assumes ok: "engine_ok st"
  shows "engine_ok (step_walk io st w ev) \<and> engine_le st (step_walk io st w ev)"
proof (cases "w < length (en_walks st)")
  case True
  obtain env s where es: "en_walks st ! w = (env, s)" by (cases "en_walks st ! w")
  let ?s = "s\<lparr>rs_store := en_store st\<rparr>"
  show ?thesis
  proof (cases "walk_step env ?s (io, ev)")
    case None
    then show ?thesis using True es ok by (simp add: step_walk_def engine_le_refl)
  next
    case (Some s')
    have st': "step_walk io st w ev = st\<lparr>en_store := rs_store s', en_walks := (en_walks st)[w := (env, s')]\<rparr>"
      using True es Some by (simp add: step_walk_def)
    have good: "walk_good (en_store st) (env, s)" using ok True es nth_mem unfolding engine_ok_def by metis
    have j: "journals ?s s'" by (rule walk_step_journals [OF Some])
    then have g: "grows (en_store st) (rs_store s')" by (simp add: journals_def)
    have dbok: "db_ok (en_store st)" using ok by (simp add: engine_ok_def)
    note le = grows_le [OF g dbok]
    have p: "placed env s'" "called_ok env s'"
      using placed_walk_step [OF _ Some] called_walk_step [OF _ _ Some] good by (simp_all add: walk_good_def with_db)
    have q: "eq_runId q = ro_runId env \<and> journaled (rs_store s') q" if "q \<in> set (execs s')" for q
    proof -
      have "execs s' = execs ?s \<or> (\<exists>step. new_call env step ?s s')" using walk_step_execs [OF Some] by blast
      from new_call_run [OF this that] have "eq_runId q = ro_runId env" using good by (auto simp: walk_good_def)
      moreover have "q \<in> set (execs s) \<or> journaled (rs_store s') q" using j that by (auto simp: journals_def)
      ultimately show ?thesis using good journaled_le [OF _ le] by (auto simp: walk_good_def)
    qed
    have "walk_good (rs_store s') (env, s)" by (rule walk_good_mono [OF good le])
    then have "walk_good (rs_store s') (env, s')" using p q by (simp add: walk_good_def)
    moreover have "walk_good (rs_store s') x" if "x \<in> set (en_walks st)" for x
      using ok that walk_good_mono [OF _ le] by (simp add: engine_ok_def)
    ultimately have "engine_ok (step_walk io st w ev)"
      using grows_ok [OF g dbok] set_update_subset_insert [of "en_walks st" w "(env, s')"] unfolding st' engine_ok_def by auto
    moreover have "engine_le st (step_walk io st w ev)"
    proof -
      have "fst ((en_walks st)[w := (env, s')] ! w') = fst (en_walks st ! w')" if "w' < length (en_walks st)" for w'
        using es that by (cases "w' = w") simp_all
      then show ?thesis using le unfolding st' engine_le_def by simp
    qed
    ultimately show ?thesis ..
  qed
qed (use ok in \<open>simp add: step_walk_def engine_le_refl\<close>)

lemma ensure_grows: "grows db (ensureDefinition eo io d h db)"
  by (auto simp: ensureDefinition_def store_ops_grow split: sum.split)

lemma saved_document_Inr:
  assumes "saved_document eo db i = Inr d"
  obtains row v where "jm_get (db_definitions db) i = Some row" "JSON_parse (pd_documentJson row) = Some v"
    "validateDagDocument (eo_reg eo) v = Inr d"
  using assms by (auto simp: saved_document_def definitions_get_def safeParseDocument_def split: option.splits sum.splits)

lemma checked_document_Inr: "checked_document eo v = Inr d \<longleftrightarrow> validateDagDocument (eo_reg eo) v = Inr d"
  by (auto simp: checked_document_def split: sum.splits)

lemma launch_document_valid: "launch_document eo db inp = Inr d \<Longrightarrow> \<exists>v. validateDagDocument (eo_reg eo) v = Inr d"
  by (auto simp: launch_document_def checked_document_Inr split: option.splits elim: saved_document_Inr)

lemma launch_cases:
  assumes "launch eo io st inp = (st', x)"
  obtains (refused) e where "x = Inl e" "st' = st"
  | (not_stored) e db where "x = Inl (StoreThrew e)" "st' = st\<lparr>en_store := db\<rparr>" "grows (en_store st) db"
  | (started) d pins db run where "x = Inr (io_id io)" "launch_document eo (en_store st) inp = Inr d" "plan eo d = Inr pins"
      "runs_insert (ensureDefinition eo io d (schemaHashOf eo d) (en_store st)) (io_now io) (run_of eo io d inp) = Inr (db, run)"
      "st' = startRun io (st\<lparr>en_store := db\<rparr>)
         (run_env eo (io_id io) d (schemaHashOf eo d) pins [] (lin_inputs inp) (lin_workstreamId inp))"
proof (cases "launch_document eo (en_store st) inp")
  case (Inl e)
  then show ?thesis using assms refused [of e] by (simp add: launch_def)
next
  case d: (Inr d)
  show ?thesis
  proof (cases "plan eo d")
    case (Inl e)
    then show ?thesis using assms d refused [of e] by (simp add: launch_def)
  next
    case pins: (Inr pins)
    let ?db = "ensureDefinition eo io d (schemaHashOf eo d) (en_store st)"
    show ?thesis
    proof (cases "runs_insert ?db (io_now io) (run_of eo io d inp)")
      case (Inl e)
      then show ?thesis using assms d pins not_stored [of e ?db] ensure_grows by (simp add: launch_def Let_def)
    next
      case (Inr y)
      then show ?thesis using assms d pins started [of d pins "fst y" "snd y"] by (cases y) (simp add: launch_def Let_def)
    qed
  qed
qed

lemma launch_ok:
  assumes "engine_ok st" "launch eo io st inp = (st', x)"
  shows "engine_ok st' \<and> engine_le st st'"
  using assms(2)
proof (cases rule: launch_cases)
  case (refused e)
  then show ?thesis using assms(1) by (simp add: engine_le_refl)
next
  case (not_stored e db)
  then show ?thesis using store_only [OF assms(1)] by simp
next
  case (started d pins db run)
  let ?st = "st\<lparr>en_store := db\<rparr>"
  have g: "grows (en_store st) db" using grows_trans [OF ensure_grows store_ops_grow(4) [OF started(4)]] .
  note s = store_only [OF assms(1) g]
  obtain v where v: "validateDagDocument (eo_reg eo) v = Inr d" using launch_document_valid [OF started(2)] by blast
  have run: "jm_get (db_runs db) (io_id io) = Some run"
    using run_insert_Inr [OF started(4)] by (simp add: run_of_def new_run_row_def jm_get_set)
  let ?env = "run_env eo (io_id io) d (schemaHashOf eo d) pins [] (lin_inputs inp) (lin_workstreamId inp)"
  have "engine_ok (startRun io ?st ?env)" "engine_le ?st (startRun io ?st ?env)"
    using startRun_ok [OF s(1), of "eo_reg eo" v ?env run] v run by (simp_all add: run_env_def)
  then show ?thesis using started(5) engine_le_trans [OF s(2)] by blast
qed

lemma resume_cases:
  assumes "resume eo io st runId = (st', x)"
  obtains (refused) e where "x = Inl e" "st' = st"
  | (started) run d pins where "x = Inr runId" "jm_get (db_runs (en_store st)) runId = Some run"
      "saved_document eo (en_store st) (pr_pipelineId run) = Inr d" "plan eo d = Inr pins"
      "st' = startRun io st (run_env eo runId d (pr_schemaHash run) pins (drifted_steps eo d pins)
         (Option.bind (pr_inputsJson run) safeParseRecord) (pr_workstreamId run))"
proof (cases "jm_get (db_runs (en_store st)) runId")
  case None
  then show ?thesis using assms refused [of "EngineError ERunNotFound None"] by (simp add: resume_def runs_get_def)
next
  case run: (Some run)
  show ?thesis
  proof (cases "saved_document eo (en_store st) (pr_pipelineId run)")
    case (Inl e)
    then show ?thesis using assms run refused [of e] by (simp add: resume_def runs_get_def)
  next
    case d: (Inr d)
    show ?thesis
    proof (cases "plan eo d")
      case (Inl e)
      then show ?thesis using assms run d refused [of e] by (simp add: resume_def runs_get_def)
    next
      case (Inr pins)
      then show ?thesis using assms run d started [of run d pins] by (simp add: resume_def runs_get_def)
    qed
  qed
qed

lemma resume_ok:
  assumes "engine_ok st" "resume eo io st runId = (st', x)"
  shows "engine_ok st' \<and> engine_le st st'"
  using assms(2)
proof (cases rule: resume_cases)
  case (refused e)
  then show ?thesis using assms(1) by (simp add: engine_le_refl)
next
  case (started run d pins)
  obtain row v where row: "jm_get (db_definitions (en_store st)) (pr_pipelineId run) = Some row" "validateDagDocument (eo_reg eo) v = Inr d"
    using started(3) by (rule saved_document_Inr)
  let ?env = "run_env eo runId d (pr_schemaHash run) pins (drifted_steps eo d pins)
    (Option.bind (pr_inputsJson run) safeParseRecord) (pr_workstreamId run)"
  show ?thesis using startRun_ok [OF assms(1), of "eo_reg eo" v ?env run] row(2) started(2,5) by (simp add: run_env_def)
qed

lemma save_ok: "engine_ok st \<Longrightarrow> engine_ok (fst (save eo io st v)) \<and> engine_le st (fst (save eo io st v))"
  using store_only store_ops_grow(5) by (auto simp: save_def engine_le_refl split: sum.split)

lemma signal_ok: "engine_ok st \<Longrightarrow> engine_ok (fst (signal ev io st i)) \<and> engine_le st (fst (signal ev io st i))"
  using step_walk_ok by (simp add: signal_def engine_le_refl split: option.split)

lemma engine_step_ok:
  assumes "engine_ok st"
  shows "engine_ok (engine_step st c) \<and> engine_le st (engine_step st c)"
proof -
  obtain eo io ev where c: "c = (eo, io, ev)" by (cases c)
  show ?thesis
  proof (cases ev)
    case (Launch inp)
    then show ?thesis using launch_ok [OF assms] c by (cases "launch eo io st inp") (simp add: engine_step_def)
  next
    case (Resume i)
    then show ?thesis using resume_ok [OF assms] c by (cases "resume eo io st i") (simp add: engine_step_def)
  qed (use assms c in \<open>simp_all add: engine_step_def save_ok signal_ok pause_def cancel_def step_walk_ok settle_walk_def live_only engine_le_refl\<close>)
qed

lemma engine_init_ok: "engine_ok engine_init"
  by (simp add: engine_ok_def engine_init_def empty_db_ok)

interpretation en: evolution engine_step engine_ok engine_le
  by unfold_locales (auto simp: engine_step_ok engine_le_refl intro: engine_le_trans)

section \<open>Journaled work\<close>

text \<open>Claim C7: no work without its rows. Take any sequence of engine steps from an empty store: saves,
  launches, resumes, pauses and cancels, accepted or refused, interleaved in any way with the resumptions of
  all the walks. Whenever some walk has called the executor, the call is for the run of that walk and for a
  well-formed document, its attempt row is in the journal under its run, step, iteration and attempt number,
  and stays there under any further steps; the run row and the definition row exist as well.\<close>

theorem work_is_journaled:
  assumes walk: "(env, s) \<in> set (en_walks (foldl engine_step engine_init calls))" and call: "Execute q \<in> set (rs_log s)"
  shows "eq_runId q = ro_runId env \<and> (\<exists>reg. ok_document reg (ro_document env))
    \<and> (\<exists>i r. slot_of r = (eq_runId q, eq_stepId q, eq_iteration q, eq_attempt q)
        \<and> jm_get (db_attempts (en_store (foldl engine_step engine_init calls))) i = Some r
        \<and> (\<exists>r'. jm_get (db_attempts (en_store (foldl engine_step engine_init (calls @ later)))) i = Some r'
             \<and> attempt_identity r' = attempt_identity r))
    \<and> (\<exists>run. jm_get (db_runs (en_store (foldl engine_step engine_init calls))) (eq_runId q) = Some run
        \<and> jm_get (db_definitions (en_store (foldl engine_step engine_init calls))) (pr_pipelineId run) \<noteq> None)"
proof -
  let ?st = "foldl engine_step engine_init calls" and ?st' = "foldl engine_step engine_init (calls @ later)"
  have ok: "engine_ok ?st" by (rule en.inv_run [OF engine_init_ok])
  then have good: "walk_good (en_store ?st) (env, s)" "db_ok (en_store ?st)" using walk by (auto simp: engine_ok_def)
  have q: "eq_runId q = ro_runId env" "journaled (en_store ?st) q" using good(1) call by (auto simp: walk_good_def execs_iff)
  obtain reg v where "validateDagDocument reg v = Inr (ro_document env)" using good(1) by (auto simp: walk_good_def)
  then have doc: "\<exists>reg. ok_document reg (ro_document env)" using document_ok by blast
  obtain i r where r: "jm_get (db_attempts (en_store ?st)) i = Some r" "slot_of r = (eq_runId q, eq_stepId q, eq_iteration q, eq_attempt q)"
    using q(2) by (auto simp: journaled_def)
  have "db_le (en_store ?st) (en_store ?st')" using en.le_later [OF engine_init_ok] by (simp add: engine_le_def)
  then obtain r' where r': "jm_get (db_attempts (en_store ?st')) i = Some r'" "attempt_identity r' = attempt_identity r"
    using r(1) unfolding db_le_def by blast
  obtain run where run: "jm_get (db_runs (en_store ?st)) (ro_runId env) = Some run" using good(1) by (auto simp: walk_good_def)
  have "jm_get (db_definitions (en_store ?st)) (pr_pipelineId run) \<noteq> None" using good(2) run unfolding db_ok_def by blast
  then show ?thesis using q(1) doc r r' run by (auto simp del: foldl_append)
qed

text \<open>A launch of the fan-out, walked up to its first call.\<close>

definition fan_engine :: engine_options where
  "fan_engine = \<lparr>eo_reg = initial_registry, eo_sha256 = (\<lambda>_. ''h''), eo_dec = (\<lambda>_. []), eo_resolver = None, eo_workspace = None,
     eo_gate = False, eo_lineageCost = False\<rparr>"

definition fan_launch :: launch_input where
  "fan_launch = \<lparr>lin_pipelineId = None, lin_document = Some (document_json fan_document),
     lin_inputs = Some [(''xs'', JArr [JStr ''p'', JStr ''q'', JStr ''r''])], lin_workstreamId = None\<rparr>"

definition fan_calls :: "(engine_options \<times> resumption \<times> engine_event) list" where
  "fan_calls = (fan_engine, tick 2 ''run'', Launch fan_launch) # map (\<lambda>(io, e). (fan_engine, io, WalkEvent 0 e)) fan_events"

lemma fan_fields: "dg_id fan_document = ''wf_1''" "dg_name fan_document = ''build''" "list_ex needs_resolution (dg_steps fan_document) = False"
  by (simp_all add: fan_document_def)

lemma fan_names: "io_now (tick n i) = n" "ro_runId fan_run = ''run''"
  by (simp_all add: tick_def fan_run_def sample_run_def)

lemma fan_env: "run_env fan_engine ''run'' fan_document ''sha256:h'' [] [] (lin_inputs fan_launch) None = fan_run"
  by (simp add: run_env_def fan_engine_def fan_launch_def fan_run_def sample_run_def fan_fields)

lemma fan_started:
  "\<exists>ds r. launch fan_engine (tick 2 ''run'') engine_init fan_launch =
     (startRun (tick 2 ''run'') \<lparr>en_store = \<lparr>db_definitions = ds, db_runs = [(''run'', r)], db_attempts = []\<rparr>, en_live = [], en_walks = []\<rparr> fan_run,
      Inr ''run'')"
  unfolding fan_env [symmetric]
  by (simp add: launch_def launch_document_def checked_document_def fan_launch_def fan_accepted fan_engine_def engine_init_def empty_db_def
     plan_def fan_fields ensureDefinition_def definition_of_def run_of_def schemaHashOf_def store_eval definitions_get_def DAG_SCHEMA_VERSION_def tick_def
     JSON_stringify_def) (intro exI, rule refl)

lemma single_walk:
  assumes "walk_run env s es = Some s'" "list_all (\<lambda>e. snd e \<notin> {EPause, ECancel}) es"
  shows "foldl engine_step \<lparr>en_store = rs_store s, en_live = l, en_walks = [(env, s)]\<rparr> (map (\<lambda>(io, e). (eo, io, WalkEvent 0 e)) es)
    = \<lparr>en_store = rs_store s', en_live = l, en_walks = [(env, s')]\<rparr>"
  using assms
proof (induction es arbitrary: s)
  case (Cons e es)
  obtain io ev where e: "e = (io, ev)" by (cases e)
  obtain s1 where s1: "walk_step env s (io, ev) = Some s1" "walk_run env s1 es = Some s'" using Cons.prems(1) e by (auto simp: bind_eq_Some_conv)
  have "engine_step \<lparr>en_store = rs_store s, en_live = l, en_walks = [(env, s)]\<rparr> (eo, io, WalkEvent 0 ev)
    = \<lparr>en_store = rs_store s1, en_live = l, en_walks = [(env, s1)]\<rparr>"
    using s1(1) Cons.prems(2) e by (simp add: engine_step_def step_walk_def)
  then show ?case using Cons.IH [OF s1(2)] Cons.prems(2) e by simp
qed simp

lemma fan_engine_walk:
  "\<exists>st s q. foldl engine_step engine_init fan_calls = st \<and> (fan_run, s) \<in> set (en_walks st) \<and> Execute q \<in> set (rs_log s)"
proof -
  obtain ds r where l: "launch fan_engine (tick 2 ''run'') engine_init fan_launch =
     (startRun (tick 2 ''run'') \<lparr>en_store = \<lparr>db_definitions = ds, db_runs = [(''run'', r)], db_attempts = []\<rparr>, en_live = [], en_walks = []\<rparr> fan_run,
      Inr ''run'')" using fan_started by blast
  let ?s = "walk_init fan_run \<lparr>db_definitions = ds, db_runs = [(''run'', r)], db_attempts = []\<rparr> 2"
  obtain s q where s: "walk_run fan_run ?s fan_events = Some s" "Execute q \<in> set (rs_log s)" using fan_walk [of ds r] by blast
  have "foldl engine_step engine_init fan_calls = foldl engine_step \<lparr>en_store = rs_store ?s, en_live = [(''run'', 0)], en_walks = [(fan_run, ?s)]\<rparr>
      (map (\<lambda>(io, e). (fan_engine, io, WalkEvent 0 e)) fan_events)"
    by (simp add: fan_calls_def engine_step_def l startRun_def Let_def fan_names)
  then show ?thesis using single_walk [OF s(1)] s(2) by (auto simp: fan_events_def)
qed

theorem work_is_journaled_witness:
  "\<exists>s q i r. (fan_run, s) \<in> set (en_walks (foldl engine_step engine_init fan_calls)) \<and> Execute q \<in> set (rs_log s)
    \<and> slot_of r = (eq_runId q, eq_stepId q, eq_iteration q, eq_attempt q)
    \<and> jm_get (db_attempts (en_store (foldl engine_step engine_init fan_calls))) i = Some r"
  using fan_engine_walk work_is_journaled [of fan_run _ fan_calls _ "[]"] by blast

section \<open>Launching\<close>

lemma init_run:
  assumes "jm_get (db_runs db) (ro_runId env) = Some r"
  obtains r' where "jm_get (db_runs (rs_store (walk_init env db now))) (ro_runId env) = Some r'" "run_identity r' = run_identity r"
    "db_definitions (rs_store (walk_init env db now)) = db_definitions db"
proof (cases "runs_setStatus db now (ro_runId env) RRunning \<lparr>rp_cost = None, rp_startedAtMs = Some (num now), rp_finishedAtMs = None\<rparr>")
  case (Inl e)
  then have "rs_store (walk_init env db now) = db" by (simp add: walk_init_def Let_def)
  then show ?thesis using that assms by simp
next
  case (Inr y)
  obtain db' row where y: "y = (db', row)" by (cases y)
  then have w: "rs_store (walk_init env db now) = db'" using Inr by (simp add: walk_init_def Let_def)
  from Inr [unfolded y] show ?thesis
  proof (rule setStatus_Inr)
    fix r0 started finished
    assume a: "jm_get (db_runs db) (ro_runId env) = Some r0" "db' = db\<lparr>db_runs := jm_set (db_runs db) (ro_runId env) row\<rparr>"
      "row = r0\<lparr>pr_status := RRunning, pr_costEstimatedUsd := or_else (rp_cost \<lparr>rp_cost = None, rp_startedAtMs = Some (num now), rp_finishedAtMs = None\<rparr>) (pr_costEstimatedUsd r0),
       pr_startedAtMs := or_else started (pr_startedAtMs r0), pr_finishedAtMs := or_else finished (pr_finishedAtMs r0), pr_updatedAtMs := now\<rparr>"
    show ?thesis using that [of row] a assms w by (simp add: jm_get_set run_identity_def)
  qed
qed

lemma ensure_runs: "db_runs (ensureDefinition eo io d h db) = db_runs db"
proof (cases "definitions_upsert db (io_now io) ((definition_of eo d)\<lparr>nd_schemaHash := h\<rparr>)")
  case (Inr y)
  obtain db' row where y: "y = (db', row)" by (cases y)
  from Inr [unfolded y] have "db_runs db' = db_runs db" by (rule upsert_Inr) simp
  then show ?thesis using Inr y by (simp add: ensureDefinition_def)
qed (simp add: ensureDefinition_def)

definition identity_of :: "engine_options \<Rightarrow> resumption \<Rightarrow> dag_document \<Rightarrow> launch_input \<Rightarrow> string list \<times> json_text option \<times> string option \<times> nat" where
  "identity_of eo io d inp = ([io_id io, dg_id d, schemaHashOf eo d],
     map_option (\<lambda>kvs. JSON_stringify (JObj kvs)) (lin_inputs inp), lin_workstreamId inp, io_now io)"

lemma launch_started:
  assumes "launch eo io st inp = (st', Inr runId)"
  obtains d pins s run where "runId = io_id io" "launch_document eo (en_store st) inp = Inr d" "plan eo d = Inr pins"
    "en_walks st' = en_walks st @ [(run_env eo runId d (schemaHashOf eo d) pins [] (lin_inputs inp) (lin_workstreamId inp), s)]"
    "jm_get (en_live st') runId = Some (length (en_walks st))" "execs s = []"
    "jm_get (db_runs (en_store st)) runId = None" "jm_get (db_runs (en_store st')) runId = Some run" "run_identity run = identity_of eo io d inp"
    "db_definitions (en_store st') = db_definitions (ensureDefinition eo io d (schemaHashOf eo d) (en_store st))"
    "jm_get (db_definitions (en_store st')) (dg_id d) \<noteq> None"
  using assms
proof (cases rule: launch_cases)
  case (started d pins db run)
  let ?env = "run_env eo (io_id io) d (schemaHashOf eo d) pins [] (lin_inputs inp) (lin_workstreamId inp)"
  note i = run_insert_Inr [OF started(4)]
  have run: "jm_get (db_runs db) (ro_runId ?env) = Some run" "run_identity run = identity_of eo io d inp"
    using i by (simp_all add: run_of_def new_run_row_def jm_get_set run_env_def run_identity_def identity_of_def)
  from run(1) obtain r' where r': "jm_get (db_runs (rs_store (walk_init ?env db (io_now io)))) (ro_runId ?env) = Some r'"
    "run_identity r' = run_identity run" "db_definitions (rs_store (walk_init ?env db (io_now io))) = db_definitions db"
    by (rule init_run)
  show ?thesis
  proof (rule that)
    show "en_walks st' = en_walks st @ [(run_env eo runId d (schemaHashOf eo d) pins [] (lin_inputs inp) (lin_workstreamId inp), walk_init ?env db (io_now io))]"
      using started(1,5) by (simp add: startRun_def Let_def)
    show "jm_get (en_live st') runId = Some (length (en_walks st))"
      using started(1,5) by (simp add: startRun_def Let_def jm_get_set run_env_def)
    show "jm_get (db_runs (en_store st)) runId = None" using i(1) started(1) by (simp add: run_of_def ensure_runs)
    show "jm_get (db_runs (en_store st')) runId = Some r'" using r'(1) started(1,5) by (simp add: startRun_def Let_def run_env_def)
    show "run_identity r' = identity_of eo io d inp" using r'(2) run(2) by simp
    show "db_definitions (en_store st') = db_definitions (ensureDefinition eo io d (schemaHashOf eo d) (en_store st))"
      using r'(3) started(5) i(4) by (simp add: startRun_def Let_def)
    then show "jm_get (db_definitions (en_store st')) (dg_id d) \<noteq> None" using i(5) by (simp add: run_of_def)
  qed (use started walk_init_grows(2) in simp_all)
qed simp_all


section \<open>Resuming\<close>

lemma fresh_pins_undrifted:
  assumes "plan eo d = Inr pins" "distinct (map step_id (dg_steps d))"
  shows "drifted_steps eo d pins = []"
proof (cases "eo_resolver eo")
  case (Some base)
  then have "planCapabilities d (resolverForDocument eo d) = Inr pins"
    using assms(1) by (auto simp: plan_def resolverForDocument_def Let_def split: sum.splits option.splits)
  then show ?thesis using pinned_not_drifted [OF _ assms(2)] by (simp add: drifted_steps_def detectDrift_def filter_empty_conv)
qed (simp add: drifted_steps_def)

lemma ensured_document:
  assumes "definitions_get db (dg_id d) = None" "jm_get (db_definitions (ensureDefinition eo io d h db)) (dg_id d) = Some row"
  shows "pd_documentJson row = JSON_stringify (document_json d)"
proof (cases "definitions_upsert db (io_now io) ((definition_of eo d)\<lparr>nd_schemaHash := h\<rparr>)")
  case (Inr y)
  obtain db' r where y: "y = (db', r)" by (cases y)
  from Inr [unfolded y] show ?thesis
    by (rule upsert_Inr) (use assms Inr y in \<open>auto simp: ensureDefinition_def definition_of_def jm_get_set new_definition_row_def\<close>)
qed (use assms in \<open>simp add: ensureDefinition_def definitions_get_def\<close>)



section \<open>Shortcomings\<close>

text \<open>Resuming does not look at the live runs: a run that is being walked can be resumed, and is then walked
  twice at the same time over the same journal.\<close>

theorem resume_ignores_live: "snd (resume eo io (st\<lparr>en_live := l\<rparr>) runId) = snd (resume eo io st runId)"
  by (simp add: resume_def split: option.split sum.split)

text \<open>The older of two walks of a run, when it ends, removes the live entry of the newer one: pausing or
  cancelling the run is from then on answered without effect.\<close>

theorem stale_finally_hides_run:
  assumes "w < length (en_walks st)" "rs_phase (snd (en_walks st ! w)) \<noteq> Walking" "ro_runId (fst (en_walks st ! w)) = runId"
    and "jm_get (en_live st) runId = Some w'" "w' \<noteq> w" "runs_get (en_store st) runId \<noteq> None"
  shows "pause io (settle_walk st w) runId = (settle_walk st w, Inr ())" "cancel io (settle_walk st w) runId = (settle_walk st w, Inr ())"
  using assms by (simp_all add: pause_def cancel_def signal_def settle_walk_def jm_get_delete)

text \<open>A step marked as drifted by a resume does not exist: the pins it compares are planned by the resume itself.\<close>

theorem resume_never_drifts:
  assumes "resume eo io st runId = (st', Inr i)"
  shows "ro_driftedSteps (fst (last (en_walks st'))) = []"
  using assms
proof (cases rule: resume_cases)
  case (started run d pins)
  obtain v where "validateDagDocument (eo_reg eo) v = Inr d" using started(3) by (rule saved_document_Inr)
  then have "distinct (map step_id (dg_steps d))" using document_ok by (auto simp: ok_document_def ok_shape_def)
  then show ?thesis using started(4,5) fresh_pins_undrifted by (simp add: startRun_def Let_def run_env_def)
qed simp

end
