(* ===== verification/Lineage_Store.thy ===== *)
theory Lineage_Store
  imports Pipeline_Store Resume_Ledger
begin

text \<open>
  The lineage tables of \<open>packages/schema/src/lineage.ts\<close>: workstreams, session nodes, briefs and session
  edges. A table is a keyed store in insertion order. The vocabularies of \<open>packages/protocol/src/workstreams.ts\<close>
  are datatypes, so values outside them are excluded; backends and account labels are strings that are decoded
  against the backend registry on every read, as in the code.

  An operation returns the tables and its result, because a statement that was executed stays executed when the
  row cannot be read back. \<open>LSqlFailure\<close> is an error of the database (a primary key that is taken, a
  constraint of migration 0007, a fraction in an integer column), \<open>LReadRange\<close> is the driver's error for an
  integer beyond the safe range; every other error is a \<open>LineageStoreError\<close>. Each call reads the clock once.

  Shown: over any history of calls every edge has its endpoints and its brief, the rules of the edge types hold,
  no row is ever lost, briefs and edges never change, and a native session id is written once; a merge is
  written completely or not at all.
\<close>

section \<open>Vocabularies and rows\<close>

datatype workstream_status = WActive | WPaused | WMerged | WArchived | WAbandoned

datatype node_state = NRunning | NIdle | NCompleted | NAbandoned | NUnresumable | NExternal

datatype edge_type = EContinue | EFork | EMergeParent | ECompact | ESidechain | EHandoff | EImport | EWorkflow

datatype lineage_confidence = Recorded | Inferred

datatype node_origin = Harness | Reconciled

datatype brief_kind = BSessionEnd | BPreCompact | BSessionStartInjection | BMerge

datatype brief_provenance = NativeSummary | LocalDraft | Refined

record workstream_row =
  wr_id :: string
  wr_title :: string
  wr_description :: "string option"
  wr_status :: workstream_status
  wr_tags :: "string list"
  wr_createdAtMs :: nat
  wr_updatedAtMs :: nat

record new_workstream =
  nw_id :: string
  nw_title :: string
  nw_description :: "string option"
  nw_status :: "workstream_status option"
  nw_tags :: "string list option"

record node_row =
  sn_id :: string
  sn_workstreamId :: "string option"
  sn_backend :: string
  sn_account :: string
  sn_nativeSessionId :: "string option"
  sn_nativeScope :: "string option"
  sn_transcriptRef :: "string option"
  sn_cwd :: "string option"
  sn_gitBranch :: "string option"
  sn_worktree :: "string option"
  sn_displayName :: "string option"
  sn_firstPromptHash :: "string option"
  sn_state :: node_state
  sn_origin :: node_origin
  sn_confidence :: lineage_confidence
  sn_tokensIn :: "jsnum option"
  sn_tokensOut :: "jsnum option"
  sn_costEstimatedUsd :: "jsnum option"
  sn_createdAtMs :: nat
  sn_lastActiveAtMs :: "jsnum option"

record new_node =
  nn_id :: string
  nn_workstreamId :: "string option"
  nn_backend :: string
  nn_account :: string
  nn_nativeSessionId :: "string option"
  nn_nativeScope :: "string option"
  nn_transcriptRef :: "string option"
  nn_cwd :: "string option"
  nn_gitBranch :: "string option"
  nn_worktree :: "string option"
  nn_displayName :: "string option"
  nn_firstPromptHash :: "string option"
  nn_state :: node_state
  nn_origin :: node_origin
  nn_confidence :: lineage_confidence

record brief_row =
  br_id :: string
  br_kind :: brief_kind
  br_bodyMd :: string
  br_sourceNodes :: "string list"
  br_provenance :: brief_provenance
  br_tokenCount :: "nat option"
  br_createdAtMs :: nat

record new_brief =
  nb_id :: string
  nb_kind :: brief_kind
  nb_bodyMd :: string
  nb_sourceNodes :: "string list"
  nb_provenance :: brief_provenance
  nb_tokenCount :: "jsnum option"

record edge_row =
  se_id :: string
  se_fromNode :: "string option"
  se_toNode :: string
  se_edgeType :: edge_type
  se_briefId :: "string option"
  se_confidence :: lineage_confidence
  se_metadataJson :: "json_text option"
  se_createdAtMs :: nat

record new_edge =
  ne_id :: string
  ne_fromNode :: "string option"
  ne_toNode :: string
  ne_edgeType :: edge_type
  ne_briefId :: "string option"
  ne_confidence :: "lineage_confidence option"
  ne_metadataJson :: "json_text option"

record node_snapshots =
  ns_tokensIn :: "jsnum option"
  ns_tokensOut :: "jsnum option"
  ns_costEstimatedUsd :: "jsnum option"
  ns_lastActiveAtMs :: "jsnum option"

record record_merge_input =
  rm_node :: new_node
  rm_parents :: "string list"
  rm_briefId :: string
  rm_edgeIds :: "string list"

record lineage_db =
  ld_workstreams :: "(string, workstream_row) jmap"
  ld_nodes :: "(string, node_row) jmap"
  ld_briefs :: "(string, brief_row) jmap"
  ld_edges :: "(string, edge_row) jmap"

datatype lineage_error =
    LNodeNotFound string
  | LNoWorkstream string
  | LNoBrief string
  | LBlankId
  | LBlankTitle
  | LIdentityShaped
  | LUnknownAccount
  | LPairingViolation
  | LRelativeCwd
  | LVocabularyDecode
  | LBlankNativeId
  | LNativeIdOverwrite
  | LBadSnapshot
  | LBlankBody
  | LNoSources
  | LBadTokenCount
  | LImportWithFrom
  | LFromMissing
  | LSelfEdge
  | LHandoffNeedsBrief
  | LMergeArity
  | LMergeDuplicate
  | LMergeEdgeIds
  | LBriefNotMerge
  | LSqlFailure
  | LReadRange

definition is_lineage_store_error :: "lineage_error \<Rightarrow> bool" where
  "is_lineage_store_error e = (e \<noteq> LSqlFailure \<and> e \<noteq> LReadRange)"

type_synonym 'a lin = "lineage_db \<times> (lineage_error + 'a)"

text \<open>Guards first, then the statement: a refused call leaves the tables alone.\<close>

definition after_guards :: "lineage_db \<Rightarrow> lineage_error + 'a \<Rightarrow> ('a \<Rightarrow> 'b lin) \<Rightarrow> 'b lin" where
  "after_guards db m f = (case m of Inl e \<Rightarrow> (db, Inl e) | Inr x \<Rightarrow> f x)"

section \<open>Guards and decoding\<close>

definition screenNamingLineage :: "string option \<Rightarrow> lineage_error + unit" where
  "screenNamingLineage v = guard (case v of None \<Rightarrow> True | Some s \<Rightarrow> assertIdentityFreeColumn s) LIdentityShaped"

definition requireNonBlankLineageId :: "string \<Rightarrow> lineage_error + unit" where
  "requireNonBlankLineageId i = guard (\<not> is_blank i) LBlankId"

definition readable_column :: "jsnum option \<Rightarrow> bool" where
  "readable_column v = (case v of None \<Rightarrow> True | Some x \<Rightarrow> is_safe_integer x)"

definition nodeFromSql :: "registry \<Rightarrow> node_row \<Rightarrow> lineage_error + node_row" where
  "nodeFromSql reg r =
    (if \<not> (readable_column (sn_tokensIn r) \<and> readable_column (sn_tokensOut r) \<and> readable_column (sn_lastActiveAtMs r))
     then Inl LReadRange
     else if \<not> (isBackend reg (sn_backend r) \<and> isAccountLabel reg (sn_account r)) then Inl LVocabularyDecode
     else Inr r)"

definition getWorkstream :: "lineage_db \<Rightarrow> string \<Rightarrow> lineage_error + workstream_row" where
  "getWorkstream db i = of_option (LNoWorkstream i) (jm_get (ld_workstreams db) i)"

definition getNode :: "registry \<Rightarrow> lineage_db \<Rightarrow> string \<Rightarrow> lineage_error + node_row" where
  "getNode reg db i = r_bind (of_option (LNodeNotFound i) (jm_get (ld_nodes db) i)) (nodeFromSql reg)"

primrec decode_nodes :: "registry \<Rightarrow> node_row list \<Rightarrow> lineage_error + node_row list" where
  "decode_nodes reg [] = Inr []"
| "decode_nodes reg (r # rs) = r_bind (nodeFromSql reg r) (\<lambda>r. r_bind (decode_nodes reg rs) (\<lambda>rs. Inr (r # rs)))"

primrec getNodes :: "registry \<Rightarrow> lineage_db \<Rightarrow> string list \<Rightarrow> lineage_error + unit" where
  "getNodes reg db [] = Inr ()"
| "getNodes reg db (i # is) = r_bind (getNode reg db i) (\<lambda>_. getNodes reg db is)"

primrec screenTags :: "string list \<Rightarrow> lineage_error + unit" where
  "screenTags [] = Inr ()"
| "screenTags (t # ts) = r_bind (screenNamingLineage (Some t)) (\<lambda>_. screenTags ts)"

definition time_id_cmp :: "('r \<Rightarrow> nat) \<Rightarrow> ('r \<Rightarrow> string) \<Rightarrow> 'r \<Rightarrow> 'r \<Rightarrow> int" where
  "time_id_cmp created ident r s = then_cmp (int_cmp (created r) (created s)) (str_cmp (ident r) (ident s))"

section \<open>Workstreams\<close>

definition put_workstream :: "lineage_db \<Rightarrow> string \<Rightarrow> workstream_row \<Rightarrow> workstream_row lin" where
  "put_workstream db i r =
    (let db' = db\<lparr>ld_workstreams := jm_set (ld_workstreams db) i r\<rparr> in (db', getWorkstream db' i))"

definition new_workstream_row :: "nat \<Rightarrow> new_workstream \<Rightarrow> workstream_row" where
  "new_workstream_row ts inp = \<lparr>wr_id = nw_id inp, wr_title = nw_title inp, wr_description = nw_description inp,
     wr_status = (case nw_status inp of None \<Rightarrow> WActive | Some st \<Rightarrow> st),
     wr_tags = (case nw_tags inp of None \<Rightarrow> [] | Some tags \<Rightarrow> tags), wr_createdAtMs = ts, wr_updatedAtMs = ts\<rparr>"

definition workstreams_insert :: "lineage_db \<Rightarrow> nat \<Rightarrow> new_workstream \<Rightarrow> workstream_row lin" where
  "workstreams_insert db ts inp = after_guards db
    (r_bind (requireNonBlankLineageId (nw_id inp)) (\<lambda>_.
     r_bind (guard (\<not> is_blank (nw_title inp)) LBlankTitle) (\<lambda>_.
     r_bind (screenNamingLineage (Some (nw_title inp))) (\<lambda>_.
     r_bind (screenNamingLineage (nw_description inp)) (\<lambda>_.
     r_bind (screenTags (case nw_tags inp of None \<Rightarrow> [] | Some tags \<Rightarrow> tags)) (\<lambda>_.
     guard (\<not> jm_has (ld_workstreams db) (nw_id inp)) LSqlFailure))))))
    (\<lambda>_. put_workstream db (nw_id inp) (new_workstream_row ts inp))"

definition workstreams_get :: "lineage_db \<Rightarrow> string \<Rightarrow> workstream_row option" where
  "workstreams_get db i = jm_get (ld_workstreams db) i"

definition workstreams_list :: "lineage_db \<Rightarrow> workstream_status list option \<Rightarrow> workstream_row list" where
  "workstreams_list db statuses = js_sort (time_id_cmp wr_createdAtMs wr_id)
     (filter (\<lambda>r. case statuses of None \<Rightarrow> True | Some sts \<Rightarrow> sts = [] \<or> wr_status r \<in> set sts)
       (jm_values (ld_workstreams db)))"

definition workstreams_setStatus :: "lineage_db \<Rightarrow> nat \<Rightarrow> string \<Rightarrow> workstream_status \<Rightarrow> workstream_row lin" where
  "workstreams_setStatus db ts i status = after_guards db (getWorkstream db i)
     (\<lambda>r. put_workstream db i (r\<lparr>wr_status := status, wr_updatedAtMs := ts\<rparr>))"

definition workstreams_rename :: "lineage_db \<Rightarrow> nat \<Rightarrow> string \<Rightarrow> string \<Rightarrow> workstream_row lin" where
  "workstreams_rename db ts i title = after_guards db
    (r_bind (guard (\<not> is_blank title) LBlankTitle) (\<lambda>_.
     r_bind (screenNamingLineage (Some title)) (\<lambda>_. getWorkstream db i)))
    (\<lambda>r. put_workstream db i (r\<lparr>wr_title := title, wr_updatedAtMs := ts\<rparr>))"

definition workstreams_setTags :: "lineage_db \<Rightarrow> nat \<Rightarrow> string \<Rightarrow> string list \<Rightarrow> workstream_row lin" where
  "workstreams_setTags db ts i tags = after_guards db
    (r_bind (screenTags tags) (\<lambda>_. getWorkstream db i))
    (\<lambda>r. put_workstream db i (r\<lparr>wr_tags := tags, wr_updatedAtMs := ts\<rparr>))"

section \<open>Nodes\<close>

definition put_node :: "registry \<Rightarrow> lineage_db \<Rightarrow> string \<Rightarrow> node_row \<Rightarrow> node_row lin" where
  "put_node reg db i r = (let db' = db\<lparr>ld_nodes := jm_set (ld_nodes db) i r\<rparr> in (db', getNode reg db' i))"

definition new_node_row :: "nat \<Rightarrow> new_node \<Rightarrow> node_row" where
  "new_node_row ts inp = \<lparr>sn_id = nn_id inp, sn_workstreamId = nn_workstreamId inp, sn_backend = nn_backend inp,
     sn_account = nn_account inp, sn_nativeSessionId = nn_nativeSessionId inp, sn_nativeScope = nn_nativeScope inp,
     sn_transcriptRef = nn_transcriptRef inp, sn_cwd = nn_cwd inp, sn_gitBranch = nn_gitBranch inp,
     sn_worktree = nn_worktree inp, sn_displayName = nn_displayName inp, sn_firstPromptHash = nn_firstPromptHash inp,
     sn_state = nn_state inp, sn_origin = nn_origin inp, sn_confidence = nn_confidence inp, sn_tokensIn = None,
     sn_tokensOut = None, sn_costEstimatedUsd = None, sn_createdAtMs = ts, sn_lastActiveAtMs = None\<rparr>"

definition node_check :: "node_row \<Rightarrow> bool" where
  "node_check r = (sn_id r \<noteq> [] \<and> sn_backend r \<noteq> []
     \<and> (builtin_label_form (sn_account r) \<or> (sn_account r \<noteq> [] \<and> sn_backend r \<notin> set BACKENDS))
     \<and> (sn_backend r \<notin> set BACKENDS
        \<or> (isClaudeAccountLabel (sn_account r) \<and> sn_backend r = ''claude_code'')
        \<or> (sn_account r = ''AWS_DEV'' \<and> sn_backend r = ''opencode'')
        \<or> (sn_account r = ''LOCAL'' \<and> sn_backend r = ''lmstudio'')))"

definition nodes_insert :: "registry \<Rightarrow> lineage_db \<Rightarrow> nat \<Rightarrow> new_node \<Rightarrow> node_row lin" where
  "nodes_insert reg db ts inp = after_guards db
    (r_bind (requireNonBlankLineageId (nn_id inp)) (\<lambda>_.
     r_bind (guard (isAccountLabel reg (nn_account inp)) LUnknownAccount) (\<lambda>_.
     r_bind (guard (backendForLabel reg (nn_account inp) = Some (nn_backend inp)) LPairingViolation) (\<lambda>_.
     r_bind (guard (case nn_cwd inp of None \<Rightarrow> True | Some p \<Rightarrow> absolute_path p) LRelativeCwd) (\<lambda>_.
     r_bind (case nn_workstreamId inp of None \<Rightarrow> Inr () | Some w \<Rightarrow> r_bind (getWorkstream db w) (\<lambda>_. Inr ())) (\<lambda>_.
     r_bind (screenNamingLineage (nn_displayName inp)) (\<lambda>_.
     r_bind (screenNamingLineage (nn_gitBranch inp)) (\<lambda>_.
     guard (\<not> jm_has (ld_nodes db) (nn_id inp) \<and> node_check (new_node_row ts inp)) LSqlFailure))))))))
    (\<lambda>_. put_node reg db (nn_id inp) (new_node_row ts inp))"

definition nodes_get :: "registry \<Rightarrow> lineage_db \<Rightarrow> string \<Rightarrow> lineage_error + node_row option" where
  "nodes_get reg db i = (case jm_get (ld_nodes db) i of
     None \<Rightarrow> Inr None | Some r \<Rightarrow> r_bind (nodeFromSql reg r) (\<lambda>r. Inr (Some r)))"

definition byNativeSessionId :: "registry \<Rightarrow> lineage_db \<Rightarrow> string \<Rightarrow> lineage_error + node_row option" where
  "byNativeSessionId reg db native =
    (case js_sort (time_id_cmp sn_createdAtMs sn_id)
        (filter (\<lambda>r. sn_nativeSessionId r = Some native) (jm_values (ld_nodes db))) of
       [] \<Rightarrow> Inr None | r # _ \<Rightarrow> r_bind (nodeFromSql reg r) (\<lambda>r. Inr (Some r)))"

definition nodes_list :: "registry \<Rightarrow> lineage_db \<Rightarrow> string option \<Rightarrow> bool \<Rightarrow> node_state list option \<Rightarrow>
    lineage_error + node_row list" where
  "nodes_list reg db workstreamId detached states = decode_nodes reg (js_sort (time_id_cmp sn_createdAtMs sn_id)
     (filter (\<lambda>r. (case workstreamId of None \<Rightarrow> True | Some w \<Rightarrow> sn_workstreamId r = Some w)
        \<and> (detached \<longrightarrow> sn_workstreamId r = None)
        \<and> (case states of None \<Rightarrow> True | Some sts \<Rightarrow> sts = [] \<or> sn_state r \<in> set sts)) (jm_values (ld_nodes db))))"

definition assignWorkstream :: "registry \<Rightarrow> lineage_db \<Rightarrow> string \<Rightarrow> string option \<Rightarrow> node_row lin" where
  "assignWorkstream reg db i w = after_guards db
    (r_bind (getNode reg db i) (\<lambda>r.
     r_bind (case w of None \<Rightarrow> Inr () | Some w \<Rightarrow> r_bind (getWorkstream db w) (\<lambda>_. Inr ())) (\<lambda>_. Inr r)))
    (\<lambda>r. put_node reg db i (r\<lparr>sn_workstreamId := w\<rparr>))"

definition nodes_setState :: "registry \<Rightarrow> lineage_db \<Rightarrow> string \<Rightarrow> node_state \<Rightarrow> node_row lin" where
  "nodes_setState reg db i st = after_guards db (getNode reg db i) (\<lambda>r. put_node reg db i (r\<lparr>sn_state := st\<rparr>))"

definition nodes_backfill :: "registry \<Rightarrow> lineage_db \<Rightarrow> string \<Rightarrow> string \<Rightarrow> node_row lin" where
  "nodes_backfill reg db i native = after_guards db
    (r_bind (guard (\<not> is_blank native) LBlankNativeId) (\<lambda>_.
     r_bind (getNode reg db i) (\<lambda>current.
     r_bind (guard (sn_nativeSessionId current = None \<or> sn_nativeSessionId current = Some native) LNativeIdOverwrite) (\<lambda>_.
     Inr current))))
    (\<lambda>current. if sn_nativeSessionId current = Some native then (db, Inr current)
       else put_node reg db i (current\<lparr>sn_nativeSessionId := Some native\<rparr>))"

definition updateNativeScope :: "registry \<Rightarrow> lineage_db \<Rightarrow> string \<Rightarrow> string \<Rightarrow> node_row lin" where
  "updateNativeScope reg db i scope = after_guards db (getNode reg db i)
     (\<lambda>r. put_node reg db i (r\<lparr>sn_nativeScope := Some scope\<rparr>))"

definition non_negative :: "jsnum option \<Rightarrow> bool" where
  "non_negative v = (case v of None \<Rightarrow> True | Some (Fin q) \<Rightarrow> 0 \<le> q | Some _ \<Rightarrow> False)"

text \<open>An integer column takes a number only when it is a 64-bit integer.\<close>

definition sql_integer :: "jsnum option \<Rightarrow> bool" where
  "sql_integer v = (case v of None \<Rightarrow> True | Some (Fin q) \<Rightarrow> is_integer_rat q \<and> \<bar>q\<bar> < 2 ^ 63 | Some _ \<Rightarrow> False)"

definition updateSnapshots :: "registry \<Rightarrow> lineage_db \<Rightarrow> string \<Rightarrow> node_snapshots \<Rightarrow> node_row lin" where
  "updateSnapshots reg db i sn = after_guards db
    (r_bind (getNode reg db i) (\<lambda>current.
     r_bind (guard (non_negative (ns_tokensIn sn) \<and> non_negative (ns_tokensOut sn)
        \<and> non_negative (ns_costEstimatedUsd sn) \<and> non_negative (ns_lastActiveAtMs sn)) LBadSnapshot) (\<lambda>_.
     r_bind (guard (sql_integer (ns_tokensIn sn) \<and> sql_integer (ns_tokensOut sn) \<and> sql_integer (ns_lastActiveAtMs sn))
        LSqlFailure) (\<lambda>_. Inr current))))
    (\<lambda>current. put_node reg db i (current\<lparr>
       sn_tokensIn := or_else (ns_tokensIn sn) (sn_tokensIn current),
       sn_tokensOut := or_else (ns_tokensOut sn) (sn_tokensOut current),
       sn_costEstimatedUsd := or_else (ns_costEstimatedUsd sn) (sn_costEstimatedUsd current),
       sn_lastActiveAtMs := or_else (ns_lastActiveAtMs sn) (sn_lastActiveAtMs current)\<rparr>))"

section \<open>Briefs\<close>

definition new_brief_row :: "nat \<Rightarrow> nat option \<Rightarrow> new_brief \<Rightarrow> brief_row" where
  "new_brief_row ts tokens inp = \<lparr>br_id = nb_id inp, br_kind = nb_kind inp, br_bodyMd = nb_bodyMd inp,
     br_sourceNodes = nb_sourceNodes inp, br_provenance = nb_provenance inp, br_tokenCount = tokens,
     br_createdAtMs = ts\<rparr>"

definition briefs_insert :: "registry \<Rightarrow> lineage_db \<Rightarrow> nat \<Rightarrow> new_brief \<Rightarrow> brief_row lin" where
  "briefs_insert reg db ts inp = after_guards db
    (r_bind (requireNonBlankLineageId (nb_id inp)) (\<lambda>_.
     r_bind (guard (\<not> is_blank (nb_bodyMd inp)) LBlankBody) (\<lambda>_.
     r_bind (guard (nb_sourceNodes inp \<noteq> []) LNoSources) (\<lambda>_.
     r_bind (getNodes reg db (nb_sourceNodes inp)) (\<lambda>_.
     r_bind (opt_field (nb_tokenCount inp) (\<lambda>x. of_option LBadTokenCount (as_safe_nat x))) (\<lambda>tokens.
     r_bind (guard (\<not> jm_has (ld_briefs db) (nb_id inp)) LSqlFailure) (\<lambda>_. Inr tokens)))))))
    (\<lambda>tokens. let r = new_brief_row ts tokens inp
       in (db\<lparr>ld_briefs := jm_set (ld_briefs db) (nb_id inp) r\<rparr>, Inr r))"

definition briefs_get :: "lineage_db \<Rightarrow> string \<Rightarrow> brief_row option" where
  "briefs_get db i = jm_get (ld_briefs db) i"

definition briefs_list :: "lineage_db \<Rightarrow> brief_kind list option \<Rightarrow> brief_row list" where
  "briefs_list db kinds = js_sort (time_id_cmp br_createdAtMs br_id)
     (filter (\<lambda>r. case kinds of None \<Rightarrow> True | Some ks \<Rightarrow> ks = [] \<or> br_kind r \<in> set ks) (jm_values (ld_briefs db)))"

section \<open>Edges\<close>

definition new_edge_row :: "nat \<Rightarrow> new_edge \<Rightarrow> edge_row" where
  "new_edge_row ts inp = \<lparr>se_id = ne_id inp, se_fromNode = ne_fromNode inp, se_toNode = ne_toNode inp,
     se_edgeType = ne_edgeType inp, se_briefId = ne_briefId inp,
     se_confidence = (case ne_confidence inp of None \<Rightarrow> Recorded | Some c \<Rightarrow> c),
     se_metadataJson = ne_metadataJson inp, se_createdAtMs = ts\<rparr>"

definition insertEdgeUnchecked :: "lineage_db \<Rightarrow> nat \<Rightarrow> new_edge \<Rightarrow> edge_row lin" where
  "insertEdgeUnchecked db ts inp = after_guards db
    (guard (\<not> jm_has (ld_edges db) (ne_id inp)) LSqlFailure)
    (\<lambda>_. let r = new_edge_row ts inp in (db\<lparr>ld_edges := jm_set (ld_edges db) (ne_id inp) r\<rparr>, Inr r))"

definition validateEdgeInput :: "registry \<Rightarrow> lineage_db \<Rightarrow> new_edge \<Rightarrow> lineage_error + unit" where
  "validateEdgeInput reg db inp =
    r_bind (requireNonBlankLineageId (ne_id inp)) (\<lambda>_.
    r_bind (guard (ne_edgeType inp = EImport \<longrightarrow> ne_fromNode inp = None) LImportWithFrom) (\<lambda>_.
    r_bind (guard (ne_edgeType inp \<noteq> EImport \<longrightarrow> ne_fromNode inp \<noteq> None) LFromMissing) (\<lambda>_.
    r_bind (guard (ne_edgeType inp = EContinue \<or> ne_fromNode inp \<noteq> Some (ne_toNode inp)) LSelfEdge) (\<lambda>_.
    r_bind (getNode reg db (ne_toNode inp)) (\<lambda>_.
    r_bind (case ne_fromNode inp of None \<Rightarrow> Inr () | Some f \<Rightarrow> r_bind (getNode reg db f) (\<lambda>_. Inr ())) (\<lambda>_.
    r_bind (guard (ne_edgeType inp = EHandoff \<longrightarrow> ne_briefId inp \<noteq> None) LHandoffNeedsBrief) (\<lambda>_.
    case ne_briefId inp of None \<Rightarrow> Inr () | Some b \<Rightarrow> guard (briefs_get db b \<noteq> None) (LNoBrief b))))))))"

definition edges_insert :: "registry \<Rightarrow> lineage_db \<Rightarrow> nat \<Rightarrow> new_edge \<Rightarrow> edge_row lin" where
  "edges_insert reg db ts inp = after_guards db (validateEdgeInput reg db inp) (\<lambda>_. insertEdgeUnchecked db ts inp)"

definition edges_get :: "lineage_db \<Rightarrow> string \<Rightarrow> edge_row option" where
  "edges_get db i = jm_get (ld_edges db) i"

definition listByNode :: "lineage_db \<Rightarrow> string \<Rightarrow> edge_row list" where
  "listByNode db i = js_sort (time_id_cmp se_createdAtMs se_id)
     (filter (\<lambda>e. se_fromNode e = Some i \<or> se_toNode e = i) (jm_values (ld_edges db)))"

definition edges_list :: "lineage_db \<Rightarrow> edge_type list option \<Rightarrow> edge_row list" where
  "edges_list db types = js_sort (time_id_cmp se_createdAtMs se_id)
     (filter (\<lambda>e. case types of None \<Rightarrow> True | Some ts \<Rightarrow> ts = [] \<or> se_edgeType e \<in> set ts) (jm_values (ld_edges db)))"

section \<open>The merge transaction\<close>

definition MERGE_MIN_PARENTS :: nat where
  "MERGE_MIN_PARENTS = 2"

definition MERGE_MAX_PARENTS :: nat where
  "MERGE_MAX_PARENTS = 16"

definition merge_edge :: "string \<Rightarrow> string \<Rightarrow> string \<times> string \<Rightarrow> new_edge" where
  "merge_edge toNode briefId pe = \<lparr>ne_id = snd pe, ne_fromNode = Some (fst pe), ne_toNode = toNode,
     ne_edgeType = EMergeParent, ne_briefId = Some briefId, ne_confidence = None, ne_metadataJson = None\<rparr>"

primrec insert_edges :: "registry \<Rightarrow> nat \<Rightarrow> lineage_db \<Rightarrow> new_edge list \<Rightarrow> edge_row list lin" where
  "insert_edges reg ts db [] = (db, Inr [])"
| "insert_edges reg ts db (e # es) = (case edges_insert reg db ts e of
     (db1, Inl err) \<Rightarrow> (db1, Inl err)
   | (db1, Inr r) \<Rightarrow> (case insert_edges reg ts db1 es of
       (db2, Inl err) \<Rightarrow> (db2, Inl err) | (db2, Inr rs) \<Rightarrow> (db2, Inr (r # rs))))"

definition merge_guards :: "registry \<Rightarrow> lineage_db \<Rightarrow> record_merge_input \<Rightarrow> lineage_error + unit" where
  "merge_guards reg db inp =
    r_bind (guard (MERGE_MIN_PARENTS \<le> length (rm_parents inp) \<and> length (rm_parents inp) \<le> MERGE_MAX_PARENTS) LMergeArity) (\<lambda>_.
    r_bind (guard (distinct (rm_parents inp)) LMergeDuplicate) (\<lambda>_.
    r_bind (guard (length (rm_edgeIds inp) = length (rm_parents inp)) LMergeEdgeIds) (\<lambda>_.
    r_bind (getNodes reg db (rm_parents inp)) (\<lambda>_.
    r_bind (of_option (LNoBrief (rm_briefId inp)) (briefs_get db (rm_briefId inp))) (\<lambda>brief.
    guard (br_kind brief = BMerge) LBriefNotMerge)))))"

definition merge_body :: "registry \<Rightarrow> lineage_db \<Rightarrow> nat \<Rightarrow> record_merge_input \<Rightarrow> (node_row \<times> edge_row list) lin" where
  "merge_body reg db ts inp = (case nodes_insert reg db ts (rm_node inp) of
     (db1, Inl e) \<Rightarrow> (db1, Inl e)
   | (db1, Inr node) \<Rightarrow> (case insert_edges reg ts db1
          (map (merge_edge (sn_id node) (rm_briefId inp)) (zip (rm_parents inp) (rm_edgeIds inp))) of
       (db2, Inl e) \<Rightarrow> (db2, Inl e)
     | (db2, Inr edges) \<Rightarrow> (db2, Inr (node, edges))))"

definition recordMerge :: "registry \<Rightarrow> lineage_db \<Rightarrow> nat \<Rightarrow> record_merge_input \<Rightarrow> (node_row \<times> edge_row list) lin" where
  "recordMerge reg db ts inp = after_guards db (merge_guards reg db inp)
     (\<lambda>_. case merge_body reg db ts inp of
        (_, Inl e) \<Rightarrow> (db, Inl e)
      | (db', Inr x) \<Rightarrow> (db', Inr x))"

section \<open>What a call changes\<close>

definition workstream_exists :: "lineage_db \<Rightarrow> string option \<Rightarrow> bool" where
  "workstream_exists db w = (case w of None \<Rightarrow> True | Some i \<Rightarrow> jm_get (ld_workstreams db) i \<noteq> None)"

definition node_exists :: "lineage_db \<Rightarrow> string \<Rightarrow> bool" where
  "node_exists db i = (jm_get (ld_nodes db) i \<noteq> None)"

definition workstream_identity :: "workstream_row \<Rightarrow> string \<times> string option \<times> nat" where
  "workstream_identity r = (wr_id r, wr_description r, wr_createdAtMs r)"

definition node_identity :: "node_row \<Rightarrow> string list \<times> string option list \<times> node_origin \<times> lineage_confidence \<times> nat" where
  "node_identity r = ([sn_id r, sn_backend r, sn_account r],
     [sn_transcriptRef r, sn_cwd r, sn_gitBranch r, sn_worktree r, sn_displayName r, sn_firstPromptHash r],
     sn_origin r, sn_confidence r, sn_createdAtMs r)"

definition native_kept :: "node_row \<Rightarrow> node_row \<Rightarrow> bool" where
  "native_kept r r' = (sn_nativeSessionId r = None \<or> sn_nativeSessionId r' = sn_nativeSessionId r)"

text \<open>The rules of the edge types over the rows of the other tables.\<close>

definition edge_legal :: "lineage_db \<Rightarrow> edge_row \<Rightarrow> bool" where
  "edge_legal db e = (node_exists db (se_toNode e)
     \<and> (case se_fromNode e of None \<Rightarrow> se_edgeType e = EImport
        | Some f \<Rightarrow> se_edgeType e \<noteq> EImport \<and> node_exists db f \<and> (f = se_toNode e \<longrightarrow> se_edgeType e = EContinue))
     \<and> (case se_briefId e of None \<Rightarrow> se_edgeType e \<noteq> EHandoff | Some b \<Rightarrow> jm_get (ld_briefs db) b \<noteq> None))"

definition brief_legal :: "lineage_db \<Rightarrow> brief_row \<Rightarrow> bool" where
  "brief_legal db b = (br_sourceNodes b \<noteq> [] \<and> list_all (node_exists db) (br_sourceNodes b))"

text \<open>Every statement the store executes is one of six changes; a call is a sequence of them.\<close>

inductive lineage_change :: "lineage_db \<Rightarrow> lineage_db \<Rightarrow> bool" where
  workstream_new: "jm_get (ld_workstreams db) (wr_id r) = None \<Longrightarrow>
    lineage_change db (db\<lparr>ld_workstreams := jm_set (ld_workstreams db) (wr_id r) r\<rparr>)"
| workstream_upd: "jm_get (ld_workstreams db) i = Some r0 \<Longrightarrow> workstream_identity r = workstream_identity r0 \<Longrightarrow>
    lineage_change db (db\<lparr>ld_workstreams := jm_set (ld_workstreams db) i r\<rparr>)"
| node_new: "jm_get (ld_nodes db) (sn_id r) = None \<Longrightarrow> workstream_exists db (sn_workstreamId r) \<Longrightarrow>
    lineage_change db (db\<lparr>ld_nodes := jm_set (ld_nodes db) (sn_id r) r\<rparr>)"
| node_upd: "jm_get (ld_nodes db) i = Some r0 \<Longrightarrow> node_identity r = node_identity r0 \<Longrightarrow> native_kept r0 r \<Longrightarrow>
    sn_workstreamId r = sn_workstreamId r0 \<or> workstream_exists db (sn_workstreamId r) \<Longrightarrow>
    lineage_change db (db\<lparr>ld_nodes := jm_set (ld_nodes db) i r\<rparr>)"
| brief_new: "jm_get (ld_briefs db) (br_id r) = None \<Longrightarrow> brief_legal db r \<Longrightarrow>
    lineage_change db (db\<lparr>ld_briefs := jm_set (ld_briefs db) (br_id r) r\<rparr>)"
| edge_new: "jm_get (ld_edges db) (se_id r) = None \<Longrightarrow> edge_legal db r \<Longrightarrow>
    lineage_change db (db\<lparr>ld_edges := jm_set (ld_edges db) (se_id r) r\<rparr>)"

abbreviation lineage_changes :: "lineage_db \<Rightarrow> lineage_db \<Rightarrow> bool" where
  "lineage_changes \<equiv> lineage_change\<^sup>*\<^sup>*"

lemma after_guards_cases:
  obtains (refused) e where "m = Inl e" "after_guards db m f = (db, Inl e)"
  | (passed) x where "m = Inr x" "after_guards db m f = f x"
  by (cases m) (auto simp: after_guards_def)

lemma after_guards_elim:
  assumes "after_guards db m f = (db', res)"
  obtains (refused) e where "m = Inl e" "db' = db" "res = Inl e"
  | (passed) x where "m = Inr x" "f x = (db', res)"
  using assms by (cases m) (auto simp: after_guards_def)

lemma after_guards_changes:
  assumes "\<And>x. m = Inr x \<Longrightarrow> lineage_changes db (fst (f x))"
  shows "lineage_changes db (fst (after_guards db m f))"
  by (rule after_guards_cases [of m db f]) (use assms in auto)

lemma getWorkstream_Inr: "getWorkstream db i = Inr r \<longleftrightarrow> jm_get (ld_workstreams db) i = Some r"
  by (auto simp: getWorkstream_def of_option_Inr)

lemma nodeFromSql_Inr: "nodeFromSql reg r = Inr r' \<Longrightarrow> r' = r"
  by (auto simp: nodeFromSql_def split: if_splits)

lemma getNode_Inr: "getNode reg db i = Inr r \<Longrightarrow> jm_get (ld_nodes db) i = Some r"
  by (auto simp: getNode_def r_bind_Inr of_option_Inr dest: nodeFromSql_Inr)

lemma getNodes_Inr: "getNodes reg db is = Inr u \<Longrightarrow> list_all (node_exists db) is"
  by (induction "is") (auto simp: r_bind_Inr node_exists_def dest: getNode_Inr)

lemma fst_put: "fst (put_workstream db i r) = db\<lparr>ld_workstreams := jm_set (ld_workstreams db) i r\<rparr>"
  "fst (put_node reg db i n) = db\<lparr>ld_nodes := jm_set (ld_nodes db) i n\<rparr>"
  by (simp_all add: put_workstream_def put_node_def Let_def)

lemma workstream_put_changes:
  "jm_get (ld_workstreams db) i = Some r0 \<Longrightarrow> workstream_identity r = workstream_identity r0 \<Longrightarrow>
   lineage_changes db (fst (put_workstream db i r))"
  unfolding fst_put by (rule r_into_rtranclp) (rule workstream_upd)

lemma node_put_changes:
  "jm_get (ld_nodes db) i = Some r0 \<Longrightarrow> node_identity r = node_identity r0 \<Longrightarrow> native_kept r0 r \<Longrightarrow>
   sn_workstreamId r = sn_workstreamId r0 \<or> workstream_exists db (sn_workstreamId r) \<Longrightarrow>
   lineage_changes db (fst (put_node reg db i r))"
  unfolding fst_put by (rule r_into_rtranclp) (rule node_upd)

lemmas lineage_iffs = r_bind_Inr guard_Inr opt_field_Inr of_option_Inr getWorkstream_Inr jm_has_iff_get
  requireNonBlankLineageId_def

lemma workstreams_insert_changes: "lineage_changes db (fst (workstreams_insert db ts inp))"
  unfolding workstreams_insert_def
proof (rule after_guards_changes, unfold fst_put, rule r_into_rtranclp)
  fix x
  assume g: "r_bind (requireNonBlankLineageId (nw_id inp)) (\<lambda>_.
     r_bind (guard (\<not> is_blank (nw_title inp)) LBlankTitle) (\<lambda>_.
     r_bind (screenNamingLineage (Some (nw_title inp))) (\<lambda>_.
     r_bind (screenNamingLineage (nw_description inp)) (\<lambda>_.
     r_bind (screenTags (case nw_tags inp of None \<Rightarrow> [] | Some tags \<Rightarrow> tags)) (\<lambda>_.
     guard (\<not> jm_has (ld_workstreams db) (nw_id inp)) LSqlFailure))))) = Inr x"
  have id: "wr_id (new_workstream_row ts inp) = nw_id inp" by (simp add: new_workstream_row_def)
  have "jm_get (ld_workstreams db) (nw_id inp) = None" using g by (auto simp: lineage_iffs)
  then show "lineage_change db (db\<lparr>ld_workstreams := jm_set (ld_workstreams db) (nw_id inp) (new_workstream_row ts inp)\<rparr>)"
    using workstream_new [of db "new_workstream_row ts inp"] by (simp add: id)
qed

lemma workstreams_update_changes:
  "lineage_changes db (fst (workstreams_setStatus db ts i status))"
  "lineage_changes db (fst (workstreams_rename db ts i title))"
  "lineage_changes db (fst (workstreams_setTags db ts i tags))"
  unfolding workstreams_setStatus_def workstreams_rename_def workstreams_setTags_def
  by (rule after_guards_changes, rule workstream_put_changes, auto simp: lineage_iffs workstream_identity_def)+

lemma fst_nodes_insert:
  assumes "nodes_insert reg db ts inp = (db', res)"
  shows "db' = db \<and> (\<exists>e. res = Inl e) \<or> db' = db\<lparr>ld_nodes := jm_set (ld_nodes db) (nn_id inp) (new_node_row ts inp)\<rparr>
    \<and> jm_get (ld_nodes db) (nn_id inp) = None \<and> workstream_exists db (nn_workstreamId inp)
    \<and> res = getNode reg db' (nn_id inp)"
  using assms unfolding nodes_insert_def
proof (cases rule: after_guards_elim)
  case (passed x)
  then have "jm_get (ld_nodes db) (nn_id inp) = None" "workstream_exists db (nn_workstreamId inp)"
    unfolding workstream_exists_def by (auto simp only: lineage_iffs split: option.splits)
  then show ?thesis using passed(2) by (simp add: put_node_def Let_def) blast
qed simp

lemma nodes_insert_changes: "lineage_changes db (fst (nodes_insert reg db ts inp))"
proof -
  obtain db' res where c: "nodes_insert reg db ts inp = (db', res)" by (cases "nodes_insert reg db ts inp")
  have id: "sn_id (new_node_row ts inp) = nn_id inp" "sn_workstreamId (new_node_row ts inp) = nn_workstreamId inp"
    by (simp_all add: new_node_row_def)
  show ?thesis using fst_nodes_insert [OF c] node_new [of db "new_node_row ts inp"] unfolding c
    by (auto simp: id intro: r_into_rtranclp)
qed

lemma nodes_update_changes:
  "lineage_changes db (fst (nodes_setState reg db i st))"
  "lineage_changes db (fst (updateNativeScope reg db i scope))"
  "lineage_changes db (fst (updateSnapshots reg db i sn))"
  unfolding nodes_setState_def updateNativeScope_def updateSnapshots_def
  by (rule after_guards_changes, rule node_put_changes,
      auto simp: lineage_iffs node_identity_def native_kept_def dest: getNode_Inr)+

lemma assignWorkstream_changes: "lineage_changes db (fst (assignWorkstream reg db i w))"
  unfolding assignWorkstream_def
  by (rule after_guards_changes, rule node_put_changes)
    (auto simp: lineage_iffs node_identity_def native_kept_def workstream_exists_def dest: getNode_Inr split: option.splits)

lemma nodes_backfill_changes: "lineage_changes db (fst (nodes_backfill reg db i native))"
  unfolding nodes_backfill_def
proof (rule after_guards_changes)
  fix x
  assume "r_bind (guard (\<not> is_blank native) LBlankNativeId) (\<lambda>_.
     r_bind (getNode reg db i) (\<lambda>current.
     r_bind (guard (sn_nativeSessionId current = None \<or> sn_nativeSessionId current = Some native) LNativeIdOverwrite) (\<lambda>_.
     Inr current))) = Inr x"
  then have x: "jm_get (ld_nodes db) i = Some x" "sn_nativeSessionId x = None \<or> sn_nativeSessionId x = Some native"
    by (auto simp: lineage_iffs dest: getNode_Inr)
  have "lineage_changes db (fst (put_node reg db i (x\<lparr>sn_nativeSessionId := Some native\<rparr>)))"
    using x by (intro node_put_changes [OF x(1)]) (auto simp: node_identity_def native_kept_def)
  then show "lineage_changes db (fst (if sn_nativeSessionId x = Some native then (db, Inr x)
      else put_node reg db i (x\<lparr>sn_nativeSessionId := Some native\<rparr>)))" by simp
qed

lemma briefs_insert_cases:
  assumes "briefs_insert reg db ts inp = (db', res)"
  obtains (refused) e where "db' = db" "res = Inl e"
  | (written) tokens where "res = Inr (new_brief_row ts tokens inp)" "jm_get (ld_briefs db) (nb_id inp) = None"
      "db' = db\<lparr>ld_briefs := jm_set (ld_briefs db) (nb_id inp) (new_brief_row ts tokens inp)\<rparr>"
      "nb_sourceNodes inp \<noteq> []" "list_all (node_exists db) (nb_sourceNodes inp)"
  using assms unfolding briefs_insert_def
proof (cases rule: after_guards_elim)
  case (passed tokens)
  then have "jm_get (ld_briefs db) (nb_id inp) = None" "nb_sourceNodes inp \<noteq> []"
    "list_all (node_exists db) (nb_sourceNodes inp)"
    by (auto simp only: lineage_iffs dest: getNodes_Inr)
  then show thesis using passed(2) by (intro written [of tokens]) (simp_all add: Let_def)
qed (use refused in simp)

lemma briefs_insert_changes: "lineage_changes db (fst (briefs_insert reg db ts inp))"
proof (rule briefs_insert_cases [of reg db ts inp "fst (briefs_insert reg db ts inp)" "snd (briefs_insert reg db ts inp)"])
  fix tokens
  assume w: "fst (briefs_insert reg db ts inp) = db\<lparr>ld_briefs := jm_set (ld_briefs db) (nb_id inp) (new_brief_row ts tokens inp)\<rparr>"
    "jm_get (ld_briefs db) (nb_id inp) = None" "nb_sourceNodes inp \<noteq> []" "list_all (node_exists db) (nb_sourceNodes inp)"
  have "br_id (new_brief_row ts tokens inp) = nb_id inp" "brief_legal db (new_brief_row ts tokens inp)"
    using w by (simp_all add: new_brief_row_def brief_legal_def)
  then show ?thesis using brief_new [of db "new_brief_row ts tokens inp"] w by auto
qed auto

lemma edges_insert_cases:
  assumes "edges_insert reg db ts inp = (db', res)"
  obtains (refused) e where "db' = db" "res = Inl e"
  | (written) "res = Inr (new_edge_row ts inp)" "jm_get (ld_edges db) (ne_id inp) = None"
      "db' = db\<lparr>ld_edges := jm_set (ld_edges db) (ne_id inp) (new_edge_row ts inp)\<rparr>"
      "validateEdgeInput reg db inp = Inr ()"
  using assms unfolding edges_insert_def
proof (cases rule: after_guards_elim)
  case (passed x)
  from passed(2) show thesis unfolding insertEdgeUnchecked_def
  proof (cases rule: after_guards_elim)
    case (passed y)
    then show thesis using written \<open>validateEdgeInput reg db inp = Inr x\<close>
      by (auto simp: guard_Inr jm_has_iff_get Let_def)
  qed (use refused in simp)
qed (use refused in simp)

lemma validated_edge_legal:
  assumes "validateEdgeInput reg db inp = Inr ()"
  shows "edge_legal db (new_edge_row ts inp)"
proof -
  have v: "jm_get (ld_nodes db) (ne_toNode inp) \<noteq> None"
    "ne_edgeType inp = EImport \<longleftrightarrow> ne_fromNode inp = None"
    "ne_edgeType inp = EContinue \<or> ne_fromNode inp \<noteq> Some (ne_toNode inp)"
    "\<And>f. ne_fromNode inp = Some f \<Longrightarrow> jm_get (ld_nodes db) f \<noteq> None"
    "ne_edgeType inp = EHandoff \<Longrightarrow> ne_briefId inp \<noteq> None"
    "\<And>b. ne_briefId inp = Some b \<Longrightarrow> jm_get (ld_briefs db) b \<noteq> None"
    using assms unfolding validateEdgeInput_def
    by (auto simp: lineage_iffs briefs_get_def dest: getNode_Inr split: option.splits)
  show ?thesis using v by (auto simp: edge_legal_def new_edge_row_def node_exists_def split: option.split)
qed

lemma edges_insert_changes: "lineage_changes db (fst (edges_insert reg db ts inp))"
proof (rule edges_insert_cases [of reg db ts inp "fst (edges_insert reg db ts inp)" "snd (edges_insert reg db ts inp)"])
  assume w: "fst (edges_insert reg db ts inp) = db\<lparr>ld_edges := jm_set (ld_edges db) (ne_id inp) (new_edge_row ts inp)\<rparr>"
    "jm_get (ld_edges db) (ne_id inp) = None" "validateEdgeInput reg db inp = Inr ()"
  have "se_id (new_edge_row ts inp) = ne_id inp" by (simp add: new_edge_row_def)
  then show ?thesis using edge_new [of db "new_edge_row ts inp"] validated_edge_legal [OF w(3), of ts] w(1,2) by auto
qed auto

lemma insert_edges_changes: "lineage_changes db (fst (insert_edges reg ts db es))"
proof (induction es arbitrary: db)
  case (Cons e es)
  obtain db1 res where c: "edges_insert reg db ts e = (db1, res)" by (cases "edges_insert reg db ts e")
  have "lineage_changes db db1" using edges_insert_changes [of db reg ts e] by (simp add: c)
  moreover have "lineage_changes db1 (fst (insert_edges reg ts db1 es))" by (rule Cons.IH)
  ultimately show ?case by (auto simp: c split: sum.split prod.split)
qed simp

lemma recordMerge_changes: "lineage_changes db (fst (recordMerge reg db ts inp))"
  unfolding recordMerge_def
proof (rule after_guards_changes)
  obtain db1 res where c: "nodes_insert reg db ts (rm_node inp) = (db1, res)" by (cases "nodes_insert reg db ts (rm_node inp)")
  have d: "lineage_changes db db1" using nodes_insert_changes [of db reg ts "rm_node inp"] by (simp add: c)
  have "lineage_changes db (fst (merge_body reg db ts inp))"
  proof (cases res)
    case (Inr node)
    have "lineage_changes db1 (fst (insert_edges reg ts db1
        (map (merge_edge (sn_id node) (rm_briefId inp)) (zip (rm_parents inp) (rm_edgeIds inp)))))"
      by (rule insert_edges_changes)
    then show ?thesis using d Inr by (auto simp: merge_body_def c split: sum.split prod.split)
  qed (use d in \<open>simp add: merge_body_def c\<close>)
  then show "lineage_changes db (fst (case merge_body reg db ts inp of (_, Inl e) \<Rightarrow> (db, Inl e) | (db', Inr x) \<Rightarrow> (db', Inr x)))"
    by (auto split: sum.split prod.split)
qed

section \<open>Histories\<close>

definition lineage_ok :: "lineage_db \<Rightarrow> bool" where
  "lineage_ok db \<longleftrightarrow>
     (\<forall>i r. jm_get (ld_workstreams db) i = Some r \<longrightarrow> wr_id r = i)
     \<and> (\<forall>i r. jm_get (ld_nodes db) i = Some r \<longrightarrow> sn_id r = i \<and> workstream_exists db (sn_workstreamId r))
     \<and> (\<forall>i r. jm_get (ld_briefs db) i = Some r \<longrightarrow> br_id r = i \<and> brief_legal db r)
     \<and> (\<forall>i r. jm_get (ld_edges db) i = Some r \<longrightarrow> se_id r = i \<and> edge_legal db r)
     \<and> jm_ok (ld_workstreams db) \<and> jm_ok (ld_nodes db) \<and> jm_ok (ld_edges db)"

definition lineage_le :: "lineage_db \<Rightarrow> lineage_db \<Rightarrow> bool" where
  "lineage_le db db' \<longleftrightarrow>
     (\<forall>i r. jm_get (ld_workstreams db) i = Some r \<longrightarrow>
        (\<exists>r'. jm_get (ld_workstreams db') i = Some r' \<and> workstream_identity r' = workstream_identity r))
     \<and> (\<forall>i r. jm_get (ld_nodes db) i = Some r \<longrightarrow>
        (\<exists>r'. jm_get (ld_nodes db') i = Some r' \<and> node_identity r' = node_identity r \<and> native_kept r r'))
     \<and> (\<forall>i r. jm_get (ld_briefs db) i = Some r \<longrightarrow> jm_get (ld_briefs db') i = Some r)
     \<and> (\<forall>i r. jm_get (ld_edges db) i = Some r \<longrightarrow> jm_get (ld_edges db') i = Some r)"

lemma native_kept_trans: "native_kept a b \<Longrightarrow> native_kept b c \<Longrightarrow> native_kept a c"
  by (auto simp: native_kept_def)

lemma native_kept_refl [simp]: "native_kept r r"
  by (simp add: native_kept_def)

lemma lineage_le_refl: "lineage_le db db"
  by (simp add: lineage_le_def)

lemma lineage_le_trans:
  assumes ab: "lineage_le a b" and bc: "lineage_le b c"
  shows "lineage_le a c"
proof -
  have "\<exists>r'. jm_get (ld_workstreams c) i = Some r' \<and> workstream_identity r' = workstream_identity r"
    if g: "jm_get (ld_workstreams a) i = Some r" for i r
  proof -
    obtain s where "jm_get (ld_workstreams b) i = Some s" "workstream_identity s = workstream_identity r"
      using ab g unfolding lineage_le_def by blast
    then show ?thesis using bc unfolding lineage_le_def by fastforce
  qed
  moreover have "\<exists>r'. jm_get (ld_nodes c) i = Some r' \<and> node_identity r' = node_identity r \<and> native_kept r r'"
    if g: "jm_get (ld_nodes a) i = Some r" for i r
  proof -
    obtain s where s: "jm_get (ld_nodes b) i = Some s" "node_identity s = node_identity r" "native_kept r s"
      using ab g unfolding lineage_le_def by blast
    obtain t where "jm_get (ld_nodes c) i = Some t" "node_identity t = node_identity s" "native_kept s t"
      using bc s(1) unfolding lineage_le_def by blast
    then show ?thesis using s native_kept_trans by auto
  qed
  moreover have "jm_get (ld_briefs c) i = Some r" if "jm_get (ld_briefs a) i = Some r" for i r
    using ab bc that unfolding lineage_le_def by blast
  moreover have "jm_get (ld_edges c) i = Some r" if "jm_get (ld_edges a) i = Some r" for i r
    using ab bc that unfolding lineage_le_def by blast
  ultimately show ?thesis unfolding lineage_le_def by blast
qed

lemma lineage_change_le: "lineage_change db db' \<Longrightarrow> lineage_le db db'"
  by (induction rule: lineage_change.induct) (auto simp: lineage_le_def jm_get_set)

text \<open>Rows that exist stay legal when tables only grow.\<close>

lemma legal_mono:
  assumes "lineage_le db db'"
  shows "node_exists db i \<Longrightarrow> node_exists db' i" "workstream_exists db w \<Longrightarrow> workstream_exists db' w"
    "brief_legal db b \<Longrightarrow> brief_legal db' b" "edge_legal db e \<Longrightarrow> edge_legal db' e"
proof -
  show n: "node_exists db i \<Longrightarrow> node_exists db' i" for i
    using assms unfolding lineage_le_def node_exists_def by blast
  have "jm_get (ld_workstreams db) x \<noteq> None \<Longrightarrow> jm_get (ld_workstreams db') x \<noteq> None" for x
    using assms unfolding lineage_le_def by blast
  then show "workstream_exists db w \<Longrightarrow> workstream_exists db' w" by (auto simp: workstream_exists_def split: option.splits)
  show "brief_legal db b \<Longrightarrow> brief_legal db' b" using n by (auto simp: brief_legal_def list_all_iff)
  have "jm_get (ld_briefs db) x \<noteq> None \<Longrightarrow> jm_get (ld_briefs db') x \<noteq> None" for x
    using assms unfolding lineage_le_def by blast
  then show "edge_legal db e \<Longrightarrow> edge_legal db' e"
    using n unfolding edge_legal_def by (auto split: option.splits)
qed

lemma lineage_change_ok:
  assumes "lineage_change db db'" "lineage_ok db"
  shows "lineage_ok db'"
proof -
  have ws: "\<And>i r. jm_get (ld_workstreams db) i = Some r \<Longrightarrow> wr_id r = i"
    and nd: "\<And>i r. jm_get (ld_nodes db) i = Some r \<Longrightarrow> sn_id r = i \<and> workstream_exists db (sn_workstreamId r)"
    and bs: "\<And>i r. jm_get (ld_briefs db) i = Some r \<Longrightarrow> br_id r = i \<and> brief_legal db r"
    and es: "\<And>i r. jm_get (ld_edges db) i = Some r \<Longrightarrow> se_id r = i \<and> edge_legal db r"
    and ok: "jm_ok (ld_workstreams db)" "jm_ok (ld_nodes db)" "jm_ok (ld_edges db)"
    using assms(2) unfolding lineage_ok_def by blast+
  note mono = legal_mono [OF lineage_change_le [OF assms(1)]]
  have "\<forall>i r. jm_get (ld_workstreams db') i = Some r \<longrightarrow> wr_id r = i"
    using assms(1) by (cases rule: lineage_change.cases) (auto simp: jm_get_set workstream_identity_def ws)
  moreover have "\<forall>i r. jm_get (ld_nodes db') i = Some r \<longrightarrow> sn_id r = i \<and> workstream_exists db (sn_workstreamId r)"
    using assms(1)
  proof (cases rule: lineage_change.cases)
    case (node_upd i r0 r)
    have "sn_id r = i" using nd [OF node_upd(2)] node_upd(3) by (simp add: node_identity_def)
    moreover have "workstream_exists db (sn_workstreamId r)" using nd [OF node_upd(2)] node_upd(5) by auto
    ultimately show ?thesis using node_upd(1) nd by (auto simp: jm_get_set)
  qed (auto simp: jm_get_set nd)
  moreover have "\<forall>i r. jm_get (ld_briefs db') i = Some r \<longrightarrow> br_id r = i \<and> brief_legal db r"
    using assms(1) by (cases rule: lineage_change.cases) (auto simp: jm_get_set bs)
  moreover have "\<forall>i r. jm_get (ld_edges db') i = Some r \<longrightarrow> se_id r = i \<and> edge_legal db r"
    using assms(1) by (cases rule: lineage_change.cases) (auto simp: jm_get_set es)
  moreover have "jm_ok (ld_workstreams db') \<and> jm_ok (ld_nodes db') \<and> jm_ok (ld_edges db')"
    using assms(1) by (cases rule: lineage_change.cases) (simp_all add: ok)
  ultimately show ?thesis unfolding lineage_ok_def using mono(2-4) by blast
qed

lemma lineage_changes_inv: "lineage_changes db db' \<Longrightarrow> lineage_ok db \<Longrightarrow> lineage_ok db' \<and> lineage_le db db'"
  by (induction rule: rtranclp_induct)
    (auto intro: lineage_le_refl lineage_change_ok lineage_le_trans lineage_change_le)

datatype lineage_op =
    InsertWorkstream new_workstream
  | SetWorkstreamStatus string workstream_status
  | RenameWorkstream string string
  | SetWorkstreamTags string "string list"
  | InsertNode new_node
  | AssignWorkstream string "string option"
  | SetNodeState string node_state
  | BackfillNativeSessionId string string
  | UpdateNativeScope string string
  | UpdateSnapshots string node_snapshots
  | InsertBrief new_brief
  | InsertEdge new_edge
  | RecordMerge record_merge_input

definition lineage_step :: "lineage_db \<Rightarrow> registry \<times> nat \<times> lineage_op \<Rightarrow> lineage_db" where
  "lineage_step db c = (case c of (reg, ts, op) \<Rightarrow> (case op of
     InsertWorkstream inp \<Rightarrow> fst (workstreams_insert db ts inp)
   | SetWorkstreamStatus i st \<Rightarrow> fst (workstreams_setStatus db ts i st)
   | RenameWorkstream i title \<Rightarrow> fst (workstreams_rename db ts i title)
   | SetWorkstreamTags i tags \<Rightarrow> fst (workstreams_setTags db ts i tags)
   | InsertNode inp \<Rightarrow> fst (nodes_insert reg db ts inp)
   | AssignWorkstream i w \<Rightarrow> fst (assignWorkstream reg db i w)
   | SetNodeState i st \<Rightarrow> fst (nodes_setState reg db i st)
   | BackfillNativeSessionId i native \<Rightarrow> fst (nodes_backfill reg db i native)
   | UpdateNativeScope i scope \<Rightarrow> fst (updateNativeScope reg db i scope)
   | UpdateSnapshots i sn \<Rightarrow> fst (updateSnapshots reg db i sn)
   | InsertBrief inp \<Rightarrow> fst (briefs_insert reg db ts inp)
   | InsertEdge inp \<Rightarrow> fst (edges_insert reg db ts inp)
   | RecordMerge inp \<Rightarrow> fst (recordMerge reg db ts inp)))"

lemmas store_changes = workstreams_insert_changes workstreams_update_changes nodes_insert_changes
  nodes_update_changes assignWorkstream_changes nodes_backfill_changes briefs_insert_changes
  edges_insert_changes recordMerge_changes

lemma lineage_step_changes: "lineage_changes db (lineage_step db c)"
  by (cases c) (simp add: lineage_step_def store_changes split: lineage_op.split)

interpretation lin: evolution lineage_step lineage_ok lineage_le
  by unfold_locales (use lineage_changes_inv [OF lineage_step_changes] in
    \<open>auto simp: lineage_le_refl intro: lineage_le_trans\<close>)

definition empty_lineage :: lineage_db where
  "empty_lineage = \<lparr>ld_workstreams = [], ld_nodes = [], ld_briefs = [], ld_edges = []\<rparr>"

lemma empty_lineage_ok: "lineage_ok empty_lineage"
  by (simp add: lineage_ok_def empty_lineage_def jm_get_def)

section \<open>Merges\<close>

lemma validate_edges_irrelevant [simp]: "validateEdgeInput reg (db\<lparr>ld_edges := x\<rparr>) e = validateEdgeInput reg db e"
proof -
  have n: "getNode reg (db\<lparr>ld_edges := x\<rparr>) = getNode reg db" and b: "briefs_get (db\<lparr>ld_edges := x\<rparr>) = briefs_get db"
    by (auto simp: getNode_def briefs_get_def)
  show ?thesis unfolding validateEdgeInput_def n b ..
qed

lemma edges_insert_Inr: "edges_insert reg db ts e = (db1, Inr r) \<longleftrightarrow>
    validateEdgeInput reg db e = Inr () \<and> jm_get (ld_edges db) (ne_id e) = None \<and> r = new_edge_row ts e
    \<and> db1 = db\<lparr>ld_edges := ld_edges db @ [(ne_id e, r)]\<rparr>" (is "?L \<longleftrightarrow> ?R")
proof
  assume ?L
  then show ?R by (rule edges_insert_cases) (auto simp: jm_set_fresh)
next
  assume ?R
  then show ?L by (auto simp: edges_insert_def insertEdgeUnchecked_def after_guards_def guard_def jm_has_iff_get jm_set_fresh Let_def)
qed

lemma insert_edges_Inr: "insert_edges reg ts db es = (db', Inr rs) \<longleftrightarrow>
    (\<forall>e\<in>set es. validateEdgeInput reg db e = Inr () \<and> jm_get (ld_edges db) (ne_id e) = None)
    \<and> distinct (map ne_id es) \<and> rs = map (new_edge_row ts) es
    \<and> db' = db\<lparr>ld_edges := ld_edges db @ map (\<lambda>e. (ne_id e, new_edge_row ts e)) es\<rparr>"
proof (induction es arbitrary: db db' rs)
  case (Cons e es)
  let ?db1 = "db\<lparr>ld_edges := ld_edges db @ [(ne_id e, new_edge_row ts e)]\<rparr>"
  have main: "insert_edges reg ts db (e # es) = (db', Inr rs) \<longleftrightarrow>
      validateEdgeInput reg db e = Inr () \<and> jm_get (ld_edges db) (ne_id e) = None \<and>
      (\<exists>rs'. insert_edges reg ts ?db1 es = (db', Inr rs') \<and> rs = new_edge_row ts e # rs')" (is "?L \<longleftrightarrow> ?R")
  proof
    assume l: ?L
    obtain db1 r where c: "edges_insert reg db ts e = (db1, Inr r)"
      using l by (auto split: sum.splits prod.splits)
    then show ?R using l edges_insert_Inr [THEN iffD1, OF c] by (auto split: sum.splits prod.splits)
  next
    assume r: ?R
    then have "edges_insert reg db ts e = (?db1, Inr (new_edge_row ts e))" by (simp add: edges_insert_Inr)
    then show ?L using r by auto
  qed
  show ?case unfolding main Cons.IH by (auto simp: jm_get_snoc simp del: insert_edges.simps split: if_splits) (metis imageI)
qed auto

lemma nodes_insert_Inr:
  assumes "nodes_insert reg db ts inp = (db1, Inr node)"
  shows "jm_get (ld_nodes db) (nn_id inp) = None" "node = new_node_row ts inp" "nodeFromSql reg node = Inr node"
    "db1 = db\<lparr>ld_nodes := ld_nodes db @ [(nn_id inp, node)]\<rparr>"
proof -
  have w: "db1 = db\<lparr>ld_nodes := jm_set (ld_nodes db) (nn_id inp) (new_node_row ts inp)\<rparr>"
    "jm_get (ld_nodes db) (nn_id inp) = None" "getNode reg db1 (nn_id inp) = Inr node"
    using fst_nodes_insert [OF assms] by auto
  have "nodeFromSql reg (new_node_row ts inp) = Inr node" using w(3) by (simp add: getNode_def w(1) jm_get_set of_option_def)
  then show "node = new_node_row ts inp" "nodeFromSql reg node = Inr node" using nodeFromSql_Inr by blast+
  then show "jm_get (ld_nodes db) (nn_id inp) = None" "db1 = db\<lparr>ld_nodes := ld_nodes db @ [(nn_id inp, node)]\<rparr>"
    using w(1,2) by (simp_all add: jm_set_fresh)
qed

lemma getNodes_get: "getNodes reg db is = Inr u \<Longrightarrow> i \<in> set is \<Longrightarrow> \<exists>r. getNode reg db i = Inr r"
  by (induction "is") (auto simp: r_bind_Inr)

lemma merge_guards_Inr:
  assumes "merge_guards reg db inp = Inr u"
  shows "2 \<le> length (rm_parents inp)" "length (rm_parents inp) \<le> 16" "distinct (rm_parents inp)"
    "length (rm_edgeIds inp) = length (rm_parents inp)" "getNodes reg db (rm_parents inp) = Inr ()"
    "\<exists>b. jm_get (ld_briefs db) (rm_briefId inp) = Some b \<and> br_kind b = BMerge"
  using assms by (auto simp: merge_guards_def lineage_iffs briefs_get_def MERGE_MIN_PARENTS_def MERGE_MAX_PARENTS_def)

text \<open>Past the guards and the node, an edge of the merge is refused only for its id.\<close>

lemma merge_edge_valid:
  assumes "merge_guards reg db inp = Inr u" "nodes_insert reg db ts (rm_node inp) = (db1, Inr node)" "p \<in> set (rm_parents inp)"
  shows "validateEdgeInput reg db1 (merge_edge (sn_id node) (rm_briefId inp) (p, i)) = Inr () \<longleftrightarrow> \<not> is_blank i"
proof -
  note g = merge_guards_Inr [OF assms(1)] and n = nodes_insert_Inr [OF assms(2)]
  obtain r where r: "getNode reg db p = Inr r" using getNodes_get [OF g(5) assms(3)] by blast
  have id: "sn_id node = nn_id (rm_node inp)" by (simp add: n(2) new_node_row_def)
  have "p \<noteq> nn_id (rm_node inp)" using getNode_Inr [OF r] n(1) by auto
  then have "getNode reg db1 p = Inr r" "getNode reg db1 (nn_id (rm_node inp)) = Inr node"
    using r n by (auto simp: getNode_def jm_get_snoc of_option_def)
  moreover have "briefs_get db1 (rm_briefId inp) \<noteq> None" using g(6) by (auto simp: n(4) briefs_get_def)
  ultimately show ?thesis using \<open>p \<noteq> nn_id (rm_node inp)\<close>
    by (simp add: validateEdgeInput_def merge_edge_def id requireNonBlankLineageId_def guard_def)
qed

definition merge_edge_rows :: "nat \<Rightarrow> record_merge_input \<Rightarrow> edge_row list" where
  "merge_edge_rows ts inp = map (\<lambda>(p, i). \<lparr>se_id = i, se_fromNode = Some p, se_toNode = nn_id (rm_node inp),
     se_edgeType = EMergeParent, se_briefId = Some (rm_briefId inp), se_confidence = Recorded,
     se_metadataJson = None, se_createdAtMs = ts\<rparr>) (zip (rm_parents inp) (rm_edgeIds inp))"

lemma merge_edge_rows_map: "merge_edge_rows ts inp =
    map (new_edge_row ts) (map (merge_edge (nn_id (rm_node inp)) (rm_briefId inp)) (zip (rm_parents inp) (rm_edgeIds inp)))"
  by (simp add: merge_edge_rows_def new_edge_row_def merge_edge_def case_prod_beta')

lemma zip_maps: "zip (map f xs) (map g xs) = map (\<lambda>x. (f x, g x)) xs"
  by (induction xs) simp_all

lemma merge_body_Inr:
  assumes g: "merge_guards reg db inp = Inr u"
  shows "merge_body reg db ts inp = (db', Inr (node, edges)) \<longleftrightarrow>
    (\<exists>db1. nodes_insert reg db ts (rm_node inp) = (db1, Inr node)
      \<and> (\<forall>i\<in>set (rm_edgeIds inp). \<not> is_blank i \<and> jm_get (ld_edges db) i = None) \<and> distinct (rm_edgeIds inp)
      \<and> edges = merge_edge_rows ts inp \<and> db' = db1\<lparr>ld_edges := ld_edges db @ zip (rm_edgeIds inp) edges\<rparr>)"
    (is "?L \<longleftrightarrow> ?R")
proof -
  let ?es = "map (merge_edge (nn_id (rm_node inp)) (rm_briefId inp)) (zip (rm_parents inp) (rm_edgeIds inp))"
  have len: "length (rm_parents inp) = length (rm_edgeIds inp)" using merge_guards_Inr(4) [OF g] by simp
  have ids: "map ne_id ?es = rm_edgeIds inp"
    using map_snd_zip [OF len] by (simp add: merge_edge_def o_def)
  have rows: "map (\<lambda>e. (ne_id e, new_edge_row ts e)) ?es = zip (rm_edgeIds inp) (merge_edge_rows ts inp)"
    using zip_maps [of ne_id ?es "new_edge_row ts"] unfolding ids merge_edge_rows_map by (rule sym)
  have step: "insert_edges reg ts db1 ?es = (db', Inr edges) \<longleftrightarrow>
      (\<forall>i\<in>set (rm_edgeIds inp). \<not> is_blank i \<and> jm_get (ld_edges db) i = None) \<and> distinct (rm_edgeIds inp)
      \<and> edges = merge_edge_rows ts inp \<and> db' = db1\<lparr>ld_edges := ld_edges db @ zip (rm_edgeIds inp) edges\<rparr>"
    if n: "nodes_insert reg db ts (rm_node inp) = (db1, Inr node)" for db1
  proof -
    have id: "sn_id node = nn_id (rm_node inp)" by (simp add: nodes_insert_Inr(2) [OF n] new_node_row_def)
    have ed: "ld_edges db1 = ld_edges db" by (simp add: nodes_insert_Inr(4) [OF n])
    have "(validateEdgeInput reg db1 (merge_edge (nn_id (rm_node inp)) (rm_briefId inp) pe) = Inr ()
          \<and> jm_get (ld_edges db1) (ne_id (merge_edge (nn_id (rm_node inp)) (rm_briefId inp) pe)) = None)
        \<longleftrightarrow> \<not> is_blank (snd pe) \<and> jm_get (ld_edges db) (snd pe) = None"
      if "pe \<in> set (zip (rm_parents inp) (rm_edgeIds inp))" for pe
    proof -
      have "fst pe \<in> set (rm_parents inp)" using that set_zip_leftD [of "fst pe" "snd pe"] by simp
      then show ?thesis using merge_edge_valid [OF g n, of "fst pe" "snd pe"] by (simp add: ed id) (simp add: merge_edge_def)
    qed
    then have "(\<forall>e\<in>set ?es. validateEdgeInput reg db1 e = Inr () \<and> jm_get (ld_edges db1) (ne_id e) = None) \<longleftrightarrow>
        (\<forall>pe\<in>set (zip (rm_parents inp) (rm_edgeIds inp)). \<not> is_blank (snd pe) \<and> jm_get (ld_edges db) (snd pe) = None)"
      by simp
    also have "\<dots> \<longleftrightarrow> (\<forall>i\<in>set (map snd (zip (rm_parents inp) (rm_edgeIds inp))). \<not> is_blank i \<and> jm_get (ld_edges db) i = None)"
      by simp
    finally show ?thesis unfolding insert_edges_Inr ids rows ed merge_edge_rows_map [symmetric] map_snd_zip [OF len] by blast
  qed
  have id: "sn_id node = nn_id (rm_node inp)" if "nodes_insert reg db ts (rm_node inp) = (db1, Inr node)" for db1
    by (simp add: nodes_insert_Inr(2) [OF that] new_node_row_def)
  have "?L \<longleftrightarrow> (\<exists>db1. nodes_insert reg db ts (rm_node inp) = (db1, Inr node) \<and> insert_edges reg ts db1 ?es = (db', Inr edges))"
    unfolding merge_body_def using id by (auto split: sum.splits prod.splits)
  then show ?thesis using step by blast
qed

section \<open>Properties\<close>

text \<open>Claim C16: the lineage graph is well formed and append-only. Take the tables after any sequence of calls,
  accepted or refused, under any registries, and again after any further calls. Every edge then has both its
  endpoints (an import exactly its target), only a \<open>continue\<close> edge joins a node to itself, a handoff has its
  brief and every brief named exists; and what was there stays there: an edge and a brief unchanged, a node
  with its identity columns and, once it has one, its native session id.\<close>

theorem lineage_graph_sound:
  fixes ops ops' :: "(registry \<times> nat \<times> lineage_op) list"
  defines "db \<equiv> foldl lineage_step empty_lineage ops" and "db' \<equiv> foldl lineage_step empty_lineage (ops @ ops')"
  shows "(\<forall>i e. jm_get (ld_edges db) i = Some e \<longrightarrow>
      jm_get (ld_nodes db) (se_toNode e) \<noteq> None
      \<and> (se_fromNode e = None \<longleftrightarrow> se_edgeType e = EImport)
      \<and> (\<forall>f. se_fromNode e = Some f \<longrightarrow> jm_get (ld_nodes db) f \<noteq> None)
      \<and> (se_fromNode e = Some (se_toNode e) \<longrightarrow> se_edgeType e = EContinue)
      \<and> (se_edgeType e = EHandoff \<longrightarrow> se_briefId e \<noteq> None)
      \<and> (\<forall>b. se_briefId e = Some b \<longrightarrow> jm_get (ld_briefs db) b \<noteq> None)
      \<and> jm_get (ld_edges db') i = Some e)
    \<and> (\<forall>i b. jm_get (ld_briefs db) i = Some b \<longrightarrow>
      br_sourceNodes b \<noteq> [] \<and> (\<forall>n\<in>set (br_sourceNodes b). jm_get (ld_nodes db) n \<noteq> None)
      \<and> jm_get (ld_briefs db') i = Some b)
    \<and> (\<forall>i r. jm_get (ld_nodes db) i = Some r \<longrightarrow>
      (\<forall>w. sn_workstreamId r = Some w \<longrightarrow> jm_get (ld_workstreams db) w \<noteq> None)
      \<and> (\<exists>r'. jm_get (ld_nodes db') i = Some r' \<and> node_identity r' = node_identity r
          \<and> (sn_nativeSessionId r \<noteq> None \<longrightarrow> sn_nativeSessionId r' = sn_nativeSessionId r)))"
proof -
  have ok: "lineage_ok db" unfolding db_def by (rule lin.inv_run) (rule empty_lineage_ok)
  have le: "lineage_le db db'" unfolding db_def db'_def by (rule lin.le_later) (rule empty_lineage_ok)
  have e: "edge_legal db e \<and> jm_get (ld_edges db') i = Some e" if "jm_get (ld_edges db) i = Some e" for i e
    using ok le that unfolding lineage_ok_def lineage_le_def by blast
  have b: "brief_legal db b \<and> jm_get (ld_briefs db') i = Some b" if "jm_get (ld_briefs db) i = Some b" for i b
    using ok le that unfolding lineage_ok_def lineage_le_def by blast
  have n: "workstream_exists db (sn_workstreamId r) \<and>
      (\<exists>r'. jm_get (ld_nodes db') i = Some r' \<and> node_identity r' = node_identity r \<and> native_kept r r')"
    if "jm_get (ld_nodes db) i = Some r" for i r
    using ok le that unfolding lineage_ok_def lineage_le_def by blast
  show ?thesis
  proof (intro conjI allI impI, goal_cases)
    case (1 i e) then show ?case using e [OF 1] by (auto simp: edge_legal_def node_exists_def)
  next
    case (2 i e) then show ?case using e [OF 2] by (auto simp: edge_legal_def node_exists_def split: option.splits)
  next
    case (3 i e f) then show ?case using e [OF 3(1)] by (auto simp: edge_legal_def node_exists_def)
  next
    case (4 i e) then show ?case using e [OF 4(1)] by (auto simp: edge_legal_def node_exists_def)
  next
    case (5 i e) then show ?case using e [OF 5(1)] by (auto simp: edge_legal_def split: option.splits)
  next
    case (6 i e b) then show ?case using e [OF 6(1)] by (auto simp: edge_legal_def)
  next
    case (7 i e) then show ?case using e [OF 7] by blast
  next
    case (8 i b) then show ?case using b [OF 8] by (simp add: brief_legal_def)
  next
    case (9 i x) then show ?case using b [OF 9] by (auto simp: brief_legal_def list_all_iff node_exists_def)
  next
    case (10 i x) then show ?case using b [OF 10] by blast
  next
    case (11 i r w) then show ?case using n [OF 11(1)] by (simp add: workstream_exists_def)
  next
    case (12 i r) then show ?case using n [OF 12] by (auto simp: native_kept_def)
  qed
qed

definition sample_node :: "string \<Rightarrow> new_node" where
  "sample_node i = \<lparr>nn_id = i, nn_workstreamId = None, nn_backend = ''claude_code'', nn_account = ''ENT'',
     nn_nativeSessionId = None, nn_nativeScope = None, nn_transcriptRef = None, nn_cwd = Some ''/w'',
     nn_gitBranch = None, nn_worktree = None, nn_displayName = None, nn_firstPromptHash = None,
     nn_state = NRunning, nn_origin = Harness, nn_confidence = Recorded\<rparr>"

definition sample_brief :: new_brief where
  "sample_brief = \<lparr>nb_id = ''br'', nb_kind = BMerge, nb_bodyMd = ''both'', nb_sourceNodes = [''a'', ''b''],
     nb_provenance = Refined, nb_tokenCount = None\<rparr>"

definition sample_merge :: record_merge_input where
  "sample_merge = \<lparr>rm_node = sample_node ''m'', rm_parents = [''a'', ''b''], rm_briefId = ''br'', rm_edgeIds = [''e1'', ''e2'']\<rparr>"

definition sample_lineage :: "(registry \<times> nat \<times> lineage_op) list" where
  "sample_lineage = [(initial_registry, 1, InsertNode (sample_node ''a'')), (initial_registry, 2, InsertNode (sample_node ''b'')),
     (initial_registry, 3, InsertBrief sample_brief)]"

lemmas lineage_eval = lineage_step_def nodes_insert_def briefs_insert_def edges_insert_def insertEdgeUnchecked_def
  validateEdgeInput_def recordMerge_def merge_guards_def merge_body_def merge_edge_def after_guards_def
  requireNonBlankLineageId_def guard_def screenNamingLineage_def put_node_def getNode_def nodeFromSql_def readable_column_def
  new_node_row_def new_brief_row_def new_edge_row_def node_check_def builtin_label_form_def of_option_def
  is_blank_iff js_ws_def jm_get_def jm_has_def briefs_get_def absolute_path_def Let_def opt_field_def
  isAccountLabel_def isClaudeAccountLabel_def backendForLabel_def isBackend_def
  MERGE_MIN_PARENTS_def MERGE_MAX_PARENTS_def BACKENDS_def

lemma sample_lineage_run: "foldl lineage_step empty_lineage sample_lineage = \<lparr>ld_workstreams = [],
    ld_nodes = [(''a'', new_node_row 1 (sample_node ''a'')), (''b'', new_node_row 2 (sample_node ''b''))],
    ld_briefs = [(''br'', new_brief_row 3 None sample_brief)], ld_edges = []\<rparr>"
  by (simp add: sample_lineage_def empty_lineage_def sample_node_def sample_brief_def lineage_eval initial_registry_def
      BUILTIN_BACKEND_DESCRIPTORS_def)

theorem lineage_graph_sound_witness:
  "jm_get (ld_briefs (foldl lineage_step empty_lineage (sample_lineage @ [(initial_registry, 4, RecordMerge sample_merge)]))) ''br''
   = Some (new_brief_row 3 None sample_brief)"
  using lineage_graph_sound [of sample_lineage "[(initial_registry, 4, RecordMerge sample_merge)]"]
  unfolding sample_lineage_run by (simp add: jm_get_def)

lemma recordMerge_succeeds_iff:
  assumes "recordMerge reg db ts inp = (db', res)"
  shows "(\<exists>x. res = Inr x) \<longleftrightarrow> merge_guards reg db inp = Inr () \<and> (\<exists>r. snd (nodes_insert reg db ts (rm_node inp)) = Inr r)
      \<and> distinct (rm_edgeIds inp) \<and> (\<forall>i\<in>set (rm_edgeIds inp). \<not> is_blank i \<and> jm_get (ld_edges db) i = None)"
proof (cases "merge_guards reg db inp")
  case (Inr u)
  note body = merge_body_Inr [OF Inr, of ts]
  have "(\<exists>x. res = Inr x) \<longleftrightarrow> (\<exists>db2 n es. merge_body reg db ts inp = (db2, Inr (n, es)))"
    using assms Inr by (auto simp: recordMerge_def after_guards_def split: sum.splits prod.splits)
  also have "\<dots> \<longleftrightarrow> (\<exists>r. snd (nodes_insert reg db ts (rm_node inp)) = Inr r) \<and> distinct (rm_edgeIds inp)
      \<and> (\<forall>i\<in>set (rm_edgeIds inp). \<not> is_blank i \<and> jm_get (ld_edges db) i = None)"
    unfolding body by (cases "nodes_insert reg db ts (rm_node inp)") auto
  finally show ?thesis using Inr by simp
qed (use assms in \<open>auto simp: recordMerge_def after_guards_def\<close>)

lemma recordMerge_refused: "recordMerge reg db ts inp = (db', Inl e) \<Longrightarrow> db' = db"
  by (auto simp: recordMerge_def after_guards_def split: sum.splits prod.splits)

text \<open>A node that does not exist has no edges.\<close>

lemma fresh_untouched:
  assumes "lineage_ok db" "jm_get (ld_nodes db) i = None"
  shows "filter (\<lambda>e. se_fromNode e = Some i \<or> se_toNode e = i) (jm_values (ld_edges db)) = []"
proof -
  have "\<not> (se_fromNode e = Some i \<or> se_toNode e = i)" if e: "e \<in> set (jm_values (ld_edges db))" for e
  proof -
    obtain j where "(j, e) \<in> set (ld_edges db)" using e by (auto simp: jm_values_def)
    then have "jm_get (ld_edges db) j = Some e" using assms(1) by (simp add: lineage_ok_def jm_get_def jm_ok_def)
    then have "edge_legal db e" using assms(1) by (simp add: lineage_ok_def)
    then show ?thesis using assms(2) by (auto simp: edge_legal_def node_exists_def split: option.splits)
  qed
  then show ?thesis by (simp add: filter_empty_conv)
qed

lemma recordMerge_accepted:
  assumes "lineage_ok db" "recordMerge reg db ts inp = (db', Inr (node, edges))"
  shows "node = new_node_row ts (rm_node inp)" "edges = merge_edge_rows ts inp" "sn_id node = nn_id (rm_node inp)"
    "db' = db\<lparr>ld_nodes := ld_nodes db @ [(sn_id node, node)], ld_edges := ld_edges db @ zip (rm_edgeIds inp) edges\<rparr>"
    "merge_guards reg db inp = Inr ()" "length edges = length (rm_parents inp)"
    "filter (\<lambda>e. se_fromNode e = Some (sn_id node) \<or> se_toNode e = sn_id node) (jm_values (ld_edges db')) = edges"
proof -
  show g: "merge_guards reg db inp = Inr ()"
    using assms(2) by (cases "merge_guards reg db inp") (auto simp: recordMerge_def after_guards_def)
  have "merge_body reg db ts inp = (db', Inr (node, edges))"
    using assms(2) g by (auto simp: recordMerge_def after_guards_def split: sum.splits prod.splits)
  then obtain db1 where n: "nodes_insert reg db ts (rm_node inp) = (db1, Inr node)" and es: "edges = merge_edge_rows ts inp"
      and db1: "db' = db1\<lparr>ld_edges := ld_edges db @ zip (rm_edgeIds inp) edges\<rparr>"
    unfolding merge_body_Inr [OF g] by blast
  note new = nodes_insert_Inr [OF n] and gi = merge_guards_Inr [OF g]
  show "node = new_node_row ts (rm_node inp)" by (rule new(2))
  show id: "sn_id node = nn_id (rm_node inp)" by (simp add: new(2) new_node_row_def)
  show "edges = merge_edge_rows ts inp" by (rule es)
  show len: "length edges = length (rm_parents inp)" using gi(4) by (simp add: es merge_edge_rows_def)
  show db': "db' = db\<lparr>ld_nodes := ld_nodes db @ [(sn_id node, node)], ld_edges := ld_edges db @ zip (rm_edgeIds inp) edges\<rparr>"
    by (simp add: db1 new(4) id)
  have "jm_values (ld_edges db') = jm_values (ld_edges db) @ edges" using len gi(4) by (simp add: db' jm_values_def)
  moreover have "\<forall>e\<in>set edges. se_toNode e = sn_id node" by (auto simp: es merge_edge_rows_def id)
  ultimately show "filter (\<lambda>e. se_fromNode e = Some (sn_id node) \<or> se_toNode e = sn_id node) (jm_values (ld_edges db')) = edges"
    using fresh_untouched [OF assms(1), of "sn_id node"] new(1) by (simp add: id filter_id_conv)
qed

text \<open>Claim C21: a merge is all or nothing, and succeeds exactly when it may. From the tables after any history,
  \<open>recordMerge\<close> returns a node and edges exactly when its guards hold, the node can be inserted and the edge ids
  are distinct, not blank and new. Then the tables have the one new node and one \<open>merge_parent\<close> edge from each
  of the two to sixteen distinct parents, in their order, carrying the merge brief, and these are all the edges
  that touch the new node. Otherwise the tables are as before.\<close>

theorem merge_atomic:
  assumes "db = foldl lineage_step empty_lineage ops" "recordMerge reg db ts inp = (db', res)"
  shows "((\<exists>x. res = Inr x) \<longleftrightarrow> merge_guards reg db inp = Inr () \<and> (\<exists>r. snd (nodes_insert reg db ts (rm_node inp)) = Inr r)
        \<and> distinct (rm_edgeIds inp) \<and> (\<forall>i\<in>set (rm_edgeIds inp). \<not> is_blank i \<and> jm_get (ld_edges db) i = None))
    \<and> (case res of
      Inl e \<Rightarrow> db' = db
    | Inr (node, edges) \<Rightarrow> node = new_node_row ts (rm_node inp) \<and> edges = merge_edge_rows ts inp
        \<and> db' = db\<lparr>ld_nodes := ld_nodes db @ [(sn_id node, node)], ld_edges := ld_edges db @ zip (rm_edgeIds inp) edges\<rparr>
        \<and> length edges = length (rm_parents inp) \<and> 2 \<le> length edges \<and> length edges \<le> 16 \<and> distinct (rm_parents inp)
        \<and> (\<exists>b. jm_get (ld_briefs db) (rm_briefId inp) = Some b \<and> br_kind b = BMerge)
        \<and> filter (\<lambda>e. se_fromNode e = Some (sn_id node) \<or> se_toNode e = sn_id node) (jm_values (ld_edges db')) = edges)"
proof (intro conjI recordMerge_succeeds_iff [OF assms(2)])
  have ok: "lineage_ok db" unfolding assms(1) by (rule lin.inv_run) (rule empty_lineage_ok)
  show "case res of
      Inl e \<Rightarrow> db' = db
    | Inr (node, edges) \<Rightarrow> node = new_node_row ts (rm_node inp) \<and> edges = merge_edge_rows ts inp
        \<and> db' = db\<lparr>ld_nodes := ld_nodes db @ [(sn_id node, node)], ld_edges := ld_edges db @ zip (rm_edgeIds inp) edges\<rparr>
        \<and> length edges = length (rm_parents inp) \<and> 2 \<le> length edges \<and> length edges \<le> 16 \<and> distinct (rm_parents inp)
        \<and> (\<exists>b. jm_get (ld_briefs db) (rm_briefId inp) = Some b \<and> br_kind b = BMerge)
        \<and> filter (\<lambda>e. se_fromNode e = Some (sn_id node) \<or> se_toNode e = sn_id node) (jm_values (ld_edges db')) = edges"
  proof (cases res)
    case (Inl e)
    then show ?thesis using recordMerge_refused assms(2) by simp
  next
    case (Inr x)
    obtain node edges where x: "x = (node, edges)" by (cases x)
    note acc = recordMerge_accepted [OF ok assms(2) [unfolded Inr x]]
    show ?thesis unfolding Inr x using acc(1,2,4,6,7) merge_guards_Inr [OF acc(5)] by simp
  qed
qed

theorem merge_atomic_witness:
  "recordMerge initial_registry (foldl lineage_step empty_lineage sample_lineage) 4 sample_merge =
     (fst (recordMerge initial_registry (foldl lineage_step empty_lineage sample_lineage) 4 sample_merge),
      Inr (new_node_row 4 (sample_node ''m''), merge_edge_rows 4 sample_merge))"
proof -
  let ?db = "foldl lineage_step empty_lineage sample_lineage"
  obtain db' res where r: "recordMerge initial_registry ?db 4 sample_merge = (db', res)"
    by (cases "recordMerge initial_registry ?db 4 sample_merge")
  have "merge_guards initial_registry ?db sample_merge = Inr ()" "\<exists>r. snd (nodes_insert initial_registry ?db 4 (rm_node sample_merge)) = Inr r"
    "distinct (rm_edgeIds sample_merge)" "\<forall>i\<in>set (rm_edgeIds sample_merge). \<not> is_blank i \<and> jm_get (ld_edges ?db) i = None"
    unfolding sample_lineage_run by (simp_all add: sample_merge_def sample_node_def sample_brief_def lineage_eval
      initial_registry_def BUILTIN_BACKEND_DESCRIPTORS_def)
  then obtain x where x: "res = Inr x" using merge_atomic [OF refl r] by blast
  then have "x = (new_node_row 4 (sample_node ''m''), merge_edge_rows 4 sample_merge)"
    using merge_atomic [OF refl r] by (cases x) (simp add: sample_merge_def)
  then show ?thesis using r x by simp
qed

end
