(* ===== verification/Lineage_Recorder.thy ===== *)
theory Lineage_Recorder
  imports Lineage_Store
begin

text \<open>
  The lineage recorder of \<open>core/src/workstreams/recorder.ts\<close> over the lineage store and the kernel's resume
  ledger, with the session-id resolver of \<open>resolver.ts\<close> and the wire records of \<open>wire.ts\<close>. The recorder's
  state is the store, its two counters, the payloads handed to the publisher (which may refuse them without
  effect on the recorder) and the number of edge ids minted; \<open>mint\<close> is the id factory. A step that throws keeps
  what was written before it: \<open>record\<close> catches the error and counts the action as dropped.

  The ledger is the kernel's, as the composition root wires it.

  Shown: every call of the recorder is a sequence of changes of the store, so whatever it records keeps the
  graph well formed and loses nothing; and the merge action is not atomic.
\<close>

section \<open>Wire records\<close>

record node_wire =
  nwr_sessionId :: string
  nwr_workstreamId :: "string option"
  nwr_backend :: string
  nwr_account :: string
  nwr_state :: node_state
  nwr_origin :: node_origin
  nwr_confidence :: lineage_confidence
  nwr_displayName :: "string option"
  nwr_cwd :: "string option"
  nwr_gitBranch :: "string option"
  nwr_tokensIn :: "jsnum option"
  nwr_tokensOut :: "jsnum option"
  nwr_costEstimatedUsd :: "jsnum option"
  nwr_createdAt :: nat
  nwr_lastActiveAt :: "jsnum option"

record edge_wire =
  ewr_edgeId :: string
  ewr_fromSessionId :: "string option"
  ewr_toSessionId :: string
  ewr_edgeType :: edge_type
  ewr_briefId :: "string option"
  ewr_confidence :: lineage_confidence
  ewr_ts :: nat

definition nodeToWire :: "node_row \<Rightarrow> node_wire" where
  "nodeToWire r = \<lparr>nwr_sessionId = sn_id r, nwr_workstreamId = sn_workstreamId r, nwr_backend = sn_backend r,
     nwr_account = sn_account r, nwr_state = sn_state r, nwr_origin = sn_origin r, nwr_confidence = sn_confidence r,
     nwr_displayName = sn_displayName r, nwr_cwd = sn_cwd r, nwr_gitBranch = sn_gitBranch r,
     nwr_tokensIn = sn_tokensIn r, nwr_tokensOut = sn_tokensOut r, nwr_costEstimatedUsd = sn_costEstimatedUsd r,
     nwr_createdAt = sn_createdAtMs r, nwr_lastActiveAt = sn_lastActiveAtMs r\<rparr>"

definition edgeToWire :: "edge_row \<Rightarrow> edge_wire" where
  "edgeToWire r = \<lparr>ewr_edgeId = se_id r, ewr_fromSessionId = se_fromNode r, ewr_toSessionId = se_toNode r,
     ewr_edgeType = se_edgeType r, ewr_briefId = se_briefId r, ewr_confidence = se_confidence r, ewr_ts = se_createdAtMs r\<rparr>"

section \<open>State\<close>

datatype lineage_payload = PublishNode node_wire | PublishEdge edge_wire

record recorder =
  rc_db :: lineage_db
  rc_recorded :: nat
  rc_dropped :: nat
  rc_published :: "lineage_payload list"
  rc_minted :: nat

datatype lineage_action =
    ActLaunch string string string string "string option"
  | ActResume string string
  | ActFork string string
  | ActRecycle string string "string option"
  | ActMerge "string list" string "string option"

datatype recorder_error = RStore lineage_error | RLedger store_error | REndpoint string | RNoBrief | RMergeParent string

type_synonym 'a recorded = "recorder \<times> (recorder_error + 'a)"

definition createLineageRecorder :: "lineage_db \<Rightarrow> recorder" where
  "createLineageRecorder db = \<lparr>rc_db = db, rc_recorded = 0, rc_dropped = 0, rc_published = [], rc_minted = 0\<rparr>"

definition rec_bind :: "'a recorded \<Rightarrow> ('a \<Rightarrow> recorder \<Rightarrow> 'b recorded) \<Rightarrow> 'b recorded" where
  "rec_bind m f = (case m of (s, Inl e) \<Rightarrow> (s, Inl e) | (s, Inr x) \<Rightarrow> f x s)"

definition rec_read :: "recorder \<Rightarrow> lineage_error + 'a \<Rightarrow> 'a recorded" where
  "rec_read s m = (s, case m of Inl e \<Rightarrow> Inl (RStore e) | Inr x \<Rightarrow> Inr x)"

definition rec_store :: "recorder \<Rightarrow> 'a lin \<Rightarrow> 'a recorded" where
  "rec_store s m = (s\<lparr>rc_db := fst m\<rparr>, case snd m of Inl e \<Rightarrow> Inl (RStore e) | Inr x \<Rightarrow> Inr x)"

definition rec_publish :: "recorder \<Rightarrow> lineage_payload \<Rightarrow> recorder" where
  "rec_publish s p = s\<lparr>rc_published := rc_published s @ [p]\<rparr>"

section \<open>Recording\<close>

definition resolveWorkstreamHint :: "lineage_db \<Rightarrow> string option \<Rightarrow> string option" where
  "resolveWorkstreamHint db hint = (case hint of
     None \<Rightarrow> None
   | Some h \<Rightarrow> if workstreams_get db h \<noteq> None then Some h
       else map_option wr_id (find (\<lambda>r. wr_title r = h) (workstreams_list db None)))"

definition harness_node :: "lineage_db \<Rightarrow> string \<Rightarrow> string \<Rightarrow> string \<Rightarrow> string \<Rightarrow> string option \<Rightarrow> new_node" where
  "harness_node db i account backend cwd hint = \<lparr>nn_id = i, nn_workstreamId = resolveWorkstreamHint db hint,
     nn_backend = backend, nn_account = account, nn_nativeSessionId = None, nn_nativeScope = None,
     nn_transcriptRef = None, nn_cwd = Some cwd, nn_gitBranch = None, nn_worktree = None, nn_displayName = None,
     nn_firstPromptHash = None, nn_state = NRunning, nn_origin = Harness, nn_confidence = Recorded\<rparr>"

definition insertLaunchNode :: "registry \<Rightarrow> nat \<Rightarrow> recorder \<Rightarrow> string \<Rightarrow> string \<Rightarrow> string \<Rightarrow> string \<Rightarrow> string option \<Rightarrow>
    node_row recorded" where
  "insertLaunchNode reg ts s i account backend cwd hint =
    rec_bind (rec_read s (nodes_get reg (rc_db s) i)) (\<lambda>existing s. case existing of
      Some r \<Rightarrow> (s, Inr r)
    | None \<Rightarrow> rec_store s (nodes_insert reg (rc_db s) ts (harness_node (rc_db s) i account backend cwd hint)))"

definition heal_native :: "registry \<Rightarrow> recorder \<Rightarrow> ledger_row \<Rightarrow> unit recorded" where
  "heal_native reg s r = (case rl_nativeSessionId r of
     None \<Rightarrow> (s, Inr ())
   | Some native \<Rightarrow> rec_bind (rec_store s (nodes_backfill reg (rc_db s) (rl_id r) native)) (\<lambda>_ s. (s, Inr ())))"

definition ensureNode :: "registry \<Rightarrow> nat \<Rightarrow> ledger \<Rightarrow> recorder \<Rightarrow> string \<Rightarrow> node_row option recorded" where
  "ensureNode reg ts led s i =
    rec_bind (rec_read s (nodes_get reg (rc_db s) i)) (\<lambda>existing s. case existing of
      Some r \<Rightarrow> (s, Inr (Some r))
    | None \<Rightarrow> (case ledger_get reg led i of
        Inl e \<Rightarrow> (s, Inl (RLedger e))
      | Inr None \<Rightarrow> (s, Inr None)
      | Inr (Some r) \<Rightarrow>
          rec_bind (rec_store s (nodes_insert reg (rc_db s) ts
            (harness_node (rc_db s) (rl_id r) (rl_accountLabel r) (rl_backend r) (rl_cwd r) (rl_workstreamHint r)))) (\<lambda>node s.
          rec_bind (heal_native reg s r) (\<lambda>_ s.
          rec_bind (rec_read s (nodes_get reg (rc_db s) (rl_id r))) (\<lambda>now s.
          (rec_publish s (PublishNode (nodeToWire (case now of None \<Rightarrow> node | Some n \<Rightarrow> n))), Inr (Some node)))))))"

definition requireNode :: "registry \<Rightarrow> nat \<Rightarrow> ledger \<Rightarrow> recorder \<Rightarrow> string \<Rightarrow> unit recorded" where
  "requireNode reg ts led s i = rec_bind (ensureNode reg ts led s i) (\<lambda>node s.
     (s, if node = None then Inl (REndpoint i) else Inr ()))"

definition mintEdgeId :: "(nat \<Rightarrow> string) \<Rightarrow> recorder \<Rightarrow> string \<times> recorder" where
  "mintEdgeId mint s = (mint (rc_minted s), s\<lparr>rc_minted := rc_minted s + 1\<rparr>)"

definition publishEdge :: "registry \<Rightarrow> nat \<Rightarrow> recorder \<Rightarrow> new_edge \<Rightarrow> unit recorded" where
  "publishEdge reg ts s e = rec_bind (rec_store s (edges_insert reg (rc_db s) ts e)) (\<lambda>r s.
     (rec_publish s (PublishEdge (edgeToWire r)), Inr ()))"

definition insertEdge :: "registry \<Rightarrow> nat \<Rightarrow> (nat \<Rightarrow> string) \<Rightarrow> ledger \<Rightarrow> recorder \<Rightarrow> string \<Rightarrow> string \<Rightarrow> edge_type \<Rightarrow>
    json option \<Rightarrow> unit recorded" where
  "insertEdge reg ts mint led s from to ty metadata =
    rec_bind (requireNode reg ts led s from) (\<lambda>_ s.
    rec_bind (requireNode reg ts led s to) (\<lambda>_ s.
    let (i, s) = mintEdgeId mint s
    in publishEdge reg ts s \<lparr>ne_id = i, ne_fromNode = Some from, ne_toNode = to, ne_edgeType = ty,
         ne_briefId = None, ne_confidence = Some Recorded, ne_metadataJson = map_option JSON_stringify metadata\<rparr>))"

definition recycle_metadata :: "string option \<Rightarrow> json" where
  "recycle_metadata checkpointRef = JObj ((''reason'', JStr ''recycle'')
     # (case checkpointRef of None \<Rightarrow> [] | Some c \<Rightarrow> [(''checkpointRef'', JStr c)]))"

primrec requireParents :: "registry \<Rightarrow> recorder \<Rightarrow> string list \<Rightarrow> unit recorded" where
  "requireParents reg s [] = (s, Inr ())"
| "requireParents reg s (p # ps) = rec_bind (rec_read s (nodes_get reg (rc_db s) p)) (\<lambda>node s.
     if node = None then (s, Inl (RMergeParent p)) else requireParents reg s ps)"

primrec publishEdges :: "registry \<Rightarrow> nat \<Rightarrow> recorder \<Rightarrow> new_edge list \<Rightarrow> unit recorded" where
  "publishEdges reg ts s [] = (s, Inr ())"
| "publishEdges reg ts s (e # es) = rec_bind (publishEdge reg ts s e) (\<lambda>_ s. publishEdges reg ts s es)"

definition recordMergeAction :: "registry \<Rightarrow> nat \<Rightarrow> (nat \<Rightarrow> string) \<Rightarrow> ledger \<Rightarrow> recorder \<Rightarrow> string list \<Rightarrow> string \<Rightarrow>
    string option \<Rightarrow> unit recorded" where
  "recordMergeAction reg ts mint led s parents to briefId =
    (if briefId = None \<or> briefId = Some [] then (s, Inl RNoBrief)
     else rec_bind (requireParents reg s parents) (\<lambda>_ s.
       rec_bind (requireNode reg ts led s to) (\<lambda>_ s.
       let n = rc_minted s; s = s\<lparr>rc_minted := n + length parents\<rparr>
       in publishEdges reg ts s (map (\<lambda>(p, i). \<lparr>ne_id = mint i, ne_fromNode = Some p, ne_toNode = to,
            ne_edgeType = EMergeParent, ne_briefId = briefId, ne_confidence = Some Recorded, ne_metadataJson = None\<rparr>)
            (zip parents [n..<n + length parents])))))"

definition recordUnsafe :: "registry \<Rightarrow> nat \<Rightarrow> (nat \<Rightarrow> string) \<Rightarrow> ledger \<Rightarrow> recorder \<Rightarrow> lineage_action \<Rightarrow> unit recorded" where
  "recordUnsafe reg ts mint led s act = (case act of
     ActLaunch i account backend cwd hint \<Rightarrow>
       rec_bind (insertLaunchNode reg ts s i account backend cwd hint) (\<lambda>node s.
         (rec_publish s (PublishNode (nodeToWire node)), Inr ()))
   | ActResume from to \<Rightarrow> insertEdge reg ts mint led s from to EContinue None
   | ActFork from to \<Rightarrow> insertEdge reg ts mint led s from to EFork None
   | ActRecycle from to checkpointRef \<Rightarrow> insertEdge reg ts mint led s from to EContinue (Some (recycle_metadata checkpointRef))
   | ActMerge parents to briefId \<Rightarrow> recordMergeAction reg ts mint led s parents to briefId)"

definition record_action :: "registry \<Rightarrow> nat \<Rightarrow> (nat \<Rightarrow> string) \<Rightarrow> ledger \<Rightarrow> recorder \<Rightarrow> lineage_action \<Rightarrow> recorder" where
  "record_action reg ts mint led s act = (case recordUnsafe reg ts mint led s act of
     (s', Inl _) \<Rightarrow> s'\<lparr>rc_dropped := rc_dropped s' + 1\<rparr>
   | (s', Inr _) \<Rightarrow> s'\<lparr>rc_recorded := rc_recorded s' + 1\<rparr>)"

definition recorder_backfill :: "registry \<Rightarrow> recorder \<Rightarrow> string \<Rightarrow> string \<Rightarrow> recorder" where
  "recorder_backfill reg s i native = (case nodes_get reg (rc_db s) i of
     Inr (Some _) \<Rightarrow> fst (rec_store s (nodes_backfill reg (rc_db s) i native))
   | _ \<Rightarrow> s)"

definition noteActivity :: "registry \<Rightarrow> recorder \<Rightarrow> string \<Rightarrow> jsnum \<Rightarrow> recorder" where
  "noteActivity reg s i atMs = (case nodes_get reg (rc_db s) i of
     Inr (Some _) \<Rightarrow> fst (rec_store s (updateSnapshots reg (rc_db s) i
       \<lparr>ns_tokensIn = None, ns_tokensOut = None, ns_costEstimatedUsd = None, ns_lastActiveAtMs = Some atMs\<rparr>))
   | _ \<Rightarrow> s)"

section \<open>Resolving native session ids\<close>

datatype resolver_error = ResolveStore lineage_error | ResolveLedger store_error

definition resolve_session_id :: "registry \<Rightarrow> lineage_db \<Rightarrow> ledger option \<Rightarrow> string \<Rightarrow> resolver_error + string option" where
  "resolve_session_id reg db led native =
    (if native = [] then Inr None
     else case byNativeSessionId reg db native of
       Inl e \<Rightarrow> Inl (ResolveStore e)
     | Inr (Some node) \<Rightarrow> Inr (Some (sn_id node))
     | Inr None \<Rightarrow> (case led of
         None \<Rightarrow> Inr (Some native)
       | Some led \<Rightarrow> (case ledger_list reg led None of
           Inl e \<Rightarrow> Inl (ResolveLedger e)
         | Inr rows \<Rightarrow> Inr (Some (case find (\<lambda>r. rl_nativeSessionId r = Some native) rows of
             None \<Rightarrow> native | Some r \<Rightarrow> rl_id r)))))"

section \<open>What recording changes\<close>

definition rec_grows :: "recorder \<Rightarrow> 'a recorded \<Rightarrow> bool" where
  "rec_grows s m = lineage_changes (rc_db s) (rc_db (fst m))"

named_theorems rec_intros \<open>growth of the store, one rule per construct of the recorder\<close>

lemma grows_return [rec_intros]: "rec_grows s (s, r)"
  by (simp add: rec_grows_def)

lemma grows_read [rec_intros]: "rec_grows s (rec_read s m)"
  by (simp add: rec_grows_def rec_read_def)

lemma grows_publish [rec_intros]: "rec_grows s (rec_publish s p, r)"
  by (simp add: rec_grows_def rec_publish_def)

lemma grows_store [rec_intros]: "lineage_changes (rc_db s) (fst m) \<Longrightarrow> rec_grows s (rec_store s m)"
  by (simp add: rec_grows_def rec_store_def)

lemma grows_bind [rec_intros]:
  assumes "rec_grows s m" "\<And>x s'. m = (s', Inr x) \<Longrightarrow> rec_grows s' (f x s')"
  shows "rec_grows s (rec_bind m f)"
proof (cases m)
  case (Pair s' res)
  show ?thesis
  proof (cases res)
    case (Inr x)
    then show ?thesis using assms(1) assms(2) [of s' x] Pair by (auto simp: rec_grows_def rec_bind_def)
  qed (use assms(1) Pair in \<open>simp add: rec_grows_def rec_bind_def\<close>)
qed

lemma grows_minted: "rec_grows (s\<lparr>rc_minted := n\<rparr>) m \<Longrightarrow> rec_grows s m"
  by (simp add: rec_grows_def)

lemma insertLaunchNode_grows [rec_intros]: "rec_grows s (insertLaunchNode reg ts s i account backend cwd hint)"
  unfolding insertLaunchNode_def by (intro rec_intros) (auto split: option.split intro!: rec_intros nodes_insert_changes)

lemma heal_native_grows [rec_intros]: "rec_grows s (heal_native reg s r)"
  unfolding heal_native_def by (auto split: option.split intro!: rec_intros nodes_backfill_changes)

lemma ensureNode_grows [rec_intros]: "rec_grows s (ensureNode reg ts led s i)"
  unfolding ensureNode_def
  by (intro rec_intros) (auto split: option.split sum.split intro!: rec_intros nodes_insert_changes)

lemma requireNode_grows [rec_intros]: "rec_grows s (requireNode reg ts led s i)"
  unfolding requireNode_def by (intro rec_intros)

lemma publishEdge_grows [rec_intros]: "rec_grows s (publishEdge reg ts s e)"
  unfolding publishEdge_def by (intro rec_intros edges_insert_changes)

lemma insertEdge_grows [rec_intros]: "rec_grows s (insertEdge reg ts mint led s from to ty metadata)"
  unfolding insertEdge_def mintEdgeId_def Let_def prod.case by (intro rec_intros grows_minted [OF publishEdge_grows])

lemma requireParents_grows [rec_intros]: "rec_grows s (requireParents reg s ps)"
  by (induction ps arbitrary: s) (auto intro!: rec_intros)

lemma publishEdges_grows [rec_intros]: "rec_grows s (publishEdges reg ts s es)"
  by (induction es arbitrary: s) (auto intro!: rec_intros)

lemma recordMergeAction_grows [rec_intros]: "rec_grows s (recordMergeAction reg ts mint led s parents to briefId)"
  unfolding recordMergeAction_def Let_def
  by (auto intro!: grows_bind requireParents_grows requireNode_grows grows_return grows_minted [OF publishEdges_grows])

lemma recordUnsafe_grows: "rec_grows s (recordUnsafe reg ts mint led s act)"
  unfolding recordUnsafe_def by (cases act) (auto intro!: rec_intros)

lemma record_action_changes: "lineage_changes (rc_db s) (rc_db (record_action reg ts mint led s act))"
  using recordUnsafe_grows [of s reg ts mint led act]
  by (auto simp: record_action_def rec_grows_def split: prod.split sum.split)

lemma recorder_backfill_changes: "lineage_changes (rc_db s) (rc_db (recorder_backfill reg s i native))"
  by (auto simp: recorder_backfill_def rec_store_def nodes_backfill_changes split: sum.split option.split)

lemma noteActivity_changes: "lineage_changes (rc_db s) (rc_db (noteActivity reg s i x))"
  by (auto simp: noteActivity_def rec_store_def nodes_update_changes split: sum.split option.split)

lemma record_actions_changes: "lineage_changes (rc_db s) (rc_db (foldl (record_action reg ts mint led) s acts))"
proof (induction acts arbitrary: s)
  case (Cons act acts)
  then show ?case using record_action_changes [of s reg ts mint led act] by (auto intro: rtranclp_trans)
qed simp

section \<open>The merge action is not atomic\<close>

text \<open>A merge action whose parents include the merge node itself passes every check in front of the writes; the
  edge of the other parent is written and published before the self-edge is refused, and the action is counted
  as dropped.\<close>

lemma recorder_partial_merge:
  "let s = record_action initial_registry 9 (\<lambda>i. replicate (i + 1) CHR ''e'') []
        (createLineageRecorder (foldl lineage_step empty_lineage sample_lineage)) (ActMerge [''a'', ''b''] ''b'' (Some ''br''))
   in rc_dropped s = 1 \<and> rc_recorded s = 0 \<and> map (\<lambda>(i, e). (se_fromNode e, se_toNode e)) (ld_edges (rc_db s)) = [(Some ''a'', ''b'')]
     \<and> length (rc_published s) = 1"
  unfolding sample_lineage_run by code_simp

end
