(* ===== verification/Lineage_Kernel.thy ===== *)
theory Lineage_Kernel
  imports Lineage_Recorder Session_Truth
begin

text \<open>
  The session kernel with its lineage recorder: \<open>recorded_step\<close> is a call of the kernel together with the
  actions it records in the same tick, or a call of somebody else (the reconciler, the merge verb, a client)
  on the lineage store.

  Shown: every session the kernel gives a row has its node, with the account, the backend and the directory
  of the row, whatever else writes to the store.
\<close>

section \<open>The kernel and its recorder\<close>

definition action_of :: "lineage_record \<Rightarrow> lineage_action" where
  "action_of a = (case a of
     LineageLaunch i account cwd hint \<Rightarrow> ActLaunch i account ''claude_code'' cwd hint
   | LineageFork parent child \<Rightarrow> ActFork parent child
   | LineageResume from to \<Rightarrow> ActResume from to)"

datatype recorded_op = KernelCall registry string nat kernel_op | StoreCall registry nat lineage_op

definition new_actions :: "kernel \<Rightarrow> kernel \<Rightarrow> lineage_action list" where
  "new_actions k k' = map action_of (drop (length (kn_lineage k)) (kn_lineage k'))"

definition recorded_step :: "kernel_config \<Rightarrow> (nat \<Rightarrow> string) \<Rightarrow> kernel \<times> recorder \<Rightarrow> recorded_op \<Rightarrow> kernel \<times> recorder" where
  "recorded_step cfg mint ks op = (case ks of (k, s) \<Rightarrow> (case op of
     KernelCall reg isoTs ts kop \<Rightarrow>
       let k' = kernel_step cfg k (reg, isoTs, kop)
       in (k', foldl (record_action reg ts mint (kn_ledger k')) s (new_actions k k'))
   | StoreCall reg ts lop \<Rightarrow> (k, s\<lparr>rc_db := lineage_step (rc_db s) (reg, ts, lop)\<rparr>)))"

section \<open>The rows a kernel call writes\<close>

definition keeps_rows :: "ledger \<Rightarrow> ledger \<Rightarrow> bool" where
  "keeps_rows led led' \<longleftrightarrow> (\<forall>sid. jm_get led sid = None \<longrightarrow> jm_get led' sid = None)"

lemma keeps_refl [simp]: "keeps_rows led led"
  by (simp add: keeps_rows_def)

lemma keeps_trans: "keeps_rows a b \<Longrightarrow> keeps_rows b c \<Longrightarrow> keeps_rows a c"
  by (simp add: keeps_rows_def)

lemma keeps_set: "jm_get led sid = Some r0 \<Longrightarrow> keeps_rows led (jm_set led sid r)"
  by (auto simp: keeps_rows_def jm_get_set)

lemma transition_keeps: "ledger_transition reg led ts sid to = Inr (led', r) \<Longrightarrow> keeps_rows led led'"
  by (auto elim!: transition_Inr intro: keeps_set)

lemma pid_keeps: "backfillPid reg led ts sid p n = Inr (led', r) \<Longrightarrow> keeps_rows led led'"
  by (auto elim!: pid_Inr intro: keeps_set)

lemma native_keeps: "backfillNativeSessionId reg led ts sid n = Inr (led', r) \<Longrightarrow> keeps_rows led led'"
  by (erule native_Inr) (auto intro: keeps_set)

lemma try_transition_keeps [simp]: "keeps_rows led (fst (try_transition reg ts led sid to))"
  by (auto simp: try_transition_def intro: transition_keeps split: sum.splits)

lemma settle_exit_keeps [simp]: "keeps_rows led (settle_exit reg ts led sid)"
  by (auto simp: settle_exit_def split: sum.splits option.splits)

lemma start_writes_keeps [simp]: "keeps_rows led (fst (start_writes reg ts led sid pid nonce))"
  unfolding start_writes_def Let_def
  by (auto intro: pid_keeps keeps_trans [OF try_transition_keeps pid_keeps] split: sum.splits option.splits)

lemma pump_end_keeps [simp]: "keeps_rows (kn_ledger k) (kn_ledger (pump_end cfg reg ts k run))"
  by (auto simp: pump_end_def Let_def split: option.split)

lemma pump_message_keeps: "keeps_rows (kn_ledger k) (kn_ledger (pump_message cfg reg ts k run msg))"
  by (auto simp: pump_message_def Let_def intro: native_keeps split: option.split sum.split runner_message.split)

definition row_written :: "kernel_config \<Rightarrow> registry \<Rightarrow> string \<Rightarrow> kernel \<Rightarrow> string \<Rightarrow> kernel \<Rightarrow> bool" where
  "row_written cfg reg ts k newid k' \<longleftrightarrow>
     (\<exists>a repairOf. insertRowAndSpawn cfg reg ts k a repairOf = Inr k' \<and> sa_id a = newid)"

lemma launch_written: "launch cfg reg ts k newid p = Inr k' \<Longrightarrow> row_written cfg reg ts k newid k'"
  unfolding launch_def row_written_def by (auto simp: r_bind_Inr split: if_splits option.splits)

lemma forkFrom_written: "forkFrom cfg reg ts k newid r prompt anchor repaired = Inr k' \<Longrightarrow> row_written cfg reg ts k newid k'"
  unfolding forkFrom_def row_written_def by (auto split: if_split_asm option.splits)

lemma as_call_written:
  "(\<And>k'. r = Inr k' \<Longrightarrow> row_written cfg reg ts k newid k') \<Longrightarrow>
   row_written cfg reg ts k newid (snd (as_call k r)) \<or> keeps_rows (kn_ledger k) (kn_ledger (snd (as_call k r)))"
  by (cases r) (simp_all add: as_call_def)

lemma fork_call_written:
  "row_written cfg reg ts k newid (snd (as_call k (forkFrom cfg reg ts k newid r prompt anchor repaired)))
   \<or> keeps_rows (kn_ledger k) (kn_ledger (snd (as_call k (forkFrom cfg reg ts k newid r prompt anchor repaired))))"
  by (rule as_call_written) (rule forkFrom_written)

lemma launch_call_written:
  "row_written cfg reg ts k newid (snd (as_call k (launch cfg reg ts k newid p)))
   \<or> keeps_rows (kn_ledger k) (kn_ledger (snd (as_call k (launch cfg reg ts k newid p))))"
  by (rule as_call_written) (rule launch_written)

lemma redrive_keeps: "keeps_rows (kn_ledger k) (kn_ledger (snd (redrive cfg reg ts k r native prompt)))"
  by (auto simp: redrive_def Let_def intro: transition_keeps split: sum.split)

lemma resume_dead_written:
  "row_written cfg reg ts k newid (snd (resume_dead cfg reg ts k newid r prompt fork probe readf))
   \<or> keeps_rows (kn_ledger k) (kn_ledger (snd (resume_dead cfg reg ts k newid r prompt fork probe readf)))"
  using fork_call_written [of cfg reg ts k newid r prompt] redrive_keeps [of k cfg reg ts r]
  unfolding resume_dead_def by (auto split: sum.split option.split)

lemma resume_written:
  "row_written cfg reg ts k newid (snd (resume cfg reg ts k newid sid prompt_opt fork probe readf))
   \<or> keeps_rows (kn_ledger k) (kn_ledger (snd (resume cfg reg ts k newid sid prompt_opt fork probe readf)))"
  using fork_call_written [of cfg reg ts k newid] resume_dead_written [of cfg reg ts k newid]
  unfolding resume_def by (auto split: sum.split option.split session_state.split)

definition new_id :: "kernel_op \<Rightarrow> string option" where
  "new_id op = (case op of KLaunch newid _ \<Rightarrow> Some newid | KResume newid _ _ _ _ _ \<Rightarrow> Some newid | _ \<Rightarrow> None)"

lemma kernel_step_rows:
  "(\<exists>newid. new_id op = Some newid \<and> row_written cfg reg ts k newid (kernel_step cfg k (reg, ts, op)))
   \<or> keeps_rows (kn_ledger k) (kn_ledger (kernel_step cfg k (reg, ts, op)))"
proof (cases op)
  case (KLaunch newid p)
  then show ?thesis using launch_call_written [of cfg reg ts k newid p] by (simp add: kernel_step_def new_id_def)
next
  case (KResume newid sid prompt fork probe readf)
  then show ?thesis using resume_written [of cfg reg ts k newid sid prompt fork probe readf] by (simp add: kernel_step_def new_id_def)
next
  case (KHook run)
  then show ?thesis by (auto simp: kernel_step_def after_hook_def split: option.split)
next
  case (KStartFailed run)
  then show ?thesis by (auto simp: kernel_step_def start_failed_def split: option.split)
next
  case (KStarted run pid nonce)
  then show ?thesis by (auto simp: kernel_step_def start_done_def Let_def split: option.split)
next
  case (KMessage run msg)
  then show ?thesis using pump_message_keeps by (simp add: kernel_step_def)
next
  case KSettle
  then show ?thesis by (auto simp: kernel_step_def settle_repaired_def split: list.split)
next
  case (KAbort sid)
  then show ?thesis by (auto simp: kernel_step_def kernel_abort_def split: option.split sum.split)
qed (simp_all add: kernel_step_def kernel_shutdown_def)

section \<open>The node of a session\<close>

definition node_of_row :: "lineage_db \<Rightarrow> ledger_row \<Rightarrow> bool" where
  "node_of_row db r \<longleftrightarrow> (\<exists>n. jm_get (ld_nodes db) (rl_id r) = Some n \<and> sn_account n = rl_accountLabel r
     \<and> sn_backend n = rl_backend r \<and> sn_cwd n = Some (rl_cwd r) \<and> sn_origin n = Harness \<and> sn_confidence n = Recorded)"

lemma node_of_row_later:
  assumes "node_of_row db r" "lineage_le db db'" "row_identity r' = row_identity r"
  shows "node_of_row db' r'"
proof -
  obtain n where n: "jm_get (ld_nodes db) (rl_id r) = Some n" "sn_account n = rl_accountLabel r"
     "sn_backend n = rl_backend r" "sn_cwd n = Some (rl_cwd r)" "sn_origin n = Harness" "sn_confidence n = Recorded"
    using assms(1) by (auto simp: node_of_row_def)
  obtain n' where "jm_get (ld_nodes db') (rl_id r) = Some n'" "node_identity n' = node_identity n"
    using assms(2) n(1) unfolding lineage_le_def by blast
  then show ?thesis using n assms(3) by (auto simp: node_of_row_def node_identity_def row_identity_def)
qed

lemma hint_exists:
  assumes "lineage_ok db"
  shows "workstream_exists db (resolveWorkstreamHint db hint)"
proof -
  have "jm_get (ld_workstreams db) (wr_id r) \<noteq> None" if "find (\<lambda>r. wr_title r = h) (workstreams_list db None) = Some r" for h r
  proof -
    have "r \<in> set (workstreams_list db None)" using that by (auto simp: find_Some_iff)
    then obtain i where "(i, r) \<in> set (ld_workstreams db)" by (auto simp: workstreams_list_def jm_values_def)
    then have "jm_get (ld_workstreams db) i = Some r" using assms by (simp add: lineage_ok_def jm_get_def jm_ok_def)
    then show ?thesis using assms by (auto simp: lineage_ok_def)
  qed
  then show ?thesis by (auto simp: resolveWorkstreamHint_def workstream_exists_def workstreams_get_def split: option.split)
qed

lemma harness_insert:
  assumes "lineage_ok db" "\<not> is_blank i" "isClaudeAccountLabel a" "absolute_path cwd" "jm_get (ld_nodes db) i = None"
  shows "fst (nodes_insert reg db ts (harness_node db i a ''claude_code'' cwd hint))
    = db\<lparr>ld_nodes := jm_set (ld_nodes db) i (new_node_row ts (harness_node db i a ''claude_code'' cwd hint))\<rparr>"
proof -
  let ?n = "harness_node db i a ''claude_code'' cwd hint"
  have id: "nn_id ?n = i" "nn_account ?n = a" "nn_backend ?n = ''claude_code''" "nn_cwd ?n = Some cwd"
    "nn_workstreamId ?n = resolveWorkstreamHint db hint" "nn_displayName ?n = None" "nn_gitBranch ?n = None"
    by (simp_all add: harness_node_def)
  have "i \<noteq> []" using assms(2) by (auto simp: is_blank_iff)
  then have check: "node_check (new_node_row ts ?n)"
    using assms(3) by (simp add: node_check_def new_node_row_def id builtin_label_form_def)
  have ws: "(case nn_workstreamId ?n of None \<Rightarrow> Inr () | Some w \<Rightarrow> r_bind (getWorkstream db w) (\<lambda>_. Inr ())) = Inr ()"
    using hint_exists [OF assms(1), of hint] unfolding id
    by (auto simp: workstream_exists_def getWorkstream_def of_option_def split: option.splits)
  show ?thesis unfolding nodes_insert_def ws
    by (simp add: id assms check after_guards_def guard_def requireNonBlankLineageId_def isAccountLabel_def backendForLabel_def
        screenNamingLineage_def jm_has_iff_get fst_put)
qed

lemma fst_rec_bind_read: "fst (rec_bind (rec_read s m) f) = (case m of Inl e \<Rightarrow> s | Inr x \<Rightarrow> fst (f x s))"
  by (simp add: rec_bind_def rec_read_def split: sum.split)

lemma launch_node:
  assumes "lineage_ok (rc_db s)" "\<not> is_blank i" "isClaudeAccountLabel a" "absolute_path cwd" "jm_get (ld_nodes (rc_db s)) i = None"
  shows "jm_get (ld_nodes (rc_db (record_action reg ts mint led s (ActLaunch i a ''claude_code'' cwd hint)))) i
    = Some (new_node_row ts (harness_node (rc_db s) i a ''claude_code'' cwd hint))"
proof -
  let ?n = "harness_node (rc_db s) i a ''claude_code'' cwd hint"
  have l: "insertLaunchNode reg ts s i a ''claude_code'' cwd hint = rec_store s (nodes_insert reg (rc_db s) ts ?n)"
    using assms(5) by (simp add: insertLaunchNode_def nodes_get_def rec_read_def rec_bind_def)
  have "rc_db (fst (recordUnsafe reg ts mint led s (ActLaunch i a ''claude_code'' cwd hint))) = fst (nodes_insert reg (rc_db s) ts ?n)"
    by (simp add: recordUnsafe_def l rec_bind_def rec_store_def rec_publish_def split: sum.split prod.split)
  then have "rc_db (record_action reg ts mint led s (ActLaunch i a ''claude_code'' cwd hint)) = fst (nodes_insert reg (rc_db s) ts ?n)"
    by (auto simp: record_action_def split: sum.split prod.split)
  then show ?thesis using harness_insert [OF assms, of reg ts hint] by (simp add: jm_get_set)
qed

section \<open>Histories\<close>

text \<open>The id factory returns ids that are not blank and that no node has yet.\<close>

definition fresh_launch :: "kernel \<times> recorder \<Rightarrow> recorded_op \<Rightarrow> bool" where
  "fresh_launch ks op = (case op of
     KernelCall reg isoTs ts kop \<Rightarrow> (case new_id kop of
         None \<Rightarrow> True | Some i \<Rightarrow> \<not> is_blank i \<and> jm_get (ld_nodes (rc_db (snd ks))) i = None)
   | StoreCall reg ts lop \<Rightarrow> True)"

primrec fresh_launches :: "kernel_config \<Rightarrow> (nat \<Rightarrow> string) \<Rightarrow> kernel \<times> recorder \<Rightarrow> recorded_op list \<Rightarrow> bool" where
  "fresh_launches cfg mint ks [] = True"
| "fresh_launches cfg mint ks (op # ops) = (fresh_launch ks op \<and> fresh_launches cfg mint (recorded_step cfg mint ks op) ops)"

definition sessions_recorded :: "ledger \<Rightarrow> kernel \<times> recorder \<Rightarrow> bool" where
  "sessions_recorded led ks \<longleftrightarrow> lineage_ok (rc_db (snd ks)) \<and> ledger_table (kn_ledger (fst ks))
     \<and> (\<forall>sid r. jm_get (kn_ledger (fst ks)) sid = Some r \<longrightarrow> jm_get led sid = None \<longrightarrow> node_of_row (rc_db (snd ks)) r)"

lemma row_written_effect:
  assumes "row_written cfg reg ts k newid k'"
  obtains r acts where "kn_ledger k' = jm_set (kn_ledger k) newid r" "rl_id r = newid" "claude_row r" "absolute_path (rl_cwd r)"
    "new_actions k k' = ActLaunch newid (rl_accountLabel r) ''claude_code'' (rl_cwd r) (rl_workstreamHint r) # acts"
proof -
  obtain a repairOf where a: "insertRowAndSpawn cfg reg ts k a repairOf = Inr k'" "sa_id a = newid"
    using assms by (auto simp: row_written_def)
  obtain prof e where pe: "resolve_profile cfg (sa_accountLabel a) = Inr prof" "buildEnvFor cfg prof = Inr e"
    using a(1) unfolding insertRowAndSpawn_def r_bind_Inr by blast
  obtain led r0 where ins: "insertBeforeSpawn reg (kn_ledger k) ts (row_for a) = Inr (led, r0)"
    and k': "kn_ledger k' = led" "kn_lineage k' = kn_lineage k
       @ [LineageLaunch (sa_id a) (sa_accountLabel a) (sa_cwd a) (sa_workstreamHint a)]
       @ (case sa_lineageForkFrom a of None \<Rightarrow> [] | Some parent \<Rightarrow> [LineageFork parent (sa_id a)])"
    using a(1) pe by (cases "insertBeforeSpawn reg (kn_ledger k) ts (row_for a)") (auto simp: insertRowAndSpawn_def)
  have label: "isClaudeAccountLabel (sa_accountLabel a)" using resolve_form pe(1) by (auto simp: resolve_claude)
  have abs: "absolute_path (sa_cwd a)"
    using ins by (auto simp: insertBeforeSpawn_def row_for_def split: if_splits)
  show thesis
  proof (rule that [of "new_row ts (row_for a)"])
    show "kn_ledger k' = jm_set (kn_ledger k) newid (new_row ts (row_for a))"
      using insert_Inr [OF ins] k'(1) a(2) by (simp add: row_for_def)
    show "new_actions k k' = ActLaunch newid (rl_accountLabel (new_row ts (row_for a))) ''claude_code''
        (rl_cwd (new_row ts (row_for a))) (rl_workstreamHint (new_row ts (row_for a)))
      # map action_of (case sa_lineageForkFrom a of None \<Rightarrow> [] | Some parent \<Rightarrow> [LineageFork parent (sa_id a)])"
      by (simp add: new_actions_def k'(2) action_of_def new_row_def row_for_def a(2))
  qed (use label abs a(2) in \<open>simp_all add: new_row_def row_for_def claude_row_def\<close>)
qed

lemma recorded_step_inv:
  assumes inv: "sessions_recorded led ks" and fresh: "fresh_launch ks op"
  shows "sessions_recorded led (recorded_step cfg mint ks op)"
proof -
  obtain k s where ks: "ks = (k, s)" by (cases ks)
  have ok: "lineage_ok (rc_db s)" and tab: "ledger_table (kn_ledger k)"
    and old: "\<And>sid r. jm_get (kn_ledger k) sid = Some r \<Longrightarrow> jm_get led sid = None \<Longrightarrow> node_of_row (rc_db s) r"
    using inv by (auto simp: sessions_recorded_def ks)
  show ?thesis
  proof (cases op)
    case (StoreCall reg ts lop)
    have big: "lineage_ok (lineage_step (rc_db s) (reg, ts, lop)) \<and> lineage_le (rc_db s) (lineage_step (rc_db s) (reg, ts, lop))"
      by (rule lineage_changes_inv [OF lineage_step_changes ok])
    have "node_of_row (lineage_step (rc_db s) (reg, ts, lop)) r"
      if "jm_get (kn_ledger k) sid = Some r" "jm_get led sid = None" for sid r
      by (rule node_of_row_later [OF old [OF that] _ refl]) (simp add: big)
    then show ?thesis using big tab by (simp add: recorded_step_def ks StoreCall sessions_recorded_def)
  next
    case (KernelCall reg isoTs ts kop)
    let ?k' = "kernel_step cfg k (reg, isoTs, kop)"
    let ?rec = "record_action reg ts mint (kn_ledger ?k')"
    let ?s' = "foldl ?rec s (new_actions k ?k')"
    have step: "recorded_step cfg mint ks op = (?k', ?s')" by (simp add: recorded_step_def ks KernelCall Let_def)
    have big: "lineage_ok (rc_db ?s') \<and> lineage_le (rc_db s) (rc_db ?s')"
      by (rule lineage_changes_inv [OF record_actions_changes ok])
    have moves: "ledger_moves (kn_ledger k) (kn_ledger ?k')" by (rule effect_moves [OF kernel_step_effect [OF tab]])
    have tab': "ledger_table (kn_ledger ?k')" by (rule ledger_moves_table [OF moves tab])
    have kept: "node_of_row (rc_db ?s') r'"
      if r': "jm_get (kn_ledger ?k') sid = Some r'" "jm_get led sid = None" and r: "jm_get (kn_ledger k) sid = Some r" for sid r r'
    proof -
      have "row_le r r'" using ledger_moves_le [OF moves tab] r r'(1) unfolding ledger_le_def by fastforce
      then show ?thesis using node_of_row_later [OF old [OF r r'(2)]] big by (auto simp: row_le_def)
    qed
    have "node_of_row (rc_db ?s') r'"
      if r': "jm_get (kn_ledger ?k') sid = Some r'" "jm_get led sid = None" for sid r'
    proof (cases "jm_get (kn_ledger k) sid")
      case (Some r)
      then show ?thesis by (rule kept [OF r'])
    next
      case None
      then have "\<not> keeps_rows (kn_ledger k) (kn_ledger ?k')" using r'(1) by (auto simp: keeps_rows_def)
      then obtain newid where n: "new_id kop = Some newid" "row_written cfg reg isoTs k newid ?k'"
        using kernel_step_rows by blast
      have f: "\<not> is_blank newid" "jm_get (ld_nodes (rc_db s)) newid = None"
        using fresh n(1) by (simp_all add: fresh_launch_def KernelCall ks)
      obtain r acts where w: "kn_ledger ?k' = jm_set (kn_ledger k) newid r" "rl_id r = newid" "claude_row r" "absolute_path (rl_cwd r)"
          "new_actions k ?k' = ActLaunch newid (rl_accountLabel r) ''claude_code'' (rl_cwd r) (rl_workstreamHint r) # acts"
        by (rule row_written_effect [OF n(2)])
      have r: "r' = r" using r'(1) None w(1) by (auto simp: jm_get_set split: if_splits)
      let ?s1 = "?rec s (ActLaunch newid (rl_accountLabel r) ''claude_code'' (rl_cwd r) (rl_workstreamHint r))"
      have ok1: "lineage_ok (rc_db ?s1)" using lineage_changes_inv [OF record_action_changes ok] by blast
      have "node_of_row (rc_db ?s1) r"
        using launch_node [OF ok f(1) _ w(4) f(2)] w(2,3)
        by (simp add: node_of_row_def claude_row_def new_node_row_def harness_node_def)
      moreover have "lineage_le (rc_db ?s1) (rc_db (foldl ?rec ?s1 acts))"
        using lineage_changes_inv [OF record_actions_changes ok1] by blast
      ultimately show ?thesis using node_of_row_later by (auto simp: w(5) r)
    qed
    then show ?thesis using big tab' by (auto simp: step sessions_recorded_def)
  qed
qed

lemma recorded_run_inv:
  "sessions_recorded led ks \<Longrightarrow> fresh_launches cfg mint ks ops \<Longrightarrow> sessions_recorded led (foldl (recorded_step cfg mint) ks ops)"
  by (induction ops arbitrary: ks) (simp_all add: recorded_step_inv)

text \<open>Claim C19: every session has its node. Start the kernel over any ledger, with the recorder over the lineage
  tables any history left. Let kernel calls, each with the actions it records, and calls of others on the
  lineage store follow in any order, the new session ids being fresh. Then each row the ledger gained has
  its session node, recorded by the harness with the account, the backend and the directory of the row,
  although a failing recorder never fails the kernel.\<close>

theorem kernel_sessions_recorded:
  assumes "ledger_table led" "db = foldl lineage_step empty_lineage earlier"
    and "fresh_launches cfg mint (createSessionKernel led, createLineageRecorder db) ops"
    and "foldl (recorded_step cfg mint) (createSessionKernel led, createLineageRecorder db) ops = (k, s)"
    and "jm_get (kn_ledger k) sid = Some r" "jm_get led sid = None"
  shows "\<exists>n. jm_get (ld_nodes (rc_db s)) sid = Some n \<and> sn_account n = rl_accountLabel r \<and> sn_backend n = rl_backend r
    \<and> sn_cwd n = Some (rl_cwd r) \<and> sn_origin n = Harness \<and> sn_confidence n = Recorded"
proof -
  have "lineage_ok db" unfolding assms(2) by (rule lin.inv_run) (rule empty_lineage_ok)
  then have "sessions_recorded led (createSessionKernel led, createLineageRecorder db)"
    using assms(1) by (simp add: sessions_recorded_def createSessionKernel_def createLineageRecorder_def)
  then have S: "sessions_recorded led (k, s)" using recorded_run_inv assms(3,4) by metis
  then have "node_of_row (rc_db s) r" "rl_id r = sid"
    using assms(5,6) by (auto simp: sessions_recorded_def ledger_table_def)
  then show ?thesis by (simp add: node_of_row_def)
qed

theorem kernel_sessions_recorded_witness:
  "\<exists>n. jm_get (ld_nodes (rc_db (snd (foldl (recorded_step sample_config (\<lambda>_. ''edg''))
      (createSessionKernel [], createLineageRecorder empty_lineage)
      [KernelCall initial_registry ''t0'' 1 (KLaunch ''ses_1'' sample_launch)])))) ''ses_1'' = Some n \<and> sn_account n = ''MAX_A''"
proof -
  let ?start = "(createSessionKernel [], createLineageRecorder empty_lineage)"
  let ?ops = "[KernelCall initial_registry ''t0'' 1 (KLaunch ''ses_1'' sample_launch)]"
  let ?ks = "foldl (recorded_step sample_config (\<lambda>_. ''edg'')) ?start ?ops"
  have t: "ledger_table []" by (simp add: ledger_table_def jm_get_def)
  have e: "empty_lineage = foldl lineage_step empty_lineage []" by simp
  have f: "fresh_launches sample_config (\<lambda>_. ''edg'') ?start ?ops"
    by (simp add: fresh_launch_def new_id_def is_blank_iff js_ws_def createLineageRecorder_def empty_lineage_def jm_get_def)
  have "fst ?ks = kernel_run_ops sample_config [] (take 1 sample_history)"
    by (simp add: recorded_step_def Let_def kernel_run_ops_def sample_history_def call_at_def)
  moreover have "map_option rl_accountLabel (jm_get (kn_ledger (kernel_run_ops sample_config [] (take 1 sample_history))) ''ses_1'')
      = Some ''MAX_A''" by code_simp
  moreover obtain k s where ks: "?ks = (k, s)" by (cases ?ks)
  ultimately obtain r where r: "jm_get (kn_ledger k) ''ses_1'' = Some r" "rl_accountLabel r = ''MAX_A''"
    unfolding ks by auto
  have n: "jm_get ([] :: ledger) ''ses_1'' = None" by (simp add: jm_get_def)
  show ?thesis using kernel_sessions_recorded [OF t e f ks r(1) n] r(2) unfolding ks by auto
qed

end
