(* ===== verification/Workstreams.thy ===== *)
theory Workstreams
  imports Lineage_Recorder "HOL-Library.Multiset"
begin

text \<open>
  The workstream services over the lineage store: the merge verb of the workstream engine
  (\<open>core/src/workstreams/engine.ts\<close>), the workstream ledger with its snapshots (\<open>ledger.ts\<close>) and the retention
  guardrails (\<open>guardrails.ts\<close>). A service returns the tables, what it handed to the publisher, and its result;
  a publisher that refuses a payload has no effect on the service. The id factories and the clock are
  arguments; each call reads the clock once, and the edge ids of a merge are \<open>edgeId 0\<close>, \<open>edgeId 1\<close> and so on.

  Shown: the snapshots count every node exactly once; a merge verb either writes the merge completely, or its
  brief alone, or nothing; a retention sweep flags exactly the nodes past the horizon and is idempotent.
\<close>

section \<open>Snapshots\<close>

record workstream_summary =
  sm_workstreamId :: string
  sm_title :: string
  sm_status :: workstream_status
  sm_tags :: "string list option"
  sm_nodeCount :: nat
  sm_updatedAt :: nat

record list_snapshot =
  ls_capturedAt :: nat
  ls_workstreams :: "workstream_summary list"
  ls_detachedNodeCount :: nat

record detail_snapshot =
  ds_capturedAt :: nat
  ds_workstream :: "workstream_summary option"
  ds_nodes :: "node_wire list"
  ds_edges :: "edge_wire list"

record brief_payload =
  bp_briefId :: string
  bp_body :: string
  bp_sourceSessionIds :: "string list"
  bp_createdAt :: nat
  bp_workstreamId :: "string option"

datatype workstream_payload = WsNode node_wire | WsEdge edge_wire | WsBrief brief_payload
  | WsList list_snapshot | WsDetail detail_snapshot

definition summaryOfWorkstream :: "workstream_row \<Rightarrow> nat \<Rightarrow> workstream_summary" where
  "summaryOfWorkstream r n = \<lparr>sm_workstreamId = wr_id r, sm_title = wr_title r, sm_status = wr_status r,
     sm_tags = (if wr_tags r = [] then None else Some (wr_tags r)), sm_nodeCount = n, sm_updatedAt = wr_updatedAtMs r\<rparr>"

definition nodeCountFor :: "registry \<Rightarrow> lineage_db \<Rightarrow> string \<Rightarrow> lineage_error + nat" where
  "nodeCountFor reg db w = r_bind (nodes_list reg db (Some w) False None) (\<lambda>ns. Inr (length ns))"

primrec summaries :: "registry \<Rightarrow> lineage_db \<Rightarrow> workstream_row list \<Rightarrow> lineage_error + workstream_summary list" where
  "summaries reg db [] = Inr []"
| "summaries reg db (r # rs) = r_bind (nodeCountFor reg db (wr_id r)) (\<lambda>n.
     r_bind (summaries reg db rs) (\<lambda>ss. Inr (summaryOfWorkstream r n # ss)))"

definition listSnapshot :: "registry \<Rightarrow> lineage_db \<Rightarrow> nat \<Rightarrow> lineage_error + list_snapshot" where
  "listSnapshot reg db ts = r_bind (summaries reg db (workstreams_list db None)) (\<lambda>ss.
     r_bind (nodes_list reg db None True None) (\<lambda>detached.
     Inr \<lparr>ls_capturedAt = ts, ls_workstreams = ss, ls_detachedNodeCount = length detached\<rparr>))"

definition touching_edges :: "lineage_db \<Rightarrow> node_row list \<Rightarrow> edge_row list" where
  "touching_edges db nodes = (let ids = map sn_id nodes in
     filter (\<lambda>e. se_toNode e \<in> set ids \<or> (case se_fromNode e of None \<Rightarrow> False | Some f \<Rightarrow> f \<in> set ids)) (edges_list db None))"

datatype detail_error = DetailStore lineage_error | DetailNoWorkstream

definition detailSnapshot :: "registry \<Rightarrow> lineage_db \<Rightarrow> nat \<Rightarrow> string \<Rightarrow> detail_error + detail_snapshot" where
  "detailSnapshot reg db ts w = (case workstreams_get db w of
     None \<Rightarrow> Inl DetailNoWorkstream
   | Some r \<Rightarrow> (case nodes_list reg db (Some w) False None of
       Inl e \<Rightarrow> Inl (DetailStore e)
     | Inr nodes \<Rightarrow> Inr \<lparr>ds_capturedAt = ts, ds_workstream = Some (summaryOfWorkstream r (length nodes)),
         ds_nodes = map nodeToWire nodes, ds_edges = map edgeToWire (touching_edges db nodes)\<rparr>))"

definition detachedSnapshot :: "registry \<Rightarrow> lineage_db \<Rightarrow> nat \<Rightarrow> detail_error + detail_snapshot" where
  "detachedSnapshot reg db ts = (case nodes_list reg db None True None of
     Inl e \<Rightarrow> Inl (DetailStore e)
   | Inr nodes \<Rightarrow> Inr \<lparr>ds_capturedAt = ts, ds_workstream = None, ds_nodes = map nodeToWire nodes,
       ds_edges = map edgeToWire (touching_edges db nodes)\<rparr>)"

section \<open>The workstream ledger\<close>

type_synonym 'a served = "lineage_db \<times> workstream_payload list \<times> (lineage_error + 'a)"

record create_workstream =
  cw_title :: string
  cw_description :: "string option"
  cw_tags :: "string list option"
  cw_status :: "workstream_status option"

text \<open>After a successful write the rail is published; the snapshot is taken outside the publisher's guard.\<close>

definition then_list :: "registry \<Rightarrow> nat \<Rightarrow> ('a \<Rightarrow> workstream_payload list) \<Rightarrow> 'a lin \<Rightarrow> 'a served" where
  "then_list reg ts before m = (case m of
     (db, Inl e) \<Rightarrow> (db, [], Inl e)
   | (db, Inr x) \<Rightarrow> (case listSnapshot reg db ts of
       Inl e \<Rightarrow> (db, before x, Inl e)
     | Inr snap \<Rightarrow> (db, before x @ [WsList snap], Inr x)))"

definition createWorkstream :: "registry \<Rightarrow> lineage_db \<Rightarrow> nat \<Rightarrow> string \<Rightarrow> create_workstream \<Rightarrow> workstream_row served" where
  "createWorkstream reg db ts newid inp = then_list reg ts (\<lambda>_. []) (workstreams_insert db ts
     \<lparr>nw_id = newid, nw_title = cw_title inp, nw_description = cw_description inp, nw_status = cw_status inp,
      nw_tags = cw_tags inp\<rparr>)"

definition ledger_setStatus :: "registry \<Rightarrow> lineage_db \<Rightarrow> nat \<Rightarrow> string \<Rightarrow> workstream_status \<Rightarrow> workstream_row served" where
  "ledger_setStatus reg db ts i st = then_list reg ts (\<lambda>_. []) (workstreams_setStatus db ts i st)"

definition ledger_rename :: "registry \<Rightarrow> lineage_db \<Rightarrow> nat \<Rightarrow> string \<Rightarrow> string \<Rightarrow> workstream_row served" where
  "ledger_rename reg db ts i title = then_list reg ts (\<lambda>_. []) (workstreams_rename db ts i title)"

definition ledger_setTags :: "registry \<Rightarrow> lineage_db \<Rightarrow> nat \<Rightarrow> string \<Rightarrow> string list \<Rightarrow> workstream_row served" where
  "ledger_setTags reg db ts i tags = then_list reg ts (\<lambda>_. []) (workstreams_setTags db ts i tags)"

definition assignNode :: "registry \<Rightarrow> lineage_db \<Rightarrow> nat \<Rightarrow> string \<Rightarrow> string option \<Rightarrow> node_row served" where
  "assignNode reg db ts i w = then_list reg ts (\<lambda>r. [WsNode (nodeToWire r)]) (assignWorkstream reg db i w)"

section \<open>The merge verb\<close>

record merge_params =
  mp_parents :: "string list"
  mp_accountLabel :: string
  mp_backend :: string
  mp_cwd :: string
  mp_purpose :: string
  mp_briefBody :: string
  mp_workstreamId :: "string option"

datatype merge_error = MSessionNotFound string | MWorkstreamNotFound string | MIdentityShapedPurpose
  | MBadRequest lineage_error | MPropagated lineage_error

text \<open>A \<open>LineageStoreError\<close> is answered as \<open>bad-request\<close>, every other error of the store propagates.\<close>

definition as_merge_error :: "lineage_error \<Rightarrow> merge_error" where
  "as_merge_error e = (if is_lineage_store_error e then MBadRequest e else MPropagated e)"

primrec requireParentNodes :: "registry \<Rightarrow> lineage_db \<Rightarrow> string list \<Rightarrow> merge_error + node_row list" where
  "requireParentNodes reg db [] = Inr []"
| "requireParentNodes reg db (p # ps) = (case nodes_get reg db p of
     Inl e \<Rightarrow> Inl (MPropagated e)
   | Inr None \<Rightarrow> Inl (MSessionNotFound p)
   | Inr (Some n) \<Rightarrow> r_bind (requireParentNodes reg db ps) (\<lambda>ns. Inr (n # ns)))"

definition merge_verb_guards :: "registry \<Rightarrow> lineage_db \<Rightarrow> merge_params \<Rightarrow> merge_error + unit" where
  "merge_verb_guards reg db p =
    r_bind (requireParentNodes reg db (mp_parents p)) (\<lambda>_.
    r_bind (case mp_workstreamId p of
        None \<Rightarrow> Inr () | Some w \<Rightarrow> guard (workstreams_get db w \<noteq> None) (MWorkstreamNotFound w)) (\<lambda>_.
    guard (assertIdentityFreeColumn (mp_purpose p)) MIdentityShapedPurpose))"

definition merge_brief :: "merge_params \<Rightarrow> string \<Rightarrow> new_brief" where
  "merge_brief p briefId = \<lparr>nb_id = briefId, nb_kind = BMerge, nb_bodyMd = mp_briefBody p, nb_sourceNodes = mp_parents p,
     nb_provenance = Refined, nb_tokenCount = None\<rparr>"

definition merge_input :: "merge_params \<Rightarrow> string \<Rightarrow> string \<Rightarrow> (nat \<Rightarrow> string) \<Rightarrow> record_merge_input" where
  "merge_input p sessionId briefId edgeId = \<lparr>
     rm_node = \<lparr>nn_id = sessionId, nn_workstreamId = mp_workstreamId p, nn_backend = mp_backend p,
       nn_account = mp_accountLabel p, nn_nativeSessionId = None, nn_nativeScope = None, nn_transcriptRef = None,
       nn_cwd = Some (mp_cwd p), nn_gitBranch = None, nn_worktree = None, nn_displayName = Some (mp_purpose p),
       nn_firstPromptHash = None, nn_state = NIdle, nn_origin = Harness, nn_confidence = Recorded\<rparr>,
     rm_parents = mp_parents p, rm_briefId = briefId, rm_edgeIds = map edgeId [0..<length (mp_parents p)]\<rparr>"

definition merge_fan_out :: "merge_params \<Rightarrow> nat \<Rightarrow> string \<Rightarrow> node_row \<Rightarrow> edge_row list \<Rightarrow> workstream_payload list" where
  "merge_fan_out p ts briefId node edges =
     WsBrief \<lparr>bp_briefId = briefId, bp_body = mp_briefBody p, bp_sourceSessionIds = mp_parents p, bp_createdAt = ts,
       bp_workstreamId = mp_workstreamId p\<rparr> # WsNode (nodeToWire node) # map (\<lambda>e. WsEdge (edgeToWire e)) edges"

definition engine_merge :: "registry \<Rightarrow> lineage_db \<Rightarrow> nat \<Rightarrow> merge_params \<Rightarrow> string \<Rightarrow> string \<Rightarrow> (nat \<Rightarrow> string) \<Rightarrow>
    lineage_db \<times> workstream_payload list \<times> (merge_error + string \<times> string)" where
  "engine_merge reg db ts p sessionId briefId edgeId = (case merge_verb_guards reg db p of
     Inl e \<Rightarrow> (db, [], Inl e)
   | Inr _ \<Rightarrow> (case briefs_insert reg db ts (merge_brief p briefId) of
       (db1, Inl e) \<Rightarrow> (db1, [], Inl (as_merge_error e))
     | (db1, Inr b) \<Rightarrow> (case recordMerge reg db1 ts (merge_input p sessionId (br_id b) edgeId) of
         (db2, Inl e) \<Rightarrow> (db2, [], Inl (as_merge_error e))
       | (db2, Inr (node, edges)) \<Rightarrow>
           (let out = merge_fan_out p ts (br_id b) node edges in
            case listSnapshot reg db2 ts of
              Inl e \<Rightarrow> (db2, out, Inl (MPropagated e))
            | Inr snap \<Rightarrow> (db2, out @ [WsList snap], Inr (sessionId, br_id b))))))"

section \<open>Retention\<close>

definition DAY_MS :: rat where
  "DAY_MS = 24 * 60 * 60 * 1000"

definition SWEEPABLE_STATES :: "node_state list" where
  "SWEEPABLE_STATES = [NRunning, NIdle, NCompleted, NExternal]"

record retention_options =
  rt_retentionDays :: rat
  rt_warnWindowDays :: rat

definition retention_options_ok :: "retention_options \<Rightarrow> bool" where
  "retention_options_ok opts = (0 < rt_retentionDays opts \<and> 0 \<le> rt_warnWindowDays opts \<and> rt_warnWindowDays opts < rt_retentionDays opts)"

definition lastActivityMs :: "node_row \<Rightarrow> jsnum" where
  "lastActivityMs r = (case sn_lastActiveAtMs r of None \<Rightarrow> num (sn_createdAtMs r) | Some x \<Rightarrow> x)"

definition horizonMs :: "retention_options \<Rightarrow> nat \<Rightarrow> jsnum" where
  "horizonMs opts ts = Fin (of_nat ts - rt_retentionDays opts * DAY_MS)"

definition warnMs :: "retention_options \<Rightarrow> nat \<Rightarrow> jsnum" where
  "warnMs opts ts = Fin (of_nat ts - (rt_retentionDays opts - rt_warnWindowDays opts) * DAY_MS)"

definition sweepable :: "node_row \<Rightarrow> bool" where
  "sweepable r = (sn_state r \<in> set SWEEPABLE_STATES)"

definition expired :: "retention_options \<Rightarrow> nat \<Rightarrow> node_row \<Rightarrow> bool" where
  "expired opts ts r = (sweepable r \<and> num_le (lastActivityMs r) (horizonMs opts ts))"

definition approaching :: "retention_options \<Rightarrow> nat \<Rightarrow> node_row \<Rightarrow> bool" where
  "approaching opts ts r = (sweepable r \<and> \<not> num_le (lastActivityMs r) (horizonMs opts ts) \<and> num_le (lastActivityMs r) (warnMs opts ts))"

record sweep_result =
  sw_scanned :: nat
  sw_flagged :: nat
  sw_approaching :: nat

primrec sweep_nodes :: "registry \<Rightarrow> retention_options \<Rightarrow> nat \<Rightarrow> lineage_db \<Rightarrow> workstream_payload list \<Rightarrow> sweep_result \<Rightarrow>
    node_row list \<Rightarrow> sweep_result served" where
  "sweep_nodes reg opts ts db out acc [] = (db, out, Inr acc)"
| "sweep_nodes reg opts ts db out acc (r # rs) = (let acc = acc\<lparr>sw_scanned := sw_scanned acc + 1\<rparr> in
     if expired opts ts r then (case nodes_setState reg db (sn_id r) NUnresumable of
         (db1, Inl e) \<Rightarrow> (db1, out, Inl e)
       | (db1, Inr updated) \<Rightarrow> sweep_nodes reg opts ts db1 (out @ [WsNode (nodeToWire updated)])
           (acc\<lparr>sw_flagged := sw_flagged acc + 1\<rparr>) rs)
     else sweep_nodes reg opts ts db out (if approaching opts ts r then acc\<lparr>sw_approaching := sw_approaching acc + 1\<rparr> else acc) rs)"

definition sweepRetention :: "registry \<Rightarrow> retention_options \<Rightarrow> lineage_db \<Rightarrow> nat \<Rightarrow> sweep_result served" where
  "sweepRetention reg opts db ts = (case nodes_list reg db None False None of
     Inl e \<Rightarrow> (db, [], Inl e)
   | Inr rows \<Rightarrow> sweep_nodes reg opts ts db [] \<lparr>sw_scanned = 0, sw_flagged = 0, sw_approaching = 0\<rparr> rows)"

record retention_counters =
  rcn_totalNodes :: nat
  rcn_unresumable :: nat
  rcn_approaching :: nat
  rcn_detached :: nat

definition retentionCounters :: "registry \<Rightarrow> retention_options \<Rightarrow> lineage_db \<Rightarrow> nat \<Rightarrow> lineage_error + retention_counters" where
  "retentionCounters reg opts db ts = r_bind (nodes_list reg db None False None) (\<lambda>rows. Inr
     \<lparr>rcn_totalNodes = length rows,
      rcn_unresumable = length (filter (\<lambda>r. sn_state r = NUnresumable) rows),
      rcn_approaching = length (filter (\<lambda>r. sweepable r \<and> num_le (lastActivityMs r) (warnMs opts ts)
         \<and> num_less (horizonMs opts ts) (lastActivityMs r)) rows),
      rcn_detached = length (filter (\<lambda>r. sn_workstreamId r = None) rows)\<rparr>)"

section \<open>Counting\<close>

lemma decode_nodes_Inr: "decode_nodes reg rs = Inr ns \<Longrightarrow> ns = rs"
  by (induction rs arbitrary: ns) (auto simp: r_bind_Inr dest: nodeFromSql_Inr)

lemma nodes_list_length:
  assumes "nodes_list reg db w detached states = Inr ns"
  shows "length ns = length (filter (\<lambda>r. (case w of None \<Rightarrow> True | Some w \<Rightarrow> sn_workstreamId r = Some w)
        \<and> (detached \<longrightarrow> sn_workstreamId r = None)
        \<and> (case states of None \<Rightarrow> True | Some sts \<Rightarrow> sts = [] \<or> sn_state r \<in> set sts)) (jm_values (ld_nodes db)))"
  using decode_nodes_Inr [OF assms [unfolded nodes_list_def]] by (simp add: length_js_sort)

lemma mset_js_insert: "mset (js_insert cmp x xs) = add_mset x (mset xs)"
  by (induction xs) simp_all

lemma mset_js_sort: "mset (js_sort cmp xs) = mset xs"
  by (induction xs) (simp_all add: js_sort_Cons mset_js_insert js_sort_def)

lemma sum_indicator: "distinct ks \<Longrightarrow> sum_list (map (\<lambda>k. if x = Some k then 1 else (0::nat)) ks)
    = (case x of None \<Rightarrow> 0 | Some k \<Rightarrow> if k \<in> set ks then 1 else 0)"
  by (induction ks) (auto split: option.split)

text \<open>A list is partitioned by a key: the groups of the keys and the rest.\<close>

lemma group_counts:
  assumes "distinct ks" "\<And>r k. r \<in> set rs \<Longrightarrow> f r = Some k \<Longrightarrow> k \<in> set ks"
  shows "sum_list (map (\<lambda>k. length (filter (\<lambda>r. f r = Some k) rs)) ks) + length (filter (\<lambda>r. f r = None) rs) = length rs"
  using assms(2)
proof (induction rs)
  case Nil
  show ?case by (induction ks) simp_all
next
  case (Cons r rs)
  have "sum_list (map (\<lambda>k. length (filter (\<lambda>r. f r = Some k) (r # rs))) ks)
      = sum_list (map (\<lambda>k. (if f r = Some k then 1 else 0) + length (filter (\<lambda>r. f r = Some k) rs)) ks)"
    by (rule arg_cong [of _ _ sum_list]) auto
  also have "\<dots> = (case f r of None \<Rightarrow> 0 | Some k \<Rightarrow> 1) + sum_list (map (\<lambda>k. length (filter (\<lambda>r. f r = Some k) rs)) ks)"
    using sum_indicator [OF assms(1), of "f r"] Cons.prems [of r]
    by (simp add: sum_list_addf split: option.split)
  finally show ?case using Cons by (auto split: option.split)
qed

lemma summaries_Inr:
  "summaries reg db rs = Inr ss \<Longrightarrow> map sm_workstreamId ss = map wr_id rs
   \<and> map sm_nodeCount ss = map (\<lambda>r. length (filter (\<lambda>n. sn_workstreamId n = Some (wr_id r)) (jm_values (ld_nodes db)))) rs"
proof (induction rs arbitrary: ss)
  case (Cons r rs)
  obtain n ss' where n: "nodeCountFor reg db (wr_id r) = Inr n" "summaries reg db rs = Inr ss'" "ss = summaryOfWorkstream r n # ss'"
    using Cons.prems by (auto simp: r_bind_Inr)
  have "n = length (filter (\<lambda>n. sn_workstreamId n = Some (wr_id r)) (jm_values (ld_nodes db)))"
    using n(1) nodes_list_length by (auto simp: nodeCountFor_def r_bind_Inr)
  then show ?case using Cons.IH [OF n(2)] n(3) by (simp add: summaryOfWorkstream_def)
qed simp

lemma jm_ok_values:
  assumes "jm_ok m" "\<And>i r. jm_get m i = Some r \<Longrightarrow> key r = i"
  shows "map key (jm_values m) = map fst m"
proof -
  have "key (snd ir) = fst ir" if "ir \<in> set m" for ir
    using assms that by (cases ir) (simp add: jm_ok_def jm_get_def)
  then show ?thesis by (simp add: jm_values_def)
qed

text \<open>The rail counts every session once. In the list snapshot over the tables of any history the
  workstreams are all there, each once, and their node counts together with the detached count are exactly
  the number of session nodes.\<close>

theorem snapshot_counts_exact:
  assumes "db = foldl lineage_step empty_lineage ops" "listSnapshot reg db ts = Inr snap"
  shows "sum_list (map sm_nodeCount (ls_workstreams snap)) + ls_detachedNodeCount snap = length (ld_nodes db)
    \<and> distinct (map sm_workstreamId (ls_workstreams snap))
    \<and> set (map sm_workstreamId (ls_workstreams snap)) = fst ` set (ld_workstreams db)"
proof -
  have ok: "lineage_ok db" unfolding assms(1) by (rule lin.inv_run) (rule empty_lineage_ok)
  let ?ws = "workstreams_list db None" and ?ns = "jm_values (ld_nodes db)"
  obtain ss d where s: "summaries reg db ?ws = Inr ss" "nodes_list reg db None True None = Inr d"
      "snap = \<lparr>ls_capturedAt = ts, ls_workstreams = ss, ls_detachedNodeCount = length d\<rparr>"
    using assms(2) by (auto simp: listSnapshot_def r_bind_Inr)
  have ids: "map wr_id (jm_values (ld_workstreams db)) = map fst (ld_workstreams db)"
    using ok by (intro jm_ok_values) (auto simp: lineage_ok_def)
  have perm: "mset ?ws = mset (jm_values (ld_workstreams db))" by (simp add: workstreams_list_def mset_js_sort)
  have mids: "mset (map wr_id ?ws) = mset (map fst (ld_workstreams db))" unfolding ids [symmetric] by (simp add: perm)
  have dist: "distinct (map wr_id ?ws)"
    using mset_eq_imp_distinct_iff [OF mids] ok by (simp add: lineage_ok_def jm_ok_def)
  have setids: "set (map wr_id ?ws) = fst ` set (ld_workstreams db)" using mset_eq_setD [OF mids] by simp
  have "w \<in> set (map wr_id ?ws)" if rn: "r \<in> set ?ns" and rw: "sn_workstreamId r = Some w" for r w
  proof -
    obtain i where "(i, r) \<in> set (ld_nodes db)" using rn by (auto simp: jm_values_def)
    then have "jm_get (ld_nodes db) i = Some r" using ok by (simp add: lineage_ok_def jm_get_def jm_ok_def)
    then have "workstream_exists db (sn_workstreamId r)" using ok unfolding lineage_ok_def by blast
    then have "workstream_exists db (Some w)" by (simp add: rw)
    then show ?thesis unfolding setids by (auto simp: workstream_exists_def jm_get_def dest!: map_of_SomeD intro: rev_image_eqI)
  qed
  then have "sum_list (map (\<lambda>k. length (filter (\<lambda>r. sn_workstreamId r = Some k) ?ns)) (map wr_id ?ws))
      + length (filter (\<lambda>r. sn_workstreamId r = None) ?ns) = length ?ns"
    by (rule group_counts [OF dist])
  moreover have "length d = length (filter (\<lambda>r. sn_workstreamId r = None) ?ns)"
    using nodes_list_length [OF s(2)] by simp
  ultimately have "sum_list (map sm_nodeCount ss) + length d = length (ld_nodes db)"
    using summaries_Inr [OF s(1)] by (simp add: comp_def jm_values_def)
  then show ?thesis using summaries_Inr [OF s(1)] dist setids s(3) by simp
qed

theorem snapshot_counts_exact_witness:
  "sum_list (map sm_nodeCount (ls_workstreams \<lparr>ls_capturedAt = 9, ls_workstreams = [], ls_detachedNodeCount = 2\<rparr>)) + 2
   = length (ld_nodes (foldl lineage_step empty_lineage sample_lineage))"
proof -
  have "listSnapshot initial_registry (foldl lineage_step empty_lineage sample_lineage) 9
      = Inr \<lparr>ls_capturedAt = 9, ls_workstreams = [], ls_detachedNodeCount = 2\<rparr>"
    unfolding sample_lineage_run by code_simp
  then show ?thesis using snapshot_counts_exact [OF refl] by fastforce
qed

section \<open>What the merge verb writes\<close>

definition brief_written :: "lineage_db \<Rightarrow> nat \<Rightarrow> merge_params \<Rightarrow> string \<Rightarrow> lineage_db" where
  "brief_written db ts p briefId =
     db\<lparr>ld_briefs := ld_briefs db @ [(briefId, new_brief_row ts None (merge_brief p briefId))]\<rparr>"

definition merge_written :: "lineage_db \<Rightarrow> nat \<Rightarrow> merge_params \<Rightarrow> string \<Rightarrow> string \<Rightarrow> (nat \<Rightarrow> string) \<Rightarrow> lineage_db" where
  "merge_written db ts p sessionId briefId edgeId = (let inp = merge_input p sessionId briefId edgeId in
     (brief_written db ts p briefId)\<lparr>ld_nodes := ld_nodes db @ [(sessionId, new_node_row ts (rm_node inp))],
       ld_edges := ld_edges db @ zip (rm_edgeIds inp) (merge_edge_rows ts inp)\<rparr>)"

lemma merge_brief_insert:
  assumes "briefs_insert reg db ts (merge_brief p briefId) = (db1, res)"
  shows "(\<exists>e. res = Inl e) \<and> db1 = db \<or>
    res = Inr (new_brief_row ts None (merge_brief p briefId)) \<and> db1 = brief_written db ts p briefId"
  using assms unfolding briefs_insert_def
  by (cases rule: after_guards_elim)
    (auto simp: lineage_iffs merge_brief_def brief_written_def new_brief_row_def jm_set_fresh Let_def opt_field_def)

text \<open>Claim C29: the merge verb. Over the tables of any history, a merge request that is resolved has written its
  brief, its node and its \<open>merge_parent\<close> edges, and has published them with the refreshed rail. A request that is
  refused for an unknown parent, an unknown workstream or an identity-shaped purpose has written and published
  nothing; any other failure has written nothing, or the brief alone, or, only when the rail cannot be read back
  after the transaction, the complete merge. A node without its edges is never written.\<close>

theorem merge_verb_exact:
  assumes "db = foldl lineage_step empty_lineage ops" "engine_merge reg db ts p sessionId briefId edgeId = (db', out, res)"
  defines "full \<equiv> merge_written db ts p sessionId briefId edgeId"
    and "pub \<equiv> merge_fan_out p ts briefId (new_node_row ts (rm_node (merge_input p sessionId briefId edgeId)))
      (merge_edge_rows ts (merge_input p sessionId briefId edgeId))"
  shows "case res of
      Inr ids \<Rightarrow> ids = (sessionId, briefId) \<and> db' = full \<and> (\<exists>snap. listSnapshot reg full ts = Inr snap \<and> out = pub @ [WsList snap])
    | Inl e \<Rightarrow> (if \<exists>i. e \<in> {MSessionNotFound i, MWorkstreamNotFound i, MIdentityShapedPurpose} then db' = db \<and> out = []
        else db' = db \<and> out = [] \<or> db' = brief_written db ts p briefId \<and> out = []
          \<or> db' = full \<and> out = pub \<and> (\<exists>le. listSnapshot reg full ts = Inl le \<and> e = MPropagated le))"
proof (cases "merge_verb_guards reg db p")
  case (Inl e)
  then show ?thesis using assms(2) by (auto simp: engine_merge_def)
next
  case guards: (Inr u)
  have ok: "lineage_ok db" unfolding assms(1) by (rule lin.inv_run) (rule empty_lineage_ok)
  have code: "\<not> (\<exists>i. as_merge_error le \<in> {MSessionNotFound i, MWorkstreamNotFound i, MIdentityShapedPurpose})" for le
    by (simp add: as_merge_error_def)
  obtain db1 res1 where b: "briefs_insert reg db ts (merge_brief p briefId) = (db1, res1)"
    by (cases "briefs_insert reg db ts (merge_brief p briefId)")
  have ok1: "lineage_ok db1" using lineage_changes_inv [OF briefs_insert_changes ok, of reg ts "merge_brief p briefId"] by (simp add: b)
  show ?thesis
  proof (cases res1)
    case (Inl le)
    then have "db' = db" "out = []" "res = Inl (as_merge_error le)"
      using merge_brief_insert [OF b] assms(2) guards b by (auto simp: engine_merge_def)
    then show ?thesis using code [of le] by simp
  next
    case (Inr br)
    then have br: "br_id br = briefId" and db1: "db1 = brief_written db ts p briefId"
      using merge_brief_insert [OF b] by (auto simp: new_brief_row_def merge_brief_def)
    let ?inp = "merge_input p sessionId briefId edgeId"
    obtain db2 res2 where m: "recordMerge reg db1 ts ?inp = (db2, res2)" by (cases "recordMerge reg db1 ts ?inp")
    show ?thesis
    proof (cases res2)
      case (Inl le)
      then have "db' = brief_written db ts p briefId" "out = []" "res = Inl (as_merge_error le)"
        using recordMerge_refused m assms(2) guards b \<open>res1 = Inr br\<close> br db1 by (auto simp: engine_merge_def)
      then show ?thesis using code [of le] by simp
    next
      case (Inr ne)
      obtain node edges where ne: "ne = (node, edges)" by (cases ne)
      note acc = recordMerge_accepted [OF ok1 m [unfolded Inr ne]]
      have sid: "sn_id node = sessionId" using acc(3) by (simp add: merge_input_def)
      have full: "db2 = full" unfolding acc(4) sid assms(3) merge_written_def Let_def acc(2) db1 brief_written_def
        using sid acc(1) by simp
      have pub: "pub = merge_fan_out p ts briefId node edges" by (simp add: assms(4) acc(1,2))
      have run: "engine_merge reg db ts p sessionId briefId edgeId = (let out = merge_fan_out p ts (br_id br) node edges in
          case listSnapshot reg db2 ts of Inl e \<Rightarrow> (db2, out, Inl (MPropagated e))
          | Inr snap \<Rightarrow> (db2, out @ [WsList snap], Inr (sessionId, br_id br)))"
        using guards b \<open>res1 = Inr br\<close> br m Inr ne by (simp add: engine_merge_def)
      show ?thesis
      proof (cases "listSnapshot reg db2 ts")
        case (Inl e)
        then have "db' = full" "out = pub" "res = Inl (MPropagated e)"
          using assms(2) unfolding run by (simp_all add: br full pub)
        then show ?thesis using Inl full by simp
      next
        case (Inr snap)
        then have "db' = full" "out = pub @ [WsList snap]" "res = Inr (sessionId, briefId)"
          using assms(2) unfolding run by (simp_all add: br full pub)
        then show ?thesis using Inr full by simp
      qed
    qed
  qed
qed

definition sample_params :: merge_params where
  "sample_params = \<lparr>mp_parents = [''a'', ''b''], mp_accountLabel = ''ENT'', mp_backend = ''claude_code'', mp_cwd = ''/w'',
     mp_purpose = ''join'', mp_briefBody = ''both'', mp_workstreamId = None\<rparr>"

theorem merge_verb_exact_witness:
  "fst (engine_merge initial_registry (foldl lineage_step empty_lineage (take 2 sample_lineage)) 5 sample_params ''m'' ''br'' (\<lambda>i. replicate (i + 1) CHR ''e''))
   = merge_written (foldl lineage_step empty_lineage (take 2 sample_lineage)) 5 sample_params ''m'' ''br'' (\<lambda>i. replicate (i + 1) CHR ''e'')"
proof -
  let ?db = "foldl lineage_step empty_lineage (take 2 sample_lineage)"
  let ?run = "engine_merge initial_registry ?db 5 sample_params ''m'' ''br'' (\<lambda>i. replicate (i + 1) CHR ''e'')"
  obtain db' out res where r: "?run = (db', out, res)" by (cases ?run)
  have "snd (snd ?run) = Inr (''m'', ''br'')" by code_simp
  then have "res = Inr (''m'', ''br'')" using r by simp
  then show ?thesis using merge_verb_exact [OF refl r] r by simp
qed

text \<open>The brief of a refused merge stays: an account that does not run on the requested backend is only found
  when the node is inserted.\<close>

lemma merge_refused_orphan_brief:
  "case engine_merge initial_registry (foldl lineage_step empty_lineage (take 2 sample_lineage)) 5
      (sample_params\<lparr>mp_backend := ''opencode''\<rparr>) ''m'' ''br'' (\<lambda>i. replicate (i + 1) CHR ''e'') of
    (db, out, res) \<Rightarrow> res = Inl (MBadRequest LPairingViolation) \<and> out = [] \<and> map fst (ld_briefs db) = [''br'']
      \<and> map fst (ld_nodes db) = [''a'', ''b'']"
  by code_simp

section \<open>What a sweep writes\<close>

definition flagged :: "retention_options \<Rightarrow> nat \<Rightarrow> node_row \<Rightarrow> node_row" where
  "flagged opts ts r = (if expired opts ts r then r\<lparr>sn_state := NUnresumable\<rparr> else r)"

definition flag_rows :: "retention_options \<Rightarrow> nat \<Rightarrow> node_row list \<Rightarrow> lineage_db \<Rightarrow> lineage_db" where
  "flag_rows opts ts rows db = db\<lparr>ld_nodes :=
     map (\<lambda>(i, r). (i, if i \<in> sn_id ` set rows then flagged opts ts r else r)) (ld_nodes db)\<rparr>"

lemma jm_set_present: "jm_ok m \<Longrightarrow> jm_get m i = Some r0 \<Longrightarrow> jm_set m i r = map (\<lambda>(j, v). (j, if j = i then r else v)) m"
proof (induction m i r rule: jm_set.induct)
  case (2 k' v' m k v)
  have "map (\<lambda>(j, x). (j, if j = k' then v else x)) m = m" if "k' \<notin> fst ` set m"
    using that by (intro map_idI) force
  then show ?case using 2 by (auto simp: jm_ok_def jm_get_def)
qed (simp add: jm_get_def)

lemma setState_decoded:
  assumes "jm_get (ld_nodes db) i = Some r" "nodeFromSql reg r = Inr r"
  shows "nodes_setState reg db i st = (db\<lparr>ld_nodes := jm_set (ld_nodes db) i (r\<lparr>sn_state := st\<rparr>)\<rparr>, Inr (r\<lparr>sn_state := st\<rparr>))"
proof -
  have "nodeFromSql reg (r\<lparr>sn_state := st\<rparr>) = Inr (r\<lparr>sn_state := st\<rparr>)"
    using assms(2) by (simp add: nodeFromSql_def split: if_splits)
  then show ?thesis using assms
    by (simp add: nodes_setState_def after_guards_def getNode_def of_option_def put_node_def Let_def jm_get_set)
qed

lemma sweep_nodes_writes:
  assumes "jm_ok (ld_nodes db)" "distinct (map sn_id rows)"
    and "\<And>r. r \<in> set rows \<Longrightarrow> jm_get (ld_nodes db) (sn_id r) = Some r \<and> nodeFromSql reg r = Inr r"
  shows "sweep_nodes reg opts ts db out acc rows =
    (flag_rows opts ts rows db, out @ map (\<lambda>r. WsNode (nodeToWire (flagged opts ts r))) (filter (expired opts ts) rows),
     Inr (acc\<lparr>sw_scanned := sw_scanned acc + length rows, sw_flagged := sw_flagged acc + length (filter (expired opts ts) rows),
       sw_approaching := sw_approaching acc + length (filter (approaching opts ts) rows)\<rparr>))"
  using assms
proof (induction rows arbitrary: db out acc)
  case Nil
  show ?case by (simp add: flag_rows_def case_prod_beta')
next
  case (Cons r rows)
  have r: "jm_get (ld_nodes db) (sn_id r) = Some r" "nodeFromSql reg r = Inr r" using Cons.prems(3) by simp_all
  have only: "x = r" if "(sn_id r, x) \<in> set (ld_nodes db)" for x
    using that r(1) Cons.prems(1) by (simp add: jm_get_def jm_ok_def)
  have fresh: "sn_id r \<notin> sn_id ` set rows" and dist: "distinct (map sn_id rows)" using Cons.prems(2) by auto
  show ?case
  proof (cases "expired opts ts r")
    case True
    let ?r = "r\<lparr>sn_state := NUnresumable\<rparr>"
    let ?db = "db\<lparr>ld_nodes := jm_set (ld_nodes db) (sn_id r) ?r\<rparr>"
    have pre: "jm_get (ld_nodes ?db) (sn_id x) = Some x \<and> nodeFromSql reg x = Inr x" if "x \<in> set rows" for x
    proof -
      have "sn_id x \<noteq> sn_id r" using that fresh by (metis image_eqI)
      then show ?thesis using that Cons.prems(3) [of x] by (simp add: jm_get_set)
    qed
    have "(\<lambda>(i, r). (i, if i \<in> sn_id ` set rows then flagged opts ts r else r)) ((\<lambda>(j, v). (j, if j = sn_id r then ?r else v)) ix)
        = (\<lambda>(i, x). (i, if i \<in> sn_id ` set (r # rows) then flagged opts ts x else x)) ix" if "ix \<in> set (ld_nodes db)" for ix
    proof -
      have "fst ix = sn_id r \<Longrightarrow> snd ix = r" using only [of "snd ix"] that by (cases ix) auto
      then show ?thesis using fresh True by (cases ix) (auto simp: flagged_def)
    qed
    then have "flag_rows opts ts rows ?db = flag_rows opts ts (r # rows) db"
      unfolding flag_rows_def by (simp add: jm_set_present [OF Cons.prems(1) r(1)])
    moreover have "approaching opts ts r = False" using True by (simp add: approaching_def expired_def)
    moreover have "flagged opts ts r = ?r" using True by (simp add: flagged_def)
    ultimately show ?thesis
      using Cons.IH [of ?db "out @ [WsNode (nodeToWire ?r)]", OF _ dist pre] Cons.prems(1) True
      by (simp add: setState_decoded [OF r] Let_def)
  next
    case False
    have "(\<lambda>(i, r). (i, if i \<in> sn_id ` set rows then flagged opts ts r else r)) ix
        = (\<lambda>(i, x). (i, if i \<in> sn_id ` set (r # rows) then flagged opts ts x else x)) ix" if "ix \<in> set (ld_nodes db)" for ix
    proof -
      have "fst ix = sn_id r \<Longrightarrow> snd ix = r" using only [of "snd ix"] that by (cases ix) auto
      then show ?thesis using False by (cases ix) (auto simp: flagged_def)
    qed
    then have "flag_rows opts ts rows db = flag_rows opts ts (r # rows) db"
      unfolding flag_rows_def by simp
    then show ?thesis using Cons.IH [of db, OF Cons.prems(1) dist] Cons.prems(3) False by (simp add: Let_def)
  qed
qed

text \<open>The retention sweep. When every node decodes, one sweep scans all of them, flags exactly those
  whose last activity is at or before the horizon and whose state may be flagged, changes nothing else, and a
  second sweep at the same time flags nothing.\<close>

theorem sweep_exact:
  assumes "db = foldl lineage_step empty_lineage ops" "nodes_list reg db None False None = Inr rows"
  shows "sweepRetention reg opts db ts =
      (db\<lparr>ld_nodes := map (\<lambda>(i, r). (i, flagged opts ts r)) (ld_nodes db)\<rparr>,
       map (\<lambda>r. WsNode (nodeToWire (flagged opts ts r))) (filter (expired opts ts) rows),
       Inr \<lparr>sw_scanned = length (ld_nodes db), sw_flagged = length (filter (expired opts ts) rows),
         sw_approaching = length (filter (approaching opts ts) rows)\<rparr>)
    \<and> filter (expired opts ts) (map (flagged opts ts) rows) = []"
proof -
  have ok: "lineage_ok db" unfolding assms(1) by (rule lin.inv_run) (rule empty_lineage_ok)
  then have jm: "jm_ok (ld_nodes db)" and key: "\<And>i r. jm_get (ld_nodes db) i = Some r \<Longrightarrow> sn_id r = i"
    by (auto simp: lineage_ok_def)
  have dec: "decode_nodes reg rs = Inr ns \<Longrightarrow> r \<in> set ns \<Longrightarrow> nodeFromSql reg r = Inr r" for rs ns r
    by (induction rs arbitrary: ns) (auto simp: r_bind_Inr, metis nodeFromSql_Inr)
  have rows: "rows = js_sort (time_id_cmp sn_createdAtMs sn_id) (jm_values (ld_nodes db))"
    using decode_nodes_Inr [OF assms(2) [unfolded nodes_list_def]] by simp
  have ids: "map sn_id (jm_values (ld_nodes db)) = map fst (ld_nodes db)" by (rule jm_ok_values [OF jm key])
  have dist: "distinct (map sn_id rows)" using jm unfolding rows by (simp add: ids jm_ok_def)
  have set_ids: "sn_id ` set rows = fst ` set (ld_nodes db)"
    using arg_cong [OF ids, of set] by (simp add: rows)
  have mem: "jm_get (ld_nodes db) (sn_id r) = Some r \<and> nodeFromSql reg r = Inr r" if rr: "r \<in> set rows" for r
  proof -
    obtain i where i: "(i, r) \<in> set (ld_nodes db)" using rr by (auto simp: rows jm_values_def)
    then have "jm_get (ld_nodes db) i = Some r" using jm by (simp add: jm_get_def jm_ok_def)
    then show ?thesis using key dec [OF assms(2) [unfolded nodes_list_def] rr] by auto
  qed
  have "flag_rows opts ts rows db = db\<lparr>ld_nodes := map (\<lambda>(i, r). (i, flagged opts ts r)) (ld_nodes db)\<rparr>"
    unfolding flag_rows_def set_ids by (rule arg_cong [where f = "\<lambda>m. db\<lparr>ld_nodes := m\<rparr>"]) force
  moreover have "length rows = length (ld_nodes db)" by (simp add: rows jm_values_def)
  ultimately have "sweepRetention reg opts db ts = (db\<lparr>ld_nodes := map (\<lambda>(i, r). (i, flagged opts ts r)) (ld_nodes db)\<rparr>,
       map (\<lambda>r. WsNode (nodeToWire (flagged opts ts r))) (filter (expired opts ts) rows),
       Inr \<lparr>sw_scanned = length (ld_nodes db), sw_flagged = length (filter (expired opts ts) rows),
         sw_approaching = length (filter (approaching opts ts) rows)\<rparr>)"
    using sweep_nodes_writes [OF jm dist mem, of opts ts] by (simp add: sweepRetention_def assms(2))
  moreover have "\<not> expired opts ts (flagged opts ts r)" for r
    by (simp add: flagged_def expired_def sweepable_def SWEEPABLE_STATES_def)
  ultimately show ?thesis by (simp add: filter_empty_conv)
qed

end
