(* ===== verification/Wire.thy ===== *)
theory Wire
  imports Approvals Session_Kernel Workstreams Dag_Roundtrip Pty_Frame
begin

text \<open>
  The messages a client may send: \<open>channels.ts\<close>, \<open>envelope.ts\<close>, \<open>replay.ts\<close>, \<open>errors.ts\<close> and the
  broker-side validators of \<open>validate.ts\<close>. Wire data never throws: a validator returns the sanitized
  value (\<open>Inr\<close>) or the \<open>ErrorCode\<close> to answer with (\<open>Inl\<close>); the message texts are left out. The value
  under test is a \<open>json\<close>, or \<open>json option\<close> where the field that carries it may be absent.

  The \<open>_json\<close> functions are the object literals the validators return, read as JSON: what a client
  that built the same value puts on the wire. The locale \<open>wire_codec\<close> is the contract of the two.
\<close>

declare map_of_append [simp del]

section \<open>Error codes\<close>

datatype error_code = ErrBadEnvelope | ErrBadAuth | ErrUnknownChannel | ErrUnknownVerb | ErrVerbReserved | ErrBadRequest
  | ErrSessionNotFound | ErrSessionNotResumable | ErrDoubleResumeBlocked | ErrApprovalNotPending | ErrWorkstreamNotFound
  | ErrPipelineNotFound | ErrPipelineRunNotFound | ErrPipelineInvalid | ErrStepNotFound | ErrOversizedFrame
  | ErrWatermarkOutOfRange | ErrInternal

definition ERROR_CODES :: "(string \<times> error_code) list" where
  "ERROR_CODES = [(''bad-envelope'', ErrBadEnvelope), (''bad-auth'', ErrBadAuth), (''unknown-channel'', ErrUnknownChannel),
     (''unknown-verb'', ErrUnknownVerb), (''verb-reserved'', ErrVerbReserved), (''bad-request'', ErrBadRequest),
     (''session-not-found'', ErrSessionNotFound), (''session-not-resumable'', ErrSessionNotResumable),
     (''double-resume-blocked'', ErrDoubleResumeBlocked), (''approval-not-pending'', ErrApprovalNotPending),
     (''workstream-not-found'', ErrWorkstreamNotFound), (''pipeline-not-found'', ErrPipelineNotFound),
     (''pipeline-run-not-found'', ErrPipelineRunNotFound), (''pipeline-invalid'', ErrPipelineInvalid),
     (''step-not-found'', ErrStepNotFound), (''oversized-frame'', ErrOversizedFrame),
     (''watermark-out-of-range'', ErrWatermarkOutOfRange), (''internal'', ErrInternal)]"

definition isErrorCode :: "string \<Rightarrow> bool" where
  "isErrorCode s = (s \<in> fst ` set ERROR_CODES)"

section \<open>Channels\<close>

definition STATIC_CHANNELS :: "string list" where
  "STATIC_CHANNELS = [''events'', ''context-graph'', ''quota'', ''approvals'', ''control'', ''workstream'', ''pipelines'']"

text \<open>\<open>value.slice(prefix.length)\<close> of a value that starts with the prefix.\<close>

definition after_prefix :: "string \<Rightarrow> string \<Rightarrow> string option" where
  "after_prefix p s = (if take (length p) s = p then Some (drop (length p) s) else None)"

definition isChannelName :: "string \<Rightarrow> bool" where
  "isChannelName s = (if s \<in> set STATIC_CHANNELS then True else
     case after_prefix ''pty.'' s of Some sid \<Rightarrow> isSessionIdSegment sid
     | None \<Rightarrow> (case after_prefix ''transcript.'' s of Some sid \<Rightarrow> isSessionIdSegment sid | None \<Rightarrow> False))"

definition streamForChannel :: "string \<Rightarrow> string" where
  "streamForChannel c = (if after_prefix ''pty.'' c \<noteq> None then ''pty''
     else if after_prefix ''transcript.'' c \<noteq> None then ''transcript'' else c)"

definition sessionIdOfChannel :: "string \<Rightarrow> string option" where
  "sessionIdOfChannel c = (case after_prefix ''pty.'' c of Some sid \<Rightarrow> Some sid | None \<Rightarrow> after_prefix ''transcript.'' c)"

definition ptyChannel :: "string \<Rightarrow> string" where
  "ptyChannel sid = ''pty.'' @ sid"

definition transcriptChannel :: "string \<Rightarrow> string" where
  "transcriptChannel sid = ''transcript.'' @ sid"

definition REPLAYABLE_STREAMS :: "string list" where
  "REPLAYABLE_STREAMS = [''events'', ''quota'', ''approvals'', ''transcript'', ''context-graph'', ''workstream'', ''pipelines'']"

definition isReplayableChannel :: "string \<Rightarrow> bool" where
  "isReplayableChannel c = (streamForChannel c \<in> set REPLAYABLE_STREAMS)"

lemma after_prefix_append [simp]: "after_prefix p (p @ s) = Some s"
  by (simp add: after_prefix_def)

lemma session_channels [simp]:
  "isSessionIdSegment sid \<Longrightarrow> isChannelName (ptyChannel sid)"
  "isSessionIdSegment sid \<Longrightarrow> isChannelName (transcriptChannel sid)"
  "sessionIdOfChannel (ptyChannel sid) = Some sid" "sessionIdOfChannel (transcriptChannel sid) = Some sid"
  "streamForChannel (ptyChannel sid) = ''pty''" "streamForChannel (transcriptChannel sid) = ''transcript''"
  by (simp_all add: isChannelName_def ptyChannel_def transcriptChannel_def sessionIdOfChannel_def streamForChannel_def
      after_prefix_def STATIC_CHANNELS_def)

section \<open>Fields\<close>

definition REQUEST_ID_RE :: "string \<Rightarrow> bool" where
  "REQUEST_ID_RE s = (1 \<le> length s \<and> length s \<le> 128 \<and> list_all id_char s)"

definition as_record :: "json option \<Rightarrow> error_code + json" where
  "as_record x = (case x of Some v \<Rightarrow> if isRecord v then Inr v else Inl ErrBadRequest | None \<Rightarrow> Inl ErrBadRequest)"

definition req_field :: "(json \<Rightarrow> 'a option) \<Rightarrow> json \<Rightarrow> string \<Rightarrow> error_code + 'a" where
  "req_field f v k = of_option ErrBadRequest (Option.bind (obj_get v k) f)"

definition optional :: "(json \<Rightarrow> 'a option) \<Rightarrow> json \<Rightarrow> string \<Rightarrow> error_code + 'a option" where
  "optional f v k = opt_field (obj_get v k) (\<lambda>x. of_option ErrBadRequest (f x))"

fun as_bool :: "json \<Rightarrow> bool option" where
  "as_bool (JBool b) = Some b"
| "as_bool _ = None"

definition as_obj :: "json \<Rightarrow> json option" where
  "as_obj v = (if isRecord v then Some v else None)"

lemma req_field_Inr: "req_field f v k = Inr y \<longleftrightarrow> (\<exists>x. obj_get v k = Some x \<and> f x = Some y)"
  by (cases "obj_get v k") (auto simp: req_field_def of_option_Inr)

lemma optional_Inr:
  "optional f v k = Inr y \<longleftrightarrow> (obj_get v k = None \<and> y = None) \<or> (\<exists>x z. obj_get v k = Some x \<and> f x = Some z \<and> y = Some z)"
  by (auto simp: optional_def opt_field_Inr of_option_Inr)

lemma as_record_Inr: "as_record x = Inr v \<longleftrightarrow> x = Some v \<and> isRecord v"
  by (cases x) (auto simp: as_record_def)

lemma as_bool_Some: "as_bool v = Some b \<longleftrightarrow> v = JBool b"
  by (cases v) auto

lemma as_obj_Some: "as_obj v = Some w \<longleftrightarrow> w = v \<and> isRecord v"
  by (auto simp: as_obj_def)

lemmas field_iffs = result_iffs req_field_Inr optional_Inr as_record_Inr str_when_Some as_bool_Some as_obj_Some
  non_empty_str_Some non_negative_int_Some

text \<open>Reading a field of an object literal.\<close>

lemma field_back:
  "obj_get v k = Some x \<Longrightarrow> f x = Some y \<Longrightarrow> req_field f v k = Inr y"
  "obj_get v k = map_option g y' \<Longrightarrow> (\<And>z. y' = Some z \<Longrightarrow> f (g z) = Some z) \<Longrightarrow> optional f v k = Inr y'"
  by (auto simp: req_field_def optional_def of_option_def opt_field_def split: option.splits)

lemma req_back: "obj_get v k = Some x \<Longrightarrow> req_field f v k = of_option ErrBadRequest (f x)"
  by (simp add: req_field_def)

lemma optional_back:
  "obj_get v k = map_option JStr y \<Longrightarrow> y \<noteq> Some [] \<Longrightarrow> optional non_empty_str v k = Inr y"
  "obj_get v k = map_option JStr y \<Longrightarrow> (\<And>s. y = Some s \<Longrightarrow> P s) \<Longrightarrow> optional (str_when P) v k = Inr y"
  "obj_get v k = map_option JBool b \<Longrightarrow> optional as_bool v k = Inr b"
  subgoal by (cases y) (simp_all add: optional_def non_empty_str_def of_option_def)
  subgoal by (cases y) (simp_all add: optional_def str_when_def of_option_def)
  subgoal by (cases b) (simp_all add: optional_def of_option_def)
  done

lemma as_record_obj [simp]: "as_record (Some (JObj kvs)) = Inr (JObj kvs)" "as_record None = Inl ErrBadRequest"
  by (simp_all add: as_record_def isRecord_def)

lemma isRecord_obj [simp]: "isRecord (JObj kvs)"
  by (simp add: isRecord_def)

section \<open>The contract of a message form\<close>

locale wire_codec =
  fixes decode :: "json \<Rightarrow> 'e + 'a" and encode :: "'a \<Rightarrow> json" and wf :: "'a \<Rightarrow> bool"
  assumes decode_wf: "decode v = Inr m \<Longrightarrow> wf m"
    and encode_back: "wf m \<Longrightarrow> decode (encode m) = Inr m"
begin

lemma sanitized_stable: "decode v = Inr m \<Longrightarrow> decode (encode m) = Inr m"
  by (rule encode_back) (rule decode_wf)

lemma accepted_iff: "decode (encode m) = Inr m \<longleftrightarrow> wf m"
  using decode_wf encode_back by blast

lemma encode_inj: "wf m \<Longrightarrow> wf m' \<Longrightarrow> encode m = encode m' \<Longrightarrow> m = m'"
  using encode_back by (metis sum.inject(2))

end

end
