(* ===== verification/Wire_Requests.thy ===== *)
theory Wire_Requests
  imports Wire
begin

text \<open>
  What a client sends: the envelope and the broker-side validators of \<open>validate.ts\<close> for the control
  verbs, the terminal's flow control, approval decisions, replay requests, merge requests and the
  pipeline verbs. Each form interprets \<open>wire_codec\<close>.
\<close>

section \<open>Envelope\<close>

record envelope =
  en_channel :: string
  en_seq :: nat
  en_payload :: json

text \<open>\<open>stream\<close> is the stream of the channel and is not kept apart.\<close>

definition validateEnvelope :: "json \<Rightarrow> error_code + envelope" where
  "validateEnvelope v =
    r_bind (guard (isRecord v) ErrBadEnvelope) (\<lambda>_.
    r_bind (of_option ErrUnknownChannel (Option.bind (obj_get v ''channel'') (str_when isChannelName))) (\<lambda>channel.
    r_bind (guard (obj_get v ''stream'' = Some (JStr (streamForChannel channel))) ErrBadEnvelope) (\<lambda>_.
    r_bind (of_option ErrBadEnvelope (Option.bind (obj_get v ''seq'') non_negative_int)) (\<lambda>seq.
    r_bind (of_option ErrBadEnvelope (obj_get v ''payload'')) (\<lambda>payload.
    Inr \<lparr>en_channel = channel, en_seq = seq, en_payload = payload\<rparr>)))))"

definition encodeEnvelope :: "envelope \<Rightarrow> json" where
  "encodeEnvelope e = JObj [(''stream'', JStr (streamForChannel (en_channel e))), (''channel'', JStr (en_channel e)),
     (''seq'', JNum (num (en_seq e))), (''payload'', en_payload e)]"

definition wf_envelope :: "envelope \<Rightarrow> bool" where
  "wf_envelope e \<longleftrightarrow> isChannelName (en_channel e) \<and> en_seq e \<le> max_safe_nat"

interpretation envelopes: wire_codec validateEnvelope encodeEnvelope wf_envelope
proof unfold_locales
  fix v m assume "validateEnvelope v = Inr m"
  then show "wf_envelope m"
    by (auto simp: validateEnvelope_def field_iffs of_option_Inr wf_envelope_def bind_eq_Some_conv)
next
  fix m assume "wf_envelope m"
  then show "validateEnvelope (encodeEnvelope m) = Inr m"
    by (simp add: validateEnvelope_def encodeEnvelope_def wf_envelope_def isRecord_def str_when_def of_option_def)
qed

section \<open>Control requests\<close>

datatype kill_mode = Graceful | Force

fun kill_mode_name :: "kill_mode \<Rightarrow> string" where
  "kill_mode_name Graceful = ''graceful''"
| "kill_mode_name Force = ''force''"

definition as_kill_mode :: "json \<Rightarrow> kill_mode option" where
  "as_kill_mode v = (if v = JStr ''graceful'' then Some Graceful else if v = JStr ''force'' then Some Force else None)"

text \<open>\<open>StatusRequest\<close>: absent params, or params with an optional session id.\<close>

datatype control_request =
    LaunchRequest string launch_params
  | ResumeRequest string string "bool option" "string option"
  | KillRequest string string "kill_mode option"
  | StatusRequest string "string option option"

fun request_id :: "control_request \<Rightarrow> string" where
  "request_id (LaunchRequest i _) = i"
| "request_id (ResumeRequest i _ _ _) = i"
| "request_id (KillRequest i _ _) = i"
| "request_id (StatusRequest i _) = i"

definition validateLaunchParams :: "registry \<Rightarrow> json option \<Rightarrow> error_code + launch_params" where
  "validateLaunchParams reg value =
    r_bind (as_record value) (\<lambda>v.
    r_bind (req_field (str_when (isAccountLabel reg)) v ''accountLabel'') (\<lambda>label.
    r_bind (req_field (str_when (isBackend reg)) v ''backend'') (\<lambda>backend.
    r_bind (guard (backendForLabel reg label = Some backend) ErrBadRequest) (\<lambda>_.
    r_bind (req_field (str_when (\<lambda>s. s \<in> set SUBSTRATES)) v ''substrate'') (\<lambda>substrate.
    r_bind (guard (\<not> (substrate = ''pty'' \<and> backend \<noteq> ''claude_code'')) ErrBadRequest) (\<lambda>_.
    r_bind (req_field (str_when isAbsolutePath) v ''cwd'') (\<lambda>cwd.
    r_bind (req_field non_empty_str v ''purpose'') (\<lambda>purpose.
    r_bind (optional non_empty_str v ''workstreamHint'') (\<lambda>hint.
    r_bind (optional non_empty_str v ''prompt'') (\<lambda>prompt.
    Inr \<lparr>lp_accountLabel = label, lp_backend = backend, lp_substrate = substrate, lp_cwd = cwd, lp_purpose = purpose,
         lp_workstreamHint = hint, lp_prompt = prompt\<rparr>))))))))))"

definition CONTROL_VERBS :: "string list" where
  "CONTROL_VERBS = [''launch'', ''resume'', ''kill'', ''status'']"

definition RESERVED_CONTROL_VERBS :: "string list" where
  "RESERVED_CONTROL_VERBS = [''approve'']"

definition validate_resume :: "string \<Rightarrow> json option \<Rightarrow> error_code + control_request" where
  "validate_resume i params =
    r_bind (as_record params) (\<lambda>p.
    r_bind (req_field (str_when isSessionIdSegment) p ''sessionId'') (\<lambda>sid.
    r_bind (optional as_bool p ''fork'') (\<lambda>fork.
    r_bind (optional non_empty_str p ''prompt'') (\<lambda>prompt.
    Inr (ResumeRequest i sid fork prompt)))))"

definition validate_kill :: "string \<Rightarrow> json option \<Rightarrow> error_code + control_request" where
  "validate_kill i params =
    r_bind (as_record params) (\<lambda>p.
    r_bind (req_field (str_when isSessionIdSegment) p ''sessionId'') (\<lambda>sid.
    r_bind (optional as_kill_mode p ''mode'') (\<lambda>mode.
    Inr (KillRequest i sid mode))))"

definition validate_status :: "string \<Rightarrow> json option \<Rightarrow> error_code + control_request" where
  "validate_status i params = (case params of
     None \<Rightarrow> Inr (StatusRequest i None)
   | Some _ \<Rightarrow>
      r_bind (as_record params) (\<lambda>p.
      r_bind (optional (str_when isSessionIdSegment) p ''sessionId'') (\<lambda>sid.
      Inr (StatusRequest i (Some sid)))))"

definition validateControlRequest :: "registry \<Rightarrow> json \<Rightarrow> error_code + control_request" where
  "validateControlRequest reg v =
    r_bind (guard (isRecord v) ErrBadRequest) (\<lambda>_.
    r_bind (of_option ErrUnknownVerb (Option.bind (obj_get v ''kind'') as_str)) (\<lambda>kind.
    r_bind (guard (kind \<notin> set RESERVED_CONTROL_VERBS) ErrVerbReserved) (\<lambda>_.
    r_bind (guard (kind \<in> set CONTROL_VERBS) ErrUnknownVerb) (\<lambda>_.
    r_bind (req_field (str_when REQUEST_ID_RE) v ''id'') (\<lambda>i.
    (if kind = ''launch'' then r_bind (validateLaunchParams reg (obj_get v ''params'')) (\<lambda>p. Inr (LaunchRequest i p))
     else if kind = ''resume'' then validate_resume i (obj_get v ''params'')
     else if kind = ''kill'' then validate_kill i (obj_get v ''params'')
     else validate_status i (obj_get v ''params'')))))))"

definition launch_params_json :: "launch_params \<Rightarrow> json" where
  "launch_params_json p = JObj ((''accountLabel'', JStr (lp_accountLabel p)) # (''backend'', JStr (lp_backend p))
     # (''substrate'', JStr (lp_substrate p)) # (''cwd'', JStr (lp_cwd p)) # (''purpose'', JStr (lp_purpose p))
     # opt_kv ''workstreamHint'' JStr (lp_workstreamHint p) @ opt_kv ''prompt'' JStr (lp_prompt p))"

fun control_request_json :: "control_request \<Rightarrow> json" where
  "control_request_json (LaunchRequest i p) =
     JObj [(''kind'', JStr ''launch''), (''id'', JStr i), (''params'', launch_params_json p)]"
| "control_request_json (ResumeRequest i sid fork prompt) =
     JObj [(''kind'', JStr ''resume''), (''id'', JStr i), (''params'', JObj ((''sessionId'', JStr sid)
        # opt_kv ''fork'' JBool fork @ opt_kv ''prompt'' JStr prompt))]"
| "control_request_json (KillRequest i sid mode) =
     JObj [(''kind'', JStr ''kill''), (''id'', JStr i), (''params'', JObj ((''sessionId'', JStr sid)
        # opt_kv ''mode'' (\<lambda>m. JStr (kill_mode_name m)) mode))]"
| "control_request_json (StatusRequest i params) =
     JObj ((''kind'', JStr ''status'') # (''id'', JStr i)
        # opt_kv ''params'' (\<lambda>sid. JObj (opt_kv ''sessionId'' JStr sid)) params)"

definition wf_launch :: "registry \<Rightarrow> launch_params \<Rightarrow> bool" where
  "wf_launch reg p \<longleftrightarrow> isAccountLabel reg (lp_accountLabel p) \<and> isBackend reg (lp_backend p)
     \<and> backendForLabel reg (lp_accountLabel p) = Some (lp_backend p) \<and> lp_substrate p \<in> set SUBSTRATES
     \<and> (lp_substrate p = ''pty'' \<longrightarrow> lp_backend p = ''claude_code'') \<and> isAbsolutePath (lp_cwd p) \<and> lp_purpose p \<noteq> []
     \<and> lp_workstreamHint p \<noteq> Some [] \<and> lp_prompt p \<noteq> Some []"

fun wf_request :: "registry \<Rightarrow> control_request \<Rightarrow> bool" where
  "wf_request reg (LaunchRequest i p) = (REQUEST_ID_RE i \<and> wf_launch reg p)"
| "wf_request reg (ResumeRequest i sid fork prompt) = (REQUEST_ID_RE i \<and> isSessionIdSegment sid \<and> prompt \<noteq> Some [])"
| "wf_request reg (KillRequest i sid mode) = (REQUEST_ID_RE i \<and> isSessionIdSegment sid)"
| "wf_request reg (StatusRequest i params) =
     (REQUEST_ID_RE i \<and> (\<forall>sid. params = Some (Some sid) \<longrightarrow> isSessionIdSegment sid))"

lemma as_kill_mode_name [simp]: "as_kill_mode (JStr (kill_mode_name m)) = Some m"
  by (cases m) (simp_all add: as_kill_mode_def)

lemma launch_params_wf: "validateLaunchParams reg v = Inr p \<Longrightarrow> wf_launch reg p"
  by (auto simp: validateLaunchParams_def field_iffs wf_launch_def)

lemma launch_params_back:
  assumes "wf_launch reg p"
  shows "validateLaunchParams reg (Some (launch_params_json p)) = Inr p"
proof -
  let ?v = "launch_params_json p"
  have f: "obj_get ?v ''accountLabel'' = Some (JStr (lp_accountLabel p))" "obj_get ?v ''backend'' = Some (JStr (lp_backend p))"
    "obj_get ?v ''substrate'' = Some (JStr (lp_substrate p))" "obj_get ?v ''cwd'' = Some (JStr (lp_cwd p))"
    "obj_get ?v ''purpose'' = Some (JStr (lp_purpose p))" "as_record (Some ?v) = Inr ?v"
    by (simp_all add: launch_params_json_def)
  have "optional non_empty_str ?v ''workstreamHint'' = Inr (lp_workstreamHint p)"
    "optional non_empty_str ?v ''prompt'' = Inr (lp_prompt p)"
    using assms by (auto intro!: optional_back simp: wf_launch_def launch_params_json_def kv_simps)
  then show ?thesis using assms by (simp add: validateLaunchParams_def f req_back wf_launch_def guard_def)
qed

lemma verb_wf:
  "validate_resume i v = Inr r \<Longrightarrow> REQUEST_ID_RE i \<Longrightarrow> wf_request reg r"
  "validate_kill i v = Inr r \<Longrightarrow> REQUEST_ID_RE i \<Longrightarrow> wf_request reg r"
  "validate_status i v = Inr r \<Longrightarrow> REQUEST_ID_RE i \<Longrightarrow> wf_request reg r"
  by (auto simp: validate_resume_def validate_kill_def validate_status_def field_iffs split: option.splits)

lemma control_request_wf:
  assumes "validateControlRequest reg v = Inr r"
  shows "wf_request reg r"
proof -
  obtain kind i where i: "REQUEST_ID_RE i" and r: "(if kind = ''launch''
      then r_bind (validateLaunchParams reg (obj_get v ''params'')) (\<lambda>p. Inr (LaunchRequest i p))
      else if kind = ''resume'' then validate_resume i (obj_get v ''params'')
      else if kind = ''kill'' then validate_kill i (obj_get v ''params'')
      else validate_status i (obj_get v ''params'')) = Inr r"
    using assms unfolding validateControlRequest_def field_iffs by blast
  show ?thesis
    by (use r in \<open>simp only: split: if_splits\<close>) (auto simp: r_bind_Inr i dest: launch_params_wf intro: verb_wf)
qed

lemma verb_back:
  "wf_request reg (ResumeRequest i sid fork prompt) \<Longrightarrow> validate_resume i (Some (JObj ((''sessionId'', JStr sid)
     # opt_kv ''fork'' JBool fork @ opt_kv ''prompt'' JStr prompt))) = Inr (ResumeRequest i sid fork prompt)"
  "wf_request reg (KillRequest i sid mode) \<Longrightarrow> validate_kill i (Some (JObj ((''sessionId'', JStr sid)
     # opt_kv ''mode'' (\<lambda>m. JStr (kill_mode_name m)) mode))) = Inr (KillRequest i sid mode)"
  "wf_request reg (StatusRequest i (Some s)) \<Longrightarrow>
     validate_status i (Some (JObj (opt_kv ''sessionId'' JStr s))) = Inr (StatusRequest i (Some s))"
  subgoal by (cases fork; cases prompt) (simp_all add: validate_resume_def optional_def opt_kv_def req_back non_empty_str_def)
  subgoal by (cases mode) (simp_all add: validate_kill_def optional_def opt_kv_def req_back)
  subgoal by (cases s) (simp_all add: validate_status_def optional_def opt_kv_def)
  done

lemma control_request_back:
  assumes "wf_request reg r"
  shows "validateControlRequest reg (control_request_json r) = Inr r"
proof -
  note s = validateControlRequest_def RESERVED_CONTROL_VERBS_def CONTROL_VERBS_def req_back
  show ?thesis
  proof (cases r)
    case (LaunchRequest i p)
    then show ?thesis using assms launch_params_back by (simp add: s)
  next
    case (ResumeRequest i sid fork prompt)
    then show ?thesis using assms verb_back(1) by (simp add: s)
  next
    case (KillRequest i sid mode)
    then show ?thesis using assms verb_back(2) by (simp add: s)
  next
    case (StatusRequest i params)
    then show ?thesis using assms verb_back(3) by (cases params) (simp_all add: s opt_kv_def validate_status_def)
  qed
qed

interpretation requests: wire_codec "validateControlRequest reg" control_request_json "wf_request reg" for reg
  by unfold_locales (rule control_request_wf, assumption, rule control_request_back, assumption)


section \<open>Terminal flow control\<close>

datatype pty_client_message = PtyAck string nat | PtyReplayRequest string nat | PtyResize string nat nat

definition PTY_MAX_COLS :: nat where
  "PTY_MAX_COLS = 4096"

definition PTY_MAX_ROWS :: nat where
  "PTY_MAX_ROWS = 4096"

definition int_between :: "nat \<Rightarrow> nat \<Rightarrow> json \<Rightarrow> nat option" where
  "int_between lo hi v = (case non_negative_int v of Some n \<Rightarrow> if n < lo \<or> n > hi then None else Some n | None \<Rightarrow> None)"

definition validatePtyClientMessage :: "json \<Rightarrow> string option \<Rightarrow> error_code + pty_client_message" where
  "validatePtyClientMessage v expected =
    r_bind (guard (isRecord v) ErrBadRequest) (\<lambda>_.
    r_bind (req_field (str_when isSessionIdSegment) v ''sessionId'') (\<lambda>sid.
    r_bind (guard (case expected of Some e \<Rightarrow> sid = e | None \<Rightarrow> True) ErrBadRequest) (\<lambda>_.
    (if obj_get v ''kind'' = Some (JStr ''pty-ack'') then
       r_bind (req_field non_negative_int v ''watermark'') (\<lambda>w. Inr (PtyAck sid w))
     else if obj_get v ''kind'' = Some (JStr ''pty-replay-request'') then
       r_bind (req_field non_negative_int v ''fromWatermark'') (\<lambda>w. Inr (PtyReplayRequest sid w))
     else if obj_get v ''kind'' = Some (JStr ''pty-resize'') then
       r_bind (req_field (int_between 1 PTY_MAX_COLS) v ''cols'') (\<lambda>cols.
       r_bind (req_field (int_between 1 PTY_MAX_ROWS) v ''rows'') (\<lambda>rows. Inr (PtyResize sid cols rows)))
     else Inl ErrBadRequest))))"

fun pty_client_message_json :: "pty_client_message \<Rightarrow> json" where
  "pty_client_message_json (PtyAck sid w) =
     JObj [(''kind'', JStr ''pty-ack''), (''sessionId'', JStr sid), (''watermark'', JNum (num w))]"
| "pty_client_message_json (PtyReplayRequest sid w) =
     JObj [(''kind'', JStr ''pty-replay-request''), (''sessionId'', JStr sid), (''fromWatermark'', JNum (num w))]"
| "pty_client_message_json (PtyResize sid cols rows) =
     JObj [(''kind'', JStr ''pty-resize''), (''sessionId'', JStr sid), (''cols'', JNum (num cols)), (''rows'', JNum (num rows))]"

fun pty_session :: "pty_client_message \<Rightarrow> string" where
  "pty_session (PtyAck sid _) = sid"
| "pty_session (PtyReplayRequest sid _) = sid"
| "pty_session (PtyResize sid _ _) = sid"

fun wf_pty_message :: "pty_client_message \<Rightarrow> bool" where
  "wf_pty_message (PtyAck sid w) = (isSessionIdSegment sid \<and> w \<le> max_safe_nat)"
| "wf_pty_message (PtyReplayRequest sid w) = (isSessionIdSegment sid \<and> w \<le> max_safe_nat)"
| "wf_pty_message (PtyResize sid cols rows) =
     (isSessionIdSegment sid \<and> 1 \<le> cols \<and> cols \<le> PTY_MAX_COLS \<and> 1 \<le> rows \<and> rows \<le> PTY_MAX_ROWS)"

lemma int_between_Some: "int_between lo hi v = Some n \<longleftrightarrow> v = JNum (num n) \<and> n \<le> max_safe_nat \<and> lo \<le> n \<and> n \<le> hi"
  by (auto simp: int_between_def non_negative_int_Some split: option.splits if_splits)

lemma int_between_back [simp]: "lo \<le> n \<Longrightarrow> n \<le> hi \<Longrightarrow> hi \<le> max_safe_nat \<Longrightarrow> int_between lo hi (JNum (num n)) = Some n"
  by (simp add: int_between_Some)

lemma pty_message_wf:
  "validatePtyClientMessage v expected = Inr m \<Longrightarrow> wf_pty_message m \<and> (\<forall>e. expected = Some e \<longrightarrow> pty_session m = e)"
  by (auto simp: validatePtyClientMessage_def field_iffs int_between_Some split: if_splits)

lemma pty_message_back:
  "wf_pty_message m \<Longrightarrow> (\<And>e. expected = Some e \<Longrightarrow> pty_session m = e) \<Longrightarrow>
   validatePtyClientMessage (pty_client_message_json m) expected = Inr m"
  by (cases m; cases expected) (simp_all add: validatePtyClientMessage_def req_back PTY_MAX_COLS_def PTY_MAX_ROWS_def
      max_safe_nat_def guard_def non_negative_int_def)

interpretation pty_messages: wire_codec "\<lambda>v. validatePtyClientMessage v None" pty_client_message_json wf_pty_message
  by unfold_locales (use pty_message_wf pty_message_back in blast)+

section \<open>Approval decisions\<close>

fun verdict_name :: "approval_verdict \<Rightarrow> string" where
  "verdict_name Allow = ''allow''"
| "verdict_name Deny = ''deny''"

definition as_verdict :: "json \<Rightarrow> approval_verdict option" where
  "as_verdict v = (if v = JStr ''allow'' then Some Allow else if v = JStr ''deny'' then Some Deny else None)"

definition validateApprovalsClientMessage :: "json \<Rightarrow> error_code + approval_decision" where
  "validateApprovalsClientMessage v =
    r_bind (guard (isRecord v) ErrBadRequest) (\<lambda>_.
    r_bind (guard (obj_get v ''kind'' = Some (JStr ''approval-decision'')) ErrBadRequest) (\<lambda>_.
    r_bind (req_field (str_when APPROVAL_ID_RE) v ''approvalId'') (\<lambda>aid.
    r_bind (req_field as_verdict v ''verdict'') (\<lambda>verdict.
    r_bind (guard (obj_get v ''updatedInput'' = None \<or> verdict = Allow) ErrBadRequest) (\<lambda>_.
    r_bind (optional as_obj v ''updatedInput'') (\<lambda>ui.
    r_bind (optional non_empty_str v ''note'') (\<lambda>note.
    Inr \<lparr>ad_approvalId = aid, ad_verdict = verdict, ad_updatedInput = ui, ad_note = note\<rparr>)))))))"

definition decision_json :: "approval_decision \<Rightarrow> json" where
  "decision_json d = JObj ((''kind'', JStr ''approval-decision'') # (''approvalId'', JStr (ad_approvalId d))
     # (''verdict'', JStr (verdict_name (ad_verdict d))) # opt_kv ''updatedInput'' (\<lambda>v. v) (ad_updatedInput d)
     @ opt_kv ''note'' JStr (ad_note d))"

definition wf_decision :: "approval_decision \<Rightarrow> bool" where
  "wf_decision d \<longleftrightarrow> APPROVAL_ID_RE (ad_approvalId d) \<and> (ad_updatedInput d \<noteq> None \<longrightarrow> ad_verdict d = Allow)
     \<and> (\<forall>ui. ad_updatedInput d = Some ui \<longrightarrow> isRecord ui) \<and> ad_note d \<noteq> Some []"

lemma as_verdict_name [simp]: "as_verdict (JStr (verdict_name x)) = Some x"
  by (cases x) (simp_all add: as_verdict_def)

lemma decision_wf: "validateApprovalsClientMessage v = Inr d \<Longrightarrow> wf_decision d"
  by (auto simp: validateApprovalsClientMessage_def field_iffs wf_decision_def)

lemma decision_back:
  assumes "wf_decision d"
  shows "validateApprovalsClientMessage (decision_json d) = Inr d"
proof -
  let ?v = "decision_json d"
  have "optional as_obj ?v ''updatedInput'' = Inr (ad_updatedInput d)" "optional non_empty_str ?v ''note'' = Inr (ad_note d)"
    using assms by (auto intro!: optional_back field_back(2) [where g = "\<lambda>v. v"] simp: wf_decision_def decision_json_def
        kv_simps as_obj_def option.map_ident)
  moreover have "obj_get ?v ''updatedInput'' = None \<or> ad_verdict d = Allow"
    using assms by (auto simp: wf_decision_def decision_json_def kv_simps)
  ultimately show ?thesis using assms
    by (simp add: validateApprovalsClientMessage_def wf_decision_def guard_def)
      (simp add: decision_json_def req_back)
qed

interpretation decisions: wire_codec validateApprovalsClientMessage decision_json wf_decision
  by unfold_locales (rule decision_wf, assumption, rule decision_back, assumption)

section \<open>Replay requests\<close>

text \<open>The sanitized value is the channel and \<open>fromSeq\<close>.\<close>

definition validateJsonReplayRequest :: "json \<Rightarrow> string option \<Rightarrow> error_code + string \<times> nat" where
  "validateJsonReplayRequest v expected =
    r_bind (guard (isRecord v) ErrBadRequest) (\<lambda>_.
    r_bind (guard (obj_get v ''kind'' = Some (JStr ''replay-request'')) ErrBadRequest) (\<lambda>_.
    r_bind (req_field (str_when isChannelName) v ''channel'') (\<lambda>channel.
    r_bind (guard (isReplayableChannel channel) ErrBadRequest) (\<lambda>_.
    r_bind (guard (case expected of Some e \<Rightarrow> channel = e | None \<Rightarrow> True) ErrBadRequest) (\<lambda>_.
    r_bind (req_field non_negative_int v ''fromSeq'') (\<lambda>n.
    Inr (channel, n)))))))"

definition replay_request_json :: "string \<times> nat \<Rightarrow> json" where
  "replay_request_json r = JObj [(''kind'', JStr ''replay-request''), (''channel'', JStr (fst r)), (''fromSeq'', JNum (num (snd r)))]"

definition wf_replay :: "string \<times> nat \<Rightarrow> bool" where
  "wf_replay r \<longleftrightarrow> isChannelName (fst r) \<and> isReplayableChannel (fst r) \<and> snd r \<le> max_safe_nat"

lemma replay_request_wf: "validateJsonReplayRequest v expected = Inr r \<Longrightarrow> wf_replay r"
  by (auto simp: validateJsonReplayRequest_def field_iffs wf_replay_def)

lemma replay_request_back:
  "wf_replay r \<Longrightarrow> expected = None \<or> expected = Some (fst r) \<Longrightarrow> validateJsonReplayRequest (replay_request_json r) expected = Inr r"
  by (auto simp: validateJsonReplayRequest_def replay_request_json_def wf_replay_def req_back)

interpretation replays: wire_codec "\<lambda>v. validateJsonReplayRequest v None" replay_request_json wf_replay
  by unfold_locales (rule replay_request_wf, assumption, rule replay_request_back, simp_all)


section \<open>Merge requests\<close>

definition MERGE_ID_RE :: "string \<Rightarrow> bool" where
  "MERGE_ID_RE s = (1 \<le> length s \<and> length s \<le> 128 \<and> list_all id_char s)"

definition isLineageIdSegment :: "string \<Rightarrow> bool" where
  "isLineageIdSegment s = isSessionIdSegment s"

definition merge_parents :: "json \<Rightarrow> string list option" where
  "merge_parents v = (case str_elems isSessionIdSegment v of None \<Rightarrow> None
     | Some ps \<Rightarrow> if MERGE_MIN_PARENTS \<le> length ps \<and> length ps \<le> MERGE_MAX_PARENTS \<and> distinct ps then Some ps else None)"

definition validateWorkstreamMergeParams :: "registry \<Rightarrow> json option \<Rightarrow> error_code + merge_params" where
  "validateWorkstreamMergeParams reg value =
    r_bind (as_record value) (\<lambda>v.
    r_bind (req_field merge_parents v ''parents'') (\<lambda>parents.
    r_bind (req_field (str_when (isAccountLabel reg)) v ''accountLabel'') (\<lambda>label.
    r_bind (req_field (str_when (\<lambda>b. isBackend reg b \<and> backendForLabel reg label = Some b)) v ''backend'') (\<lambda>backend.
    r_bind (req_field (str_when isAbsolutePath) v ''cwd'') (\<lambda>cwd.
    r_bind (req_field non_empty_str v ''purpose'') (\<lambda>purpose.
    r_bind (req_field non_empty_str v ''briefBody'') (\<lambda>body.
    r_bind (optional (str_when isLineageIdSegment) v ''workstreamId'') (\<lambda>w.
    Inr \<lparr>mp_parents = parents, mp_accountLabel = label, mp_backend = backend, mp_cwd = cwd, mp_purpose = purpose,
         mp_briefBody = body, mp_workstreamId = w\<rparr>))))))))"

definition validateWorkstreamClientMessage :: "registry \<Rightarrow> json \<Rightarrow> error_code + string \<times> merge_params" where
  "validateWorkstreamClientMessage reg v =
    r_bind (guard (isRecord v) ErrBadRequest) (\<lambda>_.
    r_bind (guard (obj_get v ''kind'' = Some (JStr ''workstream-merge-request'')) ErrBadRequest) (\<lambda>_.
    r_bind (req_field (str_when MERGE_ID_RE) v ''mergeId'') (\<lambda>mid.
    r_bind (validateWorkstreamMergeParams reg (obj_get v ''params'')) (\<lambda>p.
    Inr (mid, p)))))"

definition merge_params_json :: "merge_params \<Rightarrow> json" where
  "merge_params_json p = JObj ((''parents'', JArr (map JStr (mp_parents p))) # (''accountLabel'', JStr (mp_accountLabel p))
     # (''backend'', JStr (mp_backend p)) # (''cwd'', JStr (mp_cwd p)) # (''purpose'', JStr (mp_purpose p))
     # (''briefBody'', JStr (mp_briefBody p)) # opt_kv ''workstreamId'' JStr (mp_workstreamId p))"

definition merge_request_json :: "string \<times> merge_params \<Rightarrow> json" where
  "merge_request_json r = JObj [(''kind'', JStr ''workstream-merge-request''), (''mergeId'', JStr (fst r)),
     (''params'', merge_params_json (snd r))]"

definition wf_merge :: "registry \<Rightarrow> string \<times> merge_params \<Rightarrow> bool" where
  "wf_merge reg r \<longleftrightarrow> (let p = snd r in MERGE_ID_RE (fst r) \<and> list_all isSessionIdSegment (mp_parents p)
     \<and> MERGE_MIN_PARENTS \<le> length (mp_parents p) \<and> length (mp_parents p) \<le> MERGE_MAX_PARENTS \<and> distinct (mp_parents p)
     \<and> isAccountLabel reg (mp_accountLabel p) \<and> isBackend reg (mp_backend p)
     \<and> backendForLabel reg (mp_accountLabel p) = Some (mp_backend p) \<and> isAbsolutePath (mp_cwd p) \<and> mp_purpose p \<noteq> []
     \<and> mp_briefBody p \<noteq> [] \<and> (\<forall>w. mp_workstreamId p = Some w \<longrightarrow> isLineageIdSegment w))"

lemma map_JStr_inj [simp]: "map JStr xs = map JStr ys \<longleftrightarrow> xs = ys"
  by (rule inj_map_eq_map) (simp add: inj_def)

lemma merge_parents_Some: "merge_parents v = Some ps \<longleftrightarrow> v = JArr (map JStr ps) \<and> list_all isSessionIdSegment ps
    \<and> MERGE_MIN_PARENTS \<le> length ps \<and> length ps \<le> MERGE_MAX_PARENTS \<and> distinct ps"
proof (cases "str_elems isSessionIdSegment v")
  case None
  then have "\<not> (v = JArr (map JStr ps) \<and> list_all isSessionIdSegment ps)" using str_elems_Some by (metis option.distinct(1))
  then show ?thesis using None by (auto simp: merge_parents_def)
next
  case (Some qs)
  then show ?thesis using str_elems_Some [of isSessionIdSegment v qs] by (auto simp: merge_parents_def)
qed

lemma merge_request_wf: "validateWorkstreamClientMessage reg v = Inr r \<Longrightarrow> wf_merge reg r"
  by (auto simp: validateWorkstreamClientMessage_def validateWorkstreamMergeParams_def field_iffs merge_parents_Some
      wf_merge_def Let_def)

lemma merge_params_back:
  assumes "wf_merge reg (mid, p)"
  shows "validateWorkstreamMergeParams reg (Some (merge_params_json p)) = Inr p"
proof -
  let ?v = "merge_params_json p"
  have f: "obj_get ?v ''accountLabel'' = Some (JStr (mp_accountLabel p))" "obj_get ?v ''backend'' = Some (JStr (mp_backend p))"
    "obj_get ?v ''cwd'' = Some (JStr (mp_cwd p))" "obj_get ?v ''purpose'' = Some (JStr (mp_purpose p))"
    "obj_get ?v ''briefBody'' = Some (JStr (mp_briefBody p))" "obj_get ?v ''parents'' = Some (JArr (map JStr (mp_parents p)))"
    "as_record (Some ?v) = Inr ?v"
    by (simp_all add: merge_params_json_def)
  have "optional (str_when isLineageIdSegment) ?v ''workstreamId'' = Inr (mp_workstreamId p)"
    using assms by (intro optional_back(2)) (auto simp: wf_merge_def Let_def merge_params_json_def kv_simps)
  moreover have "merge_parents (JArr (map JStr (mp_parents p))) = Some (mp_parents p)"
    using assms by (simp add: merge_parents_Some wf_merge_def Let_def)
  ultimately show ?thesis using assms
    by (simp add: validateWorkstreamMergeParams_def f req_back wf_merge_def Let_def)
qed

lemma merge_request_back: "wf_merge reg r \<Longrightarrow> validateWorkstreamClientMessage reg (merge_request_json r) = Inr r"
proof (cases r)
  case (Pair mid p)
  assume wf: "wf_merge reg r"
  then have "MERGE_ID_RE mid" by (simp add: wf_merge_def Pair Let_def)
  then show ?thesis using merge_params_back wf
    by (simp add: validateWorkstreamClientMessage_def merge_request_json_def Pair req_back)
qed

interpretation merges: wire_codec "validateWorkstreamClientMessage reg" merge_request_json "wf_merge reg" for reg
  by unfold_locales (rule merge_request_wf, assumption, rule merge_request_back, assumption)

section \<open>Pipeline verbs\<close>

datatype run_verb = Pause | Resume | Cancel

fun run_verb_name :: "run_verb \<Rightarrow> string" where
  "run_verb_name Pause = ''pipeline-pause''"
| "run_verb_name Resume = ''pipeline-resume''"
| "run_verb_name Cancel = ''pipeline-cancel''"

datatype pipeline_target = SavedPipeline string | InlineDocument dag_document

datatype pipeline_request =
    PipelineValidate string dag_document
  | PipelineSave string dag_document
  | PipelineLaunch string pipeline_target "json option" "string option"
  | PipelineRunVerb run_verb string string

fun pipeline_requestId :: "pipeline_request \<Rightarrow> string" where
  "pipeline_requestId (PipelineValidate q _) = q"
| "pipeline_requestId (PipelineSave q _) = q"
| "pipeline_requestId (PipelineLaunch q _ _ _) = q"
| "pipeline_requestId (PipelineRunVerb _ q _) = q"

definition PIPELINE_ID_RE :: "string \<Rightarrow> bool" where
  "PIPELINE_ID_RE s = (1 \<le> length s \<and> length s \<le> 128 \<and> list_all id_char s)"

definition PIPELINE_REQUEST_ID_RE :: "string \<Rightarrow> bool" where
  "PIPELINE_REQUEST_ID_RE s = (1 \<le> length s \<and> length s \<le> 128 \<and> list_all id_char s)"

definition wire_document :: "registry \<Rightarrow> json \<Rightarrow> error_code + dag_document" where
  "wire_document reg v = (case validateDagDocument reg v of Inl _ \<Rightarrow> Inl ErrBadRequest | Inr d \<Rightarrow> Inr d)"

definition req_document :: "registry \<Rightarrow> json option \<Rightarrow> error_code + dag_document" where
  "req_document reg value = (case value of None \<Rightarrow> Inl ErrBadRequest | Some v \<Rightarrow> wire_document reg v)"

definition launch_target :: "registry \<Rightarrow> json \<Rightarrow> error_code + pipeline_target" where
  "launch_target reg v = (case (obj_get v ''pipelineId'', obj_get v ''document'') of
     (None, Some d) \<Rightarrow> r_bind (wire_document reg d) (\<lambda>doc. Inr (InlineDocument doc))
   | (Some p, None) \<Rightarrow> r_bind (of_option ErrBadRequest (str_when PIPELINE_ID_RE p)) (\<lambda>i. Inr (SavedPipeline i))
   | _ \<Rightarrow> Inl ErrBadRequest)"

definition validate_pipeline_launch :: "registry \<Rightarrow> string \<Rightarrow> json \<Rightarrow> error_code + pipeline_request" where
  "validate_pipeline_launch reg q v =
    r_bind (launch_target reg v) (\<lambda>target.
    r_bind (optional as_obj v ''inputs'') (\<lambda>inputs.
    r_bind (optional (str_when isLineageIdSegment) v ''workstreamId'') (\<lambda>w.
    Inr (PipelineLaunch q target inputs w))))"

definition validate_run_verb :: "run_verb \<Rightarrow> string \<Rightarrow> json \<Rightarrow> error_code + pipeline_request" where
  "validate_run_verb rv q v = r_bind (req_field (str_when PIPELINE_ID_RE) v ''runId'') (\<lambda>run. Inr (PipelineRunVerb rv q run))"

definition validatePipelineClientMessage :: "registry \<Rightarrow> json \<Rightarrow> error_code + pipeline_request" where
  "validatePipelineClientMessage reg v =
    r_bind (guard (isRecord v) ErrBadRequest) (\<lambda>_.
    r_bind (req_field (str_when PIPELINE_REQUEST_ID_RE) v ''requestId'') (\<lambda>q.
    (if obj_get v ''kind'' = Some (JStr ''pipeline-validate'') then
       r_bind (req_document reg (obj_get v ''document'')) (\<lambda>d. Inr (PipelineValidate q d))
     else if obj_get v ''kind'' = Some (JStr ''pipeline-save'') then
       r_bind (req_document reg (obj_get v ''document'')) (\<lambda>d. Inr (PipelineSave q d))
     else if obj_get v ''kind'' = Some (JStr ''pipeline-launch'') then validate_pipeline_launch reg q v
     else if obj_get v ''kind'' = Some (JStr ''pipeline-pause'') then validate_run_verb Pause q v
     else if obj_get v ''kind'' = Some (JStr ''pipeline-resume'') then validate_run_verb Resume q v
     else if obj_get v ''kind'' = Some (JStr ''pipeline-cancel'') then validate_run_verb Cancel q v
     else Inl ErrBadRequest)))"

fun target_kvs :: "pipeline_target \<Rightarrow> (string \<times> json) list" where
  "target_kvs (SavedPipeline i) = [(''pipelineId'', JStr i)]"
| "target_kvs (InlineDocument d) = [(''document'', document_json d)]"

fun pipeline_request_json :: "pipeline_request \<Rightarrow> json" where
  "pipeline_request_json (PipelineValidate q d) =
     JObj [(''kind'', JStr ''pipeline-validate''), (''requestId'', JStr q), (''document'', document_json d)]"
| "pipeline_request_json (PipelineSave q d) =
     JObj [(''kind'', JStr ''pipeline-save''), (''requestId'', JStr q), (''document'', document_json d)]"
| "pipeline_request_json (PipelineLaunch q t inputs w) =
     JObj ((''kind'', JStr ''pipeline-launch'') # (''requestId'', JStr q) # target_kvs t
       @ opt_kv ''inputs'' (\<lambda>v. v) inputs @ opt_kv ''workstreamId'' JStr w)"
| "pipeline_request_json (PipelineRunVerb rv q run) =
     JObj [(''kind'', JStr (run_verb_name rv)), (''requestId'', JStr q), (''runId'', JStr run)]"

fun wf_target :: "registry \<Rightarrow> pipeline_target \<Rightarrow> bool" where
  "wf_target reg (SavedPipeline i) = PIPELINE_ID_RE i"
| "wf_target reg (InlineDocument d) = ok_document reg d"

fun wf_pipeline_request :: "registry \<Rightarrow> pipeline_request \<Rightarrow> bool" where
  "wf_pipeline_request reg (PipelineValidate q d) = (PIPELINE_REQUEST_ID_RE q \<and> ok_document reg d)"
| "wf_pipeline_request reg (PipelineSave q d) = (PIPELINE_REQUEST_ID_RE q \<and> ok_document reg d)"
| "wf_pipeline_request reg (PipelineLaunch q t inputs w) = (PIPELINE_REQUEST_ID_RE q \<and> wf_target reg t
     \<and> (\<forall>i. inputs = Some i \<longrightarrow> isRecord i) \<and> (\<forall>x. w = Some x \<longrightarrow> isLineageIdSegment x))"
| "wf_pipeline_request reg (PipelineRunVerb rv q run) = (PIPELINE_REQUEST_ID_RE q \<and> PIPELINE_ID_RE run)"

lemma wire_document_Inr: "wire_document reg v = Inr d \<longleftrightarrow> validateDagDocument reg v = Inr d"
  by (auto simp: wire_document_def split: sum.splits)

lemma req_document_Inr: "req_document reg x = Inr d \<longleftrightarrow> (\<exists>v. x = Some v \<and> validateDagDocument reg v = Inr d)"
  by (cases x) (simp_all add: req_document_def wire_document_Inr)

lemma launch_target_wf: "launch_target reg v = Inr t \<Longrightarrow> wf_target reg t"
  by (auto simp: launch_target_def field_iffs of_option_Inr wire_document_Inr dest: document_ok split: option.splits)

lemma pipeline_request_wf:
  assumes "validatePipelineClientMessage reg v = Inr r"
  shows "wf_pipeline_request reg r"
proof -
  have "validate_pipeline_launch reg q v = Inr r \<Longrightarrow> PIPELINE_REQUEST_ID_RE q \<Longrightarrow> wf_pipeline_request reg r" for q
    by (auto simp: validate_pipeline_launch_def field_iffs dest: launch_target_wf)
  moreover have "validate_run_verb rv q v = Inr r \<Longrightarrow> PIPELINE_REQUEST_ID_RE q \<Longrightarrow> wf_pipeline_request reg r" for rv q
    by (auto simp: validate_run_verb_def field_iffs)
  ultimately show ?thesis using assms
    by (auto simp: validatePipelineClientMessage_def field_iffs req_document_Inr dest: document_ok split: if_splits)
qed

lemma wire_document_back: "ok_document reg d \<Longrightarrow> wire_document reg (document_json d) = Inr d"
  by (simp add: wire_document_Inr document_back)

lemma launch_back:
  assumes "wf_pipeline_request reg (PipelineLaunch q t inputs w)"
  shows "validate_pipeline_launch reg q (pipeline_request_json (PipelineLaunch q t inputs w)) = Inr (PipelineLaunch q t inputs w)"
proof -
  let ?v = "pipeline_request_json (PipelineLaunch q t inputs w)"
  have f: "obj_get ?v ''inputs'' = inputs" "obj_get ?v ''workstreamId'' = map_option JStr w"
    "obj_get ?v ''pipelineId'' = (case t of SavedPipeline i \<Rightarrow> Some (JStr i) | _ \<Rightarrow> None)"
    "obj_get ?v ''document'' = (case t of InlineDocument d \<Rightarrow> Some (document_json d) | _ \<Rightarrow> None)"
    by (cases t; simp add: kv_simps option.map_ident)+
  have "optional as_obj ?v ''inputs'' = Inr inputs"
    using assms f(1) by (cases inputs) (simp_all add: optional_def as_obj_def)
  moreover have "optional (str_when isLineageIdSegment) ?v ''workstreamId'' = Inr w"
    using assms f(2) by (intro optional_back(2)) auto
  moreover have "launch_target reg ?v = Inr t"
    using assms by (cases t) (simp_all add: launch_target_def kv_simps wire_document_back)
  ultimately show ?thesis by (simp add: validate_pipeline_launch_def del: pipeline_request_json.simps)
qed

lemma pipeline_request_back: "wf_pipeline_request reg r \<Longrightarrow> validatePipelineClientMessage reg (pipeline_request_json r) = Inr r"
proof (cases r)
  case (PipelineLaunch q t inputs w)
  moreover assume "wf_pipeline_request reg r"
  ultimately show ?thesis using launch_back [of reg q t inputs w]
    by (simp add: validatePipelineClientMessage_def req_back)
next
  case (PipelineRunVerb rv q run)
  moreover assume "wf_pipeline_request reg r"
  ultimately show ?thesis
    by (cases rv) (simp_all add: validatePipelineClientMessage_def validate_run_verb_def req_back)
qed (simp_all add: validatePipelineClientMessage_def req_document_def req_back wire_document_back)

interpretation pipelines: wire_codec "validatePipelineClientMessage reg" pipeline_request_json "wf_pipeline_request reg" for reg
  by unfold_locales (rule pipeline_request_wf, assumption, rule pipeline_request_back, assumption)

section \<open>The contract\<close>

text \<open>Claim C24: what a client sends is what the broker acts on. For every control request, terminal
  message, approval decision, replay request, merge request and pipeline verb the JSON of the value
  validates, and to that same value, exactly when the value is well formed (ids in charset, label and backend paired,
  absolute directories, bounded numbers, documents that pass the static checks). The same holds of the
  envelope that carries it.\<close>

theorem requests_understood:
  "(validateControlRequest reg (control_request_json r) = Inr r \<longleftrightarrow> wf_request reg r)
   \<and> (validatePtyClientMessage (pty_client_message_json m) None = Inr m \<longleftrightarrow> wf_pty_message m)
   \<and> (validateApprovalsClientMessage (decision_json d) = Inr d \<longleftrightarrow> wf_decision d)
   \<and> (validateJsonReplayRequest (replay_request_json q) None = Inr q \<longleftrightarrow> wf_replay q)
   \<and> (validateWorkstreamClientMessage reg (merge_request_json g) = Inr g \<longleftrightarrow> wf_merge reg g)
   \<and> (validatePipelineClientMessage reg (pipeline_request_json p) = Inr p \<longleftrightarrow> wf_pipeline_request reg p)
   \<and> (validateEnvelope (encodeEnvelope e) = Inr e \<longleftrightarrow> wf_envelope e)"
  by (intro conjI requests.accepted_iff pty_messages.accepted_iff decisions.accepted_iff replays.accepted_iff
      merges.accepted_iff pipelines.accepted_iff envelopes.accepted_iff)

end
