(* ===== verification/Spec2Isabelle.thy ===== *)
theory Spec2Isabelle
  imports Delivery Governor Approvals_Inbox Session_Truth Engine_Properties Lineage_Kernel Workstreams Wire_Requests
begin

text \<open>
  A verification development for the-last-aibender: a desktop application that runs agent sessions on several
  accounts and backends, supervises the machine's memory, asks the operator for approvals, runs pipelines of
  agent steps and keeps the lineage of all sessions.

  \<^bold>\<open>The program and its model.\<close> The kernel process (\<open>core/src\<close>) owns the sessions; a gateway serves clients over
  WebSocket; the client (\<open>app/src\<close>) renders; \<open>packages/protocol\<close> holds the wire vocabulary and validators and
  \<open>packages/schema\<close> the SQLite stores. The theories follow these parts, from the vocabulary up:

  \<^item> \<open>Prelude\<close>: JavaScript numbers, maps in insertion order, stable sort, blank strings, results and JSON values,
    and the interfaces \<open>keyed_store\<close>, \<open>invariant_system\<close> and \<open>evolution\<close> (an operation keeps an invariant and only
    moves forward in an order, hence so does every history).
  \<^item> Terminal output. \<open>Pty_Frame\<close> is the binary codec (\<open>protocol/src/pty.ts\<close>), \<open>Chunks\<close> and \<open>Ack_Ring\<close> the kernel's
    producer-side ring (\<open>kernel/pty/flowControl.ts\<close>), \<open>Pty_Stream\<close> the gateway's session stream
    (\<open>gateway/ptyStream.ts\<close>), \<open>Stream_Tracker\<close> the client's tracker (\<open>islands/terminal/streamTracker.ts\<close>).
    \<open>Delivery\<close> composes them: its locale \<open>delivery_source\<close> is what the tracker needs from a source, interpreted for
    the ring and for the stream. Shown: refinement of an unchunked byte stream, exact delivery, round trips,
    bounds and refusals, and that the terminal shows the producer's output.
  \<^item> Supervision. \<open>Supervision\<close> (types), \<open>Watchdog\<close>, \<open>Pressure\<close>, \<open>Scheduler\<close> and \<open>Governor\<close> model
    \<open>core/src/supervision\<close>: debounced footprints, the pressure state machine, the shed order, and the governor's
    tick over them. Shown: account sessions are protected, and only sustained red pressure with the opt-in
    hibernates one.
  \<^item> Accounts and sessions. \<open>Vocab\<close> (labels and the backend registry, \<open>protocol/src/vocab.ts\<close>), \<open>Profiles\<close>
    (\<open>kernel/profiles.ts\<close>, \<open>accountRegistry.ts\<close>), \<open>Session_Env\<close> (\<open>kernel/env.ts\<close>), \<open>Transcript_Tail\<close>
    (\<open>kernel/transcriptTail.ts\<close>), \<open>Resume_Ledger\<close> (\<open>schema/src/kernel.ts\<close>), and \<open>Session_Kernel\<close>
    (\<open>kernel/sessionKernel.ts\<close>), whose state is the record \<open>kernel\<close> and whose steps are the stretches of code between
    two awaits. \<open>Session_Runs\<close> classifies the effect of every step; \<open>Session_Truth\<close> has the invariants: the ledger
    tells the truth, one runner per session, row before spawn, shutdown.
  \<^item> Approvals. \<open>Approvals\<close> is the broker (\<open>kernel/approvals.ts\<close>) with its queue, timers and subscribers,
    \<open>Approvals_Inbox\<close> the client's store, shown to mirror the broker.
  \<^item> Pipelines. \<open>Dag\<close>, \<open>Kahn\<close>, \<open>Dag_Document\<close> and \<open>Dag_Roundtrip\<close> are the document format and its validator
    (\<open>protocol/src/dag\<close>), \<open>Json_Text\<close> and \<open>Template\<close> the texts (\<open>pipelines/template.ts\<close>, \<open>inputHash.ts\<close>),
    \<open>Pipeline_Store\<close> the tables (\<open>schema/src/pipelines.ts\<close>), \<open>Planner\<close> the capability planner, \<open>Runner\<close> the walk
    (\<open>pipelines/runner.ts\<close>) as a machine with a resumption point at every await, and \<open>Engine\<close> the verbs
    (\<open>pipelines/engine.ts\<close>) over any number of walks on one store. \<open>Runner_Walk\<close> (termination), \<open>Runner_Safety\<close>
    (the locale \<open>walk_invariant\<close> and what is true of every reachable walk), \<open>Runner_Calls\<close>, \<open>Runner_Bounds\<close>,
    \<open>Runner_Memo\<close> and \<open>Runner_Journal\<close> build the lemmas; \<open>Runner_Properties\<close> and \<open>Engine_Properties\<close> state the results.
  \<^item> Lineage. \<open>Lineage_Store\<close> is the graph of sessions (\<open>schema/src/lineage.ts\<close>): every statement it executes is one
    of six changes (\<open>lineage_change\<close>), from which all histories inherit well-formedness and permanence, and the
    merge transaction is atomic. \<open>Lineage_Recorder\<close> is the recorder (\<open>core/src/workstreams/recorder.ts\<close>) with the
    session-id resolver, \<open>Lineage_Kernel\<close> composes it with the session kernel, \<open>Workstreams\<close> has the merge verb, the
    snapshots and the retention sweep.

  \<^bold>\<open>Conventions.\<close> A class or closure is a record of its state and a function per operation that returns the new
  state; calls it makes on others are returned as a log. A refusal or exception is the left side of a sum. A
  database table is a keyed store in insertion order with the constraints the DDL enforces; a call that throws
  leaves it alone, except where the code has executed a statement before the error. Concurrency is the order of
  steps: a theorem about a history holds for every interleaving. Clocks, id factories, processes, the SDK runner,
  executors, SHA-256, decimal notation and \<open>JSON.parse\<close> are arguments of the definitions.

  \<^bold>\<open>Bounds.\<close> No definition uses fuel: recursion is structural, or by a measure (the templates, the chunk
  lists, Kahn's queue). A walk of a pipeline ends because its resumptions decrease in a well-founded order, built
  from the remaining steps, passes and attempts; retries are capped by the document, loops by their maximum
  iterations, a fan-out by \<open>maxParallel\<close>, itself at most 16. Offsets and sequence numbers are natural numbers behind the
  guard for safe integers; the wire carries them as 64-bit words, bytes are 8-bit words. Numbers that are not
  integers are exact rationals, so rounding of doubles is outside the model.

  \<^bold>\<open>Not modelled.\<close> The validators of the WebSocket messages (shape checks without state), the gateway's socket
  handling, process and PTY spawning, the vendor SDK and backend adapters, telemetry readers and the read models
  over them, the file-system scan for capabilities, the composition root, the database driver, the client's
  transport and user interface, the Rust shell, test kits and demos: these are input and output, or third-party
  calls, around the components above. Of the pressure probe only the state machine is modelled, not the parsing of
  macOS tool output; of the workstreams neither the drafting of briefs, nor the reconciler and the hooks. Logging is left out.

  The properties below and in the theories are numbered C1 to C40 in the order of their importance.
\<close>

section \<open>From the producer to the terminal\<close>

text \<open>Claim C1: the terminal shows the session's output. Run the gateway stream through any history
  of calls, encode every slice it hands out as a wire frame, let the network deliver the frames in
  any order, any number of times or not at all (reconnects, replays, several consumers), decode
  them and feed the client's tracker. What is written to the terminal is then exactly the
  producer's accepted output from the starting watermark on, as far as it got, and the client's
  acknowledgements increase strictly and never pass what was written.\<close>

theorem terminal_shows_gateway_stream:
  assumes "new_stream opts = Inr s0" "stream_run s0 ops = (s, es)"
    and "list_all (arrives sid (stream_frames opts ops)) evs"
    and "new_tracker (num w) = Some t" "w \<le> length (accepted s0 ops)"
    and "tracker_run t evs = (t', written, sent)"
  shows "written = take (length written) (drop w (accepted s0 ops)) \<and> t_expected t' = w + length written
    \<and> sorted_wrt (<) sent \<and> (\<forall>n\<in>set sent. n \<le> w + length written)"
  using gw.terminal_shows_stream [OF _ assms(3,4) _ assms(6)] assms(1,5) by (simp add: stream_produced_def)

theorem terminal_shows_gateway_stream_witness:
  "fst (snd (tracker_run \<lparr>t_expected = 0, t_consumed = 0, t_acked = 0, t_replayRequestedAt = None\<rparr>
      [Deliver (num 1) [8], Deliver (num 0) [7, 8], Deliver (num 1) [8]])) = [7, 8]"
proof -
  let ?ops = "[SPush [7, 8], SAttach 0, SReplay 0 1]"
  let ?t = "\<lparr>t_expected = 0, t_consumed = 0, t_acked = 0, t_replayRequestedAt = None\<rparr>"
  let ?evs = "[Deliver (num 1) [8], Deliver (num 0) [7, 8], Deliver (num 1) [8]]"
  have fr: "stream_frames small_opts ?ops = [(0, [7, 8]), (1, [8])]"
    unfolding stream_frames_def new_small_stream by (simp add: stream_eval)
  have w: "ptySinkFor_deliver ''s1'' (0, [7, 8]) = Inr [0xab, 1, 1, 2, 0, 0, 0, 0, 0, 0, 0, 0, 0, 0, 0, 2, 0x73, 0x31, 7, 8]"
    "ptySinkFor_deliver ''s1'' (1, [8]) = Inr [0xab, 1, 1, 2, 0, 0, 0, 0, 0, 0, 0, 1, 0, 0, 0, 1, 0x73, 0x31, 8]"
    by (simp_all add: ptySinkFor_deliver_def frame_eval)
  have d: "routeBrokerFrame_binary [0xab, 1, 1, 2, 0, 0, 0, 0, 0, 0, 0, 0, 0, 0, 0, 2, 0x73, 0x31, 7, 8] = Some (Deliver (num 0) [7, 8])"
    "routeBrokerFrame_binary [0xab, 1, 1, 2, 0, 0, 0, 0, 0, 0, 0, 1, 0, 0, 0, 1, 0x73, 0x31, 8] = Some (Deliver (num 1) [8])"
    using w by (simp_all add: ptySinkFor_deliver_def frame_roundtrip routeBrokerFrame_binary_def)
  have a: "list_all (arrives ''s1'' (stream_frames small_opts ?ops)) ?evs"
    unfolding fr using w d by (simp add: arrives_def)
  have nt: "new_tracker (num 0) = Some ?t" by (simp add: new_tracker_def)
  have run: "tracker_run ?t ?evs =
      (\<lparr>t_expected = 2, t_consumed = 0, t_acked = 0, t_replayRequestedAt = None\<rparr>, [7, 8], [])"
    by (simp add: tracker_step_def tracker_accept_def max_safe_nat_def Let_def)
  have acc: "accepted small_stream ?ops = [7, 8]" by (simp add: stream_eval)
  have "[7, 8] = take (length [7, 8 :: byte]) (drop 0 (accepted small_stream ?ops))"
    using terminal_shows_gateway_stream [OF new_small_stream prod.collapse [symmetric] a nt _ run]
    by (simp del: stream_run.simps accepted.simps)
  then show ?thesis using run acc by simp
qed

end
